(* ===== verification/Prelude.thy ===== *)
theory Prelude
  imports Main "HOL-Library.Word" "HOL-Library.Signed_Division"
begin

text \<open>
  Shared vocabulary of the development: the outcome type of C functions that may abort, the
  integer types of the source, byte memory with typed loads and stores, and the generic
  lemmas on outcomes and memory that the component theories rest on.
\<close>

unbundle bit_operations_syntax

named_theorems res_simps \<open>unfolding of the outcome combinators\<close>
named_theorems mem_simps \<open>typed loads and stores on byte memory\<close>


section \<open>Integer types of the source\<close>

type_synonym u8 = "8 word"
type_synonym u16 = "16 word"
type_synonym u32 = "32 word"
type_synonym u64 = "64 word"


section \<open>Outcomes\<close>

text \<open>
  A C function of the server either returns, or stops the process. \<open>Abort\<close> is a failed
  \<open>spice_assert\<close> or a \<open>spice_error\<close>/\<open>spice_critical\<close> at the default abort level (log.c calls
  \<open>abort()\<close>); \<open>NullDeref\<close> is a read or write through a null pointer or a pointer to
  memory that is not allocated; \<open>OutOfBounds\<close> an array access
  past the end; \<open>UndefinedShift\<close> a shift by at least the width of its operand; \<open>DivByZero\<close> a division or
  remainder by zero; \<open>Overlap\<close> a \<open>memcpy\<close> between regions that overlap; \<open>Deadlock\<close> a lock of
  a mutex that is held; \<open>Uninit\<close> the use of a value that was never set; \<open>NoFuel\<close> says that the iteration bound
  given to a loop that need not end was used up.
\<close>

datatype error = Abort | NullDeref | OutOfBounds | UndefinedShift | DivByZero | Overlap | Deadlock | Uninit | NoFuel

type_synonym 'a res = "error + 'a"

definition rbind :: "'a res \<Rightarrow> ('a \<Rightarrow> 'b res) \<Rightarrow> 'b res" where
  "rbind m f = (case m of Inl e \<Rightarrow> Inl e | Inr a \<Rightarrow> f a)"

definition spice_assert :: "bool \<Rightarrow> 'a res \<Rightarrow> 'a res" where
  "spice_assert b k = (if b then k else Inl Abort)"

definition deref :: "'a option \<Rightarrow> 'a res" where
  "deref p = (case p of None \<Rightarrow> Inl NullDeref | Some a \<Rightarrow> Inr a)"

text \<open>
  \<open>spice_critical\<close> aborts when the abort level is at most CRITICAL, its default; the environment
  variable \<open>SPICE_ABORT_LEVEL\<close> can raise the level, and then the statement after it runs.
\<close>

definition spice_critical :: "bool \<Rightarrow> 'a res \<Rightarrow> 'a res" where
  "spice_critical fatal k = (if fatal then Inl Abort else k)"

definition index_list :: "'a list \<Rightarrow> int \<Rightarrow> 'a res" where
  "index_list xs i = (if 0 \<le> i \<and> i < int (length xs) then Inr (xs ! nat i) else Inl OutOfBounds)"

definition shl :: "'w::len word \<Rightarrow> int \<Rightarrow> 'w word res" where
  "shl v n = (if 0 \<le> n \<and> n < int LENGTH('w) then Inr (push_bit (nat n) v) else Inl UndefinedShift)"

definition shr :: "'w::len word \<Rightarrow> int \<Rightarrow> 'w word res" where
  "shr v n = (if 0 \<le> n \<and> n < int LENGTH('w) then Inr (drop_bit (nat n) v) else Inl UndefinedShift)"

lemma rbind_simps [simp, res_simps]:
  "rbind (Inl e) f = Inl e"
  "rbind (Inr a) f = f a"
  by (simp_all add: rbind_def)

lemma rbind_eq_Inr [simp]: "rbind m f = Inr y \<longleftrightarrow> (\<exists>x. m = Inr x \<and> f x = Inr y)"
  by (cases m) auto

lemma rbind_cong [fundef_cong]:
  "m = m' \<Longrightarrow> (\<And>x. m' = Inr x \<Longrightarrow> f x = f' x) \<Longrightarrow> rbind m f = rbind m' f'"
  by (cases m') auto

lemma rbind_assoc: "rbind (rbind m f) g = rbind m (\<lambda>x. rbind (f x) g)"
  by (cases m) auto

lemma spice_assert_simps [simp, res_simps]:
  "spice_assert True k = k"
  "spice_assert False k = Inl Abort"
  by (simp_all add: spice_assert_def)

lemma spice_assert_eq_Inr [simp]: "spice_assert b k = Inr y \<longleftrightarrow> b \<and> k = Inr y"
  by (simp add: spice_assert_def)

lemma spice_critical_simps [simp, res_simps]:
  "spice_critical True k = Inl Abort"
  "spice_critical False k = k"
  by (simp_all add: spice_critical_def)

lemma spice_critical_eq_Inr [simp]: "spice_critical f k = Inr y \<longleftrightarrow> \<not> f \<and> k = Inr y"
  by (simp add: spice_critical_def)

lemma index_list_in [simp]: "n < length xs \<Longrightarrow> index_list xs (int n) = Inr (xs ! n)"
  by (simp add: index_list_def)

lemma less_16_cases: "n < 16 \<Longrightarrow> n \<in> {0, 1, 2, 3, 4, 5, 6, 7, 8, 9, 10, 11, 12, 13, 14, 15 :: nat}"
  by simp presburger

lemma take_bit_unat [simp]: "LENGTH('w) \<le> n \<Longrightarrow> take_bit n (unat (w :: 'w::len word)) = unat w"
  by (meson order_less_le_trans power_increasing_iff take_bit_nat_eq_self unsigned_less one_less_numeral_iff
      semiring_norm(76))

lemma unat_of_nat_small: "n < 2 ^ LENGTH('w) \<Longrightarrow> unat (of_nat n :: 'w::len word) = n"
  by (simp add: unsigned_of_nat take_bit_nat_eq_self)

lemma of_nat_eq_word_iff: "n < 2 ^ LENGTH('w) \<Longrightarrow> of_nat n = (w :: 'w::len word) \<longleftrightarrow> n = unat w"
  by (metis unat_of_nat_small of_nat_unat ucast_id)

lemma bit_nat_small: "n < 2 ^ k \<Longrightarrow> bit (n :: nat) j \<Longrightarrow> j < k"
  by (metis bit_take_bit_iff take_bit_nat_eq_self)

lemma uint_less_of_unat: "uint g < int n \<longleftrightarrow> unat g < n"
  by (metis nat_uint_eq nat_less_iff uint_nonnegative)

lemma uint_add_less: "unat a + unat b < n \<Longrightarrow> uint a + uint b < int n"
  by (metis of_nat_add of_nat_less_iff of_nat_unat)

lemma index_list_uint [simp]:
  "index_list xs (uint g) = (if unat g < length xs then Inr (xs ! unat g) else Inl OutOfBounds)"
  by (simp add: index_list_def uint_less_of_unat)

lemma sint_eq_uint_small: "(g :: u32) < 0x80000000 \<Longrightarrow> sint g = uint g"
  unfolding sint_uint by (rule signed_take_bit_int_eq_self) (auto simp: word_less_def order_trans [OF _ uint_nonnegative])

lemma sint_small64: "unat (w :: u64) < 2 ^ 63 \<Longrightarrow> sint w = uint w"
  unfolding sint_uint by (rule signed_take_bit_int_eq_self)
    (auto simp: order_trans [OF _ uint_nonnegative] uint_less_of_unat [of w "2 ^ 63", simplified])

lemma sint_nonneg_small: "unat (w :: u64) < 2 ^ 63 \<Longrightarrow> \<not> sint w < 0"
  by (simp add: sint_small64 not_less)

lemma sint_neg_diff:
  assumes "unat (x :: u64) < unat y" "unat y < 2 ^ 62"
  shows "sint (x - y) < 0"
proof -
  have s: "sint x = uint x" "sint y = uint y" using assms by (simp_all add: sint_small64)
  have u: "uint x < uint y" "uint y < 2 ^ 62" "0 \<le> uint x"
    using assms uint_less_of_unat [of y "2 ^ 62"] by (simp_all add: word_less_nat_alt flip: word_less_def)
  have "sint (x - y) = signed_take_bit 63 (uint x - uint y)" by (simp add: sint_word_ariths s)
  also have "signed_take_bit 63 (a - b) = a - b" if "0 \<le> a" "a < b" "b < 2 ^ 62" for a b :: int
    by (rule signed_take_bit_int_eq_self) (use that in auto)
  from this [OF u(3,1,2)] have "signed_take_bit 63 (uint x - uint y) = uint x - uint y" .
  finally show ?thesis using u by simp
qed

lemma index_list_eq_Inr: "index_list xs i = Inr x \<longleftrightarrow> 0 \<le> i \<and> nat i < length xs \<and> x = xs ! nat i"
  by (auto simp: index_list_def)

lemma deref_simps [simp, res_simps]:
  "deref None = Inl NullDeref"
  "deref (Some a) = Inr a"
  by (simp_all add: deref_def)

lemma deref_eq_Inr [simp]: "deref p = Inr a \<longleftrightarrow> p = Some a"
  by (cases p) auto


section \<open>Outcomes that are an abort or as wanted\<close>

definition aborts_or :: "('a \<Rightarrow> bool) \<Rightarrow> 'a res \<Rightarrow> bool" where
  "aborts_or P r \<longleftrightarrow> (case r of Inl e \<Rightarrow> e = Abort | Inr x \<Rightarrow> P x)"

lemma aborts_or_simps [simp]: "aborts_or P (Inl e) \<longleftrightarrow> e = Abort" "aborts_or P (Inr x) \<longleftrightarrow> P x"
  by (simp_all add: aborts_or_def)

lemma aborts_or_bind: "aborts_or P m \<Longrightarrow> (\<And>x. P x \<Longrightarrow> aborts_or Q (h x)) \<Longrightarrow> aborts_or Q (rbind m h)"
  by (cases m) simp_all

lemma aborts_or_assert: "(b \<Longrightarrow> aborts_or P r) \<Longrightarrow> aborts_or P (spice_assert b r)"
  by (simp add: spice_assert_def)

lemma aborts_or_mono: "aborts_or P r \<Longrightarrow> (\<And>x. P x \<Longrightarrow> Q x) \<Longrightarrow> aborts_or Q r"
  by (cases r) simp_all


section \<open>Byte memory\<close>

text \<open>
  Memory is a map from byte addresses to bytes. A load or a store of a \<open>w\<close>-bit object reads or
  writes \<open>w div 8\<close> consecutive bytes in little-endian order, as on the x86 hosts the server is
  built for.
\<close>

type_synonym mem = "int \<Rightarrow> u8"

definition sizeof :: "'w::len itself \<Rightarrow> int" where
  "sizeof _ = int (LENGTH('w) div 8)"

definition load :: "mem \<Rightarrow> int \<Rightarrow> 'w::len word" where
  "load m a = horner_sum of_bool 2
     (map (\<lambda>k. bit (m (a + int (k div 8))) (k mod 8)) [0..<LENGTH('w)])"

definition store :: "mem \<Rightarrow> int \<Rightarrow> 'w::len word \<Rightarrow> mem" where
  "store m a v = (\<lambda>x. if a \<le> x \<and> x < a + int (LENGTH('w) div 8)
     then ucast (drop_bit (8 * nat (x - a)) v) else m x)"

lemma bit_load:
  "bit (load m a :: 'w::len word) k \<longleftrightarrow> k < LENGTH('w) \<and> bit (m (a + int (k div 8))) (k mod 8)"
  by (auto simp: load_def bit_horner_sum_bit_word_iff)

lemma load_zero [simp]: "load (\<lambda>_. 0) a = 0"
  by (rule bit_word_eqI) (simp add: bit_load)

lemma load_cong:
  assumes "\<And>x. a \<le> x \<Longrightarrow> x < a + int (LENGTH('w::len) div 8) \<Longrightarrow> m x = m' x"
    and "8 dvd LENGTH('w)"
  shows "(load m a :: 'w word) = load m' a"
proof (rule bit_word_eqI)
  fix k assume k: "k < LENGTH('w)"
  with assms(2) have "k div 8 < LENGTH('w) div 8" by auto
  with assms(1) have "m (a + int (k div 8)) = m' (a + int (k div 8))" by simp
  then show "bit (load m a :: 'w word) k \<longleftrightarrow> bit (load m' a :: 'w word) k"
    by (simp add: bit_load)
qed

lemma load_store_same [mem_simps]:
  assumes "8 dvd LENGTH('w::len)"
  shows "load (store m a (v :: 'w word)) a = v"
proof (rule bit_word_eqI)
  fix k assume k: "k < LENGTH('w)"
  with assms have "k div 8 < LENGTH('w) div 8" by auto
  with k show "bit (load (store m a v) a :: 'w word) k \<longleftrightarrow> bit v k"
    by (auto simp: bit_load store_def bit_simps nat_mult_distrib)
qed

lemma store_outside [mem_simps]:
  "x < a \<or> a + sizeof TYPE('w) \<le> x \<Longrightarrow> store m a (v :: 'w::len word) x = m x"
  by (auto simp: store_def sizeof_def)

lemma load_store_disjoint [mem_simps]:
  assumes "8 dvd LENGTH('v::len)"
    and "b + sizeof TYPE('v) \<le> a \<or> a + sizeof TYPE('w) \<le> b"
  shows "(load (store m a (v :: 'w::len word)) b :: 'v word) = load m b"
  using assms by (intro load_cong) (auto simp: store_def sizeof_def)

lemma sizeof_word [simp]:
  "sizeof TYPE(8) = 1" "sizeof TYPE(16) = 2" "sizeof TYPE(32) = 4" "sizeof TYPE(64) = 8"
  by (simp_all add: sizeof_def)


section \<open>Words as bytes\<close>

text \<open>Little-endian bytes of a word, and of a 32-bit word.\<close>

fun le_bytes :: "u8 list \<Rightarrow> 'w::len word" where
  "le_bytes [] = 0"
| "le_bytes (b # bs) = ucast b OR push_bit 8 (le_bytes bs)"

definition word_bytes :: "u32 \<Rightarrow> u8 list" where
  "word_bytes v = [ucast v, ucast (drop_bit 8 v), ucast (drop_bit 16 v), ucast (drop_bit 24 v)]"

lemma length_word_bytes [simp]: "length (word_bytes v) = 4" "word_bytes v \<noteq> []"
  by (simp_all add: word_bytes_def)

lemma le_bytes_word [simp]: "le_bytes (word_bytes v) = v"
proof (rule bit_word_eqI)
  fix n assume "n < LENGTH(32)"
  then consider "n < 8" | "8 \<le> n" "n < 16" | "16 \<le> n" "n < 24" | "24 \<le> n" "n < 32" by fastforce
  then show "bit (le_bytes (word_bytes v) :: u32) n = bit v n"
    by cases (simp_all add: word_bytes_def bit_or_iff bit_push_bit_iff bit_unsigned_iff bit_drop_bit_eq, linarith+)
qed


section \<open>Simulation\<close>

text \<open>
  An implementation with states \<open>'s\<close> that refines a specification with states \<open>'a\<close> operation by operation, for
  the operations the specification allows in a state. Sequences of operations then refine it too; a
  sequence ends at the first operation that does not return.
\<close>

fun run_ops :: "('op \<Rightarrow> 's \<Rightarrow> ('out \<times> 's) res) \<Rightarrow> 'op list \<Rightarrow> 's \<Rightarrow> ('out list \<times> 's) res" where
  "run_ops step [] s = Inr ([], s)"
| "run_ops step (op # ops) s = rbind (step op s) (\<lambda>(out, s). rbind (run_ops step ops s) (\<lambda>(outs, s). Inr (out # outs, s)))"

fun run_allowed :: "('op \<Rightarrow> 'a \<Rightarrow> ('out \<times> 'a) res) \<Rightarrow> ('op \<Rightarrow> 'a \<Rightarrow> bool) \<Rightarrow> 'op list \<Rightarrow> 'a \<Rightarrow> bool" where
  "run_allowed spec ok [] a = True"
| "run_allowed spec ok (op # ops) a = (ok op a \<and> (case spec op a of Inl e \<Rightarrow> True | Inr (out, a') \<Rightarrow> run_allowed spec ok ops a'))"

lemma run_allowed_mono: "run_allowed spec ok ops a \<Longrightarrow> (\<And>op a. ok op a \<Longrightarrow> ok' op a) \<Longrightarrow> run_allowed spec ok' ops a"
  by (induction ops arbitrary: a) (auto split: sum.splits)

locale simulation =
  fixes rep :: "'s \<Rightarrow> 'a \<Rightarrow> bool"
    and step :: "'op \<Rightarrow> 's \<Rightarrow> ('out \<times> 's) res"
    and spec :: "'op \<Rightarrow> 'a \<Rightarrow> ('out \<times> 'a) res"
    and ok :: "'op \<Rightarrow> 'a \<Rightarrow> bool"
  assumes step_simulated: "rep s a \<Longrightarrow> ok op a \<Longrightarrow>
    case spec op a of Inl e \<Rightarrow> step op s = Inl e | Inr (out, a') \<Rightarrow> \<exists>s'. step op s = Inr (out, s') \<and> rep s' a'"
begin

lemma run_simulated:
  "rep s a \<Longrightarrow> run_allowed spec ok ops a \<Longrightarrow>
    case run_ops spec ops a of Inl e \<Rightarrow> run_ops step ops s = Inl e
    | Inr (outs, a') \<Rightarrow> \<exists>s'. run_ops step ops s = Inr (outs, s') \<and> rep s' a'"
proof (induction ops arbitrary: s a)
  case (Cons op ops)
  show ?case
  proof (cases "spec op a")
    case (Inl e)
    then show ?thesis using step_simulated [of s a op] Cons.prems by simp
  next
    case (Inr r)
    obtain out a' where r: "r = (out, a')" by (cases r)
    obtain s' where s': "step op s = Inr (out, s')" "rep s' a'" using step_simulated [of s a op] Cons.prems Inr r by auto
    have "run_allowed spec ok ops a'" using Cons.prems(2) Inr r by simp
    from Cons.IH [OF s'(2) this] show ?thesis using s'(1) Inr r by (auto split: sum.splits)
  qed
qed simp

end

end
