(* ===== verification/Rop3_Table.thy ===== *)
theory Rop3_Table
  imports Prelude
begin

text \<open>
  Ternary raster operations (spice-common/common/rop3.c). The macro \<open>ROP3_HANDLERS\<close> expands one
  formula over \<open>*pat\<close>, \<open>*src\<close> and \<open>*dest\<close> into a pattern handler, a colour handler and a self test at
  depths 32 and 16; \<open>ROP3_FILL_HANDLERS\<close> enters them into the dispatch tables. The formulas are the
  macro's arguments (\<open>rop_formula\<close>); this theory holds them, the dispatch tables and the self tests,
  and shows that every entry computes the raster operation its index names and that exactly the
  operations which depend on all three operands have an entry.
\<close>

section \<open>Formulas and their meaning\<close>

datatype rop_formula =
    RPat | RSrc | RDest
  | RNot rop_formula
  | RAnd rop_formula rop_formula
  | ROr rop_formula rop_formula
  | RXor rop_formula rop_formula

primrec eval_formula :: "rop_formula \<Rightarrow> 'w::len word \<Rightarrow> 'w word \<Rightarrow> 'w word \<Rightarrow> 'w word" where
  "eval_formula RPat p s d = p"
| "eval_formula RSrc p s d = s"
| "eval_formula RDest p s d = d"
| "eval_formula (RNot f) p s d = NOT (eval_formula f p s d)"
| "eval_formula (RAnd f g) p s d = eval_formula f p s d AND eval_formula g p s d"
| "eval_formula (ROr f g) p s d = eval_formula f p s d OR eval_formula g p s d"
| "eval_formula (RXor f g) p s d = eval_formula f p s d XOR eval_formula g p s d"

text \<open>The \<open>ROP3_HANDLERS\<close> lines: handler name, formula, index.\<close>

definition rop3_handlers_1 :: "(string \<times> rop_formula \<times> u8) list" where
  "rop3_handlers_1 =
    [(''DPSoon'', RNot (ROr (ROr RPat RSrc) RDest), 0x01),
     (''DPSona'', RAnd (RNot (ROr RPat RSrc)) RDest, 0x02),
     (''SDPona'', RAnd (RNot (ROr RPat RDest)) RSrc, 0x04),
     (''PDSxnon'', RNot (ROr (RNot (RXor RSrc RDest)) RPat), 0x06),
     (''PDSaon'', RNot (ROr (RAnd RSrc RDest) RPat), 0x07),
     (''SDPnaa'', RAnd (RAnd (RNot RPat) RDest) RSrc, 0x08),
     (''PDSxon'', RNot (ROr (RXor RSrc RDest) RPat), 0x09),
     (''PSDnaon'', RNot (ROr (RAnd (RNot RDest) RSrc) RPat), 0x0B),
     (''PDSnaon'', RNot (ROr (RAnd (RNot RSrc) RDest) RPat), 0x0D),
     (''PDSonon'', RNot (ROr (RNot (ROr RSrc RDest)) RPat), 0x0E),
     (''PDSona'', RAnd (RNot (ROr RSrc RDest)) RPat, 0x10),
     (''SDPxnon'', RNot (ROr (RNot (RXor RPat RDest)) RSrc), 0x12),
     (''SDPaon'', RNot (ROr (RAnd RPat RDest) RSrc), 0x13),
     (''DPSxnon'', RNot (ROr (RNot (RXor RPat RSrc)) RDest), 0x14),
     (''DPSaon'', RNot (ROr (RAnd RPat RSrc) RDest), 0x15),
     (''PSDPSanaxx'', RXor (RXor (RAnd (RNot (RAnd RPat RSrc)) RDest) RSrc) RPat, 0x16),
     (''SSPxDSxaxn'', RNot (RXor (RAnd (RXor RSrc RDest) (RXor RSrc RPat)) RSrc), 0x17),
     (''SPxPDxa'', RAnd (RXor RSrc RPat) (RXor RPat RDest), 0x18),
     (''SDPSanaxn'', RNot (RXor (RAnd (RNot (RAnd RPat RSrc)) RDest) RSrc), 0x19),
     (''PDSPaox'', RXor (ROr (RAnd RPat RSrc) RDest) RPat, 0x1A),
     (''SDPSxaxn'', RNot (RXor (RAnd (RXor RPat RSrc) RDest) RSrc), 0x1B),
     (''PSDPaox'', RXor (ROr (RAnd RPat RDest) RSrc) RPat, 0x1C),
     (''DSPDxaxn'', RNot (RXor (RAnd (RXor RPat RDest) RSrc) RDest), 0x1D),
     (''PDSox'', RXor (ROr RDest RSrc) RPat, 0x1E),
     (''PDSoan'', RNot (RAnd (ROr RSrc RDest) RPat), 0x1F),
     (''DPSnaa'', RAnd (RAnd (RNot RSrc) RPat) RDest, 0x20),
     (''SDPxon'', RNot (ROr (RXor RPat RDest) RSrc), 0x21),
     (''SPDnaon'', RNot (ROr (RAnd (RNot RDest) RPat) RSrc), 0x23),
     (''SPxDSxa'', RAnd (RXor RSrc RPat) (RXor RDest RSrc), 0x24),
     (''PDSPanaxn'', RNot (RXor (RAnd (RNot (RAnd RSrc RPat)) RDest) RPat), 0x25),
     (''SDPSaox'', RXor (ROr (RAnd RSrc RPat) RDest) RSrc, 0x26),
     (''SDPSxnox'', RXor (ROr (RNot (RXor RSrc RPat)) RDest) RSrc, 0x27),
     (''DPSxa'', RAnd (RXor RPat RSrc) RDest, 0x28),
     (''PSDPSaoxxn'', RNot (RXor (RXor (ROr (RAnd RSrc RPat) RDest) RSrc) RPat), 0x29),
     (''DPSana'', RAnd (RNot (RAnd RSrc RPat)) RDest, 0x2A),
     (''SSPxPDxaxn'', RNot (RXor (RAnd (RXor RPat RDest) (RXor RSrc RPat)) RSrc), 0x2B),
     (''SPDSoax'', RXor (RAnd (ROr RSrc RDest) RPat) RSrc, 0x2C),
     (''PSDnox'', RXor (ROr (RNot RDest) RSrc) RPat, 0x2D),
     (''PSDPxox'', RXor (ROr (RXor RPat RDest) RSrc) RPat, 0x2E),
     (''PSDnoan'', RNot (RAnd (ROr (RNot RDest) RSrc) RPat), 0x2F),
     (''SDPnaon'', RNot (ROr (RAnd (RNot RPat) RDest) RSrc), 0x31),
     (''SDPSoox'', RXor (ROr (ROr RSrc RPat) RDest) RSrc, 0x32),
     (''SPDSaox'', RXor (ROr (RAnd RSrc RDest) RPat) RSrc, 0x34),
     (''SPDSxnox'', RXor (ROr (RNot (RXor RSrc RDest)) RPat) RSrc, 0x35),
     (''SDPox'', RXor (ROr RPat RDest) RSrc, 0x36),
     (''SDPoan'', RNot (RAnd (ROr RPat RDest) RSrc), 0x37),
     (''PSDPoax'', RXor (RAnd (ROr RPat RDest) RSrc) RPat, 0x38),
     (''SPDnox'', RXor (ROr (RNot RDest) RPat) RSrc, 0x39),
     (''SPDSxox'', RXor (ROr (RXor RSrc RDest) RPat) RSrc, 0x3A),
     (''SPDnoan'', RNot (RAnd (ROr (RNot RDest) RPat) RSrc), 0x3B),
     (''SPDSonox'', RXor (ROr (RNot (ROr RSrc RDest)) RPat) RSrc, 0x3D),
     (''SPDSnaox'', RXor (ROr (RAnd (RNot RSrc) RDest) RPat) RSrc, 0x3E),
     (''PSDnaa'', RAnd (RAnd (RNot RDest) RSrc) RPat, 0x40),
     (''DPSxon'', RNot (ROr (RXor RSrc RPat) RDest), 0x41),
     (''SDxPDxa'', RAnd (RXor RSrc RDest) (RXor RPat RDest), 0x42)]"

definition rop3_handlers_2 :: "(string \<times> rop_formula \<times> u8) list" where
  "rop3_handlers_2 =
    [(''SPDSanaxn'', RNot (RXor (RAnd (RNot (RAnd RSrc RDest)) RPat) RSrc), 0x43),
     (''DPSnaon'', RNot (ROr (RAnd (RNot RSrc) RPat) RDest), 0x45),
     (''DSPDaox'', RXor (ROr (RAnd RDest RPat) RSrc) RDest, 0x46),
     (''PSDPxaxn'', RNot (RXor (RAnd (RXor RPat RDest) RSrc) RPat), 0x47),
     (''SDPxa'', RAnd (RXor RPat RDest) RSrc, 0x48),
     (''PDSPDaoxxn'', RNot (RXor (RXor (ROr (RAnd RDest RPat) RSrc) RDest) RPat), 0x49),
     (''DPSDoax'', RXor (RAnd (ROr RDest RSrc) RPat) RDest, 0x4A),
     (''PDSnox'', RXor (ROr (RNot RSrc) RDest) RPat, 0x4B),
     (''SDPana'', RAnd (RNot (RAnd RPat RDest)) RSrc, 0x4C),
     (''SSPxDSxoxn'', RNot (RXor (ROr (RXor RSrc RDest) (RXor RSrc RPat)) RSrc), 0x4D),
     (''PDSPxox'', RXor (ROr (RXor RPat RSrc) RDest) RPat, 0x4E),
     (''PDSnoan'', RNot (RAnd (ROr (RNot RSrc) RDest) RPat), 0x4F),
     (''DSPnaon'', RNot (ROr (RAnd (RNot RPat) RSrc) RDest), 0x51),
     (''DPSDaox'', RXor (ROr (RAnd RDest RSrc) RPat) RDest, 0x52),
     (''SPDSxaxn'', RNot (RXor (RAnd (RXor RSrc RDest) RPat) RSrc), 0x53),
     (''DPSonon'', RNot (ROr (RNot (ROr RSrc RPat)) RDest), 0x54),
     (''DPSox'', RXor (ROr RSrc RPat) RDest, 0x56),
     (''DPSoan'', RNot (RAnd (ROr RSrc RPat) RDest), 0x57),
     (''PDSPoax'', RXor (RAnd (ROr RPat RSrc) RDest) RPat, 0x58),
     (''DPSnox'', RXor (ROr (RNot RSrc) RPat) RDest, 0x59),
     (''DPSDonox'', RXor (ROr (RNot (ROr RDest RSrc)) RPat) RDest, 0x5B),
     (''DPSDxox'', RXor (ROr (RXor RDest RSrc) RPat) RDest, 0x5C),
     (''DPSnoan'', RNot (RAnd (ROr (RNot RSrc) RPat) RDest), 0x5D),
     (''DPSDnaox'', RXor (ROr (RAnd (RNot RDest) RSrc) RPat) RDest, 0x5E),
     (''PDSxa'', RAnd (RXor RSrc RDest) RPat, 0x60),
     (''DSPDSaoxxn'', RNot (RXor (RXor (ROr (RAnd RSrc RDest) RPat) RSrc) RDest), 0x61),
     (''DSPDoax'', RXor (RAnd (ROr RDest RPat) RSrc) RDest, 0x62),
     (''SDPnox'', RXor (ROr (RNot RPat) RDest) RSrc, 0x63),
     (''SDPSoax'', RXor (RAnd (ROr RSrc RPat) RDest) RSrc, 0x64),
     (''DSPnox'', RXor (ROr (RNot RPat) RSrc) RDest, 0x65),
     (''SDPSonox'', RXor (ROr (RNot (ROr RSrc RPat)) RDest) RSrc, 0x67),
     (''DSPDSonoxxn'', RNot (RXor (RXor (ROr (RNot (ROr RSrc RDest)) RPat) RSrc) RDest), 0x68),
     (''PDSxxn'', RNot (RXor (RXor RSrc RDest) RPat), 0x69),
     (''DPSax'', RXor (RAnd RSrc RPat) RDest, 0x6A),
     (''PSDPSoaxxn'', RNot (RXor (RXor (RAnd (ROr RSrc RPat) RDest) RSrc) RPat), 0x6B),
     (''SDPax'', RXor (RAnd RPat RDest) RSrc, 0x6C),
     (''PDSPDoaxxn'', RNot (RXor (RXor (RAnd (ROr RDest RPat) RSrc) RDest) RPat), 0x6D),
     (''SDPSnoax'', RXor (RAnd (ROr (RNot RSrc) RPat) RDest) RSrc, 0x6E),
     (''PDSxnan'', RNot (RAnd (RNot (RXor RSrc RDest)) RPat), 0x6F),
     (''PDSana'', RAnd (RNot (RAnd RSrc RDest)) RPat, 0x70),
     (''SSDxPDxaxn'', RNot (RXor (RAnd (RXor RDest RPat) (RXor RSrc RDest)) RSrc), 0x71),
     (''SDPSxox'', RXor (ROr (RXor RSrc RPat) RDest) RSrc, 0x72),
     (''SDPnoan'', RNot (RAnd (ROr (RNot RPat) RDest) RSrc), 0x73),
     (''DSPDxox'', RXor (ROr (RXor RDest RPat) RSrc) RDest, 0x74),
     (''DSPnoan'', RNot (RAnd (ROr (RNot RPat) RSrc) RDest), 0x75),
     (''SDPSnaox'', RXor (ROr (RAnd (RNot RSrc) RPat) RDest) RSrc, 0x76),
     (''PDSax'', RXor (RAnd RSrc RDest) RPat, 0x78),
     (''DSPDSoaxxn'', RNot (RXor (RXor (RAnd (ROr RSrc RDest) RPat) RSrc) RDest), 0x79),
     (''DPSDnoax'', RXor (RAnd (ROr (RNot RDest) RSrc) RPat) RDest, 0x7A),
     (''SDPxnan'', RNot (RAnd (RNot (RXor RPat RDest)) RSrc), 0x7B),
     (''SPDSnoax'', RXor (RAnd (ROr (RNot RSrc) RDest) RPat) RSrc, 0x7C),
     (''DPSxnan'', RNot (RAnd (RNot (RXor RSrc RPat)) RDest), 0x7D),
     (''SPxDSxo'', ROr (RXor RSrc RDest) (RXor RPat RSrc), 0x7E),
     (''DPSaan'', RNot (RAnd (RAnd RSrc RPat) RDest), 0x7F),
     (''DPSaa'', RAnd (RAnd RSrc RPat) RDest, 0x80)]"

definition rop3_handlers_3 :: "(string \<times> rop_formula \<times> u8) list" where
  "rop3_handlers_3 =
    [(''SPxDSxon'', RNot (ROr (RXor RSrc RDest) (RXor RPat RSrc)), 0x81),
     (''DPSxna'', RAnd (RNot (RXor RSrc RPat)) RDest, 0x82),
     (''SPDSnoaxn'', RNot (RXor (RAnd (ROr (RNot RSrc) RDest) RPat) RSrc), 0x83),
     (''SDPxna'', RAnd (RNot (RXor RPat RDest)) RSrc, 0x84),
     (''PDSPnoaxn'', RNot (RXor (RAnd (ROr (RNot RPat) RSrc) RDest) RPat), 0x85),
     (''DSPDSoaxx'', RXor (RXor (RAnd (ROr RSrc RDest) RPat) RSrc) RDest, 0x86),
     (''PDSaxn'', RNot (RXor (RAnd RSrc RDest) RPat), 0x87),
     (''SDPSnaoxn'', RNot (RXor (ROr (RAnd (RNot RSrc) RPat) RDest) RSrc), 0x89),
     (''DSPnoa'', RAnd (ROr (RNot RPat) RSrc) RDest, 0x8A),
     (''DSPDxoxn'', RNot (RXor (ROr (RXor RDest RPat) RSrc) RDest), 0x8B),
     (''SDPnoa'', RAnd (ROr (RNot RPat) RDest) RSrc, 0x8C),
     (''SDPSxoxn'', RNot (RXor (ROr (RXor RSrc RPat) RDest) RSrc), 0x8D),
     (''SSDxPDxax'', RXor (RAnd (RXor RDest RPat) (RXor RDest RSrc)) RSrc, 0x8E),
     (''PDSanan'', RNot (RAnd (RNot (RAnd RSrc RDest)) RPat), 0x8F),
     (''PDSxna'', RAnd (RNot (RXor RSrc RDest)) RPat, 0x90),
     (''SDPSnoaxn'', RNot (RXor (RAnd (ROr (RNot RSrc) RPat) RDest) RSrc), 0x91),
     (''DPSDPoaxx'', RXor (RXor (RAnd (ROr RPat RDest) RSrc) RPat) RDest, 0x92),
     (''SPDaxn'', RNot (RXor (RAnd RDest RPat) RSrc), 0x93),
     (''PSDPSoaxx'', RXor (RXor (RAnd (ROr RSrc RPat) RDest) RSrc) RPat, 0x94),
     (''DPSaxn'', RNot (RXor (RAnd RSrc RPat) RDest), 0x95),
     (''DPSxx'', RXor (RXor RSrc RPat) RDest, 0x96),
     (''PSDPSonoxx'', RXor (RXor (ROr (RNot (ROr RSrc RPat)) RDest) RSrc) RPat, 0x97),
     (''SDPSonoxn'', RNot (RXor (ROr (RNot (ROr RSrc RPat)) RDest) RSrc), 0x98),
     (''DPSnax'', RXor (RAnd (RNot RSrc) RPat) RDest, 0x9A),
     (''SDPSoaxn'', RNot (RXor (RAnd (ROr RSrc RPat) RDest) RSrc), 0x9B),
     (''SPDnax'', RXor (RAnd (RNot RDest) RPat) RSrc, 0x9C),
     (''DSPDoaxn'', RNot (RXor (RAnd (ROr RDest RPat) RSrc) RDest), 0x9D),
     (''DSPDSaoxx'', RXor (RXor (ROr (RAnd RSrc RDest) RPat) RSrc) RDest, 0x9E),
     (''PDSxan'', RNot (RAnd (RXor RSrc RDest) RPat), 0x9F),
     (''PDSPnaoxn'', RNot (RXor (ROr (RAnd (RNot RPat) RSrc) RDest) RPat), 0xA1),
     (''DPSnoa'', RAnd (ROr (RNot RSrc) RPat) RDest, 0xA2),
     (''DPSDxoxn'', RNot (RXor (ROr (RXor RDest RSrc) RPat) RDest), 0xA3),
     (''PDSPonoxn'', RNot (RXor (ROr (RNot (ROr RPat RSrc)) RDest) RPat), 0xA4),
     (''DSPnax'', RXor (RAnd (RNot RPat) RSrc) RDest, 0xA6),
     (''PDSPoaxn'', RNot (RXor (RAnd (ROr RPat RSrc) RDest) RPat), 0xA7),
     (''DPSoa'', RAnd (ROr RSrc RPat) RDest, 0xA8),
     (''DPSoxn'', RNot (RXor (ROr RSrc RPat) RDest), 0xA9),
     (''DPSono'', ROr (RNot (ROr RSrc RPat)) RDest, 0xAB),
     (''SPDSxax'', RXor (RAnd (RXor RSrc RDest) RPat) RSrc, 0xAC),
     (''DPSDaoxn'', RNot (RXor (ROr (RAnd RDest RSrc) RPat) RDest), 0xAD),
     (''DSPnao'', ROr (RAnd (RNot RPat) RSrc) RDest, 0xAE),
     (''PDSnoa'', RAnd (ROr (RNot RSrc) RDest) RPat, 0xB0),
     (''PDSPxoxn'', RNot (RXor (ROr (RXor RPat RSrc) RDest) RPat), 0xB1),
     (''SSPxDSxox'', RXor (ROr (RXor RSrc RDest) (RXor RPat RSrc)) RSrc, 0xB2),
     (''SDPanan'', RNot (RAnd (RNot (RAnd RPat RDest)) RSrc), 0xB3),
     (''PSDnax'', RXor (RAnd (RNot RDest) RSrc) RPat, 0xB4),
     (''DPSDoaxn'', RNot (RXor (RAnd (ROr RDest RSrc) RPat) RDest), 0xB5),
     (''DPSDPaoxx'', RXor (RXor (ROr (RAnd RPat RDest) RSrc) RPat) RDest, 0xB6),
     (''SDPxan'', RNot (RAnd (RXor RPat RDest) RSrc), 0xB7),
     (''PSDPxax'', RXor (RAnd (RXor RDest RPat) RSrc) RPat, 0xB8),
     (''DSPDaoxn'', RNot (RXor (ROr (RAnd RDest RPat) RSrc) RDest), 0xB9),
     (''DPSnao'', ROr (RAnd (RNot RSrc) RPat) RDest, 0xBA),
     (''SPDSanax'', RXor (RAnd (RNot (RAnd RSrc RDest)) RPat) RSrc, 0xBC),
     (''SDxPDxan'', RNot (RAnd (RXor RDest RPat) (RXor RDest RSrc)), 0xBD),
     (''DPSxo'', ROr (RXor RSrc RPat) RDest, 0xBE)]"

definition rop3_handlers_4 :: "(string \<times> rop_formula \<times> u8) list" where
  "rop3_handlers_4 =
    [(''DPSano'', ROr (RNot (RAnd RSrc RPat)) RDest, 0xBF),
     (''SPDSnaoxn'', RNot (RXor (ROr (RAnd (RNot RSrc) RDest) RPat) RSrc), 0xC1),
     (''SPDSonoxn'', RNot (RXor (ROr (RNot (ROr RSrc RDest)) RPat) RSrc), 0xC2),
     (''SPDnoa'', RAnd (ROr (RNot RDest) RPat) RSrc, 0xC4),
     (''SPDSxoxn'', RNot (RXor (ROr (RXor RSrc RDest) RPat) RSrc), 0xC5),
     (''SDPnax'', RXor (RAnd (RNot RPat) RDest) RSrc, 0xC6),
     (''PSDPoaxn'', RNot (RXor (RAnd (ROr RPat RDest) RSrc) RPat), 0xC7),
     (''SDPoa'', RAnd (ROr RPat RDest) RSrc, 0xC8),
     (''SPDoxn'', RNot (RXor (ROr RDest RPat) RSrc), 0xC9),
     (''DPSDxax'', RXor (RAnd (RXor RDest RSrc) RPat) RDest, 0xCA),
     (''SPDSaoxn'', RNot (RXor (ROr (RAnd RSrc RDest) RPat) RSrc), 0xCB),
     (''SDPono'', ROr (RNot (ROr RPat RDest)) RSrc, 0xCD),
     (''SDPnao'', ROr (RAnd (RNot RPat) RDest) RSrc, 0xCE),
     (''PSDnoa'', RAnd (ROr (RNot RDest) RSrc) RPat, 0xD0),
     (''PSDPxoxn'', RNot (RXor (ROr (RXor RPat RDest) RSrc) RPat), 0xD1),
     (''PDSnax'', RXor (RAnd (RNot RSrc) RDest) RPat, 0xD2),
     (''SPDSoaxn'', RNot (RXor (RAnd (ROr RSrc RDest) RPat) RSrc), 0xD3),
     (''SSPxPDxax'', RXor (RAnd (RXor RDest RPat) (RXor RPat RSrc)) RSrc, 0xD4),
     (''DPSanan'', RNot (RAnd (RNot (RAnd RSrc RPat)) RDest), 0xD5),
     (''PSDPSaoxx'', RXor (RXor (ROr (RAnd RSrc RPat) RDest) RSrc) RPat, 0xD6),
     (''DPSxan'', RNot (RAnd (RXor RSrc RPat) RDest), 0xD7),
     (''PDSPxax'', RXor (RAnd (RXor RPat RSrc) RDest) RPat, 0xD8),
     (''SDPSaoxn'', RNot (RXor (ROr (RAnd RSrc RPat) RDest) RSrc), 0xD9),
     (''DPSDanax'', RXor (RAnd (RNot (RAnd RDest RSrc)) RPat) RDest, 0xDA),
     (''SPxDSxan'', RNot (RAnd (RXor RSrc RDest) (RXor RPat RSrc)), 0xDB),
     (''SPDnao'', ROr (RAnd (RNot RDest) RPat) RSrc, 0xDC),
     (''SDPxo'', ROr (RXor RPat RDest) RSrc, 0xDE),
     (''SDPano'', ROr (RNot (RAnd RPat RDest)) RSrc, 0xDF),
     (''PDSoa'', RAnd (ROr RSrc RDest) RPat, 0xE0),
     (''PDSoxn'', RNot (RXor (ROr RSrc RDest) RPat), 0xE1),
     (''DSPDxax'', RXor (RAnd (RXor RDest RPat) RSrc) RDest, 0xE2),
     (''PSDPaoxn'', RNot (RXor (ROr (RAnd RPat RDest) RSrc) RPat), 0xE3),
     (''SDPSxax'', RXor (RAnd (RXor RSrc RPat) RDest) RSrc, 0xE4),
     (''PDSPaoxn'', RNot (RXor (ROr (RAnd RPat RSrc) RDest) RPat), 0xE5),
     (''SDPSanax'', RXor (RAnd (RNot (RAnd RSrc RPat)) RDest) RSrc, 0xE6),
     (''SPxPDxan'', RNot (RAnd (RXor RDest RPat) (RXor RPat RSrc)), 0xE7),
     (''SSPxDSxax'', RXor (RAnd (RXor RSrc RDest) (RXor RPat RSrc)) RSrc, 0xE8),
     (''DSPDSanaxxn'', RNot (RXor (RXor (RAnd (RNot (RAnd RSrc RDest)) RPat) RSrc) RDest), 0xE9),
     (''DPSao'', ROr (RAnd RSrc RPat) RDest, 0xEA),
     (''DPSxno'', ROr (RNot (RXor RSrc RPat)) RDest, 0xEB),
     (''SDPao'', ROr (RAnd RPat RDest) RSrc, 0xEC),
     (''SDPxno'', ROr (RNot (RXor RPat RDest)) RSrc, 0xED),
     (''SDPnoo'', ROr (ROr (RNot RPat) RDest) RSrc, 0xEF),
     (''PDSono'', ROr (RNot (ROr RSrc RDest)) RPat, 0xF1),
     (''PDSnao'', ROr (RAnd (RNot RSrc) RDest) RPat, 0xF2),
     (''PSDnao'', ROr (RAnd (RNot RDest) RSrc) RPat, 0xF4),
     (''PDSxo'', ROr (RXor RSrc RDest) RPat, 0xF6),
     (''PDSano'', ROr (RNot (RAnd RSrc RDest)) RPat, 0xF7),
     (''PDSao'', ROr (RAnd RSrc RDest) RPat, 0xF8),
     (''PDSxno'', ROr (RNot (RXor RSrc RDest)) RPat, 0xF9),
     (''DPSnoo'', ROr (ROr (RNot RSrc) RPat) RDest, 0xFB),
     (''PSDnoo'', ROr (ROr (RNot RDest) RSrc) RPat, 0xFD),
     (''DPSoo'', ROr (ROr RSrc RPat) RDest, 0xFE)]"

definition rop3_handlers :: "(string \<times> rop_formula \<times> u8) list" where
  "rop3_handlers = rop3_handlers_1 @ rop3_handlers_2 @ rop3_handlers_3 @ rop3_handlers_4"

text \<open>The \<open>ROP3_FILL_HANDLERS\<close> lines of \<open>rop3_init\<close>: handler name, table slot.\<close>

definition rop3_fills_1 :: "(string \<times> u8) list" where
  "rop3_fills_1 =
    [(''DPSoon'', 0x01), (''DPSona'', 0x02), (''SDPona'', 0x04), (''PDSxnon'', 0x06),
     (''PDSaon'', 0x07), (''SDPnaa'', 0x08), (''PDSxon'', 0x09), (''PSDnaon'', 0x0B),
     (''PDSnaon'', 0x0D), (''PDSonon'', 0x0E), (''PDSona'', 0x10), (''SDPxnon'', 0x12),
     (''SDPaon'', 0x13), (''DPSxnon'', 0x14), (''DPSaon'', 0x15), (''PSDPSanaxx'', 0x16),
     (''SSPxDSxaxn'', 0x17), (''SPxPDxa'', 0x18), (''SDPSanaxn'', 0x19), (''PDSPaox'', 0x1A),
     (''SDPSxaxn'', 0x1B), (''PSDPaox'', 0x1C), (''DSPDxaxn'', 0x1D), (''PDSox'', 0x1E),
     (''PDSoan'', 0x1F), (''DPSnaa'', 0x20), (''SDPxon'', 0x21), (''SPDnaon'', 0x23),
     (''SPxDSxa'', 0x24), (''PDSPanaxn'', 0x25), (''SDPSaox'', 0x26), (''SDPSxnox'', 0x27),
     (''DPSxa'', 0x28), (''PSDPSaoxxn'', 0x29), (''DPSana'', 0x2A), (''SSPxPDxaxn'', 0x2B),
     (''SPDSoax'', 0x2C), (''PSDnox'', 0x2D), (''PSDPxox'', 0x2E), (''PSDnoan'', 0x2F),
     (''SDPnaon'', 0x31), (''SDPSoox'', 0x32), (''SPDSaox'', 0x34), (''SPDSxnox'', 0x35),
     (''SDPox'', 0x36), (''SDPoan'', 0x37), (''PSDPoax'', 0x38), (''SPDnox'', 0x39),
     (''SPDSxox'', 0x3A), (''SPDnoan'', 0x3B), (''SPDSonox'', 0x3D), (''SPDSnaox'', 0x3E),
     (''PSDnaa'', 0x40), (''DPSxon'', 0x41), (''SDxPDxa'', 0x42)]"

definition rop3_fills_2 :: "(string \<times> u8) list" where
  "rop3_fills_2 =
    [(''SPDSanaxn'', 0x43), (''DPSnaon'', 0x45), (''DSPDaox'', 0x46), (''PSDPxaxn'', 0x47),
     (''SDPxa'', 0x48), (''PDSPDaoxxn'', 0x49), (''DPSDoax'', 0x4A), (''PDSnox'', 0x4B),
     (''SDPana'', 0x4C), (''SSPxDSxoxn'', 0x4D), (''PDSPxox'', 0x4E), (''PDSnoan'', 0x4F),
     (''DSPnaon'', 0x51), (''DPSDaox'', 0x52), (''SPDSxaxn'', 0x53), (''DPSonon'', 0x54),
     (''DPSox'', 0x56), (''DPSoan'', 0x57), (''PDSPoax'', 0x58), (''DPSnox'', 0x59),
     (''DPSDonox'', 0x5B), (''DPSDxox'', 0x5C), (''DPSnoan'', 0x5D), (''DPSDnaox'', 0x5E),
     (''PDSxa'', 0x60), (''DSPDSaoxxn'', 0x61), (''DSPDoax'', 0x62), (''SDPnox'', 0x63),
     (''SDPSoax'', 0x64), (''DSPnox'', 0x65), (''SDPSonox'', 0x67), (''DSPDSonoxxn'', 0x68),
     (''PDSxxn'', 0x69), (''DPSax'', 0x6A), (''PSDPSoaxxn'', 0x6B), (''SDPax'', 0x6C),
     (''PDSPDoaxxn'', 0x6D), (''SDPSnoax'', 0x6E), (''PDSxnan'', 0x6F), (''PDSana'', 0x70),
     (''SSDxPDxaxn'', 0x71), (''SDPSxox'', 0x72), (''SDPnoan'', 0x73), (''DSPDxox'', 0x74),
     (''DSPnoan'', 0x75), (''SDPSnaox'', 0x76), (''PDSax'', 0x78), (''DSPDSoaxxn'', 0x79),
     (''DPSDnoax'', 0x7A), (''SDPxnan'', 0x7B), (''SPDSnoax'', 0x7C), (''DPSxnan'', 0x7D),
     (''SPxDSxo'', 0x7E), (''DPSaan'', 0x7F), (''DPSaa'', 0x80)]"

definition rop3_fills_3 :: "(string \<times> u8) list" where
  "rop3_fills_3 =
    [(''SPxDSxon'', 0x81), (''DPSxna'', 0x82), (''SPDSnoaxn'', 0x83), (''SDPxna'', 0x84),
     (''PDSPnoaxn'', 0x85), (''DSPDSoaxx'', 0x86), (''PDSaxn'', 0x87), (''SDPSnaoxn'', 0x89),
     (''DSPnoa'', 0x8A), (''DSPDxoxn'', 0x8B), (''SDPnoa'', 0x8C), (''SDPSxoxn'', 0x8D),
     (''SSDxPDxax'', 0x8E), (''PDSanan'', 0x8F), (''PDSxna'', 0x90), (''SDPSnoaxn'', 0x91),
     (''DPSDPoaxx'', 0x92), (''SPDaxn'', 0x93), (''PSDPSoaxx'', 0x94), (''DPSaxn'', 0x95),
     (''DPSxx'', 0x96), (''PSDPSonoxx'', 0x97), (''SDPSonoxn'', 0x98), (''DPSnax'', 0x9A),
     (''SDPSoaxn'', 0x9B), (''SPDnax'', 0x9C), (''DSPDoaxn'', 0x9D), (''DSPDSaoxx'', 0x9E),
     (''PDSxan'', 0x9F), (''PDSPnaoxn'', 0xA1), (''DPSnoa'', 0xA2), (''DPSDxoxn'', 0xA3),
     (''PDSPonoxn'', 0xA4), (''DSPnax'', 0xA6), (''PDSPoaxn'', 0xA7), (''DPSoa'', 0xA8),
     (''DPSoxn'', 0xA9), (''DPSono'', 0xAB), (''SPDSxax'', 0xAC), (''DPSDaoxn'', 0xAD),
     (''DSPnao'', 0xAE), (''PDSnoa'', 0xB0), (''PDSPxoxn'', 0xB1), (''SSPxDSxox'', 0xB2),
     (''SDPanan'', 0xB3), (''PSDnax'', 0xB4), (''DPSDoaxn'', 0xB5), (''DPSDPaoxx'', 0xB6),
     (''SDPxan'', 0xB7), (''PSDPxax'', 0xB8), (''DSPDaoxn'', 0xB9), (''DPSnao'', 0xBA),
     (''SPDSanax'', 0xBC), (''SDxPDxan'', 0xBD), (''DPSxo'', 0xBE)]"

definition rop3_fills_4 :: "(string \<times> u8) list" where
  "rop3_fills_4 =
    [(''DPSano'', 0xBF), (''SPDSnaoxn'', 0xC1), (''SPDSonoxn'', 0xC2), (''SPDnoa'', 0xC4),
     (''SPDSxoxn'', 0xC5), (''SDPnax'', 0xC6), (''PSDPoaxn'', 0xC7), (''SDPoa'', 0xC8),
     (''SPDoxn'', 0xC9), (''DPSDxax'', 0xCA), (''SPDSaoxn'', 0xCB), (''SDPono'', 0xCD),
     (''SDPnao'', 0xCE), (''PSDnoa'', 0xD0), (''PSDPxoxn'', 0xD1), (''PDSnax'', 0xD2),
     (''SPDSoaxn'', 0xD3), (''SSPxPDxax'', 0xD4), (''DPSanan'', 0xD5), (''PSDPSaoxx'', 0xD6),
     (''DPSxan'', 0xD7), (''PDSPxax'', 0xD8), (''SDPSaoxn'', 0xD9), (''DPSDanax'', 0xDA),
     (''SPxDSxan'', 0xDB), (''SPDnao'', 0xDC), (''SDPxo'', 0xDE), (''SDPano'', 0xDF),
     (''PDSoa'', 0xE0), (''PDSoxn'', 0xE1), (''DSPDxax'', 0xE2), (''PSDPaoxn'', 0xE3),
     (''SDPSxax'', 0xE4), (''PDSPaoxn'', 0xE5), (''SDPSanax'', 0xE6), (''SPxPDxan'', 0xE7),
     (''SSPxDSxax'', 0xE8), (''DSPDSanaxxn'', 0xE9), (''DPSao'', 0xEA), (''DPSxno'', 0xEB),
     (''SDPao'', 0xEC), (''SDPxno'', 0xED), (''SDPnoo'', 0xEF), (''PDSono'', 0xF1),
     (''PDSnao'', 0xF2), (''PSDnao'', 0xF4), (''PDSxo'', 0xF6), (''PDSano'', 0xF7),
     (''PDSao'', 0xF8), (''PDSxno'', 0xF9), (''DPSnoo'', 0xFB), (''PSDnoo'', 0xFD),
     (''DPSoo'', 0xFE)]"

definition rop3_fills :: "(string \<times> u8) list" where
  "rop3_fills = rop3_fills_1 @ rop3_fills_2 @ rop3_fills_3 @ rop3_fills_4"


section \<open>Dispatch tables\<close>

text \<open>
  \<open>ROP3_FILL_HANDLERS\<close> stores the same operation into all six tables, so one table of optional
  formulas stands for them; \<open>None\<close> is the default handler, which reports "not implemented" through
  \<open>spice_critical\<close>. \<open>need_init\<close> is the static flag that makes later calls return at once.
\<close>

record rop3_state =
  need_init :: bool
  rop3_table :: "u8 \<Rightarrow> rop_formula option"

definition rop3_op :: "string \<Rightarrow> rop_formula option" where
  "rop3_op name = map_of (map (\<lambda>(n, f, i). (n, f)) rop3_handlers) name"

fun fill_handlers :: "(string \<times> u8) list \<Rightarrow> (u8 \<Rightarrow> rop_formula option) \<Rightarrow> u8 \<Rightarrow> rop_formula option"
where
  "fill_handlers [] t = t"
| "fill_handlers ((name, i) # fs) t = fill_handlers fs (t(i := rop3_op name))"

definition rop3_init :: "rop3_state \<Rightarrow> rop3_state" where
  "rop3_init st =
     (if \<not> need_init st then st
      else st\<lparr>need_init := False, rop3_table := fill_handlers rop3_fills (\<lambda>_. None)\<rparr>)"

definition rop3_static :: rop3_state where
  "rop3_static = \<lparr>need_init = True, rop3_table = (\<lambda>_. None)\<rparr>"

text \<open>The self test of an entry (\<open>rop3_test##depth##_##name\<close>): no report when it holds.\<close>

definition rop3_test :: "rop_formula \<Rightarrow> u8 \<Rightarrow> bool" where
  "rop3_test f index = (eval_formula f 0xF0 0xCC (0xAA :: u8) = index)"

section \<open>Every entry computes the operation its index names\<close>

text \<open>
  A ternary raster operation works on each bit position alone; bit \<open>4p + 2s + d\<close> of its index is
  the result for pattern bit \<open>p\<close>, source bit \<open>s\<close> and destination bit \<open>d\<close>.
\<close>

definition rop3_bit :: "u8 \<Rightarrow> bool \<Rightarrow> bool \<Rightarrow> bool \<Rightarrow> bool" where
  "rop3_bit i p s d = bit i (4 * of_bool p + 2 * of_bool s + of_bool d)"

definition rop3_word :: "u8 \<Rightarrow> 'w::len word \<Rightarrow> 'w word \<Rightarrow> 'w word \<Rightarrow> 'w word" where
  "rop3_word i p s d =
     horner_sum of_bool 2 (map (\<lambda>n. rop3_bit i (bit p n) (bit s n) (bit d n)) [0..<LENGTH('w)])"

primrec eval_bit :: "rop_formula \<Rightarrow> bool \<Rightarrow> bool \<Rightarrow> bool \<Rightarrow> bool" where
  "eval_bit RPat p s d = p"
| "eval_bit RSrc p s d = s"
| "eval_bit RDest p s d = d"
| "eval_bit (RNot f) p s d = (\<not> eval_bit f p s d)"
| "eval_bit (RAnd f g) p s d = (eval_bit f p s d \<and> eval_bit g p s d)"
| "eval_bit (ROr f g) p s d = (eval_bit f p s d \<or> eval_bit g p s d)"
| "eval_bit (RXor f g) p s d = (eval_bit f p s d \<noteq> eval_bit g p s d)"

lemma bit_eval_formula:
  "n < LENGTH('w::len) \<Longrightarrow>
   bit (eval_formula f p s d) n = eval_bit f (bit p n) (bit s n) (bit (d :: 'w word) n)"
  by (induction f) (auto simp: bit_simps)

lemma bit_rop3_word:
  "bit (rop3_word i p s d) n \<longleftrightarrow>
     n < LENGTH('w::len) \<and> rop3_bit i (bit p n) (bit s n) (bit (d :: 'w word) n)"
  by (auto simp: rop3_word_def bit_horner_sum_bit_word_iff)

lemma eval_formula_rop3_word:
  "(\<And>p s d. eval_bit f p s d = rop3_bit i p s d) \<Longrightarrow> eval_formula f p s d = rop3_word i p s d"
  by (rule bit_word_eqI) (simp add: bit_eval_formula bit_rop3_word)

lemma self_test_masks:
  fixes p s d :: bool
  defines "k \<equiv> 4 * of_bool p + 2 * of_bool s + of_bool d :: nat"
  shows "k < 8" "bit (0xF0 :: u8) k = p" "bit (0xCC :: u8) k = s" "bit (0xAA :: u8) k = d"
  unfolding k_def by (cases p; cases s; cases d; simp)+

lemma eval_self_test:
  "bit (eval_formula f 0xF0 0xCC (0xAA :: u8)) (4 * of_bool p + 2 * of_bool s + of_bool d)
     = eval_bit f p s d"
proof -
  have "4 * of_bool p + 2 * of_bool s + of_bool d < LENGTH(8)"
    using self_test_masks(1) [of p s d] by simp
  then show ?thesis by (simp only: bit_eval_formula self_test_masks)
qed

lemma index_of_bits:
  fixes n :: nat
  assumes "n < 8"
  shows "\<exists>p s d. n = 4 * of_bool p + 2 * of_bool s + of_bool d"
proof -
  from assms have "n = 4 * of_bool (4 \<le> n) + 2 * of_bool (2 \<le> n mod 4) + of_bool (odd n)"
    by (cases "4 \<le> n"; cases "2 \<le> n mod 4"; cases "odd n"; simp; presburger)
  then show ?thesis by blast
qed

lemma rop3_test_iff: "rop3_test f i \<longleftrightarrow> (\<forall>p s d. eval_bit f p s d = rop3_bit i p s d)"
proof
  assume t: "rop3_test f i"
  show "\<forall>p s d. eval_bit f p s d = rop3_bit i p s d"
  proof (intro allI)
    fix p s d
    from eval_self_test [of f p s d] t show "eval_bit f p s d = rop3_bit i p s d"
      by (simp only: rop3_test_def rop3_bit_def)
  qed
next
  assume e: "\<forall>p s d. eval_bit f p s d = rop3_bit i p s d"
  show "rop3_test f i"
    unfolding rop3_test_def
  proof (rule bit_word_eqI)
    fix n assume "n < LENGTH(8)"
    then obtain p s d where n: "n = 4 * of_bool p + 2 * of_bool s + of_bool d"
      using index_of_bits [of n] by auto
    have "bit (eval_formula f 0xF0 0xCC (0xAA :: u8)) n = eval_bit f p s d"
      unfolding n by (rule eval_self_test)
    with e n show "bit (eval_formula f 0xF0 0xCC (0xAA :: u8)) n = bit i n"
      by (simp only: rop3_bit_def)
  qed
qed

lemma rop3_handlers_tested: "list_all (\<lambda>(n, f, i). rop3_test f i) rop3_handlers"
  by code_simp

lemma rop3_fills_handlers: "map (\<lambda>(n, f, i). (n, i)) rop3_handlers = rop3_fills"
  by code_simp

definition name_key :: "string \<Rightarrow> int" where
  "name_key s = foldl (\<lambda>a c. 2 * a + of_char c) 0 s"

lemma rop3_names_distinct: "distinct (map fst rop3_fills)"
proof -
  have "successively (<) (sort (map name_key (map fst rop3_fills)))"
    by code_simp
  then have "distinct (map name_key (map fst rop3_fills))"
    by (simp add: successively_conv_sorted_wrt strict_sorted_iff del: map_map)
  then show ?thesis by (rule distinct_map [THEN iffD1, THEN conjunct1])
qed

lemma rop3_slots_increasing: "successively (<) (map snd rop3_fills)"
  by code_simp

lemma rop3_slots_distinct: "distinct (map snd rop3_fills)"
  using rop3_slots_increasing
  by (simp add: successively_conv_sorted_wrt strict_sorted_iff)


lemma rop3_op_entry:
  assumes "(n, f, i) \<in> set rop3_handlers"
  shows "rop3_op n = Some f"
proof -
  have "map fst (map (\<lambda>(n, f, i). (n, f)) rop3_handlers) = map fst rop3_fills"
    by (simp add: split_def flip: rop3_fills_handlers)
  then have "distinct (map fst (map (\<lambda>(n, f, i). (n, f)) rop3_handlers))"
    using rop3_names_distinct by simp
  moreover have "(n, f) \<in> set (map (\<lambda>(n, f, i). (n, f)) rop3_handlers)"
    using assms by force
  ultimately show ?thesis
    unfolding rop3_op_def by (rule map_of_is_SomeI)
qed

lemma fill_handlers_other: "i \<notin> snd ` set fs \<Longrightarrow> fill_handlers fs t i = t i"
  by (induction fs t rule: fill_handlers.induct) auto

lemma fill_handlers_slot:
  "(n, i) \<in> set fs \<Longrightarrow> distinct (map snd fs) \<Longrightarrow> fill_handlers fs t i = rop3_op n"
  by (induction fs t rule: fill_handlers.induct) (auto simp: fill_handlers_other)

lemma rop3_table_init:
  "rop3_table (rop3_init rop3_static) = fill_handlers rop3_fills (\<lambda>_. None)"
  by (simp add: rop3_init_def rop3_static_def)

lemma rop3_table_entry:
  assumes "rop3_table (rop3_init rop3_static) i = Some f"
  shows "\<exists>n. (n, f, i) \<in> set rop3_handlers"
proof -
  have "i \<in> snd ` set rop3_fills"
    using assms by (rule_tac ccontr) (simp add: rop3_table_init fill_handlers_other)
  then obtain n where "(n, i) \<in> set rop3_fills" by auto
  then obtain g where g: "(n, g, i) \<in> set rop3_handlers"
    by (auto simp: set_map split_def simp flip: rop3_fills_handlers)
  from \<open>(n, i) \<in> set rop3_fills\<close> have "rop3_table (rop3_init rop3_static) i = rop3_op n"
    unfolding rop3_table_init by (rule fill_handlers_slot [OF _ rop3_slots_distinct])
  with assms rop3_op_entry [OF g] g show ?thesis by auto
qed

lemma rop3_table_defined:
  "rop3_table (rop3_init rop3_static) i \<noteq> None \<longleftrightarrow> i \<in> set (map snd rop3_fills)"
proof
  assume "rop3_table (rop3_init rop3_static) i \<noteq> None"
  then show "i \<in> set (map snd rop3_fills)"
    by (rule_tac ccontr) (simp add: rop3_table_init fill_handlers_other)
next
  assume "i \<in> set (map snd rop3_fills)"
  then obtain n f where h: "(n, f, i) \<in> set rop3_handlers"
    by (auto simp: split_def simp flip: rop3_fills_handlers)
  then have "(n, i) \<in> set rop3_fills"
    by (force simp flip: rop3_fills_handlers)
  then show "rop3_table (rop3_init rop3_static) i \<noteq> None"
    using rop3_op_entry [OF h]
    by (simp add: rop3_table_init fill_handlers_slot [OF _ rop3_slots_distinct])
qed

lemma rop3_table_eval_bit:
  assumes "rop3_table (rop3_init rop3_static) i = Some f"
  shows "eval_bit f p s d = rop3_bit i p s d"
proof -
  from rop3_table_entry [OF assms] rop3_handlers_tested have "rop3_test f i"
    by (auto simp: list_all_iff)
  then show ?thesis by (simp add: rop3_test_iff)
qed

text \<open>An operation depends on an operand when flipping that operand's bit can change the result.\<close>

definition depends_on_all :: "u8 \<Rightarrow> bool" where
  "depends_on_all i =
     ((\<exists>s d. rop3_bit i True s d \<noteq> rop3_bit i False s d) \<and>
      (\<exists>p d. rop3_bit i p True d \<noteq> rop3_bit i p False d) \<and>
      (\<exists>p s. rop3_bit i p s True \<noteq> rop3_bit i p s False))"

lemma depends_on_all_slots: "filter depends_on_all (map of_nat [0..<256]) = map snd rop3_fills"
  by code_simp

lemma u8_in_range: "(i :: u8) \<in> set (map of_nat [0..<256])"
proof -
  have "unat i < 2 ^ LENGTH(8)" by (rule unsigned_less)
  then have "unat i < 256" by simp
  moreover have "i = of_nat (unat i)" by simp
  ultimately show ?thesis by (metis atLeastLessThan_iff image_eqI le0 list.set_map set_upt)
qed

lemma rop3_table_iff_depends:
  "rop3_table (rop3_init rop3_static) i \<noteq> None \<longleftrightarrow> depends_on_all i"
  using u8_in_range [of i]
  by (simp only: rop3_table_defined flip: depends_on_all_slots) (simp only: set_filter mem_Collect_eq simp_thms)

lemma rop3_table_slot:
  "(n, f, i) \<in> set rop3_handlers \<Longrightarrow> rop3_table (rop3_init rop3_static) i = Some f"
  unfolding rop3_table_init
  by (subst fill_handlers_slot [OF _ rop3_slots_distinct, of n])
    (auto simp: rop3_op_entry rev_image_eqI simp flip: rop3_fills_handlers)


section \<open>Properties\<close>



text \<open>
  The tables are complete. An operation has its own handler exactly when its result depends on
  the pattern, the source and the destination; the other 38 operations reach the default handler,
  which reports "not implemented".
\<close>

theorem rop3_entry_iff: "(rop3_table (rop3_init rop3_static) i \<noteq> None) = depends_on_all i"
  by (rule rop3_table_iff_depends)

text \<open>
  The self test that \<open>rop3_init\<close> runs on every entry is exact. It reports nothing just when the
  formula computes operation \<open>i\<close> on all 32-bit pixels, although it tries one byte per operand only.
\<close>

theorem rop3_self_test_exact:
  "rop3_test f i \<longleftrightarrow> (\<forall>p s d :: u32. eval_formula f p s d = rop3_word i p s d)"
proof
  assume "rop3_test f i"
  then show "\<forall>p s d :: u32. eval_formula f p s d = rop3_word i p s d"
    by (simp add: rop3_test_iff eval_formula_rop3_word)
next
  assume e: "\<forall>p s d :: u32. eval_formula f p s d = rop3_word i p s d"
  have "eval_bit f p s d = rop3_bit i p s d" for p s d
  proof -
    from e have "bit (eval_formula f (of_bool p) (of_bool s) (of_bool d :: u32)) 0 =
        bit (rop3_word i (of_bool p) (of_bool s) (of_bool d :: u32)) 0"
      by metis
    then show ?thesis by (simp add: bit_eval_formula bit_rop3_word bit_simps)
  qed
  then show "rop3_test f i" by (simp add: rop3_test_iff)
qed

end
