(* ===== verification/Pixman_Image.thy ===== *)
theory Pixman_Image
  imports Prelude
begin

text \<open>
  Pixel images in byte memory, as the drawing code of spice-common/common accesses them, and the two
  loop shapes all of it shares: over the pixels of a line and over the lines of a rectangle.
  The locale \<open>pixel_op\<close> states once what such a loop leaves in memory, for any operation that computes a
  destination pixel from the old one and from what it reads elsewhere.
\<close>

section \<open>Images\<close>

text \<open>
  A pixman image as the drawing code uses it: what the \<open>pixman_image_get_*\<close> accessors return. A
  pixel type of \<open>LENGTH('w)\<close> bits stands for one of uint8_t, uint16_t and uint32_t.
\<close>

record pixman_image =
  img_width :: int
  img_height :: int
  img_data :: int
  img_stride :: int
  img_depth :: int

type_synonym spice_point = "int \<times> int"

definition spice_pixman_image_get_bpp :: "pixman_image \<Rightarrow> int" where
  "spice_pixman_image_get_bpp img =
     (if img_depth img = 24 then 32 else if img_depth img = 15 then 16 else img_depth img)"


section \<open>Address ranges\<close>

text \<open>An object of \<open>n\<close> bytes at \<open>a\<close> lies outside the address range from \<open>lo\<close> up to \<open>hi\<close>.\<close>

definition apart :: "int \<Rightarrow> int \<Rightarrow> int \<Rightarrow> int \<Rightarrow> bool" where
  "apart lo hi n a = (a + n \<le> lo \<or> hi \<le> a)"

lemma smod_nonneg: "0 \<le> a \<Longrightarrow> 0 < b \<Longrightarrow> a smod b = a mod (b :: int)"
  by (simp add: smod_int_alt_def sgn_if)

lemma sizeof_pos: "8 dvd LENGTH('w::len) \<Longrightarrow> 0 < sizeof TYPE('w)"
proof -
  assume "8 dvd LENGTH('w)"
  then have "8 \<le> LENGTH('w)" by (simp add: dvd_imp_le)
  then show ?thesis by (simp add: sizeof_def)
qed

lemma sizeof_mult: "0 \<le> int n * sizeof TYPE('w::len)"
  by (simp add: sizeof_def)

lemma sizeof_bits: "8 dvd LENGTH('w::len) \<Longrightarrow> k * int LENGTH('w) div 8 = k * sizeof TYPE('w)"
  by (auto simp: sizeof_def dvd_def)

lemma load_frame:
  assumes "8 dvd LENGTH('w::len)" "apart lo hi (sizeof TYPE('w)) a"
    and "\<And>x. x < lo \<or> hi \<le> x \<Longrightarrow> m' x = m x"
  shows "(load m' a :: 'w word) = load m a"
  using assms by (intro load_cong) (auto simp: apart_def sizeof_def)


section \<open>Loops over pixels and lines\<close>

text \<open>
  \<open>while (len--) { *ptr = g(..., *ptr); ptr++; ... }\<close> for a length that is not negative: \<open>a\<close> is what
  the loop carries besides the destination pointer (a source pointer, say), and \<open>nxt\<close> advances it.
\<close>

fun line_loop :: "(mem \<Rightarrow> 'a \<Rightarrow> 'w::len word \<Rightarrow> 'w word) \<Rightarrow> ('a \<Rightarrow> 'a) \<Rightarrow> nat \<Rightarrow> int \<Rightarrow> 'a \<Rightarrow> mem \<Rightarrow> mem" where
  "line_loop g nxt 0 ptr a m = m"
| "line_loop g nxt (Suc n) ptr a m =
     line_loop g nxt n (ptr + sizeof TYPE('w)) (nxt a) (store m ptr (g m a (load m ptr)))"

text \<open>\<open>while (height--) { ...; byte_line += stride; ... }\<close>\<close>

fun rows :: "(int \<Rightarrow> 'b \<Rightarrow> mem \<Rightarrow> mem) \<Rightarrow> ('b \<Rightarrow> 'b) \<Rightarrow> int \<Rightarrow> nat \<Rightarrow> int \<Rightarrow> 'b \<Rightarrow> mem \<Rightarrow> mem" where
  "rows body nxt stride 0 line b m = m"
| "rows body nxt stride (Suc h) line b m =
     rows body nxt stride h (line + stride) (nxt b) (body line b m)"

definition row :: "int \<Rightarrow> int \<Rightarrow> int \<Rightarrow> nat \<Rightarrow> int set" where
  "row line stride len k = {line + int k * stride ..< line + int k * stride + len}"

lemma row_Suc: "row line stride len (Suc k) = row (line + stride) stride len k"
  by (simp add: row_def algebra_simps)

lemma row_0: "row line stride len 0 = {line ..< line + len}"
  by (simp add: row_def)

lemma mult_abs_ge: "k \<noteq> (0 :: int) \<Longrightarrow> \<bar>s\<bar> \<le> \<bar>k * s\<bar>"
  by (metis abs_ge_zero abs_mult int_one_le_iff_zero_less mult_le_cancel_right1 not_less zero_less_abs_iff)

lemma row_disjoint:
  assumes "len \<le> \<bar>stride\<bar>" "k \<noteq> j" "x \<in> row line stride len k"
  shows "x \<notin> row line stride len j"
proof
  assume "x \<in> row line stride len j"
  then have "\<bar>(x - line - int j * stride) - (x - line - int k * stride)\<bar> < len" using assms(3) by (auto simp: row_def)
  then have "\<bar>(int k - int j) * stride\<bar> < len" by (simp add: algebra_simps)
  then show False using assms(1,2) mult_abs_ge [of "int k - int j" stride] by simp
qed

locale pixel_op =
  fixes g :: "mem \<Rightarrow> 'a \<Rightarrow> 'w::len word \<Rightarrow> 'w word"
    and reads :: "'a \<Rightarrow> int set"
  assumes w: "8 dvd LENGTH('w)"
    and reads_only: "\<And>m m' a v. (\<And>x. x \<in> reads a \<Longrightarrow> m' x = m x) \<Longrightarrow> g m' a v = g m a v"
begin

lemma line_frame:
  "x \<notin> {ptr ..< ptr + int n * sizeof TYPE('w)} \<Longrightarrow> line_loop g nxt n ptr a m x = m x"
proof (induction n arbitrary: ptr a m)
  case (Suc n)
  obtain N where N: "int n * sizeof TYPE('w) = N" "0 \<le> N" using sizeof_mult by blast
  have x: "x < ptr \<or> ptr + sizeof TYPE('w) + N \<le> x" using Suc.prems N(1) by (auto simp: algebra_simps)
  then have "x < ptr \<or> ptr + sizeof TYPE('w) \<le> x" using N(2) by linarith
  then have "store m ptr (g m a (load m ptr)) x = m x" by (rule store_outside)
  moreover have "x \<notin> {ptr + sizeof TYPE('w) ..< ptr + sizeof TYPE('w) + N}" using x sizeof_pos [OF w] by auto
  ultimately show ?case using Suc.IH [of "ptr + sizeof TYPE('w)"] by (simp add: N(1))
qed simp

lemma line_value:
  assumes "i < n" "\<And>j x. j < n \<Longrightarrow> x \<in> reads ((nxt ^^ j) a) \<Longrightarrow> x \<notin> {ptr ..< ptr + int n * sizeof TYPE('w)}"
  shows "load (line_loop g nxt n ptr a m) (ptr + int i * sizeof TYPE('w)) =
    g m ((nxt ^^ i) a) (load m (ptr + int i * sizeof TYPE('w)))"
  using assms
proof (induction n arbitrary: ptr a m i)
  case (Suc n)
  let ?sz = "sizeof TYPE('w)" and ?m = "store m ptr (g m a (load m ptr))"
  note sz = sizeof_pos [OF w]
  have nn: "0 \<le> int n * ?sz" by (rule sizeof_mult)
  show ?case
  proof (cases i)
    case 0
    have "(load (line_loop g nxt n (ptr + ?sz) (nxt a) ?m) ptr :: 'w word) = load ?m ptr"
      by (rule load_cong [OF _ w]) (auto intro: line_frame simp: sizeof_def)
    then show ?thesis by (simp add: 0 load_store_same [OF w])
  next
    case (Suc j)
    have "load (line_loop g nxt n (ptr + ?sz) (nxt a) ?m) (ptr + ?sz + int j * ?sz) =
        g ?m ((nxt ^^ j) (nxt a)) (load ?m (ptr + ?sz + int j * ?sz))"
    proof (rule Suc.IH)
      fix k x assume "k < n" "x \<in> reads ((nxt ^^ k) (nxt a))"
      then have "x \<notin> {ptr ..< ptr + int (Suc n) * ?sz}" using Suc.prems(2) [of "Suc k" x] by (simp add: funpow_swap1)
      then show "x \<notin> {ptr + ?sz ..< ptr + ?sz + int n * ?sz}" using sz by (auto simp: algebra_simps)
    qed (use Suc Suc.prems(1) in simp)
    also have "\<dots> = g m ((nxt ^^ j) (nxt a)) (load ?m (ptr + ?sz + int j * ?sz))"
    proof (rule reads_only)
      fix x assume "x \<in> reads ((nxt ^^ j) (nxt a))"
      then have "x \<notin> {ptr ..< ptr + int (Suc n) * ?sz}"
        using Suc.prems(1) Suc.prems(2) [of "Suc j" x] Suc by (simp add: funpow_swap1)
      then show "?m x = m x" using nn by (intro store_outside) (auto simp: algebra_simps)
    qed
    also have "load ?m (ptr + ?sz + int j * ?sz) = (load m (ptr + ?sz + int j * ?sz) :: 'w word)"
      using sz by (intro load_store_disjoint [OF w]) simp
    finally show ?thesis by (simp add: Suc funpow_swap1 algebra_simps)
  qed
qed simp

text \<open>
  A rectangle of \<open>h\<close> lines of \<open>n\<close> pixels; \<open>start\<close> gives the state of the line loop at the
  begin of a line. No operand may lie in the lines written.
\<close>

lemma rows_frame:
  "(\<And>k. k < h \<Longrightarrow> x \<notin> row line stride (int n * sizeof TYPE('w)) k) \<Longrightarrow>
    rows (\<lambda>l b. line_loop g nxt n l (start b)) rnxt stride h line b m x = m x"
proof (induction h arbitrary: line b m)
  case (Suc h)
  have "x \<notin> row (line + stride) stride (int n * sizeof TYPE('w)) k" if "k < h" for k
    using Suc.prems [of "Suc k"] that by (simp add: row_Suc)
  then show ?case using Suc.IH Suc.prems [of 0] by (simp add: line_frame row_0)
qed simp

lemma load_row:
  assumes "\<And>x. x \<in> row line stride (int n * sizeof TYPE('w)) k \<Longrightarrow> m' x = m x" "i < n"
  shows "(load m' (line + int k * stride + int i * sizeof TYPE('w)) :: 'w word) = load m (line + int k * stride + int i * sizeof TYPE('w))"
proof (rule load_cong [OF _ w])
  have "(int i + 1) * sizeof TYPE('w) \<le> int n * sizeof TYPE('w)" using assms(2) sizeof_pos [OF w] by (intro mult_right_mono) auto
  moreover have "0 \<le> int i * sizeof TYPE('w)" by (rule sizeof_mult)
  moreover fix x assume "line + int k * stride + int i * sizeof TYPE('w) \<le> x"
    "x < line + int k * stride + int i * sizeof TYPE('w) + int (LENGTH('w) div 8)"
  moreover have "sizeof TYPE('w) = int (LENGTH('w) div 8)" by (simp add: sizeof_def)
  ultimately show "m' x = m x"
    by (intro assms(1)) (unfold row_def atLeastLessThan_iff distrib_right mult_1, linarith)
qed

lemma rows_value:
  assumes "y < h" "i < n" "int n * sizeof TYPE('w) \<le> \<bar>stride\<bar>"
    and "\<And>k j l x. k < h \<Longrightarrow> j < n \<Longrightarrow> l < h \<Longrightarrow> x \<in> reads ((nxt ^^ j) (start ((rnxt ^^ k) b))) \<Longrightarrow>
      x \<notin> row line stride (int n * sizeof TYPE('w)) l"
  shows "load (rows (\<lambda>l b. line_loop g nxt n l (start b)) rnxt stride h line b m) (line + int y * stride + int i * sizeof TYPE('w)) =
    g m ((nxt ^^ i) (start ((rnxt ^^ y) b))) (load m (line + int y * stride + int i * sizeof TYPE('w)))"
  using assms(1,4)
proof (induction h arbitrary: line b m y)
  case (Suc h)
  let ?sz = "sizeof TYPE('w)" and ?m = "line_loop g nxt n line (start b) m"
  let ?rest = "rows (\<lambda>l b. line_loop g nxt n l (start b)) rnxt stride h (line + stride) (rnxt b) ?m"
  have m: "?m x = m x" if "x \<notin> row line stride (int n * ?sz) 0" for x using that by (simp add: line_frame row_0)
  show ?case
  proof (cases y)
    case 0
    have "load ?rest (line + int 0 * stride + int i * ?sz) = (load ?m (line + int 0 * stride + int i * ?sz) :: 'w word)"
    proof (rule load_row [OF _ assms(2)])
      fix x assume "x \<in> row line stride (int n * ?sz) 0"
      then have "x \<notin> row (line + stride) stride (int n * ?sz) k" for k
        using row_disjoint [OF assms(3), of 0 "Suc k" x line] by (simp add: row_Suc)
      then show "?rest x = ?m x" by (rule rows_frame)
    qed
    also have "\<dots> = g m ((nxt ^^ i) (start b)) (load m (line + int i * ?sz))"
      using line_value [OF assms(2), of nxt "start b" line m] Suc.prems(2) [of 0 _ 0] by (simp add: row_0)
    finally show ?thesis by (simp add: 0)
  next
    case (Suc j)
    have "load ?rest (line + stride + int j * stride + int i * ?sz) =
        g ?m ((nxt ^^ i) (start ((rnxt ^^ j) (rnxt b)))) (load ?m (line + stride + int j * stride + int i * ?sz))"
    proof (rule Suc.IH)
      fix k q l x assume "k < h" "q < n" "l < h" "x \<in> reads ((nxt ^^ q) (start ((rnxt ^^ k) (rnxt b))))"
      then show "x \<notin> row (line + stride) stride (int n * ?sz) l"
        using Suc.prems(2) [of "Suc k" q "Suc l" x] by (simp add: row_Suc funpow_swap1)
    qed (use Suc Suc.prems(1) in simp)
    also have "\<dots> = g m ((nxt ^^ i) (start ((rnxt ^^ j) (rnxt b)))) (load ?m (line + stride + int j * stride + int i * ?sz))"
    proof (rule reads_only)
      fix x assume "x \<in> reads ((nxt ^^ i) (start ((rnxt ^^ j) (rnxt b))))"
      then show "?m x = m x" using Suc.prems(1) Suc.prems(2) [of y i 0 x] assms(2) Suc by (intro m) (simp add: funpow_swap1)
    qed
    also have "load ?m (line + int y * stride + int i * ?sz) = (load m (line + int y * stride + int i * ?sz) :: 'w word)"
      using row_disjoint [OF assms(3)] Suc by (intro load_row [OF _ assms(2)] m) blast
    then have "load ?m (line + stride + int j * stride + int i * ?sz) = (load m (line + stride + int j * stride + int i * ?sz) :: 'w word)"
      by (simp add: Suc algebra_simps)
    finally show ?thesis by (simp add: Suc funpow_swap1 algebra_simps)
  qed
qed simp

end

end
