(* ===== verification/Rop3.thy ===== *)
theory Rop3
  imports Rop3_Table Pixman_Image
begin

text \<open>
  The handlers of spice-common/common/rop3.c as loops over byte memory, and the two entry points
  that dispatch to them by depth and operation. The theorems say what a handler leaves in every
  destination pixel and that it writes nothing else.
\<close>

section \<open>Handlers\<close>

text \<open>
  The inner loop \<open>for (; dest < end; dest++, src++)\<close> with \<open>end = dest + width\<close> runs \<open>width\<close> times; the
  count is the first argument. \<open>pat_row\<close> is \<open>pat_base + pat_v_offset * pat_stride\<close>.
\<close>

fun rop3_p_line :: "'w::len itself \<Rightarrow> rop_formula \<Rightarrow> int \<Rightarrow> int \<Rightarrow> nat \<Rightarrow> int \<Rightarrow> int \<Rightarrow> int \<Rightarrow> mem \<Rightarrow> mem"
where
  "rop3_p_line w f pat_row pat_width 0 dest src pat_h m = m"
| "rop3_p_line w f pat_row pat_width (Suc n) dest src pat_h m =
     (let pat = pat_row + pat_h * int LENGTH('w) div 8 in
      rop3_p_line w f pat_row pat_width n (dest + sizeof w) (src + sizeof w)
        ((pat_h + 1) smod pat_width)
        (store m dest (eval_formula f (load m pat) (load m src) (load m dest :: 'w word))))"

text \<open>
  The outer loop \<open>for (; dest_line < end_line; dest_line += dest_stride, ...)\<close> with
  \<open>end_line = dest_line + height * dest_stride\<close> runs \<open>height\<close> times when the stride is positive and
  not at all otherwise.
\<close>

fun rop3_p_rows :: "'w::len itself \<Rightarrow> rop_formula \<Rightarrow> pixman_image \<Rightarrow> pixman_image \<Rightarrow> pixman_image \<Rightarrow> int \<Rightarrow>
  nat \<Rightarrow> int \<Rightarrow> int \<Rightarrow> int \<Rightarrow> mem \<Rightarrow> mem" where
  "rop3_p_rows w f d s p pat_x 0 dest_line src_line pat_v m = m"
| "rop3_p_rows w f d s p pat_x (Suc n) dest_line src_line pat_v m =
     rop3_p_rows w f d s p pat_x n (dest_line + img_stride d) (src_line + img_stride s)
       ((pat_v + 1) smod img_height p)
       (rop3_p_line w f (img_data p + pat_v * img_stride p) (img_width p)
          (nat (img_width d)) dest_line src_line pat_x m)"

definition row_count :: "pixman_image \<Rightarrow> nat" where
  "row_count d = (if 0 < img_stride d then nat (img_height d) else 0)"

definition rop3_handle_p :: "'w::len itself \<Rightarrow> rop_formula \<Rightarrow> pixman_image \<Rightarrow> pixman_image \<Rightarrow> spice_point \<Rightarrow>
  pixman_image \<Rightarrow> spice_point \<Rightarrow> mem \<Rightarrow> mem" where
  "rop3_handle_p w f d s src_pos p pat_pos m =
     rop3_p_rows w f d s p (fst pat_pos) (row_count d) (img_data d)
       (img_data s + snd src_pos * img_stride s + fst src_pos * int LENGTH('w) div 8)
       (snd pat_pos) m"

fun rop3_c_line :: "'w::len itself \<Rightarrow> rop_formula \<Rightarrow> 'w word \<Rightarrow> nat \<Rightarrow> int \<Rightarrow> int \<Rightarrow> mem \<Rightarrow> mem" where
  "rop3_c_line w f pat 0 dest src m = m"
| "rop3_c_line w f pat (Suc n) dest src m =
     rop3_c_line w f pat n (dest + sizeof w) (src + sizeof w)
       (store m dest (eval_formula f pat (load m src) (load m dest :: 'w word)))"

fun rop3_c_rows :: "'w::len itself \<Rightarrow> rop_formula \<Rightarrow> pixman_image \<Rightarrow> pixman_image \<Rightarrow> 'w word \<Rightarrow>
  nat \<Rightarrow> int \<Rightarrow> int \<Rightarrow> mem \<Rightarrow> mem" where
  "rop3_c_rows w f d s pat 0 dest_line src_line m = m"
| "rop3_c_rows w f d s pat (Suc n) dest_line src_line m =
     rop3_c_rows w f d s pat n (dest_line + img_stride d) (src_line + img_stride s)
       (rop3_c_line w f pat (nat (img_width d)) dest_line src_line m)"

definition rop3_handle_c :: "'w::len itself \<Rightarrow> rop_formula \<Rightarrow> pixman_image \<Rightarrow> pixman_image \<Rightarrow> spice_point \<Rightarrow>
  u32 \<Rightarrow> mem \<Rightarrow> mem" where
  "rop3_handle_c w f d s src_pos rgb m =
     rop3_c_rows w f d s (ucast rgb :: 'w word) (row_count d) (img_data d)
       (img_data s + snd src_pos * img_stride s + fst src_pos * int LENGTH('w) div 8) m"

definition do_rop3_with_pattern :: "rop3_state \<Rightarrow> u8 \<Rightarrow> pixman_image \<Rightarrow> pixman_image \<Rightarrow> spice_point \<Rightarrow>
  pixman_image \<Rightarrow> spice_point \<Rightarrow> mem \<Rightarrow> mem res" where
  "do_rop3_with_pattern st rop3 d s src_pos p pat_pos m =
     (let bpp = spice_pixman_image_get_bpp d in
      spice_assert (bpp = spice_pixman_image_get_bpp s)
        (spice_assert (bpp = spice_pixman_image_get_bpp p)
          (case rop3_table st rop3 of
             None \<Rightarrow> Inl Abort
           | Some f \<Rightarrow> Inr (if bpp = 32 then rop3_handle_p TYPE(32) f d s src_pos p pat_pos m
                           else rop3_handle_p TYPE(16) f d s src_pos p pat_pos m))))"

definition do_rop3_with_color :: "rop3_state \<Rightarrow> u8 \<Rightarrow> pixman_image \<Rightarrow> pixman_image \<Rightarrow> spice_point \<Rightarrow>
  u32 \<Rightarrow> mem \<Rightarrow> mem res" where
  "do_rop3_with_color st rop3 d s src_pos rgb m =
     (let bpp = spice_pixman_image_get_bpp d in
      spice_assert (bpp = spice_pixman_image_get_bpp s)
        (case rop3_table st rop3 of
           None \<Rightarrow> Inl Abort
         | Some f \<Rightarrow> Inr (if bpp = 32 then rop3_handle_c TYPE(32) f d s src_pos rgb m
                         else rop3_handle_c TYPE(16) f d s src_pos rgb m)))"


section \<open>What a handler writes\<close>

lemma p_line_frame:
  assumes "8 dvd LENGTH('w::len)" "x < dest \<or> dest + int n * sizeof TYPE('w) \<le> x"
  shows "rop3_p_line TYPE('w) f pat_row pw n dest src h m x = m x"
  using assms
proof (induction n arbitrary: dest src h m)
  case (Suc n)
  obtain N where N: "int n * sizeof TYPE('w) = N" "0 \<le> N"
    using sizeof_mult by blast
  from Suc N(2) show ?case
    using sizeof_pos [OF Suc.prems(1)]
    by (auto simp: Let_def store_outside algebra_simps N(1))
qed simp

lemma p_line_value:
  assumes w: "8 dvd LENGTH('w::len)" and pw: "0 < pw"
    and "i < n" "0 \<le> h" "h < pw" "lo \<le> dest" "dest + int n * sizeof TYPE('w) \<le> hi"
    and "\<And>j. j < n \<Longrightarrow> apart lo hi (sizeof TYPE('w)) (src + int j * sizeof TYPE('w))"
    and pat: "\<And>k. 0 \<le> k \<Longrightarrow> k < pw \<Longrightarrow>
           apart lo hi (sizeof TYPE('w)) (pat_row + k * sizeof TYPE('w))"
  shows "load (rop3_p_line TYPE('w) f pat_row pw n dest src h m) (dest + int i * sizeof TYPE('w)) =
     eval_formula f (load m (pat_row + (h + int i) mod pw * sizeof TYPE('w)))
       (load m (src + int i * sizeof TYPE('w)))
       (load m (dest + int i * sizeof TYPE('w)) :: 'w word)"
  using assms(3-8)
proof (induction n arbitrary: dest src h m i)
  case (Suc n)
  let ?sz = "sizeof TYPE('w)"
  let ?v = "eval_formula f (load m (pat_row + h * ?sz)) (load m src) (load m dest :: 'w word)"
  let ?m = "store m dest ?v"
  let ?h = "(h + 1) mod pw"
  note sz = sizeof_pos [OF w]
  have step: "rop3_p_line TYPE('w) f pat_row pw (Suc n) dest src h m =
      rop3_p_line TYPE('w) f pat_row pw n (dest + ?sz) (src + ?sz) ?h ?m"
    using Suc.prems pw by (simp add: Let_def sizeof_bits [OF w] smod_nonneg)
  obtain N where N: "int n * ?sz = N" "0 \<le> N"
    using sizeof_mult by blast
  have same: "load ?m a = (load m a :: 'w word)" if "apart lo hi ?sz a" for a
    using that Suc.prems(4,5) sz N(2)
    by (intro load_store_disjoint [OF w]) (auto simp: apart_def algebra_simps N(1))
  show ?case
  proof (cases i)
    case 0
    have "load (rop3_p_line TYPE('w) f pat_row pw n (dest + ?sz) (src + ?sz) ?h ?m) dest
        = (load ?m dest :: 'w word)"
      by (rule load_cong [OF _ w]) (auto intro: p_line_frame [OF w] simp: sizeof_def)
    with 0 Suc.prems(2,3) show ?thesis
      by (simp add: step load_store_same [OF w] del: rop3_p_line.simps)
  next
    case (Suc j)
    have "load (rop3_p_line TYPE('w) f pat_row pw n (dest + ?sz) (src + ?sz) ?h ?m)
            (dest + ?sz + int j * ?sz) =
          eval_formula f (load ?m (pat_row + (?h + int j) mod pw * ?sz))
            (load ?m (src + ?sz + int j * ?sz)) (load ?m (dest + ?sz + int j * ?sz) :: 'w word)"
    proof (rule Suc.IH)
      fix k assume "k < n"
      then show "apart lo hi ?sz (src + ?sz + int k * ?sz)"
        using Suc.prems(6) [of "Suc k"] by (simp add: algebra_simps)
    qed (use Suc Suc.prems(1,4,5) pw sz in \<open>auto simp: algebra_simps\<close>)
    moreover have "load ?m (src + ?sz + int j * ?sz) = (load m (src + ?sz + int j * ?sz) :: 'w word)"
      using Suc.prems(6) [of i] Suc.prems(1) Suc by (intro same) (simp add: algebra_simps)
    moreover have "load ?m (dest + ?sz + int j * ?sz) = (load m (dest + ?sz + int j * ?sz) :: 'w word)"
      using sz by (intro load_store_disjoint [OF w]) simp
    moreover have "(?h + int j) mod pw = (h + int i) mod pw"
      by (simp add: Suc mod_simps algebra_simps)
    moreover have "apart lo hi ?sz (pat_row + (h + int i) mod pw * ?sz)"
      using pw by (intro pat) simp_all
    ultimately show ?thesis
      by (simp add: step Suc same algebra_simps del: rop3_p_line.simps)
  qed
qed simp

lemma p_rows_frame:
  assumes "8 dvd LENGTH('w::len)"
    and "\<And>k. k < n \<Longrightarrow> x < dl + int k * img_stride d \<or>
           dl + int k * img_stride d + int (nat (img_width d)) * sizeof TYPE('w) \<le> x"
  shows "rop3_p_rows TYPE('w) f d s p px n dl sl v m x = m x"
  using assms(2)
proof (induction n arbitrary: dl sl v m)
  case (Suc n)
  have "rop3_p_rows TYPE('w) f d s p px n (dl + img_stride d) (sl + img_stride s)
      ((v + 1) smod img_height p) m' x = m' x" for m'
  proof (rule Suc.IH)
    fix k assume "k < n"
    then show "x < dl + img_stride d + int k * img_stride d \<or>
        dl + img_stride d + int k * img_stride d + int (nat (img_width d)) * sizeof TYPE('w) \<le> x"
      using Suc.prems [of "Suc k"] by (simp add: algebra_simps)
  qed
  with Suc.prems [of 0] show ?case
    by (simp add: p_line_frame [OF assms(1)])
qed simp

text \<open>
  The destination, source and pattern of a call, as the canvas sets them up: a positive stride
  that holds a whole line, pattern offsets inside the pattern, and a destination that shares no
  byte with the source rectangle or the pattern.
\<close>

definition rop3_src_line :: "'w::len itself \<Rightarrow> pixman_image \<Rightarrow> spice_point \<Rightarrow> int" where
  "rop3_src_line w s pos = img_data s + snd pos * img_stride s + fst pos * sizeof w"

definition dest_ok :: "'w::len itself \<Rightarrow> pixman_image \<Rightarrow> bool" where
  "dest_ok w d = (0 \<le> img_width d \<and> 0 \<le> img_height d \<and> 0 < img_stride d \<and>
     img_width d * sizeof w \<le> img_stride d)"

definition src_apart :: "'w::len itself \<Rightarrow> pixman_image \<Rightarrow> pixman_image \<Rightarrow> spice_point \<Rightarrow> bool" where
  "src_apart w d s pos =
     (\<forall>y \<in> {0..<img_height d}. \<forall>x \<in> {0..<img_width d}.
        apart (img_data d) (img_data d + img_height d * img_stride d) (sizeof w)
          (rop3_src_line w s pos + y * img_stride s + x * sizeof w))"

definition pat_apart :: "'w::len itself \<Rightarrow> pixman_image \<Rightarrow> pixman_image \<Rightarrow> bool" where
  "pat_apart w d p =
     (\<forall>y \<in> {0..<img_height p}. \<forall>x \<in> {0..<img_width p}.
        apart (img_data d) (img_data d + img_height d * img_stride d) (sizeof w)
          (img_data p + y * img_stride p + x * sizeof w))"

lemma p_rows_value:
  assumes w: "8 dvd LENGTH('w::len)" and d: "dest_ok TYPE('w) d"
    and p: "0 \<le> px" "px < img_width p" "0 < img_height p"
    and pat: "\<And>u v. 0 \<le> v \<Longrightarrow> v < img_height p \<Longrightarrow> 0 \<le> u \<Longrightarrow> u < img_width p \<Longrightarrow>
        apart lo hi (sizeof TYPE('w)) (img_data p + v * img_stride p + u * sizeof TYPE('w))"
    and x: "0 \<le> x" "x < img_width d"
    and "y < n" "0 \<le> v" "v < img_height p" "lo \<le> dl" "dl + int n * img_stride d \<le> hi"
    and "\<And>i j. i < n \<Longrightarrow> 0 \<le> j \<Longrightarrow> j < img_width d \<Longrightarrow>
        apart lo hi (sizeof TYPE('w)) (sl + int i * img_stride s + j * sizeof TYPE('w))"
  shows "load (rop3_p_rows TYPE('w) f d s p px n dl sl v m)
       (dl + int y * img_stride d + x * sizeof TYPE('w)) =
     eval_formula f
       (load m (img_data p + (v + int y) mod img_height p * img_stride p
          + (px + x) mod img_width p * sizeof TYPE('w)))
       (load m (sl + int y * img_stride s + x * sizeof TYPE('w)))
       (load m (dl + int y * img_stride d + x * sizeof TYPE('w)) :: 'w word)"
  using assms(9-14)
proof (induction n arbitrary: dl sl v m y)
  case (Suc n)
  let ?sz = "sizeof TYPE('w)" and ?wd = "nat (img_width d)" and ?v = "(v + 1) mod img_height p"
  let ?m = "rop3_p_line TYPE('w) f (img_data p + v * img_stride p) (img_width p) ?wd dl sl px m"
  note sz = sizeof_pos [OF w]
  have wd: "int ?wd = img_width d" "img_width d * ?sz \<le> img_stride d" "0 < img_stride d"
    using d by (auto simp: dest_ok_def)
  have nst: "0 \<le> int n * img_stride d" using wd(3) by simp
  have line: "dl + img_width d * ?sz \<le> hi"
    using Suc.prems(5) wd(2) nst by (simp add: algebra_simps)
  have step: "rop3_p_rows TYPE('w) f d s p px (Suc n) dl sl v m =
      rop3_p_rows TYPE('w) f d s p px n (dl + img_stride d) (sl + img_stride s) ?v ?m"
    using Suc.prems(2) p(3) by (simp add: smod_nonneg)
  have same: "load ?m a = (load m a :: 'w word)"
    if "apart dl (dl + img_width d * ?sz) ?sz a" for a
    using that wd(1) by (intro load_frame [OF w]) (auto intro: p_line_frame [OF w])
  have xsz: "0 \<le> x * ?sz" "x * ?sz + ?sz \<le> img_width d * ?sz"
    using x sz mult_right_mono [of "x + 1" "img_width d" ?sz] by (auto simp: algebra_simps)
  show ?case
  proof (cases y)
    case 0
    have "load (rop3_p_rows TYPE('w) f d s p px n (dl + img_stride d) (sl + img_stride s) ?v ?m)
        (dl + x * ?sz) = (load ?m (dl + x * ?sz) :: 'w word)"
    proof (rule load_cong [OF _ w])
      fix a assume "a < dl + x * ?sz + int (LENGTH('w) div 8)"
      then have "a < dl + img_stride d" using xsz wd(2) by (simp add: sizeof_def)
      moreover have "0 \<le> int k * img_stride d" for k using wd(3) by simp
      ultimately show "rop3_p_rows TYPE('w) f d s p px n (dl + img_stride d) (sl + img_stride s) ?v ?m a
          = ?m a"
        by (intro p_rows_frame [OF w] disjI1) (rule less_le_trans, assumption, simp)
    qed
    also have "\<dots> = eval_formula f
        (load m (img_data p + v * img_stride p + (px + int (nat x)) mod img_width p * ?sz))
        (load m (sl + int (nat x) * ?sz)) (load m (dl + int (nat x) * ?sz) :: 'w word)"
      using p_line_value [OF w, of "img_width p" "nat x" ?wd px lo dl hi sl
          "img_data p + v * img_stride p" f m]
        p pat Suc.prems(2-4) Suc.prems(6) [of 0] x line wd(1) by simp
    finally show ?thesis
      using 0 x Suc.prems(2,3) by (simp add: step del: rop3_p_rows.simps)
  next
    case (Suc j)
    have "load (rop3_p_rows TYPE('w) f d s p px n (dl + img_stride d) (sl + img_stride s) ?v ?m)
            (dl + img_stride d + int j * img_stride d + x * ?sz) =
          eval_formula f
            (load ?m (img_data p + (?v + int j) mod img_height p * img_stride p
               + (px + x) mod img_width p * ?sz))
            (load ?m (sl + img_stride s + int j * img_stride s + x * ?sz))
            (load ?m (dl + img_stride d + int j * img_stride d + x * ?sz) :: 'w word)"
    proof (rule Suc.IH)
      fix i k assume "i < n" "0 \<le> k" "k < img_width d"
      then show "apart lo hi ?sz (sl + img_stride s + int i * img_stride s + k * ?sz)"
        using Suc.prems(6) [of "Suc i" k] by (simp add: algebra_simps)
    qed (use Suc Suc.prems(1,4,5) p(3) wd(3) in \<open>auto simp: algebra_simps\<close>)
    moreover have "(?v + int j) mod img_height p = (v + int y) mod img_height p"
      by (simp add: Suc mod_simps algebra_simps)
    moreover have ap: "apart lo hi ?sz a \<Longrightarrow> apart dl (dl + img_width d * ?sz) ?sz a" for a
      using Suc.prems(4) line by (auto simp: apart_def)
    moreover have "apart dl (dl + img_width d * ?sz) ?sz
        (img_data p + (v + int y) mod img_height p * img_stride p + (px + x) mod img_width p * ?sz)"
      using p by (intro ap pat) simp_all
    moreover have "apart dl (dl + img_width d * ?sz) ?sz
        (sl + img_stride s + int j * img_stride s + x * ?sz)"
      using Suc.prems(1) Suc.prems(6) [of y x] x Suc by (intro ap) (simp add: algebra_simps)
    moreover have "0 \<le> int j * img_stride d" using wd(3) by simp
    then have "apart dl (dl + img_width d * ?sz) ?sz
        (dl + img_stride d + int j * img_stride d + x * ?sz)"
      using wd(2) xsz by (auto simp: apart_def)
    ultimately show ?thesis
      by (simp add: step Suc same algebra_simps del: rop3_p_rows.simps)
  qed
qed simp


text \<open>The colour handlers: the same loops with the pattern held in a local variable.\<close>

lemma c_line_frame:
  assumes "8 dvd LENGTH('w::len)" "x < dest \<or> dest + int n * sizeof TYPE('w) \<le> x"
  shows "rop3_c_line TYPE('w) f pat n dest src m x = m x"
  using assms
proof (induction n arbitrary: dest src m)
  case (Suc n)
  obtain N where N: "int n * sizeof TYPE('w) = N" "0 \<le> N"
    using sizeof_mult by blast
  from Suc N(2) show ?case
    using sizeof_pos [OF Suc.prems(1)] by (auto simp: store_outside algebra_simps N(1))
qed simp

lemma c_line_value:
  assumes w: "8 dvd LENGTH('w::len)"
    and "i < n" "lo \<le> dest" "dest + int n * sizeof TYPE('w) \<le> hi"
    and "\<And>j. j < n \<Longrightarrow> apart lo hi (sizeof TYPE('w)) (src + int j * sizeof TYPE('w))"
  shows "load (rop3_c_line TYPE('w) f pat n dest src m) (dest + int i * sizeof TYPE('w)) =
     eval_formula f pat (load m (src + int i * sizeof TYPE('w)))
       (load m (dest + int i * sizeof TYPE('w)) :: 'w word)"
  using assms(2-5)
proof (induction n arbitrary: dest src m i)
  case (Suc n)
  let ?sz = "sizeof TYPE('w)"
  let ?m = "store m dest (eval_formula f pat (load m src) (load m dest :: 'w word))"
  note sz = sizeof_pos [OF w]
  obtain N where N: "int n * ?sz = N" "0 \<le> N"
    using sizeof_mult by blast
  have same: "load ?m a = (load m a :: 'w word)" if "apart lo hi ?sz a" for a
    using that Suc.prems(2,3) sz N(2)
    by (intro load_store_disjoint [OF w]) (auto simp: apart_def algebra_simps N(1))
  show ?case
  proof (cases i)
    case 0
    have "load (rop3_c_line TYPE('w) f pat n (dest + ?sz) (src + ?sz) ?m) dest
        = (load ?m dest :: 'w word)"
      by (rule load_cong [OF _ w]) (auto intro: c_line_frame [OF w] simp: sizeof_def)
    with 0 show ?thesis
      by (simp add: load_store_same [OF w])
  next
    case (Suc j)
    have "load (rop3_c_line TYPE('w) f pat n (dest + ?sz) (src + ?sz) ?m) (dest + ?sz + int j * ?sz) =
        eval_formula f pat (load ?m (src + ?sz + int j * ?sz))
          (load ?m (dest + ?sz + int j * ?sz) :: 'w word)"
    proof (rule Suc.IH)
      fix k assume "k < n"
      then show "apart lo hi ?sz (src + ?sz + int k * ?sz)"
        using Suc.prems(4) [of "Suc k"] by (simp add: algebra_simps)
    qed (use Suc Suc.prems(1-3) sz in \<open>auto simp: algebra_simps\<close>)
    moreover have "load ?m (src + ?sz + int j * ?sz) = (load m (src + ?sz + int j * ?sz) :: 'w word)"
      using Suc.prems(4) [of i] Suc.prems(1) Suc by (intro same) (simp add: algebra_simps)
    moreover have "load ?m (dest + ?sz + int j * ?sz) = (load m (dest + ?sz + int j * ?sz) :: 'w word)"
      using sz by (intro load_store_disjoint [OF w]) simp
    ultimately show ?thesis
      by (simp add: Suc algebra_simps)
  qed
qed simp

lemma c_rows_frame:
  assumes "8 dvd LENGTH('w::len)"
    and "\<And>k. k < n \<Longrightarrow> x < dl + int k * img_stride d \<or>
           dl + int k * img_stride d + int (nat (img_width d)) * sizeof TYPE('w) \<le> x"
  shows "rop3_c_rows TYPE('w) f d s pat n dl sl m x = m x"
  using assms(2)
proof (induction n arbitrary: dl sl m)
  case (Suc n)
  have "rop3_c_rows TYPE('w) f d s pat n (dl + img_stride d) (sl + img_stride s) m' x = m' x" for m'
  proof (rule Suc.IH)
    fix k assume "k < n"
    then show "x < dl + img_stride d + int k * img_stride d \<or>
        dl + img_stride d + int k * img_stride d + int (nat (img_width d)) * sizeof TYPE('w) \<le> x"
      using Suc.prems [of "Suc k"] by (simp add: algebra_simps)
  qed
  with Suc.prems [of 0] show ?case
    by (simp add: c_line_frame [OF assms(1)])
qed simp

lemma c_rows_value:
  assumes w: "8 dvd LENGTH('w::len)" and d: "dest_ok TYPE('w) d"
    and x: "0 \<le> x" "x < img_width d"
    and "y < n" "lo \<le> dl" "dl + int n * img_stride d \<le> hi"
    and "\<And>i j. i < n \<Longrightarrow> 0 \<le> j \<Longrightarrow> j < img_width d \<Longrightarrow>
        apart lo hi (sizeof TYPE('w)) (sl + int i * img_stride s + j * sizeof TYPE('w))"
  shows "load (rop3_c_rows TYPE('w) f d s pat n dl sl m)
       (dl + int y * img_stride d + x * sizeof TYPE('w)) =
     eval_formula f pat (load m (sl + int y * img_stride s + x * sizeof TYPE('w)))
       (load m (dl + int y * img_stride d + x * sizeof TYPE('w)) :: 'w word)"
  using assms(5-8)
proof (induction n arbitrary: dl sl m y)
  case (Suc n)
  let ?sz = "sizeof TYPE('w)" and ?wd = "nat (img_width d)"
  let ?m = "rop3_c_line TYPE('w) f pat ?wd dl sl m"
  note sz = sizeof_pos [OF w]
  have wd: "int ?wd = img_width d" "img_width d * ?sz \<le> img_stride d" "0 < img_stride d"
    using d by (auto simp: dest_ok_def)
  have nst: "0 \<le> int n * img_stride d" using wd(3) by simp
  have line: "dl + img_width d * ?sz \<le> hi"
    using Suc.prems(3) wd(2) nst by (simp add: algebra_simps)
  have same: "load ?m a = (load m a :: 'w word)"
    if "apart dl (dl + img_width d * ?sz) ?sz a" for a
    using that wd(1) by (intro load_frame [OF w]) (auto intro: c_line_frame [OF w])
  have xsz: "0 \<le> x * ?sz" "x * ?sz + ?sz \<le> img_width d * ?sz"
    using x sz mult_right_mono [of "x + 1" "img_width d" ?sz] by (auto simp: algebra_simps)
  show ?case
  proof (cases y)
    case 0
    have "load (rop3_c_rows TYPE('w) f d s pat n (dl + img_stride d) (sl + img_stride s) ?m)
        (dl + x * ?sz) = (load ?m (dl + x * ?sz) :: 'w word)"
    proof (rule load_cong [OF _ w])
      fix a assume "a < dl + x * ?sz + int (LENGTH('w) div 8)"
      then have "a < dl + img_stride d" using xsz wd(2) by (simp add: sizeof_def)
      moreover have "0 \<le> int k * img_stride d" for k using wd(3) by simp
      ultimately show "rop3_c_rows TYPE('w) f d s pat n (dl + img_stride d) (sl + img_stride s) ?m a
          = ?m a"
        by (intro c_rows_frame [OF w] disjI1) (rule less_le_trans, assumption, simp)
    qed
    also have "\<dots> = eval_formula f pat (load m (sl + int (nat x) * ?sz))
        (load m (dl + int (nat x) * ?sz) :: 'w word)"
      using c_line_value [OF w, of "nat x" ?wd lo dl hi sl f pat m]
        Suc.prems(2) Suc.prems(4) [of 0] x line wd(1) by simp
    finally show ?thesis
      using 0 x by simp
  next
    case (Suc j)
    have "load (rop3_c_rows TYPE('w) f d s pat n (dl + img_stride d) (sl + img_stride s) ?m)
            (dl + img_stride d + int j * img_stride d + x * ?sz) =
          eval_formula f pat
            (load ?m (sl + img_stride s + int j * img_stride s + x * ?sz))
            (load ?m (dl + img_stride d + int j * img_stride d + x * ?sz) :: 'w word)"
    proof (rule Suc.IH)
      fix i k assume "i < n" "0 \<le> k" "k < img_width d"
      then show "apart lo hi ?sz (sl + img_stride s + int i * img_stride s + k * ?sz)"
        using Suc.prems(4) [of "Suc i" k] by (simp add: algebra_simps)
    qed (use Suc Suc.prems(1-3) wd(3) in \<open>auto simp: algebra_simps\<close>)
    moreover have "apart dl (dl + img_width d * ?sz) ?sz
        (sl + img_stride s + int j * img_stride s + x * ?sz)"
      using Suc.prems(1,2) Suc.prems(4) [of y x] x Suc line
      by (auto simp: apart_def algebra_simps)
    moreover have "0 \<le> int j * img_stride d" using wd(3) by simp
    then have "apart dl (dl + img_width d * ?sz) ?sz
        (dl + img_stride d + int j * img_stride d + x * ?sz)"
      using wd(2) xsz by (auto simp: apart_def)
    ultimately show ?thesis
      by (simp add: Suc same algebra_simps)
  qed
qed simp

lemma row_count_eq: "dest_ok TYPE('w::len) d \<Longrightarrow> int (row_count d) = img_height d"
  by (simp add: row_count_def dest_ok_def)

lemma rop3_handle_p_pixel:
  assumes w: "8 dvd LENGTH('w::len)" and d: "dest_ok TYPE('w) d"
    and "0 \<le> fst pp" "fst pp < img_width p" "0 \<le> snd pp" "snd pp < img_height p"
    and sa: "src_apart TYPE('w) d s sp" and pa: "pat_apart TYPE('w) d p"
    and "0 \<le> x" "x < img_width d" and y: "0 \<le> y" "y < img_height d"
  shows "load (rop3_handle_p TYPE('w) f d s sp p pp m)
       (img_data d + y * img_stride d + x * sizeof TYPE('w)) =
     eval_formula f
       (load m (img_data p + (snd pp + y) mod img_height p * img_stride p
          + (fst pp + x) mod img_width p * sizeof TYPE('w)))
       (load m (rop3_src_line TYPE('w) s sp + y * img_stride s + x * sizeof TYPE('w)))
       (load m (img_data d + y * img_stride d + x * sizeof TYPE('w)) :: 'w word)"
proof -
  have n: "nat y < row_count d" "int (nat y) = y"
    using y row_count_eq [OF d] by simp_all
  show ?thesis
    unfolding rop3_handle_p_def
    using p_rows_value [OF w d, of "fst pp" p "img_data d"
        "img_data d + img_height d * img_stride d" x "nat y" "row_count d" "snd pp" "img_data d"
        "rop3_src_line TYPE('w) s sp" s f m] assms(3-) n row_count_eq [OF d]
    by (simp add: src_apart_def pat_apart_def rop3_src_line_def sizeof_bits [OF w])
qed

lemma rop3_handle_c_pixel:
  assumes w: "8 dvd LENGTH('w::len)" and d: "dest_ok TYPE('w) d"
    and sa: "src_apart TYPE('w) d s sp"
    and "0 \<le> x" "x < img_width d" and y: "0 \<le> y" "y < img_height d"
  shows "load (rop3_handle_c TYPE('w) f d s sp rgb m)
       (img_data d + y * img_stride d + x * sizeof TYPE('w)) =
     eval_formula f (ucast rgb)
       (load m (rop3_src_line TYPE('w) s sp + y * img_stride s + x * sizeof TYPE('w)))
       (load m (img_data d + y * img_stride d + x * sizeof TYPE('w)) :: 'w word)"
proof -
  have n: "nat y < row_count d" "int (nat y) = y"
    using y row_count_eq [OF d] by simp_all
  show ?thesis
    unfolding rop3_handle_c_def
    using c_rows_value [OF w d, of x "nat y" "row_count d" "img_data d" "img_data d"
        "img_data d + img_height d * img_stride d"
        "rop3_src_line TYPE('w) s sp" s f "ucast rgb" m] assms(3-) n row_count_eq [OF d]
    by (simp add: src_apart_def rop3_src_line_def sizeof_bits [OF w])
qed

lemma rop3_handle_p_frame:
  assumes w: "8 dvd LENGTH('w::len)" and d: "dest_ok TYPE('w) d"
    and "\<forall>y \<in> {0..<img_height d}. apart (img_data d + y * img_stride d)
           (img_data d + y * img_stride d + img_width d * sizeof TYPE('w)) 1 a"
  shows "rop3_handle_p TYPE('w) f d s sp p pp m a = m a"
  unfolding rop3_handle_p_def
proof (rule p_rows_frame [OF w])
  fix k assume "k < row_count d"
  then have "int k \<in> {0..<img_height d}" using row_count_eq [OF d] by simp
  with assms(3) have "apart (img_data d + int k * img_stride d)
      (img_data d + int k * img_stride d + img_width d * sizeof TYPE('w)) 1 a" by blast
  with d show "a < img_data d + int k * img_stride d \<or>
      img_data d + int k * img_stride d + int (nat (img_width d)) * sizeof TYPE('w) \<le> a"
    by (auto simp: apart_def dest_ok_def)
qed

lemma do_rop3_with_pattern_Inr:
  assumes "do_rop3_with_pattern st i d s sp p pp m = Inr m'" and "spice_pixman_image_get_bpp d = 32"
  shows "\<exists>f. rop3_table st i = Some f \<and> m' = rop3_handle_p TYPE(32) f d s sp p pp m"
  using assms by (auto simp: do_rop3_with_pattern_def split: option.splits)

lemma do_rop3_with_color_Inr:
  assumes "do_rop3_with_color st i d s sp rgb m = Inr m'" and "spice_pixman_image_get_bpp d = 16"
  shows "\<exists>f. rop3_table st i = Some f \<and> m' = rop3_handle_c TYPE(16) f d s sp rgb m"
  using assms by (auto simp: do_rop3_with_color_def split: option.splits)


section \<open>Properties\<close>


definition demo_image :: "int \<Rightarrow> int \<Rightarrow> pixman_image" where
  "demo_image a depth = \<lparr>img_width = 1, img_height = 1, img_data = a, img_stride = 4, img_depth = depth\<rparr>"

lemma demo_slot: "rop3_table (rop3_init rop3_static) 0x80 = Some (RAnd (RAnd RSrc RPat) RDest)"
  by (rule rop3_table_slot [of "''DPSaa''"]) (simp add: rop3_handlers_def rop3_handlers_2_def)


text \<open>
  A 16-bit ternary raster operation with a colour writes the right pixels; the pattern is the
  low half of the colour for every pixel.
\<close>

theorem rop3_color_pixels:
  assumes call: "do_rop3_with_color (rop3_init rop3_static) i d s sp rgb m = Inr m'"
    and "spice_pixman_image_get_bpp d = 16" "dest_ok TYPE(16) d" "src_apart TYPE(16) d s sp"
    and "0 \<le> x" "x < img_width d" "0 \<le> y" "y < img_height d"
  shows "load m' (img_data d + y * img_stride d + x * 2) =
     rop3_word i (ucast rgb)
       (load m (img_data s + snd sp * img_stride s + fst sp * 2 + y * img_stride s + x * 2))
       (load m (img_data d + y * img_stride d + x * 2) :: u16)"
proof -
  obtain f where f: "rop3_table (rop3_init rop3_static) i = Some f"
      "m' = rop3_handle_c TYPE(16) f d s sp rgb m"
    using do_rop3_with_color_Inr [OF call assms(2)] by blast
  show ?thesis
    using rop3_handle_c_pixel [where 'w = 16, OF _ assms(3-8), of f rgb m]
      eval_formula_rop3_word [OF rop3_table_eval_bit [OF f(1)]]
    by (simp add: f(2) rop3_src_line_def)
qed

theorem rop3_color_pixels_witness:
  "\<exists>m'. do_rop3_with_color (rop3_init rop3_static) 0x80 (demo_image 0 15) (demo_image 100 16) (0, 0)
      0xF (\<lambda>_. 0xFF) = Inr m' \<and>
    (load m' 0 :: u16) = rop3_word 0x80 0xF (load (\<lambda>_. 0xFF) 100) (load (\<lambda>_. 0xFF) 0)"
proof -
  let ?m = "\<lambda>_. 0xFF :: u8"
  obtain m' where m': "do_rop3_with_color (rop3_init rop3_static) 0x80 (demo_image 0 15)
      (demo_image 100 16) (0, 0) 0xF ?m = Inr m'"
    by (simp add: do_rop3_with_color_def demo_slot demo_image_def spice_pixman_image_get_bpp_def)
  from rop3_color_pixels [OF m', of 0 0] have
    "(load m' 0 :: u16) = rop3_word 0x80 0xF (load ?m 100) (load ?m 0)"
    by (simp add: demo_image_def spice_pixman_image_get_bpp_def dest_ok_def src_apart_def
        apart_def rop3_src_line_def)
  with m' show ?thesis by blast
qed

text \<open>
  A raster operation writes its destination only. After a successful 32-bit call every byte
  that lies outside the destination's pixels is unchanged, the padding between lines included.
\<close>

theorem rop3_pattern_frame:
  assumes call: "do_rop3_with_pattern (rop3_init rop3_static) i d s sp p pp m = Inr m'"
    and "spice_pixman_image_get_bpp d = 32" "dest_ok TYPE(32) d"
    and "\<forall>y \<in> {0..<img_height d}. apart (img_data d + y * img_stride d)
           (img_data d + y * img_stride d + img_width d * 4) 1 a"
  shows "m' a = m a"
  using do_rop3_with_pattern_Inr [OF call assms(2)] assms(3,4)
  by (auto simp: rop3_handle_p_frame)

theorem rop3_pattern_frame_witness:
  "\<exists>m'. do_rop3_with_pattern (rop3_init rop3_static) 0x80 (demo_image 0 24) (demo_image 100 24) (0, 0)
      (demo_image 200 24) (0, 0) (\<lambda>_. 0xFF) = Inr m' \<and> m' 4 = 0xFF"
proof -
  let ?m = "\<lambda>_. 0xFF :: u8"
  obtain m' where m': "do_rop3_with_pattern (rop3_init rop3_static) 0x80 (demo_image 0 24)
      (demo_image 100 24) (0, 0) (demo_image 200 24) (0, 0) ?m = Inr m'"
    by (simp add: do_rop3_with_pattern_def demo_slot demo_image_def spice_pixman_image_get_bpp_def)
  from rop3_pattern_frame [OF m', of 4] have "m' 4 = 0xFF"
    by (simp add: demo_image_def spice_pixman_image_get_bpp_def dest_ok_def apart_def)
  with m' show ?thesis by blast
qed

text \<open>
  When a pattern operation stops the server. A call aborts exactly when the bit depths of the
  three images differ or the operation does not depend on all three operands; otherwise it returns.
\<close>

theorem rop3_pattern_aborts_iff:
  "do_rop3_with_pattern (rop3_init rop3_static) i d s sp p pp m =
     (if spice_pixman_image_get_bpp d = spice_pixman_image_get_bpp s \<and>
         spice_pixman_image_get_bpp d = spice_pixman_image_get_bpp p \<and> depends_on_all i
      then Inr (if spice_pixman_image_get_bpp d = 32
        then rop3_handle_p TYPE(32) (the (rop3_table (rop3_init rop3_static) i)) d s sp p pp m
        else rop3_handle_p TYPE(16) (the (rop3_table (rop3_init rop3_static) i)) d s sp p pp m)
      else Inl Abort)"
  using rop3_table_iff_depends [of i]
  by (cases "rop3_table (rop3_init rop3_static) i")
    (auto simp: do_rop3_with_pattern_def spice_assert_def Let_def)

end
