(* ===== verification/Ring.thy ===== *)
theory Ring
  imports Prelude
begin

text \<open>
  The intrusive doubly linked ring (spice-common/common/ring.h) that every queue, pipe and cache of
  the server is built on. The pointer fields of all ring items are two maps from addresses to
  optional addresses (\<open>None\<close> is \<open>NULL\<close>); each inline function is translated statement by statement.
  \<open>is_ring h r xs\<close> says that the ring headed by \<open>r\<close> links the items \<open>xs\<close> in order, and the lemmas show
  that each operation acts on that list as the callers expect and leaves other items alone.
\<close>

section \<open>The pointer model\<close>

record 'p ring_heap =
  prev_of :: "'p \<Rightarrow> 'p option"
  next_of :: "'p \<Rightarrow> 'p option"

definition set_prev :: "'p \<Rightarrow> 'p option \<Rightarrow> 'p ring_heap \<Rightarrow> 'p ring_heap" where
  "set_prev a v h = h\<lparr>prev_of := (prev_of h)(a := v)\<rparr>"

definition set_next :: "'p \<Rightarrow> 'p option \<Rightarrow> 'p ring_heap \<Rightarrow> 'p ring_heap" where
  "set_next a v h = h\<lparr>next_of := (next_of h)(a := v)\<rparr>"

definition ring_init :: "'p ring_heap \<Rightarrow> 'p \<Rightarrow> 'p ring_heap" where
  "ring_init h ring = set_next ring (Some ring) (set_prev ring (Some ring) h)"

definition ring_item_init :: "'p ring_heap \<Rightarrow> 'p \<Rightarrow> 'p ring_heap" where
  "ring_item_init h item = set_next item None (set_prev item None h)"

definition ring_item_is_linked :: "'p ring_heap \<Rightarrow> 'p \<Rightarrow> bool" where
  "ring_item_is_linked h item = (next_of h item \<noteq> None)"

definition ring_linked :: "'p ring_heap \<Rightarrow> 'p \<Rightarrow> bool" where
  "ring_linked h ring = (next_of h ring \<noteq> None \<and> prev_of h ring \<noteq> None)"

definition ring_is_empty :: "'p ring_heap \<Rightarrow> 'p \<Rightarrow> bool res" where
  "ring_is_empty h ring = spice_assert (ring_linked h ring) (Inr (next_of h ring = Some ring))"

definition ring_add :: "'p ring_heap \<Rightarrow> 'p \<Rightarrow> 'p \<Rightarrow> 'p ring_heap res" where
  "ring_add h ring item =
     spice_assert (ring_linked h ring)
       (spice_assert (next_of h item = None \<and> prev_of h item = None)
         (let h1 = set_prev item (Some ring) (set_next item (next_of h ring) h) in
          rbind (deref (next_of h1 item)) (\<lambda>n.
            Inr (set_next ring (Some item) (set_prev n (Some item) h1)))))"

definition ring_add_after :: "'p ring_heap \<Rightarrow> 'p \<Rightarrow> 'p \<Rightarrow> 'p ring_heap res" where
  "ring_add_after h item pos = ring_add h pos item"

definition ring_add_before :: "'p ring_heap \<Rightarrow> 'p \<Rightarrow> 'p \<Rightarrow> 'p ring_heap res" where
  "ring_add_before h item pos = rbind (deref (prev_of h pos)) (\<lambda>p. ring_add h p item)"

definition ring_unlink :: "'p ring_heap \<Rightarrow> 'p \<Rightarrow> 'p ring_heap res" where
  "ring_unlink h item =
     rbind (deref (next_of h item)) (\<lambda>n.
       let h1 = set_prev n (prev_of h item) h in
       rbind (deref (prev_of h1 item)) (\<lambda>p.
         let h2 = set_next p (next_of h1 item) h1 in
         Inr (set_prev item None (set_next item None h2))))"

definition ring_remove :: "'p ring_heap \<Rightarrow> 'p \<Rightarrow> 'p ring_heap res" where
  "ring_remove h item =
     spice_assert (ring_linked h item)
       (spice_assert (next_of h item \<noteq> Some item) (ring_unlink h item))"

definition ring_get_head :: "'p ring_heap \<Rightarrow> 'p \<Rightarrow> 'p option res" where
  "ring_get_head h ring =
     spice_assert (ring_linked h ring)
       (rbind (ring_is_empty h ring) (\<lambda>e. Inr (if e then None else next_of h ring)))"

definition ring_get_tail :: "'p ring_heap \<Rightarrow> 'p \<Rightarrow> 'p option res" where
  "ring_get_tail h ring =
     spice_assert (ring_linked h ring)
       (rbind (ring_is_empty h ring) (\<lambda>e. Inr (if e then None else prev_of h ring)))"

definition ring_next :: "'p ring_heap \<Rightarrow> 'p \<Rightarrow> 'p \<Rightarrow> 'p option res" where
  "ring_next h ring pos =
     spice_assert (ring_linked h ring)
       (spice_assert (ring_linked h pos)
         (Inr (if next_of h pos = Some ring then None else next_of h pos)))"

definition ring_prev :: "'p ring_heap \<Rightarrow> 'p \<Rightarrow> 'p \<Rightarrow> 'p option res" where
  "ring_prev h ring pos =
     spice_assert (ring_linked h ring)
       (spice_assert (ring_linked h pos)
         (Inr (if prev_of h pos = Some ring then None else prev_of h pos)))"

text \<open>
  \<open>RING_FOREACH\<close> and \<open>RING_FOREACH_REVERSED\<close>: the items in the order the loop visits them, when the body
  does not change the ring. The loops have no bound of their own, so the walk carries fuel.
\<close>

fun ring_walk :: "nat \<Rightarrow> 'p ring_heap \<Rightarrow> 'p \<Rightarrow> 'p option \<Rightarrow> 'p list res" where
  "ring_walk fuel h ring None = Inr []"
| "ring_walk 0 h ring (Some pos) = Inl NoFuel"
| "ring_walk (Suc fuel) h ring (Some pos) =
     rbind (ring_next h ring pos) (\<lambda>nx.
       rbind (ring_walk fuel h ring nx) (\<lambda>ps. Inr (pos # ps)))"

definition ring_foreach :: "nat \<Rightarrow> 'p ring_heap \<Rightarrow> 'p \<Rightarrow> 'p list res" where
  "ring_foreach fuel h ring = rbind (ring_get_head h ring) (ring_walk fuel h ring)"

fun ring_walk_reversed :: "nat \<Rightarrow> 'p ring_heap \<Rightarrow> 'p \<Rightarrow> 'p option \<Rightarrow> 'p list res" where
  "ring_walk_reversed fuel h ring None = Inr []"
| "ring_walk_reversed 0 h ring (Some pos) = Inl NoFuel"
| "ring_walk_reversed (Suc fuel) h ring (Some pos) =
     rbind (ring_prev h ring pos) (\<lambda>pv.
       rbind (ring_walk_reversed fuel h ring pv) (\<lambda>ps. Inr (pos # ps)))"

definition ring_foreach_reversed :: "nat \<Rightarrow> 'p ring_heap \<Rightarrow> 'p \<Rightarrow> 'p list res" where
  "ring_foreach_reversed fuel h ring = rbind (ring_get_tail h ring) (ring_walk_reversed fuel h ring)"

fun ring_count :: "nat \<Rightarrow> 'p ring_heap \<Rightarrow> 'p \<Rightarrow> 'p option \<Rightarrow> u32 \<Rightarrow> u32 res" where
  "ring_count fuel h ring None ret = Inr ret"
| "ring_count 0 h ring (Some i) ret = Inl NoFuel"
| "ring_count (Suc fuel) h ring (Some i) ret =
     rbind (ring_next h ring i) (\<lambda>nx. ring_count fuel h ring nx (ret + 1))"

definition ring_get_length :: "nat \<Rightarrow> 'p ring_heap \<Rightarrow> 'p \<Rightarrow> u32 res" where
  "ring_get_length fuel h ring = rbind (ring_get_head h ring) (\<lambda>i. ring_count fuel h ring i 0)"


section \<open>Rings as lists\<close>

fun linked :: "'p ring_heap \<Rightarrow> 'p list \<Rightarrow> bool" where
  "linked h (a # b # zs) = (next_of h a = Some b \<and> prev_of h b = Some a \<and> linked h (b # zs))"
| "linked h _ = True"

definition is_ring :: "'p ring_heap \<Rightarrow> 'p \<Rightarrow> 'p list \<Rightarrow> bool" where
  "is_ring h r xs = (distinct (r # xs) \<and> linked h (r # xs @ [r]))"

named_theorems ring_defs \<open>the pointer operations, unfolded\<close>

lemmas ring_op_defs [ring_defs] = ring_add_def ring_unlink_def ring_remove_def ring_is_empty_def
  ring_get_head_def ring_get_tail_def ring_next_def ring_prev_def ring_linked_def

lemma set_ptr_simps [simp]:
  "next_of (set_prev a v h) = next_of h"
  "prev_of (set_next a v h) = prev_of h"
  "next_of (set_next a v h) = (next_of h)(a := v)"
  "prev_of (set_prev a v h) = (prev_of h)(a := v)"
  by (simp_all add: set_prev_def set_next_def)

lemma linked_append: "linked h (xs @ a # ys) \<longleftrightarrow> linked h (xs @ [a]) \<and> linked h (a # ys)"
  by (induction h xs rule: linked.induct) (cases ys; auto)+

lemma linked_upd:
  assumes "\<And>x. x \<in> set (butlast zs) \<Longrightarrow> next_of h' x = next_of h x"
    and "\<And>x. x \<in> set (tl zs) \<Longrightarrow> prev_of h' x = prev_of h x"
  shows "linked h' zs = linked h zs"
  using assms by (induction h zs rule: linked.induct) auto

lemma linked_insert:
  assumes "linked h (us @ p # q # vs)" "distinct (us @ p # butlast (q # vs))"
    "distinct (tl (us @ [p]) @ q # vs)" "x \<notin> set (us @ p # q # vs)"
    and h': "next_of h' = (next_of h)(x := Some q, p := Some x)"
      "prev_of h' = (prev_of h)(x := Some p, q := Some x)"
  shows "linked h' (us @ p # x # q # vs)"
proof -
  have "set (tl (us @ [p])) \<subseteq> set (us @ [p])" by (cases us) auto
  then have "linked h' (us @ [p]) = linked h (us @ [p])"
    using assms(2-4) by (intro linked_upd) (auto simp: h')
  moreover have "set (butlast (q # vs)) \<subseteq> set (q # vs)" by (auto dest: in_set_butlastD)
  then have "linked h' (q # vs) = linked h (q # vs)"
    using assms(2-4) by (intro linked_upd) (auto simp: h' simp del: butlast.simps)
  ultimately show ?thesis
    using assms(1,4) linked_append [of h us p "q # vs"] linked_append [of h' us p "x # q # vs"]
    by (auto simp: h')
qed

lemma linked_delete:
  assumes "linked h (us @ p # x # q # vs)" "distinct (us @ p # butlast (q # vs))"
    "distinct (tl (us @ [p]) @ q # vs)" "x \<notin> set (us @ p # q # vs)"
    and h': "next_of h' = (next_of h)(p := Some q, x := None)"
      "prev_of h' = (prev_of h)(q := Some p, x := None)"
  shows "linked h' (us @ p # q # vs)"
proof -
  have "set (tl (us @ [p])) \<subseteq> set (us @ [p])" by (cases us) auto
  then have "linked h' (us @ [p]) = linked h (us @ [p])"
    using assms(2-4) by (intro linked_upd) (auto simp: h')
  moreover have "set (butlast (q # vs)) \<subseteq> set (q # vs)" by (auto dest: in_set_butlastD)
  then have "linked h' (q # vs) = linked h (q # vs)"
    using assms(2-4) by (intro linked_upd) (auto simp: h' simp del: butlast.simps)
  ultimately show ?thesis
    using assms(1,4) linked_append [of h us p "x # q # vs"] linked_append [of h' us p "q # vs"]
    by (auto simp: h')
qed

text \<open>The successor and the predecessor of an item on the closed walk \<open>r # xs @ [r]\<close>.\<close>

lemma is_ring_split:
  assumes "is_ring h r xs" "r # xs = us @ p # ws"
  obtains q vs where "ws @ [r] = q # vs" "linked h (us @ p # q # vs)"
    "distinct (us @ p # butlast (q # vs))" "distinct (tl (us @ [p]) @ q # vs)"
    "set (us @ p # q # vs) = set (r # xs)" "next_of h p = Some q" "prev_of h q = Some p"
proof -
  obtain q vs where q: "ws @ [r] = q # vs" by (cases "ws @ [r]") auto
  have cyc: "r # xs @ [r] = us @ p # q # vs"
    using assms(2) q by (metis append.assoc append_Cons)
  have d: "distinct (r # xs)" and l: "linked h (us @ p # q # vs)"
    using assms(1) cyc by (auto simp: is_ring_def)
  have b: "butlast (q # vs) = ws" by (metis q butlast_snoc)
  have "distinct (tl (r # xs @ [r]))" using d by auto
  then have "distinct (tl (us @ [p]) @ q # vs)" unfolding cyc by (cases us) auto
  moreover have "distinct (us @ p # butlast (q # vs))" using d assms(2) b by metis
  moreover have "set (us @ p # q # vs) = set (r # xs)" by (simp flip: cyc)
  moreover have "next_of h p = Some q" "prev_of h q = Some p"
    using l linked_append [of h us p "q # vs"] by auto
  ultimately show ?thesis using that q l by blast
qed

lemma is_ring_linked:
  assumes "is_ring h r xs" "p \<in> set (r # xs)"
  shows "ring_linked h p"
proof -
  obtain us ws where "r # xs = us @ p # ws" using assms(2) by (meson split_list)
  with assms(1) have "next_of h p \<noteq> None" by (elim is_ring_split) auto
  moreover have "prev_of h p \<noteq> None"
  proof (cases "p = r")
    case True
    obtain us y where "r # xs = us @ y # []" by (metis append_butlast_last_id list.distinct(1))
    with assms(1) show ?thesis by (elim is_ring_split [of _ _ _ us y "[]"]) (auto simp: True)
  next
    case False
    then obtain us' where "us = us' @ [last us]"
      using \<open>r # xs = us @ p # ws\<close> by (cases us rule: rev_cases) auto
    with \<open>r # xs = us @ p # ws\<close> have "r # xs = us' @ last us # p # ws" by (metis append.assoc append_Cons append_Nil)
    with assms(1) show ?thesis by (elim is_ring_split) auto
  qed
  ultimately show ?thesis by (simp add: ring_linked_def)
qed

lemma ring_add_at:
  assumes "is_ring h r xs" "r # xs = us @ p # ws" "next_of h x = None" "prev_of h x = None"
  shows "\<exists>h'. ring_add h p x = Inr h' \<and> is_ring h' r (tl (us @ p # x # ws)) \<and>
    (\<forall>y. y \<notin> set (x # r # xs) \<longrightarrow> next_of h' y = next_of h y \<and> prev_of h' y = prev_of h y)"
proof -
  have xn: "x \<notin> set (r # xs)"
    using is_ring_linked [OF assms(1), of x] assms(3) by (auto simp: ring_linked_def)
  obtain q vs where q: "ws @ [r] = q # vs" "linked h (us @ p # q # vs)"
    "distinct (us @ p # butlast (q # vs))" "distinct (tl (us @ [p]) @ q # vs)"
    "set (us @ p # q # vs) = set (r # xs)" "next_of h p = Some q"
    using is_ring_split [OF assms(1,2)] by metis
  have pn: "ring_linked h p" "x \<noteq> p"
    using is_ring_linked [OF assms(1), of p] xn assms(2) by auto
  define h' where "h' = set_next p (Some x) (set_prev q (Some x) (set_prev x (Some p) (set_next x (Some q) h)))"
  have add: "ring_add h p x = Inr h'"
    using pn assms(3,4) q(6) by (simp add: ring_add_def ring_linked_def Let_def h'_def)
  have "linked h' (us @ p # x # q # vs)"
    using q xn by (intro linked_insert) (auto simp: h'_def)
  moreover have "r # tl (us @ p # x # ws) @ [r] = us @ p # x # q # vs"
    using assms(2) q(1) by (cases us) auto
  moreover have "r # tl (us @ p # x # ws) = us @ p # x # ws"
    using assms(2) by (cases us) auto
  moreover have "distinct (us @ p # x # ws)"
    using assms(1,2) xn by (auto simp: is_ring_def)
  ultimately have "is_ring h' r (tl (us @ p # x # ws))"
    by (simp add: is_ring_def del: append.simps distinct.simps)
  moreover have "\<forall>y. y \<notin> set (x # r # xs) \<longrightarrow> next_of h' y = next_of h y \<and> prev_of h' y = prev_of h y"
    using q(5) by (auto simp: h'_def)
  ultimately show ?thesis using add by blast
qed

lemma ring_remove_at:
  assumes "is_ring h r xs" "x \<in> set xs"
  shows "\<exists>h'. ring_remove h x = Inr h' \<and> is_ring h' r (remove1 x xs) \<and>
    next_of h' x = None \<and> prev_of h' x = None \<and>
    (\<forall>y. y \<notin> set (r # xs) \<longrightarrow> next_of h' y = next_of h y \<and> prev_of h' y = prev_of h y)"
proof -
  obtain as ws where xs: "xs = as @ x # ws" "x \<notin> set as" using assms(2) by (meson split_list_first)
  obtain us p where p: "r # as = us @ [p]" by (metis append_butlast_last_id list.distinct(1))
  have sp: "r # xs = (us @ [p]) @ x # ws" "r # xs = us @ p # (x # ws)" using xs p by auto
  obtain q vs where q: "ws @ [r] = q # vs" "linked h ((us @ [p]) @ x # q # vs)"
    "distinct ((us @ [p]) @ x # butlast (q # vs))" "distinct (tl ((us @ [p]) @ [x]) @ q # vs)"
    "set ((us @ [p]) @ x # q # vs) = set (r # xs)" "next_of h x = Some q"
    using is_ring_split [OF assms(1) sp(1)] by metis
  have px: "prev_of h x = Some p"
    using is_ring_split [OF assms(1) sp(2)] by (metis append_Cons list.inject)
  have d: "distinct (r # as @ x # ws)" using assms(1) xs by (simp add: is_ring_def)
  have up: "set (us @ [p]) = set (r # as)" "set (q # vs) = set (r # ws)"
    by (simp_all flip: p q(1))
  then have ne: "x \<noteq> p" "x \<noteq> q" and xn: "x \<notin> set (us @ p # q # vs)" using d by auto
  define h' where "h' = set_prev x None (set_next x None (set_next p (Some q) (set_prev q (Some p) h)))"
  have rem: "ring_remove h x = Inr h'"
    using ne px q(6) by (auto simp: ring_defs h'_def Let_def)
  have b: "butlast (q # vs) = ws" by (metis q(1) butlast_snoc)
  have "tl (us @ [p]) @ q # vs = as @ ws @ [r]" by (simp flip: p q(1))
  then have d2: "distinct (tl (us @ [p]) @ q # vs)" using d by auto
  have "linked h' (us @ p # q # vs)"
    using q(2,3) d2 xn b by (intro linked_delete [of h us p x q vs]) (auto simp: h'_def)
  moreover have rx: "remove1 x xs = as @ ws" using xs by (simp add: remove1_append)
  moreover have "r # (as @ ws) @ [r] = us @ p # q # vs" using p q(1) by simp
  moreover have "distinct (r # as @ ws)" using d by auto
  ultimately have "is_ring h' r (remove1 x xs)"
    by (simp add: is_ring_def)
  moreover have "\<forall>y. y \<notin> set (r # xs) \<longrightarrow> next_of h' y = next_of h y \<and> prev_of h' y = prev_of h y"
    using q(5) ne by (auto simp: h'_def)
  ultimately show ?thesis using rem by (auto simp: h'_def)
qed

definition detached :: "'p ring_heap \<Rightarrow> 'p \<Rightarrow> bool" where
  "detached h x = (next_of h x = None \<and> prev_of h x = None)"

definition same_links :: "'p set \<Rightarrow> 'p ring_heap \<Rightarrow> 'p ring_heap \<Rightarrow> bool" where
  "same_links S h h' = (\<forall>y. y \<notin> S \<longrightarrow> next_of h' y = next_of h y \<and> prev_of h' y = prev_of h y)"

lemma same_links_detached: "same_links S h h' \<Longrightarrow> y \<notin> S \<Longrightarrow> detached h' y = detached h y"
  by (simp add: same_links_def detached_def)

lemma same_links_ring:
  "same_links S h h' \<Longrightarrow> set (r # xs) \<inter> S = {} \<Longrightarrow> is_ring h r xs \<Longrightarrow> is_ring h' r xs"
proof -
  assume *: "same_links S h h'" "set (r # xs) \<inter> S = {}" "is_ring h r xs"
  have sub: "set (butlast (r # xs @ [r])) \<subseteq> set (r # xs)" "set (tl (r # xs @ [r])) \<subseteq> set (r # xs)"
    by (auto simp: butlast_append)
  have "linked h' (r # xs @ [r]) = linked h (r # xs @ [r])"
    by (rule linked_upd) (use *(1,2) sub in \<open>auto simp: same_links_def simp del: butlast.simps\<close>)
  with *(3) show ?thesis by (simp add: is_ring_def)
qed

lemma is_ring_detached: "is_ring h r xs \<Longrightarrow> detached h x \<Longrightarrow> x \<notin> set (r # xs)"
  using is_ring_linked [of h r xs x] by (auto simp: ring_linked_def detached_def)

lemma ring_init_empty: "is_ring (ring_init h r) r []"
  by (simp add: is_ring_def ring_init_def)

lemma ring_add_head:
  assumes "is_ring h r xs" "detached h x"
  shows "\<exists>h'. ring_add h r x = Inr h' \<and> is_ring h' r (x # xs) \<and> same_links (set (x # r # xs)) h h'"
  using ring_add_at [of h r xs "[]" r xs x] assms by (auto simp: detached_def same_links_def)

lemma ring_add_after_at:
  assumes "is_ring h r (as @ y # bs)" "detached h x"
  shows "\<exists>h'. ring_add_after h x y = Inr h' \<and> is_ring h' r (as @ y # x # bs)
    \<and> same_links (set (x # r # as @ y # bs)) h h'"
  using ring_add_at [of h r "as @ y # bs" "r # as" y bs x] assms
  by (auto simp: detached_def same_links_def ring_add_after_def)

lemma prev_of_ring:
  assumes "is_ring h r xs" "xs = as @ bs"
  shows "prev_of h (hd (bs @ [r])) = Some (last (r # as))"
proof -
  obtain us p where p: "r # as = us @ [p]" by (metis append_butlast_last_id list.distinct(1))
  then have "r # xs = us @ p # bs" using assms(2) by simp
  with assms(1) obtain q vs where "bs @ [r] = q # vs" "prev_of h q = Some p"
    by (elim is_ring_split) blast
  with p show ?thesis by simp
qed

lemma next_of_ring:
  assumes "is_ring h r xs" "xs = as @ bs"
  shows "next_of h (last (r # as)) = Some (hd (bs @ [r]))"
proof -
  obtain us p where p: "r # as = us @ [p]" by (metis append_butlast_last_id list.distinct(1))
  then have "r # xs = us @ p # bs" using assms(2) by simp
  with assms(1) obtain q vs where "bs @ [r] = q # vs" "next_of h p = Some q"
    by (elim is_ring_split) blast
  with p show ?thesis by simp
qed

lemma ring_add_before_at:
  assumes "is_ring h r xs" "xs = as @ bs" "detached h x"
  shows "\<exists>h'. ring_add_before h x (hd (bs @ [r])) = Inr h' \<and> is_ring h' r (as @ x # bs)
    \<and> same_links (set (x # r # xs)) h h'"
proof -
  obtain us p where p: "r # as = us @ [p]" by (metis append_butlast_last_id list.distinct(1))
  then have "r # xs = us @ p # bs" using assms(2) by simp
  moreover have "tl (us @ p # x # bs) = as @ x # bs" using p by (cases us) auto
  moreover have "prev_of h (hd (bs @ [r])) = Some p" using prev_of_ring [OF assms(1,2)] p by simp
  ultimately show ?thesis using ring_add_at [of h r xs us p bs x] assms
    by (auto simp: detached_def same_links_def ring_add_before_def)
qed

lemma ring_add_tail:
  "is_ring h r xs \<Longrightarrow> detached h x \<Longrightarrow>
   \<exists>h'. ring_add_before h x r = Inr h' \<and> is_ring h' r (xs @ [x]) \<and> same_links (set (x # r # xs)) h h'"
  using ring_add_before_at [of h r xs xs "[]" x] by simp

lemma ring_remove_spec:
  "is_ring h r xs \<Longrightarrow> x \<in> set xs \<Longrightarrow>
   \<exists>h'. ring_remove h x = Inr h' \<and> is_ring h' r (remove1 x xs) \<and> detached h' x
     \<and> same_links (set (r # xs)) h h'"
  using ring_remove_at [of h r xs x] by (auto simp: detached_def same_links_def)

lemma ring_is_empty_spec: "is_ring h r xs \<Longrightarrow> ring_is_empty h r = Inr (xs = [])"
  using is_ring_linked [of h r xs r] next_of_ring [of h r xs "[]" xs]
  by (cases xs) (auto simp: ring_is_empty_def is_ring_def)

lemma ring_get_head_spec:
  "is_ring h r xs \<Longrightarrow> ring_get_head h r = Inr (if xs = [] then None else Some (hd xs))"
  using is_ring_linked [of h r xs r] next_of_ring [of h r xs "[]" xs] ring_is_empty_spec [of h r xs]
  by (auto simp: ring_get_head_def)

lemma ring_get_tail_spec:
  "is_ring h r xs \<Longrightarrow> ring_get_tail h r = Inr (if xs = [] then None else Some (last xs))"
  using is_ring_linked [of h r xs r] prev_of_ring [of h r xs xs "[]"] ring_is_empty_spec [of h r xs]
  by (auto simp: ring_get_tail_def)

lemma ring_next_spec:
  assumes "is_ring h r (as @ x # bs)"
  shows "ring_next h r x = Inr (if bs = [] then None else Some (hd bs))"
  using is_ring_linked [OF assms, of r] is_ring_linked [OF assms, of x] assms
    next_of_ring [OF assms, of "as @ [x]" bs]
  by (cases bs) (auto simp: ring_next_def is_ring_def)

lemma ring_prev_spec:
  assumes "is_ring h r (as @ x # bs)"
  shows "ring_prev h r x = Inr (if as = [] then None else Some (last as))"
  using is_ring_linked [OF assms, of r] is_ring_linked [OF assms, of x] assms
    prev_of_ring [OF assms, of as "x # bs"]
  by (cases as rule: rev_cases) (auto simp: ring_prev_def is_ring_def)

lemma ring_walk_spec:
  "is_ring h r (as @ bs) \<Longrightarrow> length bs \<le> fuel \<Longrightarrow>
   ring_walk fuel h r (if bs = [] then None else Some (hd bs)) = Inr bs"
proof (induction bs arbitrary: as fuel)
  case (Cons x bs)
  then obtain f where f: "fuel = Suc f" by (cases fuel) auto
  have "ring_walk f h r (if bs = [] then None else Some (hd bs)) = Inr bs"
    using Cons.IH [of "as @ [x]" f] Cons.prems f by simp
  with Cons.prems(1) f show ?case by (simp add: ring_next_spec)
qed simp

lemma ring_walk_reversed_spec:
  "is_ring h r (as @ bs) \<Longrightarrow> length as \<le> fuel \<Longrightarrow>
   ring_walk_reversed fuel h r (if as = [] then None else Some (last as)) = Inr (rev as)"
proof (induction as arbitrary: bs fuel rule: rev_induct)
  case (snoc x as)
  then obtain f where f: "fuel = Suc f" by (cases fuel) auto
  have "ring_walk_reversed f h r (if as = [] then None else Some (last as)) = Inr (rev as)"
    using snoc.IH [of "x # bs" f] snoc.prems f by simp
  with snoc.prems(1) f show ?case by (simp add: ring_prev_spec)
qed simp

lemma ring_count_spec:
  "is_ring h r (as @ bs) \<Longrightarrow> length bs \<le> fuel \<Longrightarrow>
   ring_count fuel h r (if bs = [] then None else Some (hd bs)) n = Inr (n + of_nat (length bs))"
proof (induction bs arbitrary: as fuel n)
  case (Cons x bs)
  then obtain f where f: "fuel = Suc f" by (cases fuel) auto
  have "ring_count f h r (if bs = [] then None else Some (hd bs)) (n + 1) = Inr (n + 1 + of_nat (length bs))"
    using Cons.IH [of "as @ [x]" f "n + 1"] Cons.prems f by simp
  with Cons.prems(1) f show ?case by (simp add: ring_next_spec algebra_simps)
qed simp


section \<open>The interface the queues rely on\<close>

text \<open>
  The callers see a ring as a sequence: they add at one end, look at the other, and take items out.
  \<open>push_all\<close> and \<open>drain\<close> are the loops they write, \<open>ring_add\<close> for each new item and
  \<open>while ((item = ring_get_tail(ring))) { ring_remove(item); ... }\<close>, over any implementation of the
  interface.
\<close>

fun push_all :: "('h \<Rightarrow> 'p \<Rightarrow> 'h res) \<Rightarrow> 'h \<Rightarrow> 'p list \<Rightarrow> 'h res" where
  "push_all add h [] = Inr h"
| "push_all add h (y # ys) = rbind (add h y) (\<lambda>h'. push_all add h' ys)"

fun drain :: "nat \<Rightarrow> ('h \<Rightarrow> 'p option res) \<Rightarrow> ('h \<Rightarrow> 'p \<Rightarrow> 'h res) \<Rightarrow> 'h \<Rightarrow> ('p list \<times> 'h) res" where
  "drain 0 get rm h = Inl NoFuel"
| "drain (Suc n) get rm h =
     rbind (get h) (\<lambda>i. case i of
       None \<Rightarrow> Inr ([], h)
     | Some x \<Rightarrow> rbind (rm h x) (\<lambda>h'. rbind (drain n get rm h') (\<lambda>(xs, h''). Inr (x # xs, h''))))"

locale ring_seq =
  fixes repr :: "'h \<Rightarrow> 'p \<Rightarrow> 'p list \<Rightarrow> bool"
    and unlinked :: "'h \<Rightarrow> 'p \<Rightarrow> bool"
    and add :: "'h \<Rightarrow> 'p \<Rightarrow> 'p \<Rightarrow> 'h res"
    and remove :: "'h \<Rightarrow> 'p \<Rightarrow> 'h res"
    and head :: "'h \<Rightarrow> 'p \<Rightarrow> 'p option res"
    and tail :: "'h \<Rightarrow> 'p \<Rightarrow> 'p option res"
  assumes add_ok: "repr h r xs \<Longrightarrow> unlinked h x \<Longrightarrow>
      \<exists>h'. add h r x = Inr h' \<and> repr h' r (x # xs) \<and> (\<forall>y. unlinked h y \<longrightarrow> y \<noteq> x \<longrightarrow> unlinked h' y)"
    and remove_ok: "repr h r xs \<Longrightarrow> x \<in> set xs \<Longrightarrow>
      \<exists>h'. remove h x = Inr h' \<and> repr h' r (remove1 x xs) \<and> unlinked h' x"
    and head_ok: "repr h r xs \<Longrightarrow> head h r = Inr (if xs = [] then None else Some (hd xs))"
    and tail_ok: "repr h r xs \<Longrightarrow> tail h r = Inr (if xs = [] then None else Some (last xs))"
    and repr_distinct: "repr h r xs \<Longrightarrow> distinct xs"
begin

lemma push_all_ok:
  "repr h r xs \<Longrightarrow> distinct ys \<Longrightarrow> (\<forall>y\<in>set ys. unlinked h y) \<Longrightarrow>
   \<exists>h'. push_all (\<lambda>h. add h r) h ys = Inr h' \<and> repr h' r (rev ys @ xs)"
proof (induction ys arbitrary: h xs)
  case (Cons y ys)
  then obtain h1 where h1: "add h r y = Inr h1" "repr h1 r (y # xs)"
    "\<forall>z. unlinked h z \<longrightarrow> z \<noteq> y \<longrightarrow> unlinked h1 z"
    using add_ok [of h r xs y] by auto
  with Cons.prems have "\<forall>z\<in>set ys. unlinked h1 z" by auto
  from Cons.IH [OF h1(2) _ this] Cons.prems h1(1) show ?case by auto
qed simp

lemma drain_tail_ok:
  "repr h r xs \<Longrightarrow> length xs < n \<Longrightarrow>
   \<exists>h'. drain n (\<lambda>h. tail h r) remove h = Inr (rev xs, h') \<and> repr h' r []"
proof (induction xs arbitrary: h n rule: rev_induct)
  case Nil
  then show ?case by (cases n) (auto simp: tail_ok)
next
  case (snoc x xs)
  then obtain m where n: "n = Suc m" by (cases n) auto
  have "remove1 x (xs @ [x]) = xs"
    using repr_distinct [OF snoc.prems(1)] by (simp add: remove1_append)
  then obtain h1 where h1: "remove h x = Inr h1" "repr h1 r xs"
    using remove_ok [OF snoc.prems(1), of x] by auto
  from snoc.IH [OF h1(2), of m] snoc.prems(2) n obtain h2
    where "drain m (\<lambda>h. tail h r) remove h1 = Inr (rev xs, h2)" "repr h2 r []" by auto
  with h1(1) show ?case by (simp add: n tail_ok [OF snoc.prems(1)])
qed

lemma drain_head_ok:
  "repr h r xs \<Longrightarrow> length xs < n \<Longrightarrow>
   \<exists>h'. drain n (\<lambda>h. head h r) remove h = Inr (xs, h') \<and> repr h' r []"
proof (induction xs arbitrary: h n)
  case Nil
  then show ?case by (cases n) (auto simp: head_ok)
next
  case (Cons x xs)
  then obtain m where n: "n = Suc m" by (cases n) auto
  obtain h1 where h1: "remove h x = Inr h1" "repr h1 r xs"
    using remove_ok [OF Cons.prems(1), of x] by auto
  from Cons.IH [OF h1(2), of m] Cons.prems(2) n obtain h2
    where "drain m (\<lambda>h. head h r) remove h1 = Inr (xs, h2)" "repr h2 r []" by auto
  with h1(1) show ?case by (simp add: n head_ok [OF Cons.prems(1)])
qed

lemma fifo_ok:
  assumes "repr h r []" "distinct ys" "\<forall>y\<in>set ys. unlinked h y" "length ys < n"
  shows "\<exists>h1 h2. push_all (\<lambda>h. add h r) h ys = Inr h1 \<and>
    drain n (\<lambda>h. tail h r) remove h1 = Inr (ys, h2) \<and> repr h2 r []"
proof -
  obtain h1 where h1: "push_all (\<lambda>h. add h r) h ys = Inr h1" "repr h1 r (rev ys)"
    using push_all_ok [OF assms(1-3)] by auto
  moreover obtain h2 where "drain n (\<lambda>h. tail h r) remove h1 = Inr (ys, h2)" "repr h2 r []"
    using drain_tail_ok [OF h1(2)] assms(4) by auto
  ultimately show ?thesis by blast
qed

end

interpretation ring: ring_seq is_ring detached ring_add ring_remove ring_get_head ring_get_tail
proof
  fix h :: "'p ring_heap" and r xs x
  assume *: "is_ring h r xs" "detached h x"
  from ring_add_head [OF this] obtain h' where h': "ring_add h r x = Inr h'" "is_ring h' r (x # xs)"
    "same_links (set (x # r # xs)) h h'" by blast
  moreover have "detached h' y" if "detached h y" "y \<noteq> x" for y
    using same_links_detached [OF h'(3), of y] is_ring_detached [OF *(1), of y] that by auto
  ultimately show "\<exists>h'. ring_add h r x = Inr h' \<and> is_ring h' r (x # xs) \<and>
      (\<forall>y. detached h y \<longrightarrow> y \<noteq> x \<longrightarrow> detached h' y)" by blast
next
  fix h :: "'p ring_heap" and r xs x
  assume "is_ring h r xs" "x \<in> set xs"
  from ring_remove_spec [OF this]
  show "\<exists>h'. ring_remove h x = Inr h' \<and> is_ring h' r (remove1 x xs) \<and> detached h' x" by blast
qed (simp_all add: ring_get_head_spec ring_get_tail_spec, simp add: is_ring_def)


section \<open>Properties\<close>

definition ring123 :: "nat ring_heap" where
  "ring123 = \<lparr>prev_of = [0 \<mapsto> 3, 1 \<mapsto> 0, 2 \<mapsto> 1, 3 \<mapsto> 2], next_of = [0 \<mapsto> 1, 1 \<mapsto> 2, 2 \<mapsto> 3, 3 \<mapsto> 0]\<rparr>"

lemma ring123_is_ring: "is_ring ring123 0 [1, 2, 3]"
  by (simp add: is_ring_def ring123_def)

text \<open>
  A ring used as a queue is first-in first-out: after initialising a ring and adding any distinct
  unlinked items with ring_add, the loop that takes the tail and removes it until the ring is empty
  returns, no assertion of ring.h fails, the items come out in the order they were added, and the
  ring is empty again.
\<close>

theorem ring_fifo:
  assumes "distinct ys" "r \<notin> set ys" "\<forall>y\<in>set ys. detached h y" "length ys < n"
  shows "\<exists>h1 h2. push_all (\<lambda>h. ring_add h r) (ring_init h r) ys = Inr h1 \<and>
    drain n (\<lambda>h. ring_get_tail h r) ring_remove h1 = Inr (ys, h2) \<and> is_ring h2 r []"
  by (rule ring.fifo_ok [OF ring_init_empty assms(1) _ assms(4)])
    (use assms in \<open>auto simp: detached_def ring_init_def\<close>)

theorem ring_fifo_witness:
  "\<exists>h1 h2. push_all (\<lambda>h. ring_add h 0) (ring_init \<lparr>prev_of = \<lambda>_. None, next_of = \<lambda>_. None\<rparr> 0) [5, 7, 6 :: nat]
     = Inr h1 \<and> drain 4 (\<lambda>h. ring_get_tail h 0) ring_remove h1 = Inr ([5, 7, 6], h2) \<and> is_ring h2 0 []"
  by (rule ring_fifo) (auto simp: detached_def)

text \<open>
  Inserting with ring_add_before at any position of a well-formed ring (before an item, or before
  the ring head, which means at the tail) succeeds, puts the item exactly there, and changes no link
  outside this ring and the item, so every other ring that shares no item with it is still well formed.
\<close>

theorem ring_add_before_correct:
  assumes "is_ring h r (as @ bs)" "detached h x"
    and "is_ring h r' ys" "set (r' # ys) \<inter> set (x # r # as @ bs) = {}"
  shows "\<exists>h'. ring_add_before h x (hd (bs @ [r])) = Inr h' \<and> is_ring h' r (as @ x # bs)
    \<and> is_ring h' r' ys"
proof -
  obtain h' where "ring_add_before h x (hd (bs @ [r])) = Inr h'" "is_ring h' r (as @ x # bs)"
    "same_links (set (x # r # as @ bs)) h h'"
    using ring_add_before_at [OF assms(1) refl assms(2)] by blast
  with same_links_ring [OF this(3) assms(4,3)] show ?thesis by blast
qed

theorem ring_add_before_correct_witness:
  "\<exists>h'. ring_add_before (ring_init ring123 8) 9 2 = Inr h' \<and> is_ring h' 0 [1, 9, 2, 3] \<and> is_ring h' 8 []"
  using ring_add_before_correct [of "ring_init ring123 8" 0 "[1]" "[2, 3]" 9 8 "[]"]
  by (simp add: is_ring_def detached_def ring_init_def ring123_def)

text \<open>
  C18: removing a member of a well-formed ring succeeds, takes out exactly that item, leaves the item
  unlinked so that it can be added again, and leaves every disjoint ring well formed.
\<close>

theorem ring_remove_correct:
  assumes "is_ring h r xs" "x \<in> set xs" "is_ring h r' ys" "set (r' # ys) \<inter> set (r # xs) = {}"
  shows "\<exists>h'. ring_remove h x = Inr h' \<and> is_ring h' r (remove1 x xs) \<and>
    \<not> ring_item_is_linked h' x \<and> is_ring h' r' ys"
proof -
  obtain h' where "ring_remove h x = Inr h'" "is_ring h' r (remove1 x xs)" "detached h' x"
    "same_links (set (r # xs)) h h'"
    using ring_remove_spec [OF assms(1,2)] by blast
  with same_links_ring [OF this(4) assms(4,3)] show ?thesis
    by (auto simp: ring_item_is_linked_def detached_def)
qed

theorem ring_remove_correct_witness:
  "\<exists>h'. ring_remove (ring_init ring123 8) 2 = Inr h' \<and> is_ring h' 0 [1, 3] \<and>
    \<not> ring_item_is_linked h' 2 \<and> is_ring h' 8 []"
  using ring_remove_correct [of "ring_init ring123 8" 0 "[1, 2, 3]" 2 8 "[]"]
  by (simp add: is_ring_def ring_init_def ring123_def)

text \<open>
  C31: on a well-formed ring the three loops of ring.h end: RING_FOREACH visits every item once in
  order, RING_FOREACH_REVERSED in the opposite order, and ring_get_length counts the items (modulo the
  32 bits of its result).
\<close>

theorem ring_loops_visit:
  assumes "is_ring h r xs" "length xs \<le> fuel"
  shows "ring_foreach fuel h r = Inr xs \<and> ring_foreach_reversed fuel h r = Inr (rev xs)
    \<and> ring_get_length fuel h r = Inr (of_nat (length xs))"
  using assms ring_walk_spec [of h r "[]" xs fuel] ring_walk_reversed_spec [of h r xs "[]" fuel]
    ring_count_spec [of h r "[]" xs fuel 0]
  by (simp add: ring_foreach_def ring_foreach_reversed_def ring_get_length_def
      ring_get_head_spec ring_get_tail_spec)

theorem ring_loops_visit_witness:
  "ring_foreach 3 ring123 0 = Inr [1, 2, 3] \<and> ring_foreach_reversed 3 ring123 0 = Inr [3, 2, 1]
    \<and> ring_get_length 3 ring123 0 = Inr 3"
  using ring_loops_visit [OF ring123_is_ring, of 3] by simp

end
