(* ===== verification/Memslots.thy ===== *)
theory Memslots
  imports Prelude
begin

text \<open>
  Guest memory slots (server/red_memslots.c and red_memslots.h): the table that translates a guest
  QXL physical address, which carries a slot number and a generation in its top bits, into a host
  virtual address, and checks that the guest may touch the bytes it names.
  \<open>unsigned long\<close> and \<open>long\<close> are 64 bits (LP64). The parameter \<open>fatal\<close> says whether
  \<open>spice_critical\<close> stops the process. \<open>print_memslots\<close>, which only prints, is left out.
\<close>

section \<open>The slot table\<close>

record mem_slot =
  generation :: u32
  virt_start_addr :: u64
  virt_end_addr :: u64
  address_delta :: u64

record red_mem_slot_info =
  mem_slots :: "mem_slot list list"
  num_memslots_groups :: u32
  num_memslots :: u32
  mem_slot_bits :: u8
  generation_bits :: u8
  memslot_id_shift :: u8
  memslot_gen_shift :: u8
  internal_groupslot_id :: u8
  memslot_gen_mask :: u64
  memslot_clean_virt_mask :: u64

definition zero_slot :: mem_slot where
  "zero_slot = \<lparr>generation = 0, virt_start_addr = 0, virt_end_addr = 0, address_delta = 0\<rparr>"

definition get_memslot_id :: "red_mem_slot_info \<Rightarrow> u64 \<Rightarrow> u32 res" where
  "get_memslot_id info addr = rbind (shr addr (uint (memslot_id_shift info))) (\<lambda>v. Inr (ucast v))"

definition get_generation :: "red_mem_slot_info \<Rightarrow> u64 \<Rightarrow> u32 res" where
  "get_generation info addr =
     rbind (shr addr (uint (memslot_gen_shift info))) (\<lambda>v. Inr (ucast (v AND memslot_gen_mask info)))"

definition get_clean_virt :: "red_mem_slot_info \<Rightarrow> u64 \<Rightarrow> u64" where
  "get_clean_virt info addr = addr AND memslot_clean_virt_mask info"

text \<open>\<open>info->mem_slots[group][slot]\<close>: the slot number is an \<open>int\<close>, so it is read as a signed index.\<close>

definition slot_at :: "red_mem_slot_info \<Rightarrow> int \<Rightarrow> int \<Rightarrow> mem_slot res" where
  "slot_at info g i = rbind (index_list (mem_slots info) g) (\<lambda>row. index_list row i)"

definition validate_virt :: "bool \<Rightarrow> red_mem_slot_info \<Rightarrow> u64 \<Rightarrow> u32 \<Rightarrow> u32 \<Rightarrow> u32 \<Rightarrow> bool res" where
  "validate_virt fatal info virt slot_id add_size group_id =
     rbind (slot_at info (uint group_id) (sint slot_id)) (\<lambda>slot.
       if virt + ucast add_size < virt then spice_critical fatal (Inr False)
       else if virt < virt_start_addr slot \<or> virt + ucast add_size > virt_end_addr slot
       then spice_critical fatal (Inr False)
       else Inr True)"

text \<open>
  The result is the returned address and the value left in \<open>*error\<close>. The two guards compare an
  \<open>int\<close> with a \<open>uint32_t\<close>, which C does on the unsigned value; both use \<open>>\<close>.
\<close>

definition get_virt :: "bool \<Rightarrow> red_mem_slot_info \<Rightarrow> u64 \<Rightarrow> u32 \<Rightarrow> u32 \<Rightarrow> (u64 \<times> bool) res" where
  "get_virt fatal info addr add_size group_id =
     (if group_id > num_memslots_groups info then spice_critical fatal (Inr (0, True))
      else rbind (get_memslot_id info addr) (\<lambda>slot_id.
        if slot_id > num_memslots info then spice_critical fatal (Inr (0, True))
        else rbind (slot_at info (sint group_id) (sint slot_id)) (\<lambda>slot.
          rbind (get_generation info addr) (\<lambda>gen.
            if gen \<noteq> generation slot then spice_critical fatal (Inr (0, True))
            else let h_virt = get_clean_virt info addr + address_delta slot in
              rbind (validate_virt fatal info h_virt slot_id add_size group_id) (\<lambda>ok.
                if \<not> ok then Inr (0, True) else Inr (h_virt, False))))))"

definition red_memslot_info_init :: "u32 \<Rightarrow> u32 \<Rightarrow> u8 \<Rightarrow> u8 \<Rightarrow> u8 \<Rightarrow> red_mem_slot_info res" where
  "red_memslot_info_init num_groups num_slots gen_bits id_bits internal_id =
     spice_assert (num_slots > 0) (spice_assert (num_groups > 0)
       (rbind (shl (- 1 :: u64) (uint gen_bits)) (\<lambda>m.
        rbind (shr (- 1 :: u64) (uint id_bits + uint gen_bits)) (\<lambda>c.
          Inr \<lparr>mem_slots = replicate (unat num_groups) (replicate (unat num_slots) zero_slot),
               num_memslots_groups = num_groups, num_memslots = num_slots,
               mem_slot_bits = id_bits, generation_bits = gen_bits,
               memslot_id_shift = 64 - id_bits, memslot_gen_shift = 64 - (id_bits + gen_bits),
               internal_groupslot_id = internal_id,
               memslot_gen_mask = NOT m, memslot_clean_virt_mask = c\<rparr>))))"

definition set_slot :: "red_mem_slot_info \<Rightarrow> u32 \<Rightarrow> u32 \<Rightarrow> (mem_slot \<Rightarrow> mem_slot) \<Rightarrow> red_mem_slot_info res" where
  "set_slot info g i f =
     rbind (slot_at info (uint g) (uint i)) (\<lambda>slot.
       Inr (info\<lparr>mem_slots := (mem_slots info)[unat g := (mem_slots info ! unat g)[unat i := f slot]]\<rparr>))"

definition red_memslot_info_add_slot :: "red_mem_slot_info \<Rightarrow> u32 \<Rightarrow> u32 \<Rightarrow> u64 \<Rightarrow> u64 \<Rightarrow> u64 \<Rightarrow> u32 \<Rightarrow>
    red_mem_slot_info res" where
  "red_memslot_info_add_slot info slot_group_id slot_id addr_delta virt_start virt_end gen =
     spice_assert (num_memslots_groups info > slot_group_id)
       (spice_assert (num_memslots info > slot_id)
         (set_slot info slot_group_id slot_id (\<lambda>s.
           s\<lparr>address_delta := addr_delta, virt_start_addr := virt_start, virt_end_addr := virt_end,
             generation := gen\<rparr>)))"

definition red_memslot_info_del_slot :: "red_mem_slot_info \<Rightarrow> u32 \<Rightarrow> u32 \<Rightarrow> red_mem_slot_info res" where
  "red_memslot_info_del_slot info slot_group_id slot_id =
     spice_assert (num_memslots_groups info > slot_group_id)
       (spice_assert (num_memslots info > slot_id)
         (set_slot info slot_group_id slot_id (\<lambda>s. s\<lparr>virt_start_addr := 0, virt_end_addr := 0\<rparr>)))"

text \<open>The \<open>memset\<close> clears \<open>num_memslots\<close> slots of each of the first \<open>num_memslots_groups\<close> rows.\<close>

definition clear_row :: "u32 \<Rightarrow> mem_slot list \<Rightarrow> mem_slot list res" where
  "clear_row n row = (if unat n \<le> length row
     then Inr (replicate (unat n) zero_slot @ drop (unat n) row) else Inl OutOfBounds)"

fun clear_rows :: "nat \<Rightarrow> u32 \<Rightarrow> mem_slot list list \<Rightarrow> mem_slot list list res" where
  "clear_rows 0 n rows = Inr rows"
| "clear_rows (Suc k) n [] = Inl OutOfBounds"
| "clear_rows (Suc k) n (row # rows) =
     rbind (clear_row n row) (\<lambda>r. rbind (clear_rows k n rows) (\<lambda>rs. Inr (r # rs)))"

definition red_memslot_info_reset :: "red_mem_slot_info \<Rightarrow> red_mem_slot_info res" where
  "red_memslot_info_reset info =
     rbind (clear_rows (unat (num_memslots_groups info)) (num_memslots info) (mem_slots info))
       (\<lambda>rows. Inr (info\<lparr>mem_slots := rows\<rparr>))"


section \<open>Well-formed tables\<close>

text \<open>
  What \<open>red_memslot_info_init\<close> establishes and every operation keeps: the arrays have the sizes the
  counters say, and the shifts and masks cut a 64-bit address into slot number, generation and
  offset. The slot and group counts fit an \<open>int\<close>, and the slot number is at least one bit wide.
\<close>

definition memslots_wf :: "red_mem_slot_info \<Rightarrow> bool" where
  "memslots_wf info =
     (length (mem_slots info) = unat (num_memslots_groups info) \<and>
      (\<forall>row\<in>set (mem_slots info). length row = unat (num_memslots info)) \<and>
      num_memslots_groups info < 0x80000000 \<and> num_memslots info < 0x80000000 \<and>
      0 < mem_slot_bits info \<and> unat (mem_slot_bits info) + unat (generation_bits info) < 64 \<and>
      unat (mem_slot_bits info) \<le> 32 \<and> unat (generation_bits info) \<le> 32 \<and>
      unat (memslot_id_shift info) = 64 - unat (mem_slot_bits info) \<and>
      unat (memslot_gen_shift info) = 64 - (unat (mem_slot_bits info) + unat (generation_bits info)) \<and>
      memslot_gen_mask info = mask (unat (generation_bits info)) \<and>
      memslot_clean_virt_mask info = mask (64 - (unat (mem_slot_bits info) + unat (generation_bits info))))"

definition addr_slot :: "red_mem_slot_info \<Rightarrow> u64 \<Rightarrow> nat" where
  "addr_slot info addr = unat (drop_bit (64 - unat (mem_slot_bits info)) addr)"

definition addr_gen :: "red_mem_slot_info \<Rightarrow> u64 \<Rightarrow> nat" where
  "addr_gen info addr =
     unat (take_bit (unat (generation_bits info))
       (drop_bit (64 - (unat (mem_slot_bits info) + unat (generation_bits info))) addr))"

definition addr_off :: "red_mem_slot_info \<Rightarrow> u64 \<Rightarrow> nat" where
  "addr_off info addr = unat (take_bit (64 - (unat (mem_slot_bits info) + unat (generation_bits info))) addr)"

lemma set_slot_eq:
  assumes "memslots_wf info" "g < num_memslots_groups info" "i < num_memslots info"
  shows "set_slot info g i f = Inr (info\<lparr>mem_slots := (mem_slots info)[unat g :=
    (mem_slots info ! unat g)[unat i := f (mem_slots info ! unat g ! unat i)]]\<rparr>)"
proof -
  have g: "unat g < length (mem_slots info)" "unat i < unat (num_memslots info)"
    using assms by (auto simp: memslots_wf_def word_less_nat_alt)
  then have "unat i < length (mem_slots info ! unat g)"
    using assms(1) by (simp add: memslots_wf_def)
  with g show ?thesis
    by (simp add: set_slot_def slot_at_def)
qed

lemma memslots_wf_set:
  assumes "memslots_wf info" "length row = unat (num_memslots info)"
  shows "memslots_wf (info\<lparr>mem_slots := (mem_slots info)[g := row]\<rparr>)"
  using assms by (auto simp: memslots_wf_def dest!: subsetD [OF set_update_subset_insert])

lemma memslots_init_wf:
  assumes "red_memslot_info_init ng ns gb ib iid = Inr info"
    and "ng < 0x80000000" "ns < 0x80000000" "0 < ib" "ib \<le> 32" "gb \<le> 32" "unat ib + unat gb < 64"
  shows "memslots_wf info"
proof -
  have ib: "unat ib \<le> 32" "0 < unat ib" "unat gb \<le> 32"
    using assms(4-6) by (auto simp: word_le_nat_alt word_less_nat_alt unat_gt_0)
  have sum: "unat (ib + gb) = unat ib + unat gb"
    using assms(7) by (simp add: unat_word_ariths)
  have s1: "unat (64 - ib) = 64 - unat ib"
    using ib by (subst unat_sub) (auto simp: word_le_nat_alt)
  have s2: "unat (64 - (ib + gb)) = 64 - (unat ib + unat gb)"
    using sum assms(7) by (subst unat_sub) (auto simp: word_le_nat_alt)
  have u: "uint ib + uint gb < 64" using assms(7) uint_add_less [of ib gb 64] by simp
  have n: "nat (uint ib + uint gb) = unat ib + unat gb" by (simp add: nat_add_distrib)
  have m: "NOT (push_bit (unat gb) (- 1)) = (mask (unat gb) :: u64)"
    by (rule bit_word_eqI) (auto simp: bit_simps)
  have c: "drop_bit (unat ib + unat gb) (- 1) = (mask (64 - (unat ib + unat gb)) :: u64)"
    using assms(7) by (intro bit_word_eqI) (auto simp: bit_simps)
  show ?thesis
    using assms(1-4) ib s1 s2 u n m c assms(7)
    by (auto simp: red_memslot_info_init_def memslots_wf_def shl_def shr_def sum uint_less_of_unat split: if_splits)
qed

lemma memslots_set_slot_wf:
  assumes "memslots_wf info" "g < num_memslots_groups info" "i < num_memslots info"
    and "set_slot info g i f = Inr info'"
  shows "memslots_wf info'"
proof -
  have "unat g < length (mem_slots info)"
    using assms(1,2) by (simp add: memslots_wf_def word_less_nat_alt)
  then have "length (mem_slots info ! unat g) = unat (num_memslots info)"
    using assms(1) by (simp add: memslots_wf_def)
  then show ?thesis
    using assms(4) memslots_wf_set [OF assms(1)] by (auto simp: set_slot_eq [OF assms(1-3)])
qed

lemma clear_rows_eq:
  "length rows = k \<Longrightarrow> \<forall>row\<in>set rows. length row = unat n \<Longrightarrow>
   clear_rows k n rows = Inr (replicate k (replicate (unat n) zero_slot))"
  by (induction k n rows rule: clear_rows.induct) (auto simp: clear_row_def)

lemma memslots_reset_eq:
  "memslots_wf info \<Longrightarrow> red_memslot_info_reset info = Inr (info\<lparr>mem_slots :=
     replicate (unat (num_memslots_groups info)) (replicate (unat (num_memslots info)) zero_slot)\<rparr>)"
  by (simp add: red_memslot_info_reset_def memslots_wf_def clear_rows_eq)


section \<open>Address translation\<close>

lemma get_memslot_id_eq:
  assumes "memslots_wf info"
  shows "get_memslot_id info addr = Inr (of_nat (addr_slot info addr))"
    and "addr_slot info addr < 2 ^ 32"
proof -
  let ?b = "unat (mem_slot_bits info)"
  have b: "unat (memslot_id_shift info) = 64 - ?b" "0 < ?b" "?b \<le> 32"
    using assms by (auto simp: memslots_wf_def word_less_nat_alt unat_gt_0)
  then have "uint (memslot_id_shift info) < 64" by (metis diff_less of_nat_less_numeral_iff of_nat_unat zero_less_numeral)
  with b show "get_memslot_id info addr = Inr (of_nat (addr_slot info addr))"
    by (simp add: get_memslot_id_def shr_def addr_slot_def unsigned_of_nat flip: nat_uint_eq)
  have "unat addr < 2 ^ ?b * 2 ^ (64 - ?b)"
    using unsigned_less [of addr] b by (simp flip: power_add)
  then have "addr_slot info addr < 2 ^ ?b"
    unfolding addr_slot_def unsigned_drop_bit_eq drop_bit_nat_def
    by (simp add: less_mult_imp_div_less)
  also have "\<dots> \<le> 2 ^ 32" using b(3) by (intro power_increasing) auto
  finally show "addr_slot info addr < 2 ^ 32" .
qed

lemma get_generation_eq:
  assumes "memslots_wf info"
  shows "get_generation info addr = Inr (of_nat (addr_gen info addr))"
    and "addr_gen info addr < 2 ^ 32"
proof -
  let ?s = "64 - (unat (mem_slot_bits info) + unat (generation_bits info))"
  have b: "unat (memslot_gen_shift info) = ?s" "?s < 64" "unat (generation_bits info) \<le> 32"
    "memslot_gen_mask info = mask (unat (generation_bits info))"
    using assms by (auto simp: memslots_wf_def word_less_nat_alt unat_gt_0)
  then have "uint (memslot_gen_shift info) < 64" by (metis of_nat_less_numeral_iff of_nat_unat)
  with b show "get_generation info addr = Inr (of_nat (addr_gen info addr))"
    by (simp add: get_generation_def shr_def addr_gen_def take_bit_eq_mask flip: nat_uint_eq)
  have "addr_gen info addr < 2 ^ unat (generation_bits info)"
    by (simp add: addr_gen_def unsigned_take_bit_eq)
  also have "\<dots> \<le> 2 ^ 32" using b(3) by (intro power_increasing) auto
  finally show "addr_gen info addr < 2 ^ 32" .
qed

lemma get_clean_virt_eq:
  "memslots_wf info \<Longrightarrow> get_clean_virt info addr = of_nat (addr_off info addr)"
  by (simp add: get_clean_virt_def memslots_wf_def addr_off_def take_bit_eq_mask)

text \<open>
  The decision \<open>get_virt\<close> takes when the group exists and the slot number is not the number of slots:
  the generation must match and the range must lie inside the slot without wrapping around.
\<close>

definition virt_ok :: "mem_slot \<Rightarrow> u64 \<Rightarrow> u32 \<Rightarrow> bool" where
  "virt_ok slot v n = (unat (virt_start_addr slot) \<le> unat v \<and>
     unat v + unat n \<le> unat (virt_end_addr slot))"

lemma virt_ok_iff:
  "virt_ok slot v n \<longleftrightarrow> \<not> v + ucast n < v \<and> \<not> (v < virt_start_addr slot \<or> v + ucast n > virt_end_addr slot)"
proof -
  have n: "unat (ucast n :: u64) = unat n" by (simp add: unsigned_ucast_eq)
  have e: "unat (virt_end_addr slot) < 2 ^ 64" using unsigned_less [of "virt_end_addr slot"] by simp
  show ?thesis
  proof (cases "unat v + unat n < 2 ^ 64")
    case True
    then have "unat (v + ucast n) = unat v + unat n" by (simp add: unat_word_ariths n)
    then show ?thesis by (auto simp: virt_ok_def word_less_nat_alt)
  next
    case False
    have "unat n < 2 ^ 32" using unsigned_less [of n] by simp
    moreover have "unat v < 2 ^ 64" using unsigned_less [of v] by simp
    ultimately have "unat (v + ucast n) < unat v"
      using False by (auto simp: unat_word_ariths n mod_if)
    with False e show ?thesis by (auto simp: virt_ok_def word_less_nat_alt)
  qed
qed

lemma slot_at_small:
  assumes "memslots_wf info" "g < num_memslots_groups info" "i < num_memslots info"
  shows "slot_at info (uint g) (sint i) = Inr (mem_slots info ! unat g ! unat i)"
    and "slot_at info (sint g) (sint i) = Inr (mem_slots info ! unat g ! unat i)"
proof -
  have "g < 0x80000000" "i < 0x80000000" using assms by (auto simp: memslots_wf_def)
  moreover have "unat g < length (mem_slots info)" "unat i < unat (num_memslots info)"
    using assms by (auto simp: memslots_wf_def word_less_nat_alt)
  moreover from this have "unat i < length (mem_slots info ! unat g)"
    using assms(1) by (simp add: memslots_wf_def)
  ultimately show "slot_at info (uint g) (sint i) = Inr (mem_slots info ! unat g ! unat i)"
    "slot_at info (sint g) (sint i) = Inr (mem_slots info ! unat g ! unat i)"
    by (simp_all add: slot_at_def sint_eq_uint_small)
qed

lemma unat_of_addr_slot [simp]: "memslots_wf info \<Longrightarrow> unat (of_nat (addr_slot info addr) :: u32) = addr_slot info addr"
  using get_memslot_id_eq(2) [of info addr] by (simp add: unat_of_nat_small)

lemma unat_of_addr_gen [simp]: "memslots_wf info \<Longrightarrow> unat (of_nat (addr_gen info addr) :: u32) = addr_gen info addr"
  using get_generation_eq(2) [of info addr] by (simp add: unat_of_nat_small)

definition target_slot :: "red_mem_slot_info \<Rightarrow> u32 \<Rightarrow> u64 \<Rightarrow> mem_slot" where
  "target_slot info g addr = mem_slots info ! unat g ! addr_slot info addr"

definition target_virt :: "red_mem_slot_info \<Rightarrow> u32 \<Rightarrow> u64 \<Rightarrow> u64" where
  "target_virt info g addr = of_nat (addr_off info addr) + address_delta (target_slot info g addr)"

lemma get_virt_decides:
  assumes wf: "memslots_wf info" and g: "g < num_memslots_groups info"
    and i: "addr_slot info addr < unat (num_memslots info)"
  shows "get_virt fatal info addr n g =
    (if addr_gen info addr = unat (generation (target_slot info g addr)) \<and>
        virt_ok (target_slot info g addr) (target_virt info g addr) n
     then Inr (target_virt info g addr, False) else spice_critical fatal (Inr (0, True)))"
proof -
  have i': "of_nat (addr_slot info addr) < num_memslots info"
    using i wf by (simp add: word_less_nat_alt)
  have gen: "of_nat (addr_gen info addr) = generation s \<longleftrightarrow> addr_gen info addr = unat (generation s)" for s
    using get_generation_eq(2) [OF wf, of addr] by (simp add: of_nat_eq_word_iff)
  show ?thesis
    using g i' wf slot_at_small [OF wf g i']
    by (auto simp: get_virt_def get_memslot_id_eq get_generation_eq get_clean_virt_eq validate_virt_def
        virt_ok_iff target_slot_def target_virt_def gen Let_def not_less spice_critical_def)
qed

text \<open>The address a driver builds for an offset in a slot.\<close>

definition qxl_addr :: "red_mem_slot_info \<Rightarrow> nat \<Rightarrow> nat \<Rightarrow> nat \<Rightarrow> u64" where
  "qxl_addr info i g n =
     push_bit (64 - unat (mem_slot_bits info)) (of_nat i) OR
     push_bit (64 - (unat (mem_slot_bits info) + unat (generation_bits info))) (of_nat g) OR of_nat n"

lemma qxl_addr_fields:
  assumes wf: "memslots_wf info" and i: "i < 2 ^ unat (mem_slot_bits info)"
    and g: "g < 2 ^ unat (generation_bits info)"
    and n: "n < 2 ^ (64 - (unat (mem_slot_bits info) + unat (generation_bits info)))"
  shows "addr_slot info (qxl_addr info i g n) = i" "addr_gen info (qxl_addr info i g n) = g"
    "addr_off info (qxl_addr info i g n) = n"
proof -
  let ?ib = "unat (mem_slot_bits info)" and ?gb = "unat (generation_bits info)"
  have b: "?ib + ?gb < 64" "?ib \<le> 32" "?gb \<le> 32" using wf by (auto simp: memslots_wf_def)
  note bits = bit_nat_small [OF i] bit_nat_small [OF g] bit_nat_small [OF n]
  have lt: "x < 2 ^ 64" if "x < 2 ^ k" "k \<le> 64" for x k :: nat
    using that by (meson order_less_le_trans power_increasing one_le_numeral)
  have un: "unat (of_nat i :: u64) = i" "unat (of_nat g :: u64) = g" "unat (of_nat n :: u64) = n"
    using lt [OF i] lt [OF g] lt [OF n] b by (simp_all add: unat_of_nat_small)
  have "drop_bit (64 - ?ib) (qxl_addr info i g n) = of_nat i"
    using b by (intro bit_word_eqI) (auto simp: bit_simps qxl_addr_def dest: bits)
  then show "addr_slot info (qxl_addr info i g n) = i" by (simp add: addr_slot_def un)
  have "take_bit ?gb (drop_bit (64 - (?ib + ?gb)) (qxl_addr info i g n)) = of_nat g"
    using b by (intro bit_word_eqI) (auto simp: bit_simps qxl_addr_def dest: bits)
  then show "addr_gen info (qxl_addr info i g n) = g" by (simp add: addr_gen_def un)
  have "take_bit (64 - (?ib + ?gb)) (qxl_addr info i g n) = of_nat n"
    using b by (intro bit_word_eqI) (auto simp: bit_simps qxl_addr_def dest: bits)
  then show "addr_off info (qxl_addr info i g n) = n" by (simp add: addr_off_def un)
qed

lemma target_slot_set:
  assumes "memslots_wf info" "g < num_memslots_groups info" "i < num_memslots info"
    and "set_slot info g i f = Inr info'" "addr_slot info addr = unat i"
  shows "target_slot info' g addr = f (mem_slots info ! unat g ! unat i)"
    and "addr_slot info' addr = addr_slot info addr" "addr_gen info' addr = addr_gen info addr"
    and "addr_off info' addr = addr_off info addr"
    and "num_memslots_groups info' = num_memslots_groups info" "num_memslots info' = num_memslots info"
proof -
  have g: "unat g < length (mem_slots info)" "unat i < unat (num_memslots info)"
    using assms(1-3) by (auto simp: memslots_wf_def word_less_nat_alt)
  then have "unat i < length (mem_slots info ! unat g)"
    using assms(1) by (simp add: memslots_wf_def)
  with g show "target_slot info' g addr = f (mem_slots info ! unat g ! unat i)"
    "addr_slot info' addr = addr_slot info addr" "addr_gen info' addr = addr_gen info addr"
    "addr_off info' addr = addr_off info addr"
    "num_memslots_groups info' = num_memslots_groups info" "num_memslots info' = num_memslots info"
    using assms(4,5)
    by (auto simp: set_slot_eq [OF assms(1-3)] target_slot_def addr_slot_def addr_gen_def addr_off_def)
qed

lemma get_virt_group_out:
  "num_memslots_groups info < g \<Longrightarrow> get_virt fatal info addr n g = spice_critical fatal (Inr (0, True))"
  by (simp add: get_virt_def)

lemma get_virt_slot_out:
  assumes "memslots_wf info" "g \<le> num_memslots_groups info" "unat (num_memslots info) < addr_slot info addr"
  shows "get_virt fatal info addr n g = spice_critical fatal (Inr (0, True))"
  using assms by (simp add: get_virt_def get_memslot_id_eq word_less_nat_alt word_le_nat_alt)

lemma get_virt_past_end:
  assumes wf: "memslots_wf info" and g: "g \<le> num_memslots_groups info"
    and i: "addr_slot info addr \<le> unat (num_memslots info)"
    and e: "g = num_memslots_groups info \<or> addr_slot info addr = unat (num_memslots info)"
  shows "get_virt fatal info addr n g = Inl OutOfBounds"
proof -
  let ?i = "of_nat (addr_slot info addr) :: u32"
  have ui: "unat ?i = addr_slot info addr" using wf by simp
  have le: "?i \<le> num_memslots info" using i ui by (simp add: word_le_nat_alt)
  have "g < 0x80000000" "?i < 0x80000000"
    using wf g le by (auto simp: memslots_wf_def)
  then have "slot_at info (sint g) (sint ?i) = Inl OutOfBounds"
    using wf g e ui by (auto simp: slot_at_def sint_eq_uint_small memslots_wf_def word_le_nat_alt)
  then show ?thesis
    using leD [OF g] leD [OF le] wf by (simp add: get_virt_def get_memslot_id_eq)
qed

lemma get_virt_request_cases:
  obtains "num_memslots_groups info < g"
  | "g \<le> num_memslots_groups info" "unat (num_memslots info) < addr_slot info addr"
  | "g \<le> num_memslots_groups info" "addr_slot info addr \<le> unat (num_memslots info)"
    "g = num_memslots_groups info \<or> addr_slot info addr = unat (num_memslots info)"
  | "g < num_memslots_groups info" "addr_slot info addr < unat (num_memslots info)"
  by (metis linorder_less_linear order_le_less)


section \<open>Properties\<close>

text \<open>A one-group table with two slots, 8 slot bits and 8 generation bits, as QEMU configures it.\<close>

definition demo_info :: red_mem_slot_info where
  "demo_info = \<lparr>mem_slots = [[zero_slot,
       \<lparr>generation = 3, virt_start_addr = 0x7000, virt_end_addr = 0x8000, address_delta = 0x6000\<rparr>]],
     num_memslots_groups = 1, num_memslots = 2, mem_slot_bits = 8, generation_bits = 8,
     memslot_id_shift = 56, memslot_gen_shift = 48, internal_groupslot_id = 0,
     memslot_gen_mask = 0xFF, memslot_clean_virt_mask = 0xFFFFFFFFFFFF\<rparr>"

lemma demo_info_wf: "memslots_wf demo_info"
  by (simp add: memslots_wf_def demo_info_def mask_eq_exp_minus_1)

text \<open>
  C5: guest addresses cannot leave their slot. When get_virt succeeds on a well-formed table, for any
  guest address, size and group number, the group and the slot exist, the generation in the address
  is the slot's generation, the returned host address is the offset plus the slot's delta, and all
  the bytes asked for lie inside the slot without wrapping around.
\<close>

theorem get_virt_contained:
  assumes "memslots_wf info" "get_virt fatal info addr n g = Inr (v, False)"
  shows "unat g < length (mem_slots info) \<and> addr_slot info addr < length (mem_slots info ! unat g) \<and>
    addr_gen info addr = unat (generation (target_slot info g addr)) \<and>
    v = of_nat (addr_off info addr) + address_delta (target_slot info g addr) \<and>
    unat (virt_start_addr (target_slot info g addr)) \<le> unat v \<and>
    unat v + unat n \<le> unat (virt_end_addr (target_slot info g addr))"
proof -
  have "g < num_memslots_groups info \<and> addr_slot info addr < unat (num_memslots info)"
    by (cases rule: get_virt_request_cases [where info = info and g = g and addr = addr])
      (use assms get_virt_past_end [OF assms(1), of g addr fatal n] in
        \<open>simp_all add: get_virt_group_out get_virt_slot_out\<close>)
  then have g: "g < num_memslots_groups info" and i: "addr_slot info addr < unat (num_memslots info)"
    by auto
  moreover have "unat g < length (mem_slots info)"
    using g assms(1) by (simp add: memslots_wf_def word_less_nat_alt)
  moreover from this i have "addr_slot info addr < length (mem_slots info ! unat g)"
    using assms(1) by (simp add: memslots_wf_def)
  ultimately show ?thesis
    using assms(2) get_virt_decides [OF assms(1) g i, of fatal n]
    by (auto simp: virt_ok_def target_virt_def split: if_splits)
qed

theorem get_virt_contained_witness:
  "get_virt True demo_info 0x103000000001010 0x20 0 = Inr (0x7010, False) \<and>
   unat (virt_start_addr (target_slot demo_info 0 0x103000000001010)) \<le> 0x7010"
proof -
  have e: "get_virt True demo_info 0x103000000001010 0x20 0 = Inr (0x7010, False)" by code_simp
  then show ?thesis using get_virt_contained [OF demo_info_wf e] by simp
qed

text \<open>
  C32: exactly which requests make get_virt read outside the slot table: the two guards use > where
  the arrays need >=, so the group number equal to the number of groups, and the slot number equal
  to the number of slots, pass the guards and index one past the end.
\<close>

theorem get_virt_out_of_bounds_iff:
  assumes "memslots_wf info"
  shows "get_virt fatal info addr n g = Inl OutOfBounds \<longleftrightarrow>
    (g = num_memslots_groups info \<and> addr_slot info addr \<le> unat (num_memslots info)) \<or>
    (g < num_memslots_groups info \<and> addr_slot info addr = unat (num_memslots info))"
proof -
  show ?thesis
  proof (cases rule: get_virt_request_cases [where info = info and g = g and addr = addr])
    case 1 then show ?thesis by (auto simp: get_virt_group_out spice_critical_def)
  next
    case 2 then show ?thesis by (auto simp: get_virt_slot_out [OF assms] spice_critical_def)
  next
    case 3 then show ?thesis using get_virt_past_end [OF assms 3] by auto
  next
    case 4 then show ?thesis by (auto simp: get_virt_decides [OF assms 4] spice_critical_def)
  qed
qed

theorem get_virt_out_of_bounds_iff_witness:
  "get_virt True demo_info 0x203000000001010 0x20 0 = Inl OutOfBounds"
  using get_virt_out_of_bounds_iff [OF demo_info_wf, of True "0x203000000001010" "0x20" 0]
  by (simp add: demo_info_def addr_slot_def unsigned_drop_bit_eq drop_bit_eq_div)

text \<open>
  Translation round trip: after red_memslot_info_add_slot registers a slot, the address built
  from its slot number, generation and any offset whose translation lies in the slot is translated
  to offset plus delta.
\<close>

theorem add_slot_get_virt:
  assumes wf: "memslots_wf info" and g: "g < num_memslots_groups info" and i: "i < num_memslots info"
    and ib: "unat i < 2 ^ unat (mem_slot_bits info)" and gb: "unat gen < 2 ^ unat (generation_bits info)"
    and off: "off < 2 ^ (64 - (unat (mem_slot_bits info) + unat (generation_bits info)))"
    and rng: "unat vs \<le> unat (of_nat off + d)" "unat (of_nat off + d) + unat n \<le> unat ve"
  shows "\<exists>info'. red_memslot_info_add_slot info g i d vs ve gen = Inr info' \<and> memslots_wf info' \<and>
    get_virt fatal info' (qxl_addr info (unat i) (unat gen) off) n g = Inr (of_nat off + d, False)"
proof -
  let ?f = "\<lambda>s. s\<lparr>address_delta := d, virt_start_addr := vs, virt_end_addr := ve, generation := gen\<rparr>"
  let ?a = "qxl_addr info (unat i) (unat gen) off"
  obtain info' where s: "set_slot info g i ?f = Inr info'" using set_slot_eq [OF wf g i] by blast
  have wf': "memslots_wf info'" by (rule memslots_set_slot_wf [OF wf g i s])
  note q = qxl_addr_fields [OF wf ib gb off]
  note t = target_slot_set [OF wf g i s q(1)]
  have g': "g < num_memslots_groups info'" and i': "addr_slot info' ?a < unat (num_memslots info')"
    using g i by (simp_all add: t q word_less_nat_alt)
  have "get_virt fatal info' ?a n g = Inr (of_nat off + d, False)"
    using rng by (simp add: get_virt_decides [OF wf' g' i'] t q target_virt_def virt_ok_def)
  with s wf' g i show ?thesis by (auto simp: red_memslot_info_add_slot_def)
qed

theorem add_slot_get_virt_witness:
  "\<exists>info'. red_memslot_info_add_slot demo_info 0 0 0x500 0x500 0x900 7 = Inr info' \<and> memslots_wf info' \<and>
    get_virt True info' (qxl_addr demo_info 0 7 0x100) 0x40 0 = Inr (0x600, False)"
  using add_slot_get_virt [OF demo_info_wf, of 0 0 7 "0x100" "0x500" "0x500" "0x40" "0x900" True]
  by (simp add: demo_info_def)

text \<open>
  After red_memslot_info_del_slot, and after red_memslot_info_reset, no request for at least one
  byte in the deleted slot succeeds: get_virt aborts, or reports an error when the abort level is raised.
\<close>

theorem deleted_slot_refused:
  assumes wf: "memslots_wf info" and g: "g < num_memslots_groups info" and i: "i < num_memslots info"
    and a: "addr_slot info addr = unat i" and n: "0 < n"
  shows "\<exists>info1 info2. red_memslot_info_del_slot info g i = Inr info1 \<and> red_memslot_info_reset info = Inr info2 \<and>
    get_virt fatal info1 addr n g = spice_critical fatal (Inr (0, True)) \<and>
    get_virt fatal info2 addr n g = spice_critical fatal (Inr (0, True))"
proof -
  have n': "0 < unat n" using n by (simp add: word_less_nat_alt)
  obtain info1 where s: "set_slot info g i (\<lambda>s. s\<lparr>virt_start_addr := 0, virt_end_addr := 0\<rparr>) = Inr info1"
    using set_slot_eq [OF wf g i] by blast
  have wf1: "memslots_wf info1" by (rule memslots_set_slot_wf [OF wf g i s])
  note t = target_slot_set [OF wf g i s a]
  have g1: "g < num_memslots_groups info1" and i1: "addr_slot info1 addr < unat (num_memslots info1)"
    using g i by (simp_all add: t a word_less_nat_alt)
  have d1: "get_virt fatal info1 addr n g = spice_critical fatal (Inr (0, True))"
    using n' by (simp add: get_virt_decides [OF wf1 g1 i1] t virt_ok_def)
  define info2 where "info2 = info\<lparr>mem_slots := replicate (unat (num_memslots_groups info))
    (replicate (unat (num_memslots info)) zero_slot)\<rparr>"
  have wf2: "memslots_wf info2" using wf by (auto simp: memslots_wf_def info2_def)
  have g2: "g < num_memslots_groups info2" and i2: "addr_slot info2 addr < unat (num_memslots info2)"
    and "target_slot info2 g addr = zero_slot"
    using g i a by (auto simp: info2_def addr_slot_def target_slot_def word_less_nat_alt)
  then have "get_virt fatal info2 addr n g = spice_critical fatal (Inr (0, True))"
    using n' by (simp add: get_virt_decides [OF wf2 g2 i2] virt_ok_def zero_slot_def)
  with d1 s g i show ?thesis
    by (auto simp: red_memslot_info_del_slot_def memslots_reset_eq [OF wf] info2_def)
qed

theorem deleted_slot_refused_witness:
  "\<exists>info1 info2. red_memslot_info_del_slot demo_info 0 1 = Inr info1 \<and> red_memslot_info_reset demo_info = Inr info2 \<and>
    get_virt True info1 0x103000000001010 0x20 0 = Inl Abort \<and>
    get_virt True info2 0x103000000001010 0x20 0 = Inl Abort"
  using deleted_slot_refused [OF demo_info_wf, of 0 1 "0x103000000001010" "0x20" True]
  by (simp add: demo_info_def addr_slot_def unsigned_drop_bit_eq drop_bit_eq_div)

text \<open>
  C33: red_memslot_info_init yields a well-formed table for every configuration the devices use, and
  every operation on slots that exist succeeds and keeps the table well formed.
\<close>

theorem memslots_wf_preserved:
  assumes "0 < ng" "ng < 0x80000000" "0 < ns" "ns < 0x80000000" "0 < ib" "ib \<le> 32" "gb \<le> 32"
    "unat ib + unat gb < 64"
    and wf: "memslots_wf info" and g: "g < num_memslots_groups info" and i: "i < num_memslots info"
  shows "(\<exists>info0. red_memslot_info_init ng ns gb ib iid = Inr info0 \<and> memslots_wf info0) \<and>
    (\<exists>info1. red_memslot_info_add_slot info g i d vs ve gen = Inr info1 \<and> memslots_wf info1) \<and>
    (\<exists>info2. red_memslot_info_del_slot info g i = Inr info2 \<and> memslots_wf info2) \<and>
    (\<exists>info3. red_memslot_info_reset info = Inr info3 \<and> memslots_wf info3)"
proof (intro conjI)
  have gb: "uint gb < 64" "uint ib + uint gb < 64"
    using assms(8) uint_less_of_unat [of gb 64] uint_add_less [of ib gb 64] by simp_all
  then obtain info0 where "red_memslot_info_init ng ns gb ib iid = Inr info0"
    using assms(1,3) by (auto simp: red_memslot_info_init_def shl_def shr_def)
  with memslots_init_wf [OF this] assms show "\<exists>info0. red_memslot_info_init ng ns gb ib iid = Inr info0 \<and> memslots_wf info0"
    by blast
  have *: "\<exists>info'. set_slot info g i f = Inr info' \<and> memslots_wf info'" for f
    using set_slot_eq [OF wf g i] memslots_set_slot_wf [OF wf g i] by blast
  show "\<exists>info1. red_memslot_info_add_slot info g i d vs ve gen = Inr info1 \<and> memslots_wf info1"
    "\<exists>info2. red_memslot_info_del_slot info g i = Inr info2 \<and> memslots_wf info2"
    using g i * by (auto simp: red_memslot_info_add_slot_def red_memslot_info_del_slot_def)
  show "\<exists>info3. red_memslot_info_reset info = Inr info3 \<and> memslots_wf info3"
    using wf by (auto simp: memslots_reset_eq memslots_wf_def)
qed

theorem memslots_wf_preserved_witness:
  "\<exists>info0. red_memslot_info_init 2 8 8 8 1 = Inr info0 \<and> memslots_wf info0"
  using memslots_wf_preserved [of 2 8 8 8 demo_info 0 1 1 0 0 0 0] demo_info_wf
  by (simp add: demo_info_def)

end
