(* ===== verification/Agent_Filter.thy ===== *)
theory Agent_Filter
  imports Prelude
begin

text \<open>
  The guest agent message filter (server/agent-msg-filter.c). Agent messages arrive as chunks of at
  most 2048 bytes; the first chunk of a message starts with a packed \<open>VDAgentMessage\<close> header
  (spice/vd_agent.h), and the filter decides per message whether its chunks are forwarded. Both
  directions of the agent channel (reds.c) run their chunks through it.
  The \<open>int\<close> fields used as flags are booleans; \<open>msg_data_to_read\<close> is kept as its 32 bits, which is
  how C compares it with and subtracts from it a \<open>uint32_t\<close>.
\<close>

section \<open>The filter\<close>

datatype filter_result = FILTER_OK | FILTER_DISCARD | FILTER_PROTO_ERROR | FILTER_MONITORS_CONFIG

record agent_msg_filter =
  msg_data_to_read :: u32
  result :: filter_result
  copy_paste_enabled :: bool
  file_xfer_enabled :: bool
  discard_all :: bool

record vd_agent_message =
  protocol :: u32
  msg_type :: u32
  opaque :: u64
  msg_size :: u32

definition VD_AGENT_MAX_DATA_SIZE :: u32 where
  "VD_AGENT_MAX_DATA_SIZE = 2048"

definition VD_AGENT_PROTOCOL :: u32 where
  "VD_AGENT_PROTOCOL = 1"

definition VD_AGENT_HEADER_SIZE :: nat where
  "VD_AGENT_HEADER_SIZE = 20"

definition VD_AGENT_MONITORS_CONFIG :: u32 where
  "VD_AGENT_MONITORS_CONFIG = 2"

definition clipboard_types :: "u32 list" where
  "clipboard_types = [4, 7, 8, 9]"

definition file_xfer_types :: "u32 list" where
  "file_xfer_types = [10, 11, 12]"

text \<open>\<open>memcpy(&msg_header, data, sizeof(msg_header))\<close>: the packed header, little endian.\<close>

definition read_header :: "u8 list \<Rightarrow> vd_agent_message res" where
  "read_header data =
     (if length data < VD_AGENT_HEADER_SIZE then Inl OutOfBounds
      else Inr \<lparr>protocol = le_bytes (take 4 data), msg_type = le_bytes (take 4 (drop 4 data)),
                opaque = le_bytes (take 8 (drop 8 data)), msg_size = le_bytes (take 4 (drop 16 data))\<rparr>)"

definition agent_msg_filter_init :: "bool \<Rightarrow> bool \<Rightarrow> bool \<Rightarrow> agent_msg_filter" where
  "agent_msg_filter_init copy_paste file_xfer discard =
     \<lparr>msg_data_to_read = 0, result = FILTER_OK, copy_paste_enabled = copy_paste,
      file_xfer_enabled = file_xfer, discard_all = discard\<rparr>"

text \<open>The code at the label \<open>data_to_read\<close>.\<close>

definition data_to_read :: "agent_msg_filter \<Rightarrow> u32 \<Rightarrow> filter_result \<times> agent_msg_filter" where
  "data_to_read flt len =
     (if len > msg_data_to_read flt then (FILTER_PROTO_ERROR, flt)
      else (result flt, flt\<lparr>msg_data_to_read := msg_data_to_read flt - len\<rparr>))"

text \<open>
  The \<open>switch\<close> on the message type. \<open>use_mc\<close> is the answer of
  \<open>red_dispatcher_use_client_monitors_config()\<close> at this moment.
\<close>

definition type_result :: "agent_msg_filter \<Rightarrow> bool \<Rightarrow> u32 \<Rightarrow> filter_result" where
  "type_result flt use_mc t =
     (if discard_all flt then FILTER_DISCARD
      else if t \<in> set clipboard_types
      then (if copy_paste_enabled flt then FILTER_OK else FILTER_DISCARD)
      else if t \<in> set file_xfer_types
      then (if file_xfer_enabled flt then FILTER_OK else FILTER_DISCARD)
      else if t = VD_AGENT_MONITORS_CONFIG
      then (if use_mc then FILTER_MONITORS_CONFIG else FILTER_OK)
      else FILTER_OK)"

definition agent_msg_filter_process_data :: "bool \<Rightarrow> agent_msg_filter \<Rightarrow> u8 list \<Rightarrow> u32 \<Rightarrow>
    (filter_result \<times> agent_msg_filter) res" where
  "agent_msg_filter_process_data use_mc flt data len =
     (if len > VD_AGENT_MAX_DATA_SIZE then Inr (FILTER_PROTO_ERROR, flt)
      else if msg_data_to_read flt \<noteq> 0 then Inr (data_to_read flt len)
      else if len < of_nat VD_AGENT_HEADER_SIZE then Inr (FILTER_PROTO_ERROR, flt)
      else rbind (read_header data) (\<lambda>h.
        if protocol h \<noteq> VD_AGENT_PROTOCOL then Inr (FILTER_PROTO_ERROR, flt)
        else
          let f1 = flt\<lparr>result := type_result flt use_mc (msg_type h), msg_data_to_read := msg_size h\<rparr> in
          if msg_data_to_read f1 \<noteq> 0 then Inr (data_to_read f1 (len - of_nat VD_AGENT_HEADER_SIZE))
          else Inr (result f1, f1)))"


section \<open>Streams of chunks\<close>

text \<open>
  A chunk comes with the answer of \<open>red_dispatcher_use_client_monitors_config()\<close> at its time. The
  verdicts of a sequence of chunks are recorded with the message each chunk belongs to, as its type
  and that answer at the time of its header: its own header's when the filter is between messages,
  the continued message's otherwise.
\<close>

type_synonym chunk = "bool \<times> u8 list"

definition owner :: "u32 \<times> bool \<Rightarrow> agent_msg_filter \<Rightarrow> chunk \<Rightarrow> u32 \<times> bool" where
  "owner cur flt c = (if msg_data_to_read flt = 0 then (le_bytes (take 4 (drop 4 (snd c))), fst c) else cur)"

fun filter_trace :: "u32 \<times> bool \<Rightarrow> agent_msg_filter \<Rightarrow> chunk list \<Rightarrow>
    (((u32 \<times> bool) \<times> filter_result) list \<times> agent_msg_filter) res" where
  "filter_trace cur f [] = Inr ([], f)"
| "filter_trace cur f (c # cs) =
     rbind (agent_msg_filter_process_data (fst c) f (snd c) (of_nat (length (snd c)))) (\<lambda>(r, f').
       rbind (filter_trace (owner cur f c) f' cs) (\<lambda>(rs, f'').
         Inr ((owner cur f c, r) # rs, f'')))"

definition verdict :: "agent_msg_filter \<Rightarrow> u32 \<times> bool \<Rightarrow> filter_result" where
  "verdict f m = type_result f (snd m) (fst m)"

definition same_policy :: "agent_msg_filter \<Rightarrow> agent_msg_filter \<Rightarrow> bool" where
  "same_policy f f' = (copy_paste_enabled f' = copy_paste_enabled f \<and>
     file_xfer_enabled f' = file_xfer_enabled f \<and> discard_all f' = discard_all f)"

lemma same_policy_verdict: "same_policy f f' \<Longrightarrow> verdict f' = verdict f"
  by (intro ext) (simp add: same_policy_def verdict_def type_result_def)

lemma same_policy_simps [simp]:
  "same_policy f f" "same_policy f (f\<lparr>result := r, msg_data_to_read := n\<rparr>)"
  "same_policy f (f\<lparr>msg_data_to_read := n\<rparr>)"
  by (simp_all add: same_policy_def)

lemma header_fits: "n < 2 ^ 32 \<Longrightarrow> \<not> of_nat n < (of_nat VD_AGENT_HEADER_SIZE :: u32) \<Longrightarrow> VD_AGENT_HEADER_SIZE \<le> n"
  by (simp add: VD_AGENT_HEADER_SIZE_def word_less_nat_alt unat_of_nat_small)

text \<open>One step keeps the policy and the link between the stored verdict and the current message.\<close>

definition filter_inv :: "u32 \<times> bool \<Rightarrow> agent_msg_filter \<Rightarrow> bool" where
  "filter_inv cur f = (msg_data_to_read f \<noteq> 0 \<longrightarrow> result f = verdict f cur)"

lemma filter_step:
  assumes "filter_inv cur f" "length (snd c) < 2 ^ 32"
  shows "\<exists>r f'. agent_msg_filter_process_data (fst c) f (snd c) (of_nat (length (snd c))) = Inr (r, f') \<and>
    same_policy f f' \<and> filter_inv (owner cur f c) f' \<and>
    (r = FILTER_PROTO_ERROR \<or> r = verdict f (owner cur f c))"
proof -
  have tr: "verdict (f\<lparr>result := r, msg_data_to_read := n\<rparr>) = verdict f"
    "verdict (f\<lparr>msg_data_to_read := n\<rparr>) = verdict f" for r n
    by (simp_all add: same_policy_verdict)
  show ?thesis
    using assms(1) header_fits [OF assms(2)]
    by (auto simp: agent_msg_filter_process_data_def data_to_read_def filter_inv_def owner_def
        read_header_def Let_def tr) (auto simp: verdict_def)
qed

lemma filter_trace_verdict:
  assumes "filter_inv cur f" "\<forall>c\<in>set cs. length (snd c) < 2 ^ 32"
  shows "\<exists>rs f'. filter_trace cur f cs = Inr (rs, f') \<and> length rs = length cs \<and>
    (\<forall>(m, r)\<in>set rs. r = FILTER_PROTO_ERROR \<or> r = verdict f m)"
  using assms
proof (induction cs arbitrary: cur f)
  case (Cons c cs)
  from filter_step [of cur f c] Cons.prems obtain r f' where s:
    "agent_msg_filter_process_data (fst c) f (snd c) (of_nat (length (snd c))) = Inr (r, f')"
    "same_policy f f'" "filter_inv (owner cur f c) f'"
    "r = FILTER_PROTO_ERROR \<or> r = verdict f (owner cur f c)"
    by auto
  from Cons.IH [OF s(3)] Cons.prems(2) obtain rs f'' where
    "filter_trace (owner cur f c) f' cs = Inr (rs, f'')" "length rs = length cs"
    "\<forall>(m, r)\<in>set rs. r = FILTER_PROTO_ERROR \<or> r = verdict f m"
    using same_policy_verdict [OF s(2)] by auto
  with s show ?case by auto
qed auto

text \<open>Chunks that continue a message of which exactly their total length is missing.\<close>

lemma filter_continue:
  assumes "result f = v" "unat (msg_data_to_read f) = (\<Sum>c\<leftarrow>cs. length (snd c))"
    and "\<forall>c\<in>set cs. 0 < length (snd c) \<and> length (snd c) \<le> 2048"
  shows "\<exists>f'. filter_trace cur f cs = Inr (map (\<lambda>_. (cur, v)) cs, f') \<and>
    msg_data_to_read f' = 0 \<and> same_policy f f'"
  using assms
proof (induction cs arbitrary: f)
  case Nil
  then show ?case by (simp add: unat_eq_zero)
next
  case (Cons c cs)
  let ?n = "length (snd c)"
  have u: "unat (of_nat ?n :: u32) = ?n"
    using Cons.prems(3) by (intro unat_of_nat_small) auto
  have n: "msg_data_to_read f \<noteq> 0" using Cons.prems by auto
  have le: "\<not> of_nat ?n > msg_data_to_read f" "\<not> of_nat ?n > VD_AGENT_MAX_DATA_SIZE"
    using Cons.prems u by (auto simp: word_less_nat_alt VD_AGENT_MAX_DATA_SIZE_def)
  let ?f = "f\<lparr>msg_data_to_read := msg_data_to_read f - of_nat ?n\<rparr>"
  have step: "agent_msg_filter_process_data (fst c) f (snd c) (of_nat ?n) = Inr (v, ?f)"
    using n le Cons.prems(1) by (simp add: agent_msg_filter_process_data_def data_to_read_def)
  have "unat (msg_data_to_read ?f) = (\<Sum>c\<leftarrow>cs. length (snd c))"
    using le(1) u Cons.prems(2) by (simp add: unat_sub not_less)
  from Cons.IH [of ?f, OF _ this] Cons.prems obtain f' where
    "filter_trace cur ?f cs = Inr (map (\<lambda>_. (cur, v)) cs, f')" "msg_data_to_read f' = 0"
    "same_policy ?f f'" by auto
  moreover have "same_policy f f'" using calculation(3) by (simp add: same_policy_def)
  ultimately show ?case using n step by (simp add: owner_def)
qed


section \<open>Properties\<close>


definition demo_chunk :: "u8 \<Rightarrow> u8 \<Rightarrow> u8 list" where
  "demo_chunk t n = [1, 0, 0, 0, t, 0, 0, 0, 0, 0, 0, 0, 0, 0, 0, 0, n, 0, 0, 0]"


text \<open>
  A well-formed message is treated as a unit however it is split: when an idle filter gets a first
  chunk with a valid header announcing a non-empty message and the chunks together carry exactly the
  announced bytes, every chunk gets the verdict of the message's type, the filter is idle again after
  the last one, and the policy flags are unchanged.
\<close>

theorem filter_whole_message:
  assumes "msg_data_to_read f = 0" "read_header (snd c) = Inr h" "protocol h = VD_AGENT_PROTOCOL"
    and "msg_size h \<noteq> 0" "unat (msg_size h) + 20 = length (snd c) + (\<Sum>c\<leftarrow>cs. length (snd c))"
    and "length (snd c) \<le> 2048" "\<forall>c\<in>set cs. 0 < length (snd c) \<and> length (snd c) \<le> 2048"
  shows "\<exists>f'. filter_trace cur f (c # cs) =
      Inr (map (\<lambda>_. ((msg_type h, fst c), type_result f (fst c) (msg_type h))) (c # cs), f') \<and>
    msg_data_to_read f' = 0 \<and> same_policy f f'"
proof -
  let ?n = "length (snd c)" and ?v = "type_result f (fst c) (msg_type h)"
  have n: "20 \<le> ?n" and t: "msg_type h = le_bytes (take 4 (drop 4 (snd c)))"
    using assms(2) by (auto simp: read_header_def VD_AGENT_HEADER_SIZE_def split: if_splits)
  have u: "unat (of_nat ?n :: u32) = ?n" using assms(6) by (intro unat_of_nat_small) auto
  have u20: "unat (of_nat ?n - 20 :: u32) = ?n - 20"
    using n u by (subst unat_sub) (auto simp: word_le_nat_alt)
  let ?f1 = "f\<lparr>result := ?v, msg_data_to_read := msg_size h\<rparr>"
  let ?f2 = "?f1\<lparr>msg_data_to_read := msg_size h - (of_nat ?n - 20)\<rparr>"
  have le: "\<not> of_nat ?n - 20 > msg_size h" "(of_nat ?n - 20 :: u32) \<le> msg_size h"
    using u20 assms(5) n by (auto simp: word_less_nat_alt word_le_nat_alt)
  have step: "agent_msg_filter_process_data (fst c) f (snd c) (of_nat ?n) = Inr (?v, ?f2)"
    using assms(1-4,6) n u le(1)
    by (simp add: agent_msg_filter_process_data_def data_to_read_def Let_def VD_AGENT_HEADER_SIZE_def
        VD_AGENT_MAX_DATA_SIZE_def word_less_nat_alt)
  have "unat (msg_data_to_read ?f2) = (\<Sum>c\<leftarrow>cs. length (snd c))"
    using le(2) u20 assms(5) n by (simp add: unat_sub)
  from filter_continue [of ?f2 ?v cs "(msg_type h, fst c)", OF _ this assms(7)] obtain f' where
    f': "filter_trace (msg_type h, fst c) ?f2 cs = Inr (map (\<lambda>_. ((msg_type h, fst c), ?v)) cs, f')"
    "msg_data_to_read f' = 0" "same_policy ?f2 f'" by auto
  have "same_policy f f'" using f'(3) by (simp add: same_policy_def)
  then show ?thesis using f' step assms(1) t by (simp add: owner_def)
qed

theorem filter_whole_message_witness:
  "\<exists>f'. filter_trace (0, False) (agent_msg_filter_init False True False)
      [(False, demo_chunk 7 3 @ [9]), (True, [1]), (True, [2])] =
      Inr (map (\<lambda>_. ((7, False), FILTER_DISCARD)) [(False, demo_chunk 7 3 @ [9]), (True, [1]), (True, [2])], f') \<and>
    msg_data_to_read f' = 0 \<and> same_policy (agent_msg_filter_init False True False) f'"
proof -
  let ?h = "\<lparr>protocol = 1, msg_type = 7, opaque = 0, msg_size = 3\<rparr>"
  have "read_header (demo_chunk 7 3 @ [9]) = Inr ?h" by code_simp
  moreover have "type_result (agent_msg_filter_init False True False) False 7 = FILTER_DISCARD" by code_simp
  ultimately show ?thesis
    using filter_whole_message [of "agent_msg_filter_init False True False" "(False, demo_chunk 7 3 @ [9])" ?h
        "[(True, [1]), (True, [2])]" "(0, False)"]
    by (simp add: agent_msg_filter_init_def VD_AGENT_PROTOCOL_def demo_chunk_def)
qed

text \<open>
  The exact condition under which the first chunk of a message is not a protocol error. The
  check of the data against the announced size is skipped when the header announces size 0, so such
  a header may be followed by any data that fits the chunk.
\<close>

theorem filter_first_chunk_accepted_iff:
  assumes "msg_data_to_read f = 0" "length data < 2 ^ 32"
  shows "(\<exists>r f'. agent_msg_filter_process_data mc f data (of_nat (length data)) = Inr (r, f') \<and> r \<noteq> FILTER_PROTO_ERROR)
    \<longleftrightarrow> 20 \<le> length data \<and> length data \<le> 2048 \<and> le_bytes (take 4 data) = VD_AGENT_PROTOCOL \<and>
      (le_bytes (take 4 (drop 16 data)) = (0 :: u32) \<or> length data - 20 \<le> unat (le_bytes (take 4 (drop 16 data)) :: u32))"
proof -
  let ?n = "length data"
  have u: "unat (of_nat ?n :: u32) = ?n" using assms(2) by (intro unat_of_nat_small) auto
  have c: "\<not> of_nat ?n > VD_AGENT_MAX_DATA_SIZE \<longleftrightarrow> ?n \<le> 2048" "of_nat ?n < (of_nat VD_AGENT_HEADER_SIZE :: u32) \<longleftrightarrow> ?n < 20"
    using u by (auto simp: word_less_nat_alt VD_AGENT_MAX_DATA_SIZE_def VD_AGENT_HEADER_SIZE_def)
  have u20: "20 \<le> ?n \<Longrightarrow> unat (of_nat ?n - 20 :: u32) = ?n - 20"
    using u by (subst unat_sub) (auto simp: word_le_nat_alt)
  have v: "type_result f mc t \<noteq> FILTER_PROTO_ERROR" for t by (simp add: type_result_def)
  show ?thesis
    using c assms(1) v u20
    by (auto simp: agent_msg_filter_process_data_def data_to_read_def read_header_def Let_def
        VD_AGENT_HEADER_SIZE_def word_less_nat_alt not_less not_le)
qed

theorem filter_first_chunk_accepted_iff_witness:
  "\<exists>r f'. agent_msg_filter_process_data True (agent_msg_filter_init True True False) (demo_chunk 4 0 @ [1, 2, 3])
     (of_nat (length (demo_chunk 4 0 @ [1, 2, 3]))) = Inr (r, f') \<and> r \<noteq> FILTER_PROTO_ERROR"
  using filter_first_chunk_accepted_iff [of "agent_msg_filter_init True True False" "demo_chunk 4 0 @ [1, 2, 3]" True]
  by (simp add: agent_msg_filter_init_def demo_chunk_def VD_AGENT_PROTOCOL_def)

end
