(* ===== verification/Timer_Queue.thy ===== *)
theory Timer_Queue
  imports Ring
begin

text \<open>
  Timer queues of the worker threads (server/spice_timer_queue.c). Every thread owns one queue; the
  queues are linked in a global ring under \<open>queue_list_lock\<close>; a queue keeps all its timers and, sorted
  by expiry time, the active ones. The rings are the lists they represent (theory Ring): adding puts
  an item first, \<open>ring_add_before\<close> inserts before a given item or at the end, removing an item that is
  not linked aborts. Queues and timers are heap objects under their addresses. The calling thread is
  an argument of each operation, and so is the reading of the monotonic clock where the code takes
  it; an operation of one thread runs without interference from the others, which only share the
  ring of queues.
\<close>

section \<open>State and operations\<close>

type_synonym addr = nat
type_synonym thread = nat

record spice_timer =
  func :: nat
  opaque :: nat
  queue :: addr
  is_active :: bool
  ms :: u32
  expiry_time :: u64

record spice_timer_queue =
  thread :: thread
  timers :: "addr list"
  active_timers :: "addr list"

record tq_state =
  locked :: bool
  timer_queue_list :: "addr list"
  queue_count :: int
  queues :: "addr \<rightharpoonup> spice_timer_queue"
  timer_mem :: "addr \<rightharpoonup> spice_timer"
  next_addr :: addr

record timespec =
  tv_sec :: u64
  tv_nsec :: u64

definition tq_start :: tq_state where
  "tq_start = \<lparr>locked = False, timer_queue_list = [], queue_count = 0, queues = Map.empty,
     timer_mem = Map.empty, next_addr = 1\<rparr>"

definition clock_ms :: "timespec \<Rightarrow> u64" where
  "clock_ms now = tv_sec now * 1000 + tv_nsec now div 1000 div 1000"

definition upd_queue :: "addr \<Rightarrow> (spice_timer_queue \<Rightarrow> spice_timer_queue) \<Rightarrow> tq_state \<Rightarrow> tq_state res" where
  "upd_queue a f s = rbind (deref (queues s a)) (\<lambda>q. Inr (s\<lparr>queues := (queues s)(a \<mapsto> f q)\<rparr>))"

definition upd_timer :: "addr \<Rightarrow> (spice_timer \<Rightarrow> spice_timer) \<Rightarrow> tq_state \<Rightarrow> tq_state res" where
  "upd_timer a f s = rbind (deref (timer_mem s a)) (\<lambda>t. Inr (s\<lparr>timer_mem := (timer_mem s)(a \<mapsto> f t)\<rparr>))"

definition list_remove :: "addr \<Rightarrow> addr list \<Rightarrow> addr list res" where
  "list_remove x xs = spice_assert (x \<in> set xs) (Inr (remove1 x xs))"

definition lock_queue_list :: "tq_state \<Rightarrow> tq_state res" where
  "lock_queue_list s = (if locked s then Inl Deadlock else Inr (s\<lparr>locked := True\<rparr>))"

definition unlock_queue_list :: "tq_state \<Rightarrow> tq_state" where
  "unlock_queue_list s = s\<lparr>locked := False\<rparr>"

fun find_in :: "thread \<Rightarrow> (addr \<rightharpoonup> spice_timer_queue) \<Rightarrow> addr list \<Rightarrow> addr option res" where
  "find_in self m [] = Inr None"
| "find_in self m (a # as) =
     rbind (deref (m a)) (\<lambda>q. if self = thread q then Inr (Some a) else find_in self m as)"

definition spice_timer_queue_find :: "thread \<Rightarrow> tq_state \<Rightarrow> addr option res" where
  "spice_timer_queue_find self s = find_in self (queues s) (timer_queue_list s)"

definition spice_timer_queue_find_with_lock :: "thread \<Rightarrow> tq_state \<Rightarrow> (addr option \<times> tq_state) res" where
  "spice_timer_queue_find_with_lock self s =
     rbind (lock_queue_list s) (\<lambda>s1.
       rbind (spice_timer_queue_find self s1) (\<lambda>q. Inr (q, unlock_queue_list s1)))"

text \<open>The early return of a second creation does not unlock.\<close>

definition spice_timer_queue_create :: "thread \<Rightarrow> tq_state \<Rightarrow> (bool \<times> tq_state) res" where
  "spice_timer_queue_create self s =
     rbind (lock_queue_list s) (\<lambda>s1.
       let s2 = (if queue_count s1 = 0 then s1\<lparr>timer_queue_list := []\<rparr> else s1) in
       rbind (spice_timer_queue_find self s2) (\<lambda>found.
         if found \<noteq> None then Inr (False, s2)
         else
           let a = next_addr s2;
               q = \<lparr>thread = self, timers = [], active_timers = []\<rparr> in
           Inr (True, unlock_queue_list
             (s2\<lparr>queues := (queues s2)(a \<mapsto> q), next_addr := a + 1,
                 timer_queue_list := a # timer_queue_list s2, queue_count := queue_count s2 + 1\<rparr>))))"

definition spice_timer_cancel :: "thread \<Rightarrow> addr \<Rightarrow> tq_state \<Rightarrow> tq_state res" where
  "spice_timer_cancel self a s =
     rbind (deref (timer_mem s a)) (\<lambda>t.
     rbind (deref (queues s (queue t))) (\<lambda>q.
       spice_assert (thread q = self)
         (if a \<notin> set (active_timers q) then spice_assert (\<not> is_active t) (Inr s)
          else spice_assert (is_active t)
            (rbind (list_remove a (active_timers q)) (\<lambda>act.
             rbind (upd_queue (queue t) (\<lambda>q. q\<lparr>active_timers := act\<rparr>) s) (\<lambda>s1.
               upd_timer a (\<lambda>t. t\<lparr>is_active := False\<rparr>) s1))))))"

definition spice_timer_remove :: "thread \<Rightarrow> addr \<Rightarrow> tq_state \<Rightarrow> tq_state res" where
  "spice_timer_remove self a s =
     rbind (deref (timer_mem s a)) (\<lambda>t.
     rbind (deref (queues s (queue t))) (\<lambda>q.
       spice_assert (a \<in> set (timers q))
         (spice_assert (thread q = self)
           (rbind (if is_active t
                   then spice_assert (a \<in> set (active_timers q)) (list_remove a (active_timers q))
                   else Inr (active_timers q)) (\<lambda>act.
            rbind (list_remove a (timers q)) (\<lambda>ts.
            rbind (upd_queue (queue t) (\<lambda>q. q\<lparr>active_timers := act, timers := ts\<rparr>) s) (\<lambda>s1.
              Inr (s1\<lparr>timer_mem := (timer_mem s1)(a := None)\<rparr>))))))))"

text \<open>The loop that empties a queue; each round removes the head of \<open>timers\<close>.\<close>

fun remove_all :: "nat \<Rightarrow> thread \<Rightarrow> addr \<Rightarrow> tq_state \<Rightarrow> tq_state res" where
  "remove_all fuel self qa s =
     rbind (deref (queues s qa)) (\<lambda>q. case timers q of
       [] \<Rightarrow> Inr s
     | a # _ \<Rightarrow> (case fuel of 0 \<Rightarrow> Inl NoFuel
         | Suc n \<Rightarrow> rbind (spice_timer_remove self a s) (remove_all n self qa)))"

definition spice_timer_queue_destroy :: "nat \<Rightarrow> thread \<Rightarrow> tq_state \<Rightarrow> tq_state res" where
  "spice_timer_queue_destroy fuel self s =
     rbind (lock_queue_list s) (\<lambda>s1.
     rbind (spice_timer_queue_find self s1) (\<lambda>found. case found of
       None \<Rightarrow> Inl Abort
     | Some qa \<Rightarrow>
       rbind (remove_all fuel self qa s1) (\<lambda>s2.
       rbind (list_remove qa (timer_queue_list s2)) (\<lambda>l.
         Inr (unlock_queue_list (s2\<lparr>timer_queue_list := l, queues := (queues s2)(qa := None),
           queue_count := queue_count s2 - 1\<rparr>))))))"

definition spice_timer_queue_add :: "thread \<Rightarrow> nat \<Rightarrow> nat \<Rightarrow> tq_state \<Rightarrow> (addr \<times> tq_state) res" where
  "spice_timer_queue_add self f opq s =
     rbind (spice_timer_queue_find_with_lock self s) (\<lambda>(found, s1). case found of
       None \<Rightarrow> Inl Abort
     | Some qa \<Rightarrow>
       let a = next_addr s1;
           t = \<lparr>func = f, opaque = opq, queue = qa, is_active = False, ms = 0, expiry_time = 0\<rparr>;
           s2 = s1\<lparr>timer_mem := (timer_mem s1)(a \<mapsto> t), next_addr := a + 1\<rparr> in
       rbind (upd_queue qa (\<lambda>q. q\<lparr>timers := a # timers q\<rparr>) s2) (\<lambda>s3. Inr (a, s3)))"

text \<open>
  The search of \<open>_spice_timer_set\<close> for the first active timer that does not expire earlier, and the
  insertion before it, or at the end when there is none.
\<close>

fun insert_active :: "(addr \<rightharpoonup> spice_timer) \<Rightarrow> addr \<Rightarrow> u64 \<Rightarrow> addr list \<Rightarrow> addr list res" where
  "insert_active m a e [] = Inr [a]"
| "insert_active m a e (b # bs) =
     rbind (deref (m b)) (\<lambda>t. if e \<le> expiry_time t then Inr (a # b # bs)
       else rbind (insert_active m a e bs) (\<lambda>r. Inr (b # r)))"

definition timer_set_at :: "thread \<Rightarrow> addr \<Rightarrow> u32 \<Rightarrow> u64 \<Rightarrow> tq_state \<Rightarrow> tq_state res" where
  "timer_set_at self a m now s =
     rbind (deref (timer_mem s a)) (\<lambda>t0.
     rbind (if is_active t0 then spice_timer_cancel self a s else Inr s) (\<lambda>s1.
     rbind (upd_timer a (\<lambda>t. t\<lparr>expiry_time := now + ucast m, ms := m\<rparr>) s1) (\<lambda>s2.
     rbind (deref (queues s2 (queue t0))) (\<lambda>q.
     rbind (insert_active (timer_mem s2) a (now + ucast m) (active_timers q)) (\<lambda>act.
     rbind (spice_assert (a \<notin> set (active_timers q)) (upd_queue (queue t0) (\<lambda>q. q\<lparr>active_timers := act\<rparr>) s2)) (\<lambda>s3.
       upd_timer a (\<lambda>t. t\<lparr>is_active := True\<rparr>) s3))))))"

definition spice_timer_set :: "thread \<Rightarrow> timespec \<Rightarrow> addr \<Rightarrow> u32 \<Rightarrow> tq_state \<Rightarrow> tq_state res" where
  "spice_timer_set self now a m s =
     rbind (deref (timer_mem s a)) (\<lambda>t.
     rbind (deref (queues s (queue t))) (\<lambda>q.
       spice_assert (thread q = self) (timer_set_at self a m (clock_ms now) s)))"

definition spice_timer_queue_get_timeout_ms :: "thread \<Rightarrow> timespec \<Rightarrow> tq_state \<Rightarrow> (u32 \<times> tq_state) res" where
  "spice_timer_queue_get_timeout_ms self now s =
     rbind (spice_timer_queue_find_with_lock self s) (\<lambda>(found, s1). case found of
       None \<Rightarrow> Inl Abort
     | Some qa \<Rightarrow> rbind (deref (queues s1 qa)) (\<lambda>q. case active_timers q of
         [] \<Rightarrow> Inr (- 1, s1)
       | a # _ \<Rightarrow> rbind (deref (timer_mem s1 a)) (\<lambda>t.
           let d = expiry_time t - clock_ms now in
           Inr (if sint d < 0 then 0 else ucast d, s1))))"

text \<open>
  \<open>spice_timer_queue_cb\<close>: the timers due at one reading of the clock are cancelled and their functions
  called. The function of a timer is a parameter \<open>call\<close> that may use the timer operations, so the loop
  need not end; the result lists the timers that fired.
\<close>

type_synonym callback = "nat \<Rightarrow> nat \<Rightarrow> tq_state \<Rightarrow> tq_state res"

fun cb_loop :: "callback \<Rightarrow> nat \<Rightarrow> thread \<Rightarrow> addr \<Rightarrow> u64 \<Rightarrow> tq_state \<Rightarrow> (addr list \<times> tq_state) res" where
  "cb_loop call fuel self qa now s =
     rbind (deref (queues s qa)) (\<lambda>q. case active_timers q of
       [] \<Rightarrow> Inr ([], s)
     | a # _ \<Rightarrow> rbind (deref (timer_mem s a)) (\<lambda>t.
         if expiry_time t > now then Inr ([], s)
         else (case fuel of 0 \<Rightarrow> Inl NoFuel
           | Suc n \<Rightarrow>
             rbind (spice_timer_cancel self a s) (\<lambda>s1.
             rbind (call (func t) (opaque t) s1) (\<lambda>s2.
             rbind (cb_loop call n self qa now s2) (\<lambda>(as, s3). Inr (a # as, s3)))))))"

definition spice_timer_queue_cb :: "callback \<Rightarrow> nat \<Rightarrow> thread \<Rightarrow> timespec \<Rightarrow> tq_state \<Rightarrow> (addr list \<times> tq_state) res" where
  "spice_timer_queue_cb call fuel self now s =
     rbind (spice_timer_queue_find_with_lock self s) (\<lambda>(found, s1). case found of
       None \<Rightarrow> Inl Abort
     | Some qa \<Rightarrow> rbind (deref (queues s1 qa)) (\<lambda>q.
         if active_timers q = [] then Inr ([], s1)
         else cb_loop call fuel self qa (clock_ms now) s1))"


section \<open>The invariant\<close>

text \<open>
  \<open>queue_ok\<close>: the timers of a queue are allocated and point back to it, the active ones are exactly
  those flagged active, and they are sorted by expiry time. \<open>tq_inv\<close>: every linked queue is allocated
  and in order, no thread has two, the counter counts them, and nothing is allocated beyond
  \<open>next_addr\<close>.
\<close>

definition expiry :: "tq_state \<Rightarrow> addr \<Rightarrow> u64" where
  "expiry s a = (case timer_mem s a of None \<Rightarrow> 0 | Some t \<Rightarrow> expiry_time t)"

definition timer_ok :: "tq_state \<Rightarrow> addr \<Rightarrow> addr list \<Rightarrow> addr \<Rightarrow> bool" where
  "timer_ok s qa act a = (case timer_mem s a of None \<Rightarrow> False
     | Some t \<Rightarrow> queue t = qa \<and> (is_active t \<longleftrightarrow> a \<in> set act))"

definition queue_ok :: "tq_state \<Rightarrow> addr \<Rightarrow> spice_timer_queue \<Rightarrow> bool" where
  "queue_ok s qa q = (distinct (timers q) \<and> distinct (active_timers q) \<and>
     set (active_timers q) \<subseteq> set (timers q) \<and>
     (\<forall>a\<in>set (timers q). timer_ok s qa (active_timers q) a) \<and>
     sorted (map (expiry s) (active_timers q)))"

definition owned :: "tq_state \<Rightarrow> bool" where
  "owned s = (\<forall>a t. timer_mem s a = Some t \<longrightarrow>
     (\<exists>q. queues s (queue t) = Some q \<and> a \<in> set (timers q)))"

definition tq_inv :: "tq_state \<Rightarrow> bool" where
  "tq_inv s = (distinct (timer_queue_list s) \<and> dom (queues s) = set (timer_queue_list s) \<and>
     queue_count s = int (length (timer_queue_list s)) \<and>
     (\<forall>a q. queues s a = Some q \<longrightarrow> queue_ok s a q) \<and>
     (\<forall>a b q r. queues s a = Some q \<longrightarrow> queues s b = Some r \<longrightarrow> thread q = thread r \<longrightarrow> a = b) \<and>
     owned s \<and>
     (\<forall>a\<in>dom (queues s) \<union> dom (timer_mem s). a < next_addr s))"

lemma tq_inv_simps:
  assumes "tq_inv s"
  shows "distinct (timer_queue_list s)" "dom (queues s) = set (timer_queue_list s)"
    "queue_count s = int (length (timer_queue_list s))"
    "queues s a = Some q \<Longrightarrow> queue_ok s a q"
    "queues s a = Some q \<Longrightarrow> queues s b = Some r \<Longrightarrow> thread q = thread r \<Longrightarrow> a = b"
    "timer_mem s c = Some t \<Longrightarrow> \<exists>q. queues s (queue t) = Some q \<and> c \<in> set (timers q)"
    "queues s a = Some q \<Longrightarrow> a < next_addr s" "timer_mem s c = Some t \<Longrightarrow> c < next_addr s"
  using assms by (auto simp: tq_inv_def owned_def)

lemma tq_start_inv: "tq_inv tq_start"
  by (simp add: tq_inv_def tq_start_def owned_def)

lemma find_in_spec:
  "set as \<subseteq> dom m \<Longrightarrow> find_in self m as = Inr (find (\<lambda>a. thread (the (m a)) = self) as)"
  by (induction as) auto

lemma find_queue:
  assumes "tq_inv s"
  shows "spice_timer_queue_find self s = Inr (find (\<lambda>a. thread (the (queues s a)) = self) (timer_queue_list s))"
  using tq_inv_simps(2) [OF assms] by (simp add: spice_timer_queue_find_def find_in_spec)

lemma find_queue_some:
  assumes "tq_inv s" "queues s a = Some q" "thread q = self"
  shows "spice_timer_queue_find self s = Inr (Some a)"
proof -
  have a: "a \<in> set (timer_queue_list s)" using assms tq_inv_simps(2) [OF assms(1)] by auto
  have *: "b = a" if b: "b \<in> set (timer_queue_list s)" "thread (the (queues s b)) = self" for b
  proof -
    obtain r where "queues s b = Some r" using b(1) tq_inv_simps(2) [OF assms(1)] by auto
    then show ?thesis using tq_inv_simps(5) [OF assms(1), of b r a q] b(2) assms by simp
  qed
  have "find (\<lambda>a. thread (the (queues s a)) = self) (timer_queue_list s) = Some a"
  proof (cases "find (\<lambda>a. thread (the (queues s a)) = self) (timer_queue_list s)")
    case None
    then show ?thesis using a assms by (auto simp: find_None_iff)
  next
    case (Some b)
    then have "b = a" by (intro *) (auto simp: find_Some_iff)
    with Some show ?thesis by simp
  qed
  then show ?thesis by (simp add: find_queue [OF assms(1)])
qed

lemma find_queue_none:
  assumes "tq_inv s" "\<forall>a q. queues s a = Some q \<longrightarrow> thread q \<noteq> self"
  shows "spice_timer_queue_find self s = Inr None"
proof -
  have "thread (the (queues s a)) \<noteq> self" if "a \<in> set (timer_queue_list s)" for a
    using that assms tq_inv_simps(2) [OF assms(1)] by (metis domD option.sel)
  then show ?thesis by (simp add: find_queue [OF assms(1)] find_None_iff)
qed

text \<open>Replacing one queue and the timers it owns keeps the other queues in order.\<close>

lemma queue_ok_cong:
  assumes "queue_ok s a q" "\<And>b. b \<in> set (timers q) \<Longrightarrow> timer_mem s' b = timer_mem s b"
  shows "queue_ok s' a q"
proof -
  have "timer_ok s' a (active_timers q) b" if "b \<in> set (timers q)" for b
    using assms that by (simp add: queue_ok_def timer_ok_def)
  moreover have "map (expiry s') (active_timers q) = map (expiry s) (active_timers q)"
    using assms by (auto simp: queue_ok_def expiry_def)
  then have "sorted (map (expiry s') (active_timers q))" using assms(1) by (metis queue_ok_def)
  ultimately show ?thesis using assms(1) by (simp add: queue_ok_def)
qed

lemma timers_apart:
  assumes "tq_inv s" "queues s a = Some q" "queues s b = Some r" "c \<in> set (timers q)" "c \<in> set (timers r)"
  shows "a = b"
  using tq_inv_simps(4) [OF assms(1,2)] tq_inv_simps(4) [OF assms(1,3)] assms(4,5)
  by (force simp: queue_ok_def timer_ok_def split: option.splits)

lemma tq_inv_update:
  assumes inv: "tq_inv s" and q: "queues s qa = Some q"
    and q': "thread q' = thread q" "queue_ok s' qa q'"
    and s': "queues s' = (queues s)(qa \<mapsto> q')" "timer_queue_list s' = timer_queue_list s"
      "queue_count s' = queue_count s" "next_addr s \<le> next_addr s'"
    and mem: "\<And>c. c \<notin> set (timers q) \<union> set (timers q') \<Longrightarrow> timer_mem s' c = timer_mem s c"
    and new: "\<And>c. c \<in> set (timers q') - set (timers q) \<Longrightarrow> timer_mem s c = None"
    and gone: "\<And>c. c \<in> set (timers q) - set (timers q') \<Longrightarrow> timer_mem s' c = None"
    and fresh: "\<And>c. c \<in> set (timers q') \<Longrightarrow> c < next_addr s'"
  shows "tq_inv s'"
proof -
  have apart: "timer_mem s' c = timer_mem s c" if "queues s a = Some r" "a \<noteq> qa" "c \<in> set (timers r)" for a r c
  proof -
    have "timer_mem s c \<noteq> None"
      using tq_inv_simps(4) [OF inv that(1)] that(3) by (auto simp: queue_ok_def timer_ok_def split: option.splits)
    then have "c \<notin> set (timers q) \<union> set (timers q')"
      using timers_apart [OF inv q that(1) _ that(3)] that(2) new [of c] by (metis Diff_iff Un_iff)
    then show ?thesis by (rule mem)
  qed
  have ok: "queue_ok s' a r" if "queues s' a = Some r" for a r
  proof (cases "a = qa")
    case True
    then show ?thesis using that q'(2) by (simp add: s')
  next
    case False
    then have r: "queues s a = Some r" using that by (simp add: s')
    show ?thesis by (rule queue_ok_cong [OF tq_inv_simps(4) [OF inv r]]) (rule apart [OF r False])
  qed
  have own: "\<exists>r. queues s' (queue t) = Some r \<and> c \<in> set (timers r)" if t: "timer_mem s' c = Some t" for c t
  proof (cases "c \<in> set (timers q')")
    case True
    then have "queue t = qa" using q'(2) t by (auto simp: queue_ok_def timer_ok_def)
    then show ?thesis using True by (simp add: s')
  next
    case False
    then have c: "c \<notin> set (timers q)" using gone t by force
    then have "timer_mem s c = Some t" using mem False t by simp
    from tq_inv_simps(6) [OF inv this] obtain r where "queues s (queue t) = Some r" "c \<in> set (timers r)" by blast
    moreover from this have "queue t \<noteq> qa" using q c by auto
    ultimately show ?thesis by (simp add: s')
  qed
  have lt: "c < next_addr s'" if t: "timer_mem s' c = Some t" for c t
  proof (cases "c \<in> set (timers q')")
    case True
    then show ?thesis by (rule fresh)
  next
    case False
    then have "c \<notin> set (timers q)" using gone t by force
    then have "timer_mem s c = Some t" using mem False t by simp
    then show ?thesis using tq_inv_simps(8) [OF inv] s'(4) by (meson order_less_le_trans)
  qed
  have dom: "dom (queues s') = set (timer_queue_list s)" using tq_inv_simps(2) [OF inv] q by (auto simp: s')
  have uniq: "a = b" if "queues s' a = Some r" "queues s' b = Some r'" "thread r = thread r'" for a b r r'
    using tq_inv_simps(5) [OF inv] q q'(1) that by (auto simp: s' split: if_splits)
  have "a < next_addr s'" if "a \<in> dom (queues s')" for a
  proof -
    have "a \<in> dom (queues s)" using that q by (auto simp: s' split: if_splits)
    then show ?thesis using tq_inv_simps(7) [OF inv] s'(4) by fastforce
  qed
  then have all: "\<forall>a\<in>dom (queues s') \<union> dom (timer_mem s'). a < next_addr s'" using lt by blast
  show ?thesis
    unfolding tq_inv_def owned_def s'(2,3) using tq_inv_simps(1,3) [OF inv] dom ok uniq own all by blast
qed


section \<open>What the operations do\<close>

definition timer_of :: "tq_state \<Rightarrow> thread \<Rightarrow> addr \<Rightarrow> spice_timer \<Rightarrow> spice_timer_queue \<Rightarrow> bool" where
  "timer_of s self a t q = (timer_mem s a = Some t \<and> queues s (queue t) = Some q \<and> thread q = self)"

lemma timer_of_facts:
  assumes "tq_inv s" "timer_of s self a t q"
  shows "timer_mem s a = Some t" "queues s (queue t) = Some q" "thread q = self"
    "queue_ok s (queue t) q" "a \<in> set (timers q)" "is_active t \<longleftrightarrow> a \<in> set (active_timers q)"
    "distinct (active_timers q)" "distinct (timers q)" "set (active_timers q) \<subseteq> set (timers q)"
proof -
  show m: "timer_mem s a = Some t" "queues s (queue t) = Some q" "thread q = self"
    using assms(2) by (auto simp: timer_of_def)
  show ok: "queue_ok s (queue t) q" by (rule tq_inv_simps(4) [OF assms(1) m(2)])
  show a: "a \<in> set (timers q)" using tq_inv_simps(6) [OF assms(1) m(1)] m(2) by simp
  show "is_active t \<longleftrightarrow> a \<in> set (active_timers q)" "distinct (active_timers q)" "distinct (timers q)"
    "set (active_timers q) \<subseteq> set (timers q)"
    using ok a m(1) by (auto simp: queue_ok_def timer_ok_def)
qed

lemma timers_below: "tq_inv s \<Longrightarrow> queues s qa = Some q \<Longrightarrow> b \<in> set (timers q) \<Longrightarrow> b < next_addr s"
  using tq_inv_simps(4,8) [of s] by (force simp: queue_ok_def timer_ok_def split: option.splits)

lemma expiry_upd: "expiry (s\<lparr>timer_mem := (timer_mem s)(a \<mapsto> t)\<rparr>) = (expiry s)(a := expiry_time t)"
  by (auto simp: expiry_def)

lemma sorted_remove1_map: "sorted (map f xs) \<Longrightarrow> sorted (map f (remove1 a xs))"
  by (induction xs) (auto dest: set_remove1_subset [THEN subsetD])

definition cancelled :: "tq_state \<Rightarrow> addr \<Rightarrow> spice_timer \<Rightarrow> spice_timer_queue \<Rightarrow> tq_state" where
  "cancelled s a t q = s\<lparr>queues := (queues s)(queue t \<mapsto> q\<lparr>active_timers := remove1 a (active_timers q)\<rparr>),
     timer_mem := (timer_mem s)(a \<mapsto> t\<lparr>is_active := False\<rparr>)\<rparr>"

lemma cancelled_inactive:
  assumes "tq_inv s" "timer_of s self a t q" "\<not> is_active t"
  shows "cancelled s a t q = s"
proof -
  note f = timer_of_facts [OF assms(1,2)]
  have "t\<lparr>is_active := False\<rparr> = t" "q\<lparr>active_timers := remove1 a (active_timers q)\<rparr> = q"
    using f(6) assms(3) by (simp_all add: remove1_idem)
  with f show ?thesis by (simp add: cancelled_def map_upd_triv)
qed

lemma timer_cancel_eq:
  assumes "tq_inv s" "timer_of s self a t q"
  shows "spice_timer_cancel self a s = Inr (cancelled s a t q)"
proof -
  note f = timer_of_facts [OF assms]
  show ?thesis
  proof (cases "is_active t")
    case True
    then show ?thesis
      using f by (simp add: spice_timer_cancel_def list_remove_def upd_queue_def upd_timer_def cancelled_def)
  next
    case False
    with cancelled_inactive [OF assms] f show ?thesis by (simp add: spice_timer_cancel_def)
  qed
qed

lemma queue_ok_cancelled:
  assumes "tq_inv s" "timer_of s self a t q"
  shows "queue_ok (cancelled s a t q) (queue t) (q\<lparr>active_timers := remove1 a (active_timers q)\<rparr>)"
proof -
  note f = timer_of_facts [OF assms]
  have e: "expiry (cancelled s a t q) = expiry s" using f(1) by (auto simp: expiry_def cancelled_def)
  have "timer_ok (cancelled s a t q) (queue t) (remove1 a (active_timers q)) b" if "b \<in> set (timers q)" for b
  proof -
    have "timer_ok s (queue t) (active_timers q) b" using f(4) that by (simp add: queue_ok_def)
    then show ?thesis by (cases "b = a") (simp_all add: timer_ok_def cancelled_def f(1,7) split: option.splits)
  qed
  moreover have "sorted (map (expiry s) (remove1 a (active_timers q)))"
    using f(4) by (intro sorted_remove1_map) (simp add: queue_ok_def)
  ultimately show ?thesis using f(7-9) by (auto simp: queue_ok_def e)
qed

lemma tq_inv_cancelled:
  assumes "tq_inv s" "timer_of s self a t q"
  shows "tq_inv (cancelled s a t q)"
proof -
  note f = timer_of_facts [OF assms]
  show ?thesis
    by (rule tq_inv_update [OF assms(1) f(2) _ queue_ok_cancelled [OF assms]])
      (use f(5) in \<open>auto simp: cancelled_def intro: timers_below [OF assms(1) f(2)]\<close>)
qed

definition removed :: "tq_state \<Rightarrow> addr \<Rightarrow> spice_timer \<Rightarrow> spice_timer_queue \<Rightarrow> tq_state" where
  "removed s a t q = s\<lparr>queues := (queues s)(queue t \<mapsto> q\<lparr>active_timers := remove1 a (active_timers q),
       timers := remove1 a (timers q)\<rparr>), timer_mem := (timer_mem s)(a := None)\<rparr>"

lemma timer_remove_eq:
  assumes "tq_inv s" "timer_of s self a t q"
  shows "spice_timer_remove self a s = Inr (removed s a t q)"
  using timer_of_facts [OF assms]
  by (auto simp: spice_timer_remove_def list_remove_def upd_queue_def removed_def remove1_idem)

lemma tq_inv_removed:
  assumes "tq_inv s" "timer_of s self a t q"
  shows "tq_inv (removed s a t q)"
proof -
  note f = timer_of_facts [OF assms]
  let ?q = "q\<lparr>active_timers := remove1 a (active_timers q), timers := remove1 a (timers q)\<rparr>"
  have e: "map (expiry (removed s a t q)) (remove1 a (active_timers q)) = map (expiry s) (remove1 a (active_timers q))"
    using f(7) by (auto simp: expiry_def removed_def)
  have "timer_ok (removed s a t q) (queue t) (remove1 a (active_timers q)) b" if "b \<in> set (remove1 a (timers q))" for b
  proof -
    have "timer_ok s (queue t) (active_timers q) b" "b \<noteq> a" using f(4,8) that by (simp_all add: queue_ok_def)
    then show ?thesis by (simp add: timer_ok_def removed_def split: option.splits)
  qed
  moreover have "sorted (map (expiry (removed s a t q)) (remove1 a (active_timers q)))"
    unfolding e using f(4) by (intro sorted_remove1_map) (simp add: queue_ok_def)
  ultimately have ok: "queue_ok (removed s a t q) (queue t) ?q" using f(7-9) by (auto simp: queue_ok_def)
  show ?thesis
    by (rule tq_inv_update [OF assms(1) f(2) _ ok])
      (use f(5,8) in \<open>auto simp: removed_def simp del: fun_upd_apply intro: timers_below [OF assms(1) f(2)]\<close>,
        use f(5,8) in \<open>auto\<close>)
qed

definition insert_sorted :: "(addr \<Rightarrow> u64) \<Rightarrow> addr \<Rightarrow> u64 \<Rightarrow> addr list \<Rightarrow> addr list" where
  "insert_sorted ex a e bs = takeWhile (\<lambda>b. ex b < e) bs @ a # dropWhile (\<lambda>b. ex b < e) bs"

lemma insert_active_eq:
  "\<forall>b\<in>set bs. \<exists>t. m b = Some t \<and> expiry_time t = ex b \<Longrightarrow>
   insert_active m a e bs = Inr (insert_sorted ex a e bs)"
  by (induction bs) (auto simp: insert_sorted_def not_less leD)

lemma set_insert_sorted [simp]: "set (insert_sorted ex a e bs) = insert a (set bs)"
  by (metis (no_types, lifting) insert_sorted_def insert_is_Un list.simps(15) set_append sup_left_commute
      takeWhile_dropWhile_id)

lemma distinct_insert_sorted:
  assumes "distinct bs" "a \<notin> set bs"
  shows "distinct (insert_sorted ex a e bs)"
proof -
  have "distinct (takeWhile (\<lambda>b. ex b < e) bs @ dropWhile (\<lambda>b. ex b < e) bs)" using assms(1) by simp
  then show ?thesis
    unfolding insert_sorted_def distinct_append using assms(2)
    by (auto dest: set_takeWhileD set_dropWhileD)
qed

lemma sorted_insert_sorted:
  assumes "sorted (map ex bs)" "ex a = e"
  shows "sorted (map ex (insert_sorted ex a e bs))"
proof -
  let ?P = "\<lambda>b. ex b < e"
  have "sorted (map ex (takeWhile ?P bs @ dropWhile ?P bs))" using assms(1) by simp
  then have s: "sorted (map ex (takeWhile ?P bs))" "sorted (map ex (dropWhile ?P bs))"
    unfolding map_append sorted_append by simp_all
  have d: "e \<le> ex b" if "b \<in> set (dropWhile ?P bs)" for b
    using assms(1) that by (induction bs) (auto split: if_splits simp: not_less)
  have "ex b < e" if "b \<in> set (takeWhile ?P bs)" for b using that by (auto dest: set_takeWhileD)
  with s d show ?thesis
    using assms(2) by (fastforce simp: insert_sorted_def sorted_append)
qed

definition armed :: "tq_state \<Rightarrow> addr \<Rightarrow> spice_timer \<Rightarrow> spice_timer_queue \<Rightarrow> u32 \<Rightarrow> u64 \<Rightarrow> tq_state" where
  "armed s a t q m e = s\<lparr>queues := (queues s)(queue t \<mapsto>
       q\<lparr>active_timers := insert_sorted (expiry s) a e (remove1 a (active_timers q))\<rparr>),
     timer_mem := (timer_mem s)(a \<mapsto> t\<lparr>expiry_time := e, ms := m, is_active := True\<rparr>)\<rparr>"

lemma timer_set_eq:
  assumes "tq_inv s" "timer_of s self a t q"
  shows "timer_set_at self a m now s = Inr (armed s a t q m (now + ucast m))"
proof -
  note f = timer_of_facts [OF assms]
  have c: "(if is_active t then spice_timer_cancel self a s else Inr s) = Inr (cancelled s a t q)"
    using timer_cancel_eq [OF assms] cancelled_inactive [OF assms] by simp
  let ?m = "(timer_mem s)(a \<mapsto> t\<lparr>is_active := False, expiry_time := now + ucast m, ms := m\<rparr>)"
  let ?l = "remove1 a (active_timers q)"
  have "\<forall>b\<in>set ?l. \<exists>t. ?m b = Some t \<and> expiry_time t = expiry s b"
    using f(4,7,9) by (force simp: queue_ok_def timer_ok_def expiry_def split: option.splits)
  then have "insert_active ?m a (now + ucast m) ?l = Inr (insert_sorted (expiry s) a (now + ucast m) ?l)"
    by (rule insert_active_eq)
  then show ?thesis
    using f(1,2,7) by (simp add: timer_set_at_def c cancelled_def upd_timer_def upd_queue_def armed_def)
qed

lemma tq_inv_armed:
  assumes "tq_inv s" "timer_of s self a t q"
  shows "tq_inv (armed s a t q m e)"
proof -
  note f = timer_of_facts [OF assms]
  let ?l = "remove1 a (active_timers q)"
  let ?q = "q\<lparr>active_timers := insert_sorted (expiry s) a e ?l\<rparr>"
  have ex: "expiry (armed s a t q m e) = (expiry s)(a := e)" by (auto simp: expiry_def armed_def)
  have na: "a \<notin> set ?l" using f(7) by simp
  have same: "insert_sorted (expiry s) a e ?l = insert_sorted ((expiry s)(a := e)) a e ?l"
    using na unfolding insert_sorted_def
    by (intro arg_cong2 [of _ _ _ _ append] arg_cong2 [of _ _ _ _ Cons] takeWhile_cong dropWhile_cong) auto
  have "sorted (map (expiry s) ?l)" using f(4) by (intro sorted_remove1_map) (simp add: queue_ok_def)
  moreover have "map ((expiry s)(a := e)) ?l = map (expiry s) ?l" using na by auto
  ultimately have "sorted (map ((expiry s)(a := e)) ?l)" by metis
  then have so: "sorted (map ((expiry s)(a := e)) (insert_sorted (expiry s) a e ?l))"
    unfolding same by (rule sorted_insert_sorted) simp
  have tm: "timer_ok (armed s a t q m e) (queue t) (insert_sorted (expiry s) a e ?l) b" if "b \<in> set (timers q)" for b
  proof -
    have "timer_ok s (queue t) (active_timers q) b" using f(4) that by (simp add: queue_ok_def)
    then show ?thesis by (cases "b = a") (simp_all add: timer_ok_def armed_def split: option.splits)
  qed
  have ok: "queue_ok (armed s a t q m e) (queue t) ?q"
    using so tm f(5,7-9) na by (auto simp: queue_ok_def ex distinct_insert_sorted)
  show ?thesis
    by (rule tq_inv_update [OF assms(1) f(2) _ ok])
      (use f(5) in \<open>auto simp: armed_def intro: timers_below [OF assms(1) f(2)]\<close>)
qed

lemma tq_inv_locked: "tq_inv (s\<lparr>locked := b\<rparr>) = tq_inv s"
proof -
  have "queue_ok (s\<lparr>locked := b\<rparr>) = queue_ok s"
    by (intro ext) (simp add: queue_ok_def timer_ok_def expiry_def [abs_def])
  then show ?thesis by (simp add: tq_inv_def owned_def)
qed

lemma find_with_lock_eq:
  assumes "\<not> locked s"
  shows "spice_timer_queue_find_with_lock self s =
    rbind (spice_timer_queue_find self s) (\<lambda>q. Inr (q, s))"
proof -
  have "unlock_queue_list (s\<lparr>locked := True\<rparr>) = s" using assms by (simp add: unlock_queue_list_def)
  then show ?thesis
    using assms by (simp add: spice_timer_queue_find_with_lock_def lock_queue_list_def
        spice_timer_queue_find_def)
qed

definition added :: "tq_state \<Rightarrow> addr \<Rightarrow> spice_timer_queue \<Rightarrow> nat \<Rightarrow> nat \<Rightarrow> tq_state" where
  "added s qa q f opq = s\<lparr>timer_mem := (timer_mem s)(next_addr s \<mapsto>
       \<lparr>func = f, opaque = opq, queue = qa, is_active = False, ms = 0, expiry_time = 0\<rparr>),
     next_addr := next_addr s + 1, queues := (queues s)(qa \<mapsto> q\<lparr>timers := next_addr s # timers q\<rparr>)\<rparr>"

lemma queue_add_eq:
  assumes "tq_inv s" "\<not> locked s" "queues s qa = Some q" "thread q = self"
  shows "spice_timer_queue_add self f opq s = Inr (next_addr s, added s qa q f opq)"
  using find_queue_some [OF assms(1,3,4)] assms(2,3)
  by (simp add: spice_timer_queue_add_def find_with_lock_eq upd_queue_def added_def Let_def)

lemma tq_inv_added:
  assumes "tq_inv s" "queues s qa = Some q"
  shows "tq_inv (added s qa q f opq)"
proof -
  let ?q = "q\<lparr>timers := next_addr s # timers q\<rparr>"
  have ok: "queue_ok s qa q" by (rule tq_inv_simps(4) [OF assms])
  have n: "next_addr s \<notin> set (timers q)" "timer_mem s (next_addr s) = None"
    using timers_below [OF assms] tq_inv_simps(8) [OF assms(1)] by force+
  have "queue_ok (added s qa q f opq) qa q"
    by (rule queue_ok_cong [OF ok]) (use n in \<open>auto simp: added_def\<close>)
  moreover have "timer_ok (added s qa q f opq) qa (active_timers q) (next_addr s)"
    using n ok by (auto simp: timer_ok_def added_def queue_ok_def)
  ultimately have ok': "queue_ok (added s qa q f opq) qa ?q"
    using n by (auto simp: queue_ok_def)
  show ?thesis
    by (rule tq_inv_update [OF assms _ ok'])
      (use n in \<open>auto simp: added_def intro: less_SucI timers_below [OF assms]\<close>)
qed

definition created :: "tq_state \<Rightarrow> thread \<Rightarrow> tq_state" where
  "created s self = s\<lparr>queues := (queues s)(next_addr s \<mapsto> \<lparr>thread = self, timers = [], active_timers = []\<rparr>),
     next_addr := next_addr s + 1, timer_queue_list := next_addr s # timer_queue_list s,
     queue_count := queue_count s + 1\<rparr>"

definition has_queue :: "tq_state \<Rightarrow> thread \<Rightarrow> bool" where
  "has_queue s self = (\<exists>a q. queues s a = Some q \<and> thread q = self)"

lemma create_eq:
  assumes "tq_inv s" "\<not> locked s"
  shows "spice_timer_queue_create self s =
    Inr (if has_queue s self then (False, s\<lparr>locked := True\<rparr>) else (True, created s self))"
proof -
  let ?s = "s\<lparr>locked := True\<rparr>"
  have inv: "tq_inv ?s" using assms(1) by (simp add: tq_inv_locked)
  have i: "(if queue_count ?s = 0 then ?s\<lparr>timer_queue_list := []\<rparr> else ?s) = ?s"
    using tq_inv_simps(3) [OF assms(1)] by simp
  show ?thesis
  proof (cases "has_queue s self")
    case True
    then obtain a q where "queues ?s a = Some q" "thread q = self" by (auto simp: has_queue_def)
    from find_queue_some [OF inv this] True i assms(2) show ?thesis
      by (simp add: spice_timer_queue_create_def lock_queue_list_def Let_def)
  next
    case False
    then have "\<forall>a q. queues ?s a = Some q \<longrightarrow> thread q \<noteq> self" by (auto simp: has_queue_def)
    from find_queue_none [OF inv this] False i assms(2) show ?thesis
      by (simp add: spice_timer_queue_create_def lock_queue_list_def unlock_queue_list_def created_def Let_def)
  qed
qed

lemma tq_inv_created:
  assumes inv: "tq_inv s" and "\<not> has_queue s self"
  shows "tq_inv (created s self)"
proof -
  let ?s = "created s self"
  have n: "next_addr s \<notin> set (timer_queue_list s)" "queues s (next_addr s) = None"
    using tq_inv_simps(2,7) [OF inv] by force+
  have ok: "queue_ok ?s a q" if "queues s a = Some q" for a q
    by (rule queue_ok_cong [OF tq_inv_simps(4) [OF inv that]]) (simp add: created_def)
  have "queue_ok ?s a q" if "queues ?s a = Some q" for a q
    using that ok by (cases "a = next_addr s") (auto simp: created_def queue_ok_def)
  moreover have "owned ?s" using inv n by (force simp: tq_inv_def owned_def created_def)
  moreover have "\<forall>a b q r. queues ?s a = Some q \<longrightarrow> queues ?s b = Some r \<longrightarrow> thread q = thread r \<longrightarrow> a = b"
    using tq_inv_simps(5) [OF inv] assms(2) by (auto simp: created_def has_queue_def)
  moreover have "\<forall>a\<in>dom (queues ?s) \<union> dom (timer_mem ?s). a < next_addr ?s"
    by (auto simp: created_def split: if_splits intro: less_SucI tq_inv_simps(7,8) [OF inv])
  moreover have "distinct (timer_queue_list ?s)" "dom (queues ?s) = set (timer_queue_list ?s)"
    "queue_count ?s = int (length (timer_queue_list ?s))"
    using tq_inv_simps(1-3) [OF inv] n(1) by (simp_all add: created_def)
  ultimately show ?thesis unfolding tq_inv_def by blast
qed

declare remove_all.simps [simp del] cb_loop.simps [simp del]

lemma remove_all_eq:
  assumes "tq_inv s" "queues s qa = Some q" "thread q = self" "length (timers q) \<le> fuel"
  shows "\<exists>s'. remove_all fuel self qa s = Inr s' \<and> tq_inv s' \<and>
    queues s' = (queues s)(qa \<mapsto> q\<lparr>timers := [], active_timers := []\<rparr>) \<and>
    timer_queue_list s' = timer_queue_list s \<and> locked s' = locked s"
  using assms
proof (induction fuel arbitrary: s q)
  case 0
  then have "timers q = []" "active_timers q = []"
    using tq_inv_simps(4) [OF 0(1,2)] by (auto simp: queue_ok_def)
  then have "q\<lparr>timers := [], active_timers := []\<rparr> = q" by simp
  with 0 \<open>timers q = []\<close> show ?case
    by (simp add: remove_all.simps [of 0] map_upd_triv)
next
  case (Suc n)
  show ?case
  proof (cases "timers q")
    case Nil
    then have "active_timers q = []" using tq_inv_simps(4) [OF Suc.prems(1,2)] by (auto simp: queue_ok_def)
    with Nil have "q\<lparr>timers := [], active_timers := []\<rparr> = q" by simp
    with Suc.prems Nil show ?thesis by (simp add: remove_all.simps [of "Suc n"] map_upd_triv)
  next
    case (Cons a as)
    obtain t where t: "timer_mem s a = Some t" "queue t = qa"
      using tq_inv_simps(4) [OF Suc.prems(1,2)] Cons
      by (auto simp: queue_ok_def timer_ok_def split: option.splits)
    then have to: "timer_of s self a t q" using Suc.prems by (simp add: timer_of_def)
    let ?q = "q\<lparr>active_timers := remove1 a (active_timers q), timers := remove1 a (timers q)\<rparr>"
    have "queues (removed s a t q) qa = Some ?q" by (simp add: removed_def t(2))
    moreover have "thread ?q = self" "length (timers ?q) \<le> n"
      using Suc.prems Cons by (simp_all add: length_remove1)
    ultimately obtain s' where
      "remove_all n self qa (removed s a t q) = Inr s'" "tq_inv s'"
      "queues s' = (queues (removed s a t q))(qa \<mapsto> ?q\<lparr>timers := [], active_timers := []\<rparr>)"
      "timer_queue_list s' = timer_queue_list (removed s a t q)" "locked s' = locked (removed s a t q)"
      using Suc.IH [OF tq_inv_removed [OF Suc.prems(1) to]] by blast
    moreover have "remove_all (Suc n) self qa s = remove_all n self qa (removed s a t q)"
      using Suc.prems Cons timer_remove_eq [OF Suc.prems(1) to]
      by (simp add: remove_all.simps [of "Suc n"])
    ultimately show ?thesis by (simp add: removed_def t(2) fun_eq_iff)
  qed
qed

lemma tq_inv_drop_queue:
  assumes inv: "tq_inv s" and q: "queues s qa = Some q" "timers q = []"
  shows "tq_inv (s\<lparr>timer_queue_list := remove1 qa (timer_queue_list s), queues := (queues s)(qa := None),
    queue_count := queue_count s - 1\<rparr>)" (is "tq_inv ?s")
proof -
  have qa: "qa \<in> set (timer_queue_list s)" using q tq_inv_simps(2) [OF inv] by auto
  have ok: "queue_ok ?s a r" if "queues ?s a = Some r" for a r
  proof -
    have "queues s a = Some r" using that by (simp split: if_splits)
    then show ?thesis by (intro queue_ok_cong [OF tq_inv_simps(4) [OF inv]]) auto
  qed
  have "owned ?s"
    unfolding owned_def
  proof (intro allI impI)
    fix a t assume "timer_mem ?s a = Some t"
    then obtain r where r: "queues s (queue t) = Some r" "a \<in> set (timers r)"
      using tq_inv_simps(6) [OF inv] by auto
    then have "queue t \<noteq> qa" using q by auto
    with r show "\<exists>q. queues ?s (queue t) = Some q \<and> a \<in> set (timers q)" by simp
  qed
  moreover have "distinct (timer_queue_list ?s)" "dom (queues ?s) = set (timer_queue_list ?s)"
    using tq_inv_simps(1,2) [OF inv] by auto
  moreover have "queue_count ?s = int (length (timer_queue_list ?s))"
    using tq_inv_simps(3) [OF inv] qa length_pos_if_in_set [OF qa]
    by (simp add: length_remove1 of_nat_diff Suc_le_eq)
  moreover have "a = b" if "queues ?s a = Some r" "queues ?s b = Some r'" "thread r = thread r'" for a b r r'
    using tq_inv_simps(5) [OF inv, of a r b r'] that by (simp split: if_splits)
  moreover have "\<forall>a\<in>dom (queues ?s) \<union> dom (timer_mem ?s). a < next_addr ?s"
    by (auto intro: tq_inv_simps(7,8) [OF inv])
  ultimately show ?thesis using ok unfolding tq_inv_def by blast
qed

lemma destroy_eq:
  assumes "tq_inv s" "\<not> locked s" "queues s qa = Some q" "thread q = self" "length (timers q) \<le> fuel"
  shows "\<exists>s'. spice_timer_queue_destroy fuel self s = Inr s' \<and> tq_inv s' \<and> \<not> locked s' \<and>
    queues s' = (queues s)(qa := None)"
proof -
  let ?s = "s\<lparr>locked := True\<rparr>"
  have inv: "tq_inv ?s" using assms(1) by (simp add: tq_inv_locked)
  have q: "queues ?s qa = Some q" using assms(3) by simp
  obtain s1 where s1: "remove_all fuel self qa ?s = Inr s1" "tq_inv s1"
    "queues s1 = (queues s)(qa \<mapsto> q\<lparr>timers := [], active_timers := []\<rparr>)"
    "timer_queue_list s1 = timer_queue_list s"
    using remove_all_eq [OF inv q assms(4,5)] by auto
  have "tq_inv (s1\<lparr>timer_queue_list := remove1 qa (timer_queue_list s1), queues := (queues s1)(qa := None),
    queue_count := queue_count s1 - 1\<rparr>)" (is "tq_inv ?s2")
    by (rule tq_inv_drop_queue [OF s1(2), of _ "q\<lparr>timers := [], active_timers := []\<rparr>"]) (simp_all add: s1(3))
  then have "tq_inv (?s2\<lparr>locked := False\<rparr>)" by (simp only: tq_inv_locked)
  moreover have "qa \<in> set (timer_queue_list s)" using assms(3) tq_inv_simps(2) [OF assms(1)] by auto
  ultimately show ?thesis
    using find_queue_some [OF inv q assms(4)] s1 assms(2)
    by (simp add: spice_timer_queue_destroy_def lock_queue_list_def list_remove_def unlock_queue_list_def)
qed


section \<open>Due timers\<close>

definition due :: "tq_state \<Rightarrow> addr \<Rightarrow> u64 \<Rightarrow> addr set" where
  "due s qa now = (case queues s qa of None \<Rightarrow> {}
     | Some q \<Rightarrow> {a \<in> set (active_timers q). expiry s a \<le> now})"

definition own_queue :: "tq_state \<Rightarrow> thread \<Rightarrow> addr \<Rightarrow> bool" where
  "own_queue s self qa = (\<exists>q. queues s qa = Some q \<and> thread q = self)"

text \<open>
  What a timer function may do while the queue runs it: anything that keeps the invariant and the
  lock free, keeps the thread's queue, and does not make another timer due at the current reading
  of the clock.
\<close>

definition callback_ok :: "callback \<Rightarrow> thread \<Rightarrow> addr \<Rightarrow> u64 \<Rightarrow> bool" where
  "callback_ok call self qa now = (\<forall>f o' s. tq_inv s \<longrightarrow> \<not> locked s \<longrightarrow> own_queue s self qa \<longrightarrow>
     (\<exists>s'. call f o' s = Inr s' \<and> tq_inv s' \<and> \<not> locked s' \<and> own_queue s' self qa \<and>
       due s' qa now \<subseteq> due s qa now))"

lemma finite_due [simp]: "finite (due s qa now)"
  by (simp add: due_def split: option.splits)

lemma due_empty_if_head_later:
  assumes "tq_inv s" "queues s qa = Some q" "active_timers q = a # as" "expiry s a > now"
  shows "due s qa now = {}"
proof -
  have "sorted (map (expiry s) (a # as))" using tq_inv_simps(4) [OF assms(1,2)] assms(3) by (simp add: queue_ok_def)
  then have "\<forall>b\<in>set (a # as). expiry s a \<le> expiry s b" by auto
  with assms show ?thesis by (force simp: due_def not_le)
qed

lemma due_cancelled:
  assumes "tq_inv s" "timer_of s self a t q"
  shows "due (cancelled s a t q) (queue t) now = due s (queue t) now - {a}"
proof -
  note f = timer_of_facts [OF assms]
  have "expiry (cancelled s a t q) = expiry s" using f(1) by (auto simp: expiry_def cancelled_def)
  then show ?thesis using f(2,7) by (auto simp: due_def cancelled_def)
qed

lemma head_timer:
  assumes "tq_inv s" "queues s qa = Some q" "thread q = self" "active_timers q = a # as"
  obtains t where "timer_of s self a t q" "queue t = qa" "timer_mem s a = Some t" "expiry s a = expiry_time t"
proof -
  have "a \<in> set (timers q)" "queue_ok s qa q"
    using tq_inv_simps(4) [OF assms(1,2)] assms(4) by (auto simp: queue_ok_def)
  then obtain t where "timer_mem s a = Some t" "queue t = qa"
    by (auto simp: queue_ok_def timer_ok_def split: option.splits)
  with assms that show thesis by (simp add: timer_of_def expiry_def)
qed

lemma cb_loop_done:
  assumes "tq_inv s" "queues s qa = Some q" "active_timers q = [] \<or> expiry s (hd (active_timers q)) > now"
    and "thread q = self"
  shows "cb_loop call fuel self qa now s = Inr ([], s) \<and> due s qa now = {}"
proof (cases "active_timers q")
  case Nil
  then show ?thesis using assms(2) by (simp add: cb_loop.simps [of call fuel] due_def)
next
  case (Cons a as)
  obtain t where t: "timer_mem s a = Some t" "expiry s a = expiry_time t"
    by (rule head_timer [OF assms(1,2,4) Cons])
  have "expiry s a > now" using assms(3) Cons by simp
  with t Cons assms due_empty_if_head_later [OF assms(1,2) Cons] show ?thesis
    by (simp add: cb_loop.simps [of call fuel])
qed

lemma cb_loop_fires_due:
  assumes "callback_ok call self qa now" "tq_inv s" "\<not> locked s" "own_queue s self qa"
    and "card (due s qa now) \<le> fuel"
  shows "\<exists>fired s'. cb_loop call fuel self qa now s = Inr (fired, s') \<and> tq_inv s' \<and> \<not> locked s' \<and>
    own_queue s' self qa \<and> due s' qa now = {} \<and> length fired \<le> card (due s qa now)"
  using assms(2-5)
proof (induction fuel arbitrary: s)
  case 0
  obtain q where q: "queues s qa = Some q" "thread q = self" using 0(3) by (auto simp: own_queue_def)
  have "due s qa now = {}" using 0(4) by simp
  then have "active_timers q = [] \<or> expiry s (hd (active_timers q)) > now"
    using q by (cases "active_timers q") (auto simp: due_def not_le)
  from cb_loop_done [OF 0(1) q(1) this q(2), of call 0] 0 show ?case by auto
next
  case (Suc n)
  obtain q where q: "queues s qa = Some q" "thread q = self" using Suc.prems(3) by (auto simp: own_queue_def)
  show ?case
  proof (cases "active_timers q = [] \<or> expiry s (hd (active_timers q)) > now")
    case True
    from cb_loop_done [OF Suc.prems(1) q(1) True q(2), of call "Suc n"] Suc.prems show ?thesis by auto
  next
    case False
    then obtain a as where a: "active_timers q = a # as" "expiry s a \<le> now"
      by (cases "active_timers q") (auto simp: not_less)
    obtain t where t: "timer_of s self a t q" "queue t = qa" "timer_mem s a = Some t" "expiry s a = expiry_time t"
      by (rule head_timer [OF Suc.prems(1) q a(1)])
    let ?s1 = "cancelled s a t q"
    have d1: "due ?s1 qa now = due s qa now - {a}" using due_cancelled [OF Suc.prems(1) t(1)] t(2) by simp
    have "a \<in> due s qa now" using a q by (simp add: due_def)
    then have lt: "card (due ?s1 qa now) < card (due s qa now)" unfolding d1 by (intro card_Diff1_less) auto
    have s1: "tq_inv ?s1" "\<not> locked ?s1" "own_queue ?s1 self qa"
      using tq_inv_cancelled [OF Suc.prems(1) t(1)] Suc.prems(2) q t(2)
      by (simp_all add: cancelled_def own_queue_def)
    then obtain s2 where s2: "call (func t) (opaque t) ?s1 = Inr s2" "tq_inv s2" "\<not> locked s2"
      "own_queue s2 self qa" "due s2 qa now \<subseteq> due ?s1 qa now"
      using assms(1) unfolding callback_ok_def by metis
    have c2: "card (due s2 qa now) \<le> card (due ?s1 qa now)" using s2(5) by (intro card_mono) auto
    then have "card (due s2 qa now) \<le> n" using lt Suc.prems(4) by simp
    from Suc.IH [OF s2(2-4) this] obtain fired s3 where s3: "cb_loop call n self qa now s2 = Inr (fired, s3)"
      "tq_inv s3" "\<not> locked s3" "own_queue s3 self qa" "due s3 qa now = {}" "length fired \<le> card (due s2 qa now)"
      by blast
    have "cb_loop call (Suc n) self qa now s = Inr (a # fired, s3)"
      using q(1) a t(3,4) timer_cancel_eq [OF Suc.prems(1) t(1)] s2(1) s3(1)
      by (simp add: cb_loop.simps [of call "Suc n"] not_less leD)
    with s3 lt c2 show ?thesis by auto
  qed
qed

text \<open>Timer functions that leave the timers alone: the due timers fire once each, earliest first.\<close>

lemma cb_loop_order:
  assumes "\<And>f o' s. call f o' s = Inr s" "tq_inv s" "queues s qa = Some q" "thread q = self"
    and "length (active_timers q) \<le> fuel"
  shows "\<exists>s'. cb_loop call fuel self qa now s = Inr (takeWhile (\<lambda>a. expiry s a \<le> now) (active_timers q), s') \<and>
    queues s' qa = Some (q\<lparr>active_timers := dropWhile (\<lambda>a. expiry s a \<le> now) (active_timers q)\<rparr>)"
  using assms(2-5)
proof (induction "active_timers q" arbitrary: s q fuel)
  case Nil
  then have "q\<lparr>active_timers := []\<rparr> = q" by simp
  with Nil cb_loop_done [OF Nil(2,3), of now self call fuel] show ?case by auto
next
  case (Cons a as)
  note act = Cons(2) [symmetric]
  show ?case
  proof (cases "expiry s a \<le> now")
    case False
    then have "q\<lparr>active_timers := a # as\<rparr> = q" using act by simp
    with False cb_loop_done [OF Cons.prems(1,2), of now self call fuel] Cons.prems act show ?thesis
      by (auto simp: not_le)
  next
    case True
    obtain n where n: "fuel = Suc n" using Cons.prems(4) act by (cases fuel) auto
    obtain t where t: "timer_of s self a t q" "queue t = qa" "timer_mem s a = Some t" "expiry s a = expiry_time t"
      by (rule head_timer [OF Cons.prems(1-3) act])
    let ?s1 = "cancelled s a t q" and ?q = "q\<lparr>active_timers := as\<rparr>"
    have e: "expiry ?s1 = expiry s" using t(3) by (auto simp: expiry_def cancelled_def)
    have q1: "queues ?s1 qa = Some ?q" using act t(2) by (simp add: cancelled_def)
    have "as = active_timers ?q" "thread ?q = self" "length (active_timers ?q) \<le> n"
      using Cons.prems(3,4) act n by auto
    from Cons.hyps(1) [OF this(1) tq_inv_cancelled [OF Cons.prems(1) t(1)] q1 this(2,3)] obtain s' where
      "cb_loop call n self qa now ?s1 = Inr (takeWhile (\<lambda>a. expiry s a \<le> now) as, s')"
      "queues s' qa = Some (q\<lparr>active_timers := dropWhile (\<lambda>a. expiry s a \<le> now) as\<rparr>)"
      by (auto simp: e)
    with Cons.prems(2) act t(3,4) True timer_cancel_eq [OF Cons.prems(1) t(1)] show ?thesis
      by (simp add: n cb_loop.simps [of call "Suc n"] assms(1) not_less leD)
  qed
qed

lemma sorted_split_filter:
  "sorted (map f xs) \<Longrightarrow> takeWhile (\<lambda>a. f a \<le> (n :: u64)) xs = filter (\<lambda>a. f a \<le> n) xs \<and>
   dropWhile (\<lambda>a. f a \<le> n) xs = filter (\<lambda>a. \<not> f a \<le> n) xs"
proof (induction xs)
  case (Cons a xs)
  show ?case
  proof (cases "f a \<le> n")
    case False
    with Cons.prems have "\<forall>x\<in>set xs. \<not> f x \<le> n" by auto
    with False show ?thesis by (auto simp: filter_empty_conv filter_id_conv)
  qed (use Cons in auto)
qed simp


section \<open>Reachable states\<close>

text \<open>
  Any thread may call any operation at any time, with any timer and at any reading of the clock; a call
  that aborts or deadlocks is no step. A round of \<open>spice_timer_queue_cb\<close> is a cancellation followed by
  the operations its timer function calls.
\<close>

inductive tq_step :: "tq_state \<Rightarrow> tq_state \<Rightarrow> bool" where
  create: "spice_timer_queue_create self s = Inr (b, s') \<Longrightarrow> tq_step s s'"
| destroy: "spice_timer_queue_destroy (length (timers (the (queues s qa)))) self s = Inr s' \<Longrightarrow>
    own_queue s self qa \<Longrightarrow> tq_step s s'"
| add: "spice_timer_queue_add self f opq s = Inr (a, s') \<Longrightarrow> tq_step s s'"
| set: "spice_timer_set self now a m s = Inr s' \<Longrightarrow> tq_step s s'"
| cancel: "spice_timer_cancel self a s = Inr s' \<Longrightarrow> tq_step s s'"
| remove: "spice_timer_remove self a s = Inr s' \<Longrightarrow> tq_step s s'"
| timeout: "spice_timer_queue_get_timeout_ms self now s = Inr (r, s') \<Longrightarrow> tq_step s s'"

inductive tq_reach :: "tq_state \<Rightarrow> bool" where
  start: "tq_reach tq_start"
| step: "tq_reach s \<Longrightarrow> tq_step s s' \<Longrightarrow> tq_reach s'"

lemma with_lock_not_locked: "spice_timer_queue_find_with_lock self s = Inr r \<Longrightarrow> \<not> locked s"
  by (auto simp: spice_timer_queue_find_with_lock_def lock_queue_list_def split: if_splits)

lemma with_lock_state: "spice_timer_queue_find_with_lock self s = Inr (r, s') \<Longrightarrow> s' = s"
  using with_lock_not_locked [of self s "(r, s')"] find_with_lock_eq [of s self]
  by (cases "spice_timer_queue_find self s") auto

lemma find_own:
  assumes "tq_inv s" "spice_timer_queue_find self s = Inr (Some qa)"
  shows "own_queue s self qa"
proof -
  have "qa \<in> set (timer_queue_list s) \<and> thread (the (queues s qa)) = self"
    using assms find_queue [OF assms(1), of self] by (auto simp: find_Some_iff)
  moreover from this obtain q where "queues s qa = Some q" using tq_inv_simps(2) [OF assms(1)] by auto
  ultimately show ?thesis by (simp add: own_queue_def)
qed

lemma tq_inv_step: "tq_step s s' \<Longrightarrow> tq_inv s \<Longrightarrow> tq_inv s'"
proof (induction rule: tq_step.induct)
  case (create self s b s')
  have "\<not> locked s"
    using create(1) by (auto simp: spice_timer_queue_create_def lock_queue_list_def split: if_splits)
  then show ?case
    using create create_eq [OF create(2), of self] tq_inv_created [OF create(2), of self]
    by (auto simp: tq_inv_locked split: if_splits)
next
  case (destroy s qa self s')
  have "\<not> locked s"
    using destroy(1) by (auto simp: spice_timer_queue_destroy_def lock_queue_list_def split: if_splits)
  moreover obtain q where "queues s qa = Some q" "thread q = self" using destroy(2) by (auto simp: own_queue_def)
  ultimately show ?case using destroy_eq [OF destroy(3), of qa q self "length (timers q)"] destroy(1) by auto
next
  case (add self f opq s a s')
  then have nl: "\<not> locked s" by (auto simp: spice_timer_queue_add_def dest: with_lock_not_locked)
  then obtain qa where "spice_timer_queue_find self s = Inr (Some qa)"
    using add(1) by (auto simp: spice_timer_queue_add_def find_with_lock_eq split: option.splits)
  then obtain q where "queues s qa = Some q" "thread q = self"
    using find_own [OF add(2)] by (auto simp: own_queue_def)
  with add nl queue_add_eq [OF add(2) nl this] tq_inv_added [OF add(2)] show ?case by auto
next
  case (set self now a m s s')
  then obtain t q where t: "timer_of s self a t q"
    by (auto simp: spice_timer_set_def timer_of_def)
  then have "spice_timer_set self now a m s = Inr (armed s a t q m (clock_ms now + ucast m))"
    using timer_set_eq [OF set(2) t] by (simp add: spice_timer_set_def timer_of_def)
  with set(1) have "s' = armed s a t q m (clock_ms now + ucast m)" by simp
  then show ?case using tq_inv_armed [OF set(2) t] by simp
next
  case (cancel self a s s')
  then obtain t q where t: "timer_of s self a t q"
    by (auto simp: spice_timer_cancel_def timer_of_def)
  then show ?case using cancel(1) timer_cancel_eq [OF cancel(2) t] tq_inv_cancelled [OF cancel(2) t] by auto
next
  case (remove self a s s')
  then obtain t q where t: "timer_of s self a t q"
    by (auto simp: spice_timer_remove_def timer_of_def)
  then show ?case using remove(1) timer_remove_eq [OF remove(2) t] tq_inv_removed [OF remove(2) t] by auto
next
  case (timeout self now s r s')
  then obtain qo s1 where l: "spice_timer_queue_find_with_lock self s = Inr (qo, s1)"
    by (auto simp: spice_timer_queue_get_timeout_ms_def)
  then obtain qa q where q: "qo = Some qa" "queues s1 qa = Some q"
    using timeout(1) by (cases qo) (auto simp: spice_timer_queue_get_timeout_ms_def)
  with timeout(1) l have "s' = s1"
    by (cases "active_timers q") (auto simp: spice_timer_queue_get_timeout_ms_def Let_def)
  then have "s' = s" using with_lock_state [OF l] by simp
  with timeout show ?case by simp
qed


section \<open>Properties\<close>

text \<open>A state with one queue of thread 7 and two armed timers, built with the operations.\<close>

definition demo_tq :: "tq_state res" where
  "demo_tq =
     rbind (spice_timer_queue_create 7 tq_start) (\<lambda>(_, s).
     rbind (spice_timer_queue_add 7 0 10 s) (\<lambda>(a, s).
     rbind (spice_timer_queue_add 7 0 11 s) (\<lambda>(b, s).
     rbind (spice_timer_set 7 \<lparr>tv_sec = 1, tv_nsec = 0\<rparr> a 50 s) (\<lambda>s.
       spice_timer_set 7 \<lparr>tv_sec = 1, tv_nsec = 0\<rparr> b 20 s))))"

definition demo_state :: tq_state where
  "demo_state = \<lparr>locked = False, timer_queue_list = [1], queue_count = 1,
     queues = [1 \<mapsto> \<lparr>thread = 7, timers = [3, 2], active_timers = [3, 2]\<rparr>],
     timer_mem = [2 \<mapsto> \<lparr>func = 0, opaque = 10, queue = 1, is_active = True, ms = 50, expiry_time = 1050\<rparr>,
       3 \<mapsto> \<lparr>func = 0, opaque = 11, queue = 1, is_active = True, ms = 20, expiry_time = 1020\<rparr>],
     next_addr = 4\<rparr>"

lemmas timer_op_defs = spice_timer_queue_create_def spice_timer_queue_add_def spice_timer_set_def timer_set_at_def
  spice_timer_queue_find_with_lock_def spice_timer_queue_find_def lock_queue_list_def unlock_queue_list_def
  upd_queue_def upd_timer_def clock_ms_def Let_def

lemma demo_tq_eq: "demo_tq = Inr demo_state"
  by (simp add: demo_tq_def demo_state_def timer_op_defs tq_start_def fun_eq_iff)

lemma demo_state_inv: "tq_inv demo_state"
  by (auto simp: demo_state_def tq_inv_def owned_def queue_ok_def timer_ok_def expiry_def split: if_splits)

text \<open>
  C11: in every state that any sequence of timer operations of any threads can reach, the timer queues
  are well formed: one queue per thread, the counter counts them, every timer is owned by exactly the
  queue it points to, it is on the active list exactly when its flag says so, and every active list
  is sorted by expiry time.
\<close>

theorem timer_queue_invariant:
  assumes "tq_reach s"
  shows "tq_inv s"
  using assms by (induction rule: tq_reach.induct) (auto intro: tq_start_inv tq_inv_step)

theorem timer_queue_invariant_witness:
  "\<exists>s. spice_timer_queue_create 7 tq_start = Inr (True, s) \<and> tq_inv s"
proof -
  have c: "spice_timer_queue_create 7 tq_start = Inr (True, created tq_start 7)"
    using create_eq [OF tq_start_inv, of 7] by (simp add: has_queue_def tq_start_def)
  then have "tq_reach (created tq_start 7)" by (intro tq_reach.step [OF tq_reach.start] tq_step.create)
  with c timer_queue_invariant show ?thesis by blast
qed

text \<open>
  C21: spice_timer_queue_cb returns and leaves no timer due, for every timer function that keeps the
  queues well formed and arms no timer that is already due: with as many rounds as there are due
  timers it ends, fires at most that many, and afterwards every active timer of the thread expires
  after the time at which it was called.
\<close>

theorem timer_cb_fires_all_due:
  assumes "callback_ok call self qa (clock_ms now)" "tq_inv s" "\<not> locked s" "own_queue s self qa"
    and "card (due s qa (clock_ms now)) \<le> fuel"
  shows "\<exists>fired s'. spice_timer_queue_cb call fuel self now s = Inr (fired, s') \<and> tq_inv s' \<and>
    \<not> locked s' \<and> due s' qa (clock_ms now) = {} \<and> length fired \<le> card (due s qa (clock_ms now))"
proof -
  obtain q where q: "queues s qa = Some q" "thread q = self" using assms(4) by (auto simp: own_queue_def)
  have cb: "spice_timer_queue_cb call fuel self now s =
      (if active_timers q = [] then Inr ([], s) else cb_loop call fuel self qa (clock_ms now) s)"
    using find_queue_some [OF assms(2) q] assms(3) q(1)
    by (simp add: spice_timer_queue_cb_def find_with_lock_eq)
  show ?thesis
  proof (cases "active_timers q = []")
    case True
    then show ?thesis using cb assms(2,3) q(1) by (simp add: due_def)
  next
    case False
    then show ?thesis using cb cb_loop_fires_due [OF assms] by auto
  qed
qed

theorem timer_cb_fires_all_due_witness:
  "\<exists>fired s'. spice_timer_queue_cb (\<lambda>f o' s. Inr s) 2 7 \<lparr>tv_sec = 1, tv_nsec = 30000000\<rparr> demo_state = Inr (fired, s') \<and>
    tq_inv s' \<and> \<not> locked s' \<and> due s' 1 1030 = {} \<and> length fired \<le> 1"
proof -
  have c: "clock_ms \<lparr>tv_sec = 1, tv_nsec = 30000000\<rparr> = 1030" by (simp add: clock_ms_def)
  have "{a. (a = 3 \<or> a = 2) \<and> expiry demo_state a \<le> 1030} = {3}"
    by (auto simp: expiry_def demo_state_def)
  then have d: "due demo_state 1 1030 = {3}" by (simp add: due_def demo_state_def)
  have "own_queue demo_state 7 1" "\<not> locked demo_state" by (simp_all add: own_queue_def demo_state_def)
  then show ?thesis
    using timer_cb_fires_all_due [of "\<lambda>f o' s. Inr s" 7 1 "\<lparr>tv_sec = 1, tv_nsec = 30000000\<rparr>" demo_state 2]
      demo_state_inv unfolding c d by (simp add: callback_ok_def)
qed

text \<open>
  Order of firing: when the timer functions do not touch the timers, spice_timer_queue_cb fires
  exactly the active timers whose expiry time has come, each once, in the order of the sorted active
  list, and leaves the others active.
\<close>

theorem timer_cb_order:
  assumes "tq_inv s" "\<not> locked s" "queues s qa = Some q" "thread q = self" "length (active_timers q) \<le> fuel"
  shows "\<exists>s'. spice_timer_queue_cb (\<lambda>f o' s. Inr s) fuel self now s =
      Inr (filter (\<lambda>a. expiry s a \<le> clock_ms now) (active_timers q), s') \<and>
    queues s' qa = Some (q\<lparr>active_timers := filter (\<lambda>a. \<not> expiry s a \<le> clock_ms now) (active_timers q)\<rparr>) \<and>
    sorted (map (expiry s) (active_timers q))"
proof -
  have so: "sorted (map (expiry s) (active_timers q))"
    using tq_inv_simps(4) [OF assms(1,3)] by (simp add: queue_ok_def)
  obtain s' where s': "cb_loop (\<lambda>f o' s. Inr s) fuel self qa (clock_ms now) s =
      Inr (takeWhile (\<lambda>a. expiry s a \<le> clock_ms now) (active_timers q), s')"
    "queues s' qa = Some (q\<lparr>active_timers := dropWhile (\<lambda>a. expiry s a \<le> clock_ms now) (active_timers q)\<rparr>)"
    using cb_loop_order [of "\<lambda>f o' s. Inr s", OF refl assms(1,3-5)] by blast
  have cb: "spice_timer_queue_cb (\<lambda>f o' s. Inr s) fuel self now s =
      (if active_timers q = [] then Inr ([], s) else cb_loop (\<lambda>f o' s. Inr s) fuel self qa (clock_ms now) s)"
    using find_queue_some [OF assms(1,3,4)] assms(2,3)
    by (simp add: spice_timer_queue_cb_def find_with_lock_eq)
  show ?thesis
  proof (cases "active_timers q = []")
    case True
    then have "q\<lparr>active_timers := []\<rparr> = q" by simp
    with True cb assms(3) show ?thesis by simp
  next
    case False
    then show ?thesis using cb s' so sorted_split_filter [OF so, of "clock_ms now"] by simp
  qed
qed

theorem timer_cb_order_witness:
  "\<exists>s'. spice_timer_queue_cb (\<lambda>f o' s. Inr s) 2 7 \<lparr>tv_sec = 1, tv_nsec = 30000000\<rparr> demo_state = Inr ([3], s')"
  using timer_cb_order [OF demo_state_inv, of 1 "\<lparr>thread = 7, timers = [3, 2], active_timers = [3, 2]\<rparr>" 7 2
      "\<lparr>tv_sec = 1, tv_nsec = 30000000\<rparr>"]
  by (auto simp: demo_state_def expiry_def clock_ms_def)

text \<open>
  The sleep time handed to the worker's poll never skips a timer: it is all ones (no limit) when no
  timer of the thread is active, and otherwise the time until the earliest expiry, or zero when that
  has passed. (Clock values below 2^62 ms; the result has 32 bits.)
\<close>

theorem timer_timeout_exact:
  assumes "tq_inv s" "\<not> locked s" "queues s qa = Some q" "thread q = self"
    and "\<forall>a\<in>set (active_timers q). unat (expiry s a) < 2 ^ 62 \<and> unat (expiry s a) - unat (clock_ms now) < 2 ^ 32"
    and "unat (clock_ms now) < 2 ^ 62"
  shows "\<exists>r. spice_timer_queue_get_timeout_ms self now s = Inr (r, s) \<and>
    (active_timers q = [] \<longrightarrow> r = 0xFFFFFFFF) \<and>
    (active_timers q \<noteq> [] \<longrightarrow> unat r = Min ((\<lambda>a. unat (expiry s a)) ` set (active_timers q)) - unat (clock_ms now))"
proof (cases "active_timers q")
  case Nil
  then show ?thesis
    using find_queue_some [OF assms(1,3,4)] assms(2,3)
    by (simp add: spice_timer_queue_get_timeout_ms_def find_with_lock_eq)
next
  case (Cons a as)
  obtain t where t: "timer_mem s a = Some t" "expiry s a = expiry_time t"
    by (rule head_timer [OF assms(1,3,4) Cons])
  let ?n = "clock_ms now" and ?d = "expiry_time t - clock_ms now"
  have "sorted (map (expiry s) (a # as))" using tq_inv_simps(4) [OF assms(1,3)] Cons by (simp add: queue_ok_def)
  then have "Min ((\<lambda>a. unat (expiry s a)) ` set (a # as)) = unat (expiry s a)"
    by (intro Min_eqI) (auto simp: word_le_nat_alt)
  moreover have e: "unat (expiry_time t) < 2 ^ 62" "unat (expiry_time t) - unat ?n < 2 ^ 32"
    using assms(5) Cons t(2) by auto
  have "unat (if sint ?d < 0 then 0 else ucast ?d :: u32) = unat (expiry_time t) - unat ?n"
  proof (cases "?n \<le> expiry_time t")
    case True
    then have u: "unat ?d = unat (expiry_time t) - unat ?n" by (simp add: unat_sub)
    then have "\<not> sint ?d < 0" using e(1) by (intro sint_nonneg_small) simp
    moreover have "unat (ucast ?d :: u32) = unat ?d" using e(2) u by (simp add: unsigned_ucast_eq take_bit_nat_eq_self)
    ultimately show ?thesis using u by simp
  next
    case False
    then have lt: "unat (expiry_time t) < unat ?n" by (simp add: word_le_nat_alt)
    then have "sint ?d < 0" using assms(6) by (intro sint_neg_diff) auto
    with lt show ?thesis by simp
  qed
  ultimately show ?thesis
    using find_queue_some [OF assms(1,3,4)] assms(2,3) Cons t
    by (simp add: spice_timer_queue_get_timeout_ms_def find_with_lock_eq Let_def)
qed

theorem timer_timeout_exact_witness:
  "\<exists>r. spice_timer_queue_get_timeout_ms 7 \<lparr>tv_sec = 1, tv_nsec = 5000000\<rparr> demo_state = Inr (r, demo_state) \<and> unat r = 15"
  using timer_timeout_exact [OF demo_state_inv, of 1 "\<lparr>thread = 7, timers = [3, 2], active_timers = [3, 2]\<rparr>" 7
      "\<lparr>tv_sec = 1, tv_nsec = 5000000\<rparr>"]
  by (auto simp: demo_state_def expiry_def clock_ms_def)

text \<open>
  Creating a queue for a thread that already has one returns FALSE with queue_list_lock still held:
  from then on every operation of any thread that needs the lock (create, destroy, add, the timeout
  query and the dispatch of due timers) blocks for ever.
\<close>

theorem timer_create_twice_deadlocks:
  assumes "tq_inv s" "\<not> locked s" "has_queue s self"
  shows "\<exists>s'. spice_timer_queue_create self s = Inr (False, s') \<and>
    spice_timer_queue_create other s' = Inl Deadlock \<and> spice_timer_queue_destroy fuel other s' = Inl Deadlock \<and>
    spice_timer_queue_add other f opq s' = Inl Deadlock \<and>
    spice_timer_queue_get_timeout_ms other now s' = Inl Deadlock \<and>
    spice_timer_queue_cb call fuel other now s' = Inl Deadlock"
proof -
  have "spice_timer_queue_create self s = Inr (False, s\<lparr>locked := True\<rparr>)"
    using create_eq [OF assms(1,2), of self] assms(3) by simp
  moreover have l: "lock_queue_list (s\<lparr>locked := True\<rparr>) = Inl Deadlock" by (simp add: lock_queue_list_def)
  ultimately show ?thesis
    by (intro exI [of _ "s\<lparr>locked := True\<rparr>"])
      (simp add: spice_timer_queue_create_def [of other] spice_timer_queue_destroy_def spice_timer_queue_add_def
        spice_timer_queue_get_timeout_ms_def spice_timer_queue_cb_def spice_timer_queue_find_with_lock_def)
qed

theorem timer_create_twice_deadlocks_witness:
  "\<exists>s'. spice_timer_queue_create 7 demo_state = Inr (False, s') \<and> spice_timer_queue_create 8 s' = Inl Deadlock"
proof -
  have "has_queue demo_state 7" "\<not> locked demo_state" by (auto simp: has_queue_def demo_state_def)
  then show ?thesis
    using timer_create_twice_deadlocks [OF demo_state_inv, of 7 8 0 0 0 "\<lparr>tv_sec = 0, tv_nsec = 0\<rparr>"
        "\<lambda>f o' s. Inr s"] by auto
qed

end
