(* ===== verification/Char_Device.thy ===== *)
theory Char_Device
  imports Ring
begin

text \<open>
  Character devices (server/char_device.c, char_device.h): the flow-controlled bridge between a guest
  device and the clients. Clients write to the device through buffers that cost them tokens, the
  device's messages go to the clients as far as their send tokens last, and a queue per client holds
  the rest. The rings are the lists they represent (theory Ring): \<open>ring_add\<close> puts an item first and
  the tail is the oldest. Client states and write buffers are heap objects under their addresses.

  The device instance's callbacks, its \<open>write\<close> function and the core timer interface are not part of
  this file: they are the argument \<open>cbs\<close> of the operations. A callback is a function on the whole
  device state, so it may call back into the device or touch anything; the component \<open>env\<close> is its own
  state. Reading a released client or buffer is an error of the model.
\<close>

section \<open>State\<close>

type_synonym addr = nat
type_synonym client_id = nat
type_synonym msg = nat

datatype buf_origin = ORIGIN_NONE | ORIGIN_CLIENT | ORIGIN_SERVER | ORIGIN_SERVER_NO_TOKEN

record write_buffer =
  wb_origin :: buf_origin
  wb_client :: "client_id option"
  wb_data :: "u8 list"
  buf_used :: u32
  token_price :: u32
  wb_refs :: u32

record dev_client =
  dc_client :: client_id
  do_flow_control :: bool
  num_client_tokens :: u64
  num_client_tokens_free :: u64
  num_send_tokens :: u64
  wait_for_tokens_timer :: bool
  wait_for_tokens_started :: bool
  send_queue :: "msg list"
  send_queue_size :: u32
  max_send_queue_size :: u32

record 'e char_dev =
  running :: bool
  active :: bool
  wait_for_migrate_data :: bool
  refs :: u32
  freed :: bool
  write_queue :: "addr list"
  write_bufs_pool :: "addr list"
  cur_write_buf :: "addr option"
  cur_write_buf_pos :: nat
  write_to_dev_timer :: bool
  num_self_tokens :: u64
  clients :: "addr list"
  num_clients :: u32
  client_tokens_interval :: u64
  sin :: "nat option"
  during_read :: int
  during_write :: int
  buf_mem :: "addr \<rightharpoonup> write_buffer"
  client_mem :: "addr \<rightharpoonup> dev_client"
  next_addr :: addr
  env :: 'e

datatype dev_timer = WriteTimer | WaitTimer addr

datatype timer_call = TimerAdd dev_timer | TimerStart dev_timer u32 | TimerCancel dev_timer | TimerRemove dev_timer

record 'e callbacks =
  read_one_msg_from_device :: "'e char_dev \<Rightarrow> (msg option \<times> 'e char_dev) res"
  ref_msg_to_client :: "msg \<Rightarrow> 'e char_dev \<Rightarrow> 'e char_dev res"
  unref_msg_to_client :: "msg \<Rightarrow> 'e char_dev \<Rightarrow> 'e char_dev res"
  send_msg_to_client :: "msg \<Rightarrow> client_id \<Rightarrow> 'e char_dev \<Rightarrow> 'e char_dev res"
  send_tokens_to_client :: "client_id \<Rightarrow> u32 \<Rightarrow> 'e char_dev \<Rightarrow> 'e char_dev res"
  on_free_self_token :: "('e char_dev \<Rightarrow> 'e char_dev res) option"
  remove_client :: "client_id \<Rightarrow> 'e char_dev \<Rightarrow> 'e char_dev res"
  sif_write :: "u8 list \<Rightarrow> 'e char_dev \<Rightarrow> (int \<times> 'e char_dev) res"
  core_timer :: "timer_call \<Rightarrow> 'e char_dev \<Rightarrow> 'e char_dev res"
  reds_on_destroy :: "'e char_dev \<Rightarrow> 'e char_dev res"

definition CHAR_DEVICE_WRITE_TO_TIMEOUT :: u32 where
  "CHAR_DEVICE_WRITE_TO_TIMEOUT = 100"

definition SPICE_CHAR_DEVICE_WAIT_TOKENS_TIMEOUT :: u32 where
  "SPICE_CHAR_DEVICE_WAIT_TOKENS_TIMEOUT = 30000"

definition get_buf :: "addr \<Rightarrow> 'e char_dev \<Rightarrow> write_buffer res" where
  "get_buf a s = deref (buf_mem s a)"

definition set_buf :: "addr \<Rightarrow> write_buffer \<Rightarrow> 'e char_dev \<Rightarrow> 'e char_dev" where
  "set_buf a b s = s\<lparr>buf_mem := (buf_mem s)(a \<mapsto> b)\<rparr>"

definition get_client :: "addr \<Rightarrow> 'e char_dev \<Rightarrow> dev_client res" where
  "get_client a s = deref (client_mem s a)"

definition set_client :: "addr \<Rightarrow> dev_client \<Rightarrow> 'e char_dev \<Rightarrow> 'e char_dev" where
  "set_client a c s = s\<lparr>client_mem := (client_mem s)(a \<mapsto> c)\<rparr>"

definition ring_take :: "addr \<Rightarrow> addr list \<Rightarrow> addr list res" where
  "ring_take x xs = spice_assert (x \<in> set xs) (Inr (remove1 x xs))"

definition ring_put :: "addr \<Rightarrow> addr list \<Rightarrow> addr list res" where
  "ring_put x xs = spice_assert (x \<notin> set xs) (Inr (x # xs))"


section \<open>Write buffers\<close>

definition write_buffer_free :: "addr \<Rightarrow> 'e char_dev \<Rightarrow> 'e char_dev res" where
  "write_buffer_free a s =
     rbind (get_buf a s) (\<lambda>b.
       let b' = b\<lparr>wb_refs := wb_refs b - 1\<rparr> in
       Inr (if wb_refs b' = 0 then s\<lparr>buf_mem := (buf_mem s)(a := None)\<rparr> else set_buf a b' s))"

text \<open>\<open>write_buffers_queue_free\<close> frees from the tail until the ring is empty.\<close>

fun free_bufs :: "addr list \<Rightarrow> 'e char_dev \<Rightarrow> 'e char_dev res" where
  "free_bufs [] s = Inr s"
| "free_bufs (a # as) s = rbind (write_buffer_free a s) (free_bufs as)"

definition write_queue_free :: "'e char_dev \<Rightarrow> 'e char_dev res" where
  "write_queue_free s = free_bufs (rev (write_queue s)) (s\<lparr>write_queue := []\<rparr>)"

definition write_pool_free :: "'e char_dev \<Rightarrow> 'e char_dev res" where
  "write_pool_free s = free_bufs (rev (write_bufs_pool s)) (s\<lparr>write_bufs_pool := []\<rparr>)"

definition pool_add :: "addr \<Rightarrow> 'e char_dev \<Rightarrow> 'e char_dev res" where
  "pool_add a s =
     rbind (get_buf a s) (\<lambda>b.
       if wb_refs b = 1
       then rbind (ring_put a (write_bufs_pool s)) (\<lambda>pool.
         Inr ((set_buf a (b\<lparr>buf_used := 0, wb_origin := ORIGIN_NONE, wb_client := None\<rparr>) s)
           \<lparr>write_bufs_pool := pool\<rparr>))
       else Inr (set_buf a (b\<lparr>wb_refs := wb_refs b - 1\<rparr>) s))"

fun client_find_in :: "client_id \<Rightarrow> (addr \<rightharpoonup> dev_client) \<Rightarrow> addr list \<Rightarrow> addr option res" where
  "client_find_in c m [] = Inr None"
| "client_find_in c m (a # as) =
     rbind (deref (m a)) (\<lambda>d. if dc_client d = c then Inr (Some a) else client_find_in c m as)"

definition client_find :: "client_id \<Rightarrow> 'e char_dev \<Rightarrow> addr option res" where
  "client_find c s = client_find_in c (client_mem s) (clients s)"

definition handle_client_overflow :: "'e callbacks \<Rightarrow> addr \<Rightarrow> 'e char_dev \<Rightarrow> 'e char_dev res" where
  "handle_client_overflow cbs a s =
     rbind (get_client a s) (\<lambda>d. remove_client cbs (dc_client d) s)"

definition device_client_wait_for_tokens_timeout :: "'e callbacks \<Rightarrow> addr \<Rightarrow> 'e char_dev \<Rightarrow> 'e char_dev res" where
  "device_client_wait_for_tokens_timeout cbs a s = handle_client_overflow cbs a s"

definition client_tokens_add :: "'e callbacks \<Rightarrow> addr \<Rightarrow> u32 \<Rightarrow> 'e char_dev \<Rightarrow> 'e char_dev res" where
  "client_tokens_add cbs a num_tokens s =
     rbind (get_client a s) (\<lambda>d.
       if \<not> do_flow_control d then Inr s
       else
         let d1 = d\<lparr>num_client_tokens_free := num_client_tokens_free d + ucast num_tokens\<rparr> in
         if num_client_tokens_free d1 \<ge> client_tokens_interval s
         then
           let tokens = ucast (num_client_tokens_free d1);
               d2 = d1\<lparr>num_client_tokens := num_client_tokens d1 + num_client_tokens_free d1,
                       num_client_tokens_free := 0\<rparr> in
           send_tokens_to_client cbs (dc_client d2) tokens (set_client a d2 s)
         else Inr (set_client a d1 s))"

definition write_buffer_release :: "'e callbacks \<Rightarrow> addr \<Rightarrow> 'e char_dev \<Rightarrow> 'e char_dev res" where
  "write_buffer_release cbs a s =
     rbind (get_buf a s) (\<lambda>b.
       spice_assert (a \<notin> set (write_queue s) \<and> a \<notin> set (write_bufs_pool s))
         (spice_assert (cur_write_buf s \<noteq> Some a)
           (rbind (pool_add a s) (\<lambda>s1.
             case wb_origin b of
               ORIGIN_CLIENT \<Rightarrow>
                 (case wb_client b of None \<Rightarrow> Inl Abort
                  | Some c \<Rightarrow> rbind (client_find c s1) (\<lambda>found. case found of
                      None \<Rightarrow> Inl Abort
                    | Some da \<Rightarrow> client_tokens_add cbs da (token_price b) s1))
             | ORIGIN_SERVER \<Rightarrow>
                 let s2 = s1\<lparr>num_self_tokens := num_self_tokens s1 + 1\<rparr> in
                 (case on_free_self_token cbs of None \<Rightarrow> Inr s2 | Some f \<Rightarrow> f s2)
             | _ \<Rightarrow> Inr s1))))"

text \<open>
  Fresh memory from \<open>spice_realloc\<close> is filled with zeros here; its contents are not read before the
  caller has written them.
\<close>

definition grow_buf :: "u32 \<Rightarrow> write_buffer \<Rightarrow> write_buffer" where
  "grow_buf sz b = (if length (wb_data b) < unat sz
     then b\<lparr>wb_data := wb_data b @ replicate (unat sz - length (wb_data b)) 0\<rparr> else b)"

definition take_pool_buf :: "'e char_dev \<Rightarrow> (addr \<times> write_buffer \<times> 'e char_dev) res" where
  "take_pool_buf s =
     (if write_bufs_pool s = []
      then Inr (next_addr s,
        \<lparr>wb_origin = ORIGIN_NONE, wb_client = None, wb_data = [], buf_used = 0, token_price = 0, wb_refs = 0\<rparr>,
        s\<lparr>next_addr := next_addr s + 1\<rparr>)
      else let a = last (write_bufs_pool s) in
        rbind (get_buf a s) (\<lambda>b. Inr (a, b, s\<lparr>write_bufs_pool := butlast (write_bufs_pool s)\<rparr>)))"

text \<open>
  \<open>__spice_char_device_write_buffer_get\<close>. On the error path the buffer, already marked with its new
  origin, goes back to the pool.
\<close>

definition get_error :: "addr \<Rightarrow> 'e char_dev \<Rightarrow> (addr option \<times> 'e char_dev) res" where
  "get_error a s = rbind (ring_put a (write_bufs_pool s)) (\<lambda>pool. Inr (None, s\<lparr>write_bufs_pool := pool\<rparr>))"

definition get_finish :: "u32 \<Rightarrow> addr \<Rightarrow> write_buffer \<Rightarrow> 'e char_dev \<Rightarrow> (addr option \<times> 'e char_dev) res" where
  "get_finish migrated_data_tokens a b s =
     Inr (Some a, set_buf a (b\<lparr>token_price := (if migrated_data_tokens \<noteq> 0 then migrated_data_tokens else 1),
       wb_refs := 1\<rparr>) s)"

definition write_buffer_get_full :: "'e callbacks \<Rightarrow> client_id option \<Rightarrow> u32 \<Rightarrow> buf_origin \<Rightarrow> u32 \<Rightarrow>
    'e char_dev \<Rightarrow> (addr option \<times> 'e char_dev) res" where
  "write_buffer_get_full cbs client sz origin migrated_data_tokens s =
     (if origin = ORIGIN_SERVER \<and> num_self_tokens s = 0 then Inr (None, s)
      else rbind (take_pool_buf s) (\<lambda>(a, b0, s0).
        spice_assert (buf_used b0 = 0)
          (let b = (grow_buf sz b0)\<lparr>wb_origin := origin\<rparr>; s1 = set_buf a b s0 in
           case origin of
             ORIGIN_CLIENT \<Rightarrow>
               (case client of None \<Rightarrow> Inl Abort
                | Some c \<Rightarrow> rbind (client_find c s1) (\<lambda>found. case found of
                    None \<Rightarrow> get_error a s1
                  | Some da \<Rightarrow> rbind (get_client da s1) (\<lambda>d.
                      if migrated_data_tokens = 0 \<and> do_flow_control d \<and> num_client_tokens d = 0
                      then rbind (handle_client_overflow cbs da s1) (get_error a)
                      else
                        let s2 = (if migrated_data_tokens = 0 \<and> do_flow_control d
                                  then set_client da (d\<lparr>num_client_tokens := num_client_tokens d - 1\<rparr>) s1
                                  else s1) in
                        get_finish migrated_data_tokens a (b\<lparr>wb_client := Some c\<rparr>) s2)))
           | ORIGIN_SERVER \<Rightarrow>
               get_finish migrated_data_tokens a b (s1\<lparr>num_self_tokens := num_self_tokens s1 - 1\<rparr>)
           | _ \<Rightarrow> get_finish migrated_data_tokens a b s1)))"

definition spice_char_device_write_buffer_get :: "'e callbacks \<Rightarrow> client_id option \<Rightarrow> u32 \<Rightarrow> 'e char_dev \<Rightarrow>
    (addr option \<times> 'e char_dev) res" where
  "spice_char_device_write_buffer_get cbs client sz s =
     write_buffer_get_full cbs client sz (if client \<noteq> None then ORIGIN_CLIENT else ORIGIN_SERVER) 0 s"

definition spice_char_device_write_buffer_get_server_no_token :: "'e callbacks \<Rightarrow> u32 \<Rightarrow> 'e char_dev \<Rightarrow>
    (addr option \<times> 'e char_dev) res" where
  "spice_char_device_write_buffer_get_server_no_token cbs sz s =
     write_buffer_get_full cbs None sz ORIGIN_SERVER_NO_TOKEN 0 s"

definition write_buffer_ref :: "addr \<Rightarrow> 'e char_dev \<Rightarrow> 'e char_dev res" where
  "write_buffer_ref a s = rbind (get_buf a s) (\<lambda>b. Inr (set_buf a (b\<lparr>wb_refs := wb_refs b + 1\<rparr>) s))"

definition state_ref :: "'e char_dev \<Rightarrow> 'e char_dev" where
  "state_ref s = s\<lparr>refs := refs s + 1\<rparr>"

definition state_unref :: "'e char_dev \<Rightarrow> 'e char_dev" where
  "state_unref s = (let r = refs s - 1 in if r = 0 then s\<lparr>refs := r, freed := True\<rparr> else s\<lparr>refs := r\<rparr>)"


section \<open>Writing to the device\<close>

definition opt_timer :: "'e callbacks \<Rightarrow> bool \<Rightarrow> timer_call \<Rightarrow> 'e char_dev \<Rightarrow> 'e char_dev res" where
  "opt_timer cbs present call s = (if present then core_timer cbs call s else Inr s)"

text \<open>
  The loop of \<open>spice_char_device_write_to_device\<close>. It leaves with the sum of the accepted byte counts
  when the device is stopped, when there is nothing to write, or when the device accepts nothing and
  no wakeup came in between; a device that always accepts something but never consumes a buffer
  would keep it going, so it carries fuel.
\<close>

definition next_write_buf :: "'e char_dev \<Rightarrow> 'e char_dev option" where
  "next_write_buf s = (case cur_write_buf s of
     Some a \<Rightarrow> Some s
   | None \<Rightarrow> if write_queue s = [] then None
       else Some (s\<lparr>cur_write_buf := Some (last (write_queue s)), cur_write_buf_pos := 0,
                    write_queue := butlast (write_queue s)\<rparr>))"

definition cur_chunk :: "'e char_dev \<Rightarrow> (u8 list \<times> u32) res" where
  "cur_chunk s =
     rbind (deref (cur_write_buf s)) (\<lambda>a.
     rbind (get_buf a s) (\<lambda>b.
       let len = buf_used b - of_nat (cur_write_buf_pos s) in
       if cur_write_buf_pos s + unat len \<le> length (wb_data b)
       then Inr (take (unat len) (drop (cur_write_buf_pos s) (wb_data b)), len)
       else Inl OutOfBounds))"

fun write_loop :: "'e callbacks \<Rightarrow> nat \<Rightarrow> int \<Rightarrow> 'e char_dev \<Rightarrow> (int \<times> 'e char_dev) res" where
  "write_loop cbs fuel tot s =
     (if \<not> running s then Inr (tot, s)
      else case fuel of 0 \<Rightarrow> Inl NoFuel | Suc k \<Rightarrow>
       (case next_write_buf s of
          None \<Rightarrow> Inr (tot, s)
        | Some s1 \<Rightarrow>
          rbind (cur_chunk s1) (\<lambda>(bytes, write_len).
          rbind (sif_write cbs bytes s1) (\<lambda>(n, s2).
            if n \<le> 0
            then (if during_write s2 > 1 then write_loop cbs k tot (s2\<lparr>during_write := 1\<rparr>)
                  else Inr (tot, s2))
            else if write_len - of_int n = 0
            then rbind (deref (cur_write_buf s2)) (\<lambda>a.
              rbind (write_buffer_release cbs a (s2\<lparr>cur_write_buf := None\<rparr>)) (\<lambda>s3.
                write_loop cbs k (tot + n) s3))
            else write_loop cbs k (tot + n)
              (s2\<lparr>cur_write_buf_pos := cur_write_buf_pos s2 + nat n\<rparr>)))))"

definition write_finish :: "'e callbacks \<Rightarrow> int \<Rightarrow> 'e char_dev \<Rightarrow> 'e char_dev res" where
  "write_finish cbs tot s =
     rbind (if running s
       then rbind (if cur_write_buf s \<noteq> None
              then opt_timer cbs (write_to_dev_timer s) (TimerStart WriteTimer CHAR_DEVICE_WRITE_TO_TIMEOUT) s
              else spice_assert (write_queue s = []) (Inr s)) (\<lambda>s1.
            Inr (s1\<lparr>active := (active s1 \<or> tot \<noteq> 0)\<rparr>))
       else Inr s) (\<lambda>s2. Inr (state_unref (s2\<lparr>during_write := 0\<rparr>)))"

definition spice_char_device_write_to_device :: "'e callbacks \<Rightarrow> nat \<Rightarrow> 'e char_dev \<Rightarrow> (int \<times> 'e char_dev) res" where
  "spice_char_device_write_to_device cbs fuel s =
     (if \<not> running s \<or> wait_for_migrate_data s \<or> sin s = None then Inr (0, s)
      else if during_write s > 0 then Inr (0, s\<lparr>during_write := during_write s + 1\<rparr>)
      else rbind (opt_timer cbs (write_to_dev_timer s) (TimerCancel WriteTimer)
                   (state_ref (s\<lparr>during_write := during_write s + 1\<rparr>))) (\<lambda>s1.
        rbind (write_loop cbs fuel 0 s1) (\<lambda>(tot, s2).
        rbind (write_finish cbs tot s2) (\<lambda>s3. Inr (tot, s3)))))"

definition spice_char_dev_write_retry :: "'e callbacks \<Rightarrow> nat \<Rightarrow> 'e char_dev \<Rightarrow> 'e char_dev res" where
  "spice_char_dev_write_retry cbs fuel s =
     rbind (opt_timer cbs (write_to_dev_timer s) (TimerCancel WriteTimer) s) (\<lambda>s1.
     rbind (spice_char_device_write_to_device cbs fuel s1) (\<lambda>(n, s2). Inr s2))"

definition spice_char_device_write_buffer_add :: "'e callbacks \<Rightarrow> nat \<Rightarrow> addr \<Rightarrow> 'e char_dev \<Rightarrow> 'e char_dev res" where
  "spice_char_device_write_buffer_add cbs fuel a s =
     rbind (get_buf a s) (\<lambda>b.
     rbind (if wb_origin b = ORIGIN_CLIENT
            then (case wb_client b of None \<Rightarrow> Inr None | Some c \<Rightarrow> client_find c s)
            else Inr (Some a)) (\<lambda>found.
       if found = None then pool_add a s
       else spice_assert (a \<notin> set (write_queue s) \<and> a \<notin> set (write_bufs_pool s))
         (rbind (spice_char_device_write_to_device cbs fuel (s\<lparr>write_queue := a # write_queue s\<rparr>))
           (\<lambda>(n, s1). Inr s1))))"


section \<open>Reading from the device\<close>

definition can_send_to_client :: "dev_client \<Rightarrow> bool" where
  "can_send_to_client d = (\<not> do_flow_control d \<or> num_send_tokens d \<noteq> 0)"

fun max_send_tokens_in :: "(addr \<rightharpoonup> dev_client) \<Rightarrow> addr list \<Rightarrow> u64 \<Rightarrow> u64 res" where
  "max_send_tokens_in m [] mx = Inr mx"
| "max_send_tokens_in m (a # as) mx =
     rbind (deref (m a)) (\<lambda>d.
       if \<not> do_flow_control d then Inr (- 1)
       else max_send_tokens_in m as (if num_send_tokens d > mx then num_send_tokens d else mx))"

definition max_send_tokens :: "'e char_dev \<Rightarrow> u64 res" where
  "max_send_tokens s = max_send_tokens_in (client_mem s) (clients s) 0"

definition add_msg_to_client_queue :: "'e callbacks \<Rightarrow> addr \<Rightarrow> msg \<Rightarrow> 'e char_dev \<Rightarrow> 'e char_dev res" where
  "add_msg_to_client_queue cbs a m s =
     rbind (get_client a s) (\<lambda>d.
       if send_queue_size d \<ge> max_send_queue_size d then handle_client_overflow cbs a s
       else rbind (ref_msg_to_client cbs m s) (\<lambda>s1.
         rbind (get_client a s1) (\<lambda>d1.
           let d2 = d1\<lparr>send_queue := m # send_queue d1, send_queue_size := send_queue_size d1 + 1\<rparr>;
               s2 = set_client a d2 s1 in
           if \<not> wait_for_tokens_started d2
           then rbind (core_timer cbs (TimerStart (WaitTimer a) SPICE_CHAR_DEVICE_WAIT_TOKENS_TIMEOUT) s2) (\<lambda>s3.
             rbind (get_client a s3) (\<lambda>d3. Inr (set_client a (d3\<lparr>wait_for_tokens_started := True\<rparr>) s3)))
           else Inr s2)))"

text \<open>\<open>RING_FOREACH_SAFE\<close> over the clients; the next item is read before the body runs.\<close>

fun send_msg_to :: "'e callbacks \<Rightarrow> msg \<Rightarrow> addr list \<Rightarrow> 'e char_dev \<Rightarrow> 'e char_dev res" where
  "send_msg_to cbs m [] s = Inr s"
| "send_msg_to cbs m (a # as) s =
     rbind (get_client a s) (\<lambda>d.
       rbind (if can_send_to_client d
              then spice_assert (send_queue d = [])
                (send_msg_to_client cbs m (dc_client d)
                  (set_client a (d\<lparr>num_send_tokens := num_send_tokens d - 1\<rparr>) s))
              else add_msg_to_client_queue cbs a m s) (send_msg_to cbs m as))"

definition send_msg_to_clients :: "'e callbacks \<Rightarrow> msg \<Rightarrow> 'e char_dev \<Rightarrow> 'e char_dev res" where
  "send_msg_to_clients cbs m s = send_msg_to cbs m (clients s) s"

fun read_loop :: "'e callbacks \<Rightarrow> nat \<Rightarrow> u64 \<Rightarrow> bool \<Rightarrow> 'e char_dev \<Rightarrow> (bool \<times> 'e char_dev) res" where
  "read_loop cbs fuel max_tokens did_read s =
     (if \<not> ((max_tokens \<noteq> 0 \<or> clients s = []) \<and> running s) then Inr (did_read, s)
      else case fuel of 0 \<Rightarrow> Inl NoFuel | Suc k \<Rightarrow>
        rbind (read_one_msg_from_device cbs s) (\<lambda>(msg, s1). case msg of
          None \<Rightarrow> (if during_read s1 > 1 then read_loop cbs k max_tokens did_read (s1\<lparr>during_read := 1\<rparr>)
                   else Inr (did_read, s1))
        | Some m \<Rightarrow> rbind (send_msg_to_clients cbs m s1) (\<lambda>s2.
            rbind (unref_msg_to_client cbs m s2) (\<lambda>s3.
              read_loop cbs k (max_tokens - 1) True s3))))"

definition spice_char_device_read_from_device :: "'e callbacks \<Rightarrow> nat \<Rightarrow> 'e char_dev \<Rightarrow> (bool \<times> 'e char_dev) res" where
  "spice_char_device_read_from_device cbs fuel s =
     (if \<not> running s \<or> wait_for_migrate_data s \<or> sin s = None then Inr (False, s)
      else if during_read s > 0 then Inr (False, s\<lparr>during_read := during_read s + 1\<rparr>)
      else
        let s0 = s\<lparr>during_read := during_read s + 1\<rparr> in
        rbind (max_send_tokens s0) (\<lambda>mx.
        rbind (read_loop cbs fuel mx False (state_ref s0)) (\<lambda>(did_read, s1).
          let s2 = s1\<lparr>during_read := 0\<rparr>;
              s3 = (if running s2 then s2\<lparr>active := (active s2 \<or> did_read)\<rparr> else s2) in
          Inr (did_read, state_unref s3))))"

fun send_queue_push :: "'e callbacks \<Rightarrow> nat \<Rightarrow> addr \<Rightarrow> 'e char_dev \<Rightarrow> 'e char_dev res" where
  "send_queue_push cbs fuel a s =
     rbind (get_client a s) (\<lambda>d.
       if send_queue d = [] \<or> \<not> can_send_to_client d then Inr s
       else case fuel of 0 \<Rightarrow> Inl NoFuel | Suc k \<Rightarrow>
         (let m = last (send_queue d);
              d1 = d\<lparr>send_queue := butlast (send_queue d), num_send_tokens := num_send_tokens d - 1\<rparr> in
          rbind (send_msg_to_client cbs m (dc_client d1) (set_client a d1 s)) (\<lambda>s1.
          rbind (unref_msg_to_client cbs m s1) (\<lambda>s2.
          rbind (get_client a s2) (\<lambda>d2.
            send_queue_push cbs k a (set_client a (d2\<lparr>send_queue_size := send_queue_size d2 - 1\<rparr>) s2))))))"

definition tokens_absorb :: "'e callbacks \<Rightarrow> nat \<Rightarrow> addr \<Rightarrow> u32 \<Rightarrow> 'e char_dev \<Rightarrow> 'e char_dev res" where
  "tokens_absorb cbs fuel a tokens s =
     rbind (get_client a s) (\<lambda>d0.
       let d = d0\<lparr>num_send_tokens := num_send_tokens d0 + ucast tokens\<rparr>; s1 = set_client a d s in
       rbind (if send_queue_size d \<noteq> 0
              then spice_assert (num_send_tokens d = ucast tokens) (send_queue_push cbs fuel a s1)
              else Inr s1) (\<lambda>s2.
       rbind (get_client a s2) (\<lambda>d2.
         if can_send_to_client d2
         then rbind (core_timer cbs (TimerCancel (WaitTimer a)) s2) (\<lambda>s3.
           rbind (get_client a s3) (\<lambda>d3.
           rbind (spice_char_device_read_from_device cbs fuel
                    (set_client a (d3\<lparr>wait_for_tokens_started := False\<rparr>) s3)) (\<lambda>(r, s4). Inr s4)))
         else if send_queue_size d2 \<noteq> 0
         then rbind (core_timer cbs (TimerStart (WaitTimer a) SPICE_CHAR_DEVICE_WAIT_TOKENS_TIMEOUT) s2) (\<lambda>s3.
           rbind (get_client a s3) (\<lambda>d3. Inr (set_client a (d3\<lparr>wait_for_tokens_started := True\<rparr>) s3)))
         else Inr s2)))"

definition spice_char_device_send_to_client_tokens_add :: "'e callbacks \<Rightarrow> nat \<Rightarrow> client_id \<Rightarrow> u32 \<Rightarrow>
    'e char_dev \<Rightarrow> 'e char_dev res" where
  "spice_char_device_send_to_client_tokens_add cbs fuel c tokens s =
     rbind (client_find c s) (\<lambda>found. case found of None \<Rightarrow> Inl Abort
       | Some a \<Rightarrow> tokens_absorb cbs fuel a tokens s)"

definition spice_char_device_send_to_client_tokens_set :: "'e callbacks \<Rightarrow> nat \<Rightarrow> client_id \<Rightarrow> u32 \<Rightarrow>
    'e char_dev \<Rightarrow> 'e char_dev res" where
  "spice_char_device_send_to_client_tokens_set cbs fuel c tokens s =
     rbind (client_find c s) (\<lambda>found. case found of None \<Rightarrow> Inl Abort
       | Some a \<Rightarrow> rbind (get_client a s) (\<lambda>d.
           tokens_absorb cbs fuel a tokens (set_client a (d\<lparr>num_send_tokens := 0\<rparr>) s)))"


section \<open>Clients and life cycle\<close>

fun send_queue_drop :: "'e callbacks \<Rightarrow> nat \<Rightarrow> addr \<Rightarrow> 'e char_dev \<Rightarrow> 'e char_dev res" where
  "send_queue_drop cbs fuel a s =
     rbind (get_client a s) (\<lambda>d.
       if send_queue d = [] then Inr s
       else case fuel of 0 \<Rightarrow> Inl NoFuel | Suc k \<Rightarrow>
         rbind (unref_msg_to_client cbs (last (send_queue d))
                  (set_client a (d\<lparr>send_queue := butlast (send_queue d)\<rparr>) s)) (send_queue_drop cbs k a))"

definition client_send_queue_free :: "'e callbacks \<Rightarrow> nat \<Rightarrow> addr \<Rightarrow> 'e char_dev \<Rightarrow> 'e char_dev res" where
  "client_send_queue_free cbs fuel a s =
     rbind (send_queue_drop cbs fuel a s) (\<lambda>s1.
     rbind (get_client a s1) (\<lambda>d.
       Inr (set_client a (d\<lparr>num_send_tokens := num_send_tokens d + ucast (send_queue_size d),
         send_queue_size := 0\<rparr>) s1)))"

fun drop_client_bufs :: "client_id \<Rightarrow> addr list \<Rightarrow> 'e char_dev \<Rightarrow> 'e char_dev res" where
  "drop_client_bufs c [] s = Inr s"
| "drop_client_bufs c (a # as) s =
     rbind (get_buf a s) (\<lambda>b.
       rbind (if wb_origin b = ORIGIN_CLIENT \<and> wb_client b = Some c
              then rbind (ring_take a (write_queue s)) (\<lambda>q. pool_add a (s\<lparr>write_queue := q\<rparr>))
              else Inr s) (drop_client_bufs c as))"

definition forget_cur_client :: "client_id \<Rightarrow> 'e char_dev \<Rightarrow> 'e char_dev res" where
  "forget_cur_client c s = (case cur_write_buf s of None \<Rightarrow> Inr s
     | Some a \<Rightarrow> rbind (get_buf a s) (\<lambda>b.
         Inr (if wb_origin b = ORIGIN_CLIENT \<and> wb_client b = Some c
              then set_buf a (b\<lparr>wb_origin := ORIGIN_NONE, wb_client := None\<rparr>) s else s)))"

definition spice_char_device_client_free :: "'e callbacks \<Rightarrow> nat \<Rightarrow> addr \<Rightarrow> 'e char_dev \<Rightarrow> 'e char_dev res" where
  "spice_char_device_client_free cbs fuel a s =
     rbind (get_client a s) (\<lambda>d0.
     rbind (opt_timer cbs (wait_for_tokens_timer d0) (TimerRemove (WaitTimer a)) s) (\<lambda>s1.
     rbind (client_send_queue_free cbs fuel a s1) (\<lambda>s2.
     rbind (get_client a s2) (\<lambda>d.
     rbind (drop_client_bufs (dc_client d) (write_queue s2) s2) (\<lambda>s3.
     rbind (forget_cur_client (dc_client d) s3) (\<lambda>s4.
     rbind (ring_take a (clients s4)) (\<lambda>cs.
       Inr (s4\<lparr>num_clients := num_clients s4 - 1, clients := cs, client_mem := (client_mem s4)(a := None)\<rparr>))))))))"

definition spice_char_device_state_create :: "'e callbacks \<Rightarrow> 'e \<Rightarrow> nat \<Rightarrow> bool \<Rightarrow> u32 \<Rightarrow> u32 \<Rightarrow> 'e char_dev res" where
  "spice_char_device_state_create cbs e inst notify_writable tokens_interval self_tokens =
     (let s = \<lparr>running = False, active = False, wait_for_migrate_data = False, refs = 0, freed = False,
        write_queue = [], write_bufs_pool = [], cur_write_buf = None, cur_write_buf_pos = 0,
        write_to_dev_timer = False, num_self_tokens = ucast self_tokens, clients = [], num_clients = 0,
        client_tokens_interval = ucast tokens_interval, sin = Some inst, during_read = 0, during_write = 0,
        buf_mem = Map.empty, client_mem = Map.empty, next_addr = 1, env = e\<rparr> in
      rbind (if notify_writable then Inr s
             else rbind (core_timer cbs (TimerAdd WriteTimer) s) (\<lambda>s1. Inr (s1\<lparr>write_to_dev_timer := True\<rparr>)))
        (\<lambda>s2. Inr (s2\<lparr>refs := 1\<rparr>)))"

definition spice_char_device_state_reset_dev_instance :: "nat \<Rightarrow> 'e char_dev \<Rightarrow> 'e char_dev" where
  "spice_char_device_state_reset_dev_instance inst s = s\<lparr>sin := Some inst\<rparr>"

fun free_all_clients :: "'e callbacks \<Rightarrow> nat \<Rightarrow> 'e char_dev \<Rightarrow> 'e char_dev res" where
  "free_all_clients cbs fuel s =
     (if clients s = [] then Inr s
      else case fuel of 0 \<Rightarrow> Inl NoFuel | Suc k \<Rightarrow>
        rbind (spice_char_device_client_free cbs k (last (clients s)) s) (free_all_clients cbs k))"

text \<open>
  \<open>spice_char_device_state_destroy\<close> frees the current write buffer but leaves \<open>cur_write_buf\<close> pointing
  to it while the clients are freed.
\<close>

definition spice_char_device_state_destroy :: "'e callbacks \<Rightarrow> nat \<Rightarrow> 'e char_dev \<Rightarrow> 'e char_dev res" where
  "spice_char_device_state_destroy cbs fuel s =
     rbind (reds_on_destroy cbs s) (\<lambda>s1.
     rbind (opt_timer cbs (write_to_dev_timer s1) (TimerRemove WriteTimer) s1) (\<lambda>s2.
     rbind (write_queue_free s2) (\<lambda>s3.
     rbind (write_pool_free s3) (\<lambda>s4.
     rbind (case cur_write_buf s4 of None \<Rightarrow> Inr s4 | Some a \<Rightarrow> write_buffer_free a s4) (\<lambda>s5.
     rbind (free_all_clients cbs fuel s5) (\<lambda>s6.
       Inr (state_unref (s6\<lparr>running := False\<rparr>))))))))"

definition spice_char_device_wakeup :: "'e callbacks \<Rightarrow> nat \<Rightarrow> 'e char_dev \<Rightarrow> 'e char_dev res" where
  "spice_char_device_wakeup cbs fuel s =
     rbind (spice_char_device_write_to_device cbs fuel s) (\<lambda>(n, s1).
     rbind (spice_char_device_read_from_device cbs fuel s1) (\<lambda>(r, s2). Inr s2))"

definition fresh_client :: "client_id \<Rightarrow> bool \<Rightarrow> u32 \<Rightarrow> u32 \<Rightarrow> u32 \<Rightarrow> dev_client" where
  "fresh_client c flow max_queue client_tokens send_tokens =
     \<lparr>dc_client = c, do_flow_control = flow,
      num_client_tokens = (if flow then ucast client_tokens else - 1), num_client_tokens_free = 0,
      num_send_tokens = (if flow then ucast send_tokens else - 1),
      wait_for_tokens_timer = flow, wait_for_tokens_started = False,
      send_queue = [], send_queue_size = 0, max_send_queue_size = max_queue\<rparr>"

definition spice_char_device_client_add :: "'e callbacks \<Rightarrow> nat \<Rightarrow> client_id \<Rightarrow> bool \<Rightarrow> u32 \<Rightarrow> u32 \<Rightarrow> u32 \<Rightarrow> bool \<Rightarrow>
    'e char_dev \<Rightarrow> (bool \<times> 'e char_dev) res" where
  "spice_char_device_client_add cbs fuel c flow max_queue client_tokens send_tokens wait_migrate s =
     (if wait_migrate \<and> (num_clients s > 0 \<or> active s) then Inr (False, s)
      else
        let a = next_addr s;
            s0 = s\<lparr>wait_for_migrate_data := wait_migrate, next_addr := a + 1\<rparr>;
            d = fresh_client c flow max_queue client_tokens send_tokens in
        rbind (opt_timer cbs flow (TimerAdd (WaitTimer a)) s0) (\<lambda>s1.
        rbind (ring_put a (clients s1)) (\<lambda>cs.
        rbind (spice_char_device_wakeup cbs fuel
                 ((set_client a d s1)\<lparr>clients := cs, num_clients := num_clients s1 + 1\<rparr>)) (\<lambda>s2.
          Inr (True, s2)))))"

definition spice_char_device_client_remove :: "'e callbacks \<Rightarrow> nat \<Rightarrow> client_id \<Rightarrow> 'e char_dev \<Rightarrow> 'e char_dev res" where
  "spice_char_device_client_remove cbs fuel c s =
     rbind (client_find c s) (\<lambda>found. case found of None \<Rightarrow> Inl Abort
       | Some a \<Rightarrow> rbind (spice_char_device_client_free cbs fuel a s) (\<lambda>s1.
           if wait_for_migrate_data s1
           then spice_assert (num_clients s1 = 0)
             (rbind (spice_char_device_read_from_device cbs fuel (s1\<lparr>wait_for_migrate_data := False\<rparr>))
               (\<lambda>(r, s2). Inr s2))
           else Inr s1))"

definition spice_char_device_client_exists :: "client_id \<Rightarrow> 'e char_dev \<Rightarrow> bool res" where
  "spice_char_device_client_exists c s = rbind (client_find c s) (\<lambda>found. Inr (found \<noteq> None))"

fun start_loop :: "'e callbacks \<Rightarrow> nat \<Rightarrow> 'e char_dev \<Rightarrow> 'e char_dev res" where
  "start_loop cbs fuel s = (case fuel of 0 \<Rightarrow> Inl NoFuel | Suc k \<Rightarrow>
     rbind (spice_char_device_write_to_device cbs k s) (\<lambda>(n, s1).
       if n \<noteq> 0 then start_loop cbs k s1
       else rbind (spice_char_device_read_from_device cbs k s1) (\<lambda>(r, s2).
         if r then start_loop cbs k s2 else Inr s2)))"

definition spice_char_device_start :: "'e callbacks \<Rightarrow> nat \<Rightarrow> 'e char_dev \<Rightarrow> 'e char_dev res" where
  "spice_char_device_start cbs fuel s =
     rbind (start_loop cbs fuel (state_ref (s\<lparr>running := True\<rparr>))) (\<lambda>s1. Inr (state_unref s1))"

definition spice_char_device_stop :: "'e callbacks \<Rightarrow> 'e char_dev \<Rightarrow> 'e char_dev res" where
  "spice_char_device_stop cbs s =
     opt_timer cbs (write_to_dev_timer s) (TimerCancel WriteTimer) (s\<lparr>running := False, active := False\<rparr>)"

fun release_queue :: "'e callbacks \<Rightarrow> nat \<Rightarrow> 'e char_dev \<Rightarrow> 'e char_dev res" where
  "release_queue cbs fuel s =
     (if write_queue s = [] then Inr s
      else case fuel of 0 \<Rightarrow> Inl NoFuel | Suc k \<Rightarrow>
        rbind (write_buffer_release cbs (last (write_queue s)) (s\<lparr>write_queue := butlast (write_queue s)\<rparr>))
          (release_queue cbs k))"

text \<open>\<open>RING_FOREACH\<close> over the clients: the successor is looked up after the body has run.\<close>

fun succ_in :: "addr \<Rightarrow> addr list \<Rightarrow> addr option" where
  "succ_in a (x # y # zs) = (if x = a then Some y else succ_in a (y # zs))"
| "succ_in a _ = None"

fun free_send_queues :: "'e callbacks \<Rightarrow> nat \<Rightarrow> addr option \<Rightarrow> 'e char_dev \<Rightarrow> 'e char_dev res" where
  "free_send_queues cbs fuel None s = Inr s"
| "free_send_queues cbs fuel (Some a) s = (case fuel of 0 \<Rightarrow> Inl NoFuel | Suc k \<Rightarrow>
     rbind (client_send_queue_free cbs k a s) (\<lambda>s1.
       spice_assert (a \<in> set (clients s1)) (free_send_queues cbs k (succ_in a (clients s1)) s1)))"

definition spice_char_device_reset :: "'e callbacks \<Rightarrow> nat \<Rightarrow> 'e char_dev \<Rightarrow> 'e char_dev res" where
  "spice_char_device_reset cbs fuel s =
     rbind (spice_char_device_stop cbs s) (\<lambda>s1.
     rbind (release_queue cbs fuel (s1\<lparr>wait_for_migrate_data := False\<rparr>)) (\<lambda>s2.
     rbind (case cur_write_buf s2 of None \<Rightarrow> Inr s2
            | Some a \<Rightarrow> write_buffer_release cbs a (s2\<lparr>cur_write_buf := None\<rparr>)) (\<lambda>s3.
     rbind (free_send_queues cbs fuel (if clients s3 = [] then None else Some (hd (clients s3))) s3) (\<lambda>s4.
       Inr (s4\<lparr>sin := None\<rparr>)))))"


section \<open>Migration\<close>

record mig_data =
  version :: u32
  connected :: bool
  mig_client_tokens :: u32
  mig_send_tokens :: u32
  write_size :: u32
  write_num_client_tokens :: u32
  write_data :: "u8 list"

definition SPICE_MIGRATE_DATA_CHAR_DEVICE_VERSION :: u32 where
  "SPICE_MIGRATE_DATA_CHAR_DEVICE_VERSION = 1"

definition migrate_data_marshall_empty :: mig_data where
  "migrate_data_marshall_empty = \<lparr>version = SPICE_MIGRATE_DATA_CHAR_DEVICE_VERSION, connected = False,
     mig_client_tokens = 0, mig_send_tokens = 0, write_size = 0, write_num_client_tokens = 0, write_data = []\<rparr>"

text \<open>One buffer added to the migration data: its bytes, its size, its tokens, a reference to it.\<close>

definition marshall_buf :: "client_id \<Rightarrow> addr \<Rightarrow> nat \<Rightarrow> mig_data \<times> 'e char_dev \<Rightarrow> (mig_data \<times> 'e char_dev) res" where
  "marshall_buf c a pos = (\<lambda>(m, s).
     rbind (get_buf a s) (\<lambda>b.
     rbind (write_buffer_ref a s) (\<lambda>s1.
       let len = buf_used b - of_nat pos;
           m1 = m\<lparr>write_size := write_size m + len,
                  write_data := write_data m @ take (unat len) (drop pos (wb_data b))\<rparr> in
       if wb_origin b = ORIGIN_CLIENT
       then spice_assert (wb_client b = Some c)
         (Inr (m1\<lparr>write_num_client_tokens := write_num_client_tokens m1 + token_price b\<rparr>, s1))
       else Inr (m1, s1))))"

fun marshall_bufs :: "client_id \<Rightarrow> addr list \<Rightarrow> mig_data \<times> 'e char_dev \<Rightarrow> (mig_data \<times> 'e char_dev) res" where
  "marshall_bufs c [] ms = Inr ms"
| "marshall_bufs c (a # as) ms = rbind (marshall_buf c a 0 ms) (marshall_bufs c as)"

definition spice_char_device_state_migrate_data_marshall :: "'e char_dev \<Rightarrow> (mig_data \<times> 'e char_dev) res" where
  "spice_char_device_state_migrate_data_marshall s =
     spice_assert (num_clients s = 1)
       (if clients s = [] then Inl NullDeref
        else rbind (get_client (last (clients s)) s) (\<lambda>d.
          spice_assert (send_queue_size d = 0)
            (let m = \<lparr>version = SPICE_MIGRATE_DATA_CHAR_DEVICE_VERSION, connected = True,
                   mig_client_tokens = ucast (num_client_tokens d), mig_send_tokens = ucast (num_send_tokens d),
                   write_size = 0, write_num_client_tokens = 0, write_data = []\<rparr> in
             rbind (case cur_write_buf s of None \<Rightarrow> Inr (m, s)
                    | Some a \<Rightarrow> marshall_buf (dc_client d) a (cur_write_buf_pos s) (m, s)) (\<lambda>ms.
               marshall_bufs (dc_client d) (rev (write_queue s)) ms))))"

definition restore_write :: "'e callbacks \<Rightarrow> client_id \<Rightarrow> mig_data \<Rightarrow> 'e char_dev \<Rightarrow> 'e char_dev res" where
  "restore_write cbs c m s =
     (if write_size m = 0 then Inr s
      else rbind (if write_num_client_tokens m \<noteq> 0
                  then write_buffer_get_full cbs (Some c) (write_size m) ORIGIN_CLIENT (write_num_client_tokens m) s
                  else write_buffer_get_full cbs None (write_size m) ORIGIN_SERVER 0 s) (\<lambda>(r, s1).
        rbind (deref r) (\<lambda>a. rbind (get_buf a s1) (\<lambda>b.
          if length (write_data m) < unat (write_size m) then Inl OutOfBounds
          else Inr ((set_buf a (b\<lparr>wb_data := take (unat (write_size m)) (write_data m) @ drop (unat (write_size m)) (wb_data b),
                 buf_used := write_size m\<rparr>) s1)\<lparr>cur_write_buf := Some a, cur_write_buf_pos := 0\<rparr>)))))"

definition spice_char_device_state_restore :: "'e callbacks \<Rightarrow> nat \<Rightarrow> mig_data \<Rightarrow> 'e char_dev \<Rightarrow> 'e char_dev res" where
  "spice_char_device_state_restore cbs fuel m s =
     spice_assert (num_clients s = 1 \<and> wait_for_migrate_data s)
       (if clients s = [] then Inl NullDeref
        else let a = last (clients s) in
          rbind (get_client a s) (\<lambda>d.
          spice_assert (version m \<le> SPICE_MIGRATE_DATA_CHAR_DEVICE_VERSION)
            (spice_assert (cur_write_buf s = None \<and> write_queue s = [])
              (spice_assert (connected m)
                (let window = (ucast (num_client_tokens d) :: u32);
                     d1 = d\<lparr>num_client_tokens := ucast (mig_client_tokens m),
                            num_client_tokens_free := ucast (window - mig_client_tokens m - write_num_client_tokens m),
                            num_send_tokens := ucast (mig_send_tokens m)\<rparr> in
                 rbind (restore_write cbs (dc_client d1) m (set_client a d1 s)) (\<lambda>s1.
                   spice_char_device_wakeup cbs fuel (s1\<lparr>wait_for_migrate_data := False\<rparr>)))))))"

end
