(* ===== verification/Char_Device_Inv.thy ===== *)
theory Char_Device_Inv
  imports Char_Device
begin

text \<open>
  Invariants of character devices under re-entrant callbacks. The locale \<open>dev_invariant\<close> states what an
  invariant must survive (irrelevant updates, releasing and taking a buffer, freeing a client) and
  proves once that every loop and entry point of the device then keeps it, whatever the callbacks
  do as long as they keep it too. It is interpreted on the token accounting of a client and on that
  of the server's own messages.
\<close>

declare write_loop.simps [simp del] read_loop.simps [simp del] send_queue_push.simps [simp del]
  send_queue_drop.simps [simp del] free_all_clients.simps [simp del] start_loop.simps [simp del]
  release_queue.simps [simp del] free_send_queues.simps [simp del]

lemmas get_defs [simp] = get_buf_def get_client_def

definition keeps :: "('e char_dev \<Rightarrow> bool) \<Rightarrow> ('e char_dev \<Rightarrow> 'e char_dev res) \<Rightarrow> bool" where
  "keeps I f = (\<forall>s s'. I s \<longrightarrow> f s = Inr s' \<longrightarrow> I s')"

definition keeps_val :: "('e char_dev \<Rightarrow> bool) \<Rightarrow> ('e char_dev \<Rightarrow> ('a \<times> 'e char_dev) res) \<Rightarrow> bool" where
  "keeps_val I f = (\<forall>s r s'. I s \<longrightarrow> f s = Inr (r, s') \<longrightarrow> I s')"

lemma keepsD: "keeps I f \<Longrightarrow> I s \<Longrightarrow> f s = Inr s' \<Longrightarrow> I s'"
  by (simp add: keeps_def)

lemma keeps_valD: "keeps_val I f \<Longrightarrow> I s \<Longrightarrow> f s = Inr (r, s') \<Longrightarrow> I s'"
  by (simp add: keeps_val_def)

text \<open>
  The contract of the callbacks: each keeps the invariant, and \<open>remove_client\<close>, which asks the channel
  to disconnect the client, does not move buffers while it runs.
\<close>

definition cbs_keep :: "('e char_dev \<Rightarrow> bool) \<Rightarrow> 'e callbacks \<Rightarrow> bool" where
  "cbs_keep I cbs =
     (keeps_val I (read_one_msg_from_device cbs) \<and> (\<forall>m. keeps I (ref_msg_to_client cbs m)) \<and>
      (\<forall>m. keeps I (unref_msg_to_client cbs m)) \<and> (\<forall>m c. keeps I (send_msg_to_client cbs m c)) \<and>
      (\<forall>c n. keeps I (send_tokens_to_client cbs c n)) \<and>
      (\<forall>f. on_free_self_token cbs = Some f \<longrightarrow> keeps I f) \<and> (\<forall>c. keeps I (remove_client cbs c)) \<and>
      (\<forall>bs. keeps_val I (sif_write cbs bs)) \<and> (\<forall>t. keeps I (core_timer cbs t)) \<and>
      (\<forall>c s s'. remove_client cbs c s = Inr s' \<longrightarrow>
        buf_mem s' = buf_mem s \<and> write_bufs_pool s' = write_bufs_pool s))"

lemma cbs_keepD:
  assumes "cbs_keep I cbs" "I s"
  shows "read_one_msg_from_device cbs s = Inr (m, s') \<Longrightarrow> I s'"
    "ref_msg_to_client cbs x s = Inr s' \<Longrightarrow> I s'"
    "unref_msg_to_client cbs x s = Inr s' \<Longrightarrow> I s'"
    "send_msg_to_client cbs x c s = Inr s' \<Longrightarrow> I s'"
    "send_tokens_to_client cbs c n s = Inr s' \<Longrightarrow> I s'"
    "on_free_self_token cbs = Some f \<Longrightarrow> f s = Inr s' \<Longrightarrow> I s'"
    "remove_client cbs c s = Inr s' \<Longrightarrow> I s'"
    "sif_write cbs bs s = Inr (k, s') \<Longrightarrow> I s'"
    "core_timer cbs t s = Inr s' \<Longrightarrow> I s'"
  using assms unfolding cbs_keep_def keeps_def keeps_val_def by metis+

definition core_eq :: "'e char_dev \<Rightarrow> 'e char_dev \<Rightarrow> bool" where
  "core_eq s s' = (buf_mem s' = buf_mem s \<and> write_bufs_pool s' = write_bufs_pool s \<and> clients s' = clients s \<and>
     client_mem s' = client_mem s \<and> next_addr s' = next_addr s \<and> num_self_tokens s' = num_self_tokens s)"

definition same_account :: "dev_client \<Rightarrow> dev_client \<Rightarrow> bool" where
  "same_account d d' = (dc_client d' = dc_client d \<and> do_flow_control d' = do_flow_control d \<and>
     num_client_tokens d' = num_client_tokens d \<and> num_client_tokens_free d' = num_client_tokens_free d)"

locale dev_invariant =
  fixes I :: "'e char_dev \<Rightarrow> bool"
    and new_client :: "client_id \<Rightarrow> bool"
  assumes frame: "I s \<Longrightarrow> core_eq s s' \<Longrightarrow> I s'"
    and client_frame: "I s \<Longrightarrow> client_mem s a = Some d \<Longrightarrow> same_account d d' \<Longrightarrow> I (set_client a d' s)"
    and release: "cbs_keep I cbs \<Longrightarrow> I s \<Longrightarrow> write_buffer_release cbs a s = Inr s' \<Longrightarrow> I s'"
    and get: "cbs_keep I cbs \<Longrightarrow> I s \<Longrightarrow> write_buffer_get_full cbs cl sz orig 0 s = Inr (r, s') \<Longrightarrow> I s'"
    and pool_stale: "I s \<Longrightarrow> buf_mem s a = Some b \<Longrightarrow> wb_origin b = ORIGIN_CLIENT \<Longrightarrow>
      (case wb_client b of None \<Rightarrow> Inr None | Some c \<Rightarrow> client_find c s) = Inr None \<Longrightarrow>
      pool_add a s = Inr s' \<Longrightarrow> I s'"
    and client_gone: "I s \<Longrightarrow> client_mem s a = Some d \<Longrightarrow>
      drop_client_bufs (dc_client d) (write_queue s) s = Inr s1 \<Longrightarrow> forget_cur_client (dc_client d) s1 = Inr s2 \<Longrightarrow>
      a \<in> set (clients s2) \<Longrightarrow>
      I (s2\<lparr>clients := remove1 a (clients s2), client_mem := (client_mem s2)(a := None)\<rparr>)"
    and client_new: "I s \<Longrightarrow> new_client (dc_client d) \<Longrightarrow> a \<notin> set (clients s) \<Longrightarrow>
      I ((set_client a d s)\<lparr>clients := a # clients s\<rparr>)"
    and alloc: "I s \<Longrightarrow> I (s\<lparr>next_addr := Suc (next_addr s)\<rparr>)"
begin

lemma I_upd [simp]:
  "I (s\<lparr>running := x1\<rparr>) = I s" "I (s\<lparr>active := x2\<rparr>) = I s" "I (s\<lparr>wait_for_migrate_data := x3\<rparr>) = I s"
  "I (s\<lparr>refs := x4\<rparr>) = I s" "I (s\<lparr>freed := x5\<rparr>) = I s" "I (s\<lparr>write_queue := x6\<rparr>) = I s"
  "I (s\<lparr>cur_write_buf := x7\<rparr>) = I s" "I (s\<lparr>cur_write_buf_pos := x8\<rparr>) = I s"
  "I (s\<lparr>num_clients := x9\<rparr>) = I s" "I (s\<lparr>sin := x10\<rparr>) = I s" "I (s\<lparr>during_read := x11\<rparr>) = I s"
  "I (s\<lparr>during_write := x12\<rparr>) = I s" "I (s\<lparr>write_to_dev_timer := x13\<rparr>) = I s"
  by (auto simp: core_eq_def intro: frame)

lemma I_refs [simp]: "I (state_ref s) = I s" "I (state_unref s) = I s"
  by (simp_all add: state_ref_def state_unref_def Let_def)

lemma I_set_client:
  "I s \<Longrightarrow> client_mem s a = Some d \<Longrightarrow> same_account d d' \<Longrightarrow> I (set_client a d' s)"
  by (rule client_frame)

lemma I_opt_timer: "cbs_keep I cbs \<Longrightarrow> I s \<Longrightarrow> opt_timer cbs b t s = Inr s' \<Longrightarrow> I s'"
  by (auto simp: opt_timer_def dest: cbs_keepD(9) split: if_splits)

lemma I_next_write_buf: "I s \<Longrightarrow> next_write_buf s = Some s' \<Longrightarrow> I s'"
  by (auto simp: next_write_buf_def split: option.splits if_splits)

lemma I_write_loop:
  "cbs_keep I cbs \<Longrightarrow> I s \<Longrightarrow> write_loop cbs fuel tot s = Inr (t, s') \<Longrightarrow> I s'"
proof (induction fuel arbitrary: tot s)
  case 0
  then show ?case by (simp add: write_loop.simps [of cbs 0] split: if_splits)
next
  case (Suc k)
  note cb = Suc.prems(1)
  show ?case
  proof (cases "running s")
    case False
    then show ?thesis using Suc.prems by (simp add: write_loop.simps [of cbs "Suc k"])
  next
    case run: True
    note unf = write_loop.simps [of cbs "Suc k" tot s] run
    show ?thesis
    proof (cases "next_write_buf s")
      case None
      then show ?thesis using Suc.prems by (simp add: unf)
    next
      case (Some s1)
      then obtain bytes len n s2 where s2: "cur_chunk s1 = Inr (bytes, len)" "sif_write cbs bytes s1 = Inr (n, s2)"
        using Suc.prems(3) by (auto simp: unf)
      have i2: "I s2" using cbs_keepD(8) [OF cb I_next_write_buf [OF Suc.prems(2) Some] s2(2)] .
      have step: "write_loop cbs (Suc k) tot s =
        (if n \<le> 0 then (if during_write s2 > 1 then write_loop cbs k tot (s2\<lparr>during_write := 1\<rparr>) else Inr (tot, s2))
         else if len - of_int n = 0
         then rbind (deref (cur_write_buf s2)) (\<lambda>a.
           rbind (write_buffer_release cbs a (s2\<lparr>cur_write_buf := None\<rparr>)) (write_loop cbs k (tot + n)))
         else write_loop cbs k (tot + n) (s2\<lparr>cur_write_buf_pos := cur_write_buf_pos s2 + nat n\<rparr>))"
        using s2 Some by (simp add: unf)
      show ?thesis
        using Suc.prems(3) i2 Suc.IH [OF cb] Suc.IH [OF cb, of "s2\<lparr>during_write := 1\<rparr>"]
          Suc.IH [OF cb, of "s2\<lparr>cur_write_buf_pos := cur_write_buf_pos s2 + nat n\<rparr>"]
          release [OF cb, of "s2\<lparr>cur_write_buf := None\<rparr>"]
        by (auto simp: step split: if_splits) meson
    qed
  qed
qed

lemma I_write_finish: "cbs_keep I cbs \<Longrightarrow> I s \<Longrightarrow> write_finish cbs t s = Inr s' \<Longrightarrow> I s'"
  by (auto simp: write_finish_def dest: I_opt_timer split: if_splits)

lemma I_write_to_device:
  assumes cb: "cbs_keep I cbs" and "I s" "spice_char_device_write_to_device cbs fuel s = Inr (n, s')"
  shows "I s'"
proof (cases "\<not> running s \<or> wait_for_migrate_data s \<or> sin s = None \<or> during_write s > 0")
  case True
  then show ?thesis using assms(2,3) by (auto simp: spice_char_device_write_to_device_def split: if_splits)
next
  case False
  then obtain s1 s2 where
    s1: "opt_timer cbs (write_to_dev_timer s) (TimerCancel WriteTimer)
           (state_ref (s\<lparr>during_write := during_write s + 1\<rparr>)) = Inr s1"
    "write_loop cbs fuel 0 s1 = Inr (n, s2)" "write_finish cbs n s2 = Inr s'"
    using assms(3) by (auto simp: spice_char_device_write_to_device_def)
  have "I s1" using I_opt_timer [OF cb _ s1(1)] assms(2) by simp
  from I_write_finish [OF cb I_write_loop [OF cb this s1(2)] s1(3)] show ?thesis .
qed

lemma I_overflow: "cbs_keep I cbs \<Longrightarrow> I s \<Longrightarrow> handle_client_overflow cbs a s = Inr s' \<Longrightarrow> I s'"
  by (auto simp: handle_client_overflow_def dest: cbs_keepD(7))

lemma I_mark_started:
  assumes cb: "cbs_keep I cbs" and "I s"
    and "rbind (core_timer cbs t s) (\<lambda>s3. rbind (get_client a s3) (\<lambda>d3.
      Inr (set_client a (d3\<lparr>wait_for_tokens_started := b\<rparr>) s3))) = Inr s'"
  shows "I s'"
  using assms(2,3) by (auto simp: same_account_def intro!: I_set_client dest: cbs_keepD(9) [OF cb])

lemma I_add_msg:
  assumes cb: "cbs_keep I cbs" and "I s" "add_msg_to_client_queue cbs a m s = Inr s'"
  shows "I s'"
proof -
  obtain d where d: "client_mem s a = Some d" using assms(3) by (auto simp: add_msg_to_client_queue_def)
  show ?thesis
  proof (cases "send_queue_size d \<ge> max_send_queue_size d")
    case True
    then show ?thesis using assms d I_overflow [OF cb] by (auto simp: add_msg_to_client_queue_def)
  next
    case False
    then obtain s1 d1 where s1: "ref_msg_to_client cbs m s = Inr s1" "client_mem s1 a = Some d1"
      using assms(3) d by (auto simp: add_msg_to_client_queue_def)
    let ?s2 = "set_client a (d1\<lparr>send_queue := m # send_queue d1, send_queue_size := send_queue_size d1 + 1\<rparr>) s1"
    have i2: "I ?s2"
      using I_set_client [OF cbs_keepD(2) [OF cb assms(2) s1(1)] s1(2)] by (simp add: same_account_def)
    show ?thesis
      using assms(3) d False s1 i2 I_mark_started [OF cb i2]
      by (auto simp: add_msg_to_client_queue_def Let_def split: if_splits)
  qed
qed

lemma I_send_msg_to: "cbs_keep I cbs \<Longrightarrow> I s \<Longrightarrow> send_msg_to cbs m as s = Inr s' \<Longrightarrow> I s'"
proof (induction as arbitrary: s)
  case (Cons a as)
  obtain d s1 where d: "client_mem s a = Some d" "send_msg_to cbs m as s1 = Inr s'"
    "(if can_send_to_client d then spice_assert (send_queue d = []) (send_msg_to_client cbs m (dc_client d)
       (set_client a (d\<lparr>num_send_tokens := num_send_tokens d - 1\<rparr>) s)) else add_msg_to_client_queue cbs a m s) = Inr s1"
    using Cons.prems(3) by auto
  have "I (set_client a (d\<lparr>num_send_tokens := num_send_tokens d - 1\<rparr>) s)"
    using Cons.prems(2) d(1) by (rule I_set_client) (simp add: same_account_def)
  then have "I s1"
    using d(3) cbs_keepD(4) [OF Cons.prems(1)] I_add_msg [OF Cons.prems(1,2)] by (auto split: if_splits)
  from Cons.IH [OF Cons.prems(1) this d(2)] show ?case .
qed simp

lemma I_read_loop:
  "cbs_keep I cbs \<Longrightarrow> I s \<Longrightarrow> read_loop cbs fuel mx did s = Inr (r, s') \<Longrightarrow> I s'"
proof (induction fuel arbitrary: mx did s)
  case 0
  then show ?case by (simp add: read_loop.simps [of cbs 0] split: if_splits)
next
  case (Suc k)
  note cb = Suc.prems(1)
  show ?case
  proof (cases "(mx \<noteq> 0 \<or> clients s = []) \<and> running s")
    case False
    then show ?thesis using Suc.prems by (auto simp: read_loop.simps [of cbs "Suc k"])
  next
    case True
    then obtain m s1 where m: "read_one_msg_from_device cbs s = Inr (m, s1)"
      using Suc.prems(3) by (auto simp: read_loop.simps [of cbs "Suc k"])
    have i1: "I s1" by (rule cbs_keepD(1) [OF cb Suc.prems(2) m])
    show ?thesis
    proof (cases m)
      case None
      then show ?thesis
        using Suc.prems(3) True m i1 Suc.IH [OF cb, of "s1\<lparr>during_read := 1\<rparr>"]
        by (auto simp: read_loop.simps [of cbs "Suc k"] split: if_splits)
    next
      case (Some x)
      then obtain s2 s3 where "send_msg_to_clients cbs x s1 = Inr s2" "unref_msg_to_client cbs x s2 = Inr s3"
        "read_loop cbs k (mx - 1) True s3 = Inr (r, s')"
        using Suc.prems(3) True m by (auto simp: read_loop.simps [of cbs "Suc k"])
      then show ?thesis
        using Suc.IH [OF cb] cbs_keepD(3) [OF cb] I_send_msg_to [OF cb i1] unfolding send_msg_to_clients_def by blast
    qed
  qed
qed

lemma I_read_from_device:
  assumes cb: "cbs_keep I cbs" and "I s" "spice_char_device_read_from_device cbs fuel s = Inr (r, s')"
  shows "I s'"
proof (cases "\<not> running s \<or> wait_for_migrate_data s \<or> sin s = None \<or> during_read s > 0")
  case True
  then show ?thesis using assms(2,3) by (auto simp: spice_char_device_read_from_device_def split: if_splits)
next
  case False
  then obtain mx s1 where s1: "read_loop cbs fuel mx False (state_ref (s\<lparr>during_read := during_read s + 1\<rparr>)) = Inr (r, s1)"
    "I s' = I s1"
    using assms(3) by (auto simp: spice_char_device_read_from_device_def Let_def)
  then show ?thesis using I_read_loop [OF cb _ s1(1)] assms(2) by simp
qed

lemma I_wakeup: "cbs_keep I cbs \<Longrightarrow> I s \<Longrightarrow> spice_char_device_wakeup cbs fuel s = Inr s' \<Longrightarrow> I s'"
  by (auto simp: spice_char_device_wakeup_def dest: I_write_to_device I_read_from_device)

lemma I_start_loop: "cbs_keep I cbs \<Longrightarrow> I s \<Longrightarrow> start_loop cbs fuel s = Inr s' \<Longrightarrow> I s'"
proof (induction fuel arbitrary: s)
  case (Suc k)
  then obtain n s1 where w: "spice_char_device_write_to_device cbs k s = Inr (n, s1)"
    by (auto simp: start_loop.simps [of cbs "Suc k"])
  have i1: "I s1" by (rule I_write_to_device [OF Suc.prems(1,2) w])
  show ?case
  proof (cases "n \<noteq> 0")
    case True
    then show ?thesis using Suc.IH [OF Suc.prems(1) i1] Suc.prems(3) w by (simp add: start_loop.simps [of cbs "Suc k"])
  next
    case False
    then obtain r s2 where r: "spice_char_device_read_from_device cbs k s1 = Inr (r, s2)"
      using Suc.prems(3) w by (auto simp: start_loop.simps [of cbs "Suc k"])
    have "I s2" by (rule I_read_from_device [OF Suc.prems(1) i1 r])
    then show ?thesis using Suc.IH [OF Suc.prems(1)] Suc.prems(3) w r False
      by (auto simp: start_loop.simps [of cbs "Suc k"] split: if_splits)
  qed
qed (simp add: start_loop.simps [of cbs 0])

lemma I_send_queue_push: "cbs_keep I cbs \<Longrightarrow> I s \<Longrightarrow> send_queue_push cbs fuel a s = Inr s' \<Longrightarrow> I s'"
proof (induction fuel arbitrary: s)
  case 0
  then show ?case by (auto simp: send_queue_push.simps [of cbs 0] split: if_splits)
next
  case (Suc k)
  note cb = Suc.prems(1)
  obtain d where d: "client_mem s a = Some d"
    using Suc.prems(3) by (auto simp: send_queue_push.simps [of cbs "Suc k"])
  show ?case
  proof (cases "send_queue d = [] \<or> \<not> can_send_to_client d")
    case True
    then show ?thesis using Suc.prems d by (auto simp: send_queue_push.simps [of cbs "Suc k"])
  next
    case False
    let ?d = "d\<lparr>send_queue := butlast (send_queue d), num_send_tokens := num_send_tokens d - 1\<rparr>"
    obtain s1 s2 d2 where s1: "send_msg_to_client cbs (last (send_queue d)) (dc_client d) (set_client a ?d s) = Inr s1"
      "unref_msg_to_client cbs (last (send_queue d)) s1 = Inr s2" "client_mem s2 a = Some d2"
      "send_queue_push cbs k a (set_client a (d2\<lparr>send_queue_size := send_queue_size d2 - 1\<rparr>) s2) = Inr s'"
      using Suc.prems(3) d False by (auto simp: send_queue_push.simps [of cbs "Suc k"] Let_def)
    have "I (set_client a ?d s)" using Suc.prems(2) d by (rule I_set_client) (simp add: same_account_def)
    from cbs_keepD(3) [OF cb cbs_keepD(4) [OF cb this s1(1)] s1(2)] s1(3)
    have "I (set_client a (d2\<lparr>send_queue_size := send_queue_size d2 - 1\<rparr>) s2)"
      by (rule I_set_client) (simp add: same_account_def)
    from Suc.IH [OF cb this s1(4)] show ?thesis .
  qed
qed

lemma I_tokens_absorb:
  assumes cb: "cbs_keep I cbs" and "I s" "tokens_absorb cbs fuel a n s = Inr s'"
  shows "I s'"
proof -
  obtain d0 where d0: "client_mem s a = Some d0" using assms(3) by (auto simp: tokens_absorb_def)
  let ?d = "d0\<lparr>num_send_tokens := num_send_tokens d0 + ucast n\<rparr>"
  have i1: "I (set_client a ?d s)" using assms(2) d0 by (rule I_set_client) (simp add: same_account_def)
  obtain s2 where s2: "(if send_queue_size ?d \<noteq> 0 then spice_assert (num_send_tokens ?d = ucast n)
      (send_queue_push cbs fuel a (set_client a ?d s)) else Inr (set_client a ?d s)) = Inr s2"
    using assms(3) d0 by (auto simp: tokens_absorb_def Let_def split: if_splits)
  then have i2: "I s2" using i1 I_send_queue_push [OF cb i1] by (auto split: if_splits)
  obtain d2 where d2: "client_mem s2 a = Some d2"
    using assms(3) d0 s2 by (auto simp: tokens_absorb_def Let_def)
  show ?thesis
  proof (cases "can_send_to_client d2")
    case True
    then obtain s3 d3 r where s3: "core_timer cbs (TimerCancel (WaitTimer a)) s2 = Inr s3" "client_mem s3 a = Some d3"
      "spice_char_device_read_from_device cbs fuel (set_client a (d3\<lparr>wait_for_tokens_started := False\<rparr>) s3) = Inr (r, s')"
      using assms(3) d0 s2 d2 by (auto simp: tokens_absorb_def Let_def)
    have "I (set_client a (d3\<lparr>wait_for_tokens_started := False\<rparr>) s3)"
      using cbs_keepD(9) [OF cb i2 s3(1)] s3(2) by (rule I_set_client) (simp add: same_account_def)
    from I_read_from_device [OF cb this s3(3)] show ?thesis .
  next
    case False
    then show ?thesis
      using assms(3) d0 s2 d2 i2 I_mark_started [OF cb i2] by (auto simp: tokens_absorb_def Let_def split: if_splits)
  qed
qed

lemma I_tokens_add: "cbs_keep I cbs \<Longrightarrow> I s \<Longrightarrow> spice_char_device_send_to_client_tokens_add cbs fuel c n s = Inr s' \<Longrightarrow> I s'"
  by (auto simp: spice_char_device_send_to_client_tokens_add_def split: option.splits dest: I_tokens_absorb)

lemma I_tokens_set:
  assumes "cbs_keep I cbs" "I s" "spice_char_device_send_to_client_tokens_set cbs fuel c n s = Inr s'"
  shows "I s'"
proof -
  obtain a d where a: "client_mem s a = Some d"
    "tokens_absorb cbs fuel a n (set_client a (d\<lparr>num_send_tokens := 0\<rparr>) s) = Inr s'"
    using assms(3) by (auto simp: spice_char_device_send_to_client_tokens_set_def split: option.splits)
  have "I (set_client a (d\<lparr>num_send_tokens := 0\<rparr>) s)"
    using assms(2) a(1) by (rule I_set_client) (simp add: same_account_def)
  from I_tokens_absorb [OF assms(1) this a(2)] show ?thesis .
qed

lemma I_buffer_add:
  assumes cb: "cbs_keep I cbs" and "I s" "spice_char_device_write_buffer_add cbs fuel a s = Inr s'"
  shows "I s'"
proof -
  obtain b found where b: "buf_mem s a = Some b"
    "(if wb_origin b = ORIGIN_CLIENT then (case wb_client b of None \<Rightarrow> Inr None | Some c \<Rightarrow> client_find c s)
      else Inr (Some a)) = Inr found"
    using assms(3) by (auto simp: spice_char_device_write_buffer_add_def)
  show ?thesis
  proof (cases found)
    case None
    then show ?thesis
      using assms(2,3) b pool_stale [OF assms(2) b(1)]
      by (auto simp: spice_char_device_write_buffer_add_def split: if_splits)
  next
    case (Some x)
    then obtain n where "spice_char_device_write_to_device cbs fuel (s\<lparr>write_queue := a # write_queue s\<rparr>) = Inr (n, s')"
      using assms(3) b by (auto simp: spice_char_device_write_buffer_add_def)
    from I_write_to_device [OF cb _ this] show ?thesis using assms(2) by simp
  qed
qed

lemma I_write_retry: "cbs_keep I cbs \<Longrightarrow> I s \<Longrightarrow> spice_char_dev_write_retry cbs fuel s = Inr s' \<Longrightarrow> I s'"
  by (auto simp: spice_char_dev_write_retry_def dest: I_opt_timer I_write_to_device)

lemma I_send_queue_drop: "cbs_keep I cbs \<Longrightarrow> I s \<Longrightarrow> send_queue_drop cbs fuel a s = Inr s' \<Longrightarrow> I s'"
proof (induction fuel arbitrary: s)
  case 0
  then show ?case by (auto simp: send_queue_drop.simps [of cbs 0] split: if_splits)
next
  case (Suc k)
  obtain d where d: "client_mem s a = Some d"
    using Suc.prems(3) by (auto simp: send_queue_drop.simps [of cbs "Suc k"])
  have "I (set_client a (d\<lparr>send_queue := butlast (send_queue d)\<rparr>) s)"
    using Suc.prems(2) d by (rule I_set_client) (simp add: same_account_def)
  then show ?case
    using Suc.prems d Suc.IH [OF Suc.prems(1)] cbs_keepD(3) [OF Suc.prems(1)]
    by (auto simp: send_queue_drop.simps [of cbs "Suc k"] split: if_splits)
qed

lemma I_client_send_queue_free:
  assumes "cbs_keep I cbs" "I s" "client_send_queue_free cbs fuel a s = Inr s'"
  shows "I s'"
  using assms I_send_queue_drop [OF assms(1,2)]
  by (auto simp: client_send_queue_free_def same_account_def intro!: I_set_client)

lemma I_client_free:
  assumes cb: "cbs_keep I cbs" and "I s" "spice_char_device_client_free cbs fuel a s = Inr s'"
  shows "I s'"
proof -
  obtain d0 s1 s2 d s3 s4 where s: "client_mem s a = Some d0"
    "opt_timer cbs (wait_for_tokens_timer d0) (TimerRemove (WaitTimer a)) s = Inr s1"
    "client_send_queue_free cbs fuel a s1 = Inr s2" "client_mem s2 a = Some d"
    "drop_client_bufs (dc_client d) (write_queue s2) s2 = Inr s3" "forget_cur_client (dc_client d) s3 = Inr s4"
    "a \<in> set (clients s4)"
    "s' = s4\<lparr>num_clients := num_clients s4 - 1, clients := remove1 a (clients s4),
       client_mem := (client_mem s4)(a := None)\<rparr>"
    using assms(3) by (auto simp: spice_char_device_client_free_def ring_take_def)
  have "I s2" by (rule I_client_send_queue_free [OF cb I_opt_timer [OF cb assms(2) s(2)] s(3)])
  from client_gone [OF this s(4-7)] show ?thesis by (rule frame) (simp add: core_eq_def s(8))
qed

lemma I_client_remove:
  assumes "cbs_keep I cbs" "I s" "spice_char_device_client_remove cbs fuel c s = Inr s'"
  shows "I s'"
proof -
  obtain a s1 where f: "client_find c s = Inr (Some a)" and s1: "spice_char_device_client_free cbs fuel a s = Inr s1"
    using assms(3) by (auto simp: spice_char_device_client_remove_def split: option.splits)
  have "I s1" by (rule I_client_free [OF assms(1,2) s1])
  moreover have "s' = s1 \<or> (\<exists>r. spice_char_device_read_from_device cbs fuel (s1\<lparr>wait_for_migrate_data := False\<rparr>) = Inr (r, s'))"
    using assms(3) f s1 by (auto simp: spice_char_device_client_remove_def split: if_splits)
  ultimately show ?thesis using I_read_from_device [OF assms(1), of "s1\<lparr>wait_for_migrate_data := False\<rparr>"] by auto
qed

lemma I_client_add:
  assumes cb: "cbs_keep I cbs" and "I s" "new_client c"
    and "spice_char_device_client_add cbs fuel c flow mq ct st wm s = Inr (r, s')"
  shows "I s'"
proof (cases "wm \<and> (num_clients s > 0 \<or> active s)")
  case True
  then show ?thesis using assms(2,4) by (auto simp: spice_char_device_client_add_def)
next
  case False
  let ?a = "next_addr s" and ?d = "fresh_client c flow mq ct st"
  let ?s0 = "s\<lparr>wait_for_migrate_data := wm, next_addr := Suc (next_addr s)\<rparr>"
  obtain s1 where s1: "opt_timer cbs flow (TimerAdd (WaitTimer ?a)) ?s0 = Inr s1" "?a \<notin> set (clients s1)"
    "spice_char_device_wakeup cbs fuel
      ((set_client ?a ?d s1)\<lparr>clients := ?a # clients s1, num_clients := num_clients s1 + 1\<rparr>) = Inr s'"
    using assms(4) False by (auto simp: spice_char_device_client_add_def Let_def ring_put_def)
  have "I ?s0" by (rule frame [OF alloc [OF assms(2)]]) (simp add: core_eq_def)
  from I_opt_timer [OF cb this s1(1)] have "I ((set_client ?a ?d s1)\<lparr>clients := ?a # clients s1\<rparr>)"
    using assms(3) s1(2) by (intro client_new) (auto simp: fresh_client_def)
  then have "I ((set_client ?a ?d s1)\<lparr>clients := ?a # clients s1, num_clients := num_clients s1 + 1\<rparr>)"
    by (rule frame) (simp add: core_eq_def)
  from I_wakeup [OF cb this s1(3)] show ?thesis .
qed

lemma I_stop: "cbs_keep I cbs \<Longrightarrow> I s \<Longrightarrow> spice_char_device_stop cbs s = Inr s' \<Longrightarrow> I s'"
  unfolding spice_char_device_stop_def by (erule I_opt_timer, rule frame) (auto simp: core_eq_def)

lemma I_start: "cbs_keep I cbs \<Longrightarrow> I s \<Longrightarrow> spice_char_device_start cbs fuel s = Inr s' \<Longrightarrow> I s'"
  using I_start_loop [of cbs "state_ref (s\<lparr>running := True\<rparr>)" fuel] by (auto simp: spice_char_device_start_def)

lemma I_release_queue: "cbs_keep I cbs \<Longrightarrow> I s \<Longrightarrow> release_queue cbs fuel s = Inr s' \<Longrightarrow> I s'"
proof (induction fuel arbitrary: s)
  case 0
  then show ?case by (simp add: release_queue.simps [of cbs 0] split: if_splits)
next
  case (Suc k)
  show ?case
  proof (cases "write_queue s = []")
    case True
    then show ?thesis using Suc.prems by (simp add: release_queue.simps [of cbs "Suc k"])
  next
    case False
    then obtain s1 where "write_buffer_release cbs (last (write_queue s)) (s\<lparr>write_queue := butlast (write_queue s)\<rparr>) = Inr s1"
      "release_queue cbs k s1 = Inr s'"
      using Suc.prems(3) by (auto simp: release_queue.simps [of cbs "Suc k"])
    then show ?thesis using Suc.IH [OF Suc.prems(1)] release [OF Suc.prems(1), of "s\<lparr>write_queue := butlast (write_queue s)\<rparr>"]
      Suc.prems(2) by auto
  qed
qed

lemma I_free_send_queues: "cbs_keep I cbs \<Longrightarrow> I s \<Longrightarrow> free_send_queues cbs fuel p s = Inr s' \<Longrightarrow> I s'"
proof (induction fuel arbitrary: p s)
  case 0
  then show ?case by (cases p) (auto simp: free_send_queues.simps)
next
  case (Suc k)
  show ?case
  proof (cases p)
    case (Some a)
    then obtain s1 where "client_send_queue_free cbs k a s = Inr s1"
      "free_send_queues cbs k (succ_in a (clients s1)) s1 = Inr s'"
      using Suc.prems(3) by (auto simp: free_send_queues.simps)
    then show ?thesis using Suc.IH [OF Suc.prems(1)] I_client_send_queue_free [OF Suc.prems(1,2)] by blast
  qed (use Suc.prems in \<open>auto simp: free_send_queues.simps\<close>)
qed

lemma I_reset:
  assumes cb: "cbs_keep I cbs" and "I s" "spice_char_device_reset cbs fuel s = Inr s'"
  shows "I s'"
proof -
  obtain s1 s2 s3 s4 where s: "spice_char_device_stop cbs s = Inr s1"
    "release_queue cbs fuel (s1\<lparr>wait_for_migrate_data := False\<rparr>) = Inr s2"
    "(case cur_write_buf s2 of None \<Rightarrow> Inr s2 | Some a \<Rightarrow> write_buffer_release cbs a (s2\<lparr>cur_write_buf := None\<rparr>)) = Inr s3"
    "free_send_queues cbs fuel (if clients s3 = [] then None else Some (hd (clients s3))) s3 = Inr s4" "s' = s4\<lparr>sin := None\<rparr>"
    using assms(3) by (auto simp: spice_char_device_reset_def)
  have "I s1" by (rule I_stop [OF cb assms(2) s(1)])
  then have i2: "I s2" using I_release_queue [OF cb _ s(2)] by simp
  then have "I s3" using s(3) release [OF cb, of "s2\<lparr>cur_write_buf := None\<rparr>"] by (auto split: option.splits)
  from I_free_send_queues [OF cb this s(4)] show ?thesis by (simp add: s(5))
qed

end


section \<open>Token accounting of a client\<close>

text \<open>
  The buffers a client has outstanding are those allocated for it and not back in the pool: being
  filled by the caller, queued, or being written. \<open>tokens_inv c w\<close> says that for the flow-controlled
  client \<open>c\<close> the tokens it may still spend, those the device has consumed but not yet returned, and
  the price of its outstanding buffers always add up to \<open>w\<close>.
\<close>

definition outst :: "client_id \<Rightarrow> 'e char_dev \<Rightarrow> addr set" where
  "outst c s = {a. a \<notin> set (write_bufs_pool s) \<and>
     (\<exists>b. buf_mem s a = Some b \<and> wb_origin b = ORIGIN_CLIENT \<and> wb_client b = Some c)}"

definition price :: "'e char_dev \<Rightarrow> addr \<Rightarrow> u64" where
  "price s a = ucast (token_price (the (buf_mem s a)))"

definition inflight :: "client_id \<Rightarrow> 'e char_dev \<Rightarrow> u64" where
  "inflight c s = (\<Sum>a\<in>outst c s. price s a)"

definition bufs_ok :: "client_id \<Rightarrow> 'e char_dev \<Rightarrow> bool" where
  "bufs_ok c s = (finite (dom (buf_mem s)) \<and> (\<forall>a\<in>dom (buf_mem s). a < next_addr s) \<and>
     distinct (write_bufs_pool s) \<and> set (write_bufs_pool s) \<subseteq> dom (buf_mem s) \<and>
     (\<forall>a\<in>set (write_bufs_pool s). wb_client (the (buf_mem s a)) = None) \<and>
     (\<forall>a\<in>outst c s. wb_refs (the (buf_mem s a)) = 1))"

definition attached :: "client_id \<Rightarrow> 'e char_dev \<Rightarrow> addr set" where
  "attached c s = {x \<in> set (clients s). \<exists>d. client_mem s x = Some d \<and> dc_client d = c}"

definition clients_ok :: "client_id \<Rightarrow> 'e char_dev \<Rightarrow> bool" where
  "clients_ok c s = (distinct (clients s) \<and> (\<forall>x\<in>attached c s. \<forall>y\<in>attached c s. x = y))"

definition balanced :: "client_id \<Rightarrow> u64 \<Rightarrow> 'e char_dev \<Rightarrow> bool" where
  "balanced c w s = (\<forall>x\<in>attached c s. \<forall>d. client_mem s x = Some d \<longrightarrow> do_flow_control d \<longrightarrow>
     num_client_tokens d + num_client_tokens_free d + inflight c s = w)"

definition tokens_inv :: "client_id \<Rightarrow> u64 \<Rightarrow> 'e char_dev \<Rightarrow> bool" where
  "tokens_inv c w s = (bufs_ok c s \<and> clients_ok c s \<and> balanced c w s)"

lemma outst_cong:
  assumes "buf_mem s' = buf_mem s" "write_bufs_pool s' = write_bufs_pool s"
  shows "outst c s' = outst c s" "inflight c s' = inflight c s"
  using assms by (simp_all add: outst_def inflight_def price_def)

lemma attached_cong:
  "clients s' = clients s \<Longrightarrow> client_mem s' = client_mem s \<Longrightarrow> attached c s' = attached c s"
  by (simp add: attached_def)

lemma bufs_ok_cong:
  assumes "bufs_ok c s" "buf_mem s' = buf_mem s" "write_bufs_pool s' = write_bufs_pool s" "next_addr s \<le> next_addr s'"
  shows "bufs_ok c s'"
proof -
  have "a < next_addr s'" if "a \<in> dom (buf_mem s)" for a
    using assms(1,4) that by (auto simp: bufs_ok_def intro: order_less_le_trans)
  then show ?thesis
    using assms(1) by (simp add: bufs_ok_def assms(2,3) outst_cong(1) [OF assms(2,3)])
qed

lemma clients_ok_cong:
  "clients_ok c s \<Longrightarrow> clients s' = clients s \<Longrightarrow> attached c s' = attached c s \<Longrightarrow> clients_ok c s'"
  by (simp add: clients_ok_def)

lemma finite_outst: "bufs_ok c s \<Longrightarrow> finite (outst c s)"
  by (rule finite_subset [of _ "dom (buf_mem s)"]) (auto simp: bufs_ok_def outst_def)

lemma tokens_inv_frame: "tokens_inv c w s \<Longrightarrow> core_eq s s' \<Longrightarrow> tokens_inv c w s'"
proof -
  assume *: "tokens_inv c w s" "core_eq s s'"
  then have e: "buf_mem s' = buf_mem s" "write_bufs_pool s' = write_bufs_pool s" "clients s' = clients s"
    "client_mem s' = client_mem s" "next_addr s' = next_addr s" by (auto simp: core_eq_def)
  from *(1) show ?thesis
    using bufs_ok_cong [of c s s'] clients_ok_cong [of c s s']
    by (simp add: tokens_inv_def balanced_def e attached_cong [OF e(3,4)] outst_cong [OF e(1,2)])
qed

text \<open>Changing one buffer, and possibly moving it to the pool.\<close>

lemma outst_set_other:
  assumes "a \<notin> outst c s" "wb_origin b' \<noteq> ORIGIN_CLIENT \<or> wb_client b' \<noteq> Some c \<or> a \<in> set (write_bufs_pool s')"
    and "buf_mem s' = (buf_mem s)(a \<mapsto> b')" "set (write_bufs_pool s') - {a} = set (write_bufs_pool s) - {a}"
  shows "outst c s' = outst c s" "inflight c s' = inflight c s"
proof -
  have "x \<in> outst c s' \<longleftrightarrow> x \<in> outst c s" for x
  proof (cases "x = a")
    case True
    then show ?thesis using assms(1-3) by (auto simp: outst_def)
  next
    case False
    then have "x \<in> set (write_bufs_pool s') \<longleftrightarrow> x \<in> set (write_bufs_pool s)" using assms(4) by blast
    with False show ?thesis by (simp add: outst_def assms(3))
  qed
  then show o: "outst c s' = outst c s" by blast
  have "price s' x = price s x" if "x \<in> outst c s" for x
    using that assms(1,3) by (auto simp: price_def)
  then show "inflight c s' = inflight c s" by (simp add: inflight_def o)
qed

lemma outst_remove:
  assumes "bufs_ok c s" "a \<in> outst c s"
    and "buf_mem s' = (buf_mem s)(a \<mapsto> b')" "wb_origin b' \<noteq> ORIGIN_CLIENT \<or> a \<in> set (write_bufs_pool s')"
    and "set (write_bufs_pool s') - {a} = set (write_bufs_pool s) - {a}"
  shows "outst c s' = outst c s - {a}" "inflight c s' = inflight c s - price s a"
proof -
  have "x \<in> outst c s' \<longleftrightarrow> x \<in> outst c s - {a}" for x
  proof (cases "x = a")
    case True
    then show ?thesis using assms(3,4) by (auto simp: outst_def)
  next
    case False
    then have "x \<in> set (write_bufs_pool s') \<longleftrightarrow> x \<in> set (write_bufs_pool s)" using assms(5) by blast
    with False show ?thesis by (simp add: outst_def assms(3))
  qed
  then show o: "outst c s' = outst c s - {a}" by blast
  have "price s' x = price s x" if "x \<noteq> a" for x using that assms(3) by (simp add: price_def)
  then have "inflight c s' = (\<Sum>x\<in>outst c s - {a}. price s x)" by (simp add: inflight_def o)
  then show "inflight c s' = inflight c s - price s a"
    using finite_outst [OF assms(1)] assms(2) by (simp add: inflight_def sum_diff1)
qed

lemma bufs_ok_set:
  assumes "bufs_ok c s" "a \<in> dom (buf_mem s) \<or> a < next_addr s'"
    and "buf_mem s' = (buf_mem s)(a \<mapsto> b')" "next_addr s \<le> next_addr s'"
    and "distinct (write_bufs_pool s')" "set (write_bufs_pool s') \<subseteq> insert a (set (write_bufs_pool s))"
    and "a \<in> set (write_bufs_pool s') \<Longrightarrow> wb_client b' = None"
    and "\<And>x. x \<in> outst c s' \<Longrightarrow> x \<noteq> a \<Longrightarrow> x \<in> outst c s" "a \<in> outst c s' \<Longrightarrow> wb_refs b' = 1"
  shows "bufs_ok c s'"
proof -
  have "wb_refs (the (buf_mem s' x)) = 1" if "x \<in> outst c s'" for x
    using assms(1,3,8,9) that by (cases "x = a") (auto simp: bufs_ok_def)
  moreover have "wb_client (the (buf_mem s' x)) = None" if "x \<in> set (write_bufs_pool s')" for x
    using assms(1,3,6,7) that by (cases "x = a") (auto simp: bufs_ok_def)
  moreover have "x < next_addr s'" if "x \<in> dom (buf_mem s')" for x
    using assms(1-4) that by (cases "x = a") (auto simp: bufs_ok_def intro: order_less_le_trans)
  moreover have "set (write_bufs_pool s') \<subseteq> dom (buf_mem s')" "finite (dom (buf_mem s'))"
    using assms(1,3,6) by (auto simp: bufs_ok_def)
  ultimately show ?thesis using assms(5) by (auto simp: bufs_ok_def)
qed

lemma pool_add_effect:
  assumes ok: "bufs_ok c s" and p: "pool_add a s = Inr s'"
  shows "bufs_ok c s'" "clients s' = clients s" "client_mem s' = client_mem s"
    "write_queue s' = write_queue s" "cur_write_buf s' = cur_write_buf s"
    "num_self_tokens s' = num_self_tokens s" "client_tokens_interval s' = client_tokens_interval s"
    "inflight c s' = inflight c s - (if a \<in> outst c s then price s a else 0)"
proof -
  obtain b where b: "buf_mem s a = Some b" using p by (auto simp: pool_add_def)
  show "clients s' = clients s" "client_mem s' = client_mem s" "write_queue s' = write_queue s"
    "cur_write_buf s' = cur_write_buf s" "num_self_tokens s' = num_self_tokens s"
    "client_tokens_interval s' = client_tokens_interval s"
    using p b by (auto simp: pool_add_def ring_put_def set_buf_def split: if_splits)
  have "bufs_ok c s' \<and> inflight c s' = inflight c s - (if a \<in> outst c s then price s a else 0)"
  proof (cases "wb_refs b = 1")
    case True
    let ?b = "b\<lparr>buf_used := 0, wb_origin := ORIGIN_NONE, wb_client := None\<rparr>"
    have s': "a \<notin> set (write_bufs_pool s)" "s' = (set_buf a ?b s)\<lparr>write_bufs_pool := a # write_bufs_pool s\<rparr>"
      using p b True by (auto simp: pool_add_def ring_put_def)
    then have m: "buf_mem s' = (buf_mem s)(a \<mapsto> ?b)" "write_bufs_pool s' = a # write_bufs_pool s"
      "next_addr s' = next_addr s" by (simp_all add: set_buf_def)
    have "x \<in> outst c s' \<Longrightarrow> x \<noteq> a \<Longrightarrow> x \<in> outst c s" for x by (auto simp: outst_def m)
    moreover have "a \<notin> outst c s'" by (simp add: outst_def m)
    ultimately have "bufs_ok c s'"
      using ok s'(1) b by (intro bufs_ok_set [OF ok _ m(1)]) (auto simp: m bufs_ok_def)
    moreover have "inflight c s' = inflight c s - (if a \<in> outst c s then price s a else 0)"
      using outst_remove(2) [OF ok, of a s' ?b] outst_set_other(2) [of a c s ?b s'] m by (auto simp: s'(1))
    ultimately show ?thesis by simp
  next
    case False
    let ?b = "b\<lparr>wb_refs := wb_refs b - 1\<rparr>"
    have m: "buf_mem s' = (buf_mem s)(a \<mapsto> ?b)" "write_bufs_pool s' = write_bufs_pool s" "next_addr s' = next_addr s"
      using p b False by (auto simp: pool_add_def set_buf_def)
    have na: "a \<notin> outst c s" using ok b False by (auto simp: bufs_ok_def)
    then have nb: "wb_origin ?b \<noteq> ORIGIN_CLIENT \<or> wb_client ?b \<noteq> Some c \<or> a \<in> set (write_bufs_pool s')"
      using b m(2) by (auto simp: outst_def)
    have "outst c s' = outst c s" "inflight c s' = inflight c s"
      using outst_set_other [OF na nb m(1)] m(2) by auto
    moreover from this have "bufs_ok c s'"
      using ok b na by (intro bufs_ok_set [OF ok _ m(1)]) (auto simp: m bufs_ok_def)
    ultimately show ?thesis using na by simp
  qed
  then show "bufs_ok c s'" "inflight c s' = inflight c s - (if a \<in> outst c s then price s a else 0)" by auto
qed

lemma client_find_in_none:
  "client_find_in c m xs = Inr None \<Longrightarrow> x \<in> set xs \<Longrightarrow> m x = Some d \<Longrightarrow> dc_client d \<noteq> c"
  by (induction xs) (auto split: if_splits)

lemma client_find_in_some:
  "client_find_in c m xs = Inr (Some x) \<Longrightarrow> x \<in> set xs \<and> (\<exists>d. m x = Some d \<and> dc_client d = c)"
  by (induction xs) (auto split: if_splits)

lemma client_find_none: "client_find c s = Inr None \<Longrightarrow> attached c s = {}"
  unfolding client_find_def attached_def using client_find_in_none by blast

lemma client_find_some: "client_find c s = Inr (Some x) \<Longrightarrow> x \<in> attached c s"
  unfolding client_find_def attached_def using client_find_in_some by blast

lemma set_client_simps [simp]:
  "client_mem (set_client x d s) = (client_mem s)(x \<mapsto> d)" "clients (set_client x d s) = clients s"
  "buf_mem (set_client x d s) = buf_mem s" "write_bufs_pool (set_client x d s) = write_bufs_pool s"
  "next_addr (set_client x d s) = next_addr s"
  by (simp_all add: set_client_def)

lemma attached_set_client:
  assumes "client_mem s x = Some d" "dc_client d' = dc_client d"
  shows "attached c (set_client x d' s) = attached c s"
  using assms by (auto simp: attached_def)

lemma outst_set_client [simp]:
  "outst c (set_client x d s) = outst c s" "inflight c (set_client x d s) = inflight c s"
  by (rule outst_cong; simp)+

lemma bufs_ok_set_client [simp]: "bufs_ok c (set_client x d s) = bufs_ok c s"
  using bufs_ok_cong [of c s "set_client x d s"] bufs_ok_cong [of c "set_client x d s" s] by auto

lemma clients_ok_set_client:
  "client_mem s x = Some d \<Longrightarrow> dc_client d' = dc_client d \<Longrightarrow> clients_ok c (set_client x d' s) = clients_ok c s"
  using attached_set_client [of s x d d' c] by (simp add: clients_ok_def)

lemma tokens_inv_client_frame:
  assumes "tokens_inv c w s" "client_mem s x = Some d" "same_account d d'"
  shows "tokens_inv c w (set_client x d' s)"
proof -
  have "balanced c w (set_client x d' s)"
    using assms attached_set_client [OF assms(2), of d' c]
    by (auto simp: tokens_inv_def balanced_def same_account_def)
  then show ?thesis
    using assms by (simp add: tokens_inv_def clients_ok_set_client same_account_def)
qed

text \<open>
  Returning \<open>n\<close> tokens to a client restores the balance after its buffer of price \<open>n\<close> has left.
\<close>

lemma client_tokens_add_inv:
  assumes cb: "cbs_keep (tokens_inv c w) cbs" and "bufs_ok c s" "clients_ok c s"
    and x: "x \<in> attached c' s" and "client_tokens_add cbs x n s = Inr s'"
    and bal: "if c' = c then balanced c (w - ucast n) s else balanced c w s"
  shows "tokens_inv c w s'"
proof -
  obtain d where d: "client_mem s x = Some d" "dc_client d = c'" "x \<in> set (clients s)"
    using x by (auto simp: attached_def)
  have upd: "tokens_inv c w (set_client x d' s)"
    if "dc_client d' = c'" "do_flow_control d' = do_flow_control d"
      "num_client_tokens d' + num_client_tokens_free d' = num_client_tokens d + num_client_tokens_free d + ucast n"
      for d'
  proof -
    have at: "attached c (set_client x d' s) = attached c s" using attached_set_client [OF d(1), of d' c] that(1) d(2) by simp
    have "balanced c w (set_client x d' s)"
    proof (cases "c' = c")
      case True
      then have xa: "x \<in> attached c s" "\<And>y. y \<in> attached c s \<Longrightarrow> y = x"
        using x assms(3) by (auto simp: clients_ok_def)
      have "num_client_tokens d' + num_client_tokens_free d' + inflight c s = w" if "do_flow_control d'"
      proof -
        have "num_client_tokens d + num_client_tokens_free d + inflight c s = w - ucast n"
          using bal True d(1) xa(1) that \<open>do_flow_control d' = do_flow_control d\<close> by (simp add: balanced_def)
        then show ?thesis
          using \<open>num_client_tokens d' + num_client_tokens_free d' = _\<close> by (simp add: algebra_simps)
      qed
      then show ?thesis using xa(2) unfolding balanced_def at by fastforce
    next
      case False
      then have "x \<notin> attached c s" using d by (auto simp: attached_def)
      then show ?thesis
        using bal False by (auto simp: balanced_def at)
    qed
    then show ?thesis using assms(2,3) d that(1) by (simp add: tokens_inv_def clients_ok_set_client)
  qed
  show ?thesis
  proof (cases "do_flow_control d")
    case False
    then have "s' = s" using assms(5) d by (simp add: client_tokens_add_def)
    moreover have "balanced c w s"
    proof (cases "c' = c")
      case True
      then have "\<forall>y\<in>attached c s. y = x" using x assms(3) by (auto simp: clients_ok_def)
      then show ?thesis using False d(1) by (auto simp: balanced_def)
    qed (use bal in simp)
    ultimately show ?thesis using assms(2,3) by (simp add: tokens_inv_def)
  next
    case True
    let ?f = "num_client_tokens_free d + ucast n"
    show ?thesis
    proof (cases "?f \<ge> client_tokens_interval s")
      case True
      with \<open>do_flow_control d\<close> have "send_tokens_to_client cbs c' (ucast ?f)
        (set_client x (d\<lparr>num_client_tokens := num_client_tokens d + ?f, num_client_tokens_free := 0\<rparr>) s) = Inr s'"
        using assms(5) d by (simp add: client_tokens_add_def Let_def)
      from cbs_keepD(5) [OF cb upd this] show ?thesis using d(2) by simp
    next
      case False
      with \<open>do_flow_control d\<close> have "s' = set_client x (d\<lparr>num_client_tokens_free := ?f\<rparr>) s"
        using assms(5) d by (simp add: client_tokens_add_def Let_def)
      then show ?thesis using upd [of "d\<lparr>num_client_tokens_free := ?f\<rparr>"] d(2) by (simp add: algebra_simps)
    qed
  qed
qed

lemma balanced_shift:
  assumes "balanced c w s" "clients s' = clients s" "client_mem s' = client_mem s" "inflight c s' = inflight c s - k"
  shows "balanced c (w - k) s'"
  using assms(1) unfolding balanced_def attached_cong [OF assms(2,3)] assms(3,4) by (simp add: add_diff_eq)

lemma balanced_upd_other:
  "inflight c s' = inflight c s \<Longrightarrow> balanced c w s \<Longrightarrow> clients s' = clients s \<Longrightarrow> client_mem s' = client_mem s \<Longrightarrow>
   balanced c w s'"
  using balanced_shift [of c w s s' 0] by simp

lemma tokens_inv_release:
  assumes cb: "cbs_keep (tokens_inv c w) cbs" and inv: "tokens_inv c w s"
    and r: "write_buffer_release cbs a s = Inr s'"
  shows "tokens_inv c w s'"
proof -
  obtain b s1 where b: "buf_mem s a = Some b" "a \<notin> set (write_bufs_pool s)" "pool_add a s = Inr s1"
    using r by (auto simp: write_buffer_release_def)
  have ok: "bufs_ok c s" "clients_ok c s" "balanced c w s" using inv by (auto simp: tokens_inv_def)
  note e = pool_add_effect [OF ok(1) b(3)]
  have ok1: "clients_ok c s1" by (rule clients_ok_cong [OF ok(2) e(2) attached_cong [OF e(2,3)]])
  have a: "a \<in> outst c s \<longleftrightarrow> wb_origin b = ORIGIN_CLIENT \<and> wb_client b = Some c" using b by (simp add: outst_def)
  have p: "price s a = ucast (token_price b)" using b by (simp add: price_def)
  have bal: "balanced c (if a \<in> outst c s then w - ucast (token_price b) else w) s1"
    using balanced_shift [OF ok(3) e(2,3,8)] by (simp add: p split: if_splits)
  show ?thesis
  proof (cases "wb_origin b")
    case ORIGIN_CLIENT
    then obtain c' x where c: "wb_client b = Some c'" "client_find c' s1 = Inr (Some x)"
      "client_tokens_add cbs x (token_price b) s1 = Inr s'"
      using r b by (auto simp: write_buffer_release_def split: option.splits)
    have "if c' = c then balanced c (w - ucast (token_price b)) s1 else balanced c w s1"
      using bal a ORIGIN_CLIENT c(1) by auto
    then show ?thesis by (rule client_tokens_add_inv [OF cb e(1) ok1 client_find_some [OF c(2)] c(3)])
  next
    case ORIGIN_SERVER
    let ?s2 = "s1\<lparr>num_self_tokens := num_self_tokens s1 + 1\<rparr>"
    have "tokens_inv c w s1" using e(1) ok1 bal a ORIGIN_SERVER by (simp add: tokens_inv_def)
    then have i2: "tokens_inv c w ?s2"
      by (simp add: tokens_inv_def bufs_ok_def clients_ok_def balanced_def attached_def outst_def inflight_def price_def)
    show ?thesis
      using r b ORIGIN_SERVER i2 cbs_keepD(6) [OF cb i2]
      by (auto simp: write_buffer_release_def Let_def split: option.splits)
  qed (use r b e(1) ok1 bal a in \<open>auto simp: write_buffer_release_def tokens_inv_def\<close>)
qed

lemma pool_stale_tokens_inv:
  assumes inv: "tokens_inv c w s" and b: "buf_mem s a = Some b" "wb_origin b = ORIGIN_CLIENT"
    and f: "(case wb_client b of None \<Rightarrow> Inr None | Some c' \<Rightarrow> client_find c' s) = Inr None"
    and p: "pool_add a s = Inr s'"
  shows "tokens_inv c w s'"
proof -
  have ok: "bufs_ok c s" "clients_ok c s" "balanced c w s" using inv by (auto simp: tokens_inv_def)
  note e = pool_add_effect [OF ok(1) p]
  have at: "attached c s' = attached c s" by (rule attached_cong [OF e(2,3)])
  have "balanced c w s'"
  proof (cases "wb_client b = Some c")
    case True
    then have "attached c s' = {}" using f at client_find_none [of c s] by simp
    then show ?thesis by (simp add: balanced_def)
  next
    case False
    then have "a \<notin> outst c s" using b by (simp add: outst_def)
    then show ?thesis using balanced_upd_other [OF _ ok(3) e(2,3)] e(8) by simp
  qed
  then show ?thesis using e(1) clients_ok_cong [OF ok(2) e(2) at] by (simp add: tokens_inv_def)
qed

text \<open>Dropping the buffers of client \<open>c'\<close> keeps every other client's account.\<close>

lemma drop_client_bufs_effect:
  assumes "bufs_ok c s" "drop_client_bufs c' as s = Inr s'"
  shows "bufs_ok c s' \<and> clients s' = clients s \<and> client_mem s' = client_mem s \<and>
    num_self_tokens s' = num_self_tokens s \<and> (c' \<noteq> c \<longrightarrow> inflight c s' = inflight c s)"
  using assms
proof (induction as arbitrary: s)
  case (Cons a as)
  obtain b s1 where b: "buf_mem s a = Some b" "drop_client_bufs c' as s1 = Inr s'"
    "(if wb_origin b = ORIGIN_CLIENT \<and> wb_client b = Some c'
      then rbind (ring_take a (write_queue s)) (\<lambda>q. pool_add a (s\<lparr>write_queue := q\<rparr>)) else Inr s) = Inr s1"
    using Cons.prems(2) by auto
  have "bufs_ok c s1 \<and> clients s1 = clients s \<and> client_mem s1 = client_mem s \<and>
    num_self_tokens s1 = num_self_tokens s \<and> (c' \<noteq> c \<longrightarrow> inflight c s1 = inflight c s)"
  proof (cases "wb_origin b = ORIGIN_CLIENT \<and> wb_client b = Some c'")
    case True
    then obtain q where q: "pool_add a (s\<lparr>write_queue := q\<rparr>) = Inr s1" using b(3) by auto
    have ok: "bufs_ok c (s\<lparr>write_queue := q\<rparr>)" using Cons.prems(1) by (rule bufs_ok_cong) auto
    have o: "outst c (s\<lparr>write_queue := q\<rparr>) = outst c s" "inflight c (s\<lparr>write_queue := q\<rparr>) = inflight c s"
      by (rule outst_cong; simp)+
    have "c' \<noteq> c \<Longrightarrow> a \<notin> outst c s" using True b(1) by (simp add: outst_def)
    then show ?thesis using pool_add_effect [OF ok q] by (simp add: o)
  qed (use b Cons.prems in auto)
  then show ?case using Cons.IH [OF _ b(2)] by auto
qed simp

lemma forget_cur_effect:
  assumes ok: "bufs_ok c s" and f: "forget_cur_client c' s = Inr s'"
  shows "bufs_ok c s' \<and> clients s' = clients s \<and> client_mem s' = client_mem s \<and>
    num_self_tokens s' = num_self_tokens s \<and> (c' \<noteq> c \<longrightarrow> inflight c s' = inflight c s)"
proof (cases "s' = s")
  case False
  then obtain a b where a: "buf_mem s a = Some b" "wb_origin b = ORIGIN_CLIENT" "wb_client b = Some c'"
    "s' = set_buf a (b\<lparr>wb_origin := ORIGIN_NONE, wb_client := None\<rparr>) s"
    using f by (auto simp: forget_cur_client_def split: option.splits if_splits)
  let ?b = "b\<lparr>wb_origin := ORIGIN_NONE, wb_client := None\<rparr>"
  have m: "buf_mem s' = (buf_mem s)(a \<mapsto> ?b)" "write_bufs_pool s' = write_bufs_pool s" "next_addr s' = next_addr s"
    "clients s' = clients s" "client_mem s' = client_mem s" "num_self_tokens s' = num_self_tokens s"
    using a(4) by (simp_all add: set_buf_def)
  have "x \<in> outst c s' \<Longrightarrow> x \<noteq> a \<Longrightarrow> x \<in> outst c s" for x by (simp add: outst_def m)
  moreover have "a \<notin> outst c s'" by (simp add: outst_def m)
  ultimately have "bufs_ok c s'" using ok a(1) by (intro bufs_ok_set [OF ok _ m(1)]) (auto simp: m bufs_ok_def)
  moreover have "inflight c s' = inflight c s" if "c' \<noteq> c"
    using that a m by (intro outst_set_other(2) [of a c s ?b]) (auto simp: outst_def)
  ultimately show ?thesis by (simp add: m)
qed (use ok in simp)

lemma client_gone_tokens_inv:
  assumes inv: "tokens_inv c w s" and d: "client_mem s x = Some d"
    and dr: "drop_client_bufs (dc_client d) q s = Inr s1" and fo: "forget_cur_client (dc_client d) s1 = Inr s2"
    and x: "x \<in> set (clients s2)"
  shows "tokens_inv c w (s2\<lparr>clients := remove1 x (clients s2), client_mem := (client_mem s2)(x := None)\<rparr>)"
    (is "tokens_inv c w ?s")
proof -
  have ok: "bufs_ok c s" "clients_ok c s" "balanced c w s" using inv by (auto simp: tokens_inv_def)
  note e1 = drop_client_bufs_effect [OF ok(1) dr]
  note e2 = forget_cur_effect [OF conjunct1 [OF e1] fo]
  have cl: "clients s2 = clients s" "client_mem s2 = client_mem s" using e1 e2 by auto
  have di: "distinct (clients s)" using ok(2) by (simp add: clients_ok_def)
  have at: "attached c ?s = attached c s - {x}" using di by (auto simp: attached_def cl)
  have o: "inflight c ?s = inflight c s2" by (rule outst_cong) auto
  have "bufs_ok c ?s" by (rule bufs_ok_cong [OF conjunct1 [OF e2]]) auto
  moreover have "distinct (clients ?s)" using di by (simp add: cl)
  then have "clients_ok c ?s" using ok(2) unfolding clients_ok_def at by blast
  moreover have "balanced c w ?s"
  proof (cases "dc_client d = c")
    case True
    then have "x \<in> attached c s" using d x cl by (auto simp: attached_def)
    then have "attached c s - {x} = {}" using ok(2) by (auto simp: clients_ok_def)
    then show ?thesis unfolding balanced_def at by blast
  next
    case False
    then have "inflight c s2 = inflight c s" using e1 e2 by simp
    then show ?thesis using ok(3) unfolding balanced_def at o by (auto simp: cl)
  qed
  ultimately show ?thesis by (simp add: tokens_inv_def)
qed

lemma client_new_tokens_inv:
  assumes inv: "tokens_inv c w s" and d: "dc_client d \<noteq> c" "x \<notin> set (clients s)"
  shows "tokens_inv c w ((set_client x d s)\<lparr>clients := x # clients s\<rparr>)" (is "tokens_inv c w ?s")
proof -
  have at: "attached c ?s = attached c s" using d by (auto simp: attached_def)
  have o: "inflight c ?s = inflight c s" by (rule outst_cong) auto
  have "bufs_ok c ?s" by (rule bufs_ok_cong [of _ s]) (use inv in \<open>auto simp: tokens_inv_def\<close>)
  moreover have "balanced c w ?s"
    using inv d by (auto simp: balanced_def at o tokens_inv_def attached_def split: if_splits)
  ultimately show ?thesis using inv d(2) by (simp add: tokens_inv_def clients_ok_def at)
qed

lemma alloc_tokens_inv: "tokens_inv c w s \<Longrightarrow> tokens_inv c w (s\<lparr>next_addr := Suc (next_addr s)\<rparr>)"
proof -
  let ?s = "s\<lparr>next_addr := Suc (next_addr s)\<rparr>"
  assume *: "tokens_inv c w s"
  have "bufs_ok c ?s" by (rule bufs_ok_cong [of _ s]) (use * in \<open>auto simp: tokens_inv_def\<close>)
  with * show ?thesis
    by (simp add: tokens_inv_def clients_ok_def balanced_def attached_def inflight_def outst_def price_def)
qed

text \<open>A buffer taken from the pool, or a new one, marked with its origin and not yet given to a client.\<close>

lemma take_pool_buf_effect:
  assumes ok: "bufs_ok c s" and t: "take_pool_buf s = Inr (a, b0, s0)"
    and b: "b = (grow_buf sz b0)\<lparr>wb_origin := orig\<rparr>" and s1: "s1 = set_buf a b s0"
  shows "bufs_ok c s1" "a \<notin> set (write_bufs_pool s1)" "buf_mem s1 a = Some b" "wb_client b = None"
    "clients s1 = clients s" "client_mem s1 = client_mem s" "inflight c s1 = inflight c s"
    "num_self_tokens s1 = num_self_tokens s"
proof -
  have g: "wb_client b = wb_client b0" by (simp add: b grow_buf_def)
  have *: "buf_mem s1 = (buf_mem s)(a \<mapsto> b) \<and> next_addr s \<le> next_addr s1 \<and> a < next_addr s1 \<and>
    a \<notin> set (write_bufs_pool s1) \<and> distinct (write_bufs_pool s1) \<and> a \<notin> outst c s \<and>
    set (write_bufs_pool s1) - {a} = set (write_bufs_pool s) - {a} \<and> wb_client b0 = None"
  proof (cases "write_bufs_pool s = []")
    case True
    then have e: "a = next_addr s" "b0 = \<lparr>wb_origin = ORIGIN_NONE, wb_client = None, wb_data = [], buf_used = 0,
        token_price = 0, wb_refs = 0\<rparr>" "s0 = s\<lparr>next_addr := next_addr s + 1\<rparr>"
      using t by (auto simp: take_pool_buf_def)
    then have "a \<notin> outst c s" using ok by (force simp: bufs_ok_def outst_def)
    then show ?thesis using True by (simp add: e s1 set_buf_def)
  next
    case False
    then obtain p where p: "write_bufs_pool s = p @ [a]" "buf_mem s a = Some b0"
      "s0 = s\<lparr>write_bufs_pool := p\<rparr>"
      using t by (auto simp: take_pool_buf_def Let_def) (metis append_butlast_last_id)
    then have "distinct p" "a \<notin> set p" "a < next_addr s" "wb_client b0 = None" "a \<notin> outst c s"
      using ok by (auto simp: bufs_ok_def outst_def)
    then show ?thesis by (auto simp: p s1 set_buf_def)
  qed
  then have m: "buf_mem s1 = (buf_mem s)(a \<mapsto> b)" "next_addr s \<le> next_addr s1" "a < next_addr s1"
    "a \<notin> set (write_bufs_pool s1)" "distinct (write_bufs_pool s1)" "a \<notin> outst c s"
    "set (write_bufs_pool s1) - {a} = set (write_bufs_pool s) - {a}" "wb_client b0 = None" by auto
  show "a \<notin> set (write_bufs_pool s1)" "buf_mem s1 a = Some b" "wb_client b = None" using m g by auto
  show "clients s1 = clients s" "client_mem s1 = client_mem s" "num_self_tokens s1 = num_self_tokens s"
    using t by (auto simp: take_pool_buf_def s1 set_buf_def Let_def split: if_splits)
  have o: "outst c s1 = outst c s" and "inflight c s1 = inflight c s"
    using outst_set_other [OF m(6) _ m(1,7)] m(8) g by auto
  then show "inflight c s1 = inflight c s" by simp
  show "bufs_ok c s1"
    by (rule bufs_ok_set [OF ok _ m(1,2,5)]) (use m o in auto)
qed

lemma get_error_tokens_inv:
  assumes inv: "tokens_inv c w s" and b: "buf_mem s a = Some b" "wb_client b = None"
    and g: "get_error a s = Inr (r, s')"
  shows "tokens_inv c w s'"
proof -
  have a: "a \<notin> set (write_bufs_pool s)" "s' = s\<lparr>write_bufs_pool := a # write_bufs_pool s\<rparr>"
    using g by (auto simp: get_error_def ring_put_def)
  then have m: "buf_mem s' = (buf_mem s)(a \<mapsto> b)" using b(1) by (simp add: map_upd_triv)
  have na: "a \<notin> outst c s" using b by (simp add: outst_def)
  have o: "outst c s' = outst c s" "inflight c s' = inflight c s"
    using outst_set_other [OF na _ m] a b(2) by auto
  have ok: "bufs_ok c s" using inv by (simp add: tokens_inv_def)
  have "bufs_ok c s'"
    by (rule bufs_ok_set [OF ok _ m]) (use ok a b na o in \<open>auto simp: bufs_ok_def\<close>)
  then show ?thesis
    using inv o(2) a(2) by (simp add: tokens_inv_def clients_ok_def balanced_def attached_def)
qed

lemma get_finish_effect:
  assumes ok: "bufs_ok c s" and b0: "buf_mem s a = Some b0" "wb_client b0 = None" "a \<notin> set (write_bufs_pool s)"
    and g: "get_finish mt a b s = Inr (r, s')"
  shows "bufs_ok c s' \<and> clients s' = clients s \<and> client_mem s' = client_mem s \<and>
    inflight c s' = inflight c s + (if wb_origin b = ORIGIN_CLIENT \<and> wb_client b = Some c
      then ucast (if mt \<noteq> 0 then mt else 1) else 0)"
proof -
  let ?b = "b\<lparr>token_price := (if mt \<noteq> 0 then mt else 1), wb_refs := 1\<rparr>"
  have m: "buf_mem s' = (buf_mem s)(a \<mapsto> ?b)" "write_bufs_pool s' = write_bufs_pool s" "next_addr s' = next_addr s"
    "clients s' = clients s" "client_mem s' = client_mem s"
    using g by (auto simp: get_finish_def set_buf_def)
  have na: "a \<notin> outst c s" using b0 by (simp add: outst_def)
  have sub: "x \<in> outst c s' \<Longrightarrow> x \<noteq> a \<Longrightarrow> x \<in> outst c s" for x by (simp add: outst_def m)
  have ok': "bufs_ok c s'"
    by (rule bufs_ok_set [OF ok _ m(1)]) (use ok b0 sub in \<open>auto simp: bufs_ok_def m\<close>)
  show ?thesis
  proof (cases "wb_origin b = ORIGIN_CLIENT \<and> wb_client b = Some c")
    case True
    then have o: "outst c s' = insert a (outst c s)" using b0(3) by (auto simp: outst_def m)
    have "price s' x = price s x" if "x \<in> outst c s" for x using that na by (auto simp: price_def m)
    moreover have "price s' a = ucast (if mt \<noteq> 0 then mt else 1)" by (simp add: price_def m)
    ultimately have "inflight c s' = inflight c s + ucast (if mt \<noteq> 0 then mt else 1)"
      using finite_outst [OF ok] na by (simp add: inflight_def o)
    then show ?thesis using True ok' m by simp
  next
    case False
    then have "inflight c s' = inflight c s" by (intro outst_set_other(2) [OF na _ m(1)]) (auto simp: m)
    then show ?thesis using False ok' m by auto
  qed
qed

lemma tokens_inv_get:
  assumes cb: "cbs_keep (tokens_inv c w) cbs" and inv: "tokens_inv c w s"
    and g: "write_buffer_get_full cbs cl sz orig 0 s = Inr (r, s')"
  shows "tokens_inv c w s'"
proof (cases "orig = ORIGIN_SERVER \<and> num_self_tokens s = 0")
  case True
  then show ?thesis using g inv by (simp add: write_buffer_get_full_def)
next
  case False
  obtain a b0 s0 where t: "take_pool_buf s = Inr (a, b0, s0)" "buf_used b0 = 0"
    using g False by (auto simp: write_buffer_get_full_def split: if_splits)
  define b where "b = (grow_buf sz b0)\<lparr>wb_origin := orig\<rparr>"
  define s1 where "s1 = set_buf a b s0"
  have ok: "bufs_ok c s" "clients_ok c s" "balanced c w s" using inv by (auto simp: tokens_inv_def)
  note e = take_pool_buf_effect [OF ok(1) t(1) b_def s1_def]
  have ok1: "clients_ok c s1" by (rule clients_ok_cong [OF ok(2) e(5) attached_cong [OF e(5,6)]])
  have bal1: "balanced c w s1" by (rule balanced_upd_other [OF e(7) ok(3) e(5,6)])
  have inv1: "tokens_inv c w s1" using e(1) ok1 bal1 by (simp add: tokens_inv_def)
  have fin: "tokens_inv c w s''" if "get_finish 0 a b s2 = Inr (r', s'')" "orig \<noteq> ORIGIN_CLIENT"
    "core_eq (s1\<lparr>num_self_tokens := num_self_tokens s2\<rparr>) s2" for s2 s'' r'
  proof -
    have c: "buf_mem s2 = buf_mem s1" "write_bufs_pool s2 = write_bufs_pool s1" "next_addr s2 = next_addr s1"
      "clients s2 = clients s1" "client_mem s2 = client_mem s1" using that(3) by (auto simp: core_eq_def)
    have "bufs_ok c s2" by (rule bufs_ok_cong [OF e(1) c(1,2)]) (simp add: c)
    from get_finish_effect [OF this _ e(4) _ that(1)] e(2,3) c that(2)
    have f: "bufs_ok c s''" "clients s'' = clients s1" "client_mem s'' = client_mem s1" "inflight c s'' = inflight c s2"
      by (auto simp: b_def)
    have "inflight c s'' = inflight c s1" using f(4) outst_cong(2) [OF c(1,2)] by simp
    from balanced_upd_other [OF this bal1 f(2,3)] show ?thesis
      using f(1) clients_ok_cong [OF ok1 f(2) attached_cong [OF f(2,3)]] by (simp add: tokens_inv_def)
  qed
  have unf: "write_buffer_get_full cbs cl sz orig 0 s = (case orig of
      ORIGIN_CLIENT \<Rightarrow> (case cl of None \<Rightarrow> Inl Abort
        | Some c' \<Rightarrow> rbind (client_find c' s1) (\<lambda>found. case found of
            None \<Rightarrow> get_error a s1
          | Some da \<Rightarrow> rbind (get_client da s1) (\<lambda>d.
              if do_flow_control d \<and> num_client_tokens d = 0 then rbind (handle_client_overflow cbs da s1) (get_error a)
              else get_finish 0 a (b\<lparr>wb_client := Some c'\<rparr>)
                (if do_flow_control d then set_client da (d\<lparr>num_client_tokens := num_client_tokens d - 1\<rparr>) s1 else s1))))
    | ORIGIN_SERVER \<Rightarrow> get_finish 0 a b (s1\<lparr>num_self_tokens := num_self_tokens s1 - 1\<rparr>)
    | _ \<Rightarrow> get_finish 0 a b s1)"
    using False t by (cases orig; cases cl)
      (auto simp: write_buffer_get_full_def Let_def b_def s1_def cong: option.case_cong if_cong)
  show ?thesis
  proof (cases "orig = ORIGIN_CLIENT")
    case False
    then show ?thesis
      using g fin [of s1] fin [of "s1\<lparr>num_self_tokens := num_self_tokens s1 - 1\<rparr>"]
      unfolding unf by (auto simp: core_eq_def split: buf_origin.splits)
  next
    case True
    with g obtain c' found where c': "cl = Some c'" "client_find c' s1 = Inr found"
      unfolding unf by (auto split: option.splits)
    show ?thesis
    proof (cases found)
      case None
      with g True c' have "get_error a s1 = Inr (r, s')" unfolding unf by simp
      then show ?thesis by (rule get_error_tokens_inv [OF inv1 e(3,4)])
    next
      case (Some x)
      then have x: "x \<in> attached c' s1" using client_find_some c'(2) by simp
      then obtain d where d: "client_mem s1 x = Some d" "dc_client d = c'" by (auto simp: attached_def)
      show ?thesis
      proof (cases "do_flow_control d \<and> num_client_tokens d = 0")
        case True
        with g \<open>orig = ORIGIN_CLIENT\<close> c' Some d obtain s2 where s2: "handle_client_overflow cbs x s1 = Inr s2"
          "get_error a s2 = Inr (r, s')" unfolding unf by auto
        have rc: "remove_client cbs (dc_client d) s1 = Inr s2" using s2(1) d by (simp add: handle_client_overflow_def)
        have "tokens_inv c w s2" by (rule cbs_keepD(7) [OF cb inv1 rc])
        moreover have "buf_mem s2 = buf_mem s1" using cb rc by (simp add: cbs_keep_def)
        ultimately show ?thesis using get_error_tokens_inv [OF _ _ e(4) s2(2)] e(3) by simp
      next
        case False
        let ?s2 = "if do_flow_control d then set_client x (d\<lparr>num_client_tokens := num_client_tokens d - 1\<rparr>) s1 else s1"
        have gf: "get_finish 0 a (b\<lparr>wb_client := Some c'\<rparr>) ?s2 = Inr (r, s')"
          using g \<open>orig = ORIGIN_CLIENT\<close> c' Some d False unfolding unf by simp
        have bo: "bufs_ok c ?s2" "buf_mem ?s2 a = Some b" "a \<notin> set (write_bufs_pool ?s2)" using e by simp_all
        have cl2: "clients ?s2 = clients s1" by simp
        have at: "attached c ?s2 = attached c s1" using attached_set_client [OF d(1)] by simp
        have in2: "inflight c ?s2 = inflight c s1" by simp
        from get_finish_effect [OF bo(1,2) e(4) bo(3) gf] have f: "bufs_ok c s'" "clients s' = clients ?s2"
          "client_mem s' = client_mem ?s2" "inflight c s' = inflight c s1 + (if c' = c then 1 else 0)"
          using \<open>orig = ORIGIN_CLIENT\<close> in2 by (auto simp: b_def)
        have at': "attached c s' = attached c s1" using attached_cong [OF f(2,3)] at by simp
        have "balanced c w s'"
          unfolding balanced_def at'
        proof (intro ballI allI impI)
          fix y dy assume y: "y \<in> attached c s1" "client_mem s' y = Some dy" "do_flow_control dy"
          show "num_client_tokens dy + num_client_tokens_free dy + inflight c s' = w"
          proof (cases "y = x \<and> do_flow_control d")
            case True
            then have "c' = c" using y(1) d by (auto simp: attached_def)
            moreover have "num_client_tokens d + num_client_tokens_free d + inflight c s1 = w"
              using bal1 y(1) True d(1) by (auto simp: balanced_def)
            ultimately show ?thesis using True y(2) f(3,4) by (auto simp: algebra_simps)
          next
            case False
            then have dy: "client_mem s1 y = Some dy" using y(2,3) f(3) d(1) by (auto split: if_splits)
            have "c' \<noteq> c"
            proof
              assume "c' = c"
              then have "y = x" using x y(1) ok1 by (auto simp: clients_ok_def)
              then show False using False dy d(1) y(3) by simp
            qed
            then show ?thesis using bal1 y(1,3) dy f(4) by (auto simp: balanced_def)
          qed
        qed
        then show ?thesis using f(1) clients_ok_cong [OF ok1 _ at'] f(2) cl2 by (simp add: tokens_inv_def)
      qed
    qed
  qed
qed

interpretation tokens: dev_invariant "tokens_inv c w" "\<lambda>x. x \<noteq> c" for c w
  by unfold_locales
    (auto intro: tokens_inv_frame tokens_inv_client_frame tokens_inv_release tokens_inv_get
      pool_stale_tokens_inv client_gone_tokens_inv client_new_tokens_inv alloc_tokens_inv)

text \<open>The caller that holds a buffer fills it; the accounting fields stay as they are.\<close>

lemma fill_tokens_inv:
  assumes inv: "tokens_inv c w s" and b: "buf_mem s a = Some b"
  shows "tokens_inv c w (set_buf a (b\<lparr>wb_data := data, buf_used := n\<rparr>) s)" (is "tokens_inv c w ?s")
proof -
  have o: "outst c ?s = outst c s" using b by (auto simp: outst_def set_buf_def)
  have "price ?s x = price s x" for x using b by (simp add: price_def set_buf_def)
  then have i: "inflight c ?s = inflight c s" by (simp add: inflight_def o)
  have at: "attached c ?s = attached c s" by (rule attached_cong) (simp_all add: set_buf_def)
  have "bufs_ok c ?s"
    using inv b unfolding tokens_inv_def bufs_ok_def o by (auto simp: set_buf_def)
  moreover have "clients_ok c ?s" using inv by (simp add: tokens_inv_def clients_ok_def at) (simp add: set_buf_def)
  moreover have "balanced c w ?s" using inv unfolding tokens_inv_def balanced_def at i by (simp add: set_buf_def)
  ultimately show ?thesis by (simp add: tokens_inv_def)
qed


section \<open>Any sequence of operations\<close>

text \<open>
  The calls a device sees, from the channels, from the device and from its timers, each with any
  arguments; a call that aborts is no step. Adding a second client state for the client \<open>c\<close> under
  observation is excluded.
\<close>

inductive dev_step :: "'e callbacks \<Rightarrow> client_id \<Rightarrow> 'e char_dev \<Rightarrow> 'e char_dev \<Rightarrow> bool" for cbs c where
  get: "spice_char_device_write_buffer_get cbs cl sz s = Inr (r, s') \<Longrightarrow> dev_step cbs c s s'"
| get_server: "spice_char_device_write_buffer_get_server_no_token cbs sz s = Inr (r, s') \<Longrightarrow> dev_step cbs c s s'"
| fill: "buf_mem s a = Some b \<Longrightarrow> dev_step cbs c s (set_buf a (b\<lparr>wb_data := data, buf_used := n\<rparr>) s)"
| add: "spice_char_device_write_buffer_add cbs fuel a s = Inr s' \<Longrightarrow> dev_step cbs c s s'"
| release: "write_buffer_release cbs a s = Inr s' \<Longrightarrow> dev_step cbs c s s'"
| retry: "spice_char_dev_write_retry cbs fuel s = Inr s' \<Longrightarrow> dev_step cbs c s s'"
| wakeup: "spice_char_device_wakeup cbs fuel s = Inr s' \<Longrightarrow> dev_step cbs c s s'"
| tokens_add: "spice_char_device_send_to_client_tokens_add cbs fuel c' n s = Inr s' \<Longrightarrow> dev_step cbs c s s'"
| tokens_set: "spice_char_device_send_to_client_tokens_set cbs fuel c' n s = Inr s' \<Longrightarrow> dev_step cbs c s s'"
| client_add: "spice_char_device_client_add cbs fuel c' flow mq ct st wm s = Inr (r, s') \<Longrightarrow> c' \<noteq> c \<Longrightarrow> dev_step cbs c s s'"
| client_remove: "spice_char_device_client_remove cbs fuel c' s = Inr s' \<Longrightarrow> dev_step cbs c s s'"
| wait_timeout: "device_client_wait_for_tokens_timeout cbs a s = Inr s' \<Longrightarrow> dev_step cbs c s s'"
| start: "spice_char_device_start cbs fuel s = Inr s' \<Longrightarrow> dev_step cbs c s s'"
| stop: "spice_char_device_stop cbs s = Inr s' \<Longrightarrow> dev_step cbs c s s'"
| reset: "spice_char_device_reset cbs fuel s = Inr s' \<Longrightarrow> dev_step cbs c s s'"
| new_instance: "dev_step cbs c s (spice_char_device_state_reset_dev_instance inst s)"

lemma tokens_inv_step:
  assumes "dev_step cbs c s s'" and cb: "cbs_keep (tokens_inv c w) cbs" and inv: "tokens_inv c w s"
  shows "tokens_inv c w s'"
  using assms(1)
proof cases
  case get
  then show ?thesis unfolding spice_char_device_write_buffer_get_def by (rule tokens_inv_get [OF cb inv])
next
  case get_server
  then show ?thesis
    unfolding spice_char_device_write_buffer_get_server_no_token_def by (rule tokens_inv_get [OF cb inv])
next
  case (fill a b data n)
  then show ?thesis using fill_tokens_inv [OF inv] by simp
next
  case add then show ?thesis by (rule tokens.I_buffer_add [OF cb inv])
next
  case release then show ?thesis by (rule tokens_inv_release [OF cb inv])
next
  case retry then show ?thesis by (rule tokens.I_write_retry [OF cb inv])
next
  case wakeup then show ?thesis by (rule tokens.I_wakeup [OF cb inv])
next
  case tokens_add then show ?thesis by (rule tokens.I_tokens_add [OF cb inv])
next
  case tokens_set then show ?thesis by (rule tokens.I_tokens_set [OF cb inv])
next
  case client_add then show ?thesis using tokens.I_client_add [OF cb inv] by blast
next
  case client_remove then show ?thesis by (rule tokens.I_client_remove [OF cb inv])
next
  case wait_timeout
  then show ?thesis unfolding device_client_wait_for_tokens_timeout_def by (rule tokens.I_overflow [OF cb inv])
next
  case start then show ?thesis by (rule tokens.I_start [OF cb inv])
next
  case stop then show ?thesis by (rule tokens.I_stop [OF cb inv])
next
  case reset then show ?thesis by (rule tokens.I_reset [OF cb inv])
next
  case new_instance
  then show ?thesis using inv by (simp add: spice_char_device_state_reset_dev_instance_def)
qed

end
