(* ===== verification/Char_Device_Props.thy ===== *)
theory Char_Device_Props
  imports Char_Device_Inv
begin

text \<open>
  Properties of character devices: conservation of flow-control tokens over any sequence of calls, and the
  order of the bytes written to the device.
\<close>

section \<open>Token conservation\<close>

lemma tokens_inv_steps:
  "(dev_step cbs c)\<^sup>*\<^sup>* s s' \<Longrightarrow> cbs_keep (tokens_inv c w) cbs \<Longrightarrow> tokens_inv c w s \<Longrightarrow> tokens_inv c w s'"
  by (induction rule: rtranclp_induct) (auto intro: tokens_inv_step)

lemma client_add_establishes:
  assumes cb: "cbs_keep (tokens_inv c (ucast ct)) cbs"
    and tm: "\<And>t s s'. core_timer cbs t s = Inr s' \<Longrightarrow> core_eq s s'"
    and ok: "bufs_ok c s" "clients_ok c s" "attached c s = {}" "outst c s = {}"
    and a: "spice_char_device_client_add cbs fuel c True mq ct st wm s = Inr (True, s')"
  shows "tokens_inv c (ucast ct) s'"
proof -
  let ?a = "next_addr s" and ?d = "fresh_client c True mq ct st"
  let ?s0 = "s\<lparr>wait_for_migrate_data := wm, next_addr := Suc (next_addr s)\<rparr>"
  obtain s1 where s1: "core_timer cbs (TimerAdd (WaitTimer ?a)) ?s0 = Inr s1" "?a \<notin> set (clients s1)"
    "spice_char_device_wakeup cbs fuel
      ((set_client ?a ?d s1)\<lparr>clients := ?a # clients s1, num_clients := num_clients s1 + 1\<rparr>) = Inr s'"
    using a by (auto simp: spice_char_device_client_add_def Let_def ring_put_def opt_timer_def split: if_splits)
  let ?s2 = "(set_client ?a ?d s1)\<lparr>clients := ?a # clients s1, num_clients := num_clients s1 + 1\<rparr>"
  have e: "buf_mem s1 = buf_mem s" "write_bufs_pool s1 = write_bufs_pool s" "clients s1 = clients s"
    "client_mem s1 = client_mem s" "next_addr s1 = Suc (next_addr s)"
    using tm [OF s1(1)] by (simp_all add: core_eq_def)
  have at: "attached c ?s2 = {?a}"
    using ok(3) by (auto simp: attached_def e fresh_client_def)
  have o: "outst c ?s2 = {}" using ok(4) by (simp add: outst_def e)
  have "bufs_ok c ?s2" by (rule bufs_ok_cong [OF ok(1)]) (simp_all add: e)
  moreover have "clients_ok c ?s2" using ok(2) s1(2) unfolding clients_ok_def at by simp (simp add: e)
  moreover have "balanced c (ucast ct) ?s2"
    unfolding balanced_def at inflight_def o by (simp add: fresh_client_def)
  ultimately have "tokens_inv c (ucast ct) ?s2" by (simp add: tokens_inv_def)
  from tokens.I_wakeup [OF cb this s1(3)] show ?thesis .
qed

text \<open>Callbacks that do nothing, and a device that accepts every byte and keeps it.\<close>

definition log_callbacks :: "u8 list callbacks" where
  "log_callbacks = \<lparr>read_one_msg_from_device = (\<lambda>s. Inr (None, s)), ref_msg_to_client = (\<lambda>_. Inr),
     unref_msg_to_client = (\<lambda>_. Inr), send_msg_to_client = (\<lambda>_ _. Inr), send_tokens_to_client = (\<lambda>_ _. Inr),
     on_free_self_token = None, remove_client = (\<lambda>_. Inr),
     sif_write = (\<lambda>bs s. Inr (int (length bs), s\<lparr>env := env s @ bs\<rparr>)), core_timer = (\<lambda>_. Inr),
     reds_on_destroy = Inr\<rparr>"

lemma tokens_inv_env [simp]: "tokens_inv c w (s\<lparr>env := e\<rparr>) = tokens_inv c w s"
  using tokens_inv_frame [of c w s "s\<lparr>env := e\<rparr>"] tokens_inv_frame [of c w "s\<lparr>env := e\<rparr>" s]
  by (auto simp: core_eq_def)

lemma log_callbacks_keep: "cbs_keep (tokens_inv c w) log_callbacks"
  by (auto simp: cbs_keep_def keeps_def keeps_val_def log_callbacks_def)

text \<open>
  C3: flow control conserves tokens. From the moment a flow-controlled client is added with n tokens,
  over any sequence of calls into the device (by channels, device and timers, with re-entrant
  callbacks that respect the accounting), for as long as the client is attached, the tokens it may
  still spend, those consumed but not yet returned to it and the price of its messages still on the
  way to the device add up to n.
\<close>

theorem char_dev_tokens_conserved:
  assumes "cbs_keep (tokens_inv c (ucast n)) cbs"
    and "\<And>t s s'. core_timer cbs t s = Inr s' \<Longrightarrow> core_eq s s'"
    and "bufs_ok c s0" "clients_ok c s0" "attached c s0 = {}" "outst c s0 = {}"
    and "spice_char_device_client_add cbs fuel c True mq n st wm s0 = Inr (True, s1)"
    and "(dev_step cbs c)\<^sup>*\<^sup>* s1 s" "x \<in> set (clients s)" "client_mem s x = Some d" "dc_client d = c" "do_flow_control d"
  shows "num_client_tokens d + num_client_tokens_free d + (\<Sum>a\<in>outst c s. price s a) = ucast n"
proof -
  have "tokens_inv c (ucast n) s1" by (rule client_add_establishes [OF assms(1-7)])
  then have "balanced c (ucast n) s" using tokens_inv_steps [OF assms(8,1)] by (simp add: tokens_inv_def)
  then show ?thesis using assms(9-12) by (auto simp: balanced_def attached_def inflight_def)
qed

definition demo_dev :: "u8 list char_dev" where
  "demo_dev = \<lparr>running = True, active = False, wait_for_migrate_data = False, refs = 1, freed = False,
     write_queue = [], write_bufs_pool = [], cur_write_buf = None, cur_write_buf_pos = 0,
     write_to_dev_timer = True, num_self_tokens = 5, clients = [], num_clients = 0,
     client_tokens_interval = 10, sin = Some 0, during_read = 0, during_write = 0,
     buf_mem = Map.empty, client_mem = Map.empty, next_addr = 1, env = []\<rparr>"

lemmas char_dev_step_defs = write_loop.simps read_loop.simps next_write_buf_def max_send_tokens_def
  spice_char_device_write_to_device_def spice_char_device_read_from_device_def write_finish_def opt_timer_def
  spice_char_device_wakeup_def state_ref_def state_unref_def log_callbacks_def

theorem char_dev_tokens_conserved_witness:
  "\<exists>s1 s x d. spice_char_device_client_add log_callbacks 5 3 True 8 10 0 False demo_dev = Inr (True, s1) \<and>
    spice_char_device_write_buffer_get log_callbacks (Some 3) 4 s1 = Inr (Some 2, s) \<and>
    client_mem s x = Some d \<and> num_client_tokens d = 9 \<and>
    num_client_tokens d + num_client_tokens_free d + (\<Sum>a\<in>outst 3 s. price s a) = 10"
proof -
  define d0 where "d0 = fresh_client 3 True 8 10 0"
  define s1 where "s1 = demo_dev\<lparr>next_addr := 2, client_mem := [1 \<mapsto> d0], clients := [1], num_clients := 1\<rparr>"
  define d where "d = d0\<lparr>num_client_tokens := 9\<rparr>"
  define b where "b = \<lparr>wb_origin = ORIGIN_CLIENT, wb_client = Some 3, wb_data = replicate 4 0, buf_used = 0,
    token_price = 1, wb_refs = 1\<rparr>"
  define s where "s = s1\<lparr>next_addr := 3, client_mem := [1 \<mapsto> d], buf_mem := [2 \<mapsto> b]\<rparr>"
  have a: "spice_char_device_client_add log_callbacks 5 3 True 8 10 0 False demo_dev = Inr (True, s1)"
    by (simp add: spice_char_device_client_add_def ring_put_def char_dev_step_defs s1_def d0_def demo_dev_def
        set_client_def fresh_client_def Let_def)
  have g: "spice_char_device_write_buffer_get log_callbacks (Some 3) 4 s1 = Inr (Some 2, s)"
    by (simp add: spice_char_device_write_buffer_get_def write_buffer_get_full_def take_pool_buf_def
        client_find_def get_finish_def grow_buf_def set_buf_def set_client_def s_def s1_def demo_dev_def b_def
        d_def d0_def fresh_client_def Let_def)
  have st: "(dev_step log_callbacks 3)\<^sup>*\<^sup>* s1 s" using g by (intro r_into_rtranclp dev_step.get)
  have e: "bufs_ok 3 demo_dev" "clients_ok 3 demo_dev" "attached 3 demo_dev = {}" "outst 3 demo_dev = {}"
    by (simp_all add: bufs_ok_def clients_ok_def attached_def outst_def demo_dev_def)
  have "num_client_tokens d + num_client_tokens_free d + (\<Sum>a\<in>outst 3 s. price s a) = ucast (10 :: u32)"
    by (rule char_dev_tokens_conserved [OF log_callbacks_keep _ e a st, of 1])
      (simp_all add: s_def s1_def demo_dev_def d_def d0_def fresh_client_def log_callbacks_def core_eq_def)
  moreover have "client_mem s 1 = Some d" "num_client_tokens d = 9" by (simp_all add: s_def d_def)
  moreover have u: "ucast (10 :: u32) = (10 :: u64)" by simp
  ultimately show ?thesis using a g unfolding u by blast
qed



section \<open>The bytes written to the device\<close>

text \<open>
  A device that keeps the bytes it accepts: each write takes some prefix of what it is offered, of any
  length, or nothing. The other callbacks do not touch the device.
\<close>

definition stream_device :: "u8 list callbacks \<Rightarrow> bool" where
  "stream_device cbs = ((\<forall>bs s. \<exists>n. n \<le> int (length bs) \<and>
       sif_write cbs bs s = Inr (n, s\<lparr>env := env s @ take (nat n) bs\<rparr>)) \<and>
     (\<forall>c n s. send_tokens_to_client cbs c n s = Inr s) \<and>
     (\<forall>f s. on_free_self_token cbs = Some f \<longrightarrow> f s = Inr s) \<and> (\<forall>t s. core_timer cbs t s = Inr s))"

definition buf_bytes :: "'e char_dev \<Rightarrow> addr \<Rightarrow> u8 list" where
  "buf_bytes s a = (case buf_mem s a of None \<Rightarrow> [] | Some b \<Rightarrow> take (unat (buf_used b)) (wb_data b))"

definition pending :: "'e char_dev \<Rightarrow> u8 list" where
  "pending s = (case cur_write_buf s of None \<Rightarrow> [] | Some a \<Rightarrow> drop (cur_write_buf_pos s) (buf_bytes s a)) @
     concat (map (buf_bytes s) (rev (write_queue s)))"

definition buf_ready :: "'e char_dev \<Rightarrow> addr \<Rightarrow> bool" where
  "buf_ready s a = (\<exists>b. buf_mem s a = Some b \<and> buf_used b \<noteq> 0 \<and> unat (buf_used b) \<le> length (wb_data b) \<and>
     wb_refs b = 1 \<and> a \<notin> set (write_bufs_pool s) \<and>
     (wb_origin b = ORIGIN_CLIENT \<longrightarrow> (\<exists>c x. wb_client b = Some c \<and> client_find c s = Inr (Some x))))"

definition stream_ok :: "'e char_dev \<Rightarrow> bool" where
  "stream_ok s = (distinct (write_queue s) \<and> (\<forall>a\<in>set (write_queue s). buf_ready s a) \<and>
     (\<forall>a. cur_write_buf s = Some a \<longrightarrow> a \<notin> set (write_queue s) \<and> buf_ready s a \<and>
       cur_write_buf_pos s < length (buf_bytes s a)))"

lemma client_find_in_upd:
  "m x = Some d \<Longrightarrow> dc_client d' = dc_client d \<Longrightarrow> client_find_in c (m(x \<mapsto> d')) xs = client_find_in c m xs"
  by (induction xs) (auto cong: if_cong)

text \<open>Releasing a written buffer moves it to the pool and disturbs no other buffer.\<close>

definition released :: "addr \<Rightarrow> 'e char_dev \<Rightarrow> 'e char_dev \<Rightarrow> bool" where
  "released a s s' = ((\<forall>x. x \<noteq> a \<longrightarrow> buf_mem s' x = buf_mem s x) \<and> write_bufs_pool s' = a # write_bufs_pool s \<and>
     (\<forall>c. client_find c s' = client_find c s) \<and> env s' = env s \<and> write_queue s' = write_queue s \<and>
     cur_write_buf s' = cur_write_buf s \<and> cur_write_buf_pos s' = cur_write_buf_pos s \<and> running s' = running s \<and>
     during_write s' = during_write s)"

lemma release_stream:
  assumes st: "stream_device cbs" and r: "buf_ready s a" and a: "a \<notin> set (write_queue s)" "cur_write_buf s \<noteq> Some a"
  shows "\<exists>s'. write_buffer_release cbs a s = Inr s' \<and> released a s s'"
proof -
  obtain b where b: "buf_mem s a = Some b" "wb_refs b = 1" "a \<notin> set (write_bufs_pool s)"
    "wb_origin b = ORIGIN_CLIENT \<longrightarrow> (\<exists>c x. wb_client b = Some c \<and> client_find c s = Inr (Some x))"
    using r by (auto simp: buf_ready_def)
  let ?b = "b\<lparr>buf_used := 0, wb_origin := ORIGIN_NONE, wb_client := None\<rparr>"
  let ?s1 = "(set_buf a ?b s)\<lparr>write_bufs_pool := a # write_bufs_pool s\<rparr>"
  have p: "pool_add a s = Inr ?s1" using b by (simp add: pool_add_def ring_put_def)
  have cf: "client_find c ?s1 = client_find c s" for c by (simp add: client_find_def set_buf_def)
  have r1: "released a s ?s1" by (simp add: released_def cf) (simp add: set_buf_def)
  show ?thesis
  proof (cases "wb_origin b")
    case ORIGIN_CLIENT
    then obtain c x where c: "wb_client b = Some c" "client_find c s = Inr (Some x)" using b(4) by blast
    then have "x \<in> attached c s" by (intro client_find_some)
    then obtain d where d: "client_mem s x = Some d" by (auto simp: attached_def)
    then have d1: "client_mem ?s1 x = Some d" by (simp add: set_buf_def)
    have upd: "released a s (set_client x d' ?s1)" if "dc_client d' = dc_client d" for d'
    proof -
      have "client_find c (set_client x d' ?s1) = client_find c s" for c
        using client_find_in_upd [of "client_mem ?s1" x d d' c, OF d1 that] cf [of c] by (simp add: client_find_def set_client_def)
      then show ?thesis using r1 by (simp add: released_def) (simp add: set_client_def)
    qed
    have "\<exists>s'. client_tokens_add cbs x (token_price b) ?s1 = Inr s' \<and> released a s s'"
      using st d1 r1 upd by (auto simp: client_tokens_add_def Let_def stream_device_def)
    then show ?thesis using b a p ORIGIN_CLIENT c cf by (simp add: write_buffer_release_def)
  next
    case ORIGIN_SERVER
    let ?s2 = "?s1\<lparr>num_self_tokens := num_self_tokens ?s1 + 1\<rparr>"
    have "client_find c ?s2 = client_find c s" for c using cf [of c] by (simp add: client_find_def)
    then have "released a s ?s2" using r1 by (simp add: released_def)
    then show ?thesis
      using b a p ORIGIN_SERVER st by (auto simp: write_buffer_release_def Let_def stream_device_def split: option.splits)
  qed (use b a p r1 in \<open>auto simp: write_buffer_release_def\<close>)
qed

lemma released_ready:
  assumes "released a s s'" "buf_ready s x" "x \<noteq> a"
  shows "buf_ready s' x \<and> buf_bytes s' x = buf_bytes s x"
  using assms by (auto simp: released_def buf_ready_def buf_bytes_def)

lemma buf_bytes_length: "buf_ready s a \<Longrightarrow> 0 < length (buf_bytes s a) \<and> length (buf_bytes s a) < 2 ^ 32"
proof -
  assume "buf_ready s a"
  then obtain b where b: "buf_mem s a = Some b" "buf_used b \<noteq> 0" "unat (buf_used b) \<le> length (wb_data b)"
    by (auto simp: buf_ready_def)
  have "unat (buf_used b) < 2 ^ 32" using unsigned_less [of "buf_used b"] by simp
  then show ?thesis using b by (simp add: buf_bytes_def unat_gt_0)
qed

lemma minus_of_nat: "p \<le> unat (u :: u32) \<Longrightarrow> u - of_nat p = of_nat (unat u - p)"
  by (simp add: of_nat_diff)

lemma unat_minus_of_nat: "p \<le> unat (u :: u32) \<Longrightarrow> unat (u - of_nat p) = unat u - p"
  using less_imp_diff_less [OF unsigned_less [of u, where ?'a = nat]] unfolding minus_of_nat
  by (intro unat_of_nat_small) simp

lemma cur_chunk_eq:
  assumes "cur_write_buf s = Some a" "buf_ready s a" "cur_write_buf_pos s < length (buf_bytes s a)"
  shows "cur_chunk s = Inr (drop (cur_write_buf_pos s) (buf_bytes s a),
    of_nat (length (drop (cur_write_buf_pos s) (buf_bytes s a))))"
proof -
  obtain b where b: "buf_mem s a = Some b" "unat (buf_used b) \<le> length (wb_data b)"
    using assms(2) by (auto simp: buf_ready_def)
  have l: "length (buf_bytes s a) = unat (buf_used b)" using b by (simp add: buf_bytes_def)
  let ?p = "cur_write_buf_pos s"
  have p: "?p \<le> unat (buf_used b)" using assms(3) l by simp
  have d: "drop ?p (buf_bytes s a) = take (unat (buf_used b) - ?p) (drop ?p (wb_data b))"
    by (simp add: buf_bytes_def b(1) drop_take)
  have le: "?p + (unat (buf_used b) - ?p) \<le> length (wb_data b)" using assms(3) l b(2) by linarith
  have ld: "length (drop ?p (buf_bytes s a)) = unat (buf_used b) - ?p" using l by simp
  have "cur_chunk s = (let len = buf_used b - of_nat ?p in
      if ?p + unat len \<le> length (wb_data b) then Inr (take (unat len) (drop ?p (wb_data b)), len) else Inl OutOfBounds)"
    using assms(1) b(1) by (simp add: cur_chunk_def get_buf_def)
  then show ?thesis unfolding ld unfolding d using le by (simp only: Let_def unat_minus_of_nat [OF p] minus_of_nat [OF p, symmetric] if_True)
qed

lemma next_write_buf_stream:
  assumes ok: "stream_ok s" and n: "next_write_buf s = Some s1"
  shows "\<exists>a. cur_write_buf s1 = Some a \<and> stream_ok s1 \<and> pending s1 = pending s \<and> env s1 = env s \<and>
    running s1 = running s \<and> during_write s1 = during_write s"
proof (cases "cur_write_buf s")
  case None
  then obtain q a where q: "write_queue s = q @ [a]" "s1 = s\<lparr>cur_write_buf := Some a, cur_write_buf_pos := 0, write_queue := q\<rparr>"
    using n by (auto simp: next_write_buf_def split: if_splits) (metis append_butlast_last_id)
  have rd: "buf_ready s1 x = buf_ready s x" "buf_bytes s1 x = buf_bytes s x" for x
    by (simp_all add: q(2) buf_ready_def buf_bytes_def client_find_def)
  have "stream_ok s1"
    using ok q(1) buf_bytes_length [of s a] by (auto simp: stream_ok_def rd) (auto simp: q(2))
  moreover have "buf_bytes s1 = buf_bytes s" by (rule ext) (rule rd(2))
  then have "pending s1 = pending s" using None q(1) by (simp add: pending_def) (simp add: q(2))
  ultimately show ?thesis by (simp add: q(2))
qed (use n ok in \<open>auto simp: next_write_buf_def\<close>)

lemma write_loop_stream:
  assumes st: "stream_device cbs"
  shows "stream_ok s \<Longrightarrow> running s \<Longrightarrow> during_write s = 1 \<Longrightarrow> length (pending s) < fuel \<Longrightarrow>
    \<exists>n s'. write_loop cbs fuel tot s = Inr (tot + int n, s') \<and> stream_ok s' \<and> running s' \<and>
      (cur_write_buf s' = None \<longrightarrow> write_queue s' = []) \<and>
      env s' @ pending s' = env s @ pending s \<and> length (env s') = length (env s) + n"
proof (induction fuel arbitrary: tot s)
  case (Suc k)
  show ?case
  proof (cases "next_write_buf s")
    case None
    then have "cur_write_buf s = None" "write_queue s = []" by (auto simp: next_write_buf_def split: option.splits if_splits)
    then show ?thesis using None Suc.prems
      by (intro exI [of _ 0] exI [of _ s]) (simp add: write_loop.simps [of cbs "Suc k"])
  next
    case (Some s1)
    from next_write_buf_stream [OF Suc.prems(1) Some] obtain a where a: "cur_write_buf s1 = Some a" "stream_ok s1"
      "pending s1 = pending s" "env s1 = env s" "running s1" "during_write s1 = 1"
      using Suc.prems(2,3) by auto
    have r: "buf_ready s1 a" "cur_write_buf_pos s1 < length (buf_bytes s1 a)" "a \<notin> set (write_queue s1)"
      using a(1,2) by (auto simp: stream_ok_def)
    define bs where "bs = drop (cur_write_buf_pos s1) (buf_bytes s1 a)"
    have bs: "cur_chunk s1 = Inr (bs, of_nat (length bs))" using cur_chunk_eq [OF a(1) r(1,2)] by (simp add: bs_def)
    have pend: "pending s = bs @ concat (map (buf_bytes s1) (rev (write_queue s1)))"
      using a(1,3) by (simp add: pending_def bs_def)
    have bl: "length bs < 2 ^ 32" using buf_bytes_length [OF r(1)] by (auto simp: bs_def)
    obtain n where n: "n \<le> int (length bs)" "sif_write cbs bs s1 = Inr (n, s1\<lparr>env := env s1 @ take (nat n) bs\<rparr>)"
      using st unfolding stream_device_def by blast
    let ?s2 = "s1\<lparr>env := env s1 @ take (nat n) bs\<rparr>"
    have step: "write_loop cbs (Suc k) tot s =
      (if n \<le> 0 then (if during_write ?s2 > 1 then write_loop cbs k tot (?s2\<lparr>during_write := 1\<rparr>) else Inr (tot, ?s2))
       else if of_nat (length bs) - (of_int n :: u32) = 0
       then rbind (deref (cur_write_buf ?s2)) (\<lambda>a.
         rbind (write_buffer_release cbs a (?s2\<lparr>cur_write_buf := None\<rparr>)) (write_loop cbs k (tot + n)))
       else write_loop cbs k (tot + n) (?s2\<lparr>cur_write_buf_pos := cur_write_buf_pos ?s2 + nat n\<rparr>))"
      using Some bs n(2) Suc.prems(2) by (simp add: write_loop.simps [of cbs "Suc k"])
    have rd: "buf_ready (s1\<lparr>env := e, cur_write_buf := c, cur_write_buf_pos := p\<rparr>) x = buf_ready s1 x"
      "buf_bytes (s1\<lparr>env := e, cur_write_buf := c, cur_write_buf_pos := p\<rparr>) = buf_bytes s1" for e c p x
      by (simp_all add: buf_ready_def buf_bytes_def [abs_def] client_find_def)
    note rd' = rd [where c = "cur_write_buf s1" and p = "cur_write_buf_pos s1", simplified]
      rd [where p = "cur_write_buf_pos s1", simplified] rd [where c = "cur_write_buf s1", simplified]
    show ?thesis
    proof (cases "n \<le> 0")
      case True
      have "stream_ok ?s2" using a(2) by (simp add: stream_ok_def rd')
      moreover have "pending ?s2 = pending s1" by (simp add: pending_def rd' cong: option.case_cong)
      ultimately show ?thesis
        using True a(1,3-6) step by (intro exI [of _ 0] exI [of _ ?s2]) simp
    next
      case False
      then obtain m where m: "n = int m" "0 < m" "m \<le> length bs" using n(1) by (cases n) auto
      show ?thesis
      proof (cases "m = length bs")
        case True
        let ?s3 = "?s2\<lparr>cur_write_buf := None\<rparr>"
        have "buf_ready ?s3 a" using r(1) by (simp add: rd')
        from release_stream [OF st this] r(3) obtain s4 where s4: "write_buffer_release cbs a ?s3 = Inr s4" "released a ?s3 s4"
          by auto
        have q: "write_queue s4 = write_queue s1" "cur_write_buf s4 = None" "running s4" "during_write s4 = 1"
          "env s4 = env s @ bs" using s4(2) a m True by (auto simp: released_def)
        have rr: "buf_ready s4 x \<and> buf_bytes s4 x = buf_bytes s1 x" if "x \<in> set (write_queue s1)" for x
          using released_ready [OF s4(2), of x] that a(2) r(3) by (auto simp: stream_ok_def rd')
        have ok4: "stream_ok s4" using a(2) rr q by (auto simp: stream_ok_def)
        have p4: "pending s4 = concat (map (buf_bytes s1) (rev (write_queue s1)))"
          using rr by (auto simp: pending_def q intro!: arg_cong [of _ _ concat] map_cong)
        have len: "length (pending s4) < k"
          using Suc.prems(4) m(2) unfolding pend p4 True length_append by linarith
        from Suc.IH [OF ok4 q(3,4) len, of "tot + int m"] obtain n' s' where
          "write_loop cbs k (tot + int m) s4 = Inr (tot + int m + int n', s')" "stream_ok s'" "running s'"
          "cur_write_buf s' = None \<longrightarrow> write_queue s' = []" "env s' @ pending s' = env s4 @ pending s4"
          "length (env s') = length (env s4) + n'" by (elim exE conjE)
        then show ?thesis
          using step a(1) m True s4(1) pend p4 q(5) by (intro exI [of _ "m + n'"] exI [of _ s']) simp
      next
        case False
        let ?s3 = "?s2\<lparr>cur_write_buf_pos := cur_write_buf_pos s1 + m\<rparr>"
        have "of_nat (length bs) - (of_int n :: u32) \<noteq> 0"
        proof
          assume "of_nat (length bs) - (of_int n :: u32) = 0"
          then have "(of_nat (length bs) :: u32) = of_nat m" by (simp add: m(1))
          then have "unat (of_nat (length bs) :: u32) = unat (of_nat m :: u32)" by simp
          then show False using bl m(3) False by (simp add: unat_of_nat_small)
        qed
        then have st3: "write_loop cbs (Suc k) tot s = write_loop cbs k (tot + int m) ?s3" using step m by simp
        have pos: "cur_write_buf_pos s1 + m < length (buf_bytes s1 a)" using m(3) False by (simp add: bs_def)
        have ok3: "stream_ok ?s3" using a(1,2) pos by (auto simp: stream_ok_def rd')
        have p3: "pending ?s3 = drop m bs @ concat (map (buf_bytes s1) (rev (write_queue s1)))"
          using a(1) by (simp add: pending_def rd' bs_def add.commute cong: map_cong)
        have len: "length (pending ?s3) < k"
          using Suc.prems(4) m(2,3) unfolding pend p3 length_append length_drop by linarith
        have q: "running ?s3" "during_write ?s3 = 1" "env ?s3 = env s @ take m bs" using a m by simp_all
        have ep: "env ?s3 @ pending ?s3 = env s @ pending s"
          unfolding q(3) pend p3 by (metis append.assoc append_take_drop_id)
        from Suc.IH [OF ok3 q(1,2) len, of "tot + int m"] obtain n' s' where
          "write_loop cbs k (tot + int m) ?s3 = Inr (tot + int m + int n', s')" "stream_ok s'" "running s'"
          "cur_write_buf s' = None \<longrightarrow> write_queue s' = []" "env s' @ pending s' = env ?s3 @ pending ?s3"
          "length (env s') = length (env ?s3) + n'" by (elim exE conjE)
        then show ?thesis
          using st3 q(3) m(3) ep by (intro exI [of _ "m + n'"] exI [of _ s']) simp
      qed
    qed
  qed
qed simp

lemma stream_ok_frame:
  assumes "buf_mem s' = buf_mem s" "write_bufs_pool s' = write_bufs_pool s" "clients s' = clients s"
    "client_mem s' = client_mem s" "cur_write_buf s' = cur_write_buf s" "cur_write_buf_pos s' = cur_write_buf_pos s"
    "write_queue s' = write_queue s"
  shows "stream_ok s' = stream_ok s \<and> pending s' = pending s"
proof -
  have "buf_ready s' x = buf_ready s x" for x using assms(1-4) by (simp add: buf_ready_def client_find_def)
  moreover have "buf_bytes s' = buf_bytes s" using assms(1) by (simp add: buf_bytes_def [abs_def])
  ultimately show ?thesis using assms(5-7) by (simp add: stream_ok_def pending_def cong: option.case_cong)
qed

lemma write_finish_stream:
  assumes st: "stream_device cbs" and "stream_ok s" "running s" "cur_write_buf s = None \<longrightarrow> write_queue s = []"
  shows "\<exists>s'. write_finish cbs tot s = Inr s' \<and> stream_ok s' \<and> pending s' = pending s \<and> env s' = env s \<and> during_write s' = 0"
proof -
  let ?s' = "state_unref (s\<lparr>active := (active s \<or> tot \<noteq> 0), during_write := 0\<rparr>)"
  have t: "core_timer cbs t s = Inr s" for t s using st unfolding stream_device_def by blast
  have "write_finish cbs tot s = Inr ?s'" using assms(3,4) by (simp add: write_finish_def opt_timer_def t)
  moreover have "stream_ok ?s' = stream_ok s \<and> pending ?s' = pending s"
    by (rule stream_ok_frame) (simp_all add: state_unref_def Let_def)
  ultimately show ?thesis using assms(2) by (simp add: state_unref_def Let_def)
qed

lemma write_to_device_stream:
  assumes st: "stream_device cbs" and ok: "stream_ok s" and r: "running s" "\<not> wait_for_migrate_data s" "sin s \<noteq> None"
    and w: "during_write s = 0" and f: "length (pending s) < fuel"
  shows "\<exists>n s'. spice_char_device_write_to_device cbs fuel s = Inr (int n, s') \<and> stream_ok s' \<and>
    env s' @ pending s' = env s @ pending s \<and> length (env s') = length (env s) + n \<and> during_write s' = 0"
proof -
  let ?s1 = "state_ref (s\<lparr>during_write := during_write s + 1\<rparr>)"
  have t: "core_timer cbs t s = Inr s" for t s using st unfolding stream_device_def by blast
  have "stream_ok ?s1 = stream_ok s \<and> pending ?s1 = pending s" by (rule stream_ok_frame) (simp_all add: state_ref_def)
  moreover have "running ?s1" "during_write ?s1 = 1" "env ?s1 = env s" using r w by (simp_all add: state_ref_def)
  ultimately obtain n s2 where l: "write_loop cbs fuel 0 ?s1 = Inr (int n, s2)" "stream_ok s2" "running s2"
    "cur_write_buf s2 = None \<longrightarrow> write_queue s2 = []" "env s2 @ pending s2 = env s @ pending s"
    "length (env s2) = length (env s) + n"
    using write_loop_stream [OF st, of ?s1 fuel 0] ok f by auto
  from write_finish_stream [OF st l(2-4), of "int n"] obtain s3 where "write_finish cbs (int n) s2 = Inr s3"
    "stream_ok s3" "pending s3 = pending s2" "env s3 = env s2" "during_write s3 = 0" by blast
  then show ?thesis using r w l t
    by (auto simp: spice_char_device_write_to_device_def opt_timer_def)
qed

text \<open>
  C4: the device sees a byte stream. On a running device that accepts some prefix of what it is
  offered, adding a buffer with fuel for the pending bytes returns; the bytes written so far followed by those
  still pending are exactly what they were before followed by the bytes of the new buffer: nothing is lost, repeated
  or reordered, whatever the lengths the device accepts.
\<close>

theorem char_dev_write_stream:
  assumes "stream_device cbs" "stream_ok s" "running s" "\<not> wait_for_migrate_data s" "sin s \<noteq> None" "during_write s = 0"
    and "buf_ready s a" "a \<notin> set (write_queue s)" "cur_write_buf s \<noteq> Some a"
    and "length (pending s) + length (buf_bytes s a) < fuel"
  shows "\<exists>s'. spice_char_device_write_buffer_add cbs fuel a s = Inr s' \<and> stream_ok s' \<and>
    env s' @ pending s' = env s @ pending s @ buf_bytes s a \<and> length (env s) \<le> length (env s')"
proof -
  let ?s = "s\<lparr>write_queue := a # write_queue s\<rparr>"
  obtain b where b: "buf_mem s a = Some b" "a \<notin> set (write_bufs_pool s)"
    "wb_origin b = ORIGIN_CLIENT \<longrightarrow> (\<exists>c x. wb_client b = Some c \<and> client_find c s = Inr (Some x))"
    using assms(7) by (auto simp: buf_ready_def)
  have rd: "buf_ready ?s x = buf_ready s x" "buf_bytes ?s = buf_bytes s" for x
    by (simp_all add: buf_ready_def buf_bytes_def [abs_def] client_find_def)
  have ok: "stream_ok ?s" using assms(2,7-9) by (auto simp: stream_ok_def rd)
  have p: "pending ?s = pending s @ buf_bytes s a" by (simp add: pending_def rd cong: option.case_cong)
  have "spice_char_device_write_buffer_add cbs fuel a s =
      rbind (spice_char_device_write_to_device cbs fuel ?s) (\<lambda>(n, s1). Inr s1)"
    using b assms(8) by (auto simp: spice_char_device_write_buffer_add_def get_buf_def)
  moreover obtain n s' where "spice_char_device_write_to_device cbs fuel ?s = Inr (int n, s')" "stream_ok s'"
    "env s' @ pending s' = env ?s @ pending ?s" "length (env s') = length (env ?s) + n"
    using write_to_device_stream [OF assms(1) ok, of fuel] assms(3-6,10) p by auto
  ultimately show ?thesis using p by simp
qed

definition demo_busy_dev :: "u8 list char_dev" where
  "demo_busy_dev = demo_dev\<lparr>next_addr := 3, buf_mem := [1 \<mapsto> \<lparr>wb_origin = ORIGIN_SERVER_NO_TOKEN, wb_client = None,
      wb_data = [1, 2, 3], buf_used = 3, token_price = 1, wb_refs = 1\<rparr>,
    2 \<mapsto> \<lparr>wb_origin = ORIGIN_SERVER_NO_TOKEN, wb_client = None, wb_data = [4, 5, 6], buf_used = 2, token_price = 1,
      wb_refs = 1\<rparr>], cur_write_buf := Some 1, cur_write_buf_pos := 1\<rparr>"

theorem char_dev_write_stream_witness:
  "\<exists>s'. spice_char_device_write_buffer_add log_callbacks 8 2 demo_busy_dev = Inr s' \<and> stream_ok s' \<and>
    env s' @ pending s' = [2, 3, 4, 5]"
proof -
  have "stream_device log_callbacks"
    unfolding stream_device_def log_callbacks_def by (auto intro!: exI [of _ "int (length _)"])
  moreover have "stream_ok demo_busy_dev" "buf_ready demo_busy_dev 2"
    by (simp_all add: stream_ok_def buf_ready_def demo_busy_dev_def demo_dev_def buf_bytes_def)
  ultimately show ?thesis
    using char_dev_write_stream [of log_callbacks demo_busy_dev 2 8]
    by (auto simp: demo_busy_dev_def demo_dev_def pending_def buf_bytes_def)
qed

end
