(* ===== verification/Char_Device_Life.thy ===== *)
theory Char_Device_Life
  imports Char_Device_Props
begin

text \<open>
  The end of a character device's life on one host and its start on another: the order in which
  \<open>spice_char_device_state_destroy\<close> frees what the device owns, and the migration of the data that
  was not yet written to the device.
\<close>

section \<open>Destruction\<close>

lemma free_bufs_keep:
  "distinct (a # as) \<Longrightarrow> set as \<subseteq> dom (buf_mem s) \<Longrightarrow>
    \<exists>m. free_bufs as s = Inr (s\<lparr>buf_mem := m\<rparr>) \<and> (\<forall>x. x \<notin> set as \<longrightarrow> m x = buf_mem s x)"
proof (induction as arbitrary: s)
  case Nil
  show ?case by (rule exI [of _ "buf_mem s"]) simp
next
  case (Cons y as)
  then obtain b where b: "buf_mem s y = Some b" by auto
  define m0 where "m0 = (if wb_refs b - 1 = 0 then (buf_mem s)(y := None) else (buf_mem s)(y \<mapsto> b\<lparr>wb_refs := wb_refs b - 1\<rparr>))"
  have f: "write_buffer_free y s = Inr (s\<lparr>buf_mem := m0\<rparr>)"
    by (simp add: write_buffer_free_def get_buf_def b set_buf_def m0_def Let_def)
  have o: "m0 x = buf_mem s x" if "x \<noteq> y" for x using that by (simp add: m0_def)
  have "set as \<subseteq> dom m0"
  proof
    fix x assume x: "x \<in> set as"
    then have "x \<noteq> y" "x \<in> dom (buf_mem s)" using Cons.prems by auto
    then show "x \<in> dom m0" using o by (simp add: dom_def)
  qed
  then have "set as \<subseteq> dom (buf_mem (s\<lparr>buf_mem := m0\<rparr>))" by simp
  from Cons.IH [OF _ this] Cons.prems obtain m where
    "free_bufs as (s\<lparr>buf_mem := m0\<rparr>) = Inr (s\<lparr>buf_mem := m\<rparr>)" "\<forall>x. x \<notin> set as \<longrightarrow> m x = m0 x" by auto
  then show ?case using f o by (intro exI [of _ m]) simp
qed

text \<open>
  C34: destroying a device that holds a partly written buffer while a client is attached reads the
  buffer after it was freed: \<open>spice_char_device_state_destroy\<close> frees \<open>cur_write_buf\<close> but does not clear
  the pointer, and freeing the client then follows it.
\<close>

theorem char_dev_destroy_use_after_free:
  assumes "\<forall>s. reds_on_destroy cbs s = Inr s" "\<forall>t s. core_timer cbs t s = Inr s"
    and "cur_write_buf s = Some a" "buf_mem s a = Some b" "wb_refs b = 1"
    and "distinct (a # write_queue s @ write_bufs_pool s)" "set (write_queue s @ write_bufs_pool s) \<subseteq> dom (buf_mem s)"
    and "clients s = cs @ [x]" "client_mem s x = Some d" "send_queue d = []"
  shows "spice_char_device_state_destroy cbs (Suc fuel) s = Inl NullDeref"
proof -
  let ?q = "rev (write_queue s)" and ?p = "rev (write_bufs_pool s)"
  obtain m1 where m1: "free_bufs ?q (s\<lparr>write_queue := []\<rparr>) = Inr (s\<lparr>write_queue := [], buf_mem := m1\<rparr>)"
    "\<forall>x. x \<notin> set ?q \<longrightarrow> m1 x = buf_mem s x"
    using free_bufs_keep [of a ?q "s\<lparr>write_queue := []\<rparr>"] assms(6,7) by auto
  have "set ?p \<subseteq> dom m1"
  proof
    fix x assume "x \<in> set ?p"
    then have "x \<notin> set ?q" "x \<in> dom (buf_mem s)" using assms(6,7) by auto
    then show "x \<in> dom m1" using m1(2) by (simp add: dom_def)
  qed
  then obtain m2 where m2: "free_bufs ?p (s\<lparr>write_queue := [], buf_mem := m1, write_bufs_pool := []\<rparr>) =
      Inr (s\<lparr>write_queue := [], write_bufs_pool := [], buf_mem := m2\<rparr>)" "\<forall>x. x \<notin> set ?p \<longrightarrow> m2 x = m1 x"
    using free_bufs_keep [of a ?p "s\<lparr>write_queue := [], buf_mem := m1, write_bufs_pool := []\<rparr>"] assms(6) by auto
  have a: "m2 a = Some b" using m1(2) m2(2) assms(4,6) by auto
  define t where "t = s\<lparr>write_queue := [], write_bufs_pool := [], buf_mem := m2(a := None)\<rparr>"
  have t: "clients t = cs @ [x]" "client_mem t x = Some d" "write_queue t = []" "cur_write_buf t = Some a" "buf_mem t a = None"
    using assms by (simp_all add: t_def)
  have "send_queue_drop cbs fuel x t = Inr t"
    by (subst send_queue_drop.simps) (simp add: get_client_def t assms(10))
  then have "spice_char_device_client_free cbs fuel x t = Inl NullDeref"
    using assms(2) t by (simp add: spice_char_device_client_free_def client_send_queue_free_def get_client_def opt_timer_def
        set_client_def forget_cur_client_def get_buf_def)
  then have "free_all_clients cbs (Suc fuel) t = Inl NullDeref"
    by (subst free_all_clients.simps) (simp add: t(1))
  then show ?thesis
    using assms(1-3,5) m1(1) m2(1) a by (simp add: spice_char_device_state_destroy_def opt_timer_def write_queue_free_def
        write_pool_free_def write_buffer_free_def get_buf_def Let_def t_def)
qed

theorem char_dev_destroy_use_after_free_witness:
  "\<exists>s. spice_char_device_client_add log_callbacks 5 7 True 8 10 0 False (demo_busy_dev\<lparr>running := False\<rparr>) = Inr (True, s) \<and>
    spice_char_device_state_destroy log_callbacks 1 s = Inl NullDeref"
proof -
  define s where "s = demo_busy_dev\<lparr>running := False, next_addr := 4, client_mem := [3 \<mapsto> fresh_client 7 True 8 10 0],
    clients := [3], num_clients := 1\<rparr>"
  have "spice_char_device_client_add log_callbacks 5 7 True 8 10 0 False (demo_busy_dev\<lparr>running := False\<rparr>) = Inr (True, s)"
    by (simp add: spice_char_device_client_add_def ring_put_def char_dev_step_defs s_def demo_busy_dev_def demo_dev_def
        set_client_def Let_def)
  moreover have "spice_char_device_state_destroy log_callbacks (Suc 0) s = Inl NullDeref"
    by (rule char_dev_destroy_use_after_free [where cs = "[]" and x = 3 and a = 1
          and b = "the (buf_mem demo_busy_dev 1)" and d = "fresh_client 7 True 8 10 0"])
      (simp_all add: s_def demo_busy_dev_def demo_dev_def log_callbacks_def fresh_client_def)
  ultimately show ?thesis by auto
qed


section \<open>Migration\<close>

text \<open>
  A buffer that can be migrated with client c: allocated, filled within its memory, and the client's
  own if a client filled it. Its tokens are returned when it is written, on whichever host.
\<close>

definition mig_ok :: "client_id \<Rightarrow> 'e char_dev \<Rightarrow> addr \<Rightarrow> bool" where
  "mig_ok c s a = (\<exists>b. buf_mem s a = Some b \<and> unat (buf_used b) \<le> length (wb_data b) \<and>
     (wb_origin b = ORIGIN_CLIENT \<longrightarrow> wb_client b = Some c))"

definition mig_price :: "'e char_dev \<Rightarrow> addr \<Rightarrow> u32" where
  "mig_price s a = (case buf_mem s a of None \<Rightarrow> 0
     | Some b \<Rightarrow> if wb_origin b = ORIGIN_CLIENT then token_price b else 0)"

definition add_data :: "u8 list \<Rightarrow> u32 \<Rightarrow> mig_data \<Rightarrow> mig_data" where
  "add_data bs n m = m\<lparr>write_size := write_size m + of_nat (length bs),
     write_num_client_tokens := write_num_client_tokens m + n, write_data := write_data m @ bs\<rparr>"

lemma add_data_add: "add_data ys k (add_data xs n m) = add_data (xs @ ys) (n + k) m"
  by (simp add: add_data_def algebra_simps)

lemma add_data_zero [simp]: "add_data [] 0 m = m"
  by (simp add: add_data_def)

lemma ref_keeps:
  assumes "buf_mem s a = Some b"
  shows "mig_ok c (set_buf a (b\<lparr>wb_refs := r\<rparr>) s) = mig_ok c s"
    "buf_bytes (set_buf a (b\<lparr>wb_refs := r\<rparr>) s) = buf_bytes s" "mig_price (set_buf a (b\<lparr>wb_refs := r\<rparr>) s) = mig_price s"
  using assms by (auto simp: mig_ok_def buf_bytes_def mig_price_def set_buf_def fun_eq_iff)

lemma marshall_buf_eq:
  assumes "mig_ok c s a" "p \<le> length (buf_bytes s a)"
  shows "\<exists>s'. marshall_buf c a p (m, s) = Inr (add_data (drop p (buf_bytes s a)) (mig_price s a) m, s') \<and>
    mig_ok c s' = mig_ok c s \<and> buf_bytes s' = buf_bytes s \<and> mig_price s' = mig_price s"
proof -
  obtain b where b: "buf_mem s a = Some b" "unat (buf_used b) \<le> length (wb_data b)"
    "wb_origin b = ORIGIN_CLIENT \<longrightarrow> wb_client b = Some c" using assms(1) by (auto simp: mig_ok_def)
  let ?u = "buf_used b - of_nat p"
  have p: "p \<le> unat (buf_used b)" using assms(2) b(1,2) by (simp add: buf_bytes_def)
  have u: "unat ?u = unat (buf_used b) - p" by (rule unat_minus_of_nat [OF p])
  have d: "take (unat ?u) (drop p (wb_data b)) = drop p (buf_bytes s a)" unfolding u by (simp add: buf_bytes_def b(1) drop_take)
  have "length (drop p (buf_bytes s a)) = unat ?u" unfolding u using b by (simp add: buf_bytes_def)
  then have l: "of_nat (length (drop p (buf_bytes s a))) = ?u" by (simp only: of_nat_unat ucast_id)
  have "marshall_buf c a p (m, s) =
    Inr (add_data (drop p (buf_bytes s a)) (mig_price s a) m, set_buf a (b\<lparr>wb_refs := wb_refs b + 1\<rparr>) s)"
    unfolding add_data_def l using b
    by (simp add: marshall_buf_def get_buf_def write_buffer_ref_def Let_def d mig_price_def)
  then show ?thesis using ref_keeps [OF b(1)] by blast
qed

lemma marshall_bufs_eq:
  "\<forall>a\<in>set as. mig_ok c s a \<Longrightarrow>
    \<exists>s'. marshall_bufs c as (m, s) = Inr (add_data (concat (map (buf_bytes s) as)) (sum_list (map (mig_price s) as)) m, s')"
proof (induction as arbitrary: m s)
  case (Cons a as)
  from marshall_buf_eq [of c s a 0 m] Cons.prems obtain s1 where
    s1: "marshall_buf c a 0 (m, s) = Inr (add_data (buf_bytes s a) (mig_price s a) m, s1)"
    "mig_ok c s1 = mig_ok c s" "buf_bytes s1 = buf_bytes s" "mig_price s1 = mig_price s" by auto
  from Cons.IH [of s1 "add_data (buf_bytes s a) (mig_price s a) m"] Cons.prems s1 show ?case by (simp add: add_data_add)
qed simp

definition mig_tokens :: "'e char_dev \<Rightarrow> u32" where
  "mig_tokens s = (case cur_write_buf s of None \<Rightarrow> 0 | Some a \<Rightarrow> mig_price s a) + sum_list (map (mig_price s) (rev (write_queue s)))"

lemma marshall_eq:
  assumes "num_clients s = 1" "clients s \<noteq> []" "client_mem s (last (clients s)) = Some d" "send_queue_size d = 0"
    and "\<forall>a\<in>set (write_queue s). mig_ok (dc_client d) s a"
    and "\<forall>a. cur_write_buf s = Some a \<longrightarrow> mig_ok (dc_client d) s a \<and> cur_write_buf_pos s \<le> length (buf_bytes s a)"
  shows "\<exists>s'. spice_char_device_state_migrate_data_marshall s = Inr (add_data (pending s) (mig_tokens s)
    \<lparr>version = SPICE_MIGRATE_DATA_CHAR_DEVICE_VERSION, connected = True, mig_client_tokens = ucast (num_client_tokens d),
      mig_send_tokens = ucast (num_send_tokens d), write_size = 0, write_num_client_tokens = 0, write_data = []\<rparr>, s')"
proof (cases "cur_write_buf s")
  case None
  then show ?thesis
    using assms marshall_bufs_eq [of "rev (write_queue s)" "dc_client d" s]
    by (simp add: spice_char_device_state_migrate_data_marshall_def get_client_def pending_def mig_tokens_def Let_def)
next
  case (Some a)
  let ?m = "\<lparr>version = SPICE_MIGRATE_DATA_CHAR_DEVICE_VERSION, connected = True, mig_client_tokens = ucast (num_client_tokens d),
      mig_send_tokens = ucast (num_send_tokens d), write_size = 0, write_num_client_tokens = 0, write_data = []\<rparr>"
  from marshall_buf_eq [of "dc_client d" s a "cur_write_buf_pos s" ?m] assms(6) Some obtain s1 where
    s1: "marshall_buf (dc_client d) a (cur_write_buf_pos s) (?m, s) =
        Inr (add_data (drop (cur_write_buf_pos s) (buf_bytes s a)) (mig_price s a) ?m, s1)"
    "mig_ok (dc_client d) s1 = mig_ok (dc_client d) s" "buf_bytes s1 = buf_bytes s" "mig_price s1 = mig_price s" by blast
  from marshall_bufs_eq [of "rev (write_queue s)" "dc_client d" s1 "add_data (drop (cur_write_buf_pos s) (buf_bytes s a)) (mig_price s a) ?m"]
    assms s1 Some show ?thesis
    by (simp add: spice_char_device_state_migrate_data_marshall_def get_client_def pending_def mig_tokens_def Let_def add_data_add)
qed

lemma ucast_u32_u64 [simp]: "ucast (ucast (x :: u32) :: u64) = x"
  by (rule bit_word_eqI) (simp add: bit_simps)

lemma pool_empty_get:
  assumes "write_bufs_pool t = []" "n \<noteq> 0 \<and> client_find c t = Inr (Some x) \<and> client_mem t x \<noteq> None \<or> n = 0 \<and> num_self_tokens t \<noteq> 0"
  shows "\<exists>a b t'. (if n \<noteq> 0 then write_buffer_get_full cbs (Some c) sz ORIGIN_CLIENT n t else write_buffer_get_full cbs None sz ORIGIN_SERVER 0 t) =
      Inr (Some a, t') \<and> buf_mem t' a = Some b \<and> write_queue t' = write_queue t \<and> client_mem t' = client_mem t \<and> running t' = running t"
  using assms by (cases "n = 0")
    (auto simp: write_buffer_get_full_def take_pool_buf_def get_finish_def grow_buf_def client_find_def get_client_def
      set_buf_def Let_def)

lemma restore_write_eq:
  assumes "write_bufs_pool t = []" "write_data m = bs" "write_size m = of_nat (length bs)" "length bs < 2 ^ 32"
    and "bs \<noteq> [] \<longrightarrow> (if write_num_client_tokens m \<noteq> 0 then client_find c t = Inr (Some x) \<and> client_mem t x \<noteq> None
      else num_self_tokens t \<noteq> 0)"
    and "cur_write_buf t = None" "write_queue t = []"
  shows "\<exists>t'. restore_write cbs c m t = Inr t' \<and> pending t' = bs \<and> client_mem t' = client_mem t \<and> running t' = running t"
proof (cases "bs = []")
  case True
  then show ?thesis using assms by (simp add: restore_write_def pending_def)
next
  case False
  have u: "unat (write_size m) = length bs" using assms(3,4) by (simp add: unat_of_nat_small)
  then have sz: "write_size m \<noteq> 0" using False by auto
  from pool_empty_get [of t "write_num_client_tokens m" c x cbs "write_size m"] assms(1,5) False obtain a b t' where
    g: "(if write_num_client_tokens m \<noteq> 0 then write_buffer_get_full cbs (Some c) (write_size m) ORIGIN_CLIENT (write_num_client_tokens m) t
      else write_buffer_get_full cbs None (write_size m) ORIGIN_SERVER 0 t) = Inr (Some a, t')"
    "buf_mem t' a = Some b" "write_queue t' = write_queue t" "client_mem t' = client_mem t" "running t' = running t"
    by (auto split: if_splits)
  show ?thesis
    using assms(2,7) u sz g(2-5) unfolding restore_write_def g(1)
    by (simp add: get_buf_def set_buf_def pending_def buf_bytes_def)
qed

text \<open>
  C35: migration moves a device's unwritten data and its token window. Let the source have one client
  and let its pending bytes fit the size field; its migration data restored on a stopped target
  device, to which one client was added and which waits for that data, leaves the target with exactly the
  source's pending bytes, with the client's remaining send and client tokens, and with the
  window the target gave the client split into these, the tokens still to be returned and the price of the data in
  flight (in the 32-bit arithmetic of the wire format).
\<close>

theorem char_dev_migrate_roundtrip:
  assumes "num_clients s = 1" "clients s \<noteq> []" "client_mem s (last (clients s)) = Some d" "send_queue_size d = 0"
    and "\<forall>a\<in>set (write_queue s). mig_ok (dc_client d) s a"
    and "\<forall>a. cur_write_buf s = Some a \<longrightarrow> mig_ok (dc_client d) s a \<and> cur_write_buf_pos s \<le> length (buf_bytes s a)"
    and "length (pending s) < 2 ^ 32"
    and "num_clients t = 1" "clients t = [x]" "client_mem t x = Some e" "wait_for_migrate_data t" "\<not> running t"
      "cur_write_buf t = None" "write_queue t = []" "write_bufs_pool t = []"
      "num_self_tokens t \<noteq> 0 \<or> mig_tokens s \<noteq> 0"
  shows "\<exists>m s' t' e'. spice_char_device_state_migrate_data_marshall s = Inr (m, s') \<and>
    spice_char_device_state_restore cbs fuel m t = Inr t' \<and> pending t' = pending s \<and> client_mem t' x = Some e' \<and>
    num_client_tokens e' = ucast (ucast (num_client_tokens d) :: u32) \<and> num_send_tokens e' = ucast (ucast (num_send_tokens d) :: u32) \<and>
    ucast (num_client_tokens e') + ucast (num_client_tokens_free e') + mig_tokens s = (ucast (num_client_tokens e) :: u32)"
proof -
  let ?m = "add_data (pending s) (mig_tokens s) \<lparr>version = SPICE_MIGRATE_DATA_CHAR_DEVICE_VERSION, connected = True,
    mig_client_tokens = ucast (num_client_tokens d), mig_send_tokens = ucast (num_send_tokens d), write_size = 0,
    write_num_client_tokens = 0, write_data = []\<rparr>"
  obtain s' where m: "spice_char_device_state_migrate_data_marshall s = Inr (?m, s')"
    using marshall_eq [OF assms(1-6)] by blast
  let ?e = "e\<lparr>num_client_tokens := ucast (mig_client_tokens ?m), num_client_tokens_free :=
      ucast ((ucast (num_client_tokens e) :: u32) - mig_client_tokens ?m - write_num_client_tokens ?m),
    num_send_tokens := ucast (mig_send_tokens ?m)\<rparr>"
  let ?t = "set_client x ?e t"
  have f: "client_find (dc_client e) ?t = Inr (Some x) \<and> client_mem ?t x \<noteq> None"
    using assms(9) by (simp add: client_find_def set_client_def)
  obtain t' where t': "restore_write cbs (dc_client e) ?m ?t = Inr t'" "pending t' = pending s" "client_mem t' = client_mem ?t" "\<not> running t'"
  proof -
    have "\<exists>t'. restore_write cbs (dc_client e) ?m ?t = Inr t' \<and> pending t' = pending s \<and> client_mem t' = client_mem ?t \<and>
        running t' = running ?t"
      by (rule restore_write_eq [where x = x]) (use f assms(7,13-16) in \<open>simp_all add: set_client_def\<close>, auto simp: add_data_def)
    then show ?thesis using that assms(12) by (auto simp: set_client_def)
  qed
  let ?t' = "t'\<lparr>wait_for_migrate_data := False\<rparr>"
  have "spice_char_device_wakeup cbs fuel ?t' = Inr ?t'"
    using t'(4) by (simp add: spice_char_device_wakeup_def spice_char_device_write_to_device_def spice_char_device_read_from_device_def)
  then have r: "spice_char_device_state_restore cbs fuel ?m t = Inr ?t'"
    using assms(8-11,13,14) t'(1) by (simp add: spice_char_device_state_restore_def get_client_def Let_def add_data_def)
  have p: "pending ?t' = pending s" using stream_ok_frame [of ?t' t'] t'(2) by simp
  have c: "client_mem ?t' x = Some ?e" using t'(3) by (simp add: set_client_def)
  show ?thesis using m r p c by (intro exI [of _ ?m] exI [of _ s'] exI [of _ ?t'] exI [of _ ?e]) (simp add: add_data_def)
qed

definition mig_target :: "u8 list char_dev" where
  "mig_target = demo_dev\<lparr>running := False, wait_for_migrate_data := True, next_addr := 2,
     client_mem := [1 \<mapsto> fresh_client 9 True 8 10 0], clients := [1], num_clients := 1\<rparr>"

definition mig_source :: "u8 list char_dev" where
  "mig_source = demo_busy_dev\<lparr>write_queue := [2], next_addr := 4, client_mem := [3 \<mapsto> fresh_client 7 True 8 6 0],
     clients := [3], num_clients := 1\<rparr>"

theorem char_dev_migrate_roundtrip_witness:
  "\<exists>m s' t'. spice_char_device_state_migrate_data_marshall mig_source = Inr (m, s') \<and>
    spice_char_device_state_restore log_callbacks 3 m mig_target = Inr t' \<and> pending t' = [2, 3, 4, 5]"
proof -
  have p: "pending mig_source = [2, 3, 4, 5]"
    by (simp add: mig_source_def demo_busy_dev_def demo_dev_def pending_def buf_bytes_def)
  have ok: "mig_ok 7 mig_source 1" "mig_ok 7 mig_source 2"
    by (simp_all add: mig_ok_def mig_source_def demo_busy_dev_def demo_dev_def)
  have "\<exists>m s' t' e'. spice_char_device_state_migrate_data_marshall mig_source = Inr (m, s') \<and>
    spice_char_device_state_restore log_callbacks 3 m mig_target = Inr t' \<and> pending t' = pending mig_source \<and>
    client_mem t' 1 = Some e' \<and> num_client_tokens e' = ucast (ucast (num_client_tokens (fresh_client 7 True 8 6 0)) :: u32) \<and>
    num_send_tokens e' = ucast (ucast (num_send_tokens (fresh_client 7 True 8 6 0)) :: u32) \<and>
    ucast (num_client_tokens e') + ucast (num_client_tokens_free e') + mig_tokens mig_source =
      (ucast (num_client_tokens (fresh_client 9 True 8 10 0)) :: u32)"
    by (rule char_dev_migrate_roundtrip)
      (use p ok in \<open>simp_all add: mig_source_def demo_busy_dev_def demo_dev_def mig_target_def fresh_client_def buf_bytes_def\<close>)
  then show ?thesis unfolding p by blast
qed

end
