(* ===== verification/Image_Cache.thy ===== *)
theory Image_Cache
  imports Ring
begin

text \<open>
  The cache of decoded images (server/spice_image_cache.c, built without \<open>IMAGE_CACHE_AGE\<close>, which nothing
  defines): a hash table whose buckets are singly linked lists, and a ring of the same items in
  order of use. Items live in a heap of their own, their ring links in the heap of the ring theory. The
  references to images taken from and given back to pixman are counted. The invariant ties the two
  structures together, and the operations refine a list of at most two entries, the last used first.
\<close>

section \<open>The cache\<close>

abbreviation "IMAGE_CACHE_HASH_SIZE \<equiv> 1024 :: nat"
abbreviation "IMAGE_CACHE_MAX_ITEMS \<equiv> 2 :: nat"

record cache_item =
  item_id :: u64
  item_next :: "nat option"
  item_image :: nat

record image_cache =
  hash_table :: "nat \<Rightarrow> nat option"
  lru :: nat
  links :: "nat ring_heap"
  num_items :: u32
  cached :: "nat \<rightharpoonup> cache_item"
  refs :: "nat \<Rightarrow> int"

definition bucket :: "u64 \<Rightarrow> nat" where
  "bucket iid = unat iid mod IMAGE_CACHE_HASH_SIZE"

text \<open>\<open>pixman_image_ref\<close> and \<open>pixman_image_unref\<close>\<close>

definition add_ref :: "nat \<Rightarrow> int \<Rightarrow> image_cache \<Rightarrow> image_cache" where
  "add_ref i n c = c\<lparr>refs := (refs c)(i := refs c i + n)\<rparr>"

fun find_item :: "nat \<Rightarrow> (nat \<rightharpoonup> cache_item) \<Rightarrow> nat option \<Rightarrow> u64 \<Rightarrow> nat option res" where
  "find_item fuel m None iid = Inr None"
| "find_item 0 m (Some a) iid = Inl NoFuel"
| "find_item (Suc n) m (Some a) iid =
     rbind (deref (m a)) (\<lambda>it. if item_id it = iid then Inr (Some a) else find_item n m (item_next it) iid)"

definition image_cache_find :: "nat \<Rightarrow> image_cache \<Rightarrow> u64 \<Rightarrow> nat option res" where
  "image_cache_find fuel c iid = find_item fuel (cached c) (hash_table c (bucket iid)) iid"

definition image_cache_hit :: "nat \<Rightarrow> u64 \<Rightarrow> image_cache \<Rightarrow> (bool \<times> image_cache) res" where
  "image_cache_hit fuel iid c =
     rbind (image_cache_find fuel c iid) (\<lambda>item. case item of
       None \<Rightarrow> Inr (False, c)
     | Some a \<Rightarrow>
         rbind (ring_remove (links c) a) (\<lambda>h.
         rbind (ring_add h (lru c) a) (\<lambda>h'. Inr (True, c\<lparr>links := h'\<rparr>))))"

text \<open>
  The pointer \<open>now\<close> of \<open>image_cache_remove\<close> points to a bucket or to the \<open>next\<close> field of an item.
\<close>

datatype slot = Bucket nat | NextField nat

definition read_slot :: "image_cache \<Rightarrow> slot \<Rightarrow> nat option res" where
  "read_slot c s = (case s of
     Bucket k \<Rightarrow> Inr (hash_table c k)
   | NextField a \<Rightarrow> rbind (deref (cached c a)) (\<lambda>it. Inr (item_next it)))"

definition write_slot :: "image_cache \<Rightarrow> slot \<Rightarrow> nat option \<Rightarrow> image_cache res" where
  "write_slot c s v = (case s of
     Bucket k \<Rightarrow> Inr (c\<lparr>hash_table := (hash_table c)(k := v)\<rparr>)
   | NextField a \<Rightarrow> rbind (deref (cached c a)) (\<lambda>it. Inr (c\<lparr>cached := (cached c)(a \<mapsto> it\<lparr>item_next := v\<rparr>)\<rparr>)))"

fun unlink_loop :: "nat \<Rightarrow> image_cache \<Rightarrow> nat \<Rightarrow> slot \<Rightarrow> image_cache res" where
  "unlink_loop fuel c item now =
     rbind (read_slot c now) (\<lambda>p. case p of
       None \<Rightarrow> Inl Abort
     | Some a \<Rightarrow>
         if a = item then rbind (deref (cached c item)) (\<lambda>it. write_slot c now (item_next it))
         else case fuel of 0 \<Rightarrow> Inl NoFuel | Suc n \<Rightarrow> unlink_loop n c item (NextField a))"

declare unlink_loop.simps [simp del]

definition image_cache_remove :: "nat \<Rightarrow> nat \<Rightarrow> image_cache \<Rightarrow> image_cache res" where
  "image_cache_remove fuel item c =
     rbind (deref (cached c item)) (\<lambda>it.
     rbind (unlink_loop fuel c item (Bucket (bucket (item_id it)))) (\<lambda>c.
     rbind (ring_remove (links c) item) (\<lambda>h.
     rbind (deref (cached c item)) (\<lambda>it.
       Inr ((add_ref (item_image it) (- 1) c)
         \<lparr>links := h, cached := (cached c)(item := None), num_items := num_items c - 1\<rparr>)))))"

text \<open>\<open>malloc\<close> gives the address of the new item.\<close>

definition image_cache_put :: "nat \<Rightarrow> (image_cache \<Rightarrow> nat) \<Rightarrow> u64 \<Rightarrow> nat \<Rightarrow> image_cache \<Rightarrow> image_cache res" where
  "image_cache_put fuel malloc iid img c =
     rbind (if num_items c = of_nat IMAGE_CACHE_MAX_ITEMS
            then rbind (ring_get_tail (links c) (lru c)) (\<lambda>tail.
                   spice_assert (tail \<noteq> None) (rbind (deref tail) (\<lambda>a. image_cache_remove fuel a c)))
            else Inr c) (\<lambda>c.
       let a = malloc c;
           c = add_ref img 1 (c\<lparr>num_items := num_items c + 1\<rparr>);
           h = ring_item_init (links c) a;
           item = \<lparr>item_id = iid, item_next = hash_table c (bucket iid), item_image = img\<rparr>;
           c = c\<lparr>cached := (cached c)(a \<mapsto> item), hash_table := (hash_table c)(bucket iid := Some a)\<rparr>
       in rbind (ring_add h (lru c) a) (\<lambda>h. Inr (c\<lparr>links := h\<rparr>)))"

definition image_cache_get :: "nat \<Rightarrow> u64 \<Rightarrow> image_cache \<Rightarrow> (nat \<times> image_cache) res" where
  "image_cache_get fuel iid c =
     rbind (image_cache_find fuel c iid) (\<lambda>item. case item of
       None \<Rightarrow> Inl Abort
     | Some a \<Rightarrow> rbind (deref (cached c a)) (\<lambda>it. Inr (item_image it, add_ref (item_image it) 1 c)))"

definition image_cache_init :: "image_cache \<Rightarrow> image_cache" where
  "image_cache_init c = c\<lparr>hash_table := (\<lambda>_. None), links := ring_init (links c) (lru c), num_items := 0\<rparr>"

text \<open>\<open>n\<close> bounds the turns of the loop, \<open>fuel\<close> the length of a bucket.\<close>

fun image_cache_reset :: "nat \<Rightarrow> nat \<Rightarrow> image_cache \<Rightarrow> image_cache res" where
  "image_cache_reset n fuel c =
     rbind (ring_get_head (links c) (lru c)) (\<lambda>item. case item of
       None \<Rightarrow> Inr c
     | Some a \<Rightarrow> (case n of 0 \<Rightarrow> Inl NoFuel | Suc n \<Rightarrow>
         rbind (image_cache_remove fuel a c) (image_cache_reset n fuel)))"

declare image_cache_reset.simps [simp del]

definition image_cache_aging :: "image_cache \<Rightarrow> image_cache" where
  "image_cache_aging c = c"


section \<open>Chains\<close>

fun chain :: "(nat \<rightharpoonup> cache_item) \<Rightarrow> nat option \<Rightarrow> nat list \<Rightarrow> bool" where
  "chain m p [] \<longleftrightarrow> p = None"
| "chain m p (a # as) \<longleftrightarrow> p = Some a \<and> (\<exists>it. m a = Some it \<and> chain m (item_next it) as)"

definition entry :: "image_cache \<Rightarrow> nat \<Rightarrow> (u64 \<times> nat) option" where
  "entry c a = map_option (\<lambda>it. (item_id it, item_image it)) (cached c a)"

lemma dom_entry: "dom (entry c) = dom (cached c)"
  by (auto simp: entry_def dom_def)

lemma chain_cong: "(\<And>a. a \<in> set as \<Longrightarrow> m' a = m a) \<Longrightarrow> chain m' p as = chain m p as"
  by (induction as arbitrary: p) auto

lemma find_item_chain:
  "chain m p as \<Longrightarrow> length as \<le> fuel \<Longrightarrow> find_item fuel m p iid = Inr (find (\<lambda>a. \<exists>it. m a = Some it \<and> item_id it = iid) as)"
proof (induction as arbitrary: fuel p)
  case (Cons a as)
  then obtain n where "fuel = Suc n" "length as \<le> n" by (cases fuel) auto
  then show ?case using Cons by (auto simp: deref_def)
qed simp

lemma unlink_chain:
  assumes "read_slot c s = Inr p" "chain (cached c) p (pre @ item # post)" "distinct (pre @ item # post)" "length pre \<le> fuel"
    and "\<And>b. s = NextField b \<Longrightarrow> b \<notin> set (pre @ item # post)"
  shows "\<exists>c' p'. unlink_loop fuel c item s = Inr c' \<and> read_slot c' s = Inr p' \<and> chain (cached c') p' (pre @ post) \<and>
    (\<forall>a. a \<notin> set pre \<and> s \<noteq> NextField a \<longrightarrow> cached c' a = cached c a) \<and> (\<forall>k. s \<noteq> Bucket k \<longrightarrow> hash_table c' k = hash_table c k) \<and>
    entry c' = entry c \<and> links c' = links c \<and> lru c' = lru c \<and> num_items c' = num_items c \<and> refs c' = refs c"
  using assms
proof (induction pre arbitrary: fuel s p)
  case Nil
  then obtain it where it: "cached c item = Some it" "p = Some item" "chain (cached c) (item_next it) post" by auto
  show ?case
  proof (cases s)
    case (Bucket k)
    then show ?thesis using Nil it
      by (subst unlink_loop.simps) (auto simp: read_slot_def write_slot_def deref_def entry_def)
  next
    case (NextField b)
    obtain ib where b: "cached c b = Some ib" using Nil.prems(1) NextField by (auto simp: read_slot_def deref_def split: option.splits)
    have "chain ((cached c)(b \<mapsto> ib\<lparr>item_next := item_next it\<rparr>)) (item_next it) post"
      using it(3) Nil.prems(5) [OF NextField] by (subst chain_cong [of _ _ "cached c"]) auto
    then show ?thesis using Nil.prems(1) NextField it b
      by (subst unlink_loop.simps) (auto simp: read_slot_def write_slot_def deref_def entry_def fun_eq_iff)
  qed
next
  case (Cons a pre)
  obtain ia n where ia: "cached c a = Some ia" "p = Some a" "chain (cached c) (item_next ia) (pre @ item # post)" and n: "fuel = Suc n" "length pre \<le> n"
    using Cons.prems by (cases fuel) auto
  have "read_slot c (NextField a) = Inr (item_next ia)" by (simp add: read_slot_def ia deref_def)
  from Cons.IH [OF this ia(3) _ n(2)] Cons.prems(3) obtain c' p' where
    c': "unlink_loop n c item (NextField a) = Inr c'" "read_slot c' (NextField a) = Inr p'" "chain (cached c') p' (pre @ post)"
    "\<forall>b. b \<notin> set pre \<and> NextField a \<noteq> NextField b \<longrightarrow> cached c' b = cached c b" "hash_table c' = hash_table c"
    "entry c' = entry c" "links c' = links c" "lru c' = lru c" "num_items c' = num_items c" "refs c' = refs c"
    by (auto simp: fun_eq_iff)
  have "unlink_loop fuel c item s = Inr c'"
    using Cons.prems(1,3) ia(2) n(1) c'(1) by (subst unlink_loop.simps) auto
  moreover have "read_slot c' s = Inr (Some a)"
    using Cons.prems(1,5) ia(2) c'(4,5) by (cases s) (auto simp: read_slot_def)
  moreover have "chain (cached c') (Some a) ((a # pre) @ post)"
    using c'(2,3) by (auto simp: read_slot_def deref_def split: option.splits)
  ultimately show ?case using c' by (intro exI [of _ c'] exI [of _ "Some a"]) auto
qed


section \<open>The invariant\<close>

text \<open>
  \<open>cache_ok c xs\<close>: the ring links exactly the items \<open>xs\<close>, which are the allocated ones and as many as counted,
  and every bucket is a list without repetition of exactly the items whose number belongs there.
\<close>

definition bucket_ok :: "image_cache \<Rightarrow> nat \<Rightarrow> bool" where
  "bucket_ok c k \<longleftrightarrow> (\<exists>bs. chain (cached c) (hash_table c k) bs \<and> distinct bs \<and>
     set bs = {a. \<exists>e. entry c a = Some e \<and> bucket (fst e) = k})"

definition cache_ok :: "image_cache \<Rightarrow> nat list \<Rightarrow> bool" where
  "cache_ok c xs \<longleftrightarrow> is_ring (links c) (lru c) xs \<and> dom (cached c) = set xs \<and> num_items c = of_nat (length xs) \<and>
     length xs \<le> IMAGE_CACHE_MAX_ITEMS \<and> (\<forall>k. bucket_ok c k)"

lemma cache_okD:
  assumes "cache_ok c xs"
  shows "is_ring (links c) (lru c) xs" "dom (cached c) = set xs" "num_items c = of_nat (length xs)" "length xs \<le> 2" "bucket_ok c k"
    "distinct xs" "lru c \<notin> set xs" "a \<in> set xs \<longleftrightarrow> (\<exists>e. entry c a = Some e)"
proof -
  show "a \<in> set xs \<longleftrightarrow> (\<exists>e. entry c a = Some e)"
    using assms unfolding cache_ok_def dom_entry [symmetric] by blast
qed (use assms in \<open>auto simp: cache_ok_def is_ring_def\<close>)

lemma bucket_short:
  assumes "cache_ok c xs" "chain (cached c) (hash_table c k) bs" "distinct bs" "set bs = {a. \<exists>e. entry c a = Some e \<and> bucket (fst e) = k}"
  shows "length bs \<le> 2" "set bs \<subseteq> set xs"
proof -
  show "set bs \<subseteq> set xs" using assms(4) cache_okD(8) [OF assms(1)] by auto
  then have "card (set bs) \<le> card (set xs)" by (intro card_mono) auto
  then show "length bs \<le> 2" using distinct_card [OF assms(3)] distinct_card [OF cache_okD(6) [OF assms(1)]] cache_okD(4) [OF assms(1)]
    by linarith
qed

text \<open>The entry with a given number, when there is only one.\<close>

lemma find_ok:
  assumes ok: "cache_ok c xs" and fuel: "2 \<le> fuel" and un: "\<And>a b i j. entry c a = Some (n, i) \<Longrightarrow> entry c b = Some (n, j) \<Longrightarrow> a = b"
  shows "entry c a = Some (n, i) \<Longrightarrow> image_cache_find fuel c n = Inr (Some a)"
    and "(\<And>a i. entry c a \<noteq> Some (n, i)) \<Longrightarrow> image_cache_find fuel c n = Inr None"
proof -
  obtain bs where bs: "chain (cached c) (hash_table c (bucket n)) bs" "distinct bs" "set bs = {a. \<exists>e. entry c a = Some e \<and> bucket (fst e) = bucket n}"
    using cache_okD(5) [OF ok, of "bucket n"] by (auto simp: bucket_ok_def)
  have f: "image_cache_find fuel c n = Inr (find (\<lambda>a. \<exists>it. cached c a = Some it \<and> item_id it = n) bs)"
    unfolding image_cache_find_def using bucket_short(1) [OF ok bs] fuel by (intro find_item_chain [OF bs(1)]) simp
  have e: "(\<exists>it. cached c b = Some it \<and> item_id it = n) \<longleftrightarrow> (\<exists>i. entry c b = Some (n, i))" for b
    by (auto simp: entry_def)
  show "image_cache_find fuel c n = Inr (Some a)" if a: "entry c a = Some (n, i)"
  proof -
    have "a \<in> set bs" using a bs(3) by auto
    then have "find (\<lambda>a. \<exists>it. cached c a = Some it \<and> item_id it = n) bs \<noteq> None" using a unfolding e find_None_iff by blast
    then obtain b where "find (\<lambda>a. \<exists>it. cached c a = Some it \<and> item_id it = n) bs = Some b" by blast
    moreover from this obtain j where "entry c b = Some (n, j)" unfolding e find_Some_iff by blast
    ultimately show ?thesis using f un [OF a] by simp
  qed
  show "image_cache_find fuel c n = Inr None" if "\<And>a i. entry c a \<noteq> Some (n, i)"
    using that unfolding f e by (simp add: find_None_iff)
qed

lemma bucket_frame:
  assumes "bucket_ok c k" "hash_table c' k = hash_table c k"
    and "\<And>a e. entry c a = Some e \<Longrightarrow> bucket (fst e) = k \<Longrightarrow> cached c' a = cached c a"
    and "\<And>a e. bucket (fst e) = k \<Longrightarrow> entry c' a = Some e \<longleftrightarrow> entry c a = Some e"
  shows "bucket_ok c' k"
proof -
  obtain bs where bs: "chain (cached c) (hash_table c k) bs" "distinct bs" "set bs = {a. \<exists>e. entry c a = Some e \<and> bucket (fst e) = k}"
    using assms(1) by (auto simp: bucket_ok_def)
  have "chain (cached c') (hash_table c' k) bs" using bs(1,3) assms(3) by (subst chain_cong [of _ _ "cached c"]) (auto simp: assms(2))
  moreover have "{a. \<exists>e. entry c' a = Some e \<and> bucket (fst e) = k} = {a. \<exists>e. entry c a = Some e \<and> bucket (fst e) = k}"
    using assms(4) by blast
  ultimately show ?thesis unfolding bucket_ok_def using bs(2,3) by blast
qed

lemma remove_ok:
  assumes ok: "cache_ok c xs" and e: "entry c item = Some (n, i)" and fuel: "2 \<le> fuel"
  shows "\<exists>c'. image_cache_remove fuel item c = Inr c' \<and> cache_ok c' (remove1 item xs) \<and> entry c' = (entry c)(item := None) \<and>
    refs c' = (refs c)(i := refs c i - 1) \<and> lru c' = lru c"
proof -
  have item: "item \<in> set xs" using e cache_okD(8) [OF ok] by blast
  obtain bs where bs: "chain (cached c) (hash_table c (bucket n)) bs" "distinct bs" "set bs = {a. \<exists>e. entry c a = Some e \<and> bucket (fst e) = bucket n}"
    using cache_okD(5) [OF ok, of "bucket n"] by (auto simp: bucket_ok_def)
  have "item \<in> set bs" using e bs(3) by auto
  then obtain pre post where pp: "bs = pre @ item # post" by (meson split_list)
  obtain c1 p where c1: "unlink_loop fuel c item (Bucket (bucket n)) = Inr c1" "hash_table c1 (bucket n) = p" "chain (cached c1) p (pre @ post)"
    "\<And>a. a \<notin> set pre \<Longrightarrow> cached c1 a = cached c a" "\<And>k. k \<noteq> bucket n \<Longrightarrow> hash_table c1 k = hash_table c k"
    "entry c1 = entry c" "links c1 = links c" "lru c1 = lru c" "num_items c1 = num_items c" "refs c1 = refs c"
    using unlink_chain [of c "Bucket (bucket n)" "hash_table c (bucket n)" pre item post fuel] bs(1,2) bucket_short(1) [OF ok bs] fuel
    by (auto simp: pp read_slot_def)
  obtain h where h: "ring_remove (links c) item = Inr h" "is_ring h (lru c) (remove1 item xs)"
    using ring_remove_spec [OF cache_okD(1) [OF ok] item] by blast
  obtain it where it: "cached c item = Some it" "item_id it = n" "item_image it = i" using e by (auto simp: entry_def)
  obtain it1 where it1: "cached c1 item = Some it1" "item_image it1 = i" using fun_cong [OF c1(6), of item] e by (auto simp: entry_def)
  define c' where "c' = (add_ref i (- 1) c1)\<lparr>links := h, cached := (cached c1)(item := None), num_items := num_items c1 - 1\<rparr>"
  have r: "image_cache_remove fuel item c = Inr c'"
    by (simp add: image_cache_remove_def deref_def it c1(1,7) h(1) it1 c'_def)
  have ent: "entry c' = (entry c)(item := None)" using c1(6) by (auto simp: c'_def entry_def add_ref_def fun_eq_iff)
  have b: "bucket_ok c' k" for k
  proof (cases "k = bucket n")
    case True
    have "chain (cached c') (hash_table c' k) (pre @ post)"
      using c1(2,3) bs(2) True by (subst chain_cong [of _ _ "cached c1"]) (auto simp: c'_def add_ref_def pp)
    moreover have "set (pre @ post) = {a. \<exists>e. entry c' a = Some e \<and> bucket (fst e) = k}"
    proof -
      have "set (pre @ post) = set bs - {item}" using bs(2) by (auto simp: pp)
      then show ?thesis using bs(3) True unfolding ent by auto
    qed
    ultimately show ?thesis unfolding bucket_ok_def using bs(2) by (intro exI [of _ "pre @ post"]) (simp add: pp)
  next
    case False
    show ?thesis
    proof (rule bucket_frame [OF cache_okD(5) [OF ok]])
      fix a e' assume a: "entry c a = Some e'" "bucket (fst e') = k"
      then have "a \<notin> set bs" using bs(3) False by auto
      then show "cached c' a = cached c a" using c1(4) by (auto simp: c'_def pp)
    qed (use False e c1(5) ent in \<open>auto simp: c'_def add_ref_def\<close>)
  qed
  have "dom (cached c') = set xs - {item}"
    using cache_okD(2) [OF ok] unfolding dom_entry [symmetric] ent by auto
  moreover have "(of_nat (length xs) :: u32) - 1 = of_nat (length xs - 1)" using item by (cases xs) auto
  ultimately have "cache_ok c' (remove1 item xs)"
    using h(2) b cache_okD(3,4,6) [OF ok] item c1(8,9)
    by (simp add: cache_ok_def c'_def add_ref_def length_remove1 set_remove1_eq)
  then show ?thesis using r ent c1(8,10) by (simp add: c'_def add_ref_def)
qed

definition malloc_ok :: "(image_cache \<Rightarrow> nat) \<Rightarrow> bool" where
  "malloc_ok malloc \<longleftrightarrow> (\<forall>c. finite (dom (cached c)) \<longrightarrow> cached c (malloc c) = None \<and> malloc c \<noteq> lru c)"

definition insert_item :: "nat \<Rightarrow> u64 \<Rightarrow> nat \<Rightarrow> image_cache \<Rightarrow> image_cache" where
  "insert_item a iid img c = (add_ref img 1 c)\<lparr>num_items := num_items c + 1,
     cached := (cached c)(a \<mapsto> \<lparr>item_id = iid, item_next = hash_table c (bucket iid), item_image = img\<rparr>),
     hash_table := (hash_table c)(bucket iid := Some a)\<rparr>"

lemma insert_item_simps [simp]:
  "links (insert_item a n i c) = links c" "lru (insert_item a n i c) = lru c" "num_items (insert_item a n i c) = num_items c + 1"
  "cached (insert_item a n i c) = (cached c)(a \<mapsto> \<lparr>item_id = n, item_next = hash_table c (bucket n), item_image = i\<rparr>)"
  "hash_table (insert_item a n i c) = (hash_table c)(bucket n := Some a)" "refs (insert_item a n i c) = (refs c)(i := refs c i + 1)"
  "entry (insert_item a n i c) = (entry c)(a \<mapsto> (n, i))"
  by (simp_all add: insert_item_def add_ref_def entry_def fun_eq_iff)

lemma insert_ok:
  assumes ok: "cache_ok c xs" and a: "length xs < 2" "cached c a = None" "a \<noteq> lru c"
  shows "\<exists>h. ring_add (ring_item_init (links c) a) (lru c) a = Inr h \<and> cache_ok ((insert_item a n i c)\<lparr>links := h\<rparr>) (a # xs)"
proof -
  have ax: "a \<notin> set xs" using a(2) cache_okD(2) [OF ok] by auto
  have "same_links {a} (links c) (ring_item_init (links c) a)" by (simp add: same_links_def ring_item_init_def)
  then have "is_ring (ring_item_init (links c) a) (lru c) xs"
    by (rule same_links_ring) (use ax a(3) cache_okD(1) [OF ok] in auto)
  then obtain h where h: "ring_add (ring_item_init (links c) a) (lru c) a = Inr h" "is_ring h (lru c) (a # xs)"
    using ring_add_head [of "ring_item_init (links c) a" "lru c" xs a] by (auto simp: detached_def ring_item_init_def)
  let ?c = "(insert_item a n i c)\<lparr>links := h\<rparr>"
  have ent: "entry ?c = (entry c)(a \<mapsto> (n, i))" using insert_item_simps(7) [of a n i c] by (simp add: entry_def fun_eq_iff)
  have ea: "entry c a = None" using a(2) by (simp add: entry_def)
  have "bucket_ok ?c k" for k
  proof (cases "k = bucket n")
    case True
    obtain bs where bs: "chain (cached c) (hash_table c k) bs" "distinct bs" "set bs = {a. \<exists>e. entry c a = Some e \<and> bucket (fst e) = k}"
      using cache_okD(5) [OF ok, of k] by (auto simp: bucket_ok_def)
    have nb: "a \<notin> set bs" using bs(3) ea by auto
    have "chain (cached ?c) (hash_table c k) bs" using bs(1) nb by (subst chain_cong [of _ _ "cached c"]) auto
    then have "chain (cached ?c) (hash_table ?c k) (a # bs)" by (simp add: True)
    moreover have "set (a # bs) = {a. \<exists>e. entry ?c a = Some e \<and> bucket (fst e) = k}"
      unfolding ent using bs(3) ea True by auto
    ultimately show ?thesis unfolding bucket_ok_def using bs(2) nb by (intro exI [of _ "a # bs"]) simp
  next
    case False
    show ?thesis
      by (rule bucket_frame [OF cache_okD(5) [OF ok]]) (use False ea in \<open>auto simp: ent\<close>)
  qed
  then have "cache_ok ?c (a # xs)"
    using h(2) a(1) cache_okD(2,3) [OF ok] by (simp add: cache_ok_def)
  then show ?thesis using h(1) by blast
qed


section \<open>A list of entries\<close>

text \<open>
  The specification: at most two entries, the last used first. The cache represents it when the ring
  lists the entries in this order; besides the references it holds for its entries it has taken those it gave out.
\<close>

definition lru_put :: "u64 \<Rightarrow> nat \<Rightarrow> (u64 \<times> nat) list \<Rightarrow> (u64 \<times> nat) list" where
  "lru_put n i l = (n, i) # (if length l = IMAGE_CACHE_MAX_ITEMS then butlast l else l)"

definition lru_hit :: "u64 \<Rightarrow> (u64 \<times> nat) list \<Rightarrow> bool \<times> (u64 \<times> nat) list" where
  "lru_hit n l = (case map_of l n of None \<Rightarrow> (False, l) | Some i \<Rightarrow> (True, (n, i) # filter (\<lambda>e. fst e \<noteq> n) l))"

definition entries :: "image_cache \<Rightarrow> nat list \<Rightarrow> (u64 \<times> nat) list" where
  "entries c xs = map (\<lambda>a. the (entry c a)) xs"

definition repr :: "image_cache \<Rightarrow> (u64 \<times> nat) list \<Rightarrow> (nat \<Rightarrow> int) \<Rightarrow> bool" where
  "repr c l given \<longleftrightarrow> (\<exists>xs. cache_ok c xs \<and> l = entries c xs \<and> distinct (map fst l) \<and>
     (\<forall>i. refs c i = int (count_list (map snd l) i) + given i))"

lemma entries_remove: "distinct xs \<Longrightarrow> entry c' = (entry c)(a := None) \<Longrightarrow> entries c' (remove1 a xs) = entries c (remove1 a xs)"
  by (auto simp: entries_def set_remove1_eq)

lemma remove1_last: "distinct xs \<Longrightarrow> xs \<noteq> [] \<Longrightarrow> remove1 (last xs) xs = butlast xs"
  by (induction xs) auto

lemma entries_butlast: "entries c (butlast xs) = butlast (entries c xs)"
  by (simp add: entries_def map_butlast)

lemma evict_ok:
  assumes "repr c l given" "l \<noteq> []" "2 \<le> fuel"
  shows "\<exists>a c'. ring_get_tail (links c) (lru c) = Inr (Some a) \<and> image_cache_remove fuel a c = Inr c' \<and> repr c' (butlast l) given"
proof -
  obtain xs where xs: "cache_ok c xs" "l = entries c xs" "distinct (map fst l)" "\<And>i. refs c i = int (count_list (map snd l) i) + given i"
    using assms(1) by (auto simp: repr_def)
  have ne: "xs \<noteq> []" using assms(2) xs(2) by (auto simp: entries_def)
  obtain n i where e: "entry c (last xs) = Some (n, i)" using cache_okD(8) [OF xs(1), of "last xs"] ne by auto
  obtain c' where c': "image_cache_remove fuel (last xs) c = Inr c'" "cache_ok c' (remove1 (last xs) xs)" "entry c' = (entry c)(last xs := None)"
    "refs c' = (refs c)(i := refs c i - 1)"
    using remove_ok [OF xs(1) e assms(3)] by blast
  have d: "distinct xs" using cache_okD(6) [OF xs(1)] .
  have el: "entries c' (butlast xs) = butlast l"
    using entries_remove [OF d c'(3)] unfolding remove1_last [OF d ne] entries_butlast xs(2) .
  have "last l = (n, i)" using e ne by (simp add: xs(2) entries_def last_map)
  then obtain l' where l: "l = l' @ [(n, i)]" using assms(2) append_butlast_last_id by metis
  have "refs c' j = int (count_list (map snd (butlast l)) j) + given j" for j
    using xs(4) [of j] c'(4) by (auto simp: l count_list_append)
  moreover have "distinct (map fst (butlast l))" using xs(3) by (simp add: map_butlast distinct_butlast)
  ultimately have "repr c' (butlast l) given"
    unfolding repr_def using c'(2) el unfolding remove1_last [OF d ne] by metis
  then show ?thesis using c'(1) ring_get_tail_spec [OF cache_okD(1) [OF xs(1)]] ne by auto
qed

lemma put_ok:
  assumes r: "repr c l given" and n: "n \<notin> fst ` set l" and fuel: "2 \<le> fuel" and m: "malloc_ok malloc"
  shows "\<exists>c'. image_cache_put fuel malloc n i c = Inr c' \<and> repr c' (lru_put n i l) given"
proof -
  define L where "L = (if length l = IMAGE_CACHE_MAX_ITEMS then butlast l else l)"
  obtain xs where xs: "cache_ok c xs" "l = entries c xs" using r by (auto simp: repr_def)
  have len: "length xs \<le> 2" "length l = length xs" using cache_okD(4) [OF xs(1)] by (auto simp: xs(2) entries_def)
  have full: "num_items c = 2 \<longleftrightarrow> length l = IMAGE_CACHE_MAX_ITEMS"
    using cache_okD(3) [OF xs(1)] len of_nat_eq_word_iff [of "length xs" "2 :: u32"] by simp
  obtain c1 where c1: "(if num_items c = of_nat IMAGE_CACHE_MAX_ITEMS
        then rbind (ring_get_tail (links c) (lru c)) (\<lambda>tail. spice_assert (tail \<noteq> None) (rbind (deref tail) (\<lambda>a. image_cache_remove fuel a c)))
        else Inr c) = Inr c1" "repr c1 L given"
  proof (cases "length l = 2")
    case True
    then have "l \<noteq> []" by auto
    then obtain a c' where a: "ring_get_tail (links c) (lru c) = Inr (Some a)" "image_cache_remove fuel a c = Inr c'" "repr c' (butlast l) given"
      using evict_ok [OF r _ fuel] by blast
    show ?thesis by (rule that [of c']) (use True a in \<open>simp_all add: full deref_def L_def\<close>)
  next
    case False
    then show ?thesis using r by (intro that [of c]) (simp_all add: full L_def)
  qed
  obtain ys where ys: "cache_ok c1 ys" "L = entries c1 ys" "distinct (map fst L)" "\<And>i. refs c1 i = int (count_list (map snd L) i) + given i"
    using c1(2) unfolding repr_def by blast
  let ?a = "malloc c1"
  have "finite (dom (cached c1))" using cache_okD(2) [OF ys(1)] by simp
  then have a: "cached c1 ?a = None" "?a \<noteq> lru c1" using m by (auto simp: malloc_ok_def)
  have "length ys = length L" unfolding ys(2) by (simp add: entries_def)
  then have short: "length ys < 2" using len by (auto simp: L_def)
  obtain h where h: "ring_add (ring_item_init (links c1) ?a) (lru c1) ?a = Inr h" "cache_ok ((insert_item ?a n i c1)\<lparr>links := h\<rparr>) (?a # ys)"
    using insert_ok [OF ys(1) short a] by blast
  let ?c = "(insert_item ?a n i c1)\<lparr>links := h\<rparr>"
  have "image_cache_put fuel malloc n i c = Inr ?c"
    unfolding image_cache_put_def c1(1) using h(1) by (simp add: Let_def add_ref_def insert_item_def)
  moreover have "entry ?c = (entry c1)(?a \<mapsto> (n, i))" using insert_item_simps(7) [of ?a n i c1] by (simp add: entry_def fun_eq_iff)
  then have "entries ?c (?a # ys) = (n, i) # L"
    using a(1) cache_okD(2) [OF ys(1)] unfolding ys(2) by (auto simp: entries_def)
  moreover have "n \<notin> set (map fst L)" using n by (auto simp: L_def dest: in_set_butlastD)
  ultimately show ?thesis
    unfolding repr_def lru_put_def L_def [symmetric] using h(2) ys(3,4) by (intro exI [of _ ?c] conjI exI [of _ "?a # ys"]) auto
qed

lemma lookup_ok:
  assumes "repr c l given" "2 \<le> fuel"
  shows "map_of l n = None \<Longrightarrow> image_cache_find fuel c n = Inr None"
    and "map_of l n = Some i \<Longrightarrow> \<exists>a. image_cache_find fuel c n = Inr (Some a) \<and> entry c a = Some (n, i)"
proof -
  obtain xs where xs: "cache_ok c xs" "l = entries c xs" "distinct (map fst l)" using assms(1) by (auto simp: repr_def)
  have s: "(n, i) \<in> set l \<longleftrightarrow> (\<exists>a. entry c a = Some (n, i))" for n i
    using cache_okD(8) [OF xs(1)] by (force simp: xs(2) entries_def)
  have inj: "inj_on (\<lambda>a. fst (the (entry c a))) (set xs)" using xs(2,3) by (simp add: entries_def distinct_map comp_def)
  have un: "a = b" if "entry c a = Some (n, i)" "entry c b = Some (n, j)" for a b i j
    using inj_onD [OF inj, of a b] that cache_okD(8) [OF xs(1)] by auto
  show "image_cache_find fuel c n = Inr None" if "map_of l n = None"
  proof (rule find_ok(2) [OF xs(1) assms(2) un])
    fix a i show "entry c a \<noteq> Some (n, i)" using that s [of n i] by (force simp: map_of_eq_None_iff)
  qed
  show "\<exists>a. image_cache_find fuel c n = Inr (Some a) \<and> entry c a = Some (n, i)" if m: "map_of l n = Some i"
  proof -
    obtain a where a: "entry c a = Some (n, i)" using map_of_SomeD [OF m] s by blast
    have "image_cache_find fuel c n = Inr (Some a)" by (rule find_ok(1) [OF xs(1) assms(2) _ a]) (rule un)
    then show ?thesis using a by blast
  qed
qed

lemma hit_ok:
  assumes r: "repr c l given" and fuel: "2 \<le> fuel"
  shows "\<exists>c'. image_cache_hit fuel n c = Inr (fst (lru_hit n l), c') \<and> repr c' (snd (lru_hit n l)) given"
proof (cases "map_of l n")
  case None
  then show ?thesis using r lookup_ok(1) [OF assms] by (simp add: image_cache_hit_def lru_hit_def)
next
  case (Some i)
  obtain a where a: "image_cache_find fuel c n = Inr (Some a)" "entry c a = Some (n, i)" using lookup_ok(2) [OF assms Some] by blast
  obtain xs where xs: "cache_ok c xs" "l = entries c xs" "distinct (map fst l)" "\<And>i. refs c i = int (count_list (map snd l) i) + given i"
    using r unfolding repr_def by blast
  have ax: "a \<in> set xs" using a(2) cache_okD(8) [OF xs(1)] by blast
  obtain h where h: "ring_remove (links c) a = Inr h" "is_ring h (lru c) (remove1 a xs)" "detached h a"
    using ring_remove_spec [OF cache_okD(1) [OF xs(1)] ax] by blast
  obtain h' where h': "ring_add h (lru c) a = Inr h'" "is_ring h' (lru c) (a # remove1 a xs)" using ring_add_head [OF h(2,3)] by blast
  let ?c = "c\<lparr>links := h'\<rparr>"
  have e: "entry ?c = entry c" by (simp add: entry_def fun_eq_iff)
  have "bucket_ok ?c k" for k using cache_okD(5) [OF xs(1), of k] by (simp add: bucket_ok_def e)
  moreover obtain k where "length xs = Suc k" using ax by (cases xs) auto
  ultimately have ok: "cache_ok ?c (a # remove1 a xs)"
    using h'(2) ax cache_okD(2,3,4,6) [OF xs(1)] by (auto simp: cache_ok_def length_remove1 set_remove1_eq)
  have inj: "inj_on (\<lambda>a. fst (the (entry c a))) (set xs)" using xs(2,3) by (simp add: entries_def distinct_map comp_def)
  have "filter (\<lambda>e. fst e \<noteq> n) l = entries c (filter (\<lambda>x. x \<noteq> a) xs)"
    unfolding xs(2) entries_def filter_map comp_def
    by (rule arg_cong [of _ _ "map _"], rule filter_cong) (use inj_onD [OF inj _ _ ax] a(2) in auto)
  also have "filter (\<lambda>x. x \<noteq> a) xs = remove1 a xs"
    using cache_okD(6) [OF xs(1)] by (auto simp: distinct_remove1_removeAll removeAll_filter_not_eq intro!: filter_cong)
  finally have l: "(n, i) # filter (\<lambda>e. fst e \<noteq> n) l = entries ?c (a # remove1 a xs)" by (simp add: entries_def e a(2))
  obtain ys zs where yz: "l = ys @ (n, i) # zs" using map_of_SomeD [OF Some] by (meson split_list)
  then have "n \<notin> fst ` set ys" "n \<notin> fst ` set zs" using xs(3) by auto
  then have "filter (\<lambda>e. fst e \<noteq> n) ys = ys" "filter (\<lambda>e. fst e \<noteq> n) zs = zs" by (auto simp: filter_id_conv)
  then have f: "filter (\<lambda>e. fst e \<noteq> n) l = ys @ zs" by (simp add: yz)
  have "repr ?c ((n, i) # filter (\<lambda>e. fst e \<noteq> n) l) given"
    unfolding repr_def
  proof (intro exI [of _ "a # remove1 a xs"] conjI allI)
    show "distinct (map fst ((n, i) # filter (\<lambda>e. fst e \<noteq> n) l))" unfolding f using xs(3) by (auto simp: yz)
    show "refs ?c j = int (count_list (map snd ((n, i) # filter (\<lambda>e. fst e \<noteq> n) l)) j) + given j" for j
      unfolding f using xs(4) [of j] by (simp add: yz count_list_append)
  qed (use ok l in simp_all)
  then show ?thesis using a(1) h(1) h'(1) Some by (simp add: image_cache_hit_def lru_hit_def)
qed

lemma get_ok:
  assumes r: "repr c l given" and fuel: "2 \<le> fuel"
  shows "case map_of l n of None \<Rightarrow> image_cache_get fuel n c = Inl Abort
    | Some i \<Rightarrow> \<exists>c'. image_cache_get fuel n c = Inr (i, c') \<and> repr c' l (given(i := given i + 1))"
proof (cases "map_of l n")
  case None
  then show ?thesis using lookup_ok(1) [OF assms] by (simp add: image_cache_get_def)
next
  case (Some i)
  obtain a where a: "image_cache_find fuel c n = Inr (Some a)" "entry c a = Some (n, i)" using lookup_ok(2) [OF assms Some] by blast
  obtain xs where xs: "cache_ok c xs" "l = entries c xs" "distinct (map fst l)" "\<And>i. refs c i = int (count_list (map snd l) i) + given i"
    using r unfolding repr_def by blast
  have e: "entry (add_ref i 1 c) = entry c" by (simp add: entry_def add_ref_def fun_eq_iff)
  have ok: "cache_ok (add_ref i 1 c) xs" using xs(1) e by (simp add: cache_ok_def bucket_ok_def) (simp add: add_ref_def)
  have "repr (add_ref i 1 c) l (given(i := given i + 1))"
    unfolding repr_def using xs ok by (intro exI [of _ xs]) (simp add: entries_def e, simp add: add_ref_def)
  then show ?thesis using a Some by (auto simp: image_cache_get_def deref_def entry_def)
qed

lemma reset_ok:
  assumes "repr c l given" "2 \<le> fuel" "length l \<le> n"
  shows "\<exists>c'. image_cache_reset n fuel c = Inr c' \<and> repr c' [] given"
  using assms(1,3)
proof (induction n arbitrary: c l)
  case 0
  obtain xs where "cache_ok c xs" "l = entries c xs" using 0 unfolding repr_def by blast
  then show ?case using 0 ring_get_head_spec [OF cache_okD(1)] by (subst image_cache_reset.simps) (auto simp: entries_def)
next
  case (Suc n)
  obtain xs where xs: "cache_ok c xs" "l = entries c xs" "distinct (map fst l)" "\<And>i. refs c i = int (count_list (map snd l) i) + given i"
    using Suc.prems(1) unfolding repr_def by blast
  show ?case
  proof (cases xs)
    case Nil
    then show ?thesis using Suc.prems xs ring_get_head_spec [OF cache_okD(1) [OF xs(1)]] by (subst image_cache_reset.simps) (auto simp: entries_def)
  next
    case (Cons a ys)
    obtain k i where e: "entry c a = Some (k, i)" using cache_okD(8) [OF xs(1), of a] Cons by auto
    obtain c' where c': "image_cache_remove fuel a c = Inr c'" "cache_ok c' (remove1 a xs)" "entry c' = (entry c)(a := None)"
      "refs c' = (refs c)(i := refs c i - 1)" using remove_ok [OF xs(1) e assms(2)] by blast
    have "entries c' ys = tl l" using entries_remove [OF cache_okD(6) [OF xs(1)] c'(3)] by (simp add: Cons xs(2) entries_def)
    moreover obtain l' where l: "l = (k, i) # l'" by (simp add: xs(2) Cons entries_def e)
    ultimately have "repr c' (tl l) given"
      unfolding repr_def using c'(2,4) xs(3,4) by (intro exI [of _ ys]) (auto simp: Cons l)
    moreover have "length (tl l) \<le> n" using Suc.prems(2) by simp
    ultimately obtain c'' where "image_cache_reset n fuel c' = Inr c''" "repr c'' [] given" using Suc.IH by blast
    then show ?thesis using ring_get_head_spec [OF cache_okD(1) [OF xs(1)]] c'(1) Cons by (subst image_cache_reset.simps) simp
  qed
qed

lemma init_ok: "cached c = Map.empty \<Longrightarrow> refs c = (\<lambda>_. 0) \<Longrightarrow> repr (image_cache_init c) [] (\<lambda>_. 0)"
  unfolding repr_def
  by (rule exI [of _ "[]"]) (simp add: cache_ok_def image_cache_init_def ring_init_empty bucket_ok_def entries_def entry_def)


section \<open>Sequences of operations\<close>

datatype cache_op = Put u64 nat | Hit u64 | Get u64 | Reset | Aging
datatype cache_out = Done | WasHit bool | Got nat

fun run_op :: "nat \<Rightarrow> (image_cache \<Rightarrow> nat) \<Rightarrow> cache_op \<Rightarrow> image_cache \<Rightarrow> (cache_out \<times> image_cache) res" where
  "run_op fuel malloc (Put n i) c = rbind (image_cache_put fuel malloc n i c) (\<lambda>c. Inr (Done, c))"
| "run_op fuel malloc (Hit n) c = rbind (image_cache_hit fuel n c) (\<lambda>(b, c). Inr (WasHit b, c))"
| "run_op fuel malloc (Get n) c = rbind (image_cache_get fuel n c) (\<lambda>(i, c). Inr (Got i, c))"
| "run_op fuel malloc Reset c = rbind (image_cache_reset fuel fuel c) (\<lambda>c. Inr (Done, c))"
| "run_op fuel malloc Aging c = Inr (Done, image_cache_aging c)"

fun spec_op :: "cache_op \<Rightarrow> (u64 \<times> nat) list \<times> (nat \<Rightarrow> int) \<Rightarrow> (cache_out \<times> (u64 \<times> nat) list \<times> (nat \<Rightarrow> int)) res" where
  "spec_op (Put n i) (l, g) = Inr (Done, lru_put n i l, g)"
| "spec_op (Hit n) (l, g) = Inr (WasHit (fst (lru_hit n l)), snd (lru_hit n l), g)"
| "spec_op (Get n) (l, g) = (case map_of l n of None \<Rightarrow> Inl Abort | Some i \<Rightarrow> Inr (Got i, l, g(i := g i + 1)))"
| "spec_op Reset (l, g) = Inr (Done, [], g)"
| "spec_op Aging (l, g) = Inr (Done, l, g)"

text \<open>A worker puts an image only after a miss, so its number is not cached.\<close>

fun op_allowed :: "cache_op \<Rightarrow> (u64 \<times> nat) list \<times> (nat \<Rightarrow> int) \<Rightarrow> bool" where
  "op_allowed (Put n i) (l, g) \<longleftrightarrow> n \<notin> fst ` set l"
| "op_allowed _ _ \<longleftrightarrow> True"

interpretation cache: simulation "\<lambda>c (l, g). repr c l g" "run_op (2 + fuel) malloc" spec_op "\<lambda>op a. malloc_ok malloc \<and> op_allowed op a" for fuel malloc
proof
  fix c :: image_cache and a :: "(u64 \<times> nat) list \<times> (nat \<Rightarrow> int)" and op
  assume r: "case a of (l, g) \<Rightarrow> repr c l g" and ok: "malloc_ok malloc \<and> op_allowed op a"
  obtain l g where a: "a = (l, g)" by (cases a)
  have f: "2 \<le> 2 + fuel" by simp
  have r: "repr c l g" using r by (simp add: a)
  have "length l \<le> 2" using r unfolding repr_def cache_ok_def entries_def by force
  then have len: "length l \<le> 2 + fuel" by simp
  show "case spec_op op a of Inl e \<Rightarrow> run_op (2 + fuel) malloc op c = Inl e
      | Inr (out, a') \<Rightarrow> \<exists>c'. run_op (2 + fuel) malloc op c = Inr (out, c') \<and> (case a' of (l, g) \<Rightarrow> repr c' l g)"
  proof (cases op)
    case (Put n i)
    then show ?thesis using put_ok [OF r _ f, of n malloc i] ok by (auto simp: a)
  next
    case (Hit n)
    then show ?thesis using hit_ok [OF r f, of n] by (auto simp: a)
  next
    case (Get n)
    then show ?thesis using get_ok [OF r f, of n] by (auto simp: a split: option.splits)
  next
    case Reset
    then show ?thesis using reset_ok [OF r f len] by (auto simp: a)
  next
    case Aging
    then show ?thesis using r by (simp add: a image_cache_aging_def)
  qed
qed

text \<open>
  C14: the image cache is a list of two. Started empty, and for every sequence of operations in which only
  images that are not cached are put, the operations on the hash table and the ring return, give the
  answers of the list specification - hits, images, the abort for an image that is not cached - and end in a
  cache that represents the specified list, with exactly one reference for each entry and each image given out.
\<close>

theorem image_cache_refines_lru:
  assumes "cached c = Map.empty" "refs c = (\<lambda>_. 0)" "malloc_ok malloc" "run_allowed spec_op op_allowed ops ([], \<lambda>_. 0)"
  shows "case run_ops spec_op ops ([], \<lambda>_. 0) of
      Inl e \<Rightarrow> run_ops (run_op (2 + fuel) malloc) ops (image_cache_init c) = Inl e
    | Inr (outs, l, given) \<Rightarrow> \<exists>c'. run_ops (run_op (2 + fuel) malloc) ops (image_cache_init c) = Inr (outs, c') \<and> repr c' l given"
proof -
  have "run_allowed spec_op (\<lambda>op a. malloc_ok malloc \<and> op_allowed op a) ops ([], \<lambda>_. 0)"
    using assms(4) by (rule run_allowed_mono) (simp add: assms(3))
  from cache.run_simulated [OF _ this, of "image_cache_init c"] init_ok [OF assms(1,2)] show ?thesis
    by (auto split: sum.splits prod.splits)
qed

definition demo_cache :: image_cache where
  "demo_cache = \<lparr>hash_table = (\<lambda>_. Some 7), lru = 0, links = \<lparr>prev_of = (\<lambda>_. None), next_of = (\<lambda>_. None)\<rparr>, num_items = 9, cached = Map.empty, refs = (\<lambda>_. 0)\<rparr>"

definition next_address :: "image_cache \<Rightarrow> nat" where
  "next_address c = Suc (Max (insert (lru c) (dom (cached c))))"

lemma next_address_ok: "malloc_ok next_address"
proof -
  have "next_address c \<notin> insert (lru c) (dom (cached c))" if "finite (dom (cached c))" for c
    unfolding next_address_def using Max_ge [of "insert (lru c) (dom (cached c))"] that by (metis finite_insert Suc_n_not_le_n)
  then show ?thesis by (force simp: malloc_ok_def)
qed

theorem image_cache_refines_lru_witness:
  "\<exists>c'. run_ops (run_op (2 + 0) next_address) [Put 1 10, Put 1025 11, Hit 1, Put 2049 12, Hit 1025, Get 1] (image_cache_init demo_cache) =
     Inr ([Done, Done, WasHit True, Done, WasHit False, Got 10], c') \<and> repr c' [(2049, 12), (1, 10)] ((\<lambda>_. 0)(10 := 1))"
  using image_cache_refines_lru [OF _ _ next_address_ok, of demo_cache "[Put 1 10, Put 1025 11, Hit 1, Put 2049 12, Hit 1025, Get 1]" 0]
  by (simp add: demo_cache_def lru_put_def lru_hit_def)

end
