(* ===== verification/Dispatcher.thy ===== *)
theory Dispatcher
  imports Prelude
begin

text \<open>
  The dispatcher (server/dispatcher.c): threads send typed messages to a worker thread over a socket
  pair, some of them waiting for an acknowledgement. System calls may be interrupted, transfer fewer bytes than asked for, or
  fail: a list of outcomes, consumed one per call, stands for what they do. The two directions of the socket pair
  are byte queues. The second half puts any number of sending threads and the receiving one together as a step
  relation.
\<close>

section \<open>Transfers\<close>

text \<open>
  The outcome of one system call: interrupted, failed, or done with at most \<open>n\<close> bytes. A blocking read of an
  empty queue does not return, \<open>Deadlock\<close> here; a read of 0 bytes is the end of file.
\<close>

datatype io = Eintr | Fail | Xfer nat

fun poll_loop :: "io list \<Rightarrow> u8 list \<Rightarrow> (bool \<times> io list) res" where
  "poll_loop [] q = Inl NoFuel"
| "poll_loop (Eintr # os) q = poll_loop os q"
| "poll_loop (Fail # os) q = Inl Abort"
| "poll_loop (Xfer n # os) q = Inr (q \<noteq> [], os)"

text \<open>The result is the return value, the bytes read, the rest of the queue and of the outcomes.\<close>

fun recv_loop :: "io list \<Rightarrow> nat \<Rightarrow> u8 list \<Rightarrow> u8 list \<Rightarrow> (int \<times> u8 list \<times> u8 list \<times> io list) res" where
  "recv_loop os sz buf q =
     (if \<not> length buf < sz then Inr (int (length buf), buf, q, os)
      else case os of
        [] \<Rightarrow> Inl NoFuel
      | Eintr # os' \<Rightarrow> recv_loop os' sz buf q
      | Fail # os' \<Rightarrow> Inr (- 1, buf, q, os')
      | Xfer n # os' \<Rightarrow>
          if q = [] then Inl Deadlock
          else let ret = min n (min (sz - length buf) (length q)) in
            if ret = 0 then Inl Abort
            else recv_loop os' sz (buf @ take ret q) (drop ret q))"

definition read_safe :: "io list \<Rightarrow> nat \<Rightarrow> bool \<Rightarrow> u8 list \<Rightarrow> (int \<times> u8 list \<times> u8 list \<times> io list) res" where
  "read_safe os sz block q =
     (if sz = 0 then Inr (0, [], q, os)
      else rbind (if block then Inr (True, os) else poll_loop os q) (\<lambda>(ready, os).
        if ready then recv_loop os sz [] q else Inr (0, [], q, os)))"

fun send_loop :: "io list \<Rightarrow> u8 list \<Rightarrow> nat \<Rightarrow> u8 list \<Rightarrow> (int \<times> u8 list \<times> io list) res" where
  "send_loop os buf written q =
     (if \<not> written < length buf then Inr (int written, q, os)
      else case os of
        [] \<Rightarrow> Inl NoFuel
      | Eintr # os' \<Rightarrow> send_loop os' buf written q
      | Fail # os' \<Rightarrow> Inr (- 1, q, os')
      | Xfer n # os' \<Rightarrow>
          let ret = min n (length buf - written) in
          send_loop os' buf (written + ret) (q @ take ret (drop written buf)))"

definition write_safe :: "io list \<Rightarrow> u8 list \<Rightarrow> u8 list \<Rightarrow> (int \<times> u8 list \<times> io list) res" where
  "write_safe os buf q = send_loop os buf 0 q"

declare recv_loop.simps [simp del] send_loop.simps [simp del]


section \<open>The dispatcher\<close>

abbreviation "ACK \<equiv> 0xffffffff :: u32"
abbreviation "DISPATCHER_NONE \<equiv> 0 :: int"
abbreviation "DISPATCHER_ACK \<equiv> 1 :: int"
abbreviation "DISPATCHER_ASYNC \<equiv> 2 :: int"

text \<open>
  \<open>'e\<close> is what the handlers work on, behind the pointer \<open>opaque\<close>. \<open>to_recv\<close> and \<open>to_send\<close> are the bytes on their way to the
  receiving and to the sending end of the socket pair.
\<close>

record 'e dispatcher_message =
  msg_len :: nat
  msg_ack :: int
  msg_handler :: "(u8 list \<Rightarrow> 'e \<Rightarrow> 'e) option"

record 'e dispatcher =
  messages :: "'e dispatcher_message list"
  max_message_type :: nat
  payload_size :: nat
  opaque_state :: 'e
  handle_async_done :: "(u32 \<Rightarrow> u8 list \<Rightarrow> 'e \<Rightarrow> 'e) option"
  any_handler :: "(u32 \<Rightarrow> u8 list \<Rightarrow> 'e \<Rightarrow> 'e) option"
  to_recv :: "u8 list"
  to_send :: "u8 list"

text \<open>The memory of a dispatcher is zeroed by its owners; \<open>socketpair\<close> succeeded or not.\<close>

definition dispatcher_init :: "bool \<Rightarrow> nat \<Rightarrow> 'e \<Rightarrow> 'e dispatcher res" where
  "dispatcher_init socketpair_ok n e =
     spice_assert socketpair_ok
       (Inr \<lparr>messages = replicate n \<lparr>msg_len = 0, msg_ack = 0, msg_handler = None\<rparr>, max_message_type = n, payload_size = 0,
             opaque_state = e, handle_async_done = None, any_handler = None, to_recv = [], to_send = []\<rparr>)"

definition dispatcher_register_async_done_callback :: "(u32 \<Rightarrow> u8 list \<Rightarrow> 'e \<Rightarrow> 'e) \<Rightarrow> 'e dispatcher \<Rightarrow> 'e dispatcher res" where
  "dispatcher_register_async_done_callback handler d =
     spice_assert (handle_async_done d = None) (Inr (d\<lparr>handle_async_done := Some handler\<rparr>))"

definition dispatcher_register_handler :: "u32 \<Rightarrow> (u8 list \<Rightarrow> 'e \<Rightarrow> 'e) \<Rightarrow> nat \<Rightarrow> int \<Rightarrow> 'e dispatcher \<Rightarrow> 'e dispatcher res" where
  "dispatcher_register_handler message_type handler sz ack d =
     spice_assert (unat message_type < max_message_type d)
       (rbind (index_list (messages d) (uint message_type)) (\<lambda>msg.
         spice_assert (msg_handler msg = None)
           (let d = d\<lparr>messages := (messages d)[unat message_type := \<lparr>msg_len = sz, msg_ack = ack, msg_handler = Some handler\<rparr>]\<rparr> in
            Inr (if sz > payload_size d then d\<lparr>payload_size := sz\<rparr> else d))))"

definition dispatcher_register_universal_handler :: "(u32 \<Rightarrow> u8 list \<Rightarrow> 'e \<Rightarrow> 'e) \<Rightarrow> 'e dispatcher \<Rightarrow> 'e dispatcher" where
  "dispatcher_register_universal_handler handler d = d\<lparr>any_handler := Some handler\<rparr>"

definition dispatcher_set_opaque :: "'e \<Rightarrow> 'e dispatcher \<Rightarrow> 'e dispatcher" where
  "dispatcher_set_opaque e d = d\<lparr>opaque_state := e\<rparr>"

text \<open>
  One message received: the returned flag says whether there was one. The message is read into the
  payload buffer, which must be long enough.
\<close>

definition run_handlers :: "'e dispatcher \<Rightarrow> 'e dispatcher_message \<Rightarrow> u32 \<Rightarrow> u8 list \<Rightarrow> 'e \<Rightarrow> 'e" where
  "run_handlers d msg type payload e =
     (let e = (case any_handler d of None \<Rightarrow> e | Some f \<Rightarrow> f type payload e) in
      case msg_handler msg of None \<Rightarrow> e | Some f \<Rightarrow> f payload e)"

definition send_ack :: "io list \<Rightarrow> 'e dispatcher_message \<Rightarrow> u32 \<Rightarrow> u8 list \<Rightarrow> 'e dispatcher \<Rightarrow> ('e dispatcher \<times> io list) res" where
  "send_ack os msg type payload d =
     (if msg_ack msg = DISPATCHER_ACK
      then rbind (write_safe os (word_bytes ACK) (to_send d)) (\<lambda>(_, q, os). Inr (d\<lparr>to_send := q\<rparr>, os))
      else case handle_async_done d of
        Some f \<Rightarrow> Inr (if msg_ack msg = DISPATCHER_ASYNC then d\<lparr>opaque_state := f type payload (opaque_state d)\<rparr> else d, os)
      | None \<Rightarrow> Inr (d, os))"

definition dispatcher_handle_single_read :: "io list \<Rightarrow> 'e dispatcher \<Rightarrow> (bool \<times> 'e dispatcher \<times> io list) res" where
  "dispatcher_handle_single_read os d =
     rbind (read_safe os 4 False (to_recv d)) (\<lambda>(ret, buf, q, os).
       let d = d\<lparr>to_recv := q\<rparr> in
       if ret = - 1 \<or> ret = 0 then Inr (False, d, os)
       else let type = le_bytes buf :: u32 in
         rbind (index_list (messages d) (uint type)) (\<lambda>msg.
           if msg_len msg > payload_size d then Inl OutOfBounds
           else rbind (read_safe os (msg_len msg) True (to_recv d)) (\<lambda>(ret, payload, q, os).
             let d = d\<lparr>to_recv := q\<rparr> in
             if ret = - 1 then Inr (False, d, os)
             else rbind (send_ack os msg type payload (d\<lparr>opaque_state := run_handlers d msg type payload (opaque_state d)\<rparr>))
               (\<lambda>(d, os). Inr (True, d, os)))))"

fun dispatcher_handle_recv_read :: "nat \<Rightarrow> io list \<Rightarrow> 'e dispatcher \<Rightarrow> ('e dispatcher \<times> io list) res" where
  "dispatcher_handle_recv_read 0 os d = Inl NoFuel"
| "dispatcher_handle_recv_read (Suc fuel) os d =
     rbind (dispatcher_handle_single_read os d) (\<lambda>(again, d, os).
       if again then dispatcher_handle_recv_read fuel os d else Inr (d, os))"

text \<open>
  \<open>dispatcher_send_message\<close> up to the acknowledgement: the assertions and the two writes. The flag says
  that the thread goes on to wait for an acknowledgement.
\<close>

definition send_request :: "io list \<Rightarrow> u32 \<Rightarrow> u8 list \<Rightarrow> 'e dispatcher \<Rightarrow> (bool \<times> 'e dispatcher \<times> io list) res" where
  "send_request os message_type payload d =
     spice_assert (max_message_type d > unat message_type)
       (rbind (index_list (messages d) (uint message_type)) (\<lambda>msg.
         spice_assert (msg_handler msg \<noteq> None)
           (rbind (write_safe os (word_bytes message_type) (to_recv d)) (\<lambda>(ret, q, os).
             if ret = - 1 then Inr (False, d\<lparr>to_recv := q\<rparr>, os)
             else if length payload < msg_len msg then Inl OutOfBounds
             else rbind (write_safe os (take (msg_len msg) payload) q) (\<lambda>(ret, q, os).
               Inr (ret \<noteq> - 1 \<and> msg_ack msg = DISPATCHER_ACK, d\<lparr>to_recv := q\<rparr>, os))))))"

text \<open>The acknowledgement; the flag says that it was read and has the right value, otherwise an error is printed.\<close>

definition wait_ack :: "io list \<Rightarrow> 'e dispatcher \<Rightarrow> (bool \<times> 'e dispatcher \<times> io list) res" where
  "wait_ack os d = rbind (read_safe os 4 True (to_send d)) (\<lambda>(ret, buf, q, os).
     Inr (ret \<noteq> - 1 \<and> le_bytes buf = ACK, d\<lparr>to_send := q\<rparr>, os))"

text \<open>The whole call; \<open>others\<close> is what the other threads do to the dispatcher while this one holds its lock.\<close>

definition dispatcher_send_message :: "('e dispatcher \<Rightarrow> 'e dispatcher) \<Rightarrow> io list \<Rightarrow> u32 \<Rightarrow> u8 list \<Rightarrow> 'e dispatcher \<Rightarrow> ('e dispatcher \<times> io list) res" where
  "dispatcher_send_message others os message_type payload d =
     rbind (send_request os message_type payload d) (\<lambda>(wait, d, os).
       if wait then rbind (wait_ack os (others d)) (\<lambda>(_, d, os). Inr (d, os)) else Inr (d, os))"



section \<open>Transfers that do not fail\<close>

text \<open>
  Outcomes without failures and without transfers of nothing; \<open>xfers\<close> counts the transfers. Under these a transfer that returns
  has moved exactly the bytes asked for, and it returns when there are enough bytes and outcomes.
\<close>

definition clean :: "io list \<Rightarrow> bool" where
  "clean os \<longleftrightarrow> Fail \<notin> set os \<and> Xfer 0 \<notin> set os"

fun xfers :: "io list \<Rightarrow> nat" where
  "xfers [] = 0"
| "xfers (Xfer n # os) = Suc (xfers os)"
| "xfers (_ # os) = xfers os"

lemma clean_simps [simp]:
  "clean []" "clean (Eintr # os) \<longleftrightarrow> clean os" "\<not> clean (Fail # os)" "clean (Xfer n # os) \<longleftrightarrow> n \<noteq> 0 \<and> clean os"
  by (auto simp: clean_def)

lemma recv_loop_eqs:
  "sz \<le> length buf \<Longrightarrow> recv_loop os sz buf q = Inr (int (length buf), buf, q, os)"
  "length buf < sz \<Longrightarrow> recv_loop [] sz buf q = Inl NoFuel"
  "length buf < sz \<Longrightarrow> recv_loop (Eintr # os) sz buf q = recv_loop os sz buf q"
  "length buf < sz \<Longrightarrow> recv_loop (Xfer n # os) sz buf [] = Inl Deadlock"
  by (subst recv_loop.simps, simp)+

lemma recv_loop_xfer:
  assumes "length buf < sz" "q \<noteq> []" "0 < n"
  obtains k where "0 < k" "k \<le> sz - length buf" "k \<le> length q"
    "recv_loop (Xfer n # os) sz buf q = recv_loop os sz (buf @ take k q) (drop k q)"
proof -
  define k where "k = min n (min (sz - length buf) (length q))"
  have k: "0 < k" "k \<le> sz - length buf" "k \<le> length q" using assms by (auto simp: k_def)
  moreover have "recv_loop (Xfer n # os) sz buf q = recv_loop os sz (buf @ take k q) (drop k q)"
    using assms(1,2) k(1) by (subst recv_loop.simps) (simp add: Let_def flip: k_def)
  ultimately show thesis by (rule that)
qed

lemma send_loop_eqs:
  "length buf \<le> k \<Longrightarrow> send_loop os buf k q = Inr (int k, q, os)"
  "k < length buf \<Longrightarrow> send_loop [] buf k q = Inl NoFuel"
  "k < length buf \<Longrightarrow> send_loop (Eintr # os) buf k q = send_loop os buf k q"
  "k < length buf \<Longrightarrow> send_loop (Xfer n # os) buf k q =
    send_loop os buf (k + min n (length buf - k)) (q @ take (min n (length buf - k)) (drop k buf))"
  by (subst send_loop.simps, auto simp: Let_def)+

lemma take_then_take: "k \<le> n \<Longrightarrow> take k q @ take (n - k) (drop k q) = take n q"
  by (metis le_add_diff_inverse take_add)

lemma recv_loop_done:
  "recv_loop os sz buf q = Inr (r, b, q', os') \<Longrightarrow> clean os \<Longrightarrow> length buf \<le> sz \<Longrightarrow>
    r = int sz \<and> b = buf @ take (sz - length buf) q \<and> q' = drop (sz - length buf) q \<and> sz - length buf \<le> length q \<and> clean os'"
proof (induction os arbitrary: buf q)
  case Nil
  then show ?case by (cases "length buf < sz") (auto simp: recv_loop_eqs)
next
  case (Cons o1 os)
  consider "sz \<le> length buf" | "length buf < sz" "o1 = Eintr" | n where "length buf < sz" "o1 = Xfer n" "0 < n" "q \<noteq> []"
    using Cons.prems(1,2) by (cases o1; cases "q = []"; force simp: recv_loop_eqs)
  then show ?case
  proof cases
    case (3 n)
    obtain k where k: "0 < k" "k \<le> sz - length buf" "k \<le> length q"
      "recv_loop (Xfer n # os) sz buf q = recv_loop os sz (buf @ take k q) (drop k q)" by (rule recv_loop_xfer [OF 3(1,4,3)])
    moreover have "length buf + k \<le> sz" using k(2) 3(1) by simp
    ultimately show ?thesis
      using Cons.IH [of "buf @ take k q" "drop k q"] Cons.prems 3 take_then_take [OF k(2), of q] by (auto simp: min_absorb2)
  qed (use Cons in \<open>auto simp: recv_loop_eqs\<close>)
qed

lemma recv_loop_enough:
  "clean os \<Longrightarrow> length buf \<le> sz \<Longrightarrow> sz - length buf \<le> length q \<Longrightarrow> sz - length buf \<le> xfers os \<Longrightarrow>
    \<exists>r. recv_loop os sz buf q = Inr r \<and> xfers os \<le> xfers (snd (snd (snd r))) + (sz - length buf)"
proof (induction os arbitrary: buf q)
  case Nil
  then show ?case by (simp add: recv_loop_eqs)
next
  case (Cons o1 os)
  consider "sz \<le> length buf" | "length buf < sz" "o1 = Eintr" | n where "length buf < sz" "o1 = Xfer n" "0 < n" "q \<noteq> []"
    using Cons.prems by (cases o1) fastforce+
  then show ?case
  proof cases
    case (3 n)
    obtain k where k: "0 < k" "k \<le> sz - length buf" "k \<le> length q"
      "recv_loop (Xfer n # os) sz buf q = recv_loop os sz (buf @ take k q) (drop k q)" by (rule recv_loop_xfer [OF 3(1,4,3)])
    have len: "length (buf @ take k q) = length buf + k" using k(3) by simp
    have "clean os" "length (buf @ take k q) \<le> sz" "sz - length (buf @ take k q) \<le> length (drop k q)" "sz - length (buf @ take k q) \<le> xfers os"
      unfolding len using Cons.prems 3 k(1-3) by auto
    from Cons.IH [OF this] obtain r where "recv_loop os sz (buf @ take k q) (drop k q) = Inr r"
      "xfers os \<le> xfers (snd (snd (snd r))) + (sz - length (buf @ take k q))" by blast
    then show ?thesis using k(1,2,4) unfolding len 3(2) by (intro exI [of _ r]) simp
  qed (use Cons in \<open>simp_all add: recv_loop_eqs\<close>)
qed

lemma send_loop_done:
  "send_loop os buf k q = Inr (r, q', os') \<Longrightarrow> clean os \<Longrightarrow> k \<le> length buf \<Longrightarrow>
    r = int (length buf) \<and> q' = q @ drop k buf \<and> clean os'"
proof (induction os arbitrary: k q)
  case Nil
  then show ?case by (cases "k < length buf") (simp_all add: send_loop_eqs)
next
  case (Cons o1 os)
  consider "length buf \<le> k" | "k < length buf" "o1 = Eintr" | n where "k < length buf" "o1 = Xfer n"
    using Cons.prems(2) by (cases o1) force+
  then show ?case
  proof cases
    case (3 n)
    let ?m = "min n (length buf - k)"
    have "send_loop os buf (k + ?m) (q @ take ?m (drop k buf)) = Inr (r, q', os')" using Cons.prems(1) 3 by (simp add: send_loop_eqs)
    from Cons.IH [OF this] have "r = int (length buf) \<and> q' = q @ take ?m (drop k buf) @ drop ?m (drop k buf) \<and> clean os'"
      using Cons.prems(2,3) 3 by (simp add: add.commute)
    then show ?thesis by (simp only: append_take_drop_id)
  qed (use Cons in \<open>simp_all add: send_loop_eqs\<close>)
qed

lemma send_loop_enough:
  "clean os \<Longrightarrow> k \<le> length buf \<Longrightarrow> length buf - k \<le> xfers os \<Longrightarrow>
    \<exists>r. send_loop os buf k q = Inr r \<and> xfers os \<le> xfers (snd (snd r)) + (length buf - k)"
proof (induction os arbitrary: k q)
  case Nil
  then show ?case by (simp add: send_loop_eqs)
next
  case (Cons o1 os)
  consider "length buf \<le> k" | "k < length buf" "o1 = Eintr" | n where "k < length buf" "o1 = Xfer n" "0 < n"
    using Cons.prems(1) by (cases o1) force+
  then show ?case
  proof cases
    case (3 n)
    let ?m = "min n (length buf - k)"
    have m: "0 < ?m" "k + ?m \<le> length buf" using 3 by auto
    have "length buf - (k + ?m) \<le> xfers os" using Cons.prems(3) 3 m by simp
    moreover have "clean os" using Cons.prems(1) 3 by simp
    ultimately obtain r where
      "send_loop os buf (k + ?m) (q @ take ?m (drop k buf)) = Inr r" "xfers os \<le> xfers (snd (snd r)) + (length buf - (k + ?m))"
      using Cons.IH [OF _ m(2)] by blast
    then show ?thesis using 3 m by (auto simp: send_loop_eqs)
  qed (use Cons in \<open>simp_all add: send_loop_eqs\<close>)
qed

lemma read_safe_done:
  assumes "read_safe os sz True q = Inr (r, b, q', os')" "clean os"
  shows "r = int sz" "b = take sz q" "q' = drop sz q" "sz \<le> length q" "clean os'"
  using assms recv_loop_done [of os sz "[]" q r b q' os'] by (auto simp: read_safe_def split: if_splits)

lemma read_safe_enough:
  "clean os \<Longrightarrow> sz \<le> length q \<Longrightarrow> sz \<le> xfers os \<Longrightarrow> \<exists>r. read_safe os sz True q = Inr r \<and> xfers os \<le> xfers (snd (snd (snd r))) + sz"
  using recv_loop_enough [of os "[]" sz q] by (auto simp: read_safe_def)

lemma poll_loop_done: "poll_loop os q = Inr (b, os') \<Longrightarrow> clean os \<Longrightarrow> b = (q \<noteq> []) \<and> clean os'"
  by (induction os q rule: poll_loop.induct) auto

lemma poll_loop_enough: "clean os \<Longrightarrow> 1 \<le> xfers os \<Longrightarrow> \<exists>os'. poll_loop os q = Inr (q \<noteq> [], os') \<and> xfers os \<le> xfers os' + 1 \<and> clean os'"
  by (induction os q rule: poll_loop.induct) auto

lemma read_safe_poll_done:
  assumes "read_safe os sz False q = Inr (r, b, q', os')" "clean os" "0 < sz"
  shows "clean os' \<and> (if q = [] then r = 0 \<and> q' = [] else r = int sz \<and> b = take sz q \<and> q' = drop sz q \<and> sz \<le> length q)"
proof -
  obtain ready os1 where p: "poll_loop os q = Inr (ready, os1)" using assms by (auto simp: read_safe_def)
  then have "ready = (q \<noteq> [])" "clean os1" using poll_loop_done assms(2) by blast+
  then show ?thesis using assms p recv_loop_done [of os1 sz "[]" q r b q' os'] by (auto simp: read_safe_def split: if_splits)
qed

lemma read_safe_poll_enough:
  assumes "clean os" "sz \<le> length q" "1 + sz \<le> xfers os"
  shows "\<exists>r. read_safe os sz False q = Inr r \<and> xfers os \<le> xfers (snd (snd (snd r))) + (1 + sz)"
proof -
  obtain os1 where p: "poll_loop os q = Inr (q \<noteq> [], os1)" "xfers os \<le> xfers os1 + 1" "clean os1"
    using poll_loop_enough assms(1,3) by (metis le_add1 le_trans)
  then show ?thesis using assms recv_loop_enough [of os1 "[]" sz q] by (auto simp: read_safe_def)
qed

lemma write_safe_done:
  assumes "write_safe os buf q = Inr (r, q', os')" "clean os"
  shows "r = int (length buf)" "q' = q @ buf" "clean os'"
  using send_loop_done [of os buf 0 q r q' os'] assms by (auto simp: write_safe_def)

lemma write_safe_enough:
  "clean os \<Longrightarrow> length buf \<le> xfers os \<Longrightarrow> \<exists>r. write_safe os buf q = Inr r \<and> xfers os \<le> xfers (snd (snd r)) + length buf"
  using send_loop_enough [of os 0 buf q] by (auto simp: write_safe_def)


section \<open>Messages on the wire\<close>

text \<open>
  A dispatcher whose table has the size it says and whose payload buffer holds every message; what
  a message does to the state of the handlers; its bytes.
\<close>

definition table_ok :: "'e dispatcher \<Rightarrow> bool" where
  "table_ok d \<longleftrightarrow> length (messages d) = max_message_type d \<and> (\<forall>msg \<in> set (messages d). msg_len msg \<le> payload_size d)"

definition kind :: "'e dispatcher \<Rightarrow> u32 \<Rightarrow> 'e dispatcher_message" where
  "kind d type = messages d ! unat type"

definition effect :: "'e dispatcher \<Rightarrow> u32 \<times> u8 list \<Rightarrow> 'e \<Rightarrow> 'e" where
  "effect d m e =
     (let e = run_handlers d (kind d (fst m)) (fst m) (snd m) e in
      case handle_async_done d of
        Some f \<Rightarrow> if msg_ack (kind d (fst m)) = DISPATCHER_ASYNC then f (fst m) (snd m) e else e
      | None \<Rightarrow> e)"

definition wire :: "u32 \<times> u8 list \<Rightarrow> u8 list" where
  "wire m = word_bytes (fst m) @ snd m"

definition msg_ok :: "'e dispatcher \<Rightarrow> u32 \<times> u8 list \<Rightarrow> bool" where
  "msg_ok d m \<longleftrightarrow> unat (fst m) < length (messages d) \<and> length (snd m) = msg_len (kind d (fst m))"

definition acked :: "'e dispatcher \<Rightarrow> u32 \<times> u8 list \<Rightarrow> bool" where
  "acked d m \<longleftrightarrow> msg_ack (kind d (fst m)) = DISPATCHER_ACK"

lemma index_word: "unat v < length xs \<Longrightarrow> index_list xs (uint v) = Inr (xs ! unat v)"
  using index_list_in [of "unat v" xs] by simp

lemma send_ack_done:
  assumes "send_ack os (kind d type) type p d = Inr (d', os')" "clean os"
  shows "d' = d\<lparr>to_send := to_send d @ (if msg_ack (kind d type) = DISPATCHER_ACK then word_bytes ACK else []),
      opaque_state := (case handle_async_done d of Some f \<Rightarrow> if msg_ack (kind d type) = DISPATCHER_ASYNC then f type p (opaque_state d) else opaque_state d
        | None \<Rightarrow> opaque_state d)\<rparr> \<and> clean os'"
  using assms write_safe_done [of os "word_bytes ACK" "to_send d"]
  by (auto simp: send_ack_def split: if_splits option.splits)

lemma single_read_done:
  assumes "dispatcher_handle_single_read os d = Inr (again, d', os')" "clean os" "table_ok d"
    and "to_recv d = concat (map wire ms)" "\<forall>m \<in> set ms. msg_ok d m"
  shows "case ms of [] \<Rightarrow> \<not> again \<and> d' = d
    | m # ms' \<Rightarrow> again \<and> d' = d\<lparr>to_recv := concat (map wire ms'), opaque_state := effect d m (opaque_state d),
        to_send := to_send d @ (if acked d m then word_bytes ACK else [])\<rparr>"
proof -
  obtain r b q os1 where r: "read_safe os 4 False (to_recv d) = Inr (r, b, q, os1)"
    using assms(1) by (auto simp: dispatcher_handle_single_read_def)
  note rd = read_safe_poll_done [OF r assms(2)]
  show ?thesis
  proof (cases ms)
    case Nil
    then show ?thesis using assms(1,4) r rd by (cases d) (auto simp: dispatcher_handle_single_read_def)
  next
    case (Cons m ms')
    obtain type p where m: "m = (type, p)" by (cases m)
    have ok: "unat type < length (messages d)" "length p = msg_len (kind d type)" "msg_len (kind d type) \<le> payload_size d"
      using assms(3,5) by (auto simp: Cons m msg_ok_def table_ok_def kind_def)
    have q: "r = 4" "b = word_bytes type" "q = p @ concat (map wire ms')" "clean os1"
      using rd assms(4) by (auto simp: Cons m wire_def)
    define d1 where "d1 = d\<lparr>to_recv := concat (map wire ms'), opaque_state := run_handlers d (kind d type) type p (opaque_state d)\<rparr>"
    obtain r2 b2 q2 os2 where r2: "read_safe os1 (msg_len (kind d type)) True q = Inr (r2, b2, q2, os2)"
      using assms(1) r q(1,2) ok by (auto simp: dispatcher_handle_single_read_def Let_def index_word kind_def)
    note rd2 = read_safe_done [OF r2 q(4)]
    have "send_ack os2 (kind d type) type p d1 = Inr (d', os')" and again
      using assms(1) r q(1,2,3) ok r2 rd2
      by (auto simp: dispatcher_handle_single_read_def Let_def index_word kind_def d1_def run_handlers_def)
    moreover have "kind d type = kind d1 type" by (simp add: kind_def d1_def)
    ultimately show ?thesis using send_ack_done [of os2 d1 type p d' os'] rd2(5)
      by (auto simp: Cons m d1_def effect_def acked_def kind_def Let_def split: option.splits)
  qed
qed

lemma single_read_returns:
  assumes "clean os" "table_ok d" "to_recv d = concat (map wire ms)" "\<forall>m \<in> set ms. msg_ok d m" "ms \<noteq> []"
    and "length (wire (hd ms)) + 5 \<le> xfers os"
  shows "\<exists>d' os'. dispatcher_handle_single_read os d = Inr (True, d', os')"
proof -
  obtain type p ms' where ms: "ms = (type, p) # ms'" using assms(5) by (metis list.exhaust prod.exhaust)
  have ok: "unat type < length (messages d)" "length p = msg_len (kind d type)" "msg_len (kind d type) \<le> payload_size d"
    using assms(2,4) by (auto simp: ms msg_ok_def table_ok_def kind_def)
  have w: "to_recv d = word_bytes type @ p @ concat (map wire ms')" "9 + length p \<le> xfers os"
    using assms(3,6) by (auto simp: ms wire_def)
  obtain r b q os1 where r: "read_safe os 4 False (to_recv d) = Inr (r, b, q, os1)" "xfers os \<le> xfers os1 + 5"
    using read_safe_poll_enough [OF assms(1), of 4 "to_recv d"] w by auto
  then have q: "r = 4" "b = word_bytes type" "q = p @ concat (map wire ms')" "clean os1"
    using read_safe_poll_done [OF r(1) assms(1)] w(1) by (auto split: if_splits)
  obtain r2 b2 q2 os2 where r2: "read_safe os1 (msg_len (kind d type)) True q = Inr (r2, b2, q2, os2)" "xfers os1 \<le> xfers os2 + length p"
    using read_safe_enough [OF q(4), of "msg_len (kind d type)" q] r(2) w(2) by (auto simp: q(3) ok)
  note rd2 = read_safe_done [OF r2(1) q(4)]
  obtain r3 where "write_safe os2 (word_bytes ACK) (to_send d) = Inr r3"
    using write_safe_enough [OF rd2(5), of "word_bytes ACK" "to_send d"] r(2) r2(2) w(2) by auto
  then have "\<exists>d' os'. send_ack os2 (kind d type) type b2 (d\<lparr>to_recv := q2, opaque_state := run_handlers d (kind d type) type b2 (opaque_state d)\<rparr>) = Inr (d', os')"
    by (cases r3; cases "handle_async_done d"; cases "msg_ack (kind d type) = DISPATCHER_ACK") (simp_all add: send_ack_def)
  then show ?thesis
    using r(1) q(1,2) ok r2(1) rd2(1)
    by (auto simp: dispatcher_handle_single_read_def Let_def index_word kind_def run_handlers_def)
qed

lemma send_request_done:
  assumes "send_request os type p d = Inr (wait, d', os')" "clean os" "table_ok d"
  shows "d' = d\<lparr>to_recv := to_recv d @ wire (type, take (msg_len (kind d type)) p)\<rparr>"
    "wait = acked d (type, take (msg_len (kind d type)) p)" "msg_ok d (type, take (msg_len (kind d type)) p)"
proof -
  have t: "unat type < length (messages d)" using assms(1,3) by (auto simp: send_request_def table_ok_def)
  obtain r q os1 where w: "write_safe os (word_bytes type) (to_recv d) = Inr (r, q, os1)"
    using assms(1) t by (auto simp: send_request_def index_word)
  note w1 = write_safe_done [OF w assms(2)]
  have p: "\<not> length p < msg_len (kind d type)" using assms(1) t w w1 by (auto simp: send_request_def index_word kind_def split: if_splits)
  then obtain r2 q2 where w2: "write_safe os1 (take (msg_len (kind d type)) p) q = Inr (r2, q2, os')" and
    d': "d' = d\<lparr>to_recv := q2\<rparr>" "wait = (r2 \<noteq> - 1 \<and> msg_ack (kind d type) = DISPATCHER_ACK)"
    using assms(1) t w w1(1) by (auto simp: send_request_def index_word kind_def)
  note w3 = write_safe_done [OF w2 w1(3)]
  show "d' = d\<lparr>to_recv := to_recv d @ wire (type, take (msg_len (kind d type)) p)\<rparr>" using w1(2) w3(2) d'(1) by (simp add: wire_def)
  show "wait = acked d (type, take (msg_len (kind d type)) p)" using w3(1) d'(2) by (simp add: acked_def)
  show "msg_ok d (type, take (msg_len (kind d type)) p)" using t p by (simp add: msg_ok_def)
qed

lemma wait_ack_done:
  assumes "wait_ack os d = Inr (got, d', os')" "clean os" "to_send d = (if b then word_bytes ACK else [])"
  shows "b \<and> got \<and> d' = d\<lparr>to_send := []\<rparr>"
proof -
  obtain r buf q where r: "read_safe os 4 True (to_send d) = Inr (r, buf, q, os')" using assms(1) by (auto simp: wait_ack_def)
  note rd = read_safe_done [OF r assms(2)]
  then have b using assms(3) by (auto split: if_splits)
  then show ?thesis using assms(1,3) r rd by (auto simp: wait_ack_def)
qed


section \<open>Senders and receiver\<close>

text \<open>
  The threads together. \<open>holder\<close> is the thread that holds the lock while it waits for an
  acknowledgement, \<open>sent\<close> the messages sent so far in the order of the lock. The two writes of a send are one step: a receiver
  that finds a message partly written blocks until the rest is there. System calls may be interrupted and
  transfer any number of bytes, but do not fail.
\<close>

record 'e threads =
  disp :: "'e dispatcher"
  holder :: "nat option"
  sent :: "(u32 \<times> u8 list) list"

inductive dispatch_step :: "'e threads \<Rightarrow> 'e threads \<Rightarrow> bool" where
  Send: "holder s = None \<Longrightarrow> clean os \<Longrightarrow> send_request os type p (disp s) = Inr (wait, d, os') \<Longrightarrow>
    dispatch_step s (s\<lparr>disp := d, holder := if wait then Some t else None,
      sent := sent s @ [(type, take (msg_len (kind (disp s) type)) p)]\<rparr>)"
| Receive: "clean os \<Longrightarrow> dispatcher_handle_single_read os (disp s) = Inr (again, d, os') \<Longrightarrow> dispatch_step s (s\<lparr>disp := d\<rparr>)"
| Acked: "holder s = Some t \<Longrightarrow> clean os \<Longrightarrow> wait_ack os (disp s) = Inr (got, d, os') \<Longrightarrow>
    dispatch_step s (s\<lparr>disp := d, holder := None\<rparr>)"

definition dispatch_start :: "'e dispatcher \<Rightarrow> 'e threads" where
  "dispatch_start d = \<lparr>disp = d, holder = None, sent = []\<rparr>"

text \<open>
  The invariant: the first \<open>k\<close> messages sent have been handled, the others are on the wire; only the last
  message may still want an acknowledgement, and its sender waits; the acknowledgement is there once it is handled.
\<close>

definition dispatch_inv :: "'e dispatcher \<Rightarrow> nat \<Rightarrow> 'e threads \<Rightarrow> bool" where
  "dispatch_inv d0 k s \<longleftrightarrow> k \<le> length (sent s) \<and> (\<forall>m \<in> set (sent s). msg_ok d0 m) \<and>
     disp s = d0\<lparr>to_recv := concat (map wire (drop k (sent s))), opaque_state := fold (effect d0) (take k (sent s)) (opaque_state d0),
       to_send := (if holder s \<noteq> None \<and> k = length (sent s) then word_bytes ACK else [])\<rparr> \<and>
     (holder s \<noteq> None \<longrightarrow> sent s \<noteq> [] \<and> acked d0 (last (sent s))) \<and>
     (\<forall>i. k \<le> i \<and> i < length (sent s) \<and> acked d0 (sent s ! i) \<longrightarrow> Suc i = length (sent s) \<and> holder s \<noteq> None)"

lemma config_simps [simp]:
  "table_ok (d\<lparr>to_recv := q, opaque_state := e, to_send := r\<rparr>) = table_ok d"
  "kind (d\<lparr>to_recv := q, opaque_state := e, to_send := r\<rparr>) = kind d"
  "msg_ok (d\<lparr>to_recv := q, opaque_state := e, to_send := r\<rparr>) = msg_ok d"
  "acked (d\<lparr>to_recv := q, opaque_state := e, to_send := r\<rparr>) = acked d"
  "effect (d\<lparr>to_recv := q, opaque_state := e, to_send := r\<rparr>) = effect d"
  by (auto simp: table_ok_def kind_def msg_ok_def acked_def effect_def run_handlers_def fun_eq_iff Let_def split: option.splits)

lemma dispatch_inv_send:
  assumes inv: "dispatch_inv d0 k s" and ok: "table_ok d0" and h: "holder s = None"
    and st: "clean os" "send_request os type p (disp s) = Inr (wait, d, os')"
  shows "dispatch_inv d0 k (s\<lparr>disp := d, holder := if wait then Some t else None, sent := sent s @ [(type, take (msg_len (kind (disp s) type)) p)]\<rparr>)"
proof -
  let ?m = "(type, take (msg_len (kind (disp s) type)) p)"
  note i = inv [unfolded dispatch_inv_def]
  have ds: "disp s = d0\<lparr>to_recv := concat (map wire (drop k (sent s))), opaque_state := fold (effect d0) (take k (sent s)) (opaque_state d0), to_send := []\<rparr>"
    using i h by simp
  have "table_ok (disp s)" unfolding ds using ok by simp
  note r = send_request_done [OF st(2,1) this]
  have d: "d = (disp s)\<lparr>to_recv := to_recv (disp s) @ wire ?m\<rparr>" by (rule r(1))
  have w: "wait = acked d0 ?m" "msg_ok d0 ?m" using r(2,3) unfolding ds by simp_all
  have k: "k \<le> length (sent s)" "\<And>j. k \<le> j \<Longrightarrow> j < length (sent s) \<Longrightarrow> \<not> acked d0 (sent s ! j)" using i h by auto
  have ok: "\<forall>m \<in> set (sent s). msg_ok d0 m" using i by blast
  let ?s = "s\<lparr>disp := d, holder := if wait then Some t else None, sent := sent s @ [?m]\<rparr>"
  have A: "disp ?s = d0\<lparr>to_recv := concat (map wire (drop k (sent ?s))), opaque_state := fold (effect d0) (take k (sent ?s)) (opaque_state d0),
      to_send := (if holder ?s \<noteq> None \<and> k = length (sent ?s) then word_bytes ACK else [])\<rparr>"
    unfolding d using k(1) by (simp add: ds)
  have B: "Suc j = length (sent ?s) \<and> holder ?s \<noteq> None" if "k \<le> j \<and> j < length (sent ?s) \<and> acked d0 (sent ?s ! j)" for j
    using that k(2) [of j] w(1) by (cases "j < length (sent s)") (auto simp: nth_append)
  show ?thesis
    unfolding dispatch_inv_def
  proof (intro conjI)
    show "holder ?s \<noteq> None \<longrightarrow> sent ?s \<noteq> [] \<and> acked d0 (last (sent ?s))" using w(1) by simp
    show "\<forall>j. k \<le> j \<and> j < length (sent ?s) \<and> acked d0 (sent ?s ! j) \<longrightarrow> Suc j = length (sent ?s) \<and> holder ?s \<noteq> None" using B by blast
  qed (use k(1) ok w(2) A in simp_all)
qed

lemma dispatch_inv_receive:
  assumes inv: "dispatch_inv d0 k s" and ok: "table_ok d0"
    and st: "clean os" "dispatcher_handle_single_read os (disp s) = Inr (again, d, os')"
  shows "again = (k < length (sent s))" "dispatch_inv d0 (if k < length (sent s) then Suc k else k) (s\<lparr>disp := d\<rparr>)"
proof -
  note i = inv [unfolded dispatch_inv_def]
  have ds: "disp s = d0\<lparr>to_recv := concat (map wire (drop k (sent s))), opaque_state := fold (effect d0) (take k (sent s)) (opaque_state d0),
      to_send := (if holder s \<noteq> None \<and> k = length (sent s) then word_bytes ACK else [])\<rparr>" using i by blast
  have t: "table_ok (disp s)" "to_recv (disp s) = concat (map wire (drop k (sent s)))" "\<forall>m \<in> set (drop k (sent s)). msg_ok (disp s) m"
    unfolding ds using i ok by (auto dest: in_set_dropD)
  note r = single_read_done [OF st(2,1) t]
  show "again = (k < length (sent s))" using r by (cases "k < length (sent s)") (auto simp flip: Cons_nth_drop_Suc)
  show "dispatch_inv d0 (if k < length (sent s) then Suc k else k) (s\<lparr>disp := d\<rparr>)"
  proof (cases "k < length (sent s)")
    case False
    then show ?thesis using r inv by (simp add: dispatch_inv_def)
  next
    case True
    let ?m = "sent s ! k"
    have dr: "drop k (sent s) = ?m # drop (Suc k) (sent s)" using True by (simp add: Cons_nth_drop_Suc)
    have a: "acked (disp s) = acked d0" "effect (disp s) = effect d0" unfolding ds by simp_all
    have d: "d = (disp s)\<lparr>to_recv := concat (map wire (drop (Suc k) (sent s))), opaque_state := effect d0 ?m (opaque_state (disp s)),
        to_send := to_send (disp s) @ (if acked d0 ?m then word_bytes ACK else [])\<rparr>"
      using r unfolding dr by (simp add: a)
    have last: "acked d0 ?m \<longleftrightarrow> holder s \<noteq> None \<and> Suc k = length (sent s)"
    proof
      assume "acked d0 ?m"
      then show "holder s \<noteq> None \<and> Suc k = length (sent s)" using i True by auto
    next
      assume h: "holder s \<noteq> None \<and> Suc k = length (sent s)"
      then have "acked d0 (last (sent s))" "sent s \<noteq> []" using i by blast+
      moreover have "length (sent s) - 1 = k" using h by linarith
      ultimately show "acked d0 ?m" by (simp add: last_conv_nth)
    qed
    show ?thesis
      unfolding dispatch_inv_def using i True last by (auto simp: d ds take_Suc_conv_app_nth)
  qed
qed

lemma dispatch_inv_acked:
  assumes inv: "dispatch_inv d0 k s" and h: "holder s = Some t" and st: "clean os" "wait_ack os (disp s) = Inr (got, d, os')"
  shows "got" "k = length (sent s)" "dispatch_inv d0 k (s\<lparr>disp := d, holder := None\<rparr>)"
proof -
  note i = inv [unfolded dispatch_inv_def]
  have "to_send (disp s) = (if k = length (sent s) then word_bytes ACK else [])" using i h by simp
  note r = wait_ack_done [OF st(2,1) this]
  then show "got" "k = length (sent s)" by auto
  then show "dispatch_inv d0 k (s\<lparr>disp := d, holder := None\<rparr>)" using i r by (auto simp: dispatch_inv_def)
qed

lemma dispatch_reachable_inv:
  assumes "dispatch_step\<^sup>*\<^sup>* (dispatch_start d0) s" "table_ok d0" "to_recv d0 = []" "to_send d0 = []"
  shows "\<exists>k. dispatch_inv d0 k s"
  using assms(1)
proof (induction rule: rtranclp_induct)
  case base
  have "d0 = d0\<lparr>to_recv := [], opaque_state := opaque_state d0, to_send := []\<rparr>" using assms(3,4) by simp
  then show ?case by (simp add: dispatch_inv_def dispatch_start_def)
next
  case (step s s')
  then obtain k where k: "dispatch_inv d0 k s" by blast
  from step.hyps(2) show ?case
    by cases (use dispatch_inv_send [OF k assms(2)] dispatch_inv_receive(2) [OF k assms(2)] dispatch_inv_acked(3) [OF k] in blast)+
qed

lemma send_request_returns:
  assumes "table_ok d" "unat type < length (messages d)" "msg_handler (kind d type) \<noteq> None" "msg_len (kind d type) \<le> length p"
    and "clean os" "4 + msg_len (kind d type) \<le> xfers os"
  shows "\<exists>wait d' os'. send_request os type p d = Inr (wait, d', os')"
proof -
  obtain r q os1 where w: "write_safe os (word_bytes type) (to_recv d) = Inr (r, q, os1)" "xfers os \<le> xfers os1 + 4"
    using write_safe_enough [OF assms(5), of "word_bytes type" "to_recv d"] assms(6) by auto
  note w1 = write_safe_done [OF w(1) assms(5)]
  obtain r2 where "write_safe os1 (take (msg_len (kind d type)) p) q = Inr r2"
    using write_safe_enough [OF w1(3), of "take (msg_len (kind d type)) p" q] w(2) assms(4,6) by auto
  then show ?thesis
    using assms(1-4) w(1) w1(1) by (cases r2) (auto simp: send_request_def table_ok_def index_word kind_def)
qed


definition demo_disp :: "u8 list list dispatcher" where
  "demo_disp = \<lparr>messages = [\<lparr>msg_len = 0, msg_ack = 0, msg_handler = None\<rparr>, \<lparr>msg_len = 2, msg_ack = 1, msg_handler = Some (\<lambda>p e. p # e)\<rparr>],
     max_message_type = 2, payload_size = 2, opaque_state = [], handle_async_done = None, any_handler = None, to_recv = [], to_send = []\<rparr>"

definition demo_calls :: "io list" where
  "demo_calls = Eintr # replicate 20 (Xfer 3)"

lemma demo_calls_ok: "clean demo_calls" "xfers demo_calls = 20"
  by (simp_all add: demo_calls_def clean_def eval_nat_numeral)

lemma demo_disp_ok: "table_ok demo_disp" "to_recv demo_disp = []" "to_send demo_disp = []" "opaque_state demo_disp = []"
  "kind demo_disp 1 = \<lparr>msg_len = 2, msg_ack = 1, msg_handler = Some (\<lambda>p e. p # e)\<rparr>" "length (messages demo_disp) = 2"
  by (simp_all add: demo_disp_def table_ok_def kind_def)

lemma demo_sent:
  "\<exists>s. dispatch_step\<^sup>*\<^sup>* (dispatch_start demo_disp) s \<and> sent s = [(1, [7, 8])] \<and> holder s = Some 0 \<and>
    disp s = demo_disp\<lparr>to_recv := wire (1, [7, 8])\<rparr>"
proof -
  obtain w d os' where r: "send_request demo_calls 1 [7, 8] demo_disp = Inr (w, d, os')"
    using send_request_returns [OF demo_disp_ok(1), of 1 "[7, 8]" demo_calls] by (auto simp: demo_disp_ok demo_calls_ok)
  note dn = send_request_done [OF r demo_calls_ok(1) demo_disp_ok(1)]
  let ?s = "(dispatch_start demo_disp)\<lparr>disp := d, holder := if w then Some 0 else None, sent := [(1, [7, 8])]\<rparr>"
  have "dispatch_step (dispatch_start demo_disp) ((dispatch_start demo_disp)\<lparr>disp := d, holder := if w then Some 0 else None,
      sent := sent (dispatch_start demo_disp) @ [(1, take (msg_len (kind (disp (dispatch_start demo_disp)) 1)) [7, 8])]\<rparr>)"
    by (rule Send [OF _ demo_calls_ok(1)]) (simp_all add: dispatch_start_def r)
  then have "dispatch_step (dispatch_start demo_disp) ?s" by (simp add: dispatch_start_def demo_disp_ok)
  then show ?thesis
    using dn by (intro exI [of _ ?s]) (auto simp: dispatch_start_def demo_disp_ok acked_def)
qed

lemma demo_handled:
  "\<exists>s. dispatch_step\<^sup>*\<^sup>* (dispatch_start demo_disp) s \<and> sent s = [(1, [7, 8])] \<and> holder s = Some 0 \<and>
    to_recv (disp s) = [] \<and> to_send (disp s) = word_bytes ACK"
proof -
  obtain s where s: "dispatch_step\<^sup>*\<^sup>* (dispatch_start demo_disp) s" "sent s = [(1, [7, 8])]" "holder s = Some 0"
    "disp s = demo_disp\<lparr>to_recv := wire (1, [7, 8])\<rparr>" using demo_sent by blast
  have ok: "table_ok (disp s)" "to_recv (disp s) = concat (map wire [(1, [7, 8])])" "\<forall>m \<in> set [(1, [7, 8])]. msg_ok (disp s) m"
    using demo_disp_ok by (simp_all add: s(4) table_ok_def msg_ok_def kind_def)
  obtain d os' where r: "dispatcher_handle_single_read demo_calls (disp s) = Inr (True, d, os')"
    using single_read_returns [OF demo_calls_ok(1) ok] by (auto simp: demo_calls_ok wire_def)
  have "d = (disp s)\<lparr>to_recv := [], opaque_state := effect (disp s) (1, [7, 8]) [], to_send := word_bytes ACK\<rparr>"
    using single_read_done [OF r demo_calls_ok(1) ok] by (simp add: s(4) demo_disp_ok acked_def kind_def [symmetric]) (simp add: kind_def demo_disp_def)
  then show ?thesis
    using rtranclp.rtrancl_into_rtrancl [OF s(1) Receive [OF demo_calls_ok(1) r]] s(2,3)
    by (intro exI [of _ "s\<lparr>disp := d\<rparr>"]) simp
qed


section \<open>Properties\<close>



text \<open>
  An acknowledged send is synchronous. When the read of the acknowledgement returns, the acknowledgement has the right value
  and every message sent so far, that of the waiting thread the last of them, has been handled.
\<close>

theorem dispatcher_ack_synchronous:
  assumes "dispatch_step\<^sup>*\<^sup>* (dispatch_start d0) s" "table_ok d0" "to_recv d0 = []" "to_send d0 = []"
    and "holder s = Some t" "clean os" "wait_ack os (disp s) = Inr (got, d, os')"
  shows "got \<and> opaque_state (disp s) = fold (effect d0) (sent s) (opaque_state d0) \<and> acked d0 (last (sent s)) \<and> to_send d = []"
proof -
  obtain k where k: "dispatch_inv d0 k s" using dispatch_reachable_inv [OF assms(1-4)] by blast
  note a = dispatch_inv_acked [OF k assms(5-7)]
  have "to_send d = []" using a(3) by (simp add: dispatch_inv_def)
  then show ?thesis using a(1,2) k assms(5) by (simp add: dispatch_inv_def)
qed

theorem dispatcher_ack_synchronous_witness:
  "\<exists>(s :: u8 list list threads) got d os'. sent s = [(1, [7, 8])] \<and> wait_ack demo_calls (disp s) = Inr (got, d, os') \<and> got \<and>
    opaque_state (disp s) = fold (effect demo_disp) (sent s) []"
proof -
  obtain s where s: "dispatch_step\<^sup>*\<^sup>* (dispatch_start demo_disp) s" "sent s = [(1, [7, 8])]" "holder s = Some 0"
    "to_recv (disp s) = []" "to_send (disp s) = word_bytes ACK" using demo_handled by blast
  obtain r where "read_safe demo_calls 4 True (to_send (disp s)) = Inr r"
    using read_safe_enough [OF demo_calls_ok(1), of 4 "to_send (disp s)"] by (auto simp: s(5) demo_calls_ok)
  then obtain got d os' where w: "wait_ack demo_calls (disp s) = Inr (got, d, os')" by (cases r) (simp add: wait_ack_def)
  then show ?thesis
    using dispatcher_ack_synchronous [OF s(1) demo_disp_ok(1-3) s(3) demo_calls_ok(1) w] s(2) demo_disp_ok(4)
    by (intro exI [of _ s] exI [of _ got] exI [of _ d] exI [of _ os']) simp
qed

text \<open>
  No deadlock. In every state the threads reach, as long as bytes are on their way to the receiver it can read, handle and
  acknowledge a message - it meets no type outside the table and no payload that overflows its buffer - and a thread that waits
  for its acknowledgement after that can read it; the number of system calls needed is bounded by the bytes moved.
\<close>

theorem dispatcher_progress:
  assumes "dispatch_step\<^sup>*\<^sup>* (dispatch_start d0) s" "table_ok d0" "to_recv d0 = []" "to_send d0 = []"
    and "clean os" "length (to_recv (disp s)) + 5 \<le> xfers os"
  shows "if to_recv (disp s) \<noteq> [] then \<exists>d os'. dispatcher_handle_single_read os (disp s) = Inr (True, d, os')
    else holder s \<noteq> None \<longrightarrow> (\<exists>d os'. wait_ack os (disp s) = Inr (True, d, os'))"
proof -
  obtain k where k: "dispatch_inv d0 k s" using dispatch_reachable_inv [OF assms(1-4)] by blast
  note i = k [unfolded dispatch_inv_def]
  have ds: "disp s = d0\<lparr>to_recv := concat (map wire (drop k (sent s))), opaque_state := fold (effect d0) (take k (sent s)) (opaque_state d0),
      to_send := (if holder s \<noteq> None \<and> k = length (sent s) then word_bytes ACK else [])\<rparr>" using i by blast
  have r: "to_recv (disp s) = concat (map wire (drop k (sent s)))" unfolding ds by simp
  show ?thesis
  proof (cases "drop k (sent s)")
    case Nil
    then have "to_recv (disp s) = []" "k = length (sent s)" using r i by auto
    moreover have "\<exists>r. read_safe os 4 True (to_send (disp s)) = Inr r" if "holder s \<noteq> None"
      using read_safe_enough [OF assms(5), of 4 "to_send (disp s)"] assms(6) that calculation(2) by (auto simp: ds)
    then have "\<exists>r. wait_ack os (disp s) = Inr r" if "holder s \<noteq> None" using that by (force simp: wait_ack_def)
    ultimately show ?thesis using dispatch_inv_acked(1) [OF k _ assms(5)] by (metis not_None_eq prod_cases3)
  next
    case (Cons m ms)
    then have ne: "to_recv (disp s) \<noteq> []" by (simp add: r wire_def)
    have "\<exists>d os'. dispatcher_handle_single_read os (disp s) = Inr (True, d, os')"
    proof (rule single_read_returns [OF assms(5) _ r])
      show "\<forall>m\<in>set (drop k (sent s)). msg_ok (disp s) m" unfolding ds using i by (auto dest: in_set_dropD)
      show "length (wire (hd (drop k (sent s)))) + 5 \<le> xfers os" using assms(6) Cons by (simp add: r)
    qed (use assms(2) Cons in \<open>simp_all add: ds\<close>)
    then show ?thesis using ne by simp
  qed
qed

theorem dispatcher_progress_witness:
  "\<exists>(s :: u8 list list threads) d os'. sent s = [(1, [7, 8])] \<and> dispatcher_handle_single_read demo_calls (disp s) = Inr (True, d, os')"
proof -
  obtain s where s: "dispatch_step\<^sup>*\<^sup>* (dispatch_start demo_disp) s" "sent s = [(1, [7, 8])]" "disp s = demo_disp\<lparr>to_recv := wire (1, [7, 8])\<rparr>"
    using demo_sent by blast
  then show ?thesis using dispatcher_progress [OF s(1) demo_disp_ok(1-3) demo_calls_ok(1)] by (auto simp: demo_calls_ok wire_def)
qed

text \<open>
  Registration. A dispatcher starts with a table whose payload buffer is long enough, and registering a handler keeps it so and
  changes the entry of that type only; a type that is out of range or taken already is refused.
\<close>

theorem dispatcher_register_ok:
  assumes "table_ok d"
  shows "case dispatcher_register_handler type handler sz ack d of
      Inr d' \<Rightarrow> unat type < max_message_type d \<and> msg_handler (kind d type) = None \<and> table_ok d' \<and>
        kind d' type = \<lparr>msg_len = sz, msg_ack = ack, msg_handler = Some handler\<rparr> \<and> (\<forall>u. u \<noteq> type \<longrightarrow> kind d' u = kind d u)
    | Inl e \<Rightarrow> e = Abort \<and> (unat type < max_message_type d \<longrightarrow> msg_handler (kind d type) \<noteq> None)"
proof (cases "unat type < max_message_type d \<and> msg_handler (kind d type) = None")
  case True
  let ?msg = "\<lparr>msg_len = sz, msg_ack = ack, msg_handler = Some handler\<rparr>"
  have t: "unat type < length (messages d)" using True assms by (simp add: table_ok_def)
  let ?d = "d\<lparr>messages := (messages d)[unat type := ?msg], payload_size := max sz (payload_size d)\<rparr>"
  have r: "dispatcher_register_handler type handler sz ack d = Inr ?d"
    using True t by (auto simp: dispatcher_register_handler_def index_word kind_def Let_def max_def)
  have "table_ok ?d" using assms unfolding table_ok_def by (auto dest!: subsetD [OF set_update_subset_insert])
  moreover have "kind ?d u = kind d u" if "u \<noteq> type" for u
  proof -
    have "unat type \<noteq> unat u" using that by (metis of_nat_unat ucast_id)
    then show ?thesis by (simp add: kind_def)
  qed
  ultimately show ?thesis using r True t by (simp add: kind_def)
next
  case False
  then show ?thesis using assms by (auto simp: dispatcher_register_handler_def index_word kind_def table_ok_def)
qed

theorem dispatcher_register_ok_witness:
  "\<exists>d'. dispatcher_register_handler 0 (\<lambda>p e. e) 16 0 demo_disp = Inr d' \<and> table_ok d'"
  using dispatcher_register_ok [OF demo_disp_ok(1), where type = 0 and handler = "\<lambda>p e. e" and sz = 16 and ack = 0]
  by (auto simp: demo_disp_def kind_def split: sum.splits)

end
