(* ===== verification/H264_Qsv.thy ===== *)
theory H264_Qsv
  imports Prelude
begin

text \<open>
  The H.264 encoder of the display worker on the Intel Media SDK (server/red_worker.c, built with \<open>USE_H264_QSV\<close>):
  opening a context for a frame size, encoding a frame, closing the context. The SDK is a parameter: a
  function from the calls made so far and the next call to the reply. Memory that
  \<open>malloc\<close> returned and nothing wrote to holds no value, and using it is the outcome \<open>Uninit\<close>; the early returns of
  the code leave such contexts behind. The lemmas show what a successful opening establishes, that a frame encoded in a context of
  its own size is loaded completely, and what the early returns and the shared size variables lead to.
\<close>

section \<open>The Media SDK\<close>

text \<open>The symbolic constants of the SDK the code uses, and the status codes: errors are negative, warnings positive.\<close>

datatype mfx_const = MFX_CODEC_AVC | MFX_TARGETUSAGE_BEST_SPEED | MFX_RATECONTROL_VBR | MFX_FOURCC_NV12 | MFX_FOURCC_RGB4 |
  MFX_CHROMAFORMAT_YUV420 | MFX_PICSTRUCT_PROGRESSIVE | MFX_IOPATTERN_IN_VIDEO_MEMORY | MFX_IOPATTERN_OUT_VIDEO_MEMORY |
  MFX_MEMTYPE_FROM_VPPOUT | MFX_EXTBUFF_VPP_DENOISE | MFX_EXTBUFF_VPP_SCENE_ANALYSIS | MFX_EXTBUFF_VPP_DETAIL |
  MFX_EXTBUFF_VPP_PROCAMP

abbreviation (input) "MFX_ERR_NONE \<equiv> 0 :: int"
abbreviation (input) "MFX_ERR_MEMORY_ALLOC \<equiv> - 4 :: int"
abbreviation (input) "MFX_ERR_NOT_FOUND \<equiv> - 9 :: int"
abbreviation (input) "MFX_WRN_DEVICE_BUSY \<equiv> 2 :: int"

record frame_info =
  four_cc :: mfx_const
  chroma_format :: mfx_const
  pic_struct :: mfx_const
  crop_x :: u16
  crop_y :: u16
  crop_w :: u16
  crop_h :: u16
  frame_w :: u16
  frame_h :: u16
  frame_rate_n :: u32
  frame_rate_d :: u32

record enc_params =
  codec_id :: mfx_const
  target_usage :: mfx_const
  target_kbps :: u16
  rate_control :: mfx_const
  enc_info :: frame_info
  enc_io_pattern :: "mfx_const list"
  async_depth :: u16
  gop_ref_dist :: u16
  max_dec_frame_buffering :: u16

record vpp_params =
  vpp_in :: frame_info
  vpp_out :: frame_info
  vpp_io_pattern :: "mfx_const list"
  vpp_do_not_use :: "mfx_const list"

record alloc_request =
  num_frame_suggested :: u16
  req_type :: "mfx_const list"

text \<open>
  The calls: the SDK's, those of the allocator, \<open>Malloc\<close> for the C library's, \<open>ReadLocked\<close> for a read of the counter \<open>Data.Locked\<close>, which
  the SDK changes on its own, and \<open>LoadRows\<close> for the copy of the rows of a frame to the memory of a surface.
\<close>

datatype mfx_call = Malloc | Initialize | ENCODE_Query enc_params | ENCODE_QueryIOSurf enc_params | VPP_QueryIOSurf vpp_params |
  Alloc alloc_request | ClearRGBSurfaceVMem nat | ENCODE_Init enc_params | VPP_Init vpp_params | ENCODE_GetVideoParam |
  ENCODE_Close | VPP_Close | FreeFrames "nat list" | Release |
  ReadLocked nat | Lock nat | LoadRows nat "u8 list list" | Unlock nat |
  RunFrameVPPAsync nat nat | EncodeFrameAsync nat "u8 list" | SyncOperation

record mfx_reply =
  status :: int
  reply_params :: enc_params
  requests :: "alloc_request \<times> alloc_request"
  mem_ids :: "nat list"
  buffer_kb :: u16
  locked :: u16
  syncp :: bool
  bits :: "u8 list"

type_synonym sdk = "mfx_call list \<Rightarrow> mfx_call \<Rightarrow> mfx_reply"


section \<open>The context\<close>

text \<open>A C variable of pointer type, or of another type without \<open>Null\<close>: it may never have been set.\<close>

datatype 'a cell = Indet | Null | Val 'a

definition get_cell :: "'a cell \<Rightarrow> 'a res" where
  "get_cell c = (case c of Indet \<Rightarrow> Inl Uninit | Null \<Rightarrow> Inl NullDeref | Val a \<Rightarrow> Inr a)"

definition free_cell :: "'a cell \<Rightarrow> unit res" where
  "free_cell c = (case c of Indet \<Rightarrow> Inl Uninit | _ \<Rightarrow> Inr ())"

record qsv_surface =
  surf_info :: frame_info
  mem_id :: nat

record h264_qsv_ctx =
  session :: "unit cell"
  nSurfNumVPPIn :: "u16 cell"
  nSurfNumVPPOutEnc :: "u16 cell"
  mfxResponseVPPIn :: "nat list cell"
  mfxResponseVPPOutEnc :: "nat list cell"
  pmfxSurfacesVPPIn :: "qsv_surface cell list cell"
  pVPPSurfacesVPPOutEnc :: "qsv_surface cell list cell"
  mfxBS :: "u8 list cell"

definition fresh_ctx :: h264_qsv_ctx where
  "fresh_ctx = \<lparr>session = Indet, nSurfNumVPPIn = Indet, nSurfNumVPPOutEnc = Indet, mfxResponseVPPIn = Indet,
     mfxResponseVPPOutEnc = Indet, pmfxSurfacesVPPIn = Indet, pVPPSurfacesVPPOutEnc = Indet, mfxBS = Indet\<rparr>"

text \<open>
  \<open>enc_ctx\<close> is the pointer \<open>*pctx\<close>, a field of the worker. \<open>last_width\<close> and \<open>last_height\<close> are static variables of
  \<open>h264_qsv_encoder_encode\<close>, one pair for all workers of the process.
\<close>

record encoder =
  enc_ctx :: "h264_qsv_ctx option"
  last_width :: int
  last_height :: int
  calls :: "mfx_call list"


section \<open>Early returns\<close>

text \<open>A piece of a C function: it goes on with a value or returns a status from the function, \<open>Inl\<close>.\<close>

type_synonym 'a act = "encoder \<Rightarrow> ((int + 'a) \<times> encoder) res"

definition ret :: "'a \<Rightarrow> 'a act" where
  "ret a e = Inr (Inr a, e)"

definition return_status :: "int \<Rightarrow> 'a act" where
  "return_status s e = Inr (Inl s, e)"

definition abind :: "'a act \<Rightarrow> ('a \<Rightarrow> 'b act) \<Rightarrow> 'b act" where
  "abind m f e = rbind (m e) (\<lambda>(r, e'). case r of Inl s \<Rightarrow> Inr (Inl s, e') | Inr a \<Rightarrow> f a e')"

definition lift :: "'a res \<Rightarrow> 'a act" where
  "lift r e = rbind r (\<lambda>a. Inr (Inr a, e))"

definition get_ctx :: "h264_qsv_ctx act" where
  "get_ctx e = rbind (deref (enc_ctx e)) (\<lambda>c. Inr (Inr c, e))"

definition set_ctx :: "(h264_qsv_ctx \<Rightarrow> h264_qsv_ctx) \<Rightarrow> unit act" where
  "set_ctx f e = rbind (deref (enc_ctx e)) (\<lambda>c. Inr (Inr (), e\<lparr>enc_ctx := Some (f c)\<rparr>))"

definition modify :: "(encoder \<Rightarrow> encoder) \<Rightarrow> unit act" where
  "modify f e = Inr (Inr (), f e)"

definition mfx :: "sdk \<Rightarrow> mfx_call \<Rightarrow> mfx_reply act" where
  "mfx lib c e = Inr (Inr (lib (calls e) c), e\<lparr>calls := calls e @ [c]\<rparr>)"

text \<open>\<open>MSDK_CHECK_RESULT\<close> after a call, and \<open>malloc\<close> with \<open>MSDK_CHECK_POINTER\<close>; a negative status of \<open>Malloc\<close> stands for \<open>NULL\<close>.\<close>

definition mfx_checked :: "sdk \<Rightarrow> mfx_call \<Rightarrow> mfx_reply act" where
  "mfx_checked lib c = abind (mfx lib c) (\<lambda>r. if status r < 0 then return_status (status r) else ret r)"

definition malloc_into :: "sdk \<Rightarrow> (unit cell \<Rightarrow> h264_qsv_ctx \<Rightarrow> h264_qsv_ctx) \<Rightarrow> unit act" where
  "malloc_into lib f = abind (mfx lib Malloc) (\<lambda>r.
     if status r < 0 then abind (set_ctx (f Null)) (\<lambda>_. return_status MFX_ERR_MEMORY_ALLOC) else set_ctx (f (Val ())))"


section \<open>Opening\<close>

definition MSDK_ALIGN16 :: "int \<Rightarrow> int" where
  "MSDK_ALIGN16 v = push_bit 4 (drop_bit 4 (v + 15))"

text \<open>The values stored in 16-bit fields are truncated.\<close>

definition qsv_frame_info :: "mfx_const \<Rightarrow> int \<Rightarrow> int \<Rightarrow> int \<Rightarrow> int \<Rightarrow> frame_info" where
  "qsv_frame_info fcc cw ch w h = \<lparr>four_cc = fcc, chroma_format = MFX_CHROMAFORMAT_YUV420, pic_struct = MFX_PICSTRUCT_PROGRESSIVE,
     crop_x = 0, crop_y = 0, crop_w = of_int cw, crop_h = of_int ch, frame_w = of_int w, frame_h = of_int h,
     frame_rate_n = 30, frame_rate_d = 1\<rparr>"

definition qsv_enc_params :: "int \<Rightarrow> int \<Rightarrow> enc_params" where
  "qsv_enc_params width height = \<lparr>codec_id = MFX_CODEC_AVC, target_usage = MFX_TARGETUSAGE_BEST_SPEED, target_kbps = 6000,
     rate_control = MFX_RATECONTROL_VBR,
     enc_info = qsv_frame_info MFX_FOURCC_NV12 width height (MSDK_ALIGN16 width) (MSDK_ALIGN16 height),
     enc_io_pattern = [MFX_IOPATTERN_IN_VIDEO_MEMORY], async_depth = 1, gop_ref_dist = 1, max_dec_frame_buffering = 1\<rparr>"

definition qsv_vpp_params :: "int \<Rightarrow> int \<Rightarrow> vpp_params" where
  "qsv_vpp_params width height =
     (let cw = (of_int width :: u16); ch = (of_int height :: u16) in
      \<lparr>vpp_in = qsv_frame_info MFX_FOURCC_RGB4 width height (MSDK_ALIGN16 width) (MSDK_ALIGN16 height),
       vpp_out = qsv_frame_info MFX_FOURCC_NV12 width height (MSDK_ALIGN16 (uint cw)) (MSDK_ALIGN16 (uint ch)),
       vpp_io_pattern = [MFX_IOPATTERN_IN_VIDEO_MEMORY, MFX_IOPATTERN_OUT_VIDEO_MEMORY], vpp_do_not_use = []\<rparr>)"

definition vpp_do_not_use_algs :: "mfx_const list" where
  "vpp_do_not_use_algs = [MFX_EXTBUFF_VPP_DENOISE, MFX_EXTBUFF_VPP_SCENE_ANALYSIS, MFX_EXTBUFF_VPP_DETAIL, MFX_EXTBUFF_VPP_PROCAMP]"

text \<open>The two pools of surfaces, and the loop that allocates the headers of one.\<close>

datatype pool = VPPIn | VPPOutEnc

definition pool_surfaces :: "pool \<Rightarrow> h264_qsv_ctx \<Rightarrow> qsv_surface cell list cell" where
  "pool_surfaces p c = (case p of VPPIn \<Rightarrow> pmfxSurfacesVPPIn c | VPPOutEnc \<Rightarrow> pVPPSurfacesVPPOutEnc c)"

definition set_pool :: "pool \<Rightarrow> qsv_surface cell list cell \<Rightarrow> h264_qsv_ctx \<Rightarrow> h264_qsv_ctx" where
  "set_pool p v c = (case p of VPPIn \<Rightarrow> c\<lparr>pmfxSurfacesVPPIn := v\<rparr> | VPPOutEnc \<Rightarrow> c\<lparr>pVPPSurfacesVPPOutEnc := v\<rparr>)"

definition pool_mids :: "pool \<Rightarrow> h264_qsv_ctx \<Rightarrow> nat list cell" where
  "pool_mids p c = (case p of VPPIn \<Rightarrow> mfxResponseVPPIn c | VPPOutEnc \<Rightarrow> mfxResponseVPPOutEnc c)"

definition pool_num :: "pool \<Rightarrow> h264_qsv_ctx \<Rightarrow> u16 cell" where
  "pool_num p c = (case p of VPPIn \<Rightarrow> nSurfNumVPPIn c | VPPOutEnc \<Rightarrow> nSurfNumVPPOutEnc c)"

definition store_surface :: "pool \<Rightarrow> nat \<Rightarrow> qsv_surface cell \<Rightarrow> h264_qsv_ctx \<Rightarrow> h264_qsv_ctx" where
  "store_surface p i v c = (case pool_surfaces p c of Val xs \<Rightarrow> set_pool p (Val (xs[i := v])) c | _ \<Rightarrow> c)"

definition alloc_surface :: "sdk \<Rightarrow> pool \<Rightarrow> frame_info \<Rightarrow> nat \<Rightarrow> unit act" where
  "alloc_surface lib p info i =
     abind (mfx lib Malloc) (\<lambda>r.
     if status r < 0 then abind (set_ctx (store_surface p i Null)) (\<lambda>_. return_status MFX_ERR_MEMORY_ALLOC)
     else abind get_ctx (\<lambda>c. abind (lift (rbind (get_cell (pool_mids p c)) (\<lambda>ms. index_list ms (int i)))) (\<lambda>m.
       abind (set_ctx (store_surface p i (Val \<lparr>surf_info = info, mem_id = m\<rparr>))) (\<lambda>_.
       if p = VPPIn then abind (mfx lib (ClearRGBSurfaceVMem m)) (\<lambda>_. ret ()) else ret ()))))"

fun alloc_surfaces :: "sdk \<Rightarrow> pool \<Rightarrow> frame_info \<Rightarrow> nat \<Rightarrow> nat \<Rightarrow> unit act" where
  "alloc_surfaces lib p info i 0 = ret ()"
| "alloc_surfaces lib p info i (Suc n) = abind (alloc_surface lib p info i) (\<lambda>_. alloc_surfaces lib p info (Suc i) n)"

definition alloc_pool :: "sdk \<Rightarrow> pool \<Rightarrow> frame_info \<Rightarrow> unit act" where
  "alloc_pool lib p info =
     abind get_ctx (\<lambda>c. abind (lift (get_cell (pool_num p c))) (\<lambda>n.
     abind (malloc_into lib (\<lambda>v. set_pool p (case v of Null \<Rightarrow> Null | _ \<Rightarrow> Val (replicate (unat n) Indet)))) (\<lambda>_.
     alloc_surfaces lib p info 0 (unat n))))"

text \<open>Querying the SDK and allocating the frames; the result is the parameters the SDK settled on.\<close>

definition alloc_frames :: "sdk \<Rightarrow> int \<Rightarrow> int \<Rightarrow> enc_params act" where
  "alloc_frames lib width height =
     abind (mfx_checked lib (ENCODE_Query (qsv_enc_params width height))) (\<lambda>r.
     let par = reply_params r; vpp = qsv_vpp_params width height in
     abind (mfx_checked lib (ENCODE_QueryIOSurf par)) (\<lambda>r. let enc_req = fst (requests r) in
     abind (mfx_checked lib (VPP_QueryIOSurf vpp)) (\<lambda>r. let (req0, req1) = requests r in
     let n = num_frame_suggested enc_req + num_frame_suggested req1;
         enc_req = enc_req\<lparr>req_type := MFX_MEMTYPE_FROM_VPPOUT # req_type enc_req, num_frame_suggested := n\<rparr> in
     abind (set_ctx (\<lambda>c. c\<lparr>nSurfNumVPPIn := Val (num_frame_suggested req0), nSurfNumVPPOutEnc := Val n\<rparr>)) (\<lambda>_.
     abind (mfx_checked lib (Alloc req0)) (\<lambda>r.
     abind (set_ctx (\<lambda>c. c\<lparr>mfxResponseVPPIn := Val (mem_ids r)\<rparr>)) (\<lambda>_.
     abind (mfx_checked lib (Alloc enc_req)) (\<lambda>r.
     abind (set_ctx (\<lambda>c. c\<lparr>mfxResponseVPPOutEnc := Val (mem_ids r)\<rparr>)) (\<lambda>_.
     abind (mfx_checked lib (Alloc enc_req)) (\<lambda>r. ret par)))))))))"

definition start_codecs :: "sdk \<Rightarrow> enc_params \<Rightarrow> vpp_params \<Rightarrow> unit act" where
  "start_codecs lib par vpp =
     abind (mfx lib Malloc) (\<lambda>r. if status r < 0 then return_status MFX_ERR_MEMORY_ALLOC else
     abind (mfx_checked lib (ENCODE_Init par)) (\<lambda>_.
     abind (mfx_checked lib (VPP_Init (vpp\<lparr>vpp_do_not_use := vpp_do_not_use_algs\<rparr>))) (\<lambda>_.
     abind (mfx_checked lib ENCODE_GetVideoParam) (\<lambda>r.
     malloc_into lib (\<lambda>v c. c\<lparr>mfxBS := (case v of Null \<Rightarrow> Null | _ \<Rightarrow> Val [])\<rparr>)))))"

definition h264_qsv_encoder_init :: "sdk \<Rightarrow> int \<Rightarrow> int \<Rightarrow> unit act" where
  "h264_qsv_encoder_init lib width height =
     abind (mfx lib Malloc) (\<lambda>r. if status r < 0 then return_status MFX_ERR_MEMORY_ALLOC else
     abind (modify (\<lambda>e. e\<lparr>enc_ctx := Some fresh_ctx\<rparr>)) (\<lambda>_.
     abind (mfx_checked lib Initialize) (\<lambda>_.
     abind (set_ctx (\<lambda>c. c\<lparr>session := Val ()\<rparr>)) (\<lambda>_.
     abind (alloc_frames lib width height) (\<lambda>par.
     let vpp = qsv_vpp_params width height in
     abind (alloc_pool lib VPPIn (vpp_in vpp)) (\<lambda>_.
     abind (alloc_pool lib VPPOutEnc (vpp_out vpp)) (\<lambda>_.
     start_codecs lib par vpp)))))))"


section \<open>Closing\<close>

text \<open>The headers of a pool are freed one by one, then the array.\<close>

fun free_headers :: "qsv_surface cell list cell \<Rightarrow> nat \<Rightarrow> nat \<Rightarrow> unit res" where
  "free_headers xs i 0 = free_cell xs"
| "free_headers xs i (Suc n) = rbind (get_cell xs) (\<lambda>ys. rbind (index_list ys (int i)) (\<lambda>y. rbind (free_cell y) (\<lambda>_. free_headers xs (Suc i) n)))"

definition free_pool :: "pool \<Rightarrow> h264_qsv_ctx \<Rightarrow> unit res" where
  "free_pool p c = rbind (get_cell (pool_num p c)) (\<lambda>n. free_headers (pool_surfaces p c) 0 (unat n))"

definition h264_qsv_encoder_fini :: "sdk \<Rightarrow> h264_qsv_ctx \<Rightarrow> unit act" where
  "h264_qsv_encoder_fini lib c =
     abind (lift (get_cell (session c))) (\<lambda>_.
     abind (mfx lib ENCODE_Close) (\<lambda>_. abind (mfx lib VPP_Close) (\<lambda>_.
     abind (lift (free_pool VPPIn c)) (\<lambda>_. abind (lift (free_pool VPPOutEnc c)) (\<lambda>_.
     abind (lift (free_cell (mfxBS c))) (\<lambda>_.
     abind (lift (get_cell (mfxResponseVPPIn c))) (\<lambda>ms. abind (mfx lib (FreeFrames ms)) (\<lambda>_.
     abind (lift (get_cell (mfxResponseVPPOutEnc c))) (\<lambda>ms. abind (mfx lib (FreeFrames ms)) (\<lambda>_.
     abind (mfx lib Release) (\<lambda>_. ret ())))))))))))"


section \<open>Encoding a frame\<close>

fun find_free :: "sdk \<Rightarrow> qsv_surface cell list \<Rightarrow> nat \<Rightarrow> nat \<Rightarrow> int act" where
  "find_free lib xs i 0 = ret MFX_ERR_NOT_FOUND"
| "find_free lib xs i (Suc n) =
     abind (lift (rbind (index_list xs (int i)) get_cell)) (\<lambda>s.
     abind (mfx lib (ReadLocked (mem_id s))) (\<lambda>r. if locked r = 0 then ret (int i) else find_free lib xs (Suc i) n))"

definition GetFreeSurfaceIndex :: "sdk \<Rightarrow> qsv_surface cell list cell \<Rightarrow> u16 \<Rightarrow> int act" where
  "GetFreeSurfaceIndex lib pool n = (case pool of
     Null \<Rightarrow> ret MFX_ERR_NOT_FOUND
   | Indet \<Rightarrow> lift (Inl Uninit)
   | Val xs \<Rightarrow> find_free lib xs 0 (unat n))"

text \<open>A free surface of a pool, or the return of an error.\<close>

definition free_surface :: "sdk \<Rightarrow> pool \<Rightarrow> qsv_surface act" where
  "free_surface lib p =
     abind get_ctx (\<lambda>c. abind (lift (get_cell (pool_num p c))) (\<lambda>n.
     abind (GetFreeSurfaceIndex lib (pool_surfaces p c) n) (\<lambda>i.
     if i = MFX_ERR_NOT_FOUND then return_status MFX_ERR_MEMORY_ALLOC
     else lift (rbind (get_cell (pool_surfaces p c)) (\<lambda>xs. rbind (index_list xs i) get_cell)))))"

definition info_size :: "frame_info \<Rightarrow> nat \<times> nat" where
  "info_size i = (if crop_h i > 0 \<and> crop_w i > 0 then (unat (crop_w i), unat (crop_h i)) else (unat (frame_w i), unat (frame_h i)))"

fun rgb_rows :: "nat \<Rightarrow> u8 list \<Rightarrow> nat \<Rightarrow> u8 list list res" where
  "rgb_rows w rgb 0 = Inr []"
| "rgb_rows w rgb (Suc h) =
     (if length rgb < 4 * w then Inl OutOfBounds
      else rbind (rgb_rows w (drop (4 * w) rgb) h) (\<lambda>rs. Inr (take (4 * w) rgb # rs)))"

definition LoadRawRGBFrameFromRGB :: "sdk \<Rightarrow> qsv_surface \<Rightarrow> u8 list \<Rightarrow> unit act" where
  "LoadRawRGBFrameFromRGB lib s rgb = (let (w, h) = info_size (surf_info s) in
     abind (lift (rgb_rows w rgb h)) (\<lambda>rows. abind (mfx lib (LoadRows (mem_id s) rows)) (\<lambda>_. ret ())))"

fun vpp_loop :: "sdk \<Rightarrow> nat \<Rightarrow> nat \<Rightarrow> nat \<Rightarrow> int act" where
  "vpp_loop lib src dst 0 = lift (Inl NoFuel)"
| "vpp_loop lib src dst (Suc fuel) = abind (mfx lib (RunFrameVPPAsync src dst)) (\<lambda>r.
     if status r = MFX_WRN_DEVICE_BUSY then vpp_loop lib src dst fuel else ret (status r))"

text \<open>The encoder writes to the bit stream buffer, whose contents it is given.\<close>

fun encode_loop :: "sdk \<Rightarrow> nat \<Rightarrow> nat \<Rightarrow> int act" where
  "encode_loop lib src 0 = lift (Inl NoFuel)"
| "encode_loop lib src (Suc fuel) =
     abind get_ctx (\<lambda>c. abind (lift (get_cell (mfxBS c))) (\<lambda>bs.
     abind (mfx lib (EncodeFrameAsync src bs)) (\<lambda>r.
     abind (set_ctx (\<lambda>c. c\<lparr>mfxBS := Val (bits r)\<rparr>)) (\<lambda>_.
     if MFX_ERR_NONE < status r \<and> \<not> syncp r then encode_loop lib src fuel
     else if MFX_ERR_NONE < status r \<and> syncp r then ret MFX_ERR_NONE
     else ret (status r)))))"

text \<open>Opening a context when there is none, or none for this size.\<close>

definition reopen :: "sdk \<Rightarrow> int \<Rightarrow> int \<Rightarrow> unit act" where
  "reopen lib width height e =
     (if enc_ctx e = None \<or> width \<noteq> last_width e \<or> height \<noteq> last_height e then
        abind (case enc_ctx e of None \<Rightarrow> ret ()
               | Some c \<Rightarrow> abind (h264_qsv_encoder_fini lib c) (\<lambda>_. modify (\<lambda>e. e\<lparr>enc_ctx := None\<rparr>))) (\<lambda>_.
        abind (h264_qsv_encoder_init lib width height) (\<lambda>_. modify (\<lambda>e. e\<lparr>last_width := width, last_height := height\<rparr>))) e
      else ret () e)"

text \<open>The value is what the caller's \<open>pFrame\<close> and \<open>pFrameSize\<close> hold, if they were set.\<close>

definition encode_surface :: "sdk \<Rightarrow> nat \<Rightarrow> qsv_surface \<Rightarrow> u8 list cell act" where
  "encode_surface lib fuel d =
     abind (encode_loop lib (mem_id d) fuel) (\<lambda>sts.
     if sts = MFX_ERR_NONE
     then abind (mfx_checked lib SyncOperation) (\<lambda>_.
          abind get_ctx (\<lambda>c. abind (lift (get_cell (mfxBS c))) (\<lambda>bs.
          abind (set_ctx (\<lambda>c. c\<lparr>mfxBS := Val []\<rparr>)) (\<lambda>_. ret (Val bs)))))
     else ret Indet)"

definition convert_surface :: "sdk \<Rightarrow> nat \<Rightarrow> qsv_surface \<Rightarrow> u8 list cell act" where
  "convert_surface lib fuel s =
     abind (free_surface lib VPPOutEnc) (\<lambda>d.
     abind (vpp_loop lib (mem_id s) (mem_id d) fuel) (\<lambda>sts.
     if sts < 0 then return_status sts else encode_surface lib fuel d))"

definition h264_qsv_encoder_encode :: "sdk \<Rightarrow> nat \<Rightarrow> int \<Rightarrow> int \<Rightarrow> u8 list \<Rightarrow> u8 list cell act" where
  "h264_qsv_encoder_encode lib fuel width height rgb =
     abind (reopen lib width height) (\<lambda>_.
     abind (free_surface lib VPPIn) (\<lambda>s.
     abind (mfx_checked lib (Lock (mem_id s))) (\<lambda>_.
     abind (LoadRawRGBFrameFromRGB lib s rgb) (\<lambda>_.
     abind (mfx_checked lib (Unlock (mem_id s))) (\<lambda>_.
     convert_surface lib fuel s)))))"


section \<open>Reasoning about actions\<close>

text \<open>
  Weakest preconditions. \<open>wp strict m Q e\<close>: from \<open>e\<close> the action goes on with \<open>Q\<close>, or, unless \<open>strict\<close>, returns a negative status
  or uses up its iterations; in particular no value that was never set is used, no null pointer followed and no array
  left.
\<close>

definition wp :: "bool \<Rightarrow> 'a act \<Rightarrow> ('a \<Rightarrow> encoder \<Rightarrow> bool) \<Rightarrow> encoder \<Rightarrow> bool" where
  "wp strict m Q e \<longleftrightarrow> (case m e of
     Inl x \<Rightarrow> \<not> strict \<and> x = NoFuel
   | Inr (Inl s, e') \<Rightarrow> \<not> strict \<and> s < 0
   | Inr (Inr a, e') \<Rightarrow> Q a e')"

lemma wp_mfx [simp]: "wp strict (mfx lib c) Q e \<longleftrightarrow> Q (lib (calls e) c) (e\<lparr>calls := calls e @ [c]\<rparr>)"
  by (simp add: wp_def mfx_def)

lemma wp_modify [simp]: "wp strict (modify f) Q e \<longleftrightarrow> Q () (f e)"
  by (simp add: wp_def modify_def)

lemma wp_simps [simp]:
  "wp strict (ret a) Q e \<longleftrightarrow> Q a e"
  "wp strict (return_status s) Q e \<longleftrightarrow> \<not> strict \<and> s < 0"
  "wp strict (lift (Inr a)) Q e \<longleftrightarrow> Q a e"
  "wp strict (lift (Inl x)) Q e \<longleftrightarrow> \<not> strict \<and> x = NoFuel"
  by (auto simp: wp_def ret_def return_status_def lift_def)

lemma wp_abind [simp]: "wp strict (abind m f) Q e \<longleftrightarrow> wp strict m (\<lambda>a. wp strict (f a) Q) e"
proof (cases "m e")
  case (Inr r)
  then show ?thesis by (cases r; cases "fst r") (auto simp: wp_def abind_def)
qed (simp add: wp_def abind_def)

lemma wp_if [simp]: "wp strict (if b then m else n) Q e \<longleftrightarrow> (if b then wp strict m Q e else wp strict n Q e)"
  by simp

lemma wp_ctx:
  "enc_ctx e = Some c \<Longrightarrow> wp strict get_ctx Q e \<longleftrightarrow> Q c e"
  "enc_ctx e = Some c \<Longrightarrow> wp strict (set_ctx f) Q' e \<longleftrightarrow> Q' () (e\<lparr>enc_ctx := Some (f c)\<rparr>)"
  by (simp_all add: wp_def get_ctx_def set_ctx_def)

lemma wp_checked [simp]:
  "wp strict (mfx_checked lib c) Q e \<longleftrightarrow>
    (if status (lib (calls e) c) < 0 then \<not> strict else Q (lib (calls e) c) (e\<lparr>calls := calls e @ [c]\<rparr>))"
  by (simp add: mfx_checked_def)

lemma wp_mono: "wp strict m Q e \<Longrightarrow> (\<And>a e'. Q a e' \<Longrightarrow> Q' a e') \<Longrightarrow> wp strict m Q' e"
  by (auto simp: wp_def split: sum.splits prod.splits)

lemma wp_strictD: "wp True m Q e \<Longrightarrow> \<exists>a e'. m e = Inr (Inr a, e') \<and> Q a e'"
  by (simp add: wp_def split: sum.splits prod.splits) (metis sum.exhaust)

lemma wp_case:
  "wp False m Q e \<Longrightarrow> (\<And>a e'. Q a e' \<Longrightarrow> Q' a e') \<Longrightarrow>
    case m e of Inl x \<Rightarrow> x = NoFuel | Inr (Inl s, e') \<Rightarrow> s < 0 | Inr (Inr a, e') \<Rightarrow> Q' a e'"
  using wp_mono [of False m Q e Q'] unfolding wp_def not_False_eq_True simp_thms by blast

text \<open>
  What is assumed of the SDK. The allocator returns as many frames as it was asked for. In addition, for the \<open>strict\<close> case: calls succeed,
  more surfaces are suggested than are found locked in a row, and a call is not put off more than \<open>busy\<close> times; when \<open>failing\<close>, all calls
  but that of the encoder itself, which always fails.
\<close>

definition trailing :: "(mfx_call \<Rightarrow> bool) \<Rightarrow> mfx_call list \<Rightarrow> nat" where
  "trailing P tr = length (takeWhile P (rev tr))"

definition is_read :: "mfx_call \<Rightarrow> bool" where
  "is_read c = (case c of ReadLocked m \<Rightarrow> True | _ \<Rightarrow> False)"

definition is_vpp :: "mfx_call \<Rightarrow> bool" where
  "is_vpp c = (case c of RunFrameVPPAsync s d \<Rightarrow> True | _ \<Rightarrow> False)"

definition is_encode :: "mfx_call \<Rightarrow> bool" where
  "is_encode c = (case c of EncodeFrameAsync d bs \<Rightarrow> True | _ \<Rightarrow> False)"

definition sdk_allocates :: "sdk \<Rightarrow> bool" where
  "sdk_allocates lib \<longleftrightarrow>
     (\<forall>tr req. 0 \<le> status (lib tr (Alloc req)) \<longrightarrow> unat (num_frame_suggested req) \<le> length (mem_ids (lib tr (Alloc req))))"

definition sdk_succeeds :: "bool \<Rightarrow> nat \<Rightarrow> nat \<Rightarrow> sdk \<Rightarrow> bool" where
  "sdk_succeeds failing held busy lib \<longleftrightarrow>
     (\<forall>tr c. \<not> is_encode c \<longrightarrow> 0 \<le> status (lib tr c)) \<and>
     (\<forall>tr m. held \<le> trailing is_read tr \<longrightarrow> locked (lib tr (ReadLocked m)) = 0) \<and>
     (\<forall>tr par. held < unat (num_frame_suggested (fst (requests (lib tr (VPP_QueryIOSurf par)))))) \<and>
     (\<forall>tr tr' par par'. held < unat (num_frame_suggested (fst (requests (lib tr (ENCODE_QueryIOSurf par)))) +
        num_frame_suggested (snd (requests (lib tr' (VPP_QueryIOSurf par')))))) \<and>
     (\<forall>tr s d. busy \<le> trailing is_vpp tr \<longrightarrow> status (lib tr (RunFrameVPPAsync s d)) \<noteq> MFX_WRN_DEVICE_BUSY) \<and>
     (\<forall>tr d bs. if failing then status (lib tr (EncodeFrameAsync d bs)) < 0
        else 0 \<le> status (lib tr (EncodeFrameAsync d bs)) \<and> (busy \<le> trailing is_encode tr \<longrightarrow> syncp (lib tr (EncodeFrameAsync d bs))))"

lemma trailing_snoc [simp]: "trailing P (tr @ [c]) = (if P c then Suc (trailing P tr) else 0)"
  by (simp add: trailing_def)

lemma is_call_simps [simp]:
  "is_read (ReadLocked m)" "is_vpp (RunFrameVPPAsync s d)" "is_encode (EncodeFrameAsync d bs)"
  "\<not> is_encode Malloc" "\<not> is_encode Initialize" "\<not> is_encode (ENCODE_Query par)" "\<not> is_encode (ENCODE_QueryIOSurf par)"
  "\<not> is_encode (VPP_QueryIOSurf vpp)" "\<not> is_encode (Alloc req)" "\<not> is_encode (ENCODE_Init par)" "\<not> is_encode (VPP_Init vpp)"
  "\<not> is_encode ENCODE_GetVideoParam" "\<not> is_encode (Lock m)" "\<not> is_encode (Unlock m)" "\<not> is_encode (RunFrameVPPAsync s d)"
  "\<not> is_encode SyncOperation"
  by (simp_all add: is_read_def is_vpp_def is_encode_def)

lemma get_cell_simps [simp]: "get_cell Indet = Inl Uninit" "get_cell Null = Inl NullDeref" "get_cell (Val a) = Inr a"
  by (simp_all add: get_cell_def)

lemma free_cell_simps [simp]: "free_cell Indet = Inl Uninit" "free_cell Null = Inr ()" "free_cell (Val a) = Inr ()"
  by (simp_all add: free_cell_def)


section \<open>Contexts for a frame size\<close>

text \<open>\<open>ctx_for lo w h c\<close>: all of the context is set, the surfaces of both pools are for frames of the given size, and there are more than \<open>lo\<close> in each.\<close>

definition pool_ok :: "nat \<Rightarrow> pool \<Rightarrow> frame_info \<Rightarrow> h264_qsv_ctx \<Rightarrow> bool" where
  "pool_ok lo p info c \<longleftrightarrow> (\<exists>n ms. pool_num p c = Val n \<and> lo \<le> unat n \<and> length ms = unat n \<and>
     pool_surfaces p c = Val (map (\<lambda>m. Val \<lparr>surf_info = info, mem_id = m\<rparr>) ms))"

definition ctx_for :: "nat \<Rightarrow> int \<Rightarrow> int \<Rightarrow> h264_qsv_ctx \<Rightarrow> bool" where
  "ctx_for lo w h c \<longleftrightarrow> session c = Val () \<and> pool_ok lo VPPIn (vpp_in (qsv_vpp_params w h)) c \<and>
     pool_ok lo VPPOutEnc (vpp_out (qsv_vpp_params w h)) c \<and>
     (\<exists>ms. mfxResponseVPPIn c = Val ms) \<and> (\<exists>ms. mfxResponseVPPOutEnc c = Val ms) \<and> mfxBS c = Val []"

lemma pool_simps [simp]:
  "pool_surfaces p (set_pool p v c) = v" "p \<noteq> q \<Longrightarrow> pool_surfaces p (set_pool q v c) = pool_surfaces p c"
  "pool_num p (set_pool q v c) = pool_num p c" "pool_mids p (set_pool q v c) = pool_mids p c"
  "set_pool p v (set_pool p u c) = set_pool p v c"
  "mfxBS (set_pool q v c) = mfxBS c" "session (set_pool q v c) = session c"
  "mfxResponseVPPIn (set_pool q v c) = mfxResponseVPPIn c" "mfxResponseVPPOutEnc (set_pool q v c) = mfxResponseVPPOutEnc c"
  by (cases p; cases q; simp add: pool_surfaces_def set_pool_def pool_num_def pool_mids_def)+

text \<open>The loop over a pool: the first \<open>i\<close> headers are set, the others not yet.\<close>

definition headers :: "frame_info \<Rightarrow> nat list \<Rightarrow> nat \<Rightarrow> nat \<Rightarrow> qsv_surface cell list" where
  "headers info ms i n = map (\<lambda>m. Val \<lparr>surf_info = info, mem_id = m\<rparr>) (take i ms) @ replicate n Indet"

lemma headers_step:
  "i < length ms \<Longrightarrow> (headers info ms i (Suc n))[i := Val \<lparr>surf_info = info, mem_id = ms ! i\<rparr>] = headers info ms (Suc i) n"
  by (simp add: headers_def list_update_append take_Suc_conv_app_nth min_absorb2)

text \<open>\<open>evolves e c e'\<close>: the context has become \<open>c\<close>, more calls were made, and nothing else has changed.\<close>

definition evolves :: "encoder \<Rightarrow> h264_qsv_ctx \<Rightarrow> encoder \<Rightarrow> bool" where
  "evolves e c e' \<longleftrightarrow> enc_ctx e' = Some c \<and> last_width e' = last_width e \<and> last_height e' = last_height e \<and>
     (\<exists>cs. calls e' = calls e @ cs)"

lemma evolvesD:
  "evolves e c e' \<Longrightarrow> enc_ctx e' = Some c" "evolves e c e' \<Longrightarrow> last_width e' = last_width e"
  "evolves e c e' \<Longrightarrow> last_height e' = last_height e"
  by (simp_all add: evolves_def)

lemma evolves_trans: "evolves e c e' \<Longrightarrow> evolves e' c' e'' \<Longrightarrow> evolves e c' e''"
  by (auto simp: evolves_def)

lemma evolves_refl: "enc_ctx e = Some c \<Longrightarrow> evolves e c e"
  by (simp add: evolves_def)

text \<open>Sequencing, without spelling out the calls made so far: a checked call, and a change of the context.\<close>

lemma wp_call:
  assumes "evolves e0 c e" "strict \<Longrightarrow> \<forall>tr c. \<not> is_encode c \<longrightarrow> 0 \<le> status (lib tr c)"
    and "\<not> is_encode x" "\<And>r e' tr. evolves e0 c e' \<Longrightarrow> r = lib tr x \<Longrightarrow> 0 \<le> status r \<Longrightarrow> wp strict (f r) Q e'"
  shows "wp strict (abind (mfx_checked lib x) f) Q e"
  using assms by (auto simp: evolves_def linorder_not_le [symmetric])

lemma wp_set:
  assumes "evolves e0 c e" "\<And>e'. evolves e0 (g c) e' \<Longrightarrow> wp strict (f ()) Q e'"
  shows "wp strict (abind (set_ctx g) f) Q e"
  using assms by (simp add: wp_ctx evolves_def)

lemma wp_evolve:
  assumes "evolves e0 c e" "wp strict m (\<lambda>_. evolves e c') e" "\<And>r e'. evolves e0 c' e' \<Longrightarrow> wp strict (f r) Q e'"
  shows "wp strict (abind m f) Q e"
  unfolding wp_abind using assms(2) by (rule wp_mono) (use assms(1,3) evolves_trans in blast)

lemma wp_alloc_surface:
  assumes "enc_ctx e = Some c" "pool_mids p c = Val ms" "i < length ms" "pool_surfaces p c = Val (headers info ms i (Suc n))"
    and "strict \<Longrightarrow> \<forall>tr c. \<not> is_encode c \<longrightarrow> 0 \<le> status (lib tr c)"
  shows "wp strict (alloc_surface lib p info i) (\<lambda>_. evolves e (set_pool p (Val (headers info ms (Suc i) n)) c)) e"
proof -
  have i: "index_list ms (int i) = Inr (ms ! i)" using assms(3) by simp
  show ?thesis using assms i
    by (cases p) (auto simp: alloc_surface_def wp_ctx store_surface_def headers_step evolves_def linorder_not_le [symmetric])
qed

lemma wp_alloc_surfaces:
  assumes "enc_ctx e = Some c" "pool_mids p c = Val ms" "i + n \<le> length ms" "pool_surfaces p c = Val (headers info ms i n)"
    and "strict \<Longrightarrow> \<forall>tr c. \<not> is_encode c \<longrightarrow> 0 \<le> status (lib tr c)"
  shows "wp strict (alloc_surfaces lib p info i n) (\<lambda>_. evolves e (set_pool p (Val (headers info ms (i + n) 0)) c)) e"
  using assms
proof (induction n arbitrary: i e c)
  case 0
  have "set_pool p (Val (headers info ms i 0)) c = c" using 0(4) by (cases p) (auto simp: set_pool_def pool_surfaces_def)
  then show ?case using 0(1) by (simp add: evolves_refl)
next
  case (Suc n)
  let ?c = "set_pool p (Val (headers info ms (Suc i) n)) c"
  have "wp strict (alloc_surface lib p info i) (\<lambda>_. evolves e ?c) e"
    using Suc.prems by (intro wp_alloc_surface) auto
  then show ?case unfolding alloc_surfaces.simps wp_abind
  proof (rule wp_mono)
    fix a e' assume e': "evolves e ?c e'"
    have "wp strict (alloc_surfaces lib p info (Suc i) n) (\<lambda>_. evolves e' (set_pool p (Val (headers info ms (Suc i + n) 0)) ?c)) e'"
      using Suc.prems by (intro Suc.IH) (auto simp: evolvesD [OF e'])
    then show "wp strict (alloc_surfaces lib p info (Suc i) n) (\<lambda>_. evolves e (set_pool p (Val (headers info ms (i + Suc n) 0)) c)) e'"
      by (rule wp_mono) (auto intro: evolves_trans [OF e'])
  qed
qed

lemma wp_alloc_pool:
  assumes "enc_ctx e = Some c" "pool_num p c = Val n" "pool_mids p c = Val ms" "unat n \<le> length ms"
    and "strict \<Longrightarrow> \<forall>tr c. \<not> is_encode c \<longrightarrow> 0 \<le> status (lib tr c)"
  shows "wp strict (alloc_pool lib p info) (\<lambda>_. evolves e (set_pool p (Val (headers info ms (unat n) 0)) c)) e"
proof -
  let ?c = "set_pool p (Val (headers info ms 0 (unat n))) c"
  have 1: "wp strict (malloc_into lib (\<lambda>v. set_pool p (case v of Null \<Rightarrow> Null | _ \<Rightarrow> Val (replicate (unat n) Indet)))) (\<lambda>_. evolves e ?c) e"
    using assms(1,5) by (auto simp: malloc_into_def wp_ctx evolves_def headers_def linorder_not_le [symmetric])
  have 2: "wp strict (alloc_surfaces lib p info 0 (unat n)) (\<lambda>_. evolves e (set_pool p (Val (headers info ms (unat n) 0)) c)) e'"
    if e': "evolves e ?c e'" for e'
  proof -
    have "wp strict (alloc_surfaces lib p info 0 (unat n)) (\<lambda>_. evolves e' (set_pool p (Val (headers info ms (0 + unat n) 0)) ?c)) e'"
      using assms(3-5) by (intro wp_alloc_surfaces) (auto simp: evolvesD [OF e'])
    then show ?thesis by (rule wp_mono) (auto intro: evolves_trans [OF e'])
  qed
  show ?thesis using assms(1,2) wp_mono [OF 1 2] by (simp add: alloc_pool_def wp_ctx)
qed

definition framed :: "h264_qsv_ctx \<Rightarrow> u16 \<Rightarrow> u16 \<Rightarrow> nat list \<Rightarrow> nat list \<Rightarrow> h264_qsv_ctx" where
  "framed c n1 n2 ms1 ms2 = c\<lparr>nSurfNumVPPIn := Val n1, nSurfNumVPPOutEnc := Val n2, mfxResponseVPPIn := Val ms1, mfxResponseVPPOutEnc := Val ms2\<rparr>"

lemma framed_simps [simp]:
  "pool_num VPPIn (framed c n1 n2 ms1 ms2) = Val n1" "pool_num VPPOutEnc (framed c n1 n2 ms1 ms2) = Val n2"
  "pool_mids VPPIn (framed c n1 n2 ms1 ms2) = Val ms1" "pool_mids VPPOutEnc (framed c n1 n2 ms1 ms2) = Val ms2"
  "session (framed c n1 n2 ms1 ms2) = session c" "mfxResponseVPPIn (framed c n1 n2 ms1 ms2) = Val ms1"
  "mfxResponseVPPOutEnc (framed c n1 n2 ms1 ms2) = Val ms2"
  by (simp_all add: framed_def pool_num_def pool_mids_def)

definition enough :: "bool \<Rightarrow> nat \<Rightarrow> u16 \<Rightarrow> nat list \<Rightarrow> bool" where
  "enough strict held n ms \<longleftrightarrow> unat n \<le> length ms \<and> (strict \<longrightarrow> held < unat n)"

lemma sdk_status: "sdk_succeeds failing held busy lib \<Longrightarrow> \<forall>tr c. \<not> is_encode c \<longrightarrow> 0 \<le> status (lib tr c)"
  by (simp add: sdk_succeeds_def)

lemma wp_alloc_frames:
  assumes c: "enc_ctx e = Some c" and lib: "sdk_allocates lib" "strict \<Longrightarrow> sdk_succeeds failing held busy lib"
  shows "wp strict (alloc_frames lib w h)
    (\<lambda>_ e'. \<exists>n1 n2 ms1 ms2. evolves e (framed c n1 n2 ms1 ms2) e' \<and> enough strict held n1 ms1 \<and> enough strict held n2 ms2) e"
proof -
  have st: "strict \<Longrightarrow> \<forall>tr c. \<not> is_encode c \<longrightarrow> 0 \<le> status (lib tr c)" using lib(2) sdk_status by blast
  have al: "0 \<le> status (lib tr (Alloc r)) \<Longrightarrow> num_frame_suggested r = n \<Longrightarrow> (strict \<Longrightarrow> held < unat n) \<Longrightarrow>
      enough strict held n (mem_ids (lib tr (Alloc r)))" for tr r n
    using lib(1) by (auto simp: sdk_allocates_def enough_def)
  have h1: "strict \<Longrightarrow> held < unat (num_frame_suggested (fst (requests (lib tr (VPP_QueryIOSurf p)))))" for tr p
    using lib(2) by (simp add: sdk_succeeds_def)
  have h2: "strict \<Longrightarrow> held < unat (num_frame_suggested (fst (requests (lib tr (ENCODE_QueryIOSurf p)))) +
      num_frame_suggested (snd (requests (lib tr' (VPP_QueryIOSurf p')))))" for tr tr' p p'
    using lib(2) unfolding sdk_succeeds_def by blast
  show ?thesis
    unfolding alloc_frames_def Let_def split_beta
    apply (rule wp_call [OF evolves_refl [OF c] st], assumption, simp)
    apply (rule wp_call [OF _ st], assumption, assumption, simp)
    apply (rule wp_call [OF _ st], assumption, assumption, simp)
    apply (rule wp_set, assumption)
    apply (rule wp_call [OF _ st], assumption, assumption, simp)
    apply (rule wp_set, assumption)
    apply (rule wp_call [OF _ st], assumption, assumption, simp)
    apply (rule wp_set, assumption)
    apply (rule wp_call [OF _ st], assumption, assumption, simp)
    subgoal for r1 e1 tr1 r2 e2 tr2 r3 e3 tr3 e4 r5 e5 tr5 e6 r7 e7 tr7 e8 r9 e9 tr9
      unfolding wp_simps
      by (rule exI [of _ "num_frame_suggested (fst (requests r3))"],
          rule exI [of _ "num_frame_suggested (fst (requests r2)) + num_frame_suggested (snd (requests r3))"],
          rule exI [of _ "mem_ids r5"], rule exI [of _ "mem_ids r7"])
        (simp add: framed_def al h1 h2)
    done
qed

lemma wp_start_codecs:
  assumes c: "enc_ctx e = Some c" and "strict \<Longrightarrow> \<forall>tr c. \<not> is_encode c \<longrightarrow> 0 \<le> status (lib tr c)"
  shows "wp strict (start_codecs lib par vpp) (\<lambda>_. evolves e (c\<lparr>mfxBS := Val []\<rparr>)) e"
  using assms by (auto simp: start_codecs_def malloc_into_def wp_ctx evolves_def linorder_not_le [symmetric])

text \<open>How many surfaces a pool has at least: more than are held by the SDK, when that is known.\<close>

definition least :: "bool \<Rightarrow> nat \<Rightarrow> nat" where
  "least strict held = (if strict then Suc held else 0)"

lemma pool_ok_headers:
  "enough strict held n ms \<Longrightarrow> pool_num p c = Val n \<Longrightarrow> pool_surfaces p c = Val (headers info ms (unat n) 0) \<Longrightarrow>
    pool_ok (least strict held) p info c"
  by (auto simp: pool_ok_def headers_def enough_def least_def intro!: exI [of _ "take (unat n) ms"])

lemma wp_init:
  assumes lib: "sdk_allocates lib" "strict \<Longrightarrow> sdk_succeeds failing held busy lib"
  shows "wp strict (h264_qsv_encoder_init lib w h) (\<lambda>_ e'. (\<exists>c. evolves e c e' \<and> ctx_for (least strict held) w h c)) e"
proof -
  have st: "strict \<Longrightarrow> \<forall>tr c. \<not> is_encode c \<longrightarrow> 0 \<le> status (lib tr c)" using lib(2) sdk_status by blast
  let ?vpp = "qsv_vpp_params w h"
  let ?Q = "\<lambda>e'. \<exists>c. evolves e c e' \<and> ctx_for (least strict held) w h c"
  have rest: "wp strict (abind (alloc_pool lib VPPIn (vpp_in ?vpp)) (\<lambda>_. abind (alloc_pool lib VPPOutEnc (vpp_out ?vpp)) (\<lambda>_. start_codecs lib par ?vpp)))
      (\<lambda>_. ?Q) e1"
    if e1: "evolves e (framed c n1 n2 ms1 ms2) e1" and s: "session c = Val ()"
      and n: "enough strict held n1 ms1" "enough strict held n2 ms2" for par c n1 n2 ms1 ms2 e1
  proof -
    let ?c1 = "set_pool VPPIn (Val (headers (vpp_in ?vpp) ms1 (unat n1) 0)) (framed c n1 n2 ms1 ms2)"
    let ?c2 = "set_pool VPPOutEnc (Val (headers (vpp_out ?vpp) ms2 (unat n2) 0)) ?c1"
    have ok: "ctx_for (least strict held) w h (?c2\<lparr>mfxBS := Val []\<rparr>)"
      using s pool_ok_headers [OF n(1), of VPPIn "?c2\<lparr>mfxBS := Val []\<rparr>" "vpp_in ?vpp"]
        pool_ok_headers [OF n(2), of VPPOutEnc "?c2\<lparr>mfxBS := Val []\<rparr>" "vpp_out ?vpp"]
      by (simp add: ctx_for_def pool_num_def pool_surfaces_def set_pool_def framed_def)
    show ?thesis
      apply (rule wp_evolve [OF e1])
       apply (rule wp_alloc_pool [where n = n1 and ms = ms1 and c = "framed c n1 n2 ms1 ms2"])
           apply (use n st evolvesD(1) [OF e1] in \<open>simp_all add: enough_def\<close>)[5]
      apply (rule wp_evolve, assumption)
       apply (rule wp_alloc_pool [where n = n2 and ms = ms2 and c = ?c1])
           apply (use n st in \<open>simp_all add: enough_def evolvesD\<close>)[5]
      subgoal premises prems for r e2 r' e3
        by (rule wp_mono [OF wp_start_codecs [OF evolvesD(1) [OF prems(2)] st]])
          (use ok evolves_trans [OF prems(2)] in blast)+
      done
  qed
  have frames: "wp strict (abind (alloc_frames lib w h) (\<lambda>par. abind (alloc_pool lib VPPIn (vpp_in ?vpp))
      (\<lambda>_. abind (alloc_pool lib VPPOutEnc (vpp_out ?vpp)) (\<lambda>_. start_codecs lib par ?vpp)))) (\<lambda>_. ?Q) e1"
    if e1: "evolves e c e1" and s: "session c = Val ()" for c e1
    unfolding wp_abind [of strict "alloc_frames lib w h"]
    by (rule wp_mono [OF wp_alloc_frames [OF evolvesD(1) [OF e1] lib]]) (use rest [OF evolves_trans [OF e1] s] in blast)+
  have main: "wp strict (abind (mfx_checked lib Initialize) (\<lambda>_. abind (set_ctx (\<lambda>c. c\<lparr>session := Val ()\<rparr>)) (\<lambda>_.
      abind (alloc_frames lib w h) (\<lambda>par. abind (alloc_pool lib VPPIn (vpp_in ?vpp))
      (\<lambda>_. abind (alloc_pool lib VPPOutEnc (vpp_out ?vpp)) (\<lambda>_. start_codecs lib par ?vpp)))))) (\<lambda>_. ?Q) e1"
    if e1: "evolves e fresh_ctx e1" for e1
    apply (rule wp_call [OF e1 st], assumption, simp)
    apply (rule wp_set, assumption)
    apply (rule frames, assumption)
    apply simp
    done
  have e1: "evolves e fresh_ctx (e\<lparr>calls := calls e @ [Malloc], enc_ctx := Some fresh_ctx\<rparr>)" by (simp add: evolves_def)
  have m: "strict \<Longrightarrow> \<not> status (lib (calls e) Malloc) < 0" using st by (simp add: not_less)
  show ?thesis
    unfolding h264_qsv_encoder_init_def Let_def wp_abind [of strict "mfx lib Malloc"] wp_mfx wp_if
      wp_abind [of strict "modify f" for f] wp_modify
    by (rule if_split [THEN iffD2], intro conjI impI main [OF e1]) (use m in auto)
qed


section \<open>Closing and reopening\<close>

lemma free_headers_vals:
  "i + n \<le> length ms \<Longrightarrow> free_headers (Val (map (\<lambda>m. Val \<lparr>surf_info = info, mem_id = m\<rparr>) ms)) i n = Inr ()"
  by (induction n arbitrary: i) simp_all

lemma free_pool_ok: "pool_ok lo p info c \<Longrightarrow> free_pool p c = Inr ()"
  by (auto simp: pool_ok_def free_pool_def free_headers_vals)

lemma fini_ctx_for:
  assumes "ctx_for lo w h c" "mfxResponseVPPIn c = Val ms" "mfxResponseVPPOutEnc c = Val ms'"
  shows "h264_qsv_encoder_fini lib c e =
    Inr (Inr (), e\<lparr>calls := calls e @ [ENCODE_Close, VPP_Close, FreeFrames ms, FreeFrames ms', Release]\<rparr>)"
  using assms free_pool_ok
  by (auto simp: ctx_for_def h264_qsv_encoder_fini_def abind_def lift_def mfx_def ret_def)

text \<open>The invariant of a process with one worker: the context, when there is one, is for the size in the static variables.\<close>

definition enc_ok :: "nat \<Rightarrow> encoder \<Rightarrow> bool" where
  "enc_ok lo e \<longleftrightarrow> (\<forall>c. enc_ctx e = Some c \<longrightarrow> ctx_for lo (last_width e) (last_height e) c)"

definition open_for :: "nat \<Rightarrow> int \<Rightarrow> int \<Rightarrow> mfx_call list \<Rightarrow> encoder \<Rightarrow> bool" where
  "open_for lo w h tr e \<longleftrightarrow> last_width e = w \<and> last_height e = h \<and> (\<exists>cs. calls e = tr @ cs) \<and>
     (\<exists>c. enc_ctx e = Some c \<and> ctx_for lo w h c)"

lemma wp_reopen:
  assumes lib: "sdk_allocates lib" "strict \<Longrightarrow> sdk_succeeds failing held busy lib" and e: "enc_ok (least strict held) e"
  shows "wp strict (reopen lib w h) (\<lambda>_. open_for (least strict held) w h (calls e)) e"
proof (cases "enc_ctx e = None \<or> w \<noteq> last_width e \<or> h \<noteq> last_height e")
  case True
  have init: "wp strict (abind (h264_qsv_encoder_init lib w h) (\<lambda>_. modify (\<lambda>e. e\<lparr>last_width := w, last_height := h\<rparr>)))
      (\<lambda>_. open_for (least strict held) w h (calls e)) e1" if e1: "calls e1 = calls e @ cs" for e1 cs
    unfolding wp_abind
    by (rule wp_mono [OF wp_init [OF lib]]) (auto simp: open_for_def evolves_def e1)
  show ?thesis
  proof (cases "enc_ctx e")
    case None
    then show ?thesis using init [of e "[]"] by (simp add: reopen_def wp_def [of _ "reopen lib w h"] abind_def [of "ret ()"] ret_def wp_def)
  next
    case (Some c)
    then obtain ms ms' where c: "ctx_for (least strict held) (last_width e) (last_height e) c" "mfxResponseVPPIn c = Val ms" "mfxResponseVPPOutEnc c = Val ms'"
      using e by (auto simp: enc_ok_def ctx_for_def)
    let ?e = "e\<lparr>calls := calls e @ [ENCODE_Close, VPP_Close, FreeFrames ms, FreeFrames ms', Release], enc_ctx := None\<rparr>"
    have "reopen lib w h e = abind (h264_qsv_encoder_init lib w h) (\<lambda>_. modify (\<lambda>e. e\<lparr>last_width := w, last_height := h\<rparr>)) ?e"
      using True Some fini_ctx_for [OF c, of lib e]
      by (simp add: reopen_def abind_def [of "abind _ _"] abind_def [of "h264_qsv_encoder_fini _ _"] modify_def)
    then show ?thesis using init [of ?e] by (simp add: wp_def)
  qed
next
  case False
  then show ?thesis using e by (auto simp: reopen_def ret_def wp_def open_for_def enc_ok_def)
qed


section \<open>Surfaces and loops\<close>

abbreviation "surfs info ms \<equiv> map (\<lambda>m. Val \<lparr>surf_info = info, mem_id = m\<rparr>) ms"

lemma upd_calls_nil: "e = e\<lparr>calls := calls e @ []\<rparr>"
  by (cases e) simp

text \<open>\<open>i\<close> calls of a kind were made in a row, and the next is bound to succeed before the iterations are used up.\<close>

definition within :: "nat \<Rightarrow> (mfx_call \<Rightarrow> bool) \<Rightarrow> mfx_call list \<Rightarrow> nat \<Rightarrow> nat \<Rightarrow> bool" where
  "within bound P tr i n \<longleftrightarrow> i \<le> trailing P tr \<and> i \<le> bound \<and> bound < i + n"

lemma within_0 [simp]: "\<not> within bound P tr i 0"
  by (simp add: within_def)

lemma within_start: "bound < n \<Longrightarrow> within bound P tr 0 n"
  by (simp add: within_def)

lemma within_next: "within bound P tr i (Suc n) \<Longrightarrow> P c \<Longrightarrow> \<not> bound \<le> trailing P tr \<Longrightarrow> within bound P (tr @ [c]) (Suc i) n"
  by (simp add: within_def)

lemma wp_find_free:
  assumes "i + n \<le> length ms" "strict \<Longrightarrow> sdk_succeeds failing held busy lib \<and> within held is_read (calls e) i n"
  shows "wp strict (find_free lib (surfs info ms) i n)
    (\<lambda>r e'. (if r = MFX_ERR_NOT_FOUND then \<not> strict else \<exists>j < length ms. r = int j) \<and> (\<exists>rs. e' = e\<lparr>calls := calls e @ map ReadLocked rs\<rparr>)) e"
  using assms
proof (induction n arbitrary: i e)
  case 0
  then show ?case using upd_calls_nil by (auto intro: exI [of _ "[]"])
next
  case (Suc n)
  let ?c = "ReadLocked (ms ! i)" and ?e = "e\<lparr>calls := calls e @ [ReadLocked (ms ! i)]\<rparr>"
  have next_free: "wp strict (find_free lib (surfs info ms) (Suc i) n)
    (\<lambda>r e'. (if r = MFX_ERR_NOT_FOUND then \<not> strict else \<exists>j < length ms. r = int j) \<and> (\<exists>rs. e' = ?e\<lparr>calls := calls ?e @ map ReadLocked rs\<rparr>)) ?e"
    if "locked (lib (calls e) ?c) \<noteq> 0"
  proof (rule Suc.IH)
    assume s: strict
    then have "\<not> held \<le> trailing is_read (calls e)" using Suc.prems(2) that by (auto simp: sdk_succeeds_def)
    then show "sdk_succeeds failing held busy lib \<and> within held is_read (calls ?e) (Suc i) n"
      using Suc.prems(2) [OF s] by (auto intro: within_next)
  qed (use Suc.prems(1) in simp)
  have "wp strict (find_free lib (surfs info ms) (Suc i) n)
    (\<lambda>r e'. (if r = MFX_ERR_NOT_FOUND then \<not> strict else \<exists>j < length ms. r = int j) \<and> (\<exists>rs. e' = e\<lparr>calls := calls e @ map ReadLocked rs\<rparr>)) ?e"
    if "locked (lib (calls e) ?c) \<noteq> 0"
    by (rule wp_mono [OF next_free [OF that]]) (auto intro: exI [of _ "ms ! i # rs" for rs])
  then show ?case using Suc.prems(1) by (auto intro: exI [of _ "[ms ! i]"])
qed

lemma wp_free_surface:
  assumes "enc_ctx e = Some c" "pool_ok (least strict held) p info c" "strict \<Longrightarrow> sdk_succeeds failing held busy lib"
  shows "wp strict (free_surface lib p) (\<lambda>s e'. surf_info s = info \<and> (\<exists>rs. e' = e\<lparr>calls := calls e @ map ReadLocked rs\<rparr>)) e"
proof -
  obtain n ms where n: "pool_num p c = Val n" "least strict held \<le> unat n" "length ms = unat n" "pool_surfaces p c = Val (surfs info ms)"
    using assms(2) by (auto simp: pool_ok_def)
  have "wp strict (find_free lib (surfs info ms) 0 (unat n))
    (\<lambda>r e'. (if r = MFX_ERR_NOT_FOUND then \<not> strict else \<exists>j < length ms. r = int j) \<and> (\<exists>rs. e' = e\<lparr>calls := calls e @ map ReadLocked rs\<rparr>)) e"
    using n(2,3) assms(3) by (intro wp_find_free) (auto intro!: within_start simp: least_def)
  then show ?thesis
    unfolding free_surface_def wp_abind wp_ctx [OF assms(1)] n(1,4) get_cell_simps wp_simps GetFreeSurfaceIndex_def cell.case
    by (rule wp_mono) (auto split: if_splits)
qed

lemma wp_vpp_loop:
  assumes "strict \<Longrightarrow> sdk_succeeds failing held busy lib \<and> within busy is_vpp (calls e) i fuel"
  shows "wp strict (vpp_loop lib s d fuel) (\<lambda>sts e'. (strict \<longrightarrow> 0 \<le> sts) \<and>
    (\<exists>n. e' = e\<lparr>calls := calls e @ replicate (Suc n) (RunFrameVPPAsync s d)\<rparr>)) e"
  using assms
proof (induction fuel arbitrary: i e)
  case (Suc fuel)
  let ?c = "RunFrameVPPAsync s d" and ?e = "e\<lparr>calls := calls e @ [RunFrameVPPAsync s d]\<rparr>"
  have again: "wp strict (vpp_loop lib s d fuel) (\<lambda>sts e'. (strict \<longrightarrow> 0 \<le> sts) \<and>
    (\<exists>n. e' = ?e\<lparr>calls := calls ?e @ replicate (Suc n) ?c\<rparr>)) ?e" if "status (lib (calls e) ?c) = MFX_WRN_DEVICE_BUSY"
  proof (rule Suc.IH [of ?e "Suc i"])
    assume s: strict
    then have "\<not> busy \<le> trailing is_vpp (calls e)" using Suc.prems that by (auto simp: sdk_succeeds_def)
    then show "sdk_succeeds failing held busy lib \<and> within busy is_vpp (calls ?e) (Suc i) fuel"
      using Suc.prems [OF s] by (auto intro: within_next)
  qed
  have "wp strict (vpp_loop lib s d fuel) (\<lambda>sts e'. (strict \<longrightarrow> 0 \<le> sts) \<and>
    (\<exists>n. e' = e\<lparr>calls := calls e @ replicate (Suc n) ?c\<rparr>)) ?e" if "status (lib (calls e) ?c) = MFX_WRN_DEVICE_BUSY"
    by (rule wp_mono [OF again [OF that]]) (auto intro: exI [of _ "Suc n" for n])
  moreover have "strict \<Longrightarrow> 0 \<le> status (lib (calls e) ?c)" using Suc.prems sdk_status [of failing held busy lib] by simp
  ultimately show ?case by (auto intro: exI [of _ 0])
qed auto

text \<open>The calls that encode what is in a surface; the bits in the buffer are those of the last one.\<close>

definition encoding :: "sdk \<Rightarrow> nat \<Rightarrow> u8 list \<Rightarrow> mfx_call list \<Rightarrow> mfx_call list \<Rightarrow> u8 list \<Rightarrow> bool" where
  "encoding lib d bs tr tr' b \<longleftrightarrow> (\<exists>bss bs'. hd (bss @ [bs']) = bs \<and> tr' = tr @ map (EncodeFrameAsync d) (bss @ [bs']) \<and>
     b = bits (lib (tr @ map (EncodeFrameAsync d) bss) (EncodeFrameAsync d bs')))"

lemma encoding_once: "encoding lib d bs tr (tr @ [EncodeFrameAsync d bs]) (bits (lib tr (EncodeFrameAsync d bs)))"
  by (auto simp: encoding_def intro: exI [of _ "[]"])

lemma encoding_again: "encoding lib d bs' (tr @ [EncodeFrameAsync d bs]) tr' b \<Longrightarrow> encoding lib d bs tr tr' b"
proof -
  assume "encoding lib d bs' (tr @ [EncodeFrameAsync d bs]) tr' b"
  then obtain bss b1 where "tr' = (tr @ [EncodeFrameAsync d bs]) @ map (EncodeFrameAsync d) (bss @ [b1])"
    "b = bits (lib ((tr @ [EncodeFrameAsync d bs]) @ map (EncodeFrameAsync d) bss) (EncodeFrameAsync d b1))"
    by (auto simp: encoding_def)
  then show ?thesis unfolding encoding_def by (intro exI [of _ "bs # bss"] exI [of _ b1]) simp
qed

lemma wp_encode_loop:
  assumes "enc_ctx e = Some c" "mfxBS c = Val bs" "strict \<Longrightarrow> sdk_succeeds failing held busy lib \<and> within busy is_encode (calls e) i fuel"
  shows "wp strict (encode_loop lib d fuel) (\<lambda>sts e'. (strict \<longrightarrow> (if failing then sts < 0 else sts = MFX_ERR_NONE)) \<and>
    (\<exists>b. evolves e (c\<lparr>mfxBS := Val b\<rparr>) e' \<and> encoding lib d bs (calls e) (calls e') b)) e"
  using assms
proof (induction fuel arbitrary: i e c bs)
  case (Suc fuel)
  let ?c = "EncodeFrameAsync d bs"
  let ?r = "lib (calls e) ?c"
  let ?e = "e\<lparr>calls := calls e @ [?c], enc_ctx := Some (c\<lparr>mfxBS := Val (bits ?r)\<rparr>)\<rparr>"
  have again: "wp strict (encode_loop lib d fuel) (\<lambda>sts e'. (strict \<longrightarrow> (if failing then sts < 0 else sts = MFX_ERR_NONE)) \<and>
    (\<exists>b. evolves ?e ((c\<lparr>mfxBS := Val (bits ?r)\<rparr>)\<lparr>mfxBS := Val b\<rparr>) e' \<and> encoding lib d (bits ?r) (calls ?e) (calls e') b)) ?e"
    if "\<not> syncp ?r" "0 < status ?r"
  proof (rule Suc.IH [of _ _ _ "Suc i"])
    assume s: strict
    then have "\<not> busy \<le> trailing is_encode (calls e)" using Suc.prems(3) that unfolding sdk_succeeds_def by (smt (verit))
    then show "sdk_succeeds failing held busy lib \<and> within busy is_encode (calls ?e) (Suc i) fuel"
      using Suc.prems(3) [OF s] by (auto intro: within_next)
  qed simp_all
  have "wp strict (encode_loop lib d fuel) (\<lambda>sts e'. (strict \<longrightarrow> (if failing then sts < 0 else sts = MFX_ERR_NONE)) \<and>
    (\<exists>b. evolves e (c\<lparr>mfxBS := Val b\<rparr>) e' \<and> encoding lib d bs (calls e) (calls e') b)) ?e" if "\<not> syncp ?r" "0 < status ?r"
    by (rule wp_mono [OF again [OF that]]) (auto intro: encoding_again simp: evolves_def)
  moreover have "strict \<Longrightarrow> if failing then status ?r < 0 else 0 \<le> status ?r" using Suc.prems(3) by (auto simp: sdk_succeeds_def split: if_splits)
  ultimately show ?case using Suc.prems(1,2) encoding_once [of lib d bs "calls e"]
    by (auto simp: wp_ctx evolves_def)
qed auto


section \<open>A whole frame\<close>

text \<open>The lines of a frame, as they are in memory: 4 bytes for a pixel, no padding.\<close>

definition frame_rows :: "nat \<Rightarrow> nat \<Rightarrow> u8 list \<Rightarrow> u8 list list" where
  "frame_rows w h rgb = map (\<lambda>y. take (4 * w) (drop (4 * w * y) rgb)) [0..<h]"

lemma rgb_rows_eq: "rgb_rows w rgb h = (if 4 * w * h \<le> length rgb then Inr (frame_rows w h rgb) else Inl OutOfBounds)"
proof (induction h arbitrary: rgb)
  case (Suc h)
  have "frame_rows w (Suc h) rgb = take (4 * w) rgb # frame_rows w h (drop (4 * w) rgb)"
    by (simp add: frame_rows_def upt_conv_Cons map_Suc_upt [symmetric] add.commute del: upt_Suc)
  then show ?case by (auto simp: Suc.IH)
qed (simp add: frame_rows_def)

lemma info_size_in:
  assumes "0 < w" "w < 2 ^ 16" "0 < h" "h < 2 ^ 16"
  shows "info_size (vpp_in (qsv_vpp_params w h)) = (nat w, nat h)"
proof -
  have "unat (of_int v :: u16) = nat v \<and> (of_int v :: u16) > 0" if "0 < v" "v < 2 ^ 16" for v
    using that by (auto simp: word_less_nat_alt unat_eq_nat_uint uint_word_of_int_eq take_bit_int_eq_self)
  then show ?thesis using assms by (simp add: info_size_def qsv_vpp_params_def qsv_frame_info_def)
qed

text \<open>
  \<open>frame_calls\<close>: the calls that follow \<open>tr\<close> (and whatever was needed to open a context): the rows of the frame are
  loaded into a surface that is locked meanwhile, converted to a second one, and that one is encoded into an empty buffer, whose
  contents then are the frame.
\<close>

definition frame_calls :: "sdk \<Rightarrow> nat \<Rightarrow> nat \<Rightarrow> u8 list \<Rightarrow> mfx_call list \<Rightarrow> mfx_call list \<Rightarrow> u8 list \<Rightarrow> bool" where
  "frame_calls lib w h rgb tr tr' frame \<longleftrightarrow> (\<exists>cs m d rs n tr''.
     encoding lib d [] (tr @ cs @ [Lock m, LoadRows m (frame_rows w h rgb), Unlock m] @ map ReadLocked rs @
       replicate (Suc n) (RunFrameVPPAsync m d)) tr'' frame \<and>
     tr' = tr'' @ [SyncOperation])"

lemma wp_load:
  assumes "surf_info s = vpp_in (qsv_vpp_params w h)" "0 < w" "w < 2 ^ 16" "0 < h" "h < 2 ^ 16"
  shows "wp strict (LoadRawRGBFrameFromRGB lib s rgb) Q e \<longleftrightarrow>
    4 * nat w * nat h \<le> length rgb \<and> Q () (e\<lparr>calls := calls e @ [LoadRows (mem_id s) (frame_rows (nat w) (nat h) rgb)]\<rparr>)"
  by (simp add: LoadRawRGBFrameFromRGB_def assms(1) info_size_in [OF assms(2-)] rgb_rows_eq)

text \<open>What is known before each of the three stages, and the result of the last.\<close>

definition staged :: "nat \<Rightarrow> int \<Rightarrow> int \<Rightarrow> mfx_call list \<Rightarrow> encoder \<Rightarrow> bool" where
  "staged lo w h tr e \<longleftrightarrow> last_width e = w \<and> last_height e = h \<and> calls e = tr \<and> (\<exists>c. enc_ctx e = Some c \<and> ctx_for lo w h c)"

definition encoded :: "bool \<Rightarrow> bool \<Rightarrow> nat \<Rightarrow> sdk \<Rightarrow> int \<Rightarrow> int \<Rightarrow> u8 list \<Rightarrow> mfx_call list \<Rightarrow> u8 list cell \<Rightarrow> encoder \<Rightarrow> bool" where
  "encoded strict failing lo lib w h rgb tr r e \<longleftrightarrow> (case r of
     Val frame \<Rightarrow> (strict \<longrightarrow> \<not> failing) \<and> open_for lo w h tr e \<and> frame_calls lib (nat w) (nat h) rgb tr (calls e) frame
   | Indet \<Rightarrow> strict \<longrightarrow> failing
   | Null \<Rightarrow> False)"

definition loading :: "mfx_call list \<Rightarrow> mfx_call list \<Rightarrow> nat \<Rightarrow> int \<Rightarrow> int \<Rightarrow> u8 list \<Rightarrow> mfx_call list" where
  "loading tr cs m w h rgb = tr @ cs @ [Lock m, LoadRows m (frame_rows (nat w) (nat h) rgb), Unlock m]"

lemma sdk_nonneg: "(strict \<Longrightarrow> sdk_succeeds failing held busy lib) \<Longrightarrow> \<not> is_encode c \<Longrightarrow> status (lib tr c) < 0 \<Longrightarrow> \<not> strict"
  using sdk_status [of failing held busy lib] by (auto simp: not_less [symmetric])

lemma wp_encode_surface:
  assumes lib: "strict \<Longrightarrow> sdk_succeeds failing held busy lib" "strict \<Longrightarrow> busy < fuel"
    and e5: "staged lo w h (loading tr cs m w h rgb @ map ReadLocked rs @ replicate (Suc n) (RunFrameVPPAsync m (mem_id d))) e5"
  shows "wp strict (encode_surface lib fuel d) (encoded strict failing lo lib w h rgb tr) e5"
proof -
  obtain c where c: "enc_ctx e5 = Some c" "ctx_for lo w h c" using e5 by (auto simp: staged_def)
  have bs: "mfxBS c = Val []" using c(2) by (simp add: ctx_for_def)
  have "strict \<Longrightarrow> sdk_succeeds failing held busy lib \<and> within busy is_encode (calls e5) 0 fuel" using lib within_start by blast
  from wp_encode_loop [OF c(1) bs this] show ?thesis
    unfolding encode_surface_def wp_abind [of _ "encode_loop lib (mem_id d) fuel"]
  proof (rule wp_mono)
    fix sts e6
    assume "(strict \<longrightarrow> (if failing then sts < 0 else sts = MFX_ERR_NONE)) \<and> (\<exists>b. evolves e5 (c\<lparr>mfxBS := Val b\<rparr>) e6 \<and> encoding lib (mem_id d) [] (calls e5) (calls e6) b)"
    then obtain b where e6: "strict \<longrightarrow> (if failing then sts < 0 else sts = MFX_ERR_NONE)" "evolves e5 (c\<lparr>mfxBS := Val b\<rparr>) e6" "encoding lib (mem_id d) [] (calls e5) (calls e6) b"
      by blast
    have c6: "enc_ctx e6 = Some (c\<lparr>mfxBS := Val b\<rparr>)" "ctx_for lo w h (c\<lparr>mfxBS := Val []\<rparr>)"
      using e6(2) c(2) by (auto simp: evolves_def ctx_for_def pool_ok_def pool_num_def pool_surfaces_def)
    have tr: "calls e5 = tr @ cs @ [Lock m, LoadRows m (frame_rows (nat w) (nat h) rgb), Unlock m] @ map ReadLocked rs @
        replicate (Suc n) (RunFrameVPPAsync m (mem_id d))"
      using e5 by (simp add: staged_def loading_def)
    have "frame_calls lib (nat w) (nat h) rgb tr (calls e6 @ [SyncOperation]) b"
      using e6(3) unfolding frame_calls_def tr by blast
    moreover have "\<exists>cs. calls e6 @ [SyncOperation] = tr @ cs" using e6(2) tr by (auto simp: evolves_def)
    moreover have "last_width e6 = w" "last_height e6 = h" using e6(2) e5 by (simp_all add: evolves_def staged_def)
    ultimately show "wp strict (if sts = MFX_ERR_NONE then abind (mfx_checked lib SyncOperation) (\<lambda>_.
          abind get_ctx (\<lambda>c. abind (lift (get_cell (mfxBS c))) (\<lambda>bs.
          abind (set_ctx (\<lambda>c. c\<lparr>mfxBS := Val []\<rparr>)) (\<lambda>_. ret (Val bs))))) else ret Indet) (encoded strict failing lo lib w h rgb tr) e6"
      using c6 e6(1) sdk_nonneg [OF lib(1), where tr = "calls e6" and c = SyncOperation]
      by (auto simp: wp_ctx open_for_def encoded_def split: if_splits)
  qed
qed

lemma wp_convert_surface:
  assumes lib: "strict \<Longrightarrow> sdk_succeeds failing held busy lib" "strict \<Longrightarrow> busy < fuel"
    and e3: "staged (least strict held) w h (loading tr cs (mem_id s) w h rgb) e3"
  shows "wp strict (convert_surface lib fuel s) (encoded strict failing (least strict held) lib w h rgb tr) e3"
proof -
  obtain c where c: "enc_ctx e3 = Some c" "ctx_for (least strict held) w h c" using e3 by (auto simp: staged_def)
  have "pool_ok (least strict held) VPPOutEnc (vpp_out (qsv_vpp_params w h)) c" using c(2) by (simp add: ctx_for_def)
  from wp_free_surface [OF c(1) this lib(1)] show ?thesis
    unfolding convert_surface_def wp_abind [of _ "free_surface lib VPPOutEnc"]
  proof (rule wp_mono)
    fix d :: qsv_surface and e4 assume "surf_info d = vpp_out (qsv_vpp_params w h) \<and> (\<exists>rs. e4 = e3\<lparr>calls := calls e3 @ map ReadLocked rs\<rparr>)"
    then obtain rs where e4: "e4 = e3\<lparr>calls := calls e3 @ map ReadLocked rs\<rparr>" by blast
    have "strict \<Longrightarrow> sdk_succeeds failing held busy lib \<and> within busy is_vpp (calls e4) 0 fuel" using lib within_start by blast
    from wp_vpp_loop [where s = "mem_id s" and d = "mem_id d", OF this]
    show "wp strict (abind (vpp_loop lib (mem_id s) (mem_id d) fuel)
      (\<lambda>sts. if sts < 0 then return_status sts else encode_surface lib fuel d)) (encoded strict failing (least strict held) lib w h rgb tr) e4"
      unfolding wp_abind
    proof (rule wp_mono)
      fix sts :: int and e5
      assume a: "(strict \<longrightarrow> 0 \<le> sts) \<and> (\<exists>n. e5 = e4\<lparr>calls := calls e4 @ replicate (Suc n) (RunFrameVPPAsync (mem_id s) (mem_id d))\<rparr>)"
      then obtain n where "e5 = e4\<lparr>calls := calls e4 @ replicate (Suc n) (RunFrameVPPAsync (mem_id s) (mem_id d))\<rparr>" by blast
      then have "staged (least strict held) w h (loading tr cs (mem_id s) w h rgb @ map ReadLocked rs @
          replicate (Suc n) (RunFrameVPPAsync (mem_id s) (mem_id d))) e5"
        using e3 by (simp add: e4 staged_def)
      from wp_encode_surface [OF lib this] a
      show "wp strict (if sts < 0 then return_status sts else encode_surface lib fuel d) (encoded strict failing (least strict held) lib w h rgb tr) e5"
        by auto
    qed
  qed
qed

lemma wp_encode:
  assumes lib: "sdk_allocates lib" "strict \<Longrightarrow> sdk_succeeds failing held busy lib" "strict \<Longrightarrow> busy < fuel" and e: "enc_ok (least strict held) e"
    and size: "0 < w" "w < 2 ^ 16" "0 < h" "h < 2 ^ 16" and rgb: "4 * nat w * nat h \<le> length rgb"
  shows "wp strict (h264_qsv_encoder_encode lib fuel w h rgb) (encoded strict failing (least strict held) lib w h rgb (calls e)) e"
  using wp_reopen [OF lib(1,2) e] unfolding h264_qsv_encoder_encode_def wp_abind [of _ "reopen lib w h"]
proof (rule wp_mono)
  fix u e1 assume "open_for (least strict held) w h (calls e) e1"
  then obtain c cs where c: "enc_ctx e1 = Some c" "ctx_for (least strict held) w h c" "last_width e1 = w" "last_height e1 = h" "calls e1 = calls e @ cs"
    by (auto simp: open_for_def)
  have "pool_ok (least strict held) VPPIn (vpp_in (qsv_vpp_params w h)) c" using c(2) by (simp add: ctx_for_def)
  from wp_free_surface [OF c(1) this lib(2)]
  show "wp strict (abind (free_surface lib VPPIn) (\<lambda>s. abind (mfx_checked lib (Lock (mem_id s))) (\<lambda>_.
     abind (LoadRawRGBFrameFromRGB lib s rgb) (\<lambda>_. abind (mfx_checked lib (Unlock (mem_id s))) (\<lambda>_.
     convert_surface lib fuel s))))) (encoded strict failing (least strict held) lib w h rgb (calls e)) e1"
    unfolding wp_abind [of _ "free_surface lib VPPIn"]
  proof (rule wp_mono)
    fix s :: qsv_surface and e2 assume "surf_info s = vpp_in (qsv_vpp_params w h) \<and> (\<exists>rs. e2 = e1\<lparr>calls := calls e1 @ map ReadLocked rs\<rparr>)"
    then obtain rs where s: "surf_info s = vpp_in (qsv_vpp_params w h)" and e2: "e2 = e1\<lparr>calls := calls e1 @ map ReadLocked rs\<rparr>" by blast
    have "staged (least strict held) w h (loading (calls e) (cs @ map ReadLocked rs) (mem_id s) w h rgb)
      (e1\<lparr>calls := loading (calls e) (cs @ map ReadLocked rs) (mem_id s) w h rgb\<rparr>)" using c by (simp add: staged_def)
    from wp_convert_surface [OF lib(2,3) this]
    show "wp strict (abind (mfx_checked lib (Lock (mem_id s))) (\<lambda>_.
     abind (LoadRawRGBFrameFromRGB lib s rgb) (\<lambda>_. abind (mfx_checked lib (Unlock (mem_id s))) (\<lambda>_.
     convert_surface lib fuel s)))) (encoded strict failing (least strict held) lib w h rgb (calls e)) e2"
      using sdk_nonneg [where strict = strict, OF lib(2) is_call_simps(13)] sdk_nonneg [where strict = strict, OF lib(2) is_call_simps(14)] rgb
      by (auto simp: wp_load [OF s size] e2 c(5) loading_def)
  qed
qed


section \<open>Properties\<close>

lemma open_for_enc_ok: "open_for lo w h tr e \<Longrightarrow> enc_ok lo e"
  by (auto simp: open_for_def enc_ok_def)

lemma encodedD:
  assumes "encoded strict failing lo lib w h rgb tr r e"
  shows "(r = Indet \<and> (strict \<longrightarrow> failing)) \<or> (\<exists>frame. r = Val frame \<and> (strict \<longrightarrow> \<not> failing) \<and>
    frame_calls lib (nat w) (nat h) rgb tr (calls e) frame \<and> enc_ok lo e \<and> last_width e = w \<and> last_height e = h \<and> enc_ctx e \<noteq> None)"
  using assms by (cases r) (auto simp: encoded_def open_for_def enc_ok_def)

lemma enc_ok_none: "enc_ctx e = None \<Longrightarrow> enc_ok lo e"
  by (simp add: enc_ok_def)

text \<open>An SDK for which all calls succeed, for the examples.\<close>

definition example_sdk :: sdk where
  "example_sdk tr c = \<lparr>status = 0, reply_params = qsv_enc_params 2 2,
     requests = (\<lparr>num_frame_suggested = 1, req_type = []\<rparr>, \<lparr>num_frame_suggested = 1, req_type = []\<rparr>),
     mem_ids = (case c of Alloc req \<Rightarrow> [0..<unat (num_frame_suggested req)] | _ \<Rightarrow> []),
     buffer_kb = 1, locked = 0, syncp = True, bits = [0, 0, 0, 1]\<rparr>"

definition closed :: encoder where
  "closed = \<lparr>enc_ctx = None, last_width = 0, last_height = 0, calls = []\<rparr>"

lemma example_sdk_ok: "sdk_allocates example_sdk" "sdk_succeeds False 0 0 example_sdk"
  by (auto simp: sdk_allocates_def sdk_succeeds_def example_sdk_def)

text \<open>
  C16: encoding is safe. With an encoder that is closed or open for the size it was last used for, and with any SDK that allocates as many frames as it
  is asked for, encoding a frame never uses a value that was not set, follows a null pointer or leaves an array. It
  returns an error, or success: then either no frame was set, or the whole frame was loaded and encoded as
  described by \<open>frame_calls\<close>, and the encoder is open for its size.
\<close>

theorem qsv_encode_safe:
  assumes "sdk_allocates lib" "enc_ok 0 e" "0 < w" "w < 2 ^ 16" "0 < h" "h < 2 ^ 16" "4 * nat w * nat h \<le> length rgb"
  shows "case h264_qsv_encoder_encode lib fuel w h rgb e of
      Inl x \<Rightarrow> x = NoFuel
    | Inr (Inl sts, e') \<Rightarrow> sts < 0
    | Inr (Inr r, e') \<Rightarrow> r = Indet \<or> (\<exists>frame. r = Val frame \<and> frame_calls lib (nat w) (nat h) rgb (calls e) (calls e') frame \<and>
        enc_ok 0 e' \<and> last_width e' = w \<and> last_height e' = h \<and> enc_ctx e' \<noteq> None)"
proof -
  have "wp False (h264_qsv_encoder_encode lib fuel w h rgb) (encoded False False 0 lib w h rgb (calls e)) e"
    using wp_encode [of lib False False 0 0 fuel e w h rgb] assms by (simp add: least_def)
  then show ?thesis by (rule wp_case) (use encodedD in blast)
qed

theorem qsv_encode_safe_witness:
  "case h264_qsv_encoder_encode example_sdk 1 2 2 (replicate 16 7) closed of
      Inl x \<Rightarrow> x = NoFuel
    | Inr (Inl sts, e') \<Rightarrow> sts < 0
    | Inr (Inr r, e') \<Rightarrow> r = Indet \<or> (\<exists>frame. r = Val frame \<and> frame_calls example_sdk (nat 2) (nat 2) (replicate 16 7) (calls closed) (calls e') frame \<and>
        enc_ok 0 e' \<and> last_width e' = 2 \<and> last_height e' = 2 \<and> enc_ctx e' \<noteq> None)"
  by (rule qsv_encode_safe [OF example_sdk_ok(1)]) (simp_all add: closed_def enc_ok_none)

text \<open>
  C38: encoding returns. If the calls of the SDK succeed, no more than \<open>held\<close> surfaces of a pool in a row are found in use, while more were
  suggested, and a call is put off at most \<open>busy\<close> times, then a frame is encoded, opening or reopening the encoder where needed, and the next one can be too.
\<close>

theorem qsv_encode_returns:
  assumes "sdk_allocates lib" "sdk_succeeds False held busy lib" "busy < fuel" "enc_ok (Suc held) e"
    and "0 < w" "w < 2 ^ 16" "0 < h" "h < 2 ^ 16" "4 * nat w * nat h \<le> length rgb"
  shows "\<exists>frame e'. h264_qsv_encoder_encode lib fuel w h rgb e = Inr (Inr (Val frame), e') \<and>
    frame_calls lib (nat w) (nat h) rgb (calls e) (calls e') frame \<and> enc_ok (Suc held) e'"
proof -
  have "wp True (h264_qsv_encoder_encode lib fuel w h rgb) (encoded True False (Suc held) lib w h rgb (calls e)) e"
    using wp_encode [of lib True False held busy fuel e w h rgb] assms by (simp add: least_def)
  from wp_strictD [OF this] show ?thesis by (blast dest: encodedD)
qed

theorem qsv_encode_returns_witness:
  "\<exists>frame e'. h264_qsv_encoder_encode example_sdk 1 2 2 (replicate 16 7) closed = Inr (Inr (Val frame), e') \<and>
    frame_calls example_sdk 2 2 (replicate 16 7) [] (calls e') frame \<and> enc_ok 1 e'"
  using qsv_encode_returns [OF example_sdk_ok, of 1 closed 2 2 "replicate 16 7"] by (simp add: closed_def enc_ok_none)

lemma encode_wrong_size:
  assumes lib: "sdk_succeeds failing held busy lib" and c: "enc_ctx e = Some c" "ctx_for (Suc held) W H c"
    and last: "last_width e = w" "last_height e = h" and size: "0 < W" "W < 2 ^ 16" "0 < H" "H < 2 ^ 16"
    and rgb: "length rgb < 4 * nat W * nat H"
  shows "h264_qsv_encoder_encode lib fuel w h rgb e = Inl OutOfBounds"
proof -
  have "pool_ok (least True held) VPPIn (vpp_in (qsv_vpp_params W H)) c" using c(2) by (simp add: ctx_for_def least_def)
  from wp_strictD [OF wp_free_surface [OF c(1) this lib]]
  obtain s e1 where s: "free_surface lib VPPIn e = Inr (Inr s, e1)" "surf_info s = vpp_in (qsv_vpp_params W H)" by blast
  have "0 \<le> status (lib (calls e1) (Lock (mem_id s)))" using sdk_status [OF lib] by simp
  then show ?thesis
    using s rgb c(1) last info_size_in [OF size]
    by (simp add: h264_qsv_encoder_encode_def abind_def reopen_def ret_def mfx_checked_def mfx_def LoadRawRGBFrameFromRGB_def lift_def rgb_rows_eq)
qed

text \<open>
  C39: two screens share the variables that remember the frame size. A worker encodes a frame of one size, then another worker of the same process one of a
  smaller size; when the screen of the first changes to that size, its encoder is taken to fit, and loading the frame
  reads past the end of its bytes.
\<close>

theorem qsv_shared_size_overread:
  assumes lib: "sdk_allocates lib" "sdk_succeeds False held busy lib" "busy < fuel"
    and size: "0 < w0" "w0 < 2 ^ 16" "0 < h0" "h0 < 2 ^ 16" "0 < w" "w < 2 ^ 16" "0 < h" "h < 2 ^ 16"
    and rgb: "length rgb0 = 4 * nat w0 * nat h0" "length rgb = 4 * nat w * nat h" "nat w * nat h < nat w0 * nat h0"
  shows "\<exists>f0 e0 f1 e1. h264_qsv_encoder_encode lib fuel w0 h0 rgb0 closed = Inr (Inr (Val f0), e0) \<and>
    h264_qsv_encoder_encode lib fuel w h rgb (e0\<lparr>enc_ctx := None\<rparr>) = Inr (Inr (Val f1), e1) \<and>
    h264_qsv_encoder_encode lib fuel w h rgb (e1\<lparr>enc_ctx := enc_ctx e0\<rparr>) = Inl OutOfBounds"
proof -
  have "wp True (h264_qsv_encoder_encode lib fuel w0 h0 rgb0) (encoded True False (Suc held) lib w0 h0 rgb0 (calls closed)) closed"
    using wp_encode [of lib True False held busy fuel closed w0 h0 rgb0] assms by (simp add: least_def closed_def enc_ok_none)
  from wp_strictD [OF this] obtain f0 e0 c where e0: "h264_qsv_encoder_encode lib fuel w0 h0 rgb0 closed = Inr (Inr (Val f0), e0)"
    "enc_ctx e0 = Some c" "ctx_for (Suc held) w0 h0 c"
    using encodedD unfolding enc_ok_def by blast
  have "wp True (h264_qsv_encoder_encode lib fuel w h rgb) (encoded True False (Suc held) lib w h rgb (calls e0)) (e0\<lparr>enc_ctx := None\<rparr>)"
    using wp_encode [of lib True False held busy fuel "e0\<lparr>enc_ctx := None\<rparr>" w h rgb] assms by (simp add: least_def enc_ok_none)
  from wp_strictD [OF this] obtain f1 e1 where e1: "h264_qsv_encoder_encode lib fuel w h rgb (e0\<lparr>enc_ctx := None\<rparr>) = Inr (Inr (Val f1), e1)"
    "last_width e1 = w" "last_height e1 = h"
    using encodedD by blast
  have "h264_qsv_encoder_encode lib fuel w h rgb (e1\<lparr>enc_ctx := enc_ctx e0\<rparr>) = Inl OutOfBounds"
    using e0(2,3) e1(2,3) rgb size by (intro encode_wrong_size [OF lib(2), where W = w0 and H = h0]) auto
  then show ?thesis using e0(1) e1(1) by blast
qed

theorem qsv_shared_size_overread_witness:
  "\<exists>f0 e0 f1 e1. h264_qsv_encoder_encode example_sdk 1 4 4 (replicate 64 7) closed = Inr (Inr (Val f0), e0) \<and>
    h264_qsv_encoder_encode example_sdk 1 2 2 (replicate 16 7) (e0\<lparr>enc_ctx := None\<rparr>) = Inr (Inr (Val f1), e1) \<and>
    h264_qsv_encoder_encode example_sdk 1 2 2 (replicate 16 7) (e1\<lparr>enc_ctx := enc_ctx e0\<rparr>) = Inl OutOfBounds"
  by (rule qsv_shared_size_overread [OF example_sdk_ok]) simp_all

lemma align16: "MSDK_ALIGN16 v = (v + 15) div 16 * 16"
  by (simp add: MSDK_ALIGN16_def push_bit_eq_mult drop_bit_eq_div)

lemma uint_of_int16: "0 \<le> v \<Longrightarrow> v < 2 ^ 16 \<Longrightarrow> uint (of_int v :: u16) = v"
  by (simp add: uint_word_of_int_eq take_bit_int_eq_self)

text \<open>
  The geometry the SDK is given. For frames of up to 65520 pixels a side the crop rectangle is the frame, the surfaces are the smallest
  that contain it with sides that are multiples of 16, as the SDK requires, and the surfaces the conversion writes and those the encoder reads are described alike. A
  larger side wraps around to surfaces of side 0.
\<close>

theorem qsv_geometry:
  assumes "0 < w" "w < 2 ^ 16" "0 < h" "h \<le> 65520"
  shows "if w \<le> 65520 then
      (\<forall>i \<in> {enc_info (qsv_enc_params w h), vpp_in (qsv_vpp_params w h), vpp_out (qsv_vpp_params w h)}.
        uint (crop_w i) = w \<and> uint (crop_h i) = h \<and> 16 dvd uint (frame_w i) \<and> 16 dvd uint (frame_h i) \<and>
        w \<le> uint (frame_w i) \<and> uint (frame_w i) < w + 16 \<and> h \<le> uint (frame_h i) \<and> uint (frame_h i) < h + 16) \<and>
      vpp_out (qsv_vpp_params w h) = enc_info (qsv_enc_params w h)
    else frame_w (enc_info (qsv_enc_params w h)) = 0"
proof (cases "w \<le> 65520")
  case True
  have *: "16 dvd uint (of_int (MSDK_ALIGN16 v) :: u16) \<and> v \<le> uint (of_int (MSDK_ALIGN16 v) :: u16) \<and>
      uint (of_int (MSDK_ALIGN16 v) :: u16) < v + 16" if "0 < v" "v \<le> 65520" for v
  proof -
    have "uint (of_int (MSDK_ALIGN16 v) :: u16) = (v + 15) div 16 * 16"
      unfolding align16 using that by (intro uint_of_int16) auto
    moreover have "v \<le> (v + 15) div 16 * 16" "(v + 15) div 16 * 16 < v + 16" by presburger+
    ultimately show ?thesis by simp
  qed
  have "uint (of_int w :: u16) = w" "uint (of_int h :: u16) = h" using assms by (simp_all add: uint_of_int16)
  then show ?thesis using True * [of w] * [of h] assms
    by (simp add: qsv_enc_params_def qsv_vpp_params_def qsv_frame_info_def Let_def)
next
  case False
  then have "MSDK_ALIGN16 w = 2 ^ 16" using assms by (simp add: align16)
  then show ?thesis using False by (simp add: qsv_enc_params_def qsv_frame_info_def)
qed

theorem qsv_geometry_witness:
  "vpp_out (qsv_vpp_params 1366 768) = enc_info (qsv_enc_params 1366 768) \<and> frame_w (enc_info (qsv_enc_params 65521 768)) = 0"
proof
  have "(if (1366 :: int) \<le> 65520 then P else Q) = P" "(if (65521 :: int) \<le> 65520 then P else Q) = Q" for P Q by simp_all
  note if_eqs = this
  show "vpp_out (qsv_vpp_params 1366 768) = enc_info (qsv_enc_params 1366 768)"
    using qsv_geometry [of 1366 768, unfolded if_eqs, THEN conjunct2] by simp
  show "frame_w (enc_info (qsv_enc_params 65521 768)) = 0"
    using qsv_geometry [of 65521 768, unfolded if_eqs] by simp
qed

end
