(* ===== verification/H264_Stream.thy ===== *)
theory H264_Stream
  imports H264_Qsv
begin

text \<open>
  The H.264 display stream (server/red_worker.c, built without \<open>USE_VGA_MODE\<close>): the screen is encoded and sent
  for a drawing command unless the last frame is too recent, and a screen whose frame was dropped is sent later,
  when the command ring is empty. The clock readings are arguments, one for each \<open>gettimeofday\<close>. The lemmas show
  the frame rate limit for any sequence of events, that a dropped screen is sent after a second, and that only the first
  client gets it.
\<close>

section \<open>The stream\<close>

record timeval =
  tv_sec :: int
  tv_usec :: int

text \<open>The image of the primary surface, in memory: pixman's width, height, stride in bytes and the address of the first line.\<close>

record screen =
  scr_width :: int
  scr_height :: int
  scr_stride :: int
  scr_data :: int
  scr_mem :: mem

record h264_msg =
  msg_surface_id :: int
  msg_width :: int
  msg_height :: int
  msg_flags :: u8
  msg_data :: "u8 list"

record h264_worker =
  w_enc :: encoder
  enable_avc :: bool
  last_drop :: bool
  last_time :: timeval
  running :: bool

definition too_soon :: "timeval \<Rightarrow> timeval \<Rightarrow> bool" where
  "too_soon time prev \<longleftrightarrow>
     (tv_sec time = tv_sec prev \<and> tv_usec time - tv_usec prev \<le> 33000) \<or>
     (tv_sec time = tv_sec prev + 1 \<and> tv_usec time + 1000000 - tv_usec prev \<le> 33000)"

text \<open>The bytes of the image from its lowest address, that of the last line.\<close>

definition rgb_data :: "screen \<Rightarrow> u8 list" where
  "rgb_data scr = (let a = scr_data scr + scr_stride scr * (scr_height scr - 1) in
     map (\<lambda>i. scr_mem scr (a + int i)) [0..<nat (- scr_stride scr) * nat (scr_height scr)])"

definition h264_send :: "u8 list \<Rightarrow> int \<Rightarrow> int \<Rightarrow> int \<Rightarrow> u8 \<Rightarrow> h264_msg" where
  "h264_send data surface_id width height flags =
     \<lparr>msg_surface_id = surface_id, msg_width = width, msg_height = height, msg_flags = flags, msg_data = data\<rparr>"

text \<open>The result is the returned flag, the message put in the client's marshaller if any, and the worker.\<close>

definition send_frame :: "sdk \<Rightarrow> nat \<Rightarrow> screen \<Rightarrow> h264_worker \<Rightarrow> (bool \<times> h264_msg option \<times> h264_worker) res" where
  "send_frame lib fuel scr w =
     spice_assert (scr_stride scr < 0)
       (rbind (h264_qsv_encoder_encode lib fuel (scr_width scr) (scr_height scr) (rgb_data scr) (w_enc w)) (\<lambda>(r, enc).
         let w = w\<lparr>w_enc := enc\<rparr> in
         case r of
           Inl sts \<Rightarrow> if sts \<noteq> 0 then Inr (False, None, w) else Inl Uninit
         | Inr frame \<Rightarrow> rbind (get_cell frame) (\<lambda>data. Inr (True, Some (h264_send data 0 (scr_width scr) (scr_height scr) 0), w))))"

definition red_marshall_stream_h264_data ::
  "sdk \<Rightarrow> nat \<Rightarrow> timeval option \<Rightarrow> screen \<Rightarrow> h264_worker \<Rightarrow> (bool \<times> h264_msg option \<times> h264_worker) res" where
  "red_marshall_stream_h264_data lib fuel gettimeofday scr w =
     (case gettimeofday of
        None \<Rightarrow> Inl Abort
      | Some time \<Rightarrow>
          if too_soon time (last_time w) then Inr (True, None, w\<lparr>last_drop := True\<rparr>)
          else send_frame lib fuel scr (w\<lparr>last_drop := False, last_time := time\<rparr>))"

text \<open>The other ways to send a drawable, outside of this model, are only named.\<close>

datatype marshalled = H264 "h264_msg option" | StreamData | QxlDrawable | LossyQxlDrawable

definition marshall_qxl_drawable ::
  "sdk \<Rightarrow> nat \<Rightarrow> bool \<Rightarrow> bool \<Rightarrow> timeval option \<Rightarrow> screen \<Rightarrow> h264_worker \<Rightarrow> (marshalled \<times> h264_worker) res" where
  "marshall_qxl_drawable lib fuel streamed enable_jpeg gettimeofday scr w =
     (if enable_avc w then
        rbind (red_marshall_stream_h264_data lib fuel gettimeofday scr w) (\<lambda>(ok, m, w). spice_assert ok (Inr (H264 m, w)))
      else Inr (if streamed then StreamData else if \<not> enable_jpeg then QxlDrawable else LossyQxlDrawable, w))"

text \<open>
  The clients of the display channel, each with the clock as it is when the frame for it is marshalled. The result is
  what is sent: the time, the client, the message.
\<close>

fun insert_h264_frame ::
  "sdk \<Rightarrow> nat \<Rightarrow> screen \<Rightarrow> (nat \<times> timeval) list \<Rightarrow> h264_worker \<Rightarrow> ((timeval \<times> nat \<times> h264_msg) list \<times> h264_worker) res" where
  "insert_h264_frame lib fuel scr [] w = Inr ([], w)"
| "insert_h264_frame lib fuel scr ((rcc, time) # clients) w =
     rbind (red_marshall_stream_h264_data lib fuel (Some time) scr w) (\<lambda>(ok, m, w).
     spice_assert ok
       (rbind (insert_h264_frame lib fuel scr clients w) (\<lambda>(sent, w).
          Inr ((case m of None \<Rightarrow> [] | Some msg \<Rightarrow> [(time, rcc, msg)]) @ sent, w))))"

text \<open>The end of a turn of the worker's loop, after the commands.\<close>

definition insert_if_idle ::
  "sdk \<Rightarrow> nat \<Rightarrow> bool \<Rightarrow> timeval option \<Rightarrow> screen \<Rightarrow> (nat \<times> timeval) list \<Rightarrow> h264_worker \<Rightarrow> ((timeval \<times> nat \<times> h264_msg) list \<times> h264_worker) res" where
  "insert_if_idle lib fuel ring_is_empty gettimeofday scr clients w =
     (if running w \<and> ring_is_empty \<and> last_drop w \<and> enable_avc w then
        case gettimeofday of
          None \<Rightarrow> Inl Abort
        | Some time \<Rightarrow>
            if tv_sec time \<ge> tv_sec (last_time w) + 2 then insert_h264_frame lib fuel scr clients w
            else if tv_sec time = tv_sec (last_time w) + 1 \<and> tv_usec time \<ge> tv_usec (last_time w) then insert_h264_frame lib fuel scr clients w
            else Inr ([], w)
      else Inr ([], w))"

definition display_channel_handle_avc :: "bool \<Rightarrow> h264_worker \<Rightarrow> bool \<times> h264_worker" where
  "display_channel_handle_avc avc w = (True, w\<lparr>enable_avc := avc\<rparr>)"

text \<open>What a new client of the display channel resets.\<close>

definition h264_new_client :: "sdk \<Rightarrow> h264_worker \<Rightarrow> h264_worker res" where
  "h264_new_client lib w =
     rbind (case enc_ctx (w_enc w) of
        None \<Rightarrow> Inr (w_enc w)
      | Some c \<Rightarrow> rbind (h264_qsv_encoder_fini lib c (w_enc w)) (\<lambda>(_, e). Inr (e\<lparr>enc_ctx := None\<rparr>)))
       (\<lambda>e. Inr (w\<lparr>w_enc := e, last_drop := False, last_time := \<lparr>tv_sec = 0, tv_usec = 0\<rparr>\<rparr>))"


section \<open>Events\<close>

text \<open>What happens to the stream of a worker between two resets; \<open>Draw\<close> is a drawable sent to a client.\<close>

datatype h264_event = Draw nat timeval screen | Idle bool timeval screen "(nat \<times> timeval) list" | SetAvc bool

definition h264_step :: "sdk \<Rightarrow> nat \<Rightarrow> h264_event \<Rightarrow> h264_worker \<Rightarrow> ((timeval \<times> nat \<times> h264_msg) list \<times> h264_worker) res" where
  "h264_step lib fuel ev w = (case ev of
     Draw rcc time scr \<Rightarrow> rbind (marshall_qxl_drawable lib fuel False False (Some time) scr w) (\<lambda>(m, w).
       Inr (case m of H264 (Some msg) \<Rightarrow> [(time, rcc, msg)] | _ \<Rightarrow> [], w))
   | Idle ring_empty time scr clients \<Rightarrow> insert_if_idle lib fuel ring_empty (Some time) scr clients w
   | SetAvc avc \<Rightarrow> Inr ([], snd (display_channel_handle_avc avc w)))"

fun event_times :: "h264_event \<Rightarrow> timeval list" where
  "event_times (Draw rcc time scr) = [time]"
| "event_times (Idle ring_empty time scr clients) = time # map snd clients"
| "event_times (SetAvc avc) = []"


section \<open>The frame rate\<close>

definition us :: "timeval \<Rightarrow> int" where
  "us t = 1000000 * tv_sec t + tv_usec t"

definition valid_time :: "timeval \<Rightarrow> bool" where
  "valid_time t \<longleftrightarrow> 0 \<le> tv_usec t \<and> tv_usec t < 1000000"

lemma too_soon_iff:
  assumes "valid_time time" "valid_time prev" "us prev \<le> us time"
  shows "too_soon time prev \<longleftrightarrow> us time - us prev \<le> 33000"
proof -
  have "tv_sec prev \<le> tv_sec time" using assms unfolding us_def valid_time_def by linarith
  moreover have "us time - us prev > 33000" if "tv_sec prev + 2 \<le> tv_sec time"
    using that assms unfolding us_def valid_time_def by linarith
  ultimately consider "tv_sec time = tv_sec prev" | "tv_sec time = tv_sec prev + 1" | "tv_sec prev + 2 \<le> tv_sec time" "us time - us prev > 33000"
    by linarith
  then show ?thesis using assms(1,2) unfolding too_soon_def us_def valid_time_def by cases auto
qed

text \<open>
  \<open>rated prev ts\<close>: the clock readings are valid and do not go back; \<open>spaced prev ss\<close>: frames are sent more than 33 ms apart.
\<close>

definition rated :: "timeval \<Rightarrow> timeval list \<Rightarrow> bool" where
  "rated prev ts \<longleftrightarrow> (\<forall>t \<in> set (prev # ts). valid_time t) \<and> sorted (map us (prev # ts))"

definition spaced :: "timeval \<Rightarrow> timeval list \<Rightarrow> bool" where
  "spaced prev ss \<longleftrightarrow> successively (\<lambda>s t. us s + 33000 < us t) (prev # ss)"

lemma rated_Cons: "rated prev (t # ts) \<longleftrightarrow> valid_time prev \<and> us prev \<le> us t \<and> rated t ts"
  by (auto simp: rated_def)

lemma rated_skip: "rated prev (t # ts) \<Longrightarrow> rated prev ts"
  by (auto simp: rated_def)

lemma rated_from: "rated prev (ts @ rest) \<Longrightarrow> t \<in> set (prev # ts) \<Longrightarrow> rated t rest"
  by (auto simp: rated_def sorted_append)

lemma spaced_simps [simp]: "spaced prev []" "spaced prev (t # ss) \<longleftrightarrow> us prev + 33000 < us t \<and> spaced t ss"
  by (auto simp: spaced_def)

lemma spaced_append: "spaced prev ss \<Longrightarrow> spaced (last (prev # ss)) ss' \<Longrightarrow> spaced prev (ss @ ss')"
  by (induction ss arbitrary: prev) auto

text \<open>One frame: sent or dropped, and what becomes of the stream.\<close>

lemma send_frame_cases:
  assumes "send_frame lib fuel scr w = Inr (ok, m, w')"
  obtains sts enc where "h264_qsv_encoder_encode lib fuel (scr_width scr) (scr_height scr) (rgb_data scr) (w_enc w) = Inr (Inl sts, enc)"
    "\<not> ok" "m = None" "w' = w\<lparr>w_enc := enc\<rparr>"
  | data enc where "h264_qsv_encoder_encode lib fuel (scr_width scr) (scr_height scr) (rgb_data scr) (w_enc w) = Inr (Inr (Val data), enc)"
    "ok" "m = Some (h264_send data 0 (scr_width scr) (scr_height scr) 0)" "w' = w\<lparr>w_enc := enc\<rparr>"
proof (cases "h264_qsv_encoder_encode lib fuel (scr_width scr) (scr_height scr) (rgb_data scr) (w_enc w)")
  case (Inr r)
  obtain a enc where r: "r = (a, enc)" by (cases r)
  show thesis
  proof (cases a)
    case (Inl sts)
    then show thesis using assms Inr r by (intro that(1)) (auto simp: send_frame_def split: if_splits)
  next
    case (Inr frame)
    then show thesis using assms r \<open>_ = Inr r\<close> by (cases frame) (auto simp: send_frame_def intro: that(2))
  qed
qed (use assms in \<open>simp add: send_frame_def\<close>)

lemma send_frame_keeps:
  "send_frame lib fuel scr w = Inr (ok, m, w') \<Longrightarrow> last_time w' = last_time w \<and> last_drop w' = last_drop w \<and>
    enable_avc w' = enable_avc w \<and> running w' = running w \<and> (ok \<longleftrightarrow> m \<noteq> None)"
  by (erule send_frame_cases) simp_all

lemma marshall_cases:
  assumes "red_marshall_stream_h264_data lib fuel (Some t) scr w = Inr (ok, m, w')"
  obtains "too_soon t (last_time w)" "m = None" "ok" "w' = w\<lparr>last_drop := True\<rparr>"
  | "\<not> too_soon t (last_time w)" "last_time w' = t" "\<not> last_drop w'" "ok \<longleftrightarrow> m \<noteq> None"
proof (cases "too_soon t (last_time w)")
  case False
  then have "send_frame lib fuel scr (w\<lparr>last_drop := False, last_time := t\<rparr>) = Inr (ok, m, w')"
    using assms by (simp add: red_marshall_stream_h264_data_def)
  from send_frame_keeps [OF this] show thesis using False by (intro that(2)) auto
qed (use assms in \<open>auto simp: red_marshall_stream_h264_data_def intro: that(1)\<close>)

definition sends_ok :: "h264_worker \<Rightarrow> timeval list \<Rightarrow> (timeval \<times> nat \<times> h264_msg) list \<Rightarrow> h264_worker \<Rightarrow> bool" where
  "sends_ok w ts sent w' \<longleftrightarrow> spaced (last_time w) (map fst sent) \<and> last_time w' = last (last_time w # map fst sent) \<and> fst ` set sent \<subseteq> set ts"

lemma marshall_sends:
  assumes "red_marshall_stream_h264_data lib fuel (Some t) scr w = Inr (True, m, w')" "rated (last_time w) (t # rest)"
  shows "sends_ok w [t] (case m of None \<Rightarrow> [] | Some msg \<Rightarrow> [(t, rcc, msg)]) w'"
  using assms(1)
proof (cases rule: marshall_cases)
  case 2
  have "33000 < us t - us (last_time w)" using 2(1) assms(2) too_soon_iff [of t "last_time w"] by (auto simp: rated_def)
  then show ?thesis using 2 by (auto simp: sends_ok_def)
qed (simp add: sends_ok_def)

lemma sends_ok_append:
  assumes "sends_ok w ts sent w1" "sends_ok w1 ts' sent' w2"
  shows "sends_ok w (ts @ ts') (sent @ sent') w2"
proof -
  have "spaced (last_time w) (map fst sent @ map fst sent')"
    using assms by (intro spaced_append) (simp_all add: sends_ok_def)
  then show ?thesis using assms by (auto simp: sends_ok_def last_append)
qed

lemma sends_ok_rated:
  assumes "sends_ok w ts sent w'" "rated (last_time w) (ts @ rest)"
  shows "rated (last_time w') rest"
proof -
  have "last (last_time w # map fst sent) \<in> set (last_time w # map fst sent)" by (rule last_in_set) simp
  then have "last_time w' \<in> set (last_time w # ts)" using assms(1) by (auto simp: sends_ok_def simp del: last.simps)
  then show ?thesis using rated_from [OF assms(2)] by simp
qed

lemma insert_sends:
  "insert_h264_frame lib fuel scr clients w = Inr (sent, w') \<Longrightarrow> rated (last_time w) (map snd clients @ rest) \<Longrightarrow>
    sends_ok w (map snd clients) sent w'"
proof (induction clients arbitrary: w sent)
  case (Cons c clients)
  obtain rcc t where c: "c = (rcc, t)" by (cases c)
  obtain m w1 sent1 where m: "red_marshall_stream_h264_data lib fuel (Some t) scr w = Inr (True, m, w1)"
    "insert_h264_frame lib fuel scr clients w1 = Inr (sent1, w')" "sent = (case m of None \<Rightarrow> [] | Some msg \<Rightarrow> [(t, rcc, msg)]) @ sent1"
    using Cons.prems(1) by (auto simp: c)
  have 1: "sends_ok w [t] (case m of None \<Rightarrow> [] | Some msg \<Rightarrow> [(t, rcc, msg)]) w1"
    using marshall_sends [OF m(1)] Cons.prems(2) by (simp add: c)
  have "rated (last_time w1) (map snd clients @ rest)" using sends_ok_rated [OF 1] Cons.prems(2) by (simp add: c)
  from sends_ok_append [OF 1 Cons.IH [OF m(2) this]] show ?case by (simp add: c m(3))
qed (simp add: sends_ok_def)

lemma step_sends:
  assumes "h264_step lib fuel ev w = Inr (sent, w')" "rated (last_time w) (event_times ev @ rest)"
  shows "sends_ok w (event_times ev) sent w'"
proof (cases ev)
  case (Draw rcc t scr)
  show ?thesis
  proof (cases "enable_avc w")
    case True
    then obtain m where m: "red_marshall_stream_h264_data lib fuel (Some t) scr w = Inr (True, m, w')"
      "sent = (case m of None \<Rightarrow> [] | Some msg \<Rightarrow> [(t, rcc, msg)])"
      using assms(1) Draw by (auto simp: h264_step_def marshall_qxl_drawable_def split: option.splits)
    then show ?thesis using marshall_sends [OF m(1)] assms(2) Draw by simp
  qed (use assms(1) Draw in \<open>auto simp: h264_step_def marshall_qxl_drawable_def sends_ok_def\<close>)
next
  case (Idle ring_empty t scr clients)
  have r: "rated (last_time w) (map snd clients @ rest)" using assms(2) Idle rated_skip by simp
  have "sends_ok w (map snd clients) sent w'"
    using assms(1) Idle insert_sends [OF _ r]
    by (auto simp: h264_step_def insert_if_idle_def sends_ok_def split: if_splits)
  then show ?thesis using Idle by (auto simp: sends_ok_def)
qed (use assms(1) in \<open>auto simp: h264_step_def display_channel_handle_avc_def sends_ok_def\<close>)

lemma run_sends:
  "run_ops (h264_step lib fuel) evs w = Inr (outs, w') \<Longrightarrow> rated (last_time w) (concat (map event_times evs) @ rest) \<Longrightarrow>
    sends_ok w (concat (map event_times evs)) (concat outs) w'"
proof (induction evs arbitrary: w outs)
  case (Cons ev evs)
  obtain sent w1 outs1 where s: "h264_step lib fuel ev w = Inr (sent, w1)" "run_ops (h264_step lib fuel) evs w1 = Inr (outs1, w')" "outs = sent # outs1"
    using Cons.prems(1) by auto
  have 1: "sends_ok w (event_times ev) sent w1" using step_sends [OF s(1)] Cons.prems(2) by simp
  have "rated (last_time w1) (concat (map event_times evs) @ rest)" using sends_ok_rated [OF 1] Cons.prems(2) by simp
  from sends_ok_append [OF 1 Cons.IH [OF s(2) this]] show ?case by (simp add: s(3))
qed (simp add: sends_ok_def)


section \<open>Frames and screens\<close>

text \<open>A screen of a size that fits, whose lines are stored upwards without padding.\<close>

definition screen_ok :: "screen \<Rightarrow> bool" where
  "screen_ok scr \<longleftrightarrow> 0 < scr_width scr \<and> scr_width scr < 2 ^ 16 \<and> 0 < scr_height scr \<and> scr_height scr < 2 ^ 16 \<and>
     scr_stride scr = - 4 * scr_width scr"

definition screen_line :: "screen \<Rightarrow> nat \<Rightarrow> u8 list" where
  "screen_line scr y = map (\<lambda>i. scr_mem scr (scr_data scr + scr_stride scr * int y + int i)) [0..<4 * nat (scr_width scr)]"

lemma length_rgb_data: "screen_ok scr \<Longrightarrow> length (rgb_data scr) = 4 * nat (scr_width scr) * nat (scr_height scr)"
  by (simp add: screen_ok_def rgb_data_def Let_def nat_mult_distrib)

lemma frame_rows_screen:
  assumes "screen_ok scr" "y < nat (scr_height scr)"
  shows "frame_rows (nat (scr_width scr)) (nat (scr_height scr)) (rgb_data scr) ! y = screen_line scr (nat (scr_height scr) - 1 - y)"
proof -
  define W H where "W = nat (scr_width scr)" "H = nat (scr_height scr)"
  have w: "scr_width scr = int W" "scr_height scr = int H" "scr_stride scr = - 4 * int W" and y: "y < H"
    using assms by (auto simp: screen_ok_def W_H_def)
  have l: "length (rgb_data scr) = 4 * W * H" using length_rgb_data [OF assms(1)] by (simp add: w)
  have len: "4 * W * Suc y \<le> 4 * W * H" using y by (intro mult_le_mono2) simp
  have "frame_rows W H (rgb_data scr) ! y = screen_line scr (H - 1 - y)"
  proof (rule nth_equalityI)
    show "length (frame_rows W H (rgb_data scr) ! y) = length (screen_line scr (H - 1 - y))"
      using len l y w(1) by (simp add: frame_rows_def screen_line_def min_def) linarith
    fix i assume "i < length (frame_rows W H (rgb_data scr) ! y)"
    then have i: "i < 4 * W" using y by (simp add: frame_rows_def)
    then have b: "4 * W * y + i < 4 * W * H" using len by simp
    have a: "scr_stride scr * (scr_height scr - 1) + int (4 * W * y + i) = scr_stride scr * int (H - 1 - y) + int i"
      using y by (simp add: w of_nat_diff algebra_simps)
    have "frame_rows W H (rgb_data scr) ! y ! i = rgb_data scr ! (4 * W * y + i)"
      using i b l y by (simp add: frame_rows_def)
    also have "\<dots> = scr_mem scr (scr_data scr + (scr_stride scr * (scr_height scr - 1) + int (4 * W * y + i)))"
      using b by (simp add: rgb_data_def Let_def nat_mult_distrib w algebra_simps)
    also have "\<dots> = screen_line scr (H - 1 - y) ! i"
      unfolding a using i w(1) by (simp add: screen_line_def add.assoc)
    finally show "frame_rows W H (rgb_data scr) ! y ! i = screen_line scr (H - 1 - y) ! i" .
  qed
  then show ?thesis by (simp add: W_H_def)
qed

text \<open>Sending a frame, when the SDK works.\<close>

lemma send_frame_returns:
  assumes "sdk_allocates lib" "sdk_succeeds False held busy lib" "busy < fuel" "enc_ok (Suc held) (w_enc w)" "screen_ok scr"
  obtains msg w' where "send_frame lib fuel scr w = Inr (True, Some msg, w')" "enc_ok (Suc held) (w_enc w')"
    "msg_width msg = scr_width scr" "msg_height msg = scr_height scr"
    "frame_calls lib (nat (scr_width scr)) (nat (scr_height scr)) (rgb_data scr) (calls (w_enc w)) (calls (w_enc w')) (msg_data msg)"
proof -
  have "wp True (h264_qsv_encoder_encode lib fuel (scr_width scr) (scr_height scr) (rgb_data scr))
      (encoded True False (Suc held) lib (scr_width scr) (scr_height scr) (rgb_data scr) (calls (w_enc w))) (w_enc w)"
    using wp_encode [of lib True False held busy fuel "w_enc w" "scr_width scr" "scr_height scr" "rgb_data scr"] assms length_rgb_data [of scr]
    by (simp add: least_def screen_ok_def)
  from wp_strictD [OF this] obtain data enc where
    e: "h264_qsv_encoder_encode lib fuel (scr_width scr) (scr_height scr) (rgb_data scr) (w_enc w) = Inr (Inr (Val data), enc)"
    "frame_calls lib (nat (scr_width scr)) (nat (scr_height scr)) (rgb_data scr) (calls (w_enc w)) (calls enc) data" "enc_ok (Suc held) enc"
    using encodedD by blast
  have "scr_stride scr < 0" using assms(5) by (simp add: screen_ok_def)
  then show thesis using e by (intro that [of "h264_send data 0 (scr_width scr) (scr_height scr) 0" "w\<lparr>w_enc := enc\<rparr>"]) (simp_all add: send_frame_def h264_send_def)
qed


text \<open>A worker and a screen of two by two pixels, for the examples.\<close>

definition example_screen :: screen where
  "example_screen = \<lparr>scr_width = 2, scr_height = 2, scr_stride = - 8, scr_data = 108, scr_mem = (\<lambda>a. of_int a)\<rparr>"

definition failing_sdk :: sdk where
  "failing_sdk tr c = (if is_encode c then (example_sdk tr c)\<lparr>status := - 5\<rparr> else example_sdk tr c)"

definition at_us :: "int \<Rightarrow> timeval" where
  "at_us t = \<lparr>tv_sec = t div 1000000, tv_usec = t mod 1000000\<rparr>"

definition example_worker :: h264_worker where
  "example_worker = \<lparr>w_enc = closed, enable_avc = True, last_drop = False, last_time = at_us 5000000, running = True\<rparr>"

lemma at_us_simps [simp]: "us (at_us t) = t" "valid_time (at_us t)"
  by (simp_all add: us_def at_us_def valid_time_def)

lemma example_ok [simp]: "screen_ok example_screen" "enc_ok n (w_enc example_worker)" "running example_worker" "enable_avc example_worker"
  "last_time example_worker = at_us 5000000"
  by (simp_all add: screen_ok_def example_screen_def example_worker_def closed_def enc_ok_none)

lemma example_sent:
  obtains msg w' where "red_marshall_stream_h264_data example_sdk 1 (Some (at_us 5040000)) example_screen example_worker = Inr (True, Some msg, w')"
    "last_time w' = at_us 5040000" "enable_avc w'"
proof -
  let ?w = "example_worker\<lparr>last_drop := False, last_time := at_us 5040000\<rparr>"
  obtain msg w' where m: "send_frame example_sdk 1 example_screen ?w = Inr (True, Some msg, w')"
    by (rule send_frame_returns [OF example_sdk_ok, of 1 ?w example_screen]) simp_all
  have "\<not> too_soon (at_us 5040000) (at_us 5000000)" by (simp add: too_soon_iff)
  then show thesis using m send_frame_keeps [OF m]
    by (intro that [of msg w']) (simp_all add: red_marshall_stream_h264_data_def)
qed



text \<open>
  C12: the frame rate is bounded. Whatever drawing commands, idle turns and switches of the mode happen, as long as the clock does not
  go back, any two frames sent one after the other, to whichever clients, are more than 33 ms apart, and so is the first from the last one sent before.
\<close>

theorem h264_frame_rate:
  assumes "run_ops (h264_step lib fuel) evs w = Inr (outs, w')" "rated (last_time w) (concat (map event_times evs))"
  shows "successively (\<lambda>s t. us s + 33000 < us t) (last_time w # map fst (concat outs))"
  using run_sends [OF assms(1), of "[]"] assms(2) by (simp add: sends_ok_def spaced_def)

theorem h264_frame_rate_witness:
  "\<exists>msg w'. run_ops (h264_step example_sdk 1) [Draw 1 (at_us 5040000) example_screen, Draw 1 (at_us 5050000) example_screen] example_worker =
      Inr ([[(at_us 5040000, 1, msg)], []], w') \<and>
    successively (\<lambda>s t. us s + 33000 < us t) (at_us 5000000 # map fst (concat [[(at_us 5040000, 1 :: nat, msg)], []]))"
proof -
  obtain msg w1 where m: "red_marshall_stream_h264_data example_sdk 1 (Some (at_us 5040000)) example_screen example_worker = Inr (True, Some msg, w1)"
    "last_time w1 = at_us 5040000" "enable_avc w1" by (rule example_sent)
  have "too_soon (at_us 5050000) (last_time w1)" by (simp add: too_soon_iff m(2))
  then have r: "run_ops (h264_step example_sdk 1) [Draw 1 (at_us 5040000) example_screen, Draw 1 (at_us 5050000) example_screen] example_worker =
      Inr ([[(at_us 5040000, 1, msg)], []], w1\<lparr>last_drop := True\<rparr>)"
    using m by (simp add: h264_step_def marshall_qxl_drawable_def red_marshall_stream_h264_data_def [of _ _ _ _ w1])
  from h264_frame_rate [OF r] show ?thesis using r by (intro exI conjI) (simp_all add: rated_def del: run_ops.simps)
qed

text \<open>A new client finds the encoder closed, and the clock reset so that its first frame is not dropped.\<close>

lemma new_client_resets:
  assumes "enc_ok lo (w_enc w)"
  shows "\<exists>w'. h264_new_client lib w = Inr w' \<and> enc_ctx (w_enc w') = None \<and> \<not> last_drop w' \<and> (2 \<le> tv_sec t \<longrightarrow> \<not> too_soon t (last_time w'))"
proof (cases "enc_ctx (w_enc w)")
  case (Some c)
  then obtain ms ms' where "ctx_for lo (last_width (w_enc w)) (last_height (w_enc w)) c" "mfxResponseVPPIn c = Val ms" "mfxResponseVPPOutEnc c = Val ms'"
    using assms by (auto simp: enc_ok_def ctx_for_def)
  from fini_ctx_for [OF this] Some show ?thesis by (simp add: h264_new_client_def too_soon_def)
qed (simp add: h264_new_client_def too_soon_def)


section \<open>Dropped frames\<close>

lemma idle_due:
  assumes "running w" "last_drop w" "enable_avc w" "valid_time t" "valid_time (last_time w)" "us (last_time w) + 1000000 \<le> us t"
  shows "insert_if_idle lib fuel True (Some t) scr clients w = insert_h264_frame lib fuel scr clients w"
proof -
  have "tv_sec (last_time w) + 2 \<le> tv_sec t \<or> (tv_sec t = tv_sec (last_time w) + 1 \<and> tv_usec (last_time w) \<le> tv_usec t)"
    using assms(4-6) unfolding us_def valid_time_def by linarith
  then show ?thesis using assms(1-3) by (auto simp: insert_if_idle_def)
qed

lemma late_not_too_soon: "valid_time t \<Longrightarrow> valid_time prev \<Longrightarrow> us prev + 33000 < us t \<Longrightarrow> \<not> too_soon t prev"
  by (simp add: too_soon_iff)



text \<open>Frames after the first of an insertion.\<close>

lemma insert_all_dropped:
  "\<forall>(rcc, t) \<in> set clients. too_soon t (last_time w) \<Longrightarrow>
    insert_h264_frame lib fuel scr clients w = Inr ([], if clients = [] then w else w\<lparr>last_drop := True\<rparr>)"
  by (induction clients arbitrary: w) (auto simp: red_marshall_stream_h264_data_def)

text \<open>
  Only the first client gets the frame of an insertion. The time of the last frame is kept for all clients of the worker together: when the frame for the first is sent and
  the others are served within 33 ms, their frames are dropped, and the worker is left owing a frame, so that
  the same happens again a second later.
\<close>

theorem h264_other_clients_starve:
  assumes "insert_h264_frame lib fuel scr ((rcc, t) # clients) w = Inr (sent, w')" "\<not> too_soon t (last_time w)" "clients \<noteq> []"
    and "\<forall>(r, t') \<in> set clients. valid_time t' \<and> us t \<le> us t' \<and> us t' \<le> us t + 33000" "valid_time t"
  shows "\<exists>msg. sent = [(t, rcc, msg)] \<and> last_drop w' \<and> last_time w' = t"
proof -
  obtain m w1 sent1 where m: "red_marshall_stream_h264_data lib fuel (Some t) scr w = Inr (True, m, w1)"
    "insert_h264_frame lib fuel scr clients w1 = Inr (sent1, w')" "sent = (case m of None \<Rightarrow> [] | Some msg \<Rightarrow> [(t, rcc, msg)]) @ sent1"
    using assms(1) by auto
  from m(1) have w1: "last_time w1 = t" "m \<noteq> None" by (cases rule: marshall_cases; use assms(2) in simp)+
  have "\<forall>(r, t') \<in> set clients. too_soon t' (last_time w1)" using assms(4,5) w1(1) by (auto simp: too_soon_iff)
  from insert_all_dropped [OF this] m(2) have "sent1 = []" "w' = w1\<lparr>last_drop := True\<rparr>" using assms(3) by simp_all
  then show ?thesis using m(3) w1 by auto
qed

theorem h264_other_clients_starve_witness:
  "\<exists>msg w'. insert_h264_frame example_sdk 1 example_screen [(1, at_us 5040000), (2, at_us 5040100)] example_worker = Inr ([(at_us 5040000, 1, msg)], w') \<and>
    last_drop w'"
proof -
  obtain msg w1 where m: "red_marshall_stream_h264_data example_sdk 1 (Some (at_us 5040000)) example_screen example_worker = Inr (True, Some msg, w1)"
    "last_time w1 = at_us 5040000" by (rule example_sent)
  have "insert_h264_frame example_sdk 1 example_screen [(2, at_us 5040100)] w1 = Inr ([], w1\<lparr>last_drop := True\<rparr>)"
    using insert_all_dropped [of "[(2, at_us 5040100)]" w1] by (simp add: m(2) too_soon_iff)
  then have i: "insert_h264_frame example_sdk 1 example_screen [(1, at_us 5040000), (2, at_us 5040100)] example_worker =
      Inr ([(at_us 5040000, 1, msg)], w1\<lparr>last_drop := True\<rparr>)"
    using m(1) by simp
  have "\<exists>msg'. [(at_us 5040000, 1, msg)] = [(at_us 5040000, 1 :: nat, msg')] \<and> last_drop (w1\<lparr>last_drop := True\<rparr>) \<and>
      last_time (w1\<lparr>last_drop := True\<rparr>) = at_us 5040000"
    by (rule h264_other_clients_starve [OF i]) (simp_all add: too_soon_iff)
  then show ?thesis using i by blast
qed

text \<open>
  An error of the encoder is taken for success. When all calls of the SDK succeed except that of the encoder, \<open>h264_qsv_encoder_encode\<close> still returns
  \<open>MFX_ERR_NONE\<close> without having set the frame, and the pointer and the size that are put in the message were never set.
\<close>

theorem h264_failed_frame_unset:
  assumes "sdk_allocates lib" "sdk_succeeds True held busy lib" "busy < fuel" "enc_ok (Suc held) (w_enc w)" "screen_ok scr"
    and "\<not> too_soon t (last_time w)"
  shows "red_marshall_stream_h264_data lib fuel (Some t) scr w = Inl Uninit"
proof -
  have "wp True (h264_qsv_encoder_encode lib fuel (scr_width scr) (scr_height scr) (rgb_data scr))
      (encoded True True (Suc held) lib (scr_width scr) (scr_height scr) (rgb_data scr) (calls (w_enc w))) (w_enc w)"
    using wp_encode [of lib True True held busy fuel "w_enc w" "scr_width scr" "scr_height scr" "rgb_data scr"] assms length_rgb_data [of scr]
    by (simp add: least_def screen_ok_def)
  from wp_strictD [OF this] obtain enc where
    "h264_qsv_encoder_encode lib fuel (scr_width scr) (scr_height scr) (rgb_data scr) (w_enc w) = Inr (Inr Indet, enc)"
    using encodedD by blast
  moreover have "scr_stride scr < 0" using assms(5) by (simp add: screen_ok_def)
  ultimately show ?thesis using assms(6) by (simp add: red_marshall_stream_h264_data_def send_frame_def)
qed

theorem h264_failed_frame_unset_witness:
  "red_marshall_stream_h264_data failing_sdk 1 (Some (at_us 5040000)) example_screen example_worker = Inl Uninit"
proof (rule h264_failed_frame_unset [where held = 0 and busy = 0])
  show "sdk_allocates failing_sdk" using example_sdk_ok(1) by (auto simp: sdk_allocates_def failing_sdk_def)
  show "sdk_succeeds True 0 0 failing_sdk" by (auto simp: sdk_succeeds_def failing_sdk_def example_sdk_def)
qed (simp_all add: too_soon_iff)

end
