(* ===== verification/Pixman_Ops.thy ===== *)
theory Pixman_Ops
  imports Pixman_Image
begin

text \<open>
  The drawing primitives of spice-common/common/pixman_utils.c: raster operations on lines of
  pixels, filling and tiling a rectangle, copying one between images with and without a raster operation or a
  transparent colour, and copying within an image. Images are in byte memory; \<open>int\<close> values are
  unbounded here, since image sizes keep every offset far below the range of the C type. Calls into the pixman
  library that may do the work (\<open>pixman_fill\<close>, \<open>pixman_blt\<close>) are arguments: they give back the memory
  they leave, or None when they decline.
\<close>

section \<open>Raster operations\<close>

datatype rop2 = ROP_clear | ROP_and | ROP_and_reverse | ROP_copy | ROP_and_inverted | ROP_noop | ROP_xor | ROP_or
  | ROP_nor | ROP_equiv | ROP_invert | ROP_or_reverse | ROP_copy_inverted | ROP_or_inverted | ROP_nand | ROP_set

fun rop2_equation :: "rop2 \<Rightarrow> 'w::len word \<Rightarrow> 'w word \<Rightarrow> 'w word" where
  "rop2_equation ROP_clear src dst = 0x0"
| "rop2_equation ROP_and src dst = src AND dst"
| "rop2_equation ROP_and_reverse src dst = src AND NOT dst"
| "rop2_equation ROP_copy src dst = src"
| "rop2_equation ROP_and_inverted src dst = NOT src AND dst"
| "rop2_equation ROP_noop src dst = dst"
| "rop2_equation ROP_xor src dst = src XOR dst"
| "rop2_equation ROP_or src dst = src OR dst"
| "rop2_equation ROP_nor src dst = NOT src AND NOT dst"
| "rop2_equation ROP_equiv src dst = NOT src XOR dst"
| "rop2_equation ROP_invert src dst = NOT dst"
| "rop2_equation ROP_or_reverse src dst = src OR NOT dst"
| "rop2_equation ROP_copy_inverted src dst = NOT src"
| "rop2_equation ROP_or_inverted src dst = NOT src OR dst"
| "rop2_equation ROP_nand src dst = NOT src OR NOT dst"
| "rop2_equation ROP_set src dst = 0xffffffff"

text \<open>The rows of \<open>ROP_TABLE\<close>: the three tables list the operations in the order of \<open>SpiceROP\<close>.\<close>

definition solid_rops :: "rop2 list" where
  "solid_rops = [ROP_clear, ROP_and, ROP_and_reverse, ROP_copy, ROP_and_inverted, ROP_noop, ROP_xor, ROP_or,
     ROP_nor, ROP_equiv, ROP_invert, ROP_or_reverse, ROP_copy_inverted, ROP_or_inverted, ROP_nand, ROP_set]"

definition tiled_rops :: "rop2 list" where
  "tiled_rops = [ROP_clear, ROP_and, ROP_and_reverse, ROP_copy, ROP_and_inverted, ROP_noop, ROP_xor, ROP_or,
     ROP_nor, ROP_equiv, ROP_invert, ROP_or_reverse, ROP_copy_inverted, ROP_or_inverted, ROP_nand, ROP_set]"

definition copy_rops :: "rop2 list" where
  "copy_rops = [ROP_clear, ROP_and, ROP_and_reverse, ROP_copy, ROP_and_inverted, ROP_noop, ROP_xor, ROP_or,
     ROP_nor, ROP_equiv, ROP_invert, ROP_or_reverse, ROP_copy_inverted, ROP_or_inverted, ROP_nand, ROP_set]"

definition solid_rop :: "rop2 \<Rightarrow> int \<Rightarrow> nat \<Rightarrow> 'w::len word \<Rightarrow> mem \<Rightarrow> mem" where
  "solid_rop r ptr len src = line_loop (\<lambda>m _ dst. rop2_equation r src dst) id len ptr ()"

definition tile_step :: "'w::len itself \<Rightarrow> int \<Rightarrow> int \<Rightarrow> int \<Rightarrow> int" where
  "tile_step w tile_end tile_width tile =
     (let tile = tile + sizeof w in if tile = tile_end then tile - tile_width * sizeof w else tile)"

definition tile_advance :: "'w::len itself \<Rightarrow> int \<Rightarrow> int \<times> int \<Rightarrow> int \<times> int" where
  "tile_advance w tile_width = (\<lambda>(tile, tile_end). (tile_step w tile_end tile_width tile, tile_end))"

definition tiled_rop :: "'w::len itself \<Rightarrow> rop2 \<Rightarrow> int \<Rightarrow> nat \<Rightarrow> int \<Rightarrow> int \<Rightarrow> int \<Rightarrow> mem \<Rightarrow> mem" where
  "tiled_rop w r ptr len tile tile_end tile_width =
     line_loop (\<lambda>m t (dst :: 'w word). rop2_equation r (load m (fst t)) dst)
       (tile_advance w tile_width) len ptr (tile, tile_end)"

definition copy_rop :: "'w::len itself \<Rightarrow> rop2 \<Rightarrow> int \<Rightarrow> int \<Rightarrow> nat \<Rightarrow> mem \<Rightarrow> mem" where
  "copy_rop w r ptr src_line len =
     line_loop (\<lambda>m src (dst :: 'w word). rop2_equation r (load m src) dst) (\<lambda>src. src + sizeof w) len ptr src_line"


section \<open>Filling a rectangle\<close>

definition rect_inside :: "pixman_image \<Rightarrow> int \<Rightarrow> int \<Rightarrow> int \<Rightarrow> int \<Rightarrow> bool" where
  "rect_inside d x y width height \<longleftrightarrow> x \<ge> 0 \<and> y \<ge> 0 \<and> width > 0 \<and> height > 0 \<and>
     x + width \<le> img_width d \<and> y + height \<le> img_height d"

text \<open>The address of pixel (x, y) in an image of \<open>'w\<close>-bit pixels.\<close>

definition pixel_at :: "'w::len itself \<Rightarrow> pixman_image \<Rightarrow> int \<Rightarrow> int \<Rightarrow> int" where
  "pixel_at w d x y = img_data d + img_stride d * y + x * sizeof w"

text \<open>
  The six loops of \<open>spice_pixman_fill_rect\<close> over one line. Each writes an object of 1, 2 or 4 bytes
  while enough of the line is left (\<open>w\<close>) and, in the first three, the pointer \<open>d\<close> is not yet aligned.
\<close>

function fill_run :: "'w::len itself \<Rightarrow> u32 \<Rightarrow> (int \<Rightarrow> bool) \<Rightarrow> int \<Rightarrow> int \<Rightarrow> mem \<Rightarrow> int \<times> int \<times> mem" where
  "fill_run t value unaligned w d m =
     (if 0 < sizeof t \<and> w \<ge> sizeof t \<and> unaligned d
      then fill_run t value unaligned (w - sizeof t) (d + sizeof t) (store m d (ucast value :: 'w word))
      else (w, d, m))"
  by pat_completeness auto
termination
  by (relation "measure (\<lambda>(t, v, u, w, d, m). nat w)") auto

declare fill_run.simps [simp del]

definition fill_line :: "u32 \<Rightarrow> int \<Rightarrow> int \<Rightarrow> mem \<Rightarrow> mem" where
  "fill_line value byte_width byte_line m =
     (let (w, d, m) = fill_run TYPE(8) value (\<lambda>d. d mod 2 \<noteq> 0) byte_width byte_line m;
          (w, d, m) = fill_run TYPE(16) value (\<lambda>d. d mod 4 \<noteq> 0) w d m;
          (w, d, m) = fill_run TYPE(32) value (\<lambda>d. d mod 8 \<noteq> 0) w d m;
          (w, d, m) = fill_run TYPE(32) value (\<lambda>_. True) w d m;
          (w, d, m) = fill_run TYPE(16) value (\<lambda>_. True) w d m;
          (w, d, m) = fill_run TYPE(8) value (\<lambda>_. True) w d m
      in m)"

definition fill_rows :: "pixman_image \<Rightarrow> int \<Rightarrow> u32 \<Rightarrow> int \<Rightarrow> int \<Rightarrow> mem \<Rightarrow> mem" where
  "fill_rows d height value byte_width byte_line =
     rows (\<lambda>line _. fill_line value byte_width line) id (img_stride d) (nat height) byte_line ()"

type_synonym pixman_fill_fn = "int \<Rightarrow> int \<Rightarrow> int \<Rightarrow> int \<Rightarrow> int \<Rightarrow> int \<Rightarrow> int \<Rightarrow> u32 \<Rightarrow> mem \<Rightarrow> mem option"

definition spice_pixman_fill_rect :: "pixman_fill_fn \<Rightarrow> pixman_image \<Rightarrow> int \<Rightarrow> int \<Rightarrow> int \<Rightarrow> int \<Rightarrow> u32 \<Rightarrow> mem \<Rightarrow> mem res" where
  "spice_pixman_fill_rect pixman_fill d x y width height value m =
     (let depth = spice_pixman_image_get_bpp d in
      spice_assert (rect_inside d x y width height)
        (case pixman_fill (img_data d) (img_stride d sdiv 4) depth x y width height value m of
           Some m' \<Rightarrow> Inr m'
         | None \<Rightarrow>
             if depth = 8
             then Inr (fill_rows d height ((value AND 0xff) * 0x01010101) width (pixel_at TYPE(8) d x y) m)
             else if depth = 16
             then Inr (fill_rows d height ((value AND 0xffff) * 0x00010001) (2 * width) (pixel_at TYPE(16) d x y) m)
             else spice_assert (depth = 32)
               (Inr (fill_rows d height value (4 * width) (pixel_at TYPE(32) d x y) m))))"

definition solid_rows :: "'w::len itself \<Rightarrow> rop2 \<Rightarrow> pixman_image \<Rightarrow> int \<Rightarrow> int \<Rightarrow> int \<Rightarrow> int \<Rightarrow> u32 \<Rightarrow> mem \<Rightarrow> mem" where
  "solid_rows w r d x y width height value =
     rows (\<lambda>line _. solid_rop r line (nat width) (ucast value :: 'w word)) id (img_stride d) (nat height) (pixel_at w d x y) ()"

definition spice_pixman_fill_rect_rop :: "pixman_image \<Rightarrow> int \<Rightarrow> int \<Rightarrow> int \<Rightarrow> int \<Rightarrow> u32 \<Rightarrow> nat \<Rightarrow> mem \<Rightarrow> mem res" where
  "spice_pixman_fill_rect_rop d x y width height value rop m =
     (let depth = spice_pixman_image_get_bpp d in
      spice_assert (rect_inside d x y width height) (spice_assert (rop < 16)
        (rbind (index_list solid_rops (int rop)) (\<lambda>r. Inr
          (if depth = 8 then solid_rows TYPE(8) r d x y width height value m
           else if depth = 16 then solid_rows TYPE(16) r d x y width height value m
           else solid_rows TYPE(32) r d x y width height value m)))))"


section \<open>Tiling a rectangle\<close>

text \<open>\<open>(x - offset) % size\<close> made non-negative, as \<open>tile_start_x\<close> and \<open>tile_start_y\<close> are computed.\<close>

definition tile_start :: "int \<Rightarrow> int \<Rightarrow> int \<Rightarrow> int res" where
  "tile_start x offset sz =
     (if sz = 0 then Inl DivByZero
      else let t = (x - offset) smod sz in Inr (if t < 0 then t + sz else t))"

definition tile_next_line :: "pixman_image \<Rightarrow> int \<times> int \<Rightarrow> int \<times> int" where
  "tile_next_line t = (\<lambda>(tile_line, tile_start_y).
     if tile_start_y + 1 = img_height t then (tile_line + img_stride t - img_height t * img_stride t, 0)
     else (tile_line + img_stride t, tile_start_y + 1))"

definition tiled_rows :: "'w::len itself \<Rightarrow> rop2 \<Rightarrow> pixman_image \<Rightarrow> int \<Rightarrow> int \<Rightarrow> int \<Rightarrow> int \<Rightarrow> pixman_image \<Rightarrow> int \<Rightarrow> int \<Rightarrow>
    mem \<Rightarrow> mem" where
  "tiled_rows w r d x y width height t tile_start_x tile_start_y =
     (let tile_end_dx = img_width t - tile_start_x in
      rows (\<lambda>line (tile_line, _). tiled_rop w r line (nat width) tile_line (tile_line + tile_end_dx * sizeof w) (img_width t))
        (tile_next_line t) (img_stride d) (nat height) (pixel_at w d x y)
        (img_data t + img_stride t * tile_start_y + tile_start_x * sizeof w, tile_start_y))"

definition tile_by_depth :: "rop2 \<Rightarrow> pixman_image \<Rightarrow> int \<Rightarrow> int \<Rightarrow> int \<Rightarrow> int \<Rightarrow> pixman_image \<Rightarrow> int \<Rightarrow> int \<Rightarrow> mem \<Rightarrow> mem res" where
  "tile_by_depth r d x y width height t offset_x offset_y m =
     (let depth = spice_pixman_image_get_bpp d in
      rbind (tile_start x offset_x (img_width t)) (\<lambda>tx.
      rbind (tile_start y offset_y (img_height t)) (\<lambda>ty.
        if depth = 8 then Inr (tiled_rows TYPE(8) r d x y width height t tx ty m)
        else if depth = 16 then Inr (tiled_rows TYPE(16) r d x y width height t tx ty m)
        else spice_assert (depth = 32) (Inr (tiled_rows TYPE(32) r d x y width height t tx ty m)))))"

definition spice_pixman_tile_rect :: "pixman_image \<Rightarrow> int \<Rightarrow> int \<Rightarrow> int \<Rightarrow> int \<Rightarrow> pixman_image \<Rightarrow> int \<Rightarrow> int \<Rightarrow> mem \<Rightarrow> mem res" where
  "spice_pixman_tile_rect d x y width height t offset_x offset_y m =
     spice_assert (rect_inside d x y width height)
       (spice_assert (spice_pixman_image_get_bpp d = spice_pixman_image_get_bpp t)
         (tile_by_depth ROP_copy d x y width height t offset_x offset_y m))"

definition spice_pixman_tile_rect_rop :: "pixman_image \<Rightarrow> int \<Rightarrow> int \<Rightarrow> int \<Rightarrow> int \<Rightarrow> pixman_image \<Rightarrow> int \<Rightarrow> int \<Rightarrow> nat \<Rightarrow>
    mem \<Rightarrow> mem res" where
  "spice_pixman_tile_rect_rop d x y width height t offset_x offset_y rop m =
     spice_assert (rect_inside d x y width height) (spice_assert (rop < 16)
       (spice_assert (spice_pixman_image_get_bpp d = spice_pixman_image_get_bpp t)
         (rbind (index_list tiled_rops (int rop)) (\<lambda>r.
           tile_by_depth r d x y width height t offset_x offset_y m))))"


section \<open>Copying between images\<close>

text \<open>\<open>memcpy\<close> and \<open>memmove\<close>; a negative size is a huge one as \<open>size_t\<close>, and a memcpy between overlapping
  regions is undefined.\<close>

definition copy_bytes :: "int \<Rightarrow> int \<Rightarrow> int \<Rightarrow> mem \<Rightarrow> mem" where
  "copy_bytes dest src n m = (\<lambda>x. if dest \<le> x \<and> x < dest + n then m (src + (x - dest)) else m x)"

definition memmove :: "int \<Rightarrow> int \<Rightarrow> int \<Rightarrow> mem \<Rightarrow> mem res" where
  "memmove dest src n m = (if n < 0 then Inl OutOfBounds else Inr (copy_bytes dest src n m))"

definition memcpy :: "int \<Rightarrow> int \<Rightarrow> int \<Rightarrow> mem \<Rightarrow> mem res" where
  "memcpy dest src n m =
     (if n < 0 then Inl OutOfBounds
      else if dest < src + n \<and> src < dest + n then Inl Overlap
      else Inr (copy_bytes dest src n m))"

text \<open>The clipping of a copy against the source image, the same in the three functions that do it.\<close>

definition clip_source :: "pixman_image \<Rightarrow> int \<Rightarrow> int \<Rightarrow> int \<Rightarrow> int \<Rightarrow> int \<Rightarrow> int \<Rightarrow> int \<times> int \<times> int \<times> int \<times> int \<times> int" where
  "clip_source s src_x src_y dest_x dest_y width height =
     (let (width, dest_x, src_x) = (if src_x < 0 then (width + src_x, dest_x - src_x, 0) else (width, dest_x, src_x));
          (height, dest_y, src_y) = (if src_y < 0 then (height + src_y, dest_y - src_y, 0) else (height, dest_y, src_y));
          width = (if src_x + width > img_width s then img_width s - src_x else width);
          height = (if src_y + height > img_height s then img_height s - src_y else height)
      in (src_x, src_y, dest_x, dest_y, width, height))"

definition blit_asserts :: "pixman_image \<Rightarrow> pixman_image \<Rightarrow> int \<Rightarrow> int \<Rightarrow> int \<Rightarrow> int \<Rightarrow> int \<Rightarrow> int \<Rightarrow> bool" where
  "blit_asserts d s src_x src_y dest_x dest_y width height \<longleftrightarrow>
     rect_inside d dest_x dest_y width height \<and> rect_inside s src_x src_y width height \<and>
     spice_pixman_image_get_bpp d = spice_pixman_image_get_bpp s"

type_synonym pixman_blt_fn = "int \<Rightarrow> int \<Rightarrow> int \<Rightarrow> int \<Rightarrow> int \<Rightarrow> int \<Rightarrow> int \<Rightarrow> int \<Rightarrow> int \<Rightarrow> int \<Rightarrow> int \<Rightarrow> int \<Rightarrow> mem \<Rightarrow> mem option"

fun memcpy_rows :: "int \<Rightarrow> int \<Rightarrow> int \<Rightarrow> nat \<Rightarrow> int \<Rightarrow> int \<Rightarrow> mem \<Rightarrow> mem res" where
  "memcpy_rows stride src_stride byte_width 0 byte_line src_line m = Inr m"
| "memcpy_rows stride src_stride byte_width (Suc h) byte_line src_line m =
     rbind (memcpy byte_line src_line byte_width m)
       (memcpy_rows stride src_stride byte_width h (byte_line + stride) (src_line + src_stride))"

definition blit_rows :: "'w::len itself \<Rightarrow> pixman_image \<Rightarrow> pixman_image \<Rightarrow> int \<Rightarrow> int \<Rightarrow> int \<Rightarrow> int \<Rightarrow> int \<Rightarrow> int \<Rightarrow> mem \<Rightarrow> mem res" where
  "blit_rows w d s src_x src_y dest_x dest_y width height =
     memcpy_rows (img_stride d) (img_stride s) (width * sizeof w) (nat height) (pixel_at w d dest_x dest_y) (pixel_at w s src_x src_y)"

definition spice_pixman_blit :: "pixman_blt_fn \<Rightarrow> pixman_image \<Rightarrow> pixman_image option \<Rightarrow> int \<Rightarrow> int \<Rightarrow> int \<Rightarrow> int \<Rightarrow> int \<Rightarrow> int \<Rightarrow>
    mem \<Rightarrow> mem res" where
  "spice_pixman_blit pixman_blt d src src_x src_y dest_x dest_y width height m =
     (case src of None \<Rightarrow> Inr m
      | Some s \<Rightarrow>
        (let depth = spice_pixman_image_get_bpp d;
             (src_x, src_y, dest_x, dest_y, width, height) = clip_source s src_x src_y dest_x dest_y width height in
         if width \<le> 0 \<or> height \<le> 0 then Inr m
         else spice_assert (blit_asserts d s src_x src_y dest_x dest_y width height)
           (case pixman_blt (img_data s) (img_data d) (img_stride s sdiv 4) (img_stride d sdiv 4) depth depth
                   src_x src_y dest_x dest_y width height m of
              Some m' \<Rightarrow> Inr m'
            | None \<Rightarrow>
                if depth = 8 then blit_rows TYPE(8) d s src_x src_y dest_x dest_y width height m
                else if depth = 16 then blit_rows TYPE(16) d s src_x src_y dest_x dest_y width height m
                else spice_assert (depth = 32) (blit_rows TYPE(32) d s src_x src_y dest_x dest_y width height m))))"

definition copy_rop_rows :: "'w::len itself \<Rightarrow> rop2 \<Rightarrow> pixman_image \<Rightarrow> pixman_image \<Rightarrow> int \<Rightarrow> int \<Rightarrow> int \<Rightarrow> int \<Rightarrow> int \<Rightarrow> int \<Rightarrow> mem \<Rightarrow> mem" where
  "copy_rop_rows w r d s src_x src_y dest_x dest_y width height =
     rows (\<lambda>line src_line. copy_rop w r line src_line (nat width)) (\<lambda>l. l + img_stride s) (img_stride d) (nat height)
       (pixel_at w d dest_x dest_y) (pixel_at w s src_x src_y)"

text \<open>Unlike the functions above, \<open>spice_pixman_blit_rop\<close> does not check the operation before it indexes the table.\<close>

definition spice_pixman_blit_rop :: "pixman_image \<Rightarrow> pixman_image \<Rightarrow> int \<Rightarrow> int \<Rightarrow> int \<Rightarrow> int \<Rightarrow> int \<Rightarrow> int \<Rightarrow> nat \<Rightarrow>
    mem \<Rightarrow> mem res" where
  "spice_pixman_blit_rop d s src_x src_y dest_x dest_y width height rop m =
     (let depth = spice_pixman_image_get_bpp d;
          (src_x, src_y, dest_x, dest_y, width, height) = clip_source s src_x src_y dest_x dest_y width height in
      if width \<le> 0 \<or> height \<le> 0 then Inr m
      else spice_assert (blit_asserts d s src_x src_y dest_x dest_y width height)
        (rbind (index_list copy_rops (int rop)) (\<lambda>r.
          if depth = 8 then Inr (copy_rop_rows TYPE(8) r d s src_x src_y dest_x dest_y width height m)
          else if depth = 16 then Inr (copy_rop_rows TYPE(16) r d s src_x src_y dest_x dest_y width height m)
          else spice_assert (depth = 32)
            (Inr (copy_rop_rows TYPE(32) r d s src_x src_y dest_x dest_y width height m)))))"

text \<open>
  The loop of \<open>spice_pixman_blit_colorkey\<close>: 8 and 16 bit pixels are compared with the
  truncated colour, 32 bit pixels without their top byte.
\<close>

definition key_mask :: "'w::len itself \<Rightarrow> 'w word" where
  "key_mask w = (if LENGTH('w) = 32 then 0xffffff else - 1)"

fun colorkey_line :: "'w::len itself \<Rightarrow> 'w word \<Rightarrow> nat \<Rightarrow> int \<Rightarrow> int \<Rightarrow> mem \<Rightarrow> mem" where
  "colorkey_line w key 0 d s m = m"
| "colorkey_line w key (Suc n) d s m =
     (let val = (load m s :: 'w word) in
      colorkey_line w key n (d + sizeof w) (s + sizeof w)
        (if key_mask w AND val \<noteq> key then store m d val else m))"

definition colorkey_rows :: "'w::len itself \<Rightarrow> u32 \<Rightarrow> pixman_image \<Rightarrow> pixman_image \<Rightarrow> int \<Rightarrow> int \<Rightarrow> int \<Rightarrow> int \<Rightarrow> int \<Rightarrow> int \<Rightarrow> mem \<Rightarrow> mem" where
  "colorkey_rows w color d s src_x src_y dest_x dest_y width height =
     rows (\<lambda>line src_line. colorkey_line w (key_mask w AND ucast color) (nat width) line src_line)
       (\<lambda>l. l + img_stride s) (img_stride d) (nat height) (pixel_at w d dest_x dest_y) (pixel_at w s src_x src_y)"

definition spice_pixman_blit_colorkey :: "pixman_image \<Rightarrow> pixman_image \<Rightarrow> int \<Rightarrow> int \<Rightarrow> int \<Rightarrow> int \<Rightarrow> int \<Rightarrow> int \<Rightarrow> u32 \<Rightarrow>
    mem \<Rightarrow> mem res" where
  "spice_pixman_blit_colorkey d s src_x src_y dest_x dest_y width height transparent_color m =
     (let depth = spice_pixman_image_get_bpp d;
          (src_x, src_y, dest_x, dest_y, width, height) = clip_source s src_x src_y dest_x dest_y width height in
      if width \<le> 0 \<or> height \<le> 0 then Inr m
      else spice_assert (blit_asserts d s src_x src_y dest_x dest_y width height)
        (if depth = 8 then Inr (colorkey_rows TYPE(8) transparent_color d s src_x src_y dest_x dest_y width height m)
         else if depth = 16 then Inr (colorkey_rows TYPE(16) transparent_color d s src_x src_y dest_x dest_y width height m)
         else spice_assert (depth = 32)
           (Inr (colorkey_rows TYPE(32) transparent_color d s src_x src_y dest_x dest_y width height m))))"


section \<open>Copying within an image\<close>

text \<open>
  The loops \<open>for (; dest != end; dest += stride, src += stride)\<close>, with a step of \<open>- stride\<close> going
  down. The fuel bounds the number of lines: the loop ends only if \<open>end\<close> is met exactly.
\<close>

fun copy_lines :: "(int \<Rightarrow> int \<Rightarrow> int \<Rightarrow> mem \<Rightarrow> mem res) \<Rightarrow> nat \<Rightarrow> int \<Rightarrow> int \<Rightarrow> int \<Rightarrow> int \<Rightarrow> int \<Rightarrow> mem \<Rightarrow> mem res" where
  "copy_lines copy fuel step n stop dest src m =
     (if dest = stop then Inr m
      else case fuel of 0 \<Rightarrow> Inl NoFuel | Suc k \<Rightarrow>
        rbind (copy dest src n m) (copy_lines copy k step n stop (dest + step) (src + step)))"

declare copy_lines.simps [simp del]

definition copy_bits_up :: "nat \<Rightarrow> int \<Rightarrow> int \<Rightarrow> int \<Rightarrow> int \<Rightarrow> int \<Rightarrow> int \<Rightarrow> int \<Rightarrow> int \<Rightarrow> int \<Rightarrow> mem \<Rightarrow> mem res" where
  "copy_bits_up fuel data stride bpp src_x src_y width height dest_x dest_y =
     (let src = data + src_y * stride + src_x * bpp;
          dest = data + dest_y * stride + dest_x * bpp
      in copy_lines memcpy fuel stride (width * bpp) (dest + height * stride) dest src)"

definition copy_bits_down :: "nat \<Rightarrow> int \<Rightarrow> int \<Rightarrow> int \<Rightarrow> int \<Rightarrow> int \<Rightarrow> int \<Rightarrow> int \<Rightarrow> int \<Rightarrow> int \<Rightarrow> mem \<Rightarrow> mem res" where
  "copy_bits_down fuel data stride bpp src_x src_y width height dest_x dest_y =
     (let src = data + (src_y + height - 1) * stride + src_x * bpp;
          stop = data + (dest_y - 1) * stride + dest_x * bpp
      in copy_lines memcpy fuel (- stride) (width * bpp) stop (stop + height * stride) src)"

definition copy_bits_same_line :: "nat \<Rightarrow> int \<Rightarrow> int \<Rightarrow> int \<Rightarrow> int \<Rightarrow> int \<Rightarrow> int \<Rightarrow> int \<Rightarrow> int \<Rightarrow> int \<Rightarrow> mem \<Rightarrow> mem res" where
  "copy_bits_same_line fuel data stride bpp src_x src_y width height dest_x dest_y =
     (let src = data + src_y * stride + src_x * bpp;
          dest = data + dest_y * stride + dest_x * bpp
      in copy_lines memmove fuel stride (width * bpp) (dest + height * stride) dest src)"

definition spice_pixman_copy_rect :: "nat \<Rightarrow> pixman_image \<Rightarrow> int \<Rightarrow> int \<Rightarrow> int \<Rightarrow> int \<Rightarrow> int \<Rightarrow> int \<Rightarrow> mem \<Rightarrow> mem res" where
  "spice_pixman_copy_rect fuel d src_x src_y width height dest_x dest_y =
     (let bpp = spice_pixman_image_get_bpp d sdiv 8 in
      if dest_y > src_y then copy_bits_down fuel (img_data d) (img_stride d) bpp src_x src_y width height dest_x dest_y
      else if dest_y < src_y then copy_bits_up fuel (img_data d) (img_stride d) bpp src_x src_y width height dest_x dest_y
      else copy_bits_same_line fuel (img_data d) (img_stride d) bpp src_x src_y width height dest_x dest_y)"

end
