(* ===== verification/Pixman_Pixels.thy ===== *)
theory Pixman_Pixels
  imports Pixman_Ops
begin

text \<open>
  What the drawing primitives leave in memory: every pixel of the destination rectangle, and nothing
  outside it. The interpretations of \<open>pixel_op\<close> carry the loops; the rest is the arithmetic of the rectangles.
\<close>

section \<open>Rectangles\<close>

text \<open>
  The memory \<open>m'\<close> is \<open>m\<close> with pixel (x + i, y + j) of the rectangle set to \<open>f i j\<close>, and unchanged elsewhere.
\<close>

definition drawn :: "'w::len itself \<Rightarrow> pixman_image \<Rightarrow> int \<Rightarrow> int \<Rightarrow> int \<Rightarrow> int \<Rightarrow> (int \<Rightarrow> int \<Rightarrow> 'w word) \<Rightarrow> mem \<Rightarrow> mem \<Rightarrow> bool" where
  "drawn w d x y width height f m m' \<longleftrightarrow>
     (\<forall>i j. 0 \<le> i \<and> i < width \<and> 0 \<le> j \<and> j < height \<longrightarrow> load m' (pixel_at w d (x + i) (y + j)) = f i j) \<and>
     (\<forall>a. (\<forall>j. 0 \<le> j \<and> j < height \<longrightarrow> a \<notin> {pixel_at w d x (y + j) ..< pixel_at w d (x + width) (y + j)}) \<longrightarrow> m' a = m a)"

text \<open>Lines of an image do not overlap, and every line holds the image's width.\<close>

definition lines_fit :: "'w::len itself \<Rightarrow> pixman_image \<Rightarrow> bool" where
  "lines_fit w d \<longleftrightarrow> img_width d * sizeof w \<le> \<bar>img_stride d\<bar>"

definition line_bytes :: "'w::len itself \<Rightarrow> pixman_image \<Rightarrow> int \<Rightarrow> int \<Rightarrow> int \<Rightarrow> int set" where
  "line_bytes w d x y width = {pixel_at w d x y ..< pixel_at w d (x + width) y}"

definition rect_bytes :: "'w::len itself \<Rightarrow> pixman_image \<Rightarrow> int \<Rightarrow> int \<Rightarrow> int \<Rightarrow> int \<Rightarrow> int set" where
  "rect_bytes w d x y width height = (\<Union>j\<in>{0..<height}. line_bytes w d x (y + j) width)"

lemma row_pixels:
  "0 \<le> width \<Longrightarrow> row (pixel_at w d x y) (img_stride d) (int (nat width) * sizeof w) k = line_bytes w d x (y + int k) width"
  by (simp add: row_def line_bytes_def pixel_at_def algebra_simps)

lemma rect_bytes_rows:
  "0 \<le> width \<Longrightarrow> k < nat height \<Longrightarrow> a \<in> row (pixel_at w d x y) (img_stride d) (int (nat width) * sizeof w) k \<Longrightarrow>
    a \<in> rect_bytes w d x y width height"
  unfolding row_pixels rect_bytes_def by (rule UN_I [of "int k"]) auto

lemma fits_width:
  assumes "lines_fit TYPE('w::len) d" "rect_inside d x y width height"
  shows "int (nat width) * sizeof TYPE('w) \<le> \<bar>img_stride d\<bar>"
proof -
  have "width * sizeof TYPE('w) \<le> img_width d * sizeof TYPE('w)"
    using assms(2) by (intro mult_right_mono) (auto simp: rect_inside_def sizeof_def)
  then show ?thesis using assms by (simp add: rect_inside_def lines_fit_def)
qed

context pixel_op
begin

lemma rows_drawn:
  assumes "rect_inside d x y width height" "lines_fit TYPE('w) d"
    and "\<And>k j. k < nat height \<Longrightarrow> j < nat width \<Longrightarrow>
      reads ((nxt ^^ j) (start ((rnxt ^^ k) b))) \<inter> rect_bytes TYPE('w) d x y width height = {}"
  shows "drawn TYPE('w) d x y width height
    (\<lambda>i j. g m ((nxt ^^ nat i) (start ((rnxt ^^ nat j) b))) (load m (pixel_at TYPE('w) d (x + i) (y + j)))) m
    (rows (\<lambda>l b. line_loop g nxt (nat width) l (start b)) rnxt (img_stride d) (nat height) (pixel_at TYPE('w) d x y) b m)"
proof -
  have pos: "0 \<le> width" using assms(1) by (simp add: rect_inside_def)
  have addr: "pixel_at TYPE('w) d (x + i) (y + j) = pixel_at TYPE('w) d x y + int (nat j) * img_stride d + int (nat i) * sizeof TYPE('w)"
    if "0 \<le> i" "0 \<le> j" for i j using that by (simp add: pixel_at_def algebra_simps)
  have ap: "a \<notin> row (pixel_at TYPE('w) d x y) (img_stride d) (int (nat width) * sizeof TYPE('w)) l"
    if "k < nat height" "j < nat width" "l < nat height" "a \<in> reads ((nxt ^^ j) (start ((rnxt ^^ k) b)))" for k j l a
    using assms(3) [OF that(1,2)] that(4) rect_bytes_rows [OF pos that(3)] by blast
  show ?thesis
    unfolding drawn_def
  proof (intro conjI allI impI)
    fix i j :: int assume "0 \<le> i \<and> i < width \<and> 0 \<le> j \<and> j < height"
    then have ij: "0 \<le> i" "0 \<le> j" "nat j < nat height" "nat i < nat width" by auto
    show "load (rows (\<lambda>l b. line_loop g nxt (nat width) l (start b)) rnxt (img_stride d) (nat height) (pixel_at TYPE('w) d x y) b m)
        (pixel_at TYPE('w) d (x + i) (y + j)) =
      g m ((nxt ^^ nat i) (start ((rnxt ^^ nat j) b))) (load m (pixel_at TYPE('w) d (x + i) (y + j)))"
      unfolding addr [OF ij(1,2)] by (rule rows_value [OF ij(3,4) fits_width [OF assms(2,1)] ap])
  next
    fix a assume a: "\<forall>j. 0 \<le> j \<and> j < height \<longrightarrow> a \<notin> {pixel_at TYPE('w) d x (y + j) ..< pixel_at TYPE('w) d (x + width) (y + j)}"
    have "a \<notin> row (pixel_at TYPE('w) d x y) (img_stride d) (int (nat width) * sizeof TYPE('w)) k" if "k < nat height" for k
      using a [rule_format, of "int k"] that unfolding row_pixels [OF pos] line_bytes_def by auto
    then show "rows (\<lambda>l b. line_loop g nxt (nat width) l (start b)) rnxt (img_stride d) (nat height) (pixel_at TYPE('w) d x y) b m a = m a"
      by (rule rows_frame)
  qed
qed

end

lemma drawn_cong:
  "drawn w d x y width height f m m' \<Longrightarrow> (\<And>i j. 0 \<le> i \<Longrightarrow> i < width \<Longrightarrow> 0 \<le> j \<Longrightarrow> j < height \<Longrightarrow> f i j = f' i j) \<Longrightarrow>
    drawn w d x y width height f' m m'"
  by (simp add: drawn_def)


section \<open>Operations on one pixel\<close>

lemma solid_pixel_op: "8 dvd LENGTH('w::len) \<Longrightarrow> pixel_op (\<lambda>m (_ :: unit) (dst :: 'w word). rop2_equation r src dst) (\<lambda>_. {})"
  by (simp add: pixel_op_def)

lemma copy_pixel_op:
  "8 dvd LENGTH('w::len) \<Longrightarrow>
    pixel_op (\<lambda>m a (dst :: 'w word). f (load m (ad a) :: 'w word) dst) (\<lambda>a. {ad a ..< ad a + sizeof TYPE('w)})"
  unfolding pixel_op_def by (auto intro!: arg_cong2 [of _ _ _ _ f] load_cong simp: sizeof_def)

interpretation solid8: pixel_op "\<lambda>m (_ :: unit) (dst :: u8). rop2_equation r src dst" "\<lambda>_. {}" for r src
  by (rule solid_pixel_op) simp

interpretation solid16: pixel_op "\<lambda>m (_ :: unit) (dst :: u16). rop2_equation r src dst" "\<lambda>_. {}" for r src
  by (rule solid_pixel_op) simp

interpretation solid32: pixel_op "\<lambda>m (_ :: unit) (dst :: u32). rop2_equation r src dst" "\<lambda>_. {}" for r src
  by (rule solid_pixel_op) simp

interpretation copy8: pixel_op "\<lambda>m a (dst :: u8). f (load m (ad a) :: u8) dst" "\<lambda>a. {ad a ..< ad a + sizeof TYPE(8)}" for f ad
  by (rule copy_pixel_op) simp

interpretation copy16: pixel_op "\<lambda>m a (dst :: u16). f (load m (ad a) :: u16) dst" "\<lambda>a. {ad a ..< ad a + sizeof TYPE(16)}" for f ad
  by (rule copy_pixel_op) simp

interpretation copy32: pixel_op "\<lambda>m a (dst :: u32). f (load m (ad a) :: u32) dst" "\<lambda>a. {ad a ..< ad a + sizeof TYPE(32)}" for f ad
  by (rule copy_pixel_op) simp


section \<open>Raster operations\<close>

lemma rop2_set_bits: "LENGTH('w::len) \<le> 32 \<Longrightarrow> (0xffffffff :: 'w word) = - 1"
proof -
  assume l: "LENGTH('w) \<le> 32"
  have "(0xffffffff :: 'w word) = mask 32" by (simp add: mask_eq_exp_minus_1)
  also have "\<dots> = - 1" by (rule bit_word_eqI) (use l in \<open>auto simp: bit_simps\<close>)
  finally show ?thesis .
qed

lemma solid_rops_truth:
  assumes "rop < 16" "LENGTH('w::len) \<le> 32" "n < LENGTH('w)"
  shows "bit (rop2_equation (solid_rops ! rop) (src :: 'w word) dst) n =
    bit rop (3 - 2 * of_bool (bit src n) - of_bool (bit dst n))"
proof -
  have "rop \<in> {0, 1, 2, 3, 4, 5, 6, 7, 8, 9, 10, 11, 12, 13, 14, 15}" using assms(1) by (rule less_16_cases)
  moreover have "bit (0xffffffff :: 'w word) n" using assms(3) unfolding rop2_set_bits [OF assms(2)] by simp
  ultimately show ?thesis using assms(3)
    by (elim insertE; cases "bit src n"; cases "bit dst n")
      (simp_all add: solid_rops_def bit_simps bit_nat_def)
qed

lemma rop_tables_same [simp]: "tiled_rops = solid_rops" "copy_rops = solid_rops"
  by (simp_all add: tiled_rops_def copy_rops_def solid_rops_def)

text \<open>
  The number of a raster operation is its truth table, as in X11. Bit by bit, operation k of each of
  the three tables computes bit 3 - 2 * source - destination of k.
\<close>

theorem rop2_tables_truth:
  fixes src dst :: u32
  assumes "rop < 16" "n < 32"
  shows "bit (rop2_equation (solid_rops ! rop) src dst) n = bit rop (3 - 2 * of_bool (bit src n) - of_bool (bit dst n))
    \<and> tiled_rops ! rop = solid_rops ! rop \<and> copy_rops ! rop = solid_rops ! rop"
  using solid_rops_truth [of rop n src dst] assms by simp

theorem rop2_tables_truth_witness:
  "bit (rop2_equation (solid_rops ! 6) (5 :: u32) 3) 2 = bit (6 :: nat) 1"
  using rop2_tables_truth [of 6 2 5 3] by (simp add: bit_numeral_rec)


section \<open>Filling and tiling with a raster operation\<close>

text \<open>An image of one of the three depths, with lines that do not overlap.\<close>

definition image_ok :: "pixman_image \<Rightarrow> bool" where
  "image_ok d \<longleftrightarrow> (spice_pixman_image_get_bpp d = 8 \<and> lines_fit TYPE(8) d \<or>
     spice_pixman_image_get_bpp d = 16 \<and> lines_fit TYPE(16) d \<or>
     spice_pixman_image_get_bpp d = 32 \<and> lines_fit TYPE(32) d)"

text \<open>
  The rectangle is drawn with pixels \<open>f8\<close>, \<open>f16\<close> or \<open>f32\<close> according to the depth of the image.
\<close>

definition drawn_depth :: "pixman_image \<Rightarrow> int \<Rightarrow> int \<Rightarrow> int \<Rightarrow> int \<Rightarrow> (int \<Rightarrow> int \<Rightarrow> u8) \<Rightarrow> (int \<Rightarrow> int \<Rightarrow> u16) \<Rightarrow> (int \<Rightarrow> int \<Rightarrow> u32) \<Rightarrow>
    mem \<Rightarrow> mem \<Rightarrow> bool" where
  "drawn_depth d x y width height f8 f16 f32 m m' \<longleftrightarrow>
     (spice_pixman_image_get_bpp d = 8 \<longrightarrow> drawn TYPE(8) d x y width height f8 m m') \<and>
     (spice_pixman_image_get_bpp d = 16 \<longrightarrow> drawn TYPE(16) d x y width height f16 m m') \<and>
     (spice_pixman_image_get_bpp d = 32 \<longrightarrow> drawn TYPE(32) d x y width height f32 m m')"

definition solid_pixel :: "'w::len itself \<Rightarrow> rop2 \<Rightarrow> u32 \<Rightarrow> pixman_image \<Rightarrow> int \<Rightarrow> int \<Rightarrow> mem \<Rightarrow> int \<Rightarrow> int \<Rightarrow> 'w word" where
  "solid_pixel w r value d x y m i j = rop2_equation r (ucast value) (load m (pixel_at w d (x + i) (y + j)))"

lemma solid_rows_drawn:
  assumes "rect_inside d x y width height"
  shows "lines_fit TYPE(8) d \<Longrightarrow> drawn TYPE(8) d x y width height (solid_pixel TYPE(8) r value d x y m) m (solid_rows TYPE(8) r d x y width height value m)"
    "lines_fit TYPE(16) d \<Longrightarrow> drawn TYPE(16) d x y width height (solid_pixel TYPE(16) r value d x y m) m (solid_rows TYPE(16) r d x y width height value m)"
    "lines_fit TYPE(32) d \<Longrightarrow> drawn TYPE(32) d x y width height (solid_pixel TYPE(32) r value d x y m) m (solid_rows TYPE(32) r d x y width height value m)"
  unfolding solid_rows_def solid_rop_def solid_pixel_def
  by (rule solid8.rows_drawn [OF assms] solid16.rows_drawn [OF assms] solid32.rows_drawn [OF assms]; simp)+

lemma solid_rops_length [simp]: "length solid_rops = 16"
  by (simp add: solid_rops_def)

text \<open>
  Filling a rectangle with a raster operation. For a rectangle inside an image of depth 8, 16 or 32
  and one of the 16 operations, \<open>spice_pixman_fill_rect_rop\<close> succeeds, combines every pixel of the rectangle
  with the truncated colour by that operation, and changes no other byte.
\<close>

theorem fill_rect_rop_pixels:
  assumes "image_ok d" "rect_inside d x y width height" "rop < 16"
  shows "\<exists>m'. spice_pixman_fill_rect_rop d x y width height value rop m = Inr m' \<and>
    drawn_depth d x y width height (solid_pixel TYPE(8) (solid_rops ! rop) value d x y m)
      (solid_pixel TYPE(16) (solid_rops ! rop) value d x y m) (solid_pixel TYPE(32) (solid_rops ! rop) value d x y m) m m'"
  using assms solid_rows_drawn [OF assms(2)]
  by (auto simp: spice_pixman_fill_rect_rop_def image_ok_def drawn_depth_def Let_def)

definition demo_img :: pixman_image where
  "demo_img = \<lparr>img_width = 4, img_height = 3, img_data = 0, img_stride = 8, img_depth = 16\<rparr>"

lemma demo_img_ok: "image_ok demo_img" "spice_pixman_image_get_bpp demo_img = 16"
  by (simp_all add: image_ok_def demo_img_def spice_pixman_image_get_bpp_def lines_fit_def)

theorem fill_rect_rop_pixels_witness:
  "\<exists>m'. spice_pixman_fill_rect_rop demo_img 1 1 2 2 5 6 (\<lambda>_. 0) = Inr m' \<and> load m' 12 = (5 :: u16) \<and> m' 0 = 0"
proof -
  have r: "rect_inside demo_img 1 1 2 2" by (simp add: rect_inside_def demo_img_def)
  obtain m' where m': "spice_pixman_fill_rect_rop demo_img 1 1 2 2 5 6 (\<lambda>_. 0) = Inr m'"
    "drawn TYPE(16) demo_img 1 1 2 2 (solid_pixel TYPE(16) (solid_rops ! 6) 5 demo_img 1 1 (\<lambda>_. 0)) (\<lambda>_. 0) m'"
    using fill_rect_rop_pixels [OF demo_img_ok(1) r, of 6 5 "\<lambda>_. 0"] by (auto simp: drawn_depth_def demo_img_ok)
  have "load m' 12 = (5 :: u16)"
    using m'(2) [unfolded drawn_def, THEN conjunct1, rule_format, of 1 0]
    by (simp add: solid_pixel_def pixel_at_def demo_img_def solid_rops_def)
  moreover have "m' 0 = 0"
    using m'(2) [unfolded drawn_def, THEN conjunct2, rule_format, of 0] by (simp add: pixel_at_def demo_img_def)
  ultimately show ?thesis using m'(1) by blast
qed

text \<open>The tile pointer goes round the lines and columns of the tile.\<close>

lemma mod_succ: "0 < n \<Longrightarrow> (a + 1) mod n = (if a mod n + 1 = n then 0 else a mod n + 1)" for a n :: int
  by (smt (verit, ccfv_SIG) mod_add_left_eq mod_pos_pos_trivial mod_self pos_mod_bound pos_mod_sign)

lemma tile_step_mod:
  assumes "0 < sizeof w" "0 < tw"
  shows "tile_step w (base + tw * sizeof w) tw (base + a mod tw * sizeof w) = base + (a + 1) mod tw * sizeof w"
proof -
  have "a mod tw * sizeof w + sizeof w = tw * sizeof w \<longleftrightarrow> a mod tw + 1 = tw"
    using assms(1) by (metis distrib_right mult_1 mult_right_cancel order_less_irrefl)
  then show ?thesis unfolding mod_succ [OF assms(2)] by (auto simp: tile_step_def Let_def distrib_right)
qed

lemma tile_steps:
  assumes "0 < sizeof w" "0 < tw"
  shows "(tile_advance w tw ^^ i) (base + a mod tw * sizeof w, base + tw * sizeof w) =
    (base + (a + int i) mod tw * sizeof w, base + tw * sizeof w)"
proof (induction i)
  case (Suc i)
  then show ?case using tile_step_mod [OF assms, of base "a + int i"] by (simp add: tile_advance_def algebra_simps)
qed simp

lemma tile_next_mod:
  assumes "0 < img_height t"
  shows "tile_next_line t (base + img_stride t * (a mod img_height t), a mod img_height t) =
    (base + img_stride t * ((a + 1) mod img_height t), (a + 1) mod img_height t)"
proof (cases "a mod img_height t + 1 = img_height t")
  case True
  then have "img_stride t * (a mod img_height t + 1) = img_stride t * img_height t" by simp
  then show ?thesis using True unfolding mod_succ [OF assms] by (simp add: tile_next_line_def algebra_simps)
next
  case False
  then show ?thesis unfolding mod_succ [OF assms] by (simp add: tile_next_line_def distrib_left)
qed

lemma tile_lines:
  assumes "0 < img_height t"
  shows "(tile_next_line t ^^ j) (base + img_stride t * (a mod img_height t), a mod img_height t) =
    (base + img_stride t * ((a + int j) mod img_height t), (a + int j) mod img_height t)"
proof (induction j)
  case (Suc j)
  then show ?case using tile_next_mod [OF assms, of base "a + int j"] by (simp add: algebra_simps)
qed simp

lemma tile_start_eq: "0 < sz \<Longrightarrow> tile_start x offset sz = Inr ((x - offset) mod sz)"
proof -
  assume sz: "0 < sz"
  have "(if a smod sz < 0 then a smod sz + sz else a smod sz) = a mod sz" for a
  proof (cases "0 \<le> a")
    case True
    then show ?thesis using sz pos_mod_sign [OF sz, of a] by (simp add: smod_nonneg not_less)
  next
    case False
    then have "a smod sz = - ((- a) mod sz)" using sz by (simp add: smod_int_alt_def)
    then show ?thesis using sz zmod_zminus1_eq_if [of a sz] pos_mod_bound [OF sz, of a] by auto
  qed
  then show ?thesis using sz by (simp add: tile_start_def Let_def)
qed

lemma pixel_in_rect:
  assumes "x \<le> u" "u < x + width" "y \<le> v" "v < y + height"
  shows "{pixel_at TYPE('w::len) t u v ..< pixel_at TYPE('w) t u v + sizeof TYPE('w)} \<subseteq> rect_bytes TYPE('w) t x y width height"
proof -
  have "x * sizeof TYPE('w) \<le> u * sizeof TYPE('w)" "(u + 1) * sizeof TYPE('w) \<le> (x + width) * sizeof TYPE('w)"
    using assms by (auto intro!: mult_right_mono simp: sizeof_def)
  then have "{pixel_at TYPE('w) t u v ..< pixel_at TYPE('w) t u v + sizeof TYPE('w)} \<subseteq> line_bytes TYPE('w) t x (y + (v - y)) width"
    by (auto simp: line_bytes_def pixel_at_def algebra_simps)
  then show ?thesis using assms unfolding rect_bytes_def by (intro subset_trans [OF _ UN_upper [of "v - y"]]) auto
qed

definition tile_pixel :: "'w::len itself \<Rightarrow> rop2 \<Rightarrow> pixman_image \<Rightarrow> int \<Rightarrow> int \<Rightarrow> pixman_image \<Rightarrow> int \<Rightarrow> int \<Rightarrow> mem \<Rightarrow> int \<Rightarrow> int \<Rightarrow> 'w word" where
  "tile_pixel w r t offset_x offset_y d x y m i j =
     rop2_equation r (load m (pixel_at w t ((x + i - offset_x) mod img_width t) ((y + j - offset_y) mod img_height t)))
       (load m (pixel_at w d (x + i) (y + j)))"

definition tile_ok :: "'w::len itself \<Rightarrow> pixman_image \<Rightarrow> int \<Rightarrow> int \<Rightarrow> int \<Rightarrow> int \<Rightarrow> pixman_image \<Rightarrow> bool" where
  "tile_ok w d x y width height t \<longleftrightarrow> 0 < img_width t \<and> 0 < img_height t \<and>
     rect_bytes w t 0 0 (img_width t) (img_height t) \<inter> rect_bytes w d x y width height = {}"

text \<open>Where the tile pointer stands after i pixels of line j, from column tx and line ty on.\<close>

definition tile_line_start :: "'w::len itself \<Rightarrow> pixman_image \<Rightarrow> int \<Rightarrow> int \<times> int \<Rightarrow> int \<times> int" where
  "tile_line_start w t tx = (\<lambda>(l, _). (l, l + (img_width t - tx) * sizeof w))"

definition tile_first :: "'w::len itself \<Rightarrow> pixman_image \<Rightarrow> int \<Rightarrow> int \<Rightarrow> int \<times> int" where
  "tile_first w t tx ty = (img_data t + img_stride t * ty + tx * sizeof w, ty)"

lemma tile_address:
  assumes "0 < sizeof w" "0 < img_width t" "0 < img_height t"
  shows "fst ((tile_advance w (img_width t) ^^ i) (tile_line_start w t (tx mod img_width t)
      ((tile_next_line t ^^ j) (tile_first w t (tx mod img_width t) (ty mod img_height t))))) =
    pixel_at w t ((tx + int i) mod img_width t) ((ty + int j) mod img_height t)"
proof -
  let ?b = "img_data t + tx mod img_width t * sizeof w" and ?v = "(ty + int j) mod img_height t"
  have "(tile_next_line t ^^ j) (tile_first w t (tx mod img_width t) (ty mod img_height t)) = (?b + img_stride t * ?v, ?v)"
    using tile_lines [OF assms(3), of j ?b ty] by (simp add: tile_first_def algebra_simps)
  moreover have "tile_line_start w t (tx mod img_width t) (?b + img_stride t * ?v, ?v) =
      (img_data t + img_stride t * ?v + tx mod img_width t * sizeof w, img_data t + img_stride t * ?v + img_width t * sizeof w)"
    by (simp add: tile_line_start_def algebra_simps)
  ultimately show ?thesis
    using tile_steps [OF assms(1,2), of i "img_data t + img_stride t * ?v" tx] by (simp add: pixel_at_def)
qed

lemma tiled_rows_drawn:
  assumes w: "8 dvd LENGTH('w::len)" and r: "rect_inside d x y width height" "lines_fit TYPE('w) d"
    and ok: "tile_ok TYPE('w) d x y width height t"
  shows "drawn TYPE('w) d x y width height (tile_pixel TYPE('w) r t ox oy d x y m) m
    (tiled_rows TYPE('w) r d x y width height t ((x - ox) mod img_width t) ((y - oy) mod img_height t) m)"
proof -
  let ?tx = "(x - ox) mod img_width t" and ?ty = "(y - oy) mod img_height t"
  have t: "0 < img_width t" "0 < img_height t" using ok by (auto simp: tile_ok_def)
  note ad = tile_address [OF sizeof_pos [OF w] t]
  have ap: "{pixel_at TYPE('w) t (u mod img_width t) (v mod img_height t) ..<
      pixel_at TYPE('w) t (u mod img_width t) (v mod img_height t) + sizeof TYPE('w)} \<inter> rect_bytes TYPE('w) d x y width height = {}" for u v
    using pixel_in_rect [of 0 "u mod img_width t" "img_width t" 0 "v mod img_height t" "img_height t" t, where 'w = 'w] t ok
    by (auto simp: tile_ok_def)
  note rd = pixel_op.rows_drawn [OF copy_pixel_op [OF w, of "rop2_equation r" "fst :: int \<times> int \<Rightarrow> int"] r,
    where nxt = "tile_advance TYPE('w) (img_width t)" and start = "tile_line_start TYPE('w) t ?tx" and rnxt = "tile_next_line t"
      and b = "tile_first TYPE('w) t ?tx ?ty" and m = m]
  have "drawn TYPE('w) d x y width height (tile_pixel TYPE('w) r t ox oy d x y m) m
    (rows (\<lambda>l b. line_loop (\<lambda>m a. rop2_equation r (load m (fst a) :: 'w word)) (tile_advance TYPE('w) (img_width t)) (nat width) l
        (tile_line_start TYPE('w) t ?tx b)) (tile_next_line t) (img_stride d) (nat height) (pixel_at TYPE('w) d x y)
        (tile_first TYPE('w) t ?tx ?ty) m)"
    by (rule drawn_cong [OF rd]) (simp add: ad ap, simp add: ad tile_pixel_def algebra_simps)
  then show ?thesis
    by (simp add: tiled_rows_def tiled_rop_def Let_def case_prod_unfold tile_line_start_def tile_first_def)
qed

definition tile_fits :: "pixman_image \<Rightarrow> int \<Rightarrow> int \<Rightarrow> int \<Rightarrow> int \<Rightarrow> pixman_image \<Rightarrow> bool" where
  "tile_fits d x y width height t \<longleftrightarrow> 0 < img_width t \<and> 0 < img_height t \<and>
     spice_pixman_image_get_bpp d = spice_pixman_image_get_bpp t \<and>
     (spice_pixman_image_get_bpp d = 8 \<longrightarrow> tile_ok TYPE(8) d x y width height t) \<and>
     (spice_pixman_image_get_bpp d = 16 \<longrightarrow> tile_ok TYPE(16) d x y width height t) \<and>
     (spice_pixman_image_get_bpp d = 32 \<longrightarrow> tile_ok TYPE(32) d x y width height t)"

text \<open>
  Tiling a rectangle. With a tile of positive size and the same depth that shares no byte with the
  destination rectangle, \<open>spice_pixman_tile_rect_rop\<close> combines pixel (x, y) of the rectangle with pixel
  ((x - offset_x) mod width, (y - offset_y) mod height) of the tile, also for negative differences, and
  changes no other byte.
\<close>

theorem tile_rect_rop_pixels:
  assumes "image_ok d" "rect_inside d x y width height" "rop < 16" "tile_fits d x y width height t"
  shows "\<exists>m'. spice_pixman_tile_rect_rop d x y width height t ox oy rop m = Inr m' \<and>
    drawn_depth d x y width height (tile_pixel TYPE(8) (solid_rops ! rop) t ox oy d x y m)
      (tile_pixel TYPE(16) (solid_rops ! rop) t ox oy d x y m) (tile_pixel TYPE(32) (solid_rops ! rop) t ox oy d x y m) m m'"
  using assms tiled_rows_drawn [OF _ assms(2), where 'w = 8] tiled_rows_drawn [OF _ assms(2), where 'w = 16]
    tiled_rows_drawn [OF _ assms(2), where 'w = 32]
  by (auto simp: spice_pixman_tile_rect_rop_def tile_by_depth_def tile_start_eq tile_fits_def image_ok_def drawn_depth_def Let_def)

definition demo_tile :: pixman_image where
  "demo_tile = \<lparr>img_width = 2, img_height = 2, img_data = 100, img_stride = 8, img_depth = 16\<rparr>"

lemma demo_tile_fits: "tile_fits demo_img 1 1 2 2 demo_tile"
  by (auto simp: tile_fits_def tile_ok_def demo_tile_def demo_img_def rect_bytes_def line_bytes_def pixel_at_def
      spice_pixman_image_get_bpp_def)

theorem tile_rect_rop_pixels_witness:
  "\<exists>m'. spice_pixman_tile_rect_rop demo_img 1 1 2 2 demo_tile 4 4 7 (\<lambda>a. of_int a) = Inr m' \<and>
    load m' 10 = (load (\<lambda>a. of_int a) 110 OR load (\<lambda>a. of_int a) 10 :: u16)"
proof -
  have r: "rect_inside demo_img 1 1 2 2" by (simp add: rect_inside_def demo_img_def)
  obtain m' where m': "spice_pixman_tile_rect_rop demo_img 1 1 2 2 demo_tile 4 4 7 (\<lambda>a. of_int a) = Inr m'"
    "drawn TYPE(16) demo_img 1 1 2 2 (tile_pixel TYPE(16) (solid_rops ! 7) demo_tile 4 4 demo_img 1 1 (\<lambda>a. of_int a)) (\<lambda>a. of_int a) m'"
    using tile_rect_rop_pixels [OF demo_img_ok(1) r _ demo_tile_fits, of 7 4 4 "\<lambda>a. of_int a"]
    by (auto simp: drawn_depth_def demo_img_ok)
  show ?thesis
    using m'(1) m'(2) [unfolded drawn_def, THEN conjunct1, rule_format, of 0 0]
    by (intro exI [of _ m']) (simp add: tile_pixel_def pixel_at_def demo_img_def demo_tile_def solid_rops_def)
qed

end
