(* ===== verification/Pixman_Blit.thy ===== *)
theory Pixman_Blit
  imports Pixman_Pixels
begin

text \<open>
  Copying rectangles: between images, clipped against the source, plainly, with a raster operation or
  leaving out a transparent colour; and within one image, where source and destination may overlap.
\<close>

section \<open>Lines of copied bytes\<close>

lemma ucast_drop_bit_load:
  assumes "8 dvd LENGTH('w::len)" "k < LENGTH('w) div 8"
  shows "ucast (drop_bit (8 * k) (load m a :: 'w word)) = m (a + int k)"
proof (rule bit_word_eqI)
  fix n assume n: "n < LENGTH(8)"
  have "8 * k + n < LENGTH('w)" using assms n by auto
  then show "bit (ucast (drop_bit (8 * k) (load m a :: 'w word)) :: u8) n = bit (m (a + int k)) n"
    using n by (auto simp: bit_simps bit_load)
qed

lemma store_load:
  assumes "8 dvd LENGTH('w::len)"
  shows "store m p (load m s :: 'w word) = copy_bytes p s (sizeof TYPE('w)) m"
proof
  fix x show "store m p (load m s :: 'w word) x = copy_bytes p s (sizeof TYPE('w)) m x"
    using ucast_drop_bit_load [OF assms, of "nat (x - p)" m s] by (auto simp: store_def copy_bytes_def sizeof_def)
qed

lemma store_load_same [simp]: "8 dvd LENGTH('w::len) \<Longrightarrow> store m p (load m p :: 'w word) = m"
  by (auto simp: store_load copy_bytes_def)

lemma copy_bytes_loop:
  assumes w: "8 dvd LENGTH('w::len)" and "s + int n * sizeof TYPE('w) \<le> p \<or> p + int n * sizeof TYPE('w) \<le> s"
  shows "line_loop (\<lambda>m a (dst :: 'w word). load m a) (\<lambda>a. a + sizeof TYPE('w)) n p s m = copy_bytes p s (int n * sizeof TYPE('w)) m"
  using assms(2)
proof (induction n arbitrary: p s m)
  case (Suc n)
  obtain N where N: "int n * sizeof TYPE('w) = N" "0 \<le> N" using sizeof_mult by blast
  have SN: "int (Suc n) * sizeof TYPE('w) = sizeof TYPE('w) + N" using N(1) by (simp add: algebra_simps)
  have "s + sizeof TYPE('w) + N \<le> p + sizeof TYPE('w) \<or> p + sizeof TYPE('w) + N \<le> s + sizeof TYPE('w)"
    using Suc.prems sizeof_pos [OF w] unfolding SN by linarith
  then have "line_loop (\<lambda>m a (dst :: 'w word). load m a) (\<lambda>a. a + sizeof TYPE('w)) (Suc n) p s m =
      copy_bytes (p + sizeof TYPE('w)) (s + sizeof TYPE('w)) N (copy_bytes p s (sizeof TYPE('w)) m)"
    using Suc.IH [of "s + sizeof TYPE('w)" "p + sizeof TYPE('w)"] by (simp add: store_load [OF w] N(1))
  also have "\<dots> = copy_bytes p s (sizeof TYPE('w) + N) m"
    using Suc.prems sizeof_pos [OF w] N(2) unfolding SN by (auto simp: copy_bytes_def fun_eq_iff)
  finally show ?case by (simp only: SN)
qed (auto simp: copy_bytes_def fun_eq_iff)


section \<open>Clipping\<close>

text \<open>
  What a clipped copy promises, in the coordinates of the call: every pixel of the rectangle whose source
  lies in the source image is combined with that source pixel, and no other byte changes.
\<close>

definition in_clip :: "pixman_image \<Rightarrow> int \<Rightarrow> int \<Rightarrow> int \<Rightarrow> int \<Rightarrow> int \<Rightarrow> int \<Rightarrow> bool" where
  "in_clip s src_x src_y width height i j \<longleftrightarrow> 0 \<le> i \<and> i < width \<and> 0 \<le> j \<and> j < height \<and>
     0 \<le> src_x + i \<and> src_x + i < img_width s \<and> 0 \<le> src_y + j \<and> src_y + j < img_height s"

definition blitted :: "('w::len word \<Rightarrow> 'w word \<Rightarrow> 'w word) \<Rightarrow> pixman_image \<Rightarrow> pixman_image \<Rightarrow> int \<Rightarrow> int \<Rightarrow> int \<Rightarrow> int \<Rightarrow> int \<Rightarrow> int \<Rightarrow>
    mem \<Rightarrow> mem \<Rightarrow> bool" where
  "blitted f d s src_x src_y dest_x dest_y width height m m' \<longleftrightarrow>
     (\<forall>i j. in_clip s src_x src_y width height i j \<longrightarrow> load m' (pixel_at TYPE('w) d (dest_x + i) (dest_y + j)) =
        f (load m (pixel_at TYPE('w) s (src_x + i) (src_y + j))) (load m (pixel_at TYPE('w) d (dest_x + i) (dest_y + j)))) \<and>
     (\<forall>a. (\<forall>i j. in_clip s src_x src_y width height i j \<longrightarrow>
        a \<notin> {pixel_at TYPE('w) d (dest_x + i) (dest_y + j) ..< pixel_at TYPE('w) d (dest_x + i) (dest_y + j) + sizeof TYPE('w)}) \<longrightarrow> m' a = m a)"

lemma clip_source_spec:
  assumes "clip_source s src_x src_y dest_x dest_y width height = (sx, sy, dx, dy, w, h)"
  shows "sx - src_x = dx - dest_x" "sy - src_y = dy - dest_y" "0 \<le> sx" "0 \<le> sy" "sx + w \<le> img_width s" "sy + h \<le> img_height s"
    "in_clip s src_x src_y width height i j \<longleftrightarrow> 0 \<le> i - (dx - dest_x) \<and> i - (dx - dest_x) < w \<and> 0 \<le> j - (dy - dest_y) \<and> j - (dy - dest_y) < h"
  using assms by (auto simp: clip_source_def Let_def in_clip_def split: if_splits)

lemma line_of_pixels:
  assumes "8 dvd LENGTH('w::len)" "a \<in> {pixel_at TYPE('w) d x y ..< pixel_at TYPE('w) d (x + width) y}"
  shows "\<exists>i. 0 \<le> i \<and> i < width \<and> a \<in> {pixel_at TYPE('w) d (x + i) y ..< pixel_at TYPE('w) d (x + i) y + sizeof TYPE('w)}"
proof -
  let ?sz = "sizeof TYPE('w)" and ?o = "a - pixel_at TYPE('w) d x y"
  note sz = sizeof_pos [OF assms(1)]
  have o: "0 \<le> ?o" "?o < width * ?sz" using assms(2) by (auto simp: pixel_at_def algebra_simps)
  obtain q r where qr: "?o = q * ?sz + r" "0 \<le> r" "r < ?sz"
    using pos_mod_sign [OF sz, of ?o] pos_mod_bound [OF sz, of ?o] by (metis div_mult_mod_eq)
  have "0 \<le> q"
  proof (rule ccontr)
    assume "\<not> 0 \<le> q"
    then have "q * ?sz \<le> - 1 * ?sz" using sz by (intro mult_right_mono) auto
    then show False using qr o(1) by linarith
  qed
  moreover have "q < width"
  proof (rule ccontr)
    assume "\<not> q < width"
    then have "width * ?sz \<le> q * ?sz" using sz by (intro mult_right_mono) auto
    then show False using qr o(2) by linarith
  qed
  ultimately show ?thesis using qr by (intro exI [of _ q]) (auto simp: pixel_at_def algebra_simps)
qed

lemma drawn_blitted:
  assumes w: "8 dvd LENGTH('w::len)"
    and c: "clip_source s src_x src_y dest_x dest_y width height = (sx, sy, dx, dy, wd, h)"
    and d: "drawn TYPE('w) d dx dy wd h (\<lambda>i j. f (load m (pixel_at TYPE('w) s (sx + i) (sy + j))) (load m (pixel_at TYPE('w) d (dx + i) (dy + j)))) m m'"
  shows "blitted f d s src_x src_y dest_x dest_y width height m m'"
  unfolding blitted_def
proof (intro conjI allI impI)
  fix i j assume "in_clip s src_x src_y width height i j"
  then have rng: "0 \<le> i - (dx - dest_x) \<and> i - (dx - dest_x) < wd \<and> 0 \<le> j - (dy - dest_y) \<and> j - (dy - dest_y) < h"
    using clip_source_spec(7) [OF c] by blast
  have e: "sx + (i - (dx - dest_x)) = src_x + i" "sy + (j - (dy - dest_y)) = src_y + j"
    "dx + (i - (dx - dest_x)) = dest_x + i" "dy + (j - (dy - dest_y)) = dest_y + j"
    using clip_source_spec(1,2) [OF c] by auto
  from d [unfolded drawn_def, THEN conjunct1, rule_format, OF rng]
  show "load m' (pixel_at TYPE('w) d (dest_x + i) (dest_y + j)) =
      f (load m (pixel_at TYPE('w) s (src_x + i) (src_y + j))) (load m (pixel_at TYPE('w) d (dest_x + i) (dest_y + j)))"
    by (simp only: e)
next
  fix a assume a: "\<forall>i j. in_clip s src_x src_y width height i j \<longrightarrow>
      a \<notin> {pixel_at TYPE('w) d (dest_x + i) (dest_y + j) ..< pixel_at TYPE('w) d (dest_x + i) (dest_y + j) + sizeof TYPE('w)}"
  have "a \<notin> {pixel_at TYPE('w) d dx (dy + j) ..< pixel_at TYPE('w) d (dx + wd) (dy + j)}" if j: "0 \<le> j \<and> j < h" for j
  proof
    assume "a \<in> {pixel_at TYPE('w) d dx (dy + j) ..< pixel_at TYPE('w) d (dx + wd) (dy + j)}"
    from line_of_pixels [OF w this] obtain i where i: "0 \<le> i" "i < wd"
      "a \<in> {pixel_at TYPE('w) d (dx + i) (dy + j) ..< pixel_at TYPE('w) d (dx + i) (dy + j) + sizeof TYPE('w)}" by blast
    have "in_clip s src_x src_y width height (i + (dx - dest_x)) (j + (dy - dest_y))"
      using clip_source_spec(7) [OF c] i j by simp
    moreover have "dest_x + (i + (dx - dest_x)) = dx + i" "dest_y + (j + (dy - dest_y)) = dy + j" by auto
    ultimately show False using a i(3) by metis
  qed
  then show "m' a = m a" using d unfolding drawn_def by blast
qed

lemma empty_blitted:
  assumes "clip_source s src_x src_y dest_x dest_y width height = (sx, sy, dx, dy, wd, h)" "wd \<le> 0 \<or> h \<le> 0"
  shows "blitted f d s src_x src_y dest_x dest_y width height m m"
  using clip_source_spec(7) [OF assms(1)] assms(2) by (auto simp: blitted_def)


section \<open>Copies between images\<close>

definition src_apart_from :: "'w::len itself \<Rightarrow> pixman_image \<Rightarrow> int \<Rightarrow> int \<Rightarrow> pixman_image \<Rightarrow> int \<Rightarrow> int \<Rightarrow> int \<Rightarrow> int \<Rightarrow> bool" where
  "src_apart_from w s sx sy d dx dy wd h \<longleftrightarrow> rect_bytes w s sx sy wd h \<inter> rect_bytes w d dx dy wd h = {}"

lemma funpow_add: "((\<lambda>a. a + k) ^^ n) a = a + int n * k" for k :: int
  by (induction n) (auto simp: algebra_simps)

lemma copy_rows_drawn:
  assumes w: "8 dvd LENGTH('w::len)" and r: "rect_inside d dx dy wd h" "lines_fit TYPE('w) d"
    and ap: "src_apart_from TYPE('w) s sx sy d dx dy wd h"
  shows "drawn TYPE('w) d dx dy wd h
      (\<lambda>i j. f (load m (pixel_at TYPE('w) s (sx + i) (sy + j))) (load m (pixel_at TYPE('w) d (dx + i) (dy + j)))) m
    (rows (\<lambda>l b. line_loop (\<lambda>m a (dst :: 'w word). f (load m a :: 'w word) dst) (\<lambda>a. a + sizeof TYPE('w)) (nat wd) l b)
      (\<lambda>l. l + img_stride s) (img_stride d) (nat h) (pixel_at TYPE('w) d dx dy) (pixel_at TYPE('w) s sx sy) m)"
proof -
  have ad: "pixel_at TYPE('w) s sx sy + j * img_stride s + i * sizeof TYPE('w) = pixel_at TYPE('w) s (sx + i) (sy + j)" for i j
    by (simp add: pixel_at_def algebra_simps)
  have "{pixel_at TYPE('w) s (sx + int i) (sy + int j) ..< pixel_at TYPE('w) s (sx + int i) (sy + int j) + sizeof TYPE('w)} \<inter>
      rect_bytes TYPE('w) d dx dy wd h = {}" if "j < nat h" "i < nat wd" for i j
  proof -
    have "{pixel_at TYPE('w) s (sx + int i) (sy + int j) ..< pixel_at TYPE('w) s (sx + int i) (sy + int j) + sizeof TYPE('w)} \<subseteq>
        rect_bytes TYPE('w) s sx sy wd h" by (rule pixel_in_rect) (use that in auto)
    then show ?thesis using ap unfolding src_apart_from_def by blast
  qed
  note ap = this
  show ?thesis
    by (rule drawn_cong [OF pixel_op.rows_drawn [OF copy_pixel_op [OF w, of f "\<lambda>a :: int. a"] r, where start = "\<lambda>b. b" and m = m
        and nxt = "\<lambda>a. a + sizeof TYPE('w)" and rnxt = "\<lambda>l. l + img_stride s" and b = "pixel_at TYPE('w) s sx sy"]])
      (simp_all add: funpow_add ad ap)
qed

lemma ivl_disjoint: "{a ..< b} \<inter> {c ..< d} = {} \<Longrightarrow> a < b \<Longrightarrow> c < d \<Longrightarrow> b \<le> c \<or> d \<le> a" for a b c d :: int
proof (rule ccontr)
  assume "{a ..< b} \<inter> {c ..< d} = {}" "a < b" "c < d" "\<not> (b \<le> c \<or> d \<le> a)"
  moreover from this have "max a c \<in> {a ..< b} \<inter> {c ..< d}" by auto
  ultimately show False by blast
qed

lemma memcpy_rows_drawn:
  assumes w: "8 dvd LENGTH('w::len)" and r: "rect_inside d dx dy wd h" "rect_inside s sx sy wd h" "lines_fit TYPE('w) d"
    and ap: "src_apart_from TYPE('w) s sx sy d dx dy wd h"
  shows "\<exists>m'. blit_rows TYPE('w) d s sx sy dx dy wd h m = Inr m' \<and>
    drawn TYPE('w) d dx dy wd h (\<lambda>i j. load m (pixel_at TYPE('w) s (sx + i) (sy + j))) m m'"
proof -
  let ?sz = "sizeof TYPE('w)"
  have wd: "0 < wd" "0 < h" "0 < wd * ?sz" using r(1) sizeof_pos [OF w] by (auto simp: rect_inside_def)
  have rows: "memcpy_rows (img_stride d) (img_stride s) (wd * ?sz) n p q m =
      Inr (rows (\<lambda>l b. line_loop (\<lambda>m a (dst :: 'w word). (load m a :: 'w word)) (\<lambda>a. a + ?sz) (nat wd) l b)
        (\<lambda>l. l + img_stride s) (img_stride d) n p q m)"
    if "\<And>k. k < n \<Longrightarrow> q + int k * img_stride s + wd * ?sz \<le> p + int k * img_stride d \<or> p + int k * img_stride d + wd * ?sz \<le> q + int k * img_stride s"
    for n p q m using that
  proof (induction n arbitrary: p q m)
    case (Suc n)
    have "memcpy p q (wd * ?sz) m = Inr (line_loop (\<lambda>m a (dst :: 'w word). (load m a :: 'w word)) (\<lambda>a. a + ?sz) (nat wd) p q m)"
      using Suc.prems [of 0] wd copy_bytes_loop [OF w, of q "nat wd" p m] by (auto simp: memcpy_def)
    moreover have "q + img_stride s + int k * img_stride s + wd * ?sz \<le> p + img_stride d + int k * img_stride d \<or>
        p + img_stride d + int k * img_stride d + wd * ?sz \<le> q + img_stride s + int k * img_stride s" if "k < n" for k
      using Suc.prems [of "Suc k"] that by (simp add: algebra_simps)
    ultimately show ?case using Suc.IH by simp
  qed simp
  have dis: "pixel_at TYPE('w) s sx sy + int k * img_stride s + wd * ?sz \<le> pixel_at TYPE('w) d dx dy + int k * img_stride d \<or>
      pixel_at TYPE('w) d dx dy + int k * img_stride d + wd * ?sz \<le> pixel_at TYPE('w) s sx sy + int k * img_stride s" if "k < nat h" for k
  proof -
    have "line_bytes TYPE('w) s sx (sy + int k) wd \<subseteq> rect_bytes TYPE('w) s sx sy wd h"
      "line_bytes TYPE('w) d dx (dy + int k) wd \<subseteq> rect_bytes TYPE('w) d dx dy wd h"
      using that by (auto simp: rect_bytes_def intro!: bexI [of _ "int k"])
    then have "line_bytes TYPE('w) s sx (sy + int k) wd \<inter> line_bytes TYPE('w) d dx (dy + int k) wd = {}"
      using ap unfolding src_apart_from_def by blast
    then have "pixel_at TYPE('w) s (sx + wd) (sy + int k) \<le> pixel_at TYPE('w) d dx (dy + int k) \<or>
        pixel_at TYPE('w) d (dx + wd) (dy + int k) \<le> pixel_at TYPE('w) s sx (sy + int k)"
      unfolding line_bytes_def using wd(3) by (intro ivl_disjoint) (simp_all add: pixel_at_def distrib_right)
    then show ?thesis by (simp add: pixel_at_def algebra_simps)
  qed
  have "blit_rows TYPE('w) d s sx sy dx dy wd h m =
      Inr (rows (\<lambda>l b. line_loop (\<lambda>m a (dst :: 'w word). (load m a :: 'w word)) (\<lambda>a. a + ?sz) (nat wd) l b)
        (\<lambda>l. l + img_stride s) (img_stride d) (nat h) (pixel_at TYPE('w) d dx dy) (pixel_at TYPE('w) s sx sy) m)"
    unfolding blit_rows_def by (rule rows) (rule dis)
  then show ?thesis using copy_rows_drawn [OF w r(1,3) ap, of "\<lambda>v dst. v" m] by blast
qed

lemma colorkey_line_loop:
  assumes "8 dvd LENGTH('w::len)"
  shows "colorkey_line TYPE('w) key n d s m =
    line_loop (\<lambda>m a (dst :: 'w word). if key_mask TYPE('w) AND load m a \<noteq> key then load m a else dst) (\<lambda>a. a + sizeof TYPE('w)) n d s m"
  by (induction n arbitrary: d s m) (simp_all add: Let_def assms)

text \<open>
  The images of a clipped copy: of one depth, the destination with separate lines, the clipped destination rectangle
  inside it and apart from the source rectangle.
\<close>

definition blit_ok :: "pixman_image \<Rightarrow> pixman_image \<Rightarrow> int \<Rightarrow> int \<Rightarrow> int \<Rightarrow> int \<Rightarrow> int \<Rightarrow> int \<Rightarrow> bool" where
  "blit_ok d s src_x src_y dest_x dest_y width height \<longleftrightarrow> image_ok d \<and>
     spice_pixman_image_get_bpp d = spice_pixman_image_get_bpp s \<and>
     (case clip_source s src_x src_y dest_x dest_y width height of (sx, sy, dx, dy, w, h) \<Rightarrow>
       0 < w \<and> 0 < h \<longrightarrow> rect_inside d dx dy w h \<and>
         (spice_pixman_image_get_bpp d = 8 \<longrightarrow> src_apart_from TYPE(8) s sx sy d dx dy w h) \<and>
         (spice_pixman_image_get_bpp d = 16 \<longrightarrow> src_apart_from TYPE(16) s sx sy d dx dy w h) \<and>
         (spice_pixman_image_get_bpp d = 32 \<longrightarrow> src_apart_from TYPE(32) s sx sy d dx dy w h))"

definition blitted_depth :: "(u8 \<Rightarrow> u8 \<Rightarrow> u8) \<Rightarrow> (u16 \<Rightarrow> u16 \<Rightarrow> u16) \<Rightarrow> (u32 \<Rightarrow> u32 \<Rightarrow> u32) \<Rightarrow> pixman_image \<Rightarrow> pixman_image \<Rightarrow>
    int \<Rightarrow> int \<Rightarrow> int \<Rightarrow> int \<Rightarrow> int \<Rightarrow> int \<Rightarrow> mem \<Rightarrow> mem \<Rightarrow> bool" where
  "blitted_depth f8 f16 f32 d s src_x src_y dest_x dest_y width height m m' \<longleftrightarrow>
     (spice_pixman_image_get_bpp d = 8 \<longrightarrow> blitted f8 d s src_x src_y dest_x dest_y width height m m') \<and>
     (spice_pixman_image_get_bpp d = 16 \<longrightarrow> blitted f16 d s src_x src_y dest_x dest_y width height m m') \<and>
     (spice_pixman_image_get_bpp d = 32 \<longrightarrow> blitted f32 d s src_x src_y dest_x dest_y width height m m')"

lemma blit_cases:
  assumes ok: "blit_ok d s src_x src_y dest_x dest_y width height"
    and c: "clip_source s src_x src_y dest_x dest_y width height = (sx, sy, dx, dy, w, h)"
    and e: "w \<le> 0 \<or> h \<le> 0 \<Longrightarrow> r = Inr m"
    and n: "0 < w \<Longrightarrow> 0 < h \<Longrightarrow> blit_asserts d s sx sy dx dy w h \<Longrightarrow>
      \<exists>m'. r = Inr m' \<and>
        (spice_pixman_image_get_bpp d = 8 \<longrightarrow> drawn TYPE(8) d dx dy w h (\<lambda>i j. f8 (load m (pixel_at TYPE(8) s (sx + i) (sy + j))) (load m (pixel_at TYPE(8) d (dx + i) (dy + j)))) m m') \<and>
        (spice_pixman_image_get_bpp d = 16 \<longrightarrow> drawn TYPE(16) d dx dy w h (\<lambda>i j. f16 (load m (pixel_at TYPE(16) s (sx + i) (sy + j))) (load m (pixel_at TYPE(16) d (dx + i) (dy + j)))) m m') \<and>
        (spice_pixman_image_get_bpp d = 32 \<longrightarrow> drawn TYPE(32) d dx dy w h (\<lambda>i j. f32 (load m (pixel_at TYPE(32) s (sx + i) (sy + j))) (load m (pixel_at TYPE(32) d (dx + i) (dy + j)))) m m')"
  shows "\<exists>m'. r = Inr m' \<and> blitted_depth f8 f16 f32 d s src_x src_y dest_x dest_y width height m m'"
proof (cases "w \<le> 0 \<or> h \<le> 0")
  case True
  then show ?thesis using e by (simp add: blitted_depth_def empty_blitted [OF c True])
next
  case False
  then have "blit_asserts d s sx sy dx dy w h"
    using ok clip_source_spec(3-6) [OF c] by (simp add: blit_ok_def c blit_asserts_def rect_inside_def)
  from n [OF _ _ this] False obtain m' where m': "r = Inr m'"
    "spice_pixman_image_get_bpp d = 8 \<longrightarrow> drawn TYPE(8) d dx dy w h (\<lambda>i j. f8 (load m (pixel_at TYPE(8) s (sx + i) (sy + j))) (load m (pixel_at TYPE(8) d (dx + i) (dy + j)))) m m'"
    "spice_pixman_image_get_bpp d = 16 \<longrightarrow> drawn TYPE(16) d dx dy w h (\<lambda>i j. f16 (load m (pixel_at TYPE(16) s (sx + i) (sy + j))) (load m (pixel_at TYPE(16) d (dx + i) (dy + j)))) m m'"
    "spice_pixman_image_get_bpp d = 32 \<longrightarrow> drawn TYPE(32) d dx dy w h (\<lambda>i j. f32 (load m (pixel_at TYPE(32) s (sx + i) (sy + j))) (load m (pixel_at TYPE(32) d (dx + i) (dy + j)))) m m'"
    by auto
  then show ?thesis
    using drawn_blitted [where 'w = 8, OF _ c, of d f8 m m'] drawn_blitted [where 'w = 16, OF _ c, of d f16 m m']
      drawn_blitted [where 'w = 32, OF _ c, of d f32 m m']
    by (simp add: blitted_depth_def)
qed

lemma blit_ok_apart:
  assumes "blit_ok d s src_x src_y dest_x dest_y width height" "clip_source s src_x src_y dest_x dest_y width height = (sx, sy, dx, dy, w, h)"
    "0 < w" "0 < h"
  shows "spice_pixman_image_get_bpp d = 8 \<Longrightarrow> src_apart_from TYPE(8) s sx sy d dx dy w h \<and> lines_fit TYPE(8) d"
    "spice_pixman_image_get_bpp d = 16 \<Longrightarrow> src_apart_from TYPE(16) s sx sy d dx dy w h \<and> lines_fit TYPE(16) d"
    "spice_pixman_image_get_bpp d = 32 \<Longrightarrow> src_apart_from TYPE(32) s sx sy d dx dy w h \<and> lines_fit TYPE(32) d"
    "spice_pixman_image_get_bpp d = 8 \<or> spice_pixman_image_get_bpp d = 16 \<or> spice_pixman_image_get_bpp d = 32"
  using assms by (auto simp: blit_ok_def image_ok_def)


lemma copy_rop_rows_eq:
  "copy_rop_rows TYPE('w::len) r d s sx sy dx dy wd h =
    rows (\<lambda>l b. line_loop (\<lambda>m a (dst :: 'w word). rop2_equation r (load m a :: 'w word) dst) (\<lambda>a. a + sizeof TYPE('w)) (nat wd) l b)
      (\<lambda>l. l + img_stride s) (img_stride d) (nat h) (pixel_at TYPE('w) d dx dy) (pixel_at TYPE('w) s sx sy)"
  by (simp add: copy_rop_rows_def copy_rop_def)

text \<open>
  Copying with a raster operation. Under the same conditions and for one of the 16 operations,
  \<open>spice_pixman_blit_rop\<close> combines those pixels with their source pixels by the operation.
\<close>

theorem blit_rop_pixels:
  assumes "blit_ok d s src_x src_y dest_x dest_y width height" "rop < 16"
  shows "\<exists>m'. spice_pixman_blit_rop d s src_x src_y dest_x dest_y width height rop m = Inr m' \<and>
    blitted_depth (rop2_equation (solid_rops ! rop)) (rop2_equation (solid_rops ! rop)) (rop2_equation (solid_rops ! rop))
      d s src_x src_y dest_x dest_y width height m m'"
proof -
  obtain sx sy dx dy w h where c: "clip_source s src_x src_y dest_x dest_y width height = (sx, sy, dx, dy, w, h)"
    by (metis prod_cases6)
  let ?f = "\<lambda>x. rop2_equation (solid_rops ! rop) x"
  show ?thesis
  proof (rule blit_cases [OF assms(1) c])
    assume p: "0 < w" "0 < h" and a: "blit_asserts d s sx sy dx dy w h"
    note r = a [unfolded blit_asserts_def]
    show "\<exists>m'. spice_pixman_blit_rop d s src_x src_y dest_x dest_y width height rop m = Inr m' \<and>
      (spice_pixman_image_get_bpp d = 8 \<longrightarrow> drawn TYPE(8) d dx dy w h (\<lambda>i j. rop2_equation (solid_rops ! rop) (load m (pixel_at TYPE(8) s (sx + i) (sy + j))) (load m (pixel_at TYPE(8) d (dx + i) (dy + j)))) m m') \<and>
      (spice_pixman_image_get_bpp d = 16 \<longrightarrow> drawn TYPE(16) d dx dy w h (\<lambda>i j. rop2_equation (solid_rops ! rop) (load m (pixel_at TYPE(16) s (sx + i) (sy + j))) (load m (pixel_at TYPE(16) d (dx + i) (dy + j)))) m m') \<and>
      (spice_pixman_image_get_bpp d = 32 \<longrightarrow> drawn TYPE(32) d dx dy w h (\<lambda>i j. rop2_equation (solid_rops ! rop) (load m (pixel_at TYPE(32) s (sx + i) (sy + j))) (load m (pixel_at TYPE(32) d (dx + i) (dy + j)))) m m')"
      using blit_ok_apart(4) [OF assms(1) c p] r p a assms(2) blit_ok_apart(1-3) [OF assms(1) c p]
        copy_rows_drawn [where 'w = 8, of d dx dy w h s sx sy "rop2_equation (solid_rops ! rop)" m]
        copy_rows_drawn [where 'w = 16, of d dx dy w h s sx sy "rop2_equation (solid_rops ! rop)" m]
        copy_rows_drawn [where 'w = 32, of d dx dy w h s sx sy "rop2_equation (solid_rops ! rop)" m]
      by (auto simp: spice_pixman_blit_rop_def c Let_def copy_rop_rows_eq)
  qed (simp add: spice_pixman_blit_rop_def c Let_def)
qed

definition demo_src :: pixman_image where
  "demo_src = \<lparr>img_width = 2, img_height = 2, img_data = 200, img_stride = 4, img_depth = 15\<rparr>"

text \<open>A 3 by 3 copy that sticks out of a 2 by 2 source on the left and at the bottom.\<close>

lemma demo_blit_ok: "blit_ok demo_img demo_src (- 1) 0 0 1 3 3"
  by (auto simp: blit_ok_def image_ok_def demo_img_def demo_src_def spice_pixman_image_get_bpp_def lines_fit_def clip_source_def
      Let_def rect_inside_def src_apart_from_def rect_bytes_def line_bytes_def pixel_at_def)

lemma demo_blitted:
  assumes "blitted_depth f8 f16 f32 demo_img demo_src (- 1) 0 0 1 3 3 m m'"
  shows "load m' 10 = f16 (load m 200) (load m 10)" "load m' 20 = f16 (load m 206) (load m 20)" "m' 8 = m 8"
proof -
  have b: "blitted f16 demo_img demo_src (- 1) 0 0 1 3 3 m m'"
    using assms by (simp add: blitted_depth_def demo_img_def spice_pixman_image_get_bpp_def)
  note v = b [unfolded blitted_def, THEN conjunct1, rule_format]
  show "load m' 10 = f16 (load m 200) (load m 10)" using v [of 1 0]
    by (simp add: in_clip_def demo_img_def demo_src_def pixel_at_def)
  show "load m' 20 = f16 (load m 206) (load m 20)" using v [of 2 1]
    by (simp add: in_clip_def demo_img_def demo_src_def pixel_at_def)
  have "8 \<notin> {pixel_at TYPE(16) demo_img (0 + i) (1 + j) ..< pixel_at TYPE(16) demo_img (0 + i) (1 + j) + sizeof TYPE(16)}"
    if "in_clip demo_src (- 1) 0 3 3 i j" for i j
    using that by (auto simp: in_clip_def demo_img_def demo_src_def pixel_at_def)
  then show "m' 8 = m 8" using b unfolding blitted_def by blast
qed


theorem blit_rop_pixels_witness:
  "\<exists>m'. spice_pixman_blit_rop demo_img demo_src (- 1) 0 0 1 3 3 6 of_int = Inr m' \<and>
    load m' 20 = (load of_int 206 XOR load of_int 20 :: u16) \<and> m' 8 = 8"
proof -
  obtain m' where m': "spice_pixman_blit_rop demo_img demo_src (- 1) 0 0 1 3 3 6 of_int = Inr m'"
    "blitted_depth (rop2_equation ROP_xor) (rop2_equation ROP_xor) (rop2_equation ROP_xor) demo_img demo_src (- 1) 0 0 1 3 3 of_int m'"
    using blit_rop_pixels [OF demo_blit_ok, of 6 of_int] by (auto simp: solid_rops_def)
  show ?thesis using m'(1) demo_blitted [OF m'(2)] by simp
qed

text \<open>
  An operation out of range: the functions that fill and tile abort, \<open>spice_pixman_blit_rop\<close> reads past the end of its table.
\<close>

lemma rop_out_of_range:
  assumes "16 \<le> rop" "blit_asserts d s sx sy dx dy w h" "rect_inside d x y width height"
  shows "spice_pixman_fill_rect_rop d x y width height value rop m = Inl Abort"
    "spice_pixman_tile_rect_rop d x y width height t ox oy rop m = Inl Abort"
    "spice_pixman_blit_rop d s sx sy dx dy w h rop m = Inl OutOfBounds"
  using assms
  by (auto simp: spice_pixman_fill_rect_rop_def spice_pixman_tile_rect_rop_def spice_pixman_blit_rop_def Let_def
      clip_source_def blit_asserts_def rect_inside_def index_list_def)

text \<open>The copy that leaves out a transparent colour.\<close>

definition keyed :: "'w::len itself \<Rightarrow> u32 \<Rightarrow> 'w word \<Rightarrow> 'w word \<Rightarrow> 'w word" where
  "keyed w color src dst = (if key_mask w AND src \<noteq> key_mask w AND ucast color then src else dst)"

lemma colorkey_rows_eq:
  assumes "8 dvd LENGTH('w::len)"
  shows "colorkey_rows TYPE('w) color d s sx sy dx dy wd h =
    rows (\<lambda>l b. line_loop (\<lambda>m a (dst :: 'w word). keyed TYPE('w) color (load m a :: 'w word) dst) (\<lambda>a. a + sizeof TYPE('w)) (nat wd) l b)
      (\<lambda>l. l + img_stride s) (img_stride d) (nat h) (pixel_at TYPE('w) d dx dy) (pixel_at TYPE('w) s sx sy)"
  by (simp add: colorkey_rows_def colorkey_line_loop [OF assms, abs_def] keyed_def)

text \<open>
  Copying with a transparent colour. \<open>spice_pixman_blit_colorkey\<close> copies exactly those
  pixels that differ from the colour, compared at the pixel width, for 32-bit pixels without their top byte.
\<close>

theorem blit_colorkey_pixels:
  assumes "blit_ok d s src_x src_y dest_x dest_y width height"
  shows "\<exists>m'. spice_pixman_blit_colorkey d s src_x src_y dest_x dest_y width height color m = Inr m' \<and>
    blitted_depth (keyed TYPE(8) color) (keyed TYPE(16) color) (keyed TYPE(32) color)
      d s src_x src_y dest_x dest_y width height m m'"
proof -
  obtain sx sy dx dy w h where c: "clip_source s src_x src_y dest_x dest_y width height = (sx, sy, dx, dy, w, h)"
    by (metis prod_cases6)
  show ?thesis
  proof (rule blit_cases [OF assms(1) c])
    assume p: "0 < w" "0 < h" and a: "blit_asserts d s sx sy dx dy w h"
    then show "\<exists>m'. spice_pixman_blit_colorkey d s src_x src_y dest_x dest_y width height color m = Inr m' \<and>
      (spice_pixman_image_get_bpp d = 8 \<longrightarrow> drawn TYPE(8) d dx dy w h (\<lambda>i j. keyed TYPE(8) color (load m (pixel_at TYPE(8) s (sx + i) (sy + j))) (load m (pixel_at TYPE(8) d (dx + i) (dy + j)))) m m') \<and>
      (spice_pixman_image_get_bpp d = 16 \<longrightarrow> drawn TYPE(16) d dx dy w h (\<lambda>i j. keyed TYPE(16) color (load m (pixel_at TYPE(16) s (sx + i) (sy + j))) (load m (pixel_at TYPE(16) d (dx + i) (dy + j)))) m m') \<and>
      (spice_pixman_image_get_bpp d = 32 \<longrightarrow> drawn TYPE(32) d dx dy w h (\<lambda>i j. keyed TYPE(32) color (load m (pixel_at TYPE(32) s (sx + i) (sy + j))) (load m (pixel_at TYPE(32) d (dx + i) (dy + j)))) m m')"
      using blit_ok_apart(4) [OF assms(1) c p] a [unfolded blit_asserts_def] blit_ok_apart(1-3) [OF assms(1) c p]
        copy_rows_drawn [where 'w = 8, of d dx dy w h s sx sy "keyed TYPE(8) color" m]
        copy_rows_drawn [where 'w = 16, of d dx dy w h s sx sy "keyed TYPE(16) color" m]
        copy_rows_drawn [where 'w = 32, of d dx dy w h s sx sy "keyed TYPE(32) color" m]
      by (auto simp: spice_pixman_blit_colorkey_def c Let_def colorkey_rows_eq)
  qed (simp add: spice_pixman_blit_colorkey_def c Let_def)
qed

theorem blit_colorkey_pixels_witness:
  "\<exists>m'. spice_pixman_blit_colorkey demo_img demo_src (- 1) 0 0 1 3 3 0 (\<lambda>_. 0) = Inr m' \<and> load m' 10 = (0 :: u16)"
  using blit_colorkey_pixels [OF demo_blit_ok, of 0 "\<lambda>_. 0"] by (auto dest: demo_blitted(1) simp: keyed_def)

end
