(* ===== verification/Pixman_Fill.thy ===== *)
theory Pixman_Fill
  imports Pixman_Pixels
begin

text \<open>
  Filling a rectangle without the help of pixman. The fill writes each line
  with the widest stores its alignment allows; the result is the same as storing pixel by pixel.
\<close>

section \<open>Filling with aligned stores\<close>

definition byte_of :: "u32 \<Rightarrow> nat \<Rightarrow> u8" where
  "byte_of v k = ucast (drop_bit (8 * k) v)"

text \<open>The bytes from \<open>d\<close> on, filled so that the byte at address x is byte x mod 4 of the value.\<close>

definition filled :: "u32 \<Rightarrow> int \<Rightarrow> int \<Rightarrow> mem \<Rightarrow> mem" where
  "filled v d n m = (\<lambda>x. if d \<le> x \<and> x < d + n then byte_of v (nat (x mod 4)) else m x)"

lemma filled_filled: "0 \<le> k \<Longrightarrow> 0 \<le> n \<Longrightarrow> filled v (d + k) n (filled v d k m) = filled v d (k + n) m"
  by (auto simp: filled_def fun_eq_iff)

lemma filled_0 [simp]: "filled v d 0 m = m"
  by (auto simp: filled_def fun_eq_iff)

text \<open>A value whose bytes repeat with period q, on addresses that are multiples of q.\<close>

definition periodic :: "u32 \<Rightarrow> int \<Rightarrow> bool" where
  "periodic v q \<longleftrightarrow> (\<forall>d. d mod q = 0 \<longrightarrow> (\<forall>k<4. byte_of v k = byte_of v (nat ((d + int k) mod 4))))"

lemma store_filled:
  assumes "periodic v q" "d mod q = 0" "LENGTH('w::len) \<in> {8, 16, 32}"
  shows "store m d (ucast v :: 'w word) = filled v d (sizeof TYPE('w)) m"
proof
  fix x
  have "ucast (drop_bit (8 * nat (x - d)) (ucast v :: 'w word)) = byte_of v (nat (x mod 4))"
    if x: "d \<le> x" "x < d + int (LENGTH('w) div 8)"
  proof -
    define k where "k = nat (x - d)"
    have k: "x = d + int k" "k < LENGTH('w) div 8" "k < 4" using x assms(3) by (auto simp: k_def)
    have "ucast (drop_bit (8 * k) (ucast v :: 'w word)) = byte_of v k"
      unfolding byte_of_def
    proof (rule bit_word_eqI)
      fix n assume n: "n < LENGTH(8)"
      have "8 * k + n < LENGTH('w)" using k(2) n assms(3) by auto
      then show "bit (ucast (drop_bit (8 * k) (ucast v :: 'w word)) :: u8) n = bit (ucast (drop_bit (8 * k) v) :: u8) n"
        using n by (simp add: bit_simps)
    qed
    also have "\<dots> = byte_of v (nat (x mod 4))" 
      using assms(1) [unfolded periodic_def, rule_format, OF assms(2) k(3)] by (simp only: k(1))
    finally show ?thesis by (simp add: k_def)
  qed
  then show "store m d (ucast v :: 'w word) x = filled v d (sizeof TYPE('w)) m x"
    by (simp add: store_def filled_def sizeof_def)
qed

lemma fill_run_stop: "\<not> (w \<ge> sizeof TYPE('w::len) \<and> u d) \<Longrightarrow> fill_run TYPE('w) v u w d m = (w, d, m)"
  by (subst fill_run.simps) auto

lemma fill_run_filled:
  assumes "periodic v q" "LENGTH('w::len) \<in> {8, 16, 32}" "q dvd sizeof TYPE('w)" "0 < q"
  shows "d mod q = 0 \<Longrightarrow> w mod q = 0 \<Longrightarrow> 0 \<le> w \<Longrightarrow>
    \<exists>w'. fill_run TYPE('w) v u w d m = (w', d + (w - w'), filled v d (w - w') m) \<and> 0 \<le> w' \<and> w' \<le> w \<and>
      (d + (w - w')) mod q = 0 \<and> w' mod q = 0 \<and> \<not> (w' \<ge> sizeof TYPE('w) \<and> u (d + (w - w')))"
proof (induction "nat w" arbitrary: w d m rule: less_induct)
  case less
  have sz: "0 < sizeof TYPE('w)" using assms(2) by (auto simp: sizeof_def)
  show ?case
  proof (cases "w \<ge> sizeof TYPE('w) \<and> u d")
    case False
    then show ?thesis using less.prems by (intro exI [of _ w]) (simp add: fill_run_stop [where 'w = 'w])
  next
    case True
    let ?s = "sizeof TYPE('w)"
    have st: "fill_run TYPE('w) v u w d m = fill_run TYPE('w) v u (w - ?s) (d + ?s) (filled v d ?s m)"
      using True sz store_filled [OF assms(1) less.prems(1) assms(2), of m] by (subst fill_run.simps) simp
    have "(d + ?s) mod q = 0" "(w - ?s) mod q = 0" using less.prems assms(3) by (auto simp: mod_eq_0_iff_dvd)
    with less.hyps [of "w - ?s" "d + ?s" "filled v d ?s m"] True sz obtain w' where
      "fill_run TYPE('w) v u (w - ?s) (d + ?s) (filled v d ?s m) = (w', d + ?s + (w - ?s - w'), filled v (d + ?s) (w - ?s - w') (filled v d ?s m))"
      "0 \<le> w'" "w' \<le> w - ?s" "(d + ?s + (w - ?s - w')) mod q = 0" "w' mod q = 0" "\<not> (w' \<ge> ?s \<and> u (d + ?s + (w - ?s - w')))"
      by auto
    then show ?thesis using st sz filled_filled [of ?s "w - ?s - w'" v d m] by (intro exI [of _ w']) simp
  qed
qed

lemma fill_line_filled:
  assumes "periodic v q" "q \<in> {1, 2, 4}" "d mod q = 0" "w mod q = 0" "0 \<le> w"
  shows "fill_line v w d m = filled v d w m"
proof -
  note run8 = fill_run_filled [where 'w = 8, OF assms(1)]
  note run16 = fill_run_filled [where 'w = 16, OF assms(1)]
  note run32 = fill_run_filled [where 'w = 32, OF assms(1)]
  define r1 where "r1 = fill_run TYPE(8) v (\<lambda>d. d mod 2 \<noteq> 0) w d m"
  obtain w1 where w1: "r1 = (w1, d + (w - w1), filled v d (w - w1) m)" "0 \<le> w1" "w1 \<le> w" "(d + (w - w1)) mod q = 0" "w1 mod q = 0"
  proof (cases "q = 1")
    case True
    then show ?thesis using run8 [of d w "\<lambda>d. d mod 2 \<noteq> 0" m] assms that by (auto simp: r1_def)
  next
    case False
    then have "2 dvd q" using assms(2) by auto
    then have "d mod 2 = 0" using assms(3) by (metis mod_0 mod_mod_cancel)
    then show ?thesis using assms that [of w] by (simp add: r1_def fill_run_stop)
  qed
  let ?d1 = "d + (w - w1)" and ?m1 = "filled v d (w - w1) m"
  define r2 where "r2 = fill_run TYPE(16) v (\<lambda>d. d mod 4 \<noteq> 0) w1 ?d1 ?m1"
  obtain w2 where w2: "r2 = (w2, ?d1 + (w1 - w2), filled v ?d1 (w1 - w2) ?m1)" "0 \<le> w2" "w2 \<le> w1" "(?d1 + (w1 - w2)) mod q = 0" "w2 mod q = 0"
  proof (cases "q = 4")
    case True
    then show ?thesis using w1 that [of w1] by (simp add: r2_def fill_run_stop)
  next
    case False
    then have q: "LENGTH(16) \<in> {8, 16, 32}" "q dvd sizeof TYPE(16)" "0 < q" using assms(2) by auto
    show ?thesis using run16 [OF q w1(4,5,2), of "\<lambda>d. d mod 4 \<noteq> 0" ?m1] unfolding r2_def
      by (elim exE conjE) (rule that, unfold r2_def, assumption+)
  qed
  let ?d2 = "?d1 + (w1 - w2)" and ?m2 = "filled v ?d1 (w1 - w2) ?m1"
  have q4: "q dvd 4" "0 < q" using assms(2) by auto
  obtain w3 where w3: "fill_run TYPE(32) v (\<lambda>d. d mod 8 \<noteq> 0) w2 ?d2 ?m2 = (w3, ?d2 + (w2 - w3), filled v ?d2 (w2 - w3) ?m2)"
    "0 \<le> w3" "w3 \<le> w2" "(?d2 + (w2 - w3)) mod q = 0" "w3 mod q = 0"
    using run32 [of ?d2 w2 "\<lambda>d. d mod 8 \<noteq> 0" ?m2] q4 w2 by auto
  let ?d3 = "?d2 + (w2 - w3)" and ?m3 = "filled v ?d2 (w2 - w3) ?m2"
  obtain w4 where w4: "fill_run TYPE(32) v (\<lambda>_. True) w3 ?d3 ?m3 = (w4, ?d3 + (w3 - w4), filled v ?d3 (w3 - w4) ?m3)"
    "0 \<le> w4" "w4 \<le> w3" "(?d3 + (w3 - w4)) mod q = 0" "w4 mod q = 0" "w4 < 4"
    using run32 [of ?d3 w3 "\<lambda>_. True" ?m3] q4 w3 by auto
  let ?d4 = "?d3 + (w3 - w4)" and ?m4 = "filled v ?d3 (w3 - w4) ?m3"
  obtain w5 where w5: "fill_run TYPE(16) v (\<lambda>_. True) w4 ?d4 ?m4 = (w5, ?d4 + (w4 - w5), filled v ?d4 (w4 - w5) ?m4)"
    "0 \<le> w5" "w5 \<le> w4" "(?d4 + (w4 - w5)) mod q = 0" "w5 mod q = 0" "w5 < 2"
  proof (cases "q = 4")
    case True
    then have "w4 = 0" using w4 by auto
    then show ?thesis using w4 that [of w4] by (simp add: fill_run_stop)
  next
    case False
    then have q: "LENGTH(16) \<in> {8, 16, 32}" "q dvd sizeof TYPE(16)" "0 < q" using assms(2) by auto
    from run16 [OF q w4(4,5,2), of "\<lambda>_. True" ?m4] obtain w' where
      "fill_run TYPE(16) v (\<lambda>_. True) w4 ?d4 ?m4 = (w', ?d4 + (w4 - w'), filled v ?d4 (w4 - w') ?m4)"
      "0 \<le> w'" "w' \<le> w4" "(?d4 + (w4 - w')) mod q = 0" "w' mod q = 0" "\<not> (w' \<ge> sizeof TYPE(16) \<and> True)"
      by (elim exE conjE)
    then show ?thesis using that [of w'] by simp
  qed
  let ?d5 = "?d4 + (w4 - w5)" and ?m5 = "filled v ?d4 (w4 - w5) ?m4"
  have w6: "fill_run TYPE(8) v (\<lambda>_. True) w5 ?d5 ?m5 = (0, ?d5 + w5, filled v ?d5 w5 ?m5)"
  proof (cases "q = 1")
    case True
    then have q: "LENGTH(8) \<in> {8, 16, 32}" "q dvd sizeof TYPE(8)" "0 < q" by auto
    from run8 [OF q w5(4,5,2), of "\<lambda>_. True" ?m5] obtain w' where
      w': "fill_run TYPE(8) v (\<lambda>_. True) w5 ?d5 ?m5 = (w', ?d5 + (w5 - w'), filled v ?d5 (w5 - w') ?m5)" "0 \<le> w'" "\<not> (w' \<ge> sizeof TYPE(8) \<and> True)"
      by (elim exE conjE)
    then have "w' = 0" by simp
    with w'(1) show ?thesis by simp
  next
    case False
    then have "w5 = 0" using w5 assms(2) by auto
    then show ?thesis by (simp add: fill_run_stop)
  qed
  have "fill_line v w d m = filled v ?d5 w5 ?m5"
    using w1(1) w2(1) unfolding r1_def r2_def
    by (simp only: fill_line_def Let_def prod.case w3(1) w4(1) w5(1) w6)
  also have "\<dots> = filled v d w m"
    using w1 w2 w3 w4 w5 by (simp add: filled_filled)
  finally show ?thesis .
qed


text \<open>Storing pixel by pixel gives the same bytes.\<close>

lemma solid_copy_filled:
  assumes "periodic v (sizeof TYPE('w::len))" "LENGTH('w) \<in> {8, 16, 32}" "d mod sizeof TYPE('w) = 0"
  shows "solid_rop ROP_copy d n (ucast v :: 'w word) m = filled v d (int n * sizeof TYPE('w)) m"
  using assms(3) unfolding solid_rop_def
proof (induction n arbitrary: d m)
  case (Suc n)
  have "line_loop (\<lambda>m (_ :: unit) dst. rop2_equation ROP_copy (ucast v :: 'w word) dst) id n (d + sizeof TYPE('w)) () (filled v d (sizeof TYPE('w)) m) =
      filled v (d + sizeof TYPE('w)) (int n * sizeof TYPE('w)) (filled v d (sizeof TYPE('w)) m)"
    by (rule Suc.IH) (use Suc.prems in simp)
  moreover have "filled v (d + sizeof TYPE('w)) (int n * sizeof TYPE('w)) (filled v d (sizeof TYPE('w)) m) =
      filled v d (int (Suc n) * sizeof TYPE('w)) m"
    using filled_filled [of "sizeof TYPE('w)" "int n * sizeof TYPE('w)" v d m] by (simp add: sizeof_def algebra_simps)
  ultimately show ?case
    by (simp only: line_loop.simps rop2_equation.simps store_filled [OF assms(1) Suc.prems assms(2)] id_def)
qed simp

lemma fill_rows_solid:
  assumes w: "LENGTH('w::len) \<in> {8, 16, 32}" and v: "periodic v (sizeof TYPE('w))"
    and d: "img_data d mod 4 = 0" "img_stride d mod 4 = 0" and "0 \<le> width"
  shows "fill_rows d height v (width * sizeof TYPE('w)) (pixel_at TYPE('w) d x y) m = solid_rows TYPE('w) ROP_copy d x y width height v m"
proof -
  have q: "sizeof TYPE('w) \<in> {1, 2, 4}" using w by (auto simp: sizeof_def)
  have st: "sizeof TYPE('w) dvd img_stride d" "sizeof TYPE('w) dvd img_data d"
    using q d by (auto simp: mod_eq_0_iff_dvd elim: dvd_trans [rotated])
  have "rows (\<lambda>line _. fill_line v (width * sizeof TYPE('w)) line) id (img_stride d) n l () m =
      rows (\<lambda>line _. solid_rop ROP_copy line (nat width) (ucast v :: 'w word)) id (img_stride d) n l () m"
    if "sizeof TYPE('w) dvd l" for n l m using that
  proof (induction n arbitrary: l m)
    case (Suc n)
    have "fill_line v (width * sizeof TYPE('w)) l m = solid_rop ROP_copy l (nat width) (ucast v :: 'w word) m"
      using fill_line_filled [OF v q, of l "width * sizeof TYPE('w)" m] solid_copy_filled [OF v w, of l "nat width" m] Suc.prems assms(5)
      by (simp add: mod_eq_0_iff_dvd sizeof_def)
    then show ?case using Suc.IH [of "l + img_stride d"] Suc.prems st by simp
  qed simp
  moreover have "sizeof TYPE('w) dvd pixel_at TYPE('w) d x y" using st by (simp add: pixel_at_def)
  ultimately show ?thesis by (simp add: fill_rows_def solid_rows_def)
qed

lemma periodic_4: "periodic v 4"
  unfolding periodic_def
proof (intro allI impI)
  fix d :: int and k :: nat assume "d mod 4 = 0" "k < 4"
  then have "(d + int k) mod 4 = int k" by (metis mod_add_left_eq add_0 mod_pos_pos_trivial of_nat_0_le_iff of_nat_less_iff of_nat_numeral)
  then show "byte_of v k = byte_of v (nat ((d + int k) mod 4))" by simp
qed

lemma unat_byte_of: "unat (byte_of v k) = unat v div 256 ^ k mod 256"
proof -
  have "(2 :: nat) ^ (8 * k) = 256 ^ k" by (simp add: power_mult)
  moreover have "unat (drop_bit (8 * k) v) = unat v div 2 ^ (8 * k)" by (simp add: unsigned_drop_bit_eq flip: drop_bit_eq_div)
  ultimately show ?thesis
    unfolding byte_of_def by (simp add: unsigned_ucast_eq take_bit_eq_mod flip: drop_bit_eq_div)
qed

lemma unat_and_mask: "unat (u AND 0xff) = unat u mod 256" "unat (u AND 0xffff) = unat u mod 65536" for u :: u32
proof -
  have "u AND 0xff = take_bit 8 u" "u AND 0xffff = take_bit 16 u" by (simp_all add: take_bit_eq_mask mask_eq_exp_minus_1)
  then show "unat (u AND 0xff) = unat u mod 256" "unat (u AND 0xffff) = unat u mod 65536"
    by (simp_all add: unsigned_take_bit_eq flip: take_bit_eq_mod) (simp_all add: take_bit_eq_mod)
qed

lemma unat_rep8: "unat ((u AND 0xff) * 0x01010101 :: u32) = unat u mod 256 * 0x01010101"
  and unat_rep16: "unat ((u AND 0xffff) * 0x00010001 :: u32) = unat u mod 65536 * 0x00010001"
proof -
  have "unat u mod 256 < 256" "unat u mod 65536 < 65536" by simp_all
  then have "unat u mod 256 * 0x01010101 < 2 ^ 32" "unat u mod 65536 * 0x00010001 < 2 ^ 32" by simp_all
  then show "unat ((u AND 0xff) * 0x01010101 :: u32) = unat u mod 256 * 0x01010101"
    "unat ((u AND 0xffff) * 0x00010001 :: u32) = unat u mod 65536 * 0x00010001"
    by (simp_all add: unat_word_ariths unat_and_mask)
qed

lemma digits:
  fixes a b c d :: nat
  assumes "a < 256" "b < 256" "c < 256" "d < 256"
  shows "(a + 256 * (b + 256 * (c + 256 * d))) div 256 ^ 0 mod 256 = a" "(a + 256 * (b + 256 * (c + 256 * d))) div 256 ^ 1 mod 256 = b"
    "(a + 256 * (b + 256 * (c + 256 * d))) div 256 ^ 2 mod 256 = c" "(a + 256 * (b + 256 * (c + 256 * d))) div 256 ^ 3 mod 256 = d"
proof -
  have step: "(x + 256 * y) div 256 = y" "(x + 256 * y) mod 256 = x" if "x < 256" for x y :: nat using that by simp_all
  show "(a + 256 * (b + 256 * (c + 256 * d))) div 256 ^ 0 mod 256 = a" "(a + 256 * (b + 256 * (c + 256 * d))) div 256 ^ 1 mod 256 = b"
    by (simp_all only: power_0 power_one_right div_by_1 step assms)
  show "(a + 256 * (b + 256 * (c + 256 * d))) div 256 ^ 2 mod 256 = c"
    by (simp only: power2_eq_square div_mult2_eq step assms)
  have "d mod 256 = d" using assms by simp
  then show "(a + 256 * (b + 256 * (c + 256 * d))) div 256 ^ 3 mod 256 = d"
    by (simp only: power3_eq_cube div_mult2_eq step assms)
qed

lemma less_4: "k < 4 \<longleftrightarrow> k = 0 \<or> k = 1 \<or> k = 2 \<or> k = (3 :: nat)"
  by auto

lemma rep8_digits:
  assumes "n < 256" "k < 4"
  shows "n * 0x01010101 div 256 ^ k mod 256 = (n :: nat)"
proof -
  have e: "n * 0x01010101 = n + 256 * (n + 256 * (n + 256 * n))" by simp
  from assms(2) show ?thesis unfolding e less_4 by (elim disjE) (simp_all only: digits assms(1))
qed

lemma rep16_digits:
  assumes "n < 65536" "k < 4"
  shows "n * 0x00010001 div 256 ^ k mod 256 = (n :: nat) div 256 ^ (k mod 2) mod 256"
proof -
  define a b where "a = n mod 256" and "b = n div 256"
  have ab: "a < 256" "b < 256" "n = a + 256 * b" using assms(1) by (auto simp: a_def b_def)
  have e: "n * 0x00010001 = a + 256 * (b + 256 * (a + 256 * b))" by (simp add: ab(3))
  have n: "n div 256 ^ 0 mod 256 = a" "n div 256 ^ 1 mod 256 = b" using ab(2) by (simp_all add: a_def b_def)
  have m: "(0 :: nat) mod 2 = 0" "(1 :: nat) mod 2 = 1" "(2 :: nat) mod 2 = 0" "(3 :: nat) mod 2 = 1" by simp_all
  from assms(2) show ?thesis unfolding e less_4 by (elim disjE) (simp_all only: digits ab(1,2) m n)
qed

lemma periodic_rep8: "periodic ((u AND 0xff) * 0x01010101) 1"
proof -
  have b: "unat (byte_of ((u AND 0xff) * 0x01010101) k) = unat u mod 256" if "k < 4" for k
    unfolding unat_byte_of unat_rep8 by (rule rep8_digits [OF _ that]) simp
  have "nat ((d + int k) mod 4) < 4" for d k by (simp add: nat_less_iff)
  then show ?thesis unfolding periodic_def by (metis b word_unat_eq_iff)
qed

lemma periodic_rep16: "periodic ((u AND 0xffff) * 0x00010001) 2"
proof -
  let ?v = "(u AND 0xffff) * 0x00010001"
  have b: "unat (byte_of ?v k) = unat u mod 65536 div 256 ^ (k mod 2) mod 256" if "k < 4" for k
    unfolding unat_byte_of unat_rep16 by (rule rep16_digits [OF _ that]) simp
  show ?thesis unfolding periodic_def
  proof (intro allI impI)
    fix d :: int and k :: nat assume d: "d mod 2 = 0" and k: "k < 4"
    have "int (nat ((d + int k) mod 4) mod 2) = (d + int k) mod 2" by (simp add: zmod_int mod_mod_cancel)
    also have "\<dots> = int (k mod 2)" using d by (metis add_0 mod_add_left_eq zmod_int of_nat_numeral)
    finally have "nat ((d + int k) mod 4) mod 2 = k mod 2" by (simp only: of_nat_eq_iff)
    moreover have "nat ((d + int k) mod 4) < 4" by (simp add: nat_less_iff)
    ultimately have "unat (byte_of ?v k) = unat (byte_of ?v (nat ((d + int k) mod 4)))" using b k by simp
    then show "byte_of ?v k = byte_of ?v (nat ((d + int k) mod 4))" by (rule word_unat_eq_iff [THEN iffD2])
  qed
qed

lemma ucast_rep: "(ucast ((u AND 0xff) * 0x01010101 :: u32) :: u8) = ucast u" "(ucast ((u AND 0xffff) * 0x00010001 :: u32) :: u16) = ucast u"
proof -
  have "unat u mod 256 * 0x01010101 mod 256 = unat u mod 256" using rep8_digits [of "unat u mod 256" 0] by simp
  then show "(ucast ((u AND 0xff) * 0x01010101 :: u32) :: u8) = ucast u"
    by (intro word_unat_eq_iff [THEN iffD2]) (simp add: unsigned_ucast_eq take_bit_eq_mod unat_rep8)
  have "n * 0x00010001 mod 65536 = n mod 65536" for n :: nat
    using mod_mult_self1 [of n n 65536] by (simp add: algebra_simps)
  then have "unat u mod 65536 * 0x00010001 mod 65536 = unat u mod 65536" by (metis mod_mod_trivial)
  then show "(ucast ((u AND 0xffff) * 0x00010001 :: u32) :: u16) = ucast u"
    by (intro word_unat_eq_iff [THEN iffD2]) (simp add: unsigned_ucast_eq take_bit_eq_mod unat_rep16)
qed

lemma solid_pixel_copy: "solid_pixel w ROP_copy v d x y m = (\<lambda>i j. ucast v)"
  by (simp add: solid_pixel_def fun_eq_iff)

text \<open>
  C20: filling a rectangle. When pixman declines, on an image whose data and lines are aligned to 4 bytes
  as pixman requires, \<open>spice_pixman_fill_rect\<close> sets every pixel of the rectangle to the truncated colour
  and changes no other byte, although it writes 1, 2 and 4 bytes at a time across pixel borders.
\<close>

theorem fill_rect_pixels:
  assumes "image_ok d" "rect_inside d x y width height" "img_data d mod 4 = 0" "img_stride d mod 4 = 0"
    and "\<forall>a b c e f g h v m. pixman_fill a b c e f g h v m = None"
  shows "\<exists>m'. spice_pixman_fill_rect pixman_fill d x y width height value m = Inr m' \<and>
    drawn_depth d x y width height (\<lambda>i j. ucast value) (\<lambda>i j. ucast value) (\<lambda>i j. value) m m'"
proof -
  have w: "0 \<le> width" using assms(2) by (simp add: rect_inside_def)
  have 8: "fill_rows d height ((value AND 0xff) * 0x01010101) width (pixel_at TYPE(8) d x y) m =
      solid_rows TYPE(8) ROP_copy d x y width height ((value AND 0xff) * 0x01010101) m"
    using fill_rows_solid [where 'w = 8, OF _ _ assms(3,4) w, of "(value AND 0xff) * 0x01010101" height x y m] periodic_rep8 by simp
  have 16: "fill_rows d height ((value AND 0xffff) * 0x00010001) (2 * width) (pixel_at TYPE(16) d x y) m =
      solid_rows TYPE(16) ROP_copy d x y width height ((value AND 0xffff) * 0x00010001) m"
    using fill_rows_solid [where 'w = 16, OF _ _ assms(3,4) w, of "(value AND 0xffff) * 0x00010001" height x y m] periodic_rep16
    by (simp add: mult.commute)
  have 32: "fill_rows d height value (4 * width) (pixel_at TYPE(32) d x y) m = solid_rows TYPE(32) ROP_copy d x y width height value m"
    using fill_rows_solid [where 'w = 32, OF _ _ assms(3,4) w, of "value" height x y m] periodic_4 by (simp add: mult.commute)
  note dr = solid_rows_drawn [OF assms(2), of ROP_copy, unfolded solid_pixel_copy]
  show ?thesis
    using assms(1,2,5) dr(1) [of "(value AND 0xff) * 0x01010101" m] dr(2) [of "(value AND 0xffff) * 0x00010001" m] dr(3) [of "value" m]
    unfolding ucast_rep by (auto simp: spice_pixman_fill_rect_def Let_def 8 16 32 image_ok_def drawn_depth_def)
qed

theorem fill_rect_pixels_witness:
  "\<exists>m'. spice_pixman_fill_rect (\<lambda>_ _ _ _ _ _ _ _ _. None) demo_img 1 1 3 2 0x12345 (\<lambda>_. 0) = Inr m' \<and> load m' 14 = (0x2345 :: u16) \<and> m' 8 = 0"
proof -
  have r: "rect_inside demo_img 1 1 3 2" "img_data demo_img mod 4 = 0" "img_stride demo_img mod 4 = 0"
    by (simp_all add: rect_inside_def demo_img_def)
  obtain m' where m': "spice_pixman_fill_rect (\<lambda>_ _ _ _ _ _ _ _ _. None) demo_img 1 1 3 2 0x12345 (\<lambda>_. 0) = Inr m'"
    "drawn TYPE(16) demo_img 1 1 3 2 (\<lambda>i j. ucast (0x12345 :: u32)) (\<lambda>_. 0) m'"
    using fill_rect_pixels [OF demo_img_ok(1) r, of "\<lambda>_ _ _ _ _ _ _ _ _. None" "0x12345" "\<lambda>_. 0"] by (auto simp: drawn_depth_def demo_img_ok)
  have "load m' 14 = (0x2345 :: u16)"
    using m'(2) [unfolded drawn_def, THEN conjunct1, rule_format, of 2 0] by (simp add: pixel_at_def demo_img_def)
  moreover have "m' 8 = 0"
    using m'(2) [unfolded drawn_def, THEN conjunct2, rule_format, of 8] by (simp add: pixel_at_def demo_img_def)
  ultimately show ?thesis using m'(1) by blast
qed

end
