(* ===== verification/Pixman_Copy.thy ===== *)
theory Pixman_Copy
  imports Pixman_Ops
begin

text \<open>
  Copying a rectangle within an image, where source and destination may overlap. The code chooses the order
  of the lines by direction, so that no line is overwritten before it is read.
\<close>

section \<open>A sequence of line copies\<close>

text \<open>
  Lines copied by the same distance, each read before it is written, add up to one move.
\<close>

definition moved :: "int set \<Rightarrow> int \<Rightarrow> mem \<Rightarrow> mem" where
  "moved A dist m = (\<lambda>a. if a \<in> A then m (a + dist) else m a)"

lemma copy_bytes_moved: "copy_bytes p (p + dist) n m = moved {p ..< p + n} dist m"
  by (auto simp: copy_bytes_def moved_def fun_eq_iff algebra_simps)

lemma moved_moved:
  assumes "\<And>a. a \<in> B \<Longrightarrow> a + dist \<notin> A"
  shows "moved B dist (moved A dist m) = moved (A \<union> B) dist m"
  using assms by (auto simp: moved_def fun_eq_iff)

lemma copy_lines_moved:
  assumes "step \<noteq> 0" "N \<le> fuel"
    and "\<And>k m. k < N \<Longrightarrow> copy (p + int k * step) (p + int k * step + dist) n m = Inr (copy_bytes (p + int k * step) (p + int k * step + dist) n m)"
    and "\<And>j k a. j < k \<Longrightarrow> k < N \<Longrightarrow> a \<in> row p step n k \<Longrightarrow> a + dist \<notin> row p step n j"
  shows "copy_lines copy fuel step n (p + int N * step) p (p + dist) m = Inr (moved (\<Union>k<N. row p step n k) dist m)"
  using assms(2-4)
proof (induction N arbitrary: p fuel m)
  case 0
  then show ?case by (subst copy_lines.simps) (simp add: moved_def)
next
  case (Suc N)
  obtain f where f: "fuel = Suc f" "N \<le> f" using Suc.prems(1) by (cases fuel) auto
  have "int (Suc N) * step \<noteq> 0" using assms(1) by simp
  then have "copy_lines copy fuel step n (p + int (Suc N) * step) p (p + dist) m =
      copy_lines copy f step n (p + step + int N * step) (p + step) (p + step + dist) (moved {p ..< p + n} dist m)"
    using Suc.prems(2) [of 0 m] unfolding copy_bytes_moved [symmetric]
    by (subst copy_lines.simps) (simp add: f algebra_simps)
  also have "\<dots> = Inr (moved (\<Union>k<N. row (p + step) step n k) dist (moved {p ..< p + n} dist m))"
  proof (rule Suc.IH [OF f(2)])
    fix k m assume "k < N"
    then show "copy (p + step + int k * step) (p + step + int k * step + dist) n m =
        Inr (copy_bytes (p + step + int k * step) (p + step + int k * step + dist) n m)"
      using Suc.prems(2) [of "Suc k" m] by (simp add: algebra_simps)
  next
    fix j k a assume "j < k" "k < N" "a \<in> row (p + step) step n k"
    then show "a + dist \<notin> row (p + step) step n j" using Suc.prems(3) [of "Suc j" "Suc k" a] by (simp add: row_Suc)
  qed
  also have "moved (\<Union>k<N. row (p + step) step n k) dist (moved {p ..< p + n} dist m) =
      moved ({p ..< p + n} \<union> (\<Union>k<N. row (p + step) step n k)) dist m"
    using Suc.prems(3) [of 0] by (intro moved_moved) (auto simp: row_0 simp flip: row_Suc)
  also have "{p ..< p + n} \<union> (\<Union>k<N. row (p + step) step n k) = (\<Union>k<Suc N. row p step n k)"
    by (simp add: lessThan_Suc_eq_insert_0 row_0 row_Suc UN_extend_simps)
  finally show ?case .
qed


section \<open>Lines of an image\<close>

text \<open>Line r of a rectangle that starts x bytes into the lines of an image and is n bytes wide.\<close>

definition img_line :: "int \<Rightarrow> int \<Rightarrow> int \<Rightarrow> int \<Rightarrow> int \<Rightarrow> int set" where
  "img_line data stride x n r = {data + r * stride + x ..< data + r * stride + x + n}"

lemma line_gap:
  fixes data stride :: int
  assumes "0 \<le> x" "x + n \<le> stride" "0 \<le> x'" "0 < stride" "r < r'"
  shows "data + r * stride + x + n \<le> data + r' * stride + x'"
proof -
  have "stride * 1 \<le> stride * (r' - r)" using assms(4,5) by (intro mult_left_mono) auto
  then have "stride \<le> r' * stride - r * stride" by (simp add: algebra_simps)
  then show ?thesis using assms by linarith
qed

lemma img_line_disjoint:
  assumes "0 < stride" "0 \<le> x" "x + n \<le> stride" "0 \<le> x'" "x' + n \<le> stride" "r \<noteq> r'" "a \<in> img_line data stride x n r"
  shows "a \<notin> img_line data stride x' n r'"
  using line_gap [of x n stride x' r r' data] line_gap [of x' n stride x r' r data] assms by (cases "r < r'") (auto simp: img_line_def)

lemma row_img_line: "row (data + r * stride + x) (s * stride) n k = img_line data stride x n (r + int k * s)"
  by (simp add: row_def img_line_def algebra_simps)

lemma img_line_shift:
  "a \<in> img_line data stride x n r \<Longrightarrow> a + ((q - r) * stride + (x' - x)) \<in> img_line data stride x' n q"
  by (simp add: img_line_def algebra_simps)

text \<open>
  The common case of the three loops: lines \<open>dy + k * s\<close> and \<open>sy + k * s\<close> with s = 1 going up and s = - 1 going
  down. A line already written is never a source line that is still to come.
\<close>

lemma copy_lines_rect:
  assumes S: "0 < stride" "0 \<le> x" "x + n \<le> stride" "0 \<le> x'" "x' + n \<le> stride" "0 \<le> n"
    and s: "s = 1 \<or> s = - 1" and ord: "\<And>j k. j < k \<Longrightarrow> k < N \<Longrightarrow> sy + int k * s \<noteq> dy + int j * s"
    and cp: "copy = memmove \<or> copy = memcpy \<and> sy \<noteq> dy" and f: "N \<le> fuel"
  shows "copy_lines copy fuel (s * stride) n (data + dy * stride + x + int N * (s * stride)) (data + dy * stride + x)
      (data + sy * stride + x') m = Inr (moved (\<Union>k<N. img_line data stride x n (dy + int k * s)) ((sy - dy) * stride + (x' - x)) m)"
proof -
  let ?p = "data + dy * stride + x" and ?d = "(sy - dy) * stride + (x' - x)"
  have src: "?p + ?d = data + sy * stride + x'" by (simp add: algebra_simps)
  have "copy_lines copy fuel (s * stride) n (?p + int N * (s * stride)) ?p (?p + ?d) m =
      Inr (moved (\<Union>k<N. row ?p (s * stride) n k) ?d m)"
  proof (rule copy_lines_moved [OF _ f])
    show "s * stride \<noteq> 0" using S(1) s by auto
  next
    fix k m
    let ?q = "?p + int k * (s * stride)"
    have e: "?q = data + (dy + int k * s) * stride + x" "?q + ?d = data + (sy + int k * s) * stride + x'" by (simp_all add: algebra_simps)
    have "sy \<noteq> dy \<Longrightarrow> \<not> (?q < ?q + ?d + n \<and> ?q + ?d < ?q + n)"
      unfolding e(2) unfolding e(1)
      using line_gap [of x n stride x' "dy + int k * s" "sy + int k * s" data] line_gap [of x' n stride x "sy + int k * s" "dy + int k * s" data] S
      by (cases "dy < sy") auto
    then show "copy ?q (?q + ?d) n m = Inr (copy_bytes ?q (?q + ?d) n m)"
      using cp S(6) by (auto simp: memcpy_def memmove_def)
  next
    fix j k a assume jk: "j < k" "k < N" and a: "a \<in> row ?p (s * stride) n k"
    have "a + ?d \<in> img_line data stride x' n (sy + int k * s)"
      using img_line_shift [of a data stride x n "dy + int k * s" "sy + int k * s" x'] a unfolding row_img_line by simp
    then show "a + ?d \<notin> row ?p (s * stride) n j"
      unfolding row_img_line using img_line_disjoint [OF S(1,4,5,2,3) ord [OF jk]] by blast
  qed
  then show ?thesis unfolding src row_img_line .
qed

lemma rect_lines_up:
  assumes "0 \<le> h"
  shows "(\<Union>k<nat h. img_line D S x n (y + int k * 1)) = (\<Union>j\<in>{0..<h}. img_line D S x n (y + j))"
proof -
  have i: "int ` {..<nat h} = {0..<h}"
  proof (rule set_eqI)
    fix j show "j \<in> int ` {..<nat h} \<longleftrightarrow> j \<in> {0..<h}" using assms by (auto intro!: image_eqI [of _ _ "nat j"])
  qed
  show ?thesis unfolding i [symmetric] by simp
qed

lemma rect_lines_down:
  assumes "0 \<le> h"
  shows "(\<Union>k<nat h. img_line D S x n (y + h - 1 + int k * - 1)) = (\<Union>j\<in>{0..<h}. img_line D S x n (y + j))"
proof -
  have i: "(\<lambda>k. h - 1 - int k) ` {..<nat h} = {0..<h}"
  proof (rule set_eqI)
    fix j show "j \<in> (\<lambda>k. h - 1 - int k) ` {..<nat h} \<longleftrightarrow> j \<in> {0..<h}" using assms by (auto intro!: image_eqI [of _ _ "nat (h - 1 - j)"])
  qed
  show ?thesis unfolding i [symmetric] by (simp add: algebra_simps)
qed


definition copy_img :: pixman_image where
  "copy_img = \<lparr>img_width = 4, img_height = 4, img_data = 0, img_stride = 8, img_depth = 16\<rparr>"


end
