(* ===== verification/Palette.thy ===== *)
theory Palette
  imports Prelude
begin

text \<open>
  The palette of draw.h (\<open>SpicePalette\<close>), which the bitmap conversions of pixman_utils.c and
  the decompression of palette images in lz.c share. \<open>ents\<close> is the memory behind the flexible
  array: its length may differ from \<open>num_ents\<close>, the count the sender wrote.
\<close>

record spice_palette =
  pal_unique :: u64
  num_ents :: u16
  ents :: "u32 list"

end
