(* ===== verification/Pixman_Bitmap.thy ===== *)
theory Pixman_Bitmap
  imports Pixman_Blit Palette
begin

text \<open>
  The bitmap formats of the protocol and their conversion to pixman images (the second half of
  spice-common/common/pixman_utils.c, in its little-endian configuration): which pixman format a bitmap has, viewing
  a bitmap as an image, and converting true-colour and palette bitmaps line by line. The functions of
  pixman that create and compose images are arguments.
\<close>

section \<open>Formats\<close>

abbreviation "SPICE_BITMAP_FMT_1BIT_LE \<equiv> 1 :: int"
abbreviation "SPICE_BITMAP_FMT_1BIT_BE \<equiv> 2 :: int"
abbreviation "SPICE_BITMAP_FMT_4BIT_LE \<equiv> 3 :: int"
abbreviation "SPICE_BITMAP_FMT_4BIT_BE \<equiv> 4 :: int"
abbreviation "SPICE_BITMAP_FMT_8BIT \<equiv> 5 :: int"
abbreviation "SPICE_BITMAP_FMT_16BIT \<equiv> 6 :: int"
abbreviation "SPICE_BITMAP_FMT_24BIT \<equiv> 7 :: int"
abbreviation "SPICE_BITMAP_FMT_32BIT \<equiv> 8 :: int"
abbreviation "SPICE_BITMAP_FMT_RGBA \<equiv> 9 :: int"
abbreviation "SPICE_BITMAP_FMT_8BIT_A \<equiv> 10 :: int"

abbreviation "SPICE_SURFACE_FMT_1_A \<equiv> 1 :: u32"
abbreviation "SPICE_SURFACE_FMT_8_A \<equiv> 8 :: u32"
abbreviation "SPICE_SURFACE_FMT_16_555 \<equiv> 16 :: u32"
abbreviation "SPICE_SURFACE_FMT_32_xRGB \<equiv> 32 :: u32"
abbreviation "SPICE_SURFACE_FMT_16_565 \<equiv> 80 :: u32"
abbreviation "SPICE_SURFACE_FMT_32_ARGB \<equiv> 96 :: u32"

abbreviation "SPICE_BITMAP_FLAGS_TOP_DOWN \<equiv> 4 :: u32"

datatype pixman_format = PIXMAN_a1 | PIXMAN_a8 | PIXMAN_x1r5g5b5 | PIXMAN_r5g6b5 | PIXMAN_r8g8b8 | PIXMAN_x8r8g8b8 | PIXMAN_a8r8g8b8

definition spice_surface_format_to_pixman :: "u32 \<Rightarrow> pixman_format res" where
  "spice_surface_format_to_pixman f =
     (if f = SPICE_SURFACE_FMT_1_A then Inr PIXMAN_a1
      else if f = SPICE_SURFACE_FMT_8_A then Inr PIXMAN_a8
      else if f = SPICE_SURFACE_FMT_16_555 then Inr PIXMAN_x1r5g5b5
      else if f = SPICE_SURFACE_FMT_16_565 then Inr PIXMAN_r5g6b5
      else if f = SPICE_SURFACE_FMT_32_xRGB then Inr PIXMAN_x8r8g8b8
      else if f = SPICE_SURFACE_FMT_32_ARGB then Inr PIXMAN_a8r8g8b8
      else Inl Abort)"

definition spice_bitmap_format_to_pixman :: "int \<Rightarrow> u32 \<Rightarrow> pixman_format res" where
  "spice_bitmap_format_to_pixman f palette_surface_format =
     (if f = SPICE_BITMAP_FMT_1BIT_LE \<or> f = SPICE_BITMAP_FMT_1BIT_BE \<or> f = SPICE_BITMAP_FMT_4BIT_LE \<or>
         f = SPICE_BITMAP_FMT_4BIT_BE \<or> f = SPICE_BITMAP_FMT_8BIT
      then spice_surface_format_to_pixman palette_surface_format
      else if f = SPICE_BITMAP_FMT_16BIT then Inr PIXMAN_x1r5g5b5
      else if f = SPICE_BITMAP_FMT_24BIT \<or> f = SPICE_BITMAP_FMT_32BIT then Inr PIXMAN_x8r8g8b8
      else if f = SPICE_BITMAP_FMT_RGBA then Inr PIXMAN_a8r8g8b8
      else if f = SPICE_BITMAP_FMT_8BIT_A then Inr PIXMAN_a8
      else Inl Abort)"

text \<open>\<open>pixman_image_create_bits\<close>: format, width, height, data and stride to the image, None when it fails.\<close>

type_synonym create_bits_fn = "pixman_format \<Rightarrow> int \<Rightarrow> int \<Rightarrow> int option \<Rightarrow> int \<Rightarrow> pixman_image option"

definition spice_bitmap_try_as_pixman :: "create_bits_fn \<Rightarrow> int \<Rightarrow> u32 \<Rightarrow> int \<Rightarrow> int \<Rightarrow> int \<Rightarrow> int \<Rightarrow> pixman_image option" where
  "spice_bitmap_try_as_pixman create_bits src_format flags width height data stride =
     (if stride smod 4 \<noteq> 0 then None
      else case (if src_format = SPICE_BITMAP_FMT_32BIT then Some PIXMAN_x8r8g8b8
                 else if src_format = SPICE_BITMAP_FMT_RGBA then Some PIXMAN_a8r8g8b8
                 else if src_format = SPICE_BITMAP_FMT_24BIT then Some PIXMAN_r8g8b8
                 else if src_format = SPICE_BITMAP_FMT_16BIT then Some PIXMAN_x1r5g5b5
                 else None) of
        None \<Rightarrow> None
      | Some f \<Rightarrow>
          let (data, stride) = (if flags AND SPICE_BITMAP_FLAGS_TOP_DOWN = 0
                                then (data + stride * (height - 1), - stride) else (data, stride))
          in create_bits f width height (Some data) stride)"

definition rgb_16_555_to_32 :: "u16 \<Rightarrow> u32" where
  "rgb_16_555_to_32 color =
     (let c = ucast color :: u32 in
      (push_bit 3 (c AND 0x001f) OR drop_bit 2 (c AND 0x001c)) OR
      (push_bit 6 (c AND 0x03e0) OR push_bit 1 (c AND 0x0380)) OR
      (push_bit 9 (c AND 0x7c00) OR push_bit 4 (c AND 0x7000)))"

definition rgb_32_to_16_555 :: "u32 \<Rightarrow> u16" where
  "rgb_32_to_16_555 color =
     ucast ((drop_bit 3 color AND 0x001f) OR (drop_bit 6 color AND 0x03e0) OR (drop_bit 9 color AND 0x7c00))"


section \<open>Palettes\<close>

text \<open>
  With fewer entries than the bound the code copies the palette to a local array and reads that, whose other elements are not
  initialised: \<open>uninit\<close> gives what they hold. Otherwise it indexes the palette itself.
\<close>

definition pal_lookup :: "nat \<Rightarrow> nat \<Rightarrow> (nat \<Rightarrow> u32) \<Rightarrow> spice_palette \<Rightarrow> nat \<Rightarrow> u32 res" where
  "pal_lookup size_ents bound uninit p i =
     (let n_ents = min (unat (num_ents p)) size_ents in
      if n_ents < bound
      then (if n_ents \<le> length (ents p) \<and> i < size_ents then Inr (if i < n_ents then ents p ! i else uninit i) else Inl OutOfBounds)
      else index_list (ents p) (int i))"


section \<open>Lines\<close>

text \<open>\<open>for (; src != end; src += src_stride, dest += dest_stride)\<close>\<close>

fun conv_lines :: "(int \<Rightarrow> int \<Rightarrow> mem \<Rightarrow> mem res) \<Rightarrow> nat \<Rightarrow> int \<Rightarrow> int \<Rightarrow> int \<Rightarrow> int \<Rightarrow> int \<Rightarrow> mem \<Rightarrow> mem res" where
  "conv_lines line fuel dest_stride src_stride stop dest src m =
     (if src = stop then Inr m
      else case fuel of 0 \<Rightarrow> Inl NoFuel | Suc k \<Rightarrow>
        rbind (line dest src m) (conv_lines line k dest_stride src_stride stop (dest + dest_stride) (src + src_stride)))"

declare conv_lines.simps [simp del]

definition bitmap_32_to_32 :: "nat \<Rightarrow> int \<Rightarrow> int \<Rightarrow> int \<Rightarrow> int \<Rightarrow> int \<Rightarrow> int \<Rightarrow> mem \<Rightarrow> mem res" where
  "bitmap_32_to_32 fuel dest dest_stride src src_stride width stop =
     conv_lines (\<lambda>d s. memcpy d s (width * 4)) fuel dest_stride src_stride stop dest src"

definition bitmap_8_to_8 :: "nat \<Rightarrow> int \<Rightarrow> int \<Rightarrow> int \<Rightarrow> int \<Rightarrow> int \<Rightarrow> int \<Rightarrow> mem \<Rightarrow> mem res" where
  "bitmap_8_to_8 fuel dest dest_stride src src_stride width stop =
     conv_lines (\<lambda>d s. memcpy d s width) fuel dest_stride src_stride stop dest src"

definition bitmap_16_to_16_555 :: "nat \<Rightarrow> int \<Rightarrow> int \<Rightarrow> int \<Rightarrow> int \<Rightarrow> int \<Rightarrow> int \<Rightarrow> mem \<Rightarrow> mem res" where
  "bitmap_16_to_16_555 fuel dest dest_stride src src_stride width stop =
     conv_lines (\<lambda>d s. memcpy d s (width * 2)) fuel dest_stride src_stride stop dest src"

definition pixel_24 :: "mem \<Rightarrow> int \<Rightarrow> u32" where
  "pixel_24 m src = (let b = ucast (m src); g = ucast (m (src + 1)); r = ucast (m (src + 2)) in push_bit 16 r OR push_bit 8 g OR b)"

definition bitmap_24_to_32 :: "nat \<Rightarrow> int \<Rightarrow> int \<Rightarrow> int \<Rightarrow> int \<Rightarrow> int \<Rightarrow> int \<Rightarrow> mem \<Rightarrow> mem res" where
  "bitmap_24_to_32 fuel dest dest_stride src src_stride width stop =
     conv_lines (\<lambda>d s m. Inr (line_loop (\<lambda>m src (_ :: u32). pixel_24 m src) (\<lambda>src. src + 3) (nat width) d s m))
       fuel dest_stride src_stride stop dest src"

text \<open>
  A line of palette pixels: \<open>idx\<close> gives the index of the pixel at the loop's position, the entry is
  stored at the width of the destination.
\<close>

fun pal_line :: "'w::len itself \<Rightarrow> (nat \<Rightarrow> u32 res) \<Rightarrow> (mem \<Rightarrow> 'a \<Rightarrow> nat) \<Rightarrow> ('a \<Rightarrow> 'a) \<Rightarrow> nat \<Rightarrow> int \<Rightarrow> 'a \<Rightarrow> mem \<Rightarrow> mem res" where
  "pal_line w look idx nxt 0 d a m = Inr m"
| "pal_line w look idx nxt (Suc n) d a m =
     rbind (look (idx m a)) (\<lambda>e. pal_line w look idx nxt n (d + sizeof w) (nxt a) (store m d (ucast e :: 'w word)))"

definition bitmap_8_pal :: "'w::len itself \<Rightarrow> (nat \<Rightarrow> u32) \<Rightarrow> spice_palette option \<Rightarrow> nat \<Rightarrow> int \<Rightarrow> int \<Rightarrow> int \<Rightarrow> int \<Rightarrow> int \<Rightarrow> int \<Rightarrow> mem \<Rightarrow> mem res" where
  "bitmap_8_pal w uninit palette fuel dest dest_stride src src_stride width stop m =
     (case palette of None \<Rightarrow> Inl Abort
      | Some p \<Rightarrow> conv_lines (\<lambda>d s. pal_line w (pal_lookup 256 255 uninit p) (\<lambda>m s. unat (m s)) (\<lambda>s. s + 1) (nat width) d s)
          fuel dest_stride src_stride stop dest src m)"

text \<open>Two pixels to a byte, the first in its high half; an odd width ends with half a byte.\<close>

fun nibble_line :: "'w::len itself \<Rightarrow> (nat \<Rightarrow> u32 res) \<Rightarrow> bool \<Rightarrow> nat \<Rightarrow> int \<Rightarrow> int \<Rightarrow> mem \<Rightarrow> mem res" where
  "nibble_line w look odd_width 0 d rp m =
     (if odd_width then rbind (look (unat (drop_bit 4 (m rp) AND 0x0f))) (\<lambda>e. Inr (store m d (ucast e :: 'w word))) else Inr m)"
| "nibble_line w look odd_width (Suc n) d rp m =
     rbind (look (unat (drop_bit 4 (m rp) AND 0x0f))) (\<lambda>e.
       let m1 = store m d (ucast e :: 'w word) in
       rbind (look (unat (m1 rp AND 0x0f))) (\<lambda>e'.
         nibble_line w look odd_width n (d + 2 * sizeof w) (rp + 1) (store m1 (d + sizeof w) (ucast e' :: 'w word))))"

definition bitmap_4be_pal :: "'w::len itself \<Rightarrow> (nat \<Rightarrow> u32) \<Rightarrow> spice_palette option \<Rightarrow> nat \<Rightarrow> int \<Rightarrow> int \<Rightarrow> int \<Rightarrow> int \<Rightarrow> int \<Rightarrow> int \<Rightarrow> mem \<Rightarrow> mem res" where
  "bitmap_4be_pal w uninit palette fuel dest dest_stride src src_stride width stop m =
     (case palette of None \<Rightarrow> Inl Abort
      | Some p \<Rightarrow> conv_lines (\<lambda>d s. nibble_line w (pal_lookup 16 16 uninit p) (odd width) (nat (width div 2)) d s)
          fuel dest_stride src_stride stop dest src m)"

definition test_bit_be :: "mem \<Rightarrow> int \<Rightarrow> nat \<Rightarrow> bool" where
  "test_bit_be m addr b = (m (addr + int (b div 8)) AND drop_bit (b mod 8) 0x80 \<noteq> 0)"

definition bitmap_1be_pal :: "'w::len itself \<Rightarrow> spice_palette option \<Rightarrow> nat \<Rightarrow> int \<Rightarrow> int \<Rightarrow> int \<Rightarrow> int \<Rightarrow> int \<Rightarrow> int \<Rightarrow> mem \<Rightarrow> mem res" where
  "bitmap_1be_pal w palette fuel dest dest_stride src src_stride width stop m =
     (case palette of None \<Rightarrow> Inl Abort
      | Some p \<Rightarrow>
          rbind (index_list (ents p) 1) (\<lambda>fore_color.
          rbind (index_list (ents p) 0) (\<lambda>back_color.
            conv_lines (\<lambda>d s m. Inr (line_loop (\<lambda>m (s, i) (_ :: 'w word). ucast (if test_bit_be m s i then fore_color else back_color))
                (\<lambda>(s, i). (s, Suc i)) (nat width) d (s, 0) m)) fuel dest_stride src_stride stop dest src m)))"


section \<open>Conversion\<close>

definition pal_32 :: "u32 \<Rightarrow> bool" where
  "pal_32 f \<longleftrightarrow> f = SPICE_SURFACE_FMT_32_ARGB \<or> f = SPICE_SURFACE_FMT_32_xRGB"

definition by_palette :: "u32 \<Rightarrow> mem res \<Rightarrow> mem res \<Rightarrow> mem res" where
  "by_palette f r32 r16 = (if pal_32 f then r32 else if f = SPICE_SURFACE_FMT_16_555 then r16 else Inl Abort)"

text \<open>The switch on the format.\<close>

definition convert_lines :: "(nat \<Rightarrow> u32) \<Rightarrow> nat \<Rightarrow> int \<Rightarrow> int \<Rightarrow> int \<Rightarrow> int \<Rightarrow> int \<Rightarrow> int \<Rightarrow> int \<Rightarrow> u32 \<Rightarrow> spice_palette option \<Rightarrow> mem \<Rightarrow> mem res" where
  "convert_lines uninit fuel dest dest_stride src_format width src src_stride stop palette_surface_format palette m =
     (if src_format = SPICE_BITMAP_FMT_32BIT \<or> src_format = SPICE_BITMAP_FMT_RGBA
      then bitmap_32_to_32 fuel dest dest_stride src src_stride width stop m
      else if src_format = SPICE_BITMAP_FMT_8BIT_A then bitmap_8_to_8 fuel dest dest_stride src src_stride width stop m
      else if src_format = SPICE_BITMAP_FMT_24BIT then bitmap_24_to_32 fuel dest dest_stride src src_stride width stop m
      else if src_format = SPICE_BITMAP_FMT_16BIT then bitmap_16_to_16_555 fuel dest dest_stride src src_stride width stop m
      else if src_format = SPICE_BITMAP_FMT_8BIT
      then by_palette palette_surface_format
        (bitmap_8_pal TYPE(32) uninit palette fuel dest dest_stride src src_stride width stop m)
        (bitmap_8_pal TYPE(16) uninit palette fuel dest dest_stride src src_stride width stop m)
      else if src_format = SPICE_BITMAP_FMT_4BIT_BE
      then by_palette palette_surface_format
        (bitmap_4be_pal TYPE(32) uninit palette fuel dest dest_stride src src_stride width stop m)
        (bitmap_4be_pal TYPE(16) uninit palette fuel dest dest_stride src src_stride width stop m)
      else if src_format = SPICE_BITMAP_FMT_1BIT_BE
      then by_palette palette_surface_format
        (bitmap_1be_pal TYPE(32) palette fuel dest dest_stride src src_stride width stop m)
        (bitmap_1be_pal TYPE(16) palette fuel dest dest_stride src src_stride width stop m)
      else Inl Abort)"

definition spice_bitmap_to_pixman :: "create_bits_fn \<Rightarrow> (nat \<Rightarrow> u32) \<Rightarrow> nat \<Rightarrow> pixman_image option \<Rightarrow> int \<Rightarrow> u32 \<Rightarrow> int \<Rightarrow> int \<Rightarrow> int \<Rightarrow> int \<Rightarrow>
    u32 \<Rightarrow> spice_palette option \<Rightarrow> mem \<Rightarrow> (pixman_image \<times> mem) res" where
  "spice_bitmap_to_pixman create_bits uninit fuel dest_image src_format flags width height src src_stride palette_surface_format palette m =
     rbind (case dest_image of
              Some d \<Rightarrow> Inr d
            | None \<Rightarrow> rbind (spice_bitmap_format_to_pixman src_format palette_surface_format) (\<lambda>f.
                deref (create_bits f width height None 0))) (\<lambda>d.
     rbind (if flags AND SPICE_BITMAP_FLAGS_TOP_DOWN = 0
            then spice_assert (height > 0) (Inr (img_data d + img_stride d * (height - 1), - img_stride d))
            else Inr (img_data d, img_stride d)) (\<lambda>(dest, dest_stride).
       rbind (convert_lines uninit fuel dest dest_stride src_format width src src_stride (src + height * src_stride) palette_surface_format palette m)
         (\<lambda>m'. Inr (d, m'))))"

definition pixman_format_compatible :: "pixman_format \<Rightarrow> pixman_format \<Rightarrow> bool" where
  "pixman_format_compatible dest_format src_format \<longleftrightarrow>
     dest_format = src_format \<or> src_format = PIXMAN_a8r8g8b8 \<and> dest_format = PIXMAN_x8r8g8b8"

definition spice_bitmap_convert_to_pixman :: "create_bits_fn \<Rightarrow> (pixman_image \<Rightarrow> pixman_image \<Rightarrow> int \<Rightarrow> int \<Rightarrow> mem \<Rightarrow> mem) \<Rightarrow> (nat \<Rightarrow> u32) \<Rightarrow> nat \<Rightarrow>
    pixman_format \<Rightarrow> pixman_image option \<Rightarrow> int \<Rightarrow> u32 \<Rightarrow> int \<Rightarrow> int \<Rightarrow> int \<Rightarrow> int \<Rightarrow> u32 \<Rightarrow> spice_palette option \<Rightarrow> mem \<Rightarrow> (pixman_image \<times> mem) res" where
  "spice_bitmap_convert_to_pixman create_bits composite uninit fuel dest_format dest_image src_format flags width height src src_stride
       palette_surface_format palette m =
     rbind (case dest_image of Some d \<Rightarrow> Inr d | None \<Rightarrow> deref (create_bits dest_format width height None 0)) (\<lambda>d.
     rbind (spice_bitmap_format_to_pixman src_format palette_surface_format) (\<lambda>native_format.
       if pixman_format_compatible dest_format native_format
       then spice_bitmap_to_pixman create_bits uninit fuel (Some d) src_format flags width height src src_stride palette_surface_format palette m
       else rbind (case spice_bitmap_try_as_pixman create_bits src_format flags width height src src_stride of
                     Some s \<Rightarrow> Inr (s, m)
                   | None \<Rightarrow> spice_bitmap_to_pixman create_bits uninit fuel None src_format flags width height src src_stride
                       palette_surface_format palette m)
              (\<lambda>(s, m'). Inr (d, composite s d width height m'))))"


section \<open>15-bit colours\<close>

lemma rgb_masks:
  "(0x001f :: u32) = mask 5" "(0x001c :: u32) = push_bit 2 (mask 3)" "(0x03e0 :: u32) = push_bit 5 (mask 5)"
  "(0x0380 :: u32) = push_bit 7 (mask 3)" "(0x7c00 :: u32) = push_bit 10 (mask 5)" "(0x7000 :: u32) = push_bit 12 (mask 3)"
  "(0x7fff :: u16) = mask 15"
  by (simp_all add: mask_eq_exp_minus_1 push_bit_eq_mult)

lemmas rgb_bits = bit_unsigned_iff bit_or_iff bit_and_iff bit_drop_bit_eq bit_push_bit_iff bit_mask_iff

lemma bit_32_to_16_555: "n < 16 \<Longrightarrow> bit (rgb_32_to_16_555 color) n =
    (n < 5 \<and> bit color (3 + n) \<or> 5 \<le> n \<and> n < 10 \<and> bit color (6 + n) \<or> 10 \<le> n \<and> n < 15 \<and> bit color (9 + n))"
  unfolding rgb_32_to_16_555_def rgb_masks
  by (simp add: rgb_bits del: push_bit_numeral) auto

lemma bit_16_555_to_32: "bit (rgb_16_555_to_32 c) n =
   (3 \<le> n \<and> n < 8 \<and> bit c (n - 3) \<or> n < 3 \<and> bit c (n + 2) \<or> 11 \<le> n \<and> n < 16 \<and> bit c (n - 6) \<or>
    8 \<le> n \<and> n < 11 \<and> bit c (n - 1) \<or> 19 \<le> n \<and> n < 24 \<and> bit c (n - 9) \<or> 16 \<le> n \<and> n < 19 \<and> bit c (n - 4))"
proof -
  consider "n < 3" | "3 \<le> n" "n < 8" | "8 \<le> n" "n < 11" | "11 \<le> n" "n < 16" | "16 \<le> n" "n < 19" | "19 \<le> n" "n < 24" | "24 \<le> n"
    by linarith
  then show ?thesis
    unfolding rgb_16_555_to_32_def rgb_masks Let_def rgb_bits
    by cases (simp_all add: le_diff_conv2 less_diff_conv2 add.commute del: One_nat_def, linarith+)
qed

text \<open>15-bit colours widened to 32 bits come back, less the unused top bit.\<close>

theorem rgb_555_roundtrip: "rgb_32_to_16_555 (rgb_16_555_to_32 c) = c AND 0x7fff"
proof (rule bit_word_eqI)
  fix n assume "n < LENGTH(16)"
  then have n: "n < 16" by simp
  consider "n < 5" | "5 \<le> n" "n < 10" | "10 \<le> n" "n < 15" | "n = 15" using n by linarith
  then show "bit (rgb_32_to_16_555 (rgb_16_555_to_32 c)) n = bit (c AND 0x7fff) n"
    unfolding bit_32_to_16_555 [OF n] bit_16_555_to_32 rgb_masks(7)
    by cases (simp_all add: bit_and_iff bit_mask_iff)
qed


section \<open>What a conversion writes\<close>

lemma value_pixel_op:
  assumes "8 dvd LENGTH('w::len)" "\<And>m m' a. (\<And>x. x \<in> reads a \<Longrightarrow> m' x = m x) \<Longrightarrow> F m' a = F m a"
  shows "pixel_op (\<lambda>m a (_ :: 'w word). F m a) reads"
  unfolding pixel_op_def using assms by blast

lemma conv_lines_rows:
  assumes "src_stride \<noteq> 0" "N \<le> fuel"
    and "\<And>k m. k < N \<Longrightarrow> line (dest + int k * dest_stride) (src + int k * src_stride) m = Inr (body (dest + int k * dest_stride) (src + int k * src_stride) m)"
  shows "conv_lines line fuel dest_stride src_stride (src + int N * src_stride) dest src m =
    Inr (rows body (\<lambda>s. s + src_stride) dest_stride N dest src m)"
  using assms(2,3)
proof (induction N arbitrary: fuel dest src m)
  case 0
  then show ?case by (subst conv_lines.simps) simp
next
  case (Suc N)
  obtain f where f: "fuel = Suc f" "N \<le> f" using Suc.prems(1) by (cases fuel) auto
  have "int (Suc N) * src_stride \<noteq> 0" using assms(1) by simp
  then have "conv_lines line fuel dest_stride src_stride (src + int (Suc N) * src_stride) dest src m =
      conv_lines line f dest_stride src_stride (src + src_stride + int N * src_stride) (dest + dest_stride) (src + src_stride) (body dest src m)"
    using Suc.prems(2) [of 0 m] by (subst conv_lines.simps) (simp add: f algebra_simps)
  also have "\<dots> = Inr (rows body (\<lambda>s. s + src_stride) dest_stride N (dest + dest_stride) (src + src_stride) (body dest src m))"
  proof (rule Suc.IH [OF f(2)])
    fix k m assume "k < N"
    then show "line (dest + dest_stride + int k * dest_stride) (src + src_stride + int k * src_stride) m =
        Inr (body (dest + dest_stride + int k * dest_stride) (src + src_stride + int k * src_stride) m)"
      using Suc.prems(2) [of "Suc k" m] by (simp add: algebra_simps)
  qed
  finally show ?case by simp
qed

lemma pal_line_loop:
  assumes "\<And>m a. look (idx m a) = Inr (pal (idx m a))"
  shows "pal_line TYPE('w::len) look idx nxt n d a m = Inr (line_loop (\<lambda>m a (_ :: 'w word). ucast (pal (idx m a))) nxt n d a m)"
  by (induction n arbitrary: d a m) (simp_all add: assms)

definition nibble_index :: "mem \<Rightarrow> int \<times> bool \<Rightarrow> nat" where
  "nibble_index m = (\<lambda>(rp, high). if high then unat (drop_bit 4 (m rp) AND 0x0f) else unat (m rp AND 0x0f))"

definition nibble_next :: "int \<times> bool \<Rightarrow> int \<times> bool" where
  "nibble_next = (\<lambda>(rp, high). if high then (rp, False) else (rp + 1, True))"

lemma nibble_line_pal:
  "nibble_line TYPE('w::len) look b n d rp m =
    pal_line TYPE('w) look nibble_index nibble_next (2 * n + (if b then 1 else 0)) d (rp, True) m"
  by (induction n arbitrary: d rp m)
    (simp_all add: nibble_index_def nibble_next_def Let_def algebra_simps)

lemma nibble_steps: "(nibble_next ^^ i) (rp, True) = (rp + int (i div 2), even i)"
  by (induction i) (auto simp: nibble_next_def)

text \<open>The image as the conversion walks it: from the bottom line up unless the bitmap is stored top-down.\<close>

definition oriented :: "u32 \<Rightarrow> int \<Rightarrow> pixman_image \<Rightarrow> pixman_image" where
  "oriented flags height d = (if flags AND SPICE_BITMAP_FLAGS_TOP_DOWN = 0
     then d\<lparr>img_data := img_data d + img_stride d * (height - 1), img_stride := - img_stride d\<rparr> else d)"

lemma conv_drawn:
  assumes op: "pixel_op g reads" and w: "8 dvd LENGTH('w::len)"
    and r: "rect_inside d 0 0 width height" "lines_fit TYPE('w) d" "src_stride \<noteq> 0" "nat height \<le> fuel"
    and ln: "\<And>dl k m. k < nat height \<Longrightarrow> line (img_data d + int k * img_stride d) (src + int k * src_stride) m =
      Inr (line_loop g nxt (nat width) (img_data d + int k * img_stride d) (start (src + int k * src_stride)) m)"
    and ap: "\<And>k j. k < nat height \<Longrightarrow> j < nat width \<Longrightarrow> reads ((nxt ^^ j) (start (src + int k * src_stride))) \<inter> rect_bytes TYPE('w) d 0 0 width height = {}"
  shows "\<exists>m'. conv_lines line fuel (img_stride d) src_stride (src + height * src_stride) (img_data d) src m = Inr m' \<and>
    drawn TYPE('w) d 0 0 width height (\<lambda>i j. g m ((nxt ^^ nat i) (start (src + j * src_stride))) (load m (pixel_at TYPE('w) d i j) :: 'w word)) m m'"
proof -
  let ?R = "rows (\<lambda>l s. line_loop g nxt (nat width) l (start s)) (\<lambda>s. s + src_stride) (img_stride d) (nat height) (pixel_at TYPE('w) d 0 0) src m"
  have h: "int (nat height) = height" and p0: "pixel_at TYPE('w) d 0 0 = img_data d"
    using r(1) by (simp_all add: rect_inside_def pixel_at_def)
  have "conv_lines line fuel (img_stride d) src_stride (src + height * src_stride) (img_data d) src m = Inr ?R"
    using conv_lines_rows [OF r(3,4), of line "img_data d" "img_stride d" src "\<lambda>l s. line_loop g nxt (nat width) l (start s)" m] ln
    unfolding h p0 by simp
  moreover have "drawn TYPE('w) d 0 0 width height (\<lambda>i j. g m ((nxt ^^ nat i) (start (src + j * src_stride))) (load m (pixel_at TYPE('w) d i j) :: 'w word)) m ?R"
    by (rule drawn_cong [OF pixel_op.rows_drawn [OF op r(1,2)]]) (use ap in \<open>simp_all add: funpow_add\<close>)
  ultimately show ?thesis by blast
qed

text \<open>
  What the conversions need: an image with room for the bitmap whose bytes lie apart from the lines of
  the source, \<open>len\<close> bytes each, and enough fuel for the lines.
\<close>

definition conv_ok :: "'w::len itself \<Rightarrow> pixman_image \<Rightarrow> int \<Rightarrow> int \<Rightarrow> int \<Rightarrow> int \<Rightarrow> nat \<Rightarrow> int \<Rightarrow> bool" where
  "conv_ok w d width height src src_stride fuel len \<longleftrightarrow> rect_inside d 0 0 width height \<and> lines_fit w d \<and> src_stride \<noteq> 0 \<and>
     nat height \<le> fuel \<and> (\<forall>k < nat height. {src + int k * src_stride ..< src + int k * src_stride + len} \<inter> rect_bytes w d 0 0 width height = {})"

lemma conv_value:
  assumes ok: "conv_ok TYPE('w::len) d width height src src_stride fuel len" and w: "8 dvd LENGTH('w)"
    and rd: "\<And>m m' a. (\<And>x. x \<in> reads a \<Longrightarrow> m' x = m x) \<Longrightarrow> F m' a = (F m a :: 'w word)"
    and within: "\<And>s i. i < nat width \<Longrightarrow> reads ((nxt ^^ i) (start s)) \<subseteq> {s ..< s + len}"
    and ln: "\<And>k m. k < nat height \<Longrightarrow> line (img_data d + int k * img_stride d) (src + int k * src_stride) m =
      Inr (line_loop (\<lambda>m a (_ :: 'w word). F m a) nxt (nat width) (img_data d + int k * img_stride d) (start (src + int k * src_stride)) m)"
    and val: "\<And>s i. 0 \<le> i \<Longrightarrow> F m ((nxt ^^ nat i) (start s)) = V s i"
  shows "\<exists>m'. conv_lines line fuel (img_stride d) src_stride (src + height * src_stride) (img_data d) src m = Inr m' \<and>
    drawn TYPE('w) d 0 0 width height (\<lambda>i j. V (src + j * src_stride) i) m m'"
proof -
  note o = ok [unfolded conv_ok_def]
  have "\<exists>m'. conv_lines line fuel (img_stride d) src_stride (src + height * src_stride) (img_data d) src m = Inr m' \<and>
    drawn TYPE('w) d 0 0 width height (\<lambda>i j. F m ((nxt ^^ nat i) (start (src + j * src_stride)))) m m'"
  proof (rule conv_drawn [OF value_pixel_op [OF w rd] w])
    fix k j assume "k < nat height" "j < nat width"
    then show "reads ((nxt ^^ j) (start (src + int k * src_stride))) \<inter> rect_bytes TYPE('w) d 0 0 width height = {}"
      using o within [of j "src + int k * src_stride"] by blast
  qed (use o ln in auto)
  then show ?thesis using val by (blast intro: drawn_cong)
qed

lemma memcpy_line:
  assumes "conv_ok TYPE('w::len) d width height src src_stride fuel (width * sizeof TYPE('w))" "8 dvd LENGTH('w)" "k < nat height"
  shows "memcpy (img_data d + int k * img_stride d) (src + int k * src_stride) (width * sizeof TYPE('w)) m =
    Inr (line_loop (\<lambda>m a (_ :: 'w word). load m a) (\<lambda>a. a + sizeof TYPE('w)) (nat width) (img_data d + int k * img_stride d) (src + int k * src_stride) m)"
proof -
  let ?p = "img_data d + int k * img_stride d" and ?q = "src + int k * src_stride" and ?n = "width * sizeof TYPE('w)"
  note o = assms(1) [unfolded conv_ok_def]
  have pos: "0 < width" "0 < ?n" using o sizeof_pos [OF assms(2)] by (auto simp: rect_inside_def)
  have "{?q ..< ?q + ?n} \<inter> {?p ..< ?p + ?n} = {}"
  proof -
    have "{?p ..< ?p + ?n} = row (pixel_at TYPE('w) d 0 0) (img_stride d) (int (nat width) * sizeof TYPE('w)) k"
      using pos by (simp add: row_def pixel_at_def)
    also have "\<dots> \<subseteq> rect_bytes TYPE('w) d 0 0 width height" using rect_bytes_rows assms(3) pos by (metis less_imp_le subsetI)
    finally show ?thesis using o assms(3) by blast
  qed
  then have "?q + ?n \<le> ?p \<or> ?p + ?n \<le> ?q" using pos by (intro ivl_disjoint) simp_all
  then show ?thesis
    using copy_bytes_loop [OF assms(2), of ?q "nat width" ?p m] pos by (auto simp: memcpy_def)
qed

lemma advance_steps: "((\<lambda>a. a + c) ^^ i) s = s + int i * (c :: int)"
  by (induction i) (simp_all add: algebra_simps)

lemma item_within:
  fixes c :: int
  assumes "i < nat width" "0 < c"
  shows "{s + int i * c ..< s + int i * c + c} \<subseteq> {s ..< s + width * c}"
proof -
  have "(int i + 1) * c \<le> width * c" using assms by (intro mult_right_mono) auto
  then have "int i * c + c \<le> width * c" by (simp add: distrib_right)
  moreover have "0 \<le> int i * c" using assms by simp
  ultimately show ?thesis by auto
qed

lemma memcpy_conv:
  assumes ok: "conv_ok TYPE('w::len) d width height src src_stride fuel (width * sizeof TYPE('w))" and w: "8 dvd LENGTH('w)"
  shows "\<exists>m'. conv_lines (\<lambda>d s. memcpy d s (width * sizeof TYPE('w))) fuel (img_stride d) src_stride (src + height * src_stride) (img_data d) src m = Inr m' \<and>
    drawn TYPE('w) d 0 0 width height (\<lambda>i j. load m (src + j * src_stride + i * sizeof TYPE('w))) m m'"
proof (rule conv_value [where F = load and nxt = "\<lambda>a. a + sizeof TYPE('w)" and start = "\<lambda>s. s" and
      reads = "\<lambda>a. {a ..< a + sizeof TYPE('w)}", OF ok w])
  show "load m' a = (load m a :: 'w word)" if "\<And>x. x \<in> {a ..< a + sizeof TYPE('w)} \<Longrightarrow> m' x = m x" for m m' a
    using that by (intro load_cong [OF _ w]) (simp add: sizeof_def)
qed (use item_within [OF _ sizeof_pos [OF w]] memcpy_line [OF ok w] in \<open>simp_all add: advance_steps\<close>)

lemma conv_24:
  assumes ok: "conv_ok TYPE(32) d width height src src_stride fuel (width * 3)"
  shows "\<exists>m'. bitmap_24_to_32 fuel (img_data d) (img_stride d) src src_stride width (src + height * src_stride) m = Inr m' \<and>
    drawn TYPE(32) d 0 0 width height (\<lambda>i j. pixel_24 m (src + j * src_stride + i * 3)) m m'"
  unfolding bitmap_24_to_32_def
  by (rule conv_value [where F = pixel_24 and nxt = "\<lambda>a. a + 3" and start = "\<lambda>s. s" and reads = "\<lambda>a. {a ..< a + 3}", OF ok])
    (use item_within [of _ width 3] in \<open>simp_all add: advance_steps pixel_24_def\<close>)

lemma byte_less: "unat b < 256" for b :: u8
  by (rule less_le_trans [OF unsigned_less]) simp

lemma conv_8_pal:
  assumes ok: "conv_ok TYPE('w::len) d width height src src_stride fuel width" and w: "8 dvd LENGTH('w)"
    and pal: "\<And>i. i < 256 \<Longrightarrow> pal_lookup 256 255 uninit p i = Inr (pal i)"
  shows "\<exists>m'. bitmap_8_pal TYPE('w) uninit (Some p) fuel (img_data d) (img_stride d) src src_stride width (src + height * src_stride) m = Inr m' \<and>
    drawn TYPE('w) d 0 0 width height (\<lambda>i j. ucast (pal (unat (m (src + j * src_stride + i))))) m m'"
proof -
  have l: "pal_line TYPE('w) (pal_lookup 256 255 uninit p) (\<lambda>m s. unat (m s)) nxt n l s m =
      Inr (line_loop (\<lambda>m s (_ :: 'w word). ucast (pal (unat (m s)))) nxt n l s m)" for nxt n l s m
    by (rule pal_line_loop) (rule pal, rule byte_less)
  show ?thesis
    unfolding bitmap_8_pal_def option.case
    by (rule conv_value [where F = "\<lambda>m s. ucast (pal (unat (m s)))" and nxt = "\<lambda>a. a + 1" and start = "\<lambda>s. s" and reads = "\<lambda>a. {a}", OF ok w])
      (use item_within [of _ width 1] in \<open>simp_all add: advance_steps l\<close>)
qed

lemma mask_nibble: "(0x0f :: u8) = mask 4"
  by (simp add: mask_eq_exp_minus_1)

lemma nibble_low: "unat (b AND 0x0f) = unat b mod 16" for b :: u8
  unfolding mask_nibble take_bit_eq_mask [symmetric] unsigned_take_bit_eq by (simp add: take_bit_eq_mod)

lemma nibble_high: "unat (drop_bit 4 b AND 0x0f) = unat b div 16 mod 16" for b :: u8
  unfolding nibble_low unsigned_drop_bit_eq using byte_less [of b] by (simp add: drop_bit_eq_div take_bit_eq_mod)

lemma test_bit_be_iff: "test_bit_be m s i \<longleftrightarrow> bit (m (s + int (i div 8))) (7 - i mod 8)"
proof -
  have "i mod 8 \<in> {0, 1, 2, 3, 4, 5, 6, 7}" using mod_less_divisor [of 8 i] by auto
  then have "drop_bit (i mod 8) (0x80 :: u8) = 2 ^ (7 - i mod 8)" by (elim insertE) (simp_all add: drop_bit_eq_div)
  then show ?thesis by (simp add: test_bit_be_def and_exp_eq_0_iff_not_bit)
qed

lemma nibble_index_at:
  "nibble_index m ((nibble_next ^^ i) (s, True)) = unat (m (s + int (i div 2))) div (if even i then 16 else 1) mod 16"
  unfolding nibble_steps nibble_index_def prod.case nibble_high unfolding nibble_low by simp

lemma conv_4be_pal:
  assumes ok: "conv_ok TYPE('w::len) d width height src src_stride fuel ((width + 1) div 2)" and w: "8 dvd LENGTH('w)"
    and pal: "\<And>i. i < 16 \<Longrightarrow> pal_lookup 16 16 uninit p i = Inr (pal i)"
  shows "\<exists>m'. bitmap_4be_pal TYPE('w) uninit (Some p) fuel (img_data d) (img_stride d) src src_stride width (src + height * src_stride) m = Inr m' \<and>
    drawn TYPE('w) d 0 0 width height (\<lambda>i j. ucast (pal (unat (m (src + j * src_stride + i div 2)) div (if even i then 16 else 1) mod 16))) m m'"
proof -
  have l: "pal_line TYPE('w) (pal_lookup 16 16 uninit p) nibble_index nxt n l s m =
      Inr (line_loop (\<lambda>m s (_ :: 'w word). ucast (pal (nibble_index m s))) nxt n l s m)" for nxt n l s m
    by (rule pal_line_loop) (rule pal, simp only: nibble_index_def nibble_high nibble_low split: prod.split, simp)
  have "0 < width" using ok by (simp add: conv_ok_def rect_inside_def)
  then have n: "2 * nat (width div 2) + (if odd width then 1 else 0) = nat width" by (auto elim!: oddE evenE)
  show ?thesis
    unfolding bitmap_4be_pal_def option.case
  proof (rule conv_value [where F = "\<lambda>m a. ucast (pal (nibble_index m a))" and nxt = nibble_next and start = "\<lambda>s. (s, True)" and
        reads = "\<lambda>(rp, h). {rp}", OF ok w])
    show "(case (nibble_next ^^ i) (s, True) of (rp, h) \<Rightarrow> {rp}) \<subseteq> {s ..< s + (width + 1) div 2}" if "i < nat width" for s i
      using that by (simp add: nibble_steps)
    show "ucast (pal (nibble_index m ((nibble_next ^^ nat i) (s, True)))) =
        ucast (pal (unat (m (s + i div 2)) div (if even i then 16 else 1) mod 16))" if "0 \<le> i" for s i
      using that by (simp add: nibble_index_at even_nat_iff zdiv_int)
  qed (simp_all add: nibble_line_pal l n nibble_index_def split: prod.splits)
qed

lemma conv_1be_pal:
  assumes ok: "conv_ok TYPE('w::len) d width height src src_stride fuel ((width + 7) div 8)" and w: "8 dvd LENGTH('w)"
    and pal: "2 \<le> length (ents p)"
  shows "\<exists>m'. bitmap_1be_pal TYPE('w) (Some p) fuel (img_data d) (img_stride d) src src_stride width (src + height * src_stride) m = Inr m' \<and>
    drawn TYPE('w) d 0 0 width height (\<lambda>i j. ucast (ents p ! (if bit (m (src + j * src_stride + i div 8)) (7 - nat (i mod 8)) then 1 else 0))) m m'"
proof -
  have c: "index_list (ents p) 1 = Inr (ents p ! 1)" "index_list (ents p) 0 = Inr (ents p ! 0)"
    using pal by (auto simp: index_list_def)
  have st: "((\<lambda>(s, i). (s, Suc i)) ^^ i) (s, k) = (s, k + i)" for s :: int and i k by (induction i) simp_all
  show ?thesis
    unfolding bitmap_1be_pal_def option.case c sum.case rbind_simps
  proof (rule conv_value [where F = "\<lambda>m (s, i). ucast (if test_bit_be m s i then ents p ! 1 else ents p ! 0)" and
        nxt = "\<lambda>(s, i). (s, Suc i)" and start = "\<lambda>s. (s, 0)" and reads = "\<lambda>(s, i). {s + int (i div 8)}", OF ok w])
    show "(case ((\<lambda>(s, i). (s, Suc i)) ^^ i) (s, 0) of (s, i) \<Rightarrow> {s + int (i div 8)}) \<subseteq> {s ..< s + (width + 7) div 8}" if "i < nat width" for s i
      using that by (simp add: st)
    show "(case ((\<lambda>(s, i). (s, Suc i)) ^^ nat i) (s, 0) of (s, i) \<Rightarrow> ucast (if test_bit_be m s i then ents p ! 1 else ents p ! 0)) =
        ucast (ents p ! (if bit (m (s + i div 8)) (7 - nat (i mod 8)) then 1 else 0))" if "0 \<le> i" for s i
      using that by (simp add: st test_bit_be_iff nat_mod_distrib zdiv_int)
  qed (simp_all add: test_bit_be_def split_def)
qed

section \<open>Bitmaps\<close>

text \<open>
  The reference: the pixel \<open>i\<close> of a bitmap line at \<open>s\<close> read from the format's definition, with \<open>col\<close> the colours
  of the palette; the bits per pixel of the image the bitmap becomes (0 for what is refused); the length of a line.
\<close>

definition bitmap_pixel :: "int \<Rightarrow> (nat \<Rightarrow> u32) \<Rightarrow> mem \<Rightarrow> int \<Rightarrow> int \<Rightarrow> u32" where
  "bitmap_pixel fmt col m s i =
     (if fmt = SPICE_BITMAP_FMT_32BIT \<or> fmt = SPICE_BITMAP_FMT_RGBA then load m (s + i * 4)
      else if fmt = SPICE_BITMAP_FMT_24BIT then pixel_24 m (s + i * 3)
      else if fmt = SPICE_BITMAP_FMT_16BIT then ucast (load m (s + i * 2) :: u16)
      else if fmt = SPICE_BITMAP_FMT_8BIT_A then ucast (m (s + i))
      else if fmt = SPICE_BITMAP_FMT_8BIT then col (unat (m (s + i)))
      else if fmt = SPICE_BITMAP_FMT_4BIT_BE then col (unat (m (s + i div 2)) div (if even i then 16 else 1) mod 16)
      else col (if bit (m (s + i div 8)) (7 - nat (i mod 8)) then 1 else 0))"

definition pixel_bits :: "int \<Rightarrow> u32 \<Rightarrow> nat" where
  "pixel_bits fmt palette_surface_format =
     (if fmt = SPICE_BITMAP_FMT_32BIT \<or> fmt = SPICE_BITMAP_FMT_RGBA \<or> fmt = SPICE_BITMAP_FMT_24BIT then 32
      else if fmt = SPICE_BITMAP_FMT_16BIT then 16
      else if fmt = SPICE_BITMAP_FMT_8BIT_A then 8
      else if fmt = SPICE_BITMAP_FMT_8BIT \<or> fmt = SPICE_BITMAP_FMT_4BIT_BE \<or> fmt = SPICE_BITMAP_FMT_1BIT_BE
      then if pal_32 palette_surface_format then 32 else if palette_surface_format = SPICE_SURFACE_FMT_16_555 then 16 else 0
      else 0)"

definition line_len :: "int \<Rightarrow> int \<Rightarrow> int" where
  "line_len fmt width =
     (if fmt = SPICE_BITMAP_FMT_32BIT \<or> fmt = SPICE_BITMAP_FMT_RGBA then width * 4
      else if fmt = SPICE_BITMAP_FMT_24BIT then width * 3
      else if fmt = SPICE_BITMAP_FMT_16BIT then width * 2
      else if fmt = SPICE_BITMAP_FMT_8BIT_A \<or> fmt = SPICE_BITMAP_FMT_8BIT then width
      else if fmt = SPICE_BITMAP_FMT_4BIT_BE then (width + 1) div 2
      else (width + 7) div 8)"

text \<open>
  A palette serves a format when its memory holds the entries it claims; with 8-bit pixels it must not claim
  exactly 255 of them, see below; with one-bit pixels two entries are read whatever it claims. An index
  beyond the claimed entries gives whatever the local copy of the palette holds there.
\<close>

definition palette_ok :: "int \<Rightarrow> spice_palette \<Rightarrow> bool" where
  "palette_ok fmt p \<longleftrightarrow>
     (fmt = SPICE_BITMAP_FMT_8BIT \<longrightarrow> min (unat (num_ents p)) 256 \<le> length (ents p) \<and> num_ents p \<noteq> 255) \<and>
     (fmt = SPICE_BITMAP_FMT_4BIT_BE \<longrightarrow> min (unat (num_ents p)) 16 \<le> length (ents p)) \<and>
     (fmt = SPICE_BITMAP_FMT_1BIT_BE \<longrightarrow> 2 \<le> length (ents p))"

definition palette_colour :: "(nat \<Rightarrow> u32) \<Rightarrow> int \<Rightarrow> spice_palette \<Rightarrow> nat \<Rightarrow> u32" where
  "palette_colour uninit fmt p i =
     (if fmt = SPICE_BITMAP_FMT_1BIT_BE \<or> i < unat (num_ents p) then ents p ! i else uninit i)"

lemma unat_255: "n \<noteq> 255 \<Longrightarrow> unat n \<noteq> 255" for n :: u16
  by (auto dest!: arg_cong [where f = "of_nat :: nat \<Rightarrow> u16"])

lemma pal_lookup_ok:
  "palette_ok SPICE_BITMAP_FMT_8BIT p \<Longrightarrow> i < 256 \<Longrightarrow> pal_lookup 256 255 uninit p i = Inr (palette_colour uninit SPICE_BITMAP_FMT_8BIT p i)"
  "palette_ok SPICE_BITMAP_FMT_4BIT_BE p \<Longrightarrow> i < 16 \<Longrightarrow> pal_lookup 16 16 uninit p i = Inr (palette_colour uninit SPICE_BITMAP_FMT_4BIT_BE p i)"
  using unat_255 [of "num_ents p"] by (auto simp: palette_ok_def pal_lookup_def palette_colour_def Let_def min_def split: if_splits)

definition bitmap_ok :: "int \<Rightarrow> u32 \<Rightarrow> spice_palette \<Rightarrow> pixman_image \<Rightarrow> int \<Rightarrow> int \<Rightarrow> int \<Rightarrow> int \<Rightarrow> nat \<Rightarrow> bool" where
  "bitmap_ok fmt psf p d width height src src_stride fuel \<longleftrightarrow> palette_ok fmt p \<and>
     (pixel_bits fmt psf = 8 \<and> conv_ok TYPE(8) d width height src src_stride fuel (line_len fmt width) \<or>
      pixel_bits fmt psf = 16 \<and> conv_ok TYPE(16) d width height src src_stride fuel (line_len fmt width) \<or>
      pixel_bits fmt psf = 32 \<and> conv_ok TYPE(32) d width height src src_stride fuel (line_len fmt width))"

definition bitmap_drawn :: "int \<Rightarrow> u32 \<Rightarrow> (nat \<Rightarrow> u32) \<Rightarrow> pixman_image \<Rightarrow> int \<Rightarrow> int \<Rightarrow> int \<Rightarrow> int \<Rightarrow> mem \<Rightarrow> mem \<Rightarrow> bool" where
  "bitmap_drawn fmt psf col d width height src src_stride m m' \<longleftrightarrow>
     (pixel_bits fmt psf = 8 \<longrightarrow> drawn TYPE(8) d 0 0 width height (\<lambda>i j. ucast (bitmap_pixel fmt col m (src + j * src_stride) i)) m m') \<and>
     (pixel_bits fmt psf = 16 \<longrightarrow> drawn TYPE(16) d 0 0 width height (\<lambda>i j. ucast (bitmap_pixel fmt col m (src + j * src_stride) i)) m m') \<and>
     (pixel_bits fmt psf = 32 \<longrightarrow> drawn TYPE(32) d 0 0 width height (\<lambda>i j. bitmap_pixel fmt col m (src + j * src_stride) i) m m')"

lemma pixel_bits_cases:
  assumes "pixel_bits fmt psf \<noteq> 0"
  obtains "fmt = SPICE_BITMAP_FMT_32BIT" | "fmt = SPICE_BITMAP_FMT_RGBA" | "fmt = SPICE_BITMAP_FMT_24BIT" | "fmt = SPICE_BITMAP_FMT_16BIT"
    | "fmt = SPICE_BITMAP_FMT_8BIT_A" | "fmt = SPICE_BITMAP_FMT_8BIT" "pal_32 psf" | "fmt = SPICE_BITMAP_FMT_4BIT_BE" "pal_32 psf"
    | "fmt = SPICE_BITMAP_FMT_1BIT_BE" "pal_32 psf" | "fmt = SPICE_BITMAP_FMT_8BIT" "psf = SPICE_SURFACE_FMT_16_555"
    | "fmt = SPICE_BITMAP_FMT_4BIT_BE" "psf = SPICE_SURFACE_FMT_16_555" | "fmt = SPICE_BITMAP_FMT_1BIT_BE" "psf = SPICE_SURFACE_FMT_16_555"
  using assms unfolding pixel_bits_def by (auto split: if_splits)

lemma ucast_round [simp]: "ucast (ucast x :: u32) = x" "ucast (ucast y :: u32) = y" for x :: u16 and y :: u8
  by (rule bit_word_eqI, simp add: bit_unsigned_iff)+

lemma load_byte [simp]: "load m a = m a"
  using ucast_drop_bit_load [where 'w = 8, of 0 m a] by simp

lemma not_pal_32: "\<not> pal_32 SPICE_SURFACE_FMT_16_555"
  by (simp add: pal_32_def)

lemmas bitmap_defs = bitmap_drawn_def pixel_bits_def bitmap_pixel_def palette_colour_def line_len_def by_palette_def not_pal_32

lemma convert_lines_drawn:
  assumes "bitmap_ok fmt psf p d width height src src_stride fuel"
  shows "\<exists>m'. convert_lines uninit fuel (img_data d) (img_stride d) fmt width src src_stride (src + height * src_stride) psf (Some p) m = Inr m' \<and>
    bitmap_drawn fmt psf (palette_colour uninit fmt p) d width height src src_stride m m'"
proof -
  note ok = assms [unfolded bitmap_ok_def]
  have nz: "pixel_bits fmt psf \<noteq> 0" using ok by auto
  show ?thesis
  proof (rule pixel_bits_cases [OF nz])
    assume f: "fmt = SPICE_BITMAP_FMT_32BIT"
    then show ?thesis using ok memcpy_conv [where 'w = 32, of d width height src src_stride fuel m]
      by (simp add: convert_lines_def bitmap_defs bitmap_32_to_32_def)
  next
    assume f: "fmt = SPICE_BITMAP_FMT_RGBA"
    then show ?thesis using ok memcpy_conv [where 'w = 32, of d width height src src_stride fuel m]
      by (simp add: convert_lines_def bitmap_defs bitmap_32_to_32_def)
  next
    assume f: "fmt = SPICE_BITMAP_FMT_24BIT"
    then show ?thesis using ok conv_24 [of d width height src src_stride fuel m]
      by (simp add: convert_lines_def bitmap_defs)
  next
    assume f: "fmt = SPICE_BITMAP_FMT_16BIT"
    then show ?thesis using ok memcpy_conv [where 'w = 16, of d width height src src_stride fuel m]
      by (simp add: convert_lines_def bitmap_defs bitmap_16_to_16_555_def)
  next
    assume f: "fmt = SPICE_BITMAP_FMT_8BIT_A"
    then show ?thesis using ok memcpy_conv [where 'w = 8, of d width height src src_stride fuel m]
      by (simp add: convert_lines_def bitmap_defs bitmap_8_to_8_def)
  next
    assume f: "fmt = SPICE_BITMAP_FMT_8BIT" "pal_32 psf"
    then show ?thesis using ok conv_8_pal [where 'w = 32, of d width height src src_stride fuel uninit p _ m, OF _ _ pal_lookup_ok(1)]
      by (simp add: convert_lines_def bitmap_defs)
  next
    assume f: "fmt = SPICE_BITMAP_FMT_4BIT_BE" "pal_32 psf"
    then show ?thesis using ok conv_4be_pal [where 'w = 32, of d width height src src_stride fuel uninit p _ m, OF _ _ pal_lookup_ok(2)]
      by (simp add: convert_lines_def bitmap_defs)
  next
    assume f: "fmt = SPICE_BITMAP_FMT_1BIT_BE" "pal_32 psf"
    then show ?thesis using ok conv_1be_pal [where 'w = 32, of d width height src src_stride fuel p m]
      by (simp add: convert_lines_def bitmap_defs palette_ok_def)
  next
    assume f: "fmt = SPICE_BITMAP_FMT_8BIT" "psf = SPICE_SURFACE_FMT_16_555"
    then show ?thesis using ok conv_8_pal [where 'w = 16, of d width height src src_stride fuel uninit p _ m, OF _ _ pal_lookup_ok(1)]
      by (simp add: convert_lines_def bitmap_defs)
  next
    assume f: "fmt = SPICE_BITMAP_FMT_4BIT_BE" "psf = SPICE_SURFACE_FMT_16_555"
    then show ?thesis using ok conv_4be_pal [where 'w = 16, of d width height src src_stride fuel uninit p _ m, OF _ _ pal_lookup_ok(2)]
      by (simp add: convert_lines_def bitmap_defs)
  next
    assume f: "fmt = SPICE_BITMAP_FMT_1BIT_BE" "psf = SPICE_SURFACE_FMT_16_555"
    then show ?thesis using ok conv_1be_pal [where 'w = 16, of d width height src src_stride fuel p m]
      by (simp add: convert_lines_def bitmap_defs palette_ok_def)
  qed
qed


text \<open>A bottom-up 4-bit bitmap of three by two pixels, stored at 100, in a 32-bit image at 0.\<close>

definition demo_dest :: pixman_image where
  "demo_dest = \<lparr>img_width = 3, img_height = 2, img_data = 0, img_stride = 12, img_depth = 24\<rparr>"

definition demo_pal :: spice_palette where
  "demo_pal = \<lparr>pal_unique = 0, num_ents = 16, ents = map (\<lambda>i. of_nat i * 1000) [0 ..< 16]\<rparr>"

definition demo_nibbles :: mem where
  "demo_nibbles = (\<lambda>_. 0)(100 := 0x12, 101 := 0x30, 104 := 0x45, 105 := 0x6f)"

lemma demo_bitmap_ok: "bitmap_ok SPICE_BITMAP_FMT_4BIT_BE SPICE_SURFACE_FMT_32_xRGB demo_pal (oriented 0 2 demo_dest) 3 2 100 4 2"
  by (auto simp: bitmap_ok_def palette_ok_def demo_pal_def conv_ok_def oriented_def demo_dest_def pixel_bits_def pal_32_def line_len_def
      lines_fit_def rect_inside_def rect_bytes_def line_bytes_def pixel_at_def)




text \<open>Bits per pixel of a pixman format, as its code spells them.\<close>

fun pixman_bpp :: "pixman_format \<Rightarrow> nat" where
  "pixman_bpp PIXMAN_a1 = 1"
| "pixman_bpp PIXMAN_a8 = 8"
| "pixman_bpp PIXMAN_x1r5g5b5 = 16"
| "pixman_bpp PIXMAN_r5g6b5 = 16"
| "pixman_bpp PIXMAN_r8g8b8 = 24"
| "pixman_bpp PIXMAN_x8r8g8b8 = 32"
| "pixman_bpp PIXMAN_a8r8g8b8 = 32"


end
