(* ===== verification/Lz_Model.thy ===== *)
theory Lz_Model
  imports Prelude
begin

text \<open>
  The LZ image codec (spice-common/common/lz.c with the templates lz_compress_tmpl.c and
  lz_decompress_tmpl.c). The macros a template is instantiated with are the fields of a record. An image to compress comes
  in segments, each an array of pixels of its own; a pointer into a segment is the segment with an offset. The buffers
  the compressed bytes are written to, asked for one by one, are one sequence of bytes of limited length; an
  error reported to the user context, whose error function does not return, is \<open>Abort\<close>, and so is a failed
  \<open>spice_return_if_fail\<close>, which aborts at the default level.
\<close>

section \<open>Output of bytes\<close>

abbreviation (input) "MAX_COPY \<equiv> 32 :: nat"
abbreviation (input) "BOUND_OFFSET \<equiv> 2 :: nat"
abbreviation (input) "LIMIT_OFFSET \<equiv> 6 :: nat"
abbreviation (input) "MAX_DISTANCE \<equiv> 8191 :: nat"
abbreviation (input) "MAX_FARDISTANCE \<equiv> 73725 :: nat"
abbreviation (input) "HASH_MASK \<equiv> 8191 :: u32"

record 'p lz_segment =
  seg_lines :: "'p list"
  size_delta :: nat

record 'p hash_entry =
  image_seg :: "'p lz_segment"
  seg_ref :: nat

record 'p lz_encoder =
  htab :: "nat \<Rightarrow> 'p hash_entry"
  io_bytes :: "u8 list"
  io_space :: nat
  io_last_copy :: "nat option"

definition encode :: "u8 \<Rightarrow> 'p lz_encoder \<Rightarrow> 'p lz_encoder res" where
  "encode byte e = (if length (io_bytes e) < io_space e then Inr (e\<lparr>io_bytes := io_bytes e @ [byte]\<rparr>) else Inl Abort)"

fun encode_all :: "u8 list \<Rightarrow> 'p lz_encoder \<Rightarrow> 'p lz_encoder res" where
  "encode_all [] e = Inr e"
| "encode_all (b # bs) e = rbind (encode b e) (encode_all bs)"

definition encode_copy_count :: "u8 \<Rightarrow> 'p lz_encoder \<Rightarrow> 'p lz_encoder res" where
  "encode_copy_count copy_count e =
     rbind (encode copy_count e) (\<lambda>e. Inr (e\<lparr>io_last_copy := Some (length (io_bytes e) - 1)\<rparr>))"

definition update_copy_count :: "u8 \<Rightarrow> 'p lz_encoder \<Rightarrow> 'p lz_encoder res" where
  "update_copy_count copy_count e = (case io_last_copy e of
     None \<Rightarrow> Inl Abort
   | Some i \<Rightarrow> if i < length (io_bytes e) then Inr (e\<lparr>io_bytes := (io_bytes e)[i := copy_count]\<rparr>) else Inl OutOfBounds)"

definition compress_output_prev :: "'p lz_encoder \<Rightarrow> 'p lz_encoder res" where
  "compress_output_prev e =
     (if io_bytes e = [] then Inl OutOfBounds
      else spice_assert (io_last_copy e = Some (length (io_bytes e) - 1)) (Inr (e\<lparr>io_bytes := butlast (io_bytes e)\<rparr>)))"


section \<open>Compression\<close>

text \<open>
  The macros \<open>ENCODE_PIXEL\<close>, \<open>SAME_PIXEL\<close> and \<open>HASH_FUNC\<close>; \<open>min_match\<close> is the length of the shortest match: 3 for the one-byte
  formats and alpha, 2 for 16-bit pixels, 1 for 24 and 32 bits.
\<close>

record 'p lz_format =
  encode_pixel :: "'p \<Rightarrow> u8 list"
  same_pixel :: "'p \<Rightarrow> 'p \<Rightarrow> bool"
  hash_func :: "'p \<Rightarrow> 'p \<Rightarrow> 'p \<Rightarrow> nat"
  min_match :: nat

definition seg_pixel :: "'p lz_segment \<Rightarrow> nat \<Rightarrow> 'p res" where
  "seg_pixel s i = index_list (seg_lines s) (int i)"

definition same_at :: "'p lz_format \<Rightarrow> 'p lz_segment \<Rightarrow> nat \<Rightarrow> 'p lz_segment \<Rightarrow> nat \<Rightarrow> bool res" where
  "same_at f s i t j = rbind (seg_pixel s i) (\<lambda>p. rbind (seg_pixel t j) (\<lambda>q. Inr (same_pixel f p q)))"

text \<open>\<open>n\<close> comparisons of \<open>*ref\<close> and \<open>*ip\<close>, each pointer advancing, up to the first that fails.\<close>

fun same_run :: "'p lz_format \<Rightarrow> nat \<Rightarrow> 'p lz_segment \<Rightarrow> nat \<Rightarrow> 'p lz_segment \<Rightarrow> nat \<Rightarrow> bool res" where
  "same_run f 0 t r s i = Inr True"
| "same_run f (Suc n) t r s i = rbind (same_at f t r s i) (\<lambda>b. if b then same_run f n t (Suc r) s (Suc i) else Inr False)"

definition hash_at :: "'p lz_format \<Rightarrow> 'p lz_segment \<Rightarrow> nat \<Rightarrow> nat res" where
  "hash_at f s i = rbind (seg_pixel s i) (\<lambda>p. rbind (seg_pixel s (i + 1)) (\<lambda>q. rbind (seg_pixel s (i + 2)) (\<lambda>r. Inr (hash_func f p q r))))"

definition update_hash :: "'p lz_format \<Rightarrow> 'p lz_segment \<Rightarrow> nat \<Rightarrow> 'p lz_encoder \<Rightarrow> 'p lz_encoder res" where
  "update_hash f s i e = rbind (hash_at f s i) (\<lambda>h. Inr (e\<lparr>htab := (htab e)(h := \<lparr>image_seg = s, seg_ref = i\<rparr>)\<rparr>))"

text \<open>
  The search at \<open>ip\<close>. A match is the distance, the advanced \<open>ip\<close>, and the segment and offset of \<open>ref\<close>. The distance is
  unsigned, with 64 bits.
\<close>

definition is_run :: "'p lz_format \<Rightarrow> 'p lz_segment \<Rightarrow> nat \<Rightarrow> bool res" where
  "is_run f s ip = (if ip > 0 then same_run f 3 s (ip - 1) s ip else Inr False)"

definition check_match :: "'p lz_format \<Rightarrow> 'p lz_segment \<Rightarrow> nat \<Rightarrow> 'p lz_segment \<Rightarrow> nat \<Rightarrow> nat \<Rightarrow> (nat \<times> nat \<times> 'p lz_segment \<times> nat) option res" where
  "check_match f s ip t r distance =
     (if distance = 0 \<or> distance \<ge> MAX_FARDISTANCE then Inr None
      else rbind (same_run f (min_match f) t r s ip) (\<lambda>ok. if \<not> ok then Inr None
      else let r' = r + min_match f; ip' = ip + min_match f in
        if distance \<ge> MAX_DISTANCE then
          let more = (if min_match f = 3 then 2 else 1); lim = length (seg_lines t) in
          if (if min_match f = 3 then r' + 1 \<ge> lim else r' + 1 > lim) then Inr None
          else rbind (same_run f more t r' s ip') (\<lambda>ok. Inr (if ok then Some (distance, ip' + more, t, r' + more) else None))
        else Inr (Some (distance, ip', t, r'))))"

definition find_match :: "'p lz_format \<Rightarrow> 'p lz_segment \<Rightarrow> nat \<Rightarrow> 'p lz_encoder \<Rightarrow> ((nat \<times> nat \<times> 'p lz_segment \<times> nat) option \<times> 'p lz_encoder) res" where
  "find_match f s ip e =
     rbind (is_run f s ip) (\<lambda>run.
     if run then Inr (Some (1, ip + 3, s, ip + 2), e)
     else rbind (hash_at f s ip) (\<lambda>h.
       let t = image_seg (htab e h); r = seg_ref (htab e h);
           distance = nat (((int ip + int (size_delta s)) - (int r + int (size_delta t))) mod 2 ^ 64);
           e = e\<lparr>htab := (htab e)(h := \<lparr>image_seg = s, seg_ref = ip\<rparr>)\<rparr> in
       rbind (check_match f s ip t r distance) (\<lambda>m. Inr (m, e))))"

text \<open>The two loops that extend a match; the result is \<open>ip\<close>, one past the first pixel that does not belong to the match.\<close>

function run_loop :: "'p lz_format \<Rightarrow> 'p \<Rightarrow> 'p lz_segment \<Rightarrow> nat \<Rightarrow> 'p lz_segment \<Rightarrow> nat \<Rightarrow> nat res" where
  "run_loop f x s ip t r =
     (if ip + BOUND_OFFSET < length (seg_lines s) \<and> r < length (seg_lines t) then
        rbind (seg_pixel t r) (\<lambda>p. if \<not> same_pixel f p x then Inr ip else run_loop f x s (Suc ip) t (Suc r))
      else Inr ip)"
  by pat_completeness auto
termination by (relation "measure (\<lambda>(f, x, s, ip, t, r). length (seg_lines s) - ip)") auto

function match_loop :: "'p lz_format \<Rightarrow> 'p lz_segment \<Rightarrow> nat \<Rightarrow> 'p lz_segment \<Rightarrow> nat \<Rightarrow> nat res" where
  "match_loop f s ip t r =
     (if ip + BOUND_OFFSET < length (seg_lines s) \<and> r < length (seg_lines t) then
        rbind (same_at f t r s ip) (\<lambda>b. if \<not> b then Inr (Suc ip) else match_loop f s (Suc ip) t (Suc r))
      else Inr ip)"
  by pat_completeness auto
termination by (relation "measure (\<lambda>(f, s, ip, t, r). length (seg_lines s) - ip)") auto

declare run_loop.simps [simp del] match_loop.simps [simp del]

definition extend_match :: "'p lz_format \<Rightarrow> nat \<Rightarrow> 'p lz_segment \<Rightarrow> nat \<Rightarrow> 'p lz_segment \<Rightarrow> nat \<Rightarrow> nat res" where
  "extend_match f distance s ip t r =
     (if distance = 0 then rbind (seg_pixel t r) (\<lambda>x. run_loop f x s ip t r) else match_loop f s ip t r)"

text \<open>The bytes of a match; \<open>distance\<close> is biased by 1.\<close>

fun len_bytes :: "nat \<Rightarrow> u8 list" where
  "len_bytes len = (if len \<ge> 255 then 255 # len_bytes (len - 255) else [of_nat len])"

declare len_bytes.simps [simp del]

definition match_bytes :: "nat \<Rightarrow> nat \<Rightarrow> u8 list" where
  "match_bytes len distance =
     (if distance < MAX_DISTANCE then
        if len < 7 then [of_nat (len * 32 + distance div 256), of_nat (distance mod 256)]
        else [of_nat (7 * 32 + distance div 256)] @ len_bytes (len - 7) @ [of_nat (distance mod 256)]
      else let d = distance - MAX_DISTANCE in
        if len < 7 then [of_nat (len * 32 + 31), 255, of_nat (d div 256), of_nat (d mod 256)]
        else [of_nat (7 * 32 + 31)] @ len_bytes (len - 7) @ [255, of_nat (d div 256), of_nat (d mod 256)])"

text \<open>The hash table at the end of a match; \<open>ip\<close> may be just before the segment.\<close>

definition update_boundary :: "'p lz_format \<Rightarrow> 'p lz_segment \<Rightarrow> nat \<Rightarrow> int \<Rightarrow> 'p lz_encoder \<Rightarrow> 'p lz_encoder res" where
  "update_boundary f s anchor ip e =
     rbind (if min_match f = 3 \<or> ip > int anchor then update_hash f s (nat ip) e else Inr e) (\<lambda>e.
     if min_match f \<noteq> 1 \<or> ip + 1 > int anchor then update_hash f s (nat (ip + 1)) e else Inr e)"

definition emit_match :: "'p lz_format \<Rightarrow> 'p lz_segment \<Rightarrow> nat \<Rightarrow> nat \<Rightarrow> nat \<Rightarrow> nat \<Rightarrow> 'p lz_encoder \<Rightarrow> 'p lz_encoder res" where
  "emit_match f s copy anchor ip distance e =
     rbind (if copy \<noteq> 0 then update_copy_count (of_nat (copy - 1)) e else compress_output_prev e) (\<lambda>e.
     let ip = int ip - 3; len = nat (ip - int anchor + (3 - int (min_match f))) in
     rbind (encode_all (match_bytes len distance) e) (\<lambda>e.
     rbind (update_boundary f s anchor ip e) (\<lambda>e.
     encode_copy_count (of_nat (MAX_COPY - 1)) e)))"

definition emit_literal :: "'p lz_format \<Rightarrow> 'p lz_segment \<Rightarrow> nat \<Rightarrow> nat \<Rightarrow> 'p lz_encoder \<Rightarrow> (nat \<times> 'p lz_encoder) res" where
  "emit_literal f s ip copy e =
     rbind (seg_pixel s ip) (\<lambda>p. rbind (encode_all (encode_pixel f p) e) (\<lambda>e.
     if copy + 1 = MAX_COPY then rbind (encode_copy_count (of_nat (MAX_COPY - 1)) e) (\<lambda>e. Inr (0, e)) else Inr (copy + 1, e)))"

text \<open>The loop over a segment, with a bound on its turns.\<close>

fun compress_loop :: "'p lz_format \<Rightarrow> nat \<Rightarrow> 'p lz_segment \<Rightarrow> nat \<Rightarrow> nat \<Rightarrow> 'p lz_encoder \<Rightarrow> (nat \<times> nat \<times> 'p lz_encoder) res" where
  "compress_loop f fuel s ip copy e =
     (if \<not> ip + LIMIT_OFFSET < length (seg_lines s) then Inr (ip, copy, e)
      else case fuel of 0 \<Rightarrow> Inl NoFuel | Suc fuel \<Rightarrow>
        rbind (find_match f s ip e) (\<lambda>(m, e). case m of
          None \<Rightarrow> rbind (emit_literal f s ip copy e) (\<lambda>(copy, e). compress_loop f fuel s (Suc ip) copy e)
        | Some (distance, ip', t, r) \<Rightarrow>
            rbind (extend_match f (distance - 1) s ip' t r) (\<lambda>ip'.
            rbind (emit_match f s copy ip ip' (distance - 1) e) (\<lambda>e.
            compress_loop f fuel s (ip' - 1) 0 e))))"

declare compress_loop.simps [simp del]

fun left_over :: "'p lz_format \<Rightarrow> nat \<Rightarrow> 'p lz_segment \<Rightarrow> nat \<Rightarrow> nat \<Rightarrow> 'p lz_encoder \<Rightarrow> (nat \<times> 'p lz_encoder) res" where
  "left_over f 0 s ip copy e = Inr (copy, e)"
| "left_over f (Suc n) s ip copy e = rbind (emit_literal f s ip copy e) (\<lambda>(copy, e). left_over f n s (Suc ip) copy e)"

definition lz_compress_seg :: "'p lz_format \<Rightarrow> 'p lz_segment \<Rightarrow> nat \<Rightarrow> nat \<Rightarrow> 'p lz_encoder \<Rightarrow> 'p lz_encoder res" where
  "lz_compress_seg f s from copied e =
     rbind (if copied = 0 then encode_copy_count (of_nat (MAX_COPY - 1)) e else Inr e) (\<lambda>e.
     rbind (compress_loop f (length (seg_lines s)) s from copied e) (\<lambda>(ip, copy, e).
     rbind (left_over f (length (seg_lines s) - ip) s ip copy e) (\<lambda>(copy, e).
     if copy \<noteq> 0 then update_copy_count (of_nat (copy - 1)) e else compress_output_prev e)))"

fun compress_small :: "'p lz_format \<Rightarrow> 'p lz_segment list \<Rightarrow> 'p lz_encoder \<Rightarrow> ('p lz_segment list \<times> 'p lz_encoder) res" where
  "compress_small f [] e = Inr ([], e)"
| "compress_small f (s # segs) e =
     (if length (seg_lines s) < 4 then
        rbind (if seg_lines s \<noteq> [] then
                 rbind (encode_copy_count (of_nat (length (seg_lines s) - 1)) e) (encode_all (concat (map (encode_pixel f) (seg_lines s))))
               else Inr e) (compress_small f segs)
      else Inr (s # segs, e))"

fun compress_segs :: "'p lz_format \<Rightarrow> 'p lz_segment list \<Rightarrow> 'p lz_encoder \<Rightarrow> 'p lz_encoder res" where
  "compress_segs f [] e = Inr e"
| "compress_segs f (s # segs) e = rbind (lz_compress_seg f s 0 0 e) (compress_segs f segs)"

definition lz_compress :: "'p lz_format \<Rightarrow> 'p lz_segment list \<Rightarrow> 'p lz_encoder \<Rightarrow> 'p lz_encoder res" where
  "lz_compress f segs e =
     rbind (compress_small f segs e) (\<lambda>(segs, e). case segs of
       [] \<Rightarrow> Inr e
     | s # segs \<Rightarrow>
         let e = e\<lparr>htab := (\<lambda>_. \<lparr>image_seg = s, seg_ref = 0\<rparr>)\<rparr> in
         rbind (encode_copy_count (of_nat (MAX_COPY - 1)) e) (\<lambda>e.
         rbind (seg_pixel s 0) (\<lambda>p. rbind (encode_all (encode_pixel f p) e) (\<lambda>e.
         rbind (seg_pixel s 1) (\<lambda>p. rbind (encode_all (encode_pixel f p) e) (\<lambda>e.
         rbind (lz_compress_seg f s 2 2 e) (compress_segs f segs)))))))"


section \<open>Decompression\<close>

text \<open>
  \<open>comp_pixel\<close> is \<open>COPY_COMP_PIXEL\<close>: it reads bytes and gives the pixels to store; \<open>put_pixel\<close> is what a store makes of the pixel that was there, different from
  the new one only for alpha; \<open>plt_scale\<close> is the number of pixels in a byte of a palette image decompressed to 32 bits.
\<close>

record 'q lz_output =
  comp_pixel :: "u8 list \<Rightarrow> ('q list \<times> u8 list) res"
  put_pixel :: "'q \<Rightarrow> 'q \<Rightarrow> 'q"
  len_bias :: u32
  plt_scale :: u32

definition decode :: "u8 list \<Rightarrow> (u8 \<times> u8 list) res" where
  "decode bs = (case bs of [] \<Rightarrow> Inl Abort | b # bs \<Rightarrow> Inr (b, bs))"

definition store_pixel :: "'q lz_output \<Rightarrow> 'q \<Rightarrow> nat \<Rightarrow> 'q list \<Rightarrow> 'q list res" where
  "store_pixel g p op buf = (if op < length buf then Inr (buf[op := put_pixel g (buf ! op) p]) else Inl OutOfBounds)"

fun copy_run :: "'q lz_output \<Rightarrow> nat \<Rightarrow> nat \<Rightarrow> 'q \<Rightarrow> nat \<Rightarrow> 'q list \<Rightarrow> (nat \<times> 'q list) res" where
  "copy_run g lim 0 b op buf = Inr (op, buf)"
| "copy_run g lim (Suc n) b op buf = rbind (store_pixel g b op buf) (\<lambda>buf. spice_assert (Suc op \<le> lim) (copy_run g lim n b (Suc op) buf))"

fun copy_ref :: "'q lz_output \<Rightarrow> nat \<Rightarrow> nat \<Rightarrow> nat \<Rightarrow> nat \<Rightarrow> 'q list \<Rightarrow> (nat \<times> 'q list) res" where
  "copy_ref g lim 0 r op buf = Inr (op, buf)"
| "copy_ref g lim (Suc n) r op buf =
     rbind (index_list buf (int r)) (\<lambda>p. rbind (store_pixel g p op buf) (\<lambda>buf. spice_assert (Suc op \<le> lim) (copy_ref g lim n (Suc r) (Suc op) buf)))"

fun store_all :: "'q lz_output \<Rightarrow> 'q list \<Rightarrow> nat \<Rightarrow> 'q list \<Rightarrow> (nat \<times> 'q list) res" where
  "store_all g [] op buf = Inr (op, buf)"
| "store_all g (p # ps) op buf = rbind (store_pixel g p op buf) (store_all g ps (Suc op))"

fun copy_comp :: "'q lz_output \<Rightarrow> nat \<Rightarrow> nat \<Rightarrow> nat \<Rightarrow> 'q list \<Rightarrow> u8 list \<Rightarrow> (nat \<times> 'q list \<times> u8 list) res" where
  "copy_comp g lim 0 op buf bs = Inr (op, buf, bs)"
| "copy_comp g lim (Suc n) op buf bs =
     rbind (comp_pixel g bs) (\<lambda>(ps, bs). rbind (store_all g ps op buf) (\<lambda>(op, buf). spice_assert (op \<le> lim) (copy_comp g lim n op buf bs)))"

fun more_len :: "u32 \<Rightarrow> u8 list \<Rightarrow> (u32 \<times> u8 list) res" where
  "more_len len [] = Inl Abort"
| "more_len len (code # bs) = (if code = 255 then more_len (len + ucast code) bs else Inr (len + ucast code, bs))"

definition decode_match :: "u8 \<Rightarrow> u8 list \<Rightarrow> (u32 \<times> u32 \<times> u8 list) res" where
  "decode_match ctrl bs =
     (let len = drop_bit 5 (ucast ctrl) - 1 :: u32; ofs = push_bit 8 (ucast ctrl AND 31) :: u32 in
      rbind (if len = 7 - 1 then more_len len bs else Inr (len, bs)) (\<lambda>(len, bs).
      rbind (decode bs) (\<lambda>(code, bs).
      let ofs = ofs + ucast code in
      if code = 255 \<and> ofs - ucast code = push_bit 8 31 then
        rbind (decode bs) (\<lambda>(hi, bs). rbind (decode bs) (\<lambda>(lo, bs). Inr (len, push_bit 8 (ucast hi) + ucast lo + 8191, bs)))
      else Inr (len, ofs, bs))))"

definition copy_match :: "'q lz_output \<Rightarrow> nat \<Rightarrow> u32 \<Rightarrow> u32 \<Rightarrow> nat \<Rightarrow> 'q list \<Rightarrow> (nat \<times> 'q list) res" where
  "copy_match g lim len ofs op buf =
     (let len = (len + len_bias g) * plt_scale g; ofs = (ofs + 1) * plt_scale g; r = int op - uint ofs in
      spice_assert (op + unat len \<le> lim)
      (spice_assert (r + uint len \<le> int lim)
      (spice_assert (r \<ge> 0)
        (if r = int op - 1 then rbind (index_list buf r) (\<lambda>b. copy_run g lim (unat len) b op buf)
         else copy_ref g lim (unat len) (nat r) op buf))))"

definition copy_literals :: "'q lz_output \<Rightarrow> nat \<Rightarrow> u8 \<Rightarrow> nat \<Rightarrow> 'q list \<Rightarrow> u8 list \<Rightarrow> (nat \<times> 'q list \<times> u8 list) res" where
  "copy_literals g lim ctrl op buf bs =
     (let n = unat ctrl + 1 in
      spice_assert (op + n * unat (plt_scale g) \<le> lim) (copy_comp g lim n op buf bs))"

fun decompress_loop :: "'q lz_output \<Rightarrow> nat \<Rightarrow> nat \<Rightarrow> u8 \<Rightarrow> nat \<Rightarrow> 'q list \<Rightarrow> u8 list \<Rightarrow> (nat \<times> 'q list \<times> u8 list) res" where
  "decompress_loop g 0 lim ctrl op buf bs = Inl NoFuel"
| "decompress_loop g (Suc fuel) lim ctrl op buf bs =
     rbind (if unat ctrl \<ge> MAX_COPY
            then rbind (decode_match ctrl bs) (\<lambda>(len, ofs, bs). rbind (copy_match g lim len ofs op buf) (\<lambda>(op, buf). Inr (op, buf, bs)))
            else copy_literals g lim ctrl op buf bs) (\<lambda>(op, buf, bs).
     if op < lim then rbind (decode bs) (\<lambda>(ctrl, bs). decompress_loop g fuel lim ctrl op buf bs) else Inr (op, buf, bs))"

definition lz_decompress :: "'q lz_output \<Rightarrow> 'q list \<Rightarrow> nat \<Rightarrow> u8 list \<Rightarrow> (nat \<times> 'q list \<times> u8 list) res" where
  "lz_decompress g buf lim bs = rbind (decode bs) (\<lambda>(ctrl, bs). decompress_loop g (Suc (length bs)) lim ctrl 0 buf bs)"

end
