(* ===== verification/Lz_Tokens.thy ===== *)
theory Lz_Tokens
  imports Lz_Model
begin

text \<open>
  What the compressed bytes mean: a list of tokens, each a run of literal pixels or a match with pixels
  already decoded. \<open>explains\<close> says that tokens describe an image. A locale states what a format must satisfy, and in it:
  decompressing the bytes of tokens that describe an image gives back the image.
\<close>

section \<open>Tokens\<close>

datatype 'p token = Lits "'p list" | Match nat nat

text \<open>\<open>Match d l\<close> has the biased distance \<open>d\<close> and the length field \<open>l\<close>.\<close>

fun token_bytes :: "'p lz_format \<Rightarrow> 'p token \<Rightarrow> u8 list" where
  "token_bytes f (Lits ps) = of_nat (length ps - 1) # concat (map (encode_pixel f) ps)"
| "token_bytes f (Match d l) = match_bytes l d"

fun covers :: "'p lz_format \<Rightarrow> 'p token \<Rightarrow> nat" where
  "covers f (Lits ps) = length ps"
| "covers f (Match d l) = l + min_match f - 1"

fun explains1 :: "'p lz_format \<Rightarrow> 'p list \<Rightarrow> nat \<Rightarrow> 'p token \<Rightarrow> bool" where
  "explains1 f img pos (Lits ps) \<longleftrightarrow> ps \<noteq> [] \<and> length ps \<le> MAX_COPY \<and> pos + length ps \<le> length img \<and> ps = take (length ps) (drop pos img)"
| "explains1 f img pos (Match d l) \<longleftrightarrow> 1 \<le> l \<and> d + 1 < MAX_FARDISTANCE \<and> d + 1 \<le> pos \<and> pos + covers f (Match d l) \<le> length img \<and>
     (\<forall>j < covers f (Match d l). same_pixel f (img ! (pos + j)) (img ! (pos + j - (d + 1))))"

fun explains :: "'p lz_format \<Rightarrow> 'p list \<Rightarrow> nat \<Rightarrow> 'p token list \<Rightarrow> nat \<Rightarrow> bool" where
  "explains f img pos [] fin \<longleftrightarrow> pos = fin"
| "explains f img pos (t # ts) fin \<longleftrightarrow> explains1 f img pos t \<and> explains f img (pos + covers f t) ts fin"

abbreviation "tokens_bytes f ts \<equiv> concat (map (token_bytes f) ts)"

lemma token_bytes_nonempty: "token_bytes f t \<noteq> []"
  by (cases t) (auto simp: match_bytes_def Let_def)

lemma explains_append: "explains f img pos (ts @ us) fin \<longleftrightarrow> (\<exists>mid. explains f img pos ts mid \<and> explains f img mid us fin)"
  by (induction ts arbitrary: pos) auto

lemma explains_snoc: "explains f img pos ts mid \<Longrightarrow> explains1 f img mid t \<Longrightarrow> explains f img pos (ts @ [t]) (mid + covers f t)"
  by (auto simp: explains_append)

lemma length_len_bytes: "length (len_bytes n) \<le> Suc n"
  by (induction n rule: len_bytes.induct) (subst len_bytes.simps, auto)

lemma length_match_bytes: "length (match_bytes l d) \<le> 5 + l"
  using length_len_bytes [of "l - 7"] by (auto simp: match_bytes_def Let_def)


section \<open>Decoding a match\<close>

lemma ucast_byte: "n < 256 \<Longrightarrow> ucast (of_nat n :: u8) = (of_nat n :: u32)"
  by (simp add: unsigned_of_nat take_bit_nat_eq_self)

lemma unat_byte: "n < 256 \<Longrightarrow> unat (of_nat n :: u8) = n"
  by (intro unat_of_nat_small) simp

lemma unat_u32: "n < 2 ^ 32 \<Longrightarrow> unat (of_nat n :: u32) = n"
  by (intro unat_of_nat_small) simp

lemma more_len_bytes: "more_len len (len_bytes n @ bs) = Inr (len + of_nat n, bs)"
proof (induction n arbitrary: len rule: len_bytes.induct)
  case (1 n)
  show ?case
  proof (cases "n \<ge> 255")
    case True
    have "(255 :: u32) + of_nat (n - 255) = of_nat n" using True by (simp add: of_nat_diff)
    then show ?thesis using 1 True by (subst len_bytes.simps) (simp add: add.assoc)
  next
    case False
    moreover have "(of_nat n :: u8) \<noteq> 255" using False by (simp add: of_nat_eq_word_iff)
    ultimately show ?thesis by (subst len_bytes.simps) (simp add: ucast_byte)
  qed
qed

text \<open>The first byte of a match: three bits of length, five of distance.\<close>

lemma byte_fields:
  "drop_bit 5 (ucast (w :: u8)) = (of_nat (unat w div 32) :: u32)"
  "push_bit 8 (ucast (w :: u8) AND 31) = (of_nat (unat w mod 32 * 256) :: u32)"
proof -
  have w: "unat w < 256" using unsigned_less [of w] by simp
  have m: "unat w mod 32 * 256 < 2 ^ 32" using mod_less_divisor [of 32 "unat w"] by simp
  have u: "unat (ucast w :: u32) = unat w" by (simp add: unsigned_ucast_eq)
  have "unat (drop_bit 5 (ucast w) :: u32) = unat w div 32"
    unfolding unat_drop_bit_eq u by (simp add: drop_bit_eq_div)
  moreover have "unat w div 32 < 2 ^ 32" using w by simp
  ultimately show "drop_bit 5 (ucast w) = (of_nat (unat w div 32) :: u32)"
    unfolding word_unat_eq_iff by (simp add: unat_u32)
  have "unat (push_bit 8 (ucast w AND 31) :: u32) = unat w mod 32 * 256"
  proof -
    have "ucast w AND 31 = take_bit 5 (ucast w :: u32)" by (simp add: take_bit_eq_mask mask_eq_exp_minus_1)
    then have "unat (ucast w AND 31 :: u32) = unat w mod 32"
      by (simp only: unsigned_take_bit_eq u) (simp add: take_bit_eq_mod)
    with m show ?thesis unfolding unsigned_push_bit_eq by (simp add: push_bit_eq_mult take_bit_nat_eq_self)
  qed
  with m show "push_bit 8 (ucast w AND 31) = (of_nat (unat w mod 32 * 256) :: u32)"
    unfolding word_unat_eq_iff by (simp only: unat_u32)
qed

lemma ctrl_fields:
  assumes "x < 8" "y < 32"
  shows "drop_bit 5 (ucast (of_nat (x * 32 + y) :: u8)) = (of_nat x :: u32)"
    and "push_bit 8 (ucast (of_nat (x * 32 + y) :: u8) AND 31) = (of_nat (y * 256) :: u32)"
    and "unat (of_nat (x * 32 + y) :: u8) = x * 32 + y"
proof -
  show u: "unat (of_nat (x * 32 + y) :: u8) = x * 32 + y" using assms by (intro unat_byte) simp
  show "drop_bit 5 (ucast (of_nat (x * 32 + y) :: u8)) = (of_nat x :: u32)"
    "push_bit 8 (ucast (of_nat (x * 32 + y) :: u8) AND 31) = (of_nat (y * 256) :: u32)"
    unfolding byte_fields u using assms by simp_all
qed

lemma decode_near:
  assumes "x < 8" "1 \<le> x" "d < 8191" "x = (if l < 7 then l else 7)"
  shows "decode_match (of_nat (x * 32 + d div 256)) ((if l < 7 then [] else len_bytes (l - 7)) @ of_nat (d mod 256) # bs) =
    Inr (of_nat l - 1, of_nat d, bs)"
proof -
  have y: "d div 256 < 32" using assms(3) by simp
  note c = ctrl_fields [OF assms(1) y]
  have m: "d mod 256 < 256" by simp
  have d: "of_nat (d div 256 * 256) + of_nat (d mod 256) = (of_nat d :: u32)"
    by (simp only: flip: of_nat_add) simp
  have far: "\<not> (d mod 256 = 255 \<and> d div 256 = 31)" using div_mult_mod_eq [of d 256] assms(3) by linarith
  have code: "(of_nat (d mod 256) :: u8) = 255 \<longleftrightarrow> d mod 256 = 255" by (simp add: of_nat_eq_word_iff)
  have ofs: "(of_nat (d div 256 * 256) :: u32) = 7936 \<longleftrightarrow> d div 256 = 31"
    using y by (subst of_nat_eq_word_iff) auto
  have len: "(of_nat x - 1 = (7 - 1 :: u32)) \<longleftrightarrow> \<not> l < 7"
  proof -
    have "(of_nat x - 1 = (7 - 1 :: u32)) \<longleftrightarrow> (of_nat x :: u32) = 7" by (simp add: eq_diff_eq diff_eq_eq)
    also have "\<dots> \<longleftrightarrow> x = 7" using assms(1) by (simp add: of_nat_eq_word_iff)
    finally show ?thesis using assms(4) by auto
  qed
  have l: "\<not> l < 7 \<Longrightarrow> of_nat x - 1 + of_nat (l - 7) = (of_nat l - 1 :: u32)"
    using assms(4) by (simp add: of_nat_diff)
  show ?thesis
  proof (cases "l < 7")
    case True
    then show ?thesis unfolding decode_match_def Let_def c len using far assms(4)
      by (simp add: decode_def ucast_byte [OF m] code ofs d del: of_nat_mult of_nat_mod) blast
  next
    case False
    then show ?thesis unfolding decode_match_def Let_def c len using far l
      by (simp add: decode_def more_len_bytes ucast_byte [OF m] code ofs d del: of_nat_mult of_nat_mod) blast
  qed
qed

lemma decode_far:
  assumes "x < 8" "1 \<le> x" "8191 \<le> d" "d < 8191 + 2 ^ 16" "x = (if l < 7 then l else 7)"
  shows "decode_match (of_nat (x * 32 + 31)) ((if l < 7 then [] else len_bytes (l - 7)) @
      255 # of_nat ((d - 8191) div 256) # of_nat ((d - 8191) mod 256) # bs) = Inr (of_nat l - 1, of_nat d, bs)"
proof -
  define k where "k = d - 8191"
  have k: "k < 2 ^ 16" "d = k + 8191" using assms(3,4) by (auto simp: k_def)
  have b: "k div 256 < 256" "k mod 256 < 256" using k(1) by auto
  have y: "(31 :: nat) < 32" by simp
  note c = ctrl_fields [OF assms(1) y]
  have d: "push_bit 8 (of_nat (k div 256)) + of_nat (k mod 256) = (of_nat k :: u32)"
  proof -
    have "push_bit 8 (of_nat (k div 256)) = (of_nat (k div 256 * 256) :: u32)" by (simp add: push_bit_eq_mult)
    then show ?thesis by (simp only: flip: of_nat_add) simp
  qed
  have len: "(of_nat x - 1 = (7 - 1 :: u32)) \<longleftrightarrow> \<not> l < 7"
  proof -
    have "(of_nat x - 1 = (7 - 1 :: u32)) \<longleftrightarrow> (of_nat x :: u32) = 7" by (simp add: eq_diff_eq diff_eq_eq)
    also have "\<dots> \<longleftrightarrow> x = 7" using assms(1) by (simp add: of_nat_eq_word_iff)
    finally show ?thesis using assms(5) by auto
  qed
  have l: "\<not> l < 7 \<Longrightarrow> of_nat x - 1 + of_nat (l - 7) = (of_nat l - 1 :: u32)"
    using assms(5) by (simp add: of_nat_diff)
  show ?thesis
  proof (cases "l < 7")
    case True
    then show ?thesis unfolding decode_match_def Let_def c len k_def [symmetric] using assms(5)
      by (simp add: decode_def ucast_byte [OF b(1)] ucast_byte [OF b(2)] d k(2) del: of_nat_mult of_nat_mod)
  next
    case False
    then show ?thesis unfolding decode_match_def Let_def c len k_def [symmetric] using l
      by (simp add: decode_def more_len_bytes ucast_byte [OF b(1)] ucast_byte [OF b(2)] d k(2) del: of_nat_mult of_nat_mod)
  qed
qed

lemma decode_match_bytes:
  assumes "1 \<le> l" "d + 1 < 73725"
  obtains c cs where "match_bytes l d = c # cs" "32 \<le> unat c" "\<And>bs. decode_match c (cs @ bs) = Inr (of_nat l - 1, of_nat d, bs)"
proof -
  define x where "x = (if l < 7 then l else 7)"
  have x: "x < 8" "1 \<le> x" using assms(1) by (auto simp: x_def)
  show thesis
  proof (cases "d < 8191")
    case True
    have "match_bytes l d = of_nat (x * 32 + d div 256) # (if l < 7 then [] else len_bytes (l - 7)) @ [of_nat (d mod 256)]"
      using True by (simp add: match_bytes_def x_def del: of_nat_add of_nat_mult)
    moreover have "32 \<le> unat (of_nat (x * 32 + d div 256) :: u8)" using ctrl_fields(3) [OF x(1), of "d div 256"] True x(2) by simp
    ultimately show thesis using decode_near [OF x True x_def] by (intro that) (auto simp del: of_nat_add of_nat_mult)
  next
    case False
    then have d: "8191 \<le> d" "d < 8191 + 2 ^ 16" using assms(2) by auto
    have "match_bytes l d = of_nat (x * 32 + 31) # (if l < 7 then [] else len_bytes (l - 7)) @
        [255, of_nat ((d - 8191) div 256), of_nat ((d - 8191) mod 256)]"
      using False by (simp add: match_bytes_def x_def Let_def del: of_nat_add of_nat_mult)
    moreover have "32 \<le> unat (of_nat (x * 32 + 31) :: u8)" using ctrl_fields(3) [OF x(1), of 31] x(2) by simp
    ultimately show thesis using decode_far [OF x d x_def] by (intro that) (auto simp del: of_nat_add of_nat_mult)
  qed
qed



section \<open>Decompressing tokens\<close>

lemma length_concat_uniform: "\<forall>xs \<in> set xss. length xs = k \<Longrightarrow> length (concat xss) = k * length xss"
  by (induction xss) auto

lemma nth_concat_uniform:
  "\<forall>xs \<in> set xss. length xs = k \<Longrightarrow> a < length xss \<Longrightarrow> b < k \<Longrightarrow> concat xss ! (k * a + b) = xss ! a ! b"
proof (induction xss arbitrary: a)
  case (Cons xs xss)
  then show ?case by (cases a) (auto simp: nth_append)
qed simp

text \<open>The output buffer after \<open>op\<close> pixels: those before are as expected, for what \<open>view\<close> shows of them, the others as they were.\<close>

definition decoded :: "('q \<Rightarrow> 'v) \<Rightarrow> 'q lz_output \<Rightarrow> 'q list \<Rightarrow> 'q list \<Rightarrow> nat \<Rightarrow> 'q list \<Rightarrow> bool" where
  "decoded view g buf0 es op buf \<longleftrightarrow> length buf = length buf0 \<and>
     (\<forall>i < op. view (buf ! i) = view (put_pixel g (buf0 ! i) (es ! i))) \<and>
     (\<forall>i. op \<le> i \<longrightarrow> i < length buf0 \<longrightarrow> buf ! i = buf0 ! i)"

text \<open>
  What a format promises the compressor: matches of one to three pixels, a comparison that is an equivalence, at most three bytes
  for a pixel. A format with its decoder: \<open>pix p\<close> are the \<open>k\<close> pixels the decoder makes of the bytes of \<open>p\<close>; pixels that compare as same look the same
  decoded, where \<open>view\<close> is what of an output pixel counts. \<open>ok\<close> are the pixels that can be decoded.
\<close>

locale lz_pixels =
  fixes f :: "'p lz_format"
  assumes min_match: "1 \<le> min_match f" "min_match f \<le> 3"
    and same_equiv: "equivp (same_pixel f)"
    and pixel_bytes: "length (encode_pixel f p) \<le> 3"

locale lz_codec = lz_pixels f
  for f :: "'p lz_format" +
  fixes g :: "'q lz_output" and k :: nat and pix :: "'p \<Rightarrow> 'q list" and view :: "'q \<Rightarrow> 'v" and ok :: "'p \<Rightarrow> bool"
  assumes bias: "len_bias g = of_nat (min_match f)"
    and scale: "plt_scale g = of_nat k" "0 < k" "k \<le> 8"
    and comp: "ok p \<Longrightarrow> comp_pixel g (encode_pixel f p @ bs) = Inr (pix p, bs)"
    and length_pix: "ok p \<Longrightarrow> length (pix p) = k"
    and same_view: "ok p \<Longrightarrow> ok q \<Longrightarrow> same_pixel f p q \<Longrightarrow> map view (pix p) = map view (pix q)"
    and put_view: "view a = view b \<Longrightarrow> view (put_pixel g c a) = view (put_pixel g c b)"
    and put_put: "view (put_pixel g c (put_pixel g c' a)) = view (put_pixel g c a)"
begin

lemma store_decoded:
  assumes "decoded view g buf0 es op buf" "op < length buf0" "view (put_pixel g (buf0 ! op) p) = view (put_pixel g (buf0 ! op) (es ! op))"
  shows "\<exists>buf'. store_pixel g p op buf = Inr buf' \<and> decoded view g buf0 es (Suc op) buf'"
  using assms by (auto simp: store_pixel_def decoded_def nth_list_update less_Suc_eq)

lemma store_all_filled:
  "decoded view g buf0 es op buf \<Longrightarrow> op + length ps \<le> length buf0 \<Longrightarrow> (\<And>j. j < length ps \<Longrightarrow> view (ps ! j) = view (es ! (op + j))) \<Longrightarrow>
    \<exists>buf'. store_all g ps op buf = Inr (op + length ps, buf') \<and> decoded view g buf0 es (op + length ps) buf'"
proof (induction ps arbitrary: op buf)
  case (Cons p ps)
  have "view p = view (es ! op)" using Cons.prems(3) [of 0] by simp
  from put_view [OF this] have "view (put_pixel g (buf0 ! op) p) = view (put_pixel g (buf0 ! op) (es ! op))" .
  from store_decoded [OF Cons.prems(1) _ this] Cons.prems(2)
  obtain buf1 where b: "store_pixel g p op buf = Inr buf1" "decoded view g buf0 es (Suc op) buf1" by auto
  have "view (ps ! j) = view (es ! (Suc op + j))" if "j < length ps" for j using Cons.prems(3) [of "Suc j"] that by simp
  from Cons.IH [OF b(2) _ this] Cons.prems(2) b(1) show ?case by auto
qed auto

lemma copy_ref_filled:
  "decoded view g buf0 es op buf \<Longrightarrow> op + n \<le> lim \<Longrightarrow> lim \<le> length buf0 \<Longrightarrow> 0 < dist \<Longrightarrow> dist \<le> op \<Longrightarrow>
    (\<And>j. j < n \<Longrightarrow> view (es ! (op + j)) = view (es ! (op + j - dist))) \<Longrightarrow>
    \<exists>buf'. copy_ref g lim n (op - dist) op buf = Inr (op + n, buf') \<and> decoded view g buf0 es (op + n) buf'"
proof (induction n arbitrary: op buf)
  case (Suc n)
  let ?p = "buf ! (op - dist)"
  have "view ?p = view (put_pixel g (buf0 ! (op - dist)) (es ! (op - dist)))" using Suc.prems(1,4,5) by (simp add: decoded_def)
  from put_view [OF this] have "view (put_pixel g (buf0 ! op) ?p) = view (put_pixel g (buf0 ! op) (es ! (op - dist)))"
    unfolding put_put .
  also have "\<dots> = view (put_pixel g (buf0 ! op) (es ! op))" using Suc.prems(6) [of 0] by (intro put_view) simp
  finally have p: "view (put_pixel g (buf0 ! op) ?p) = view (put_pixel g (buf0 ! op) (es ! op))" .
  from store_decoded [OF Suc.prems(1) _ p] Suc.prems(2,3)
  obtain buf1 where b: "store_pixel g ?p op buf = Inr buf1" "decoded view g buf0 es (Suc op) buf1" by auto
  have i: "index_list buf (int (op - dist)) = Inr ?p" using Suc.prems(1-5) by (intro index_list_in) (auto simp: decoded_def)
  have "view (es ! (Suc op + j)) = view (es ! (Suc op + j - dist))" if "j < n" for j using Suc.prems(6) [of "Suc j"] that by simp
  from Suc.IH [OF b(2) _ Suc.prems(3,4) _ this] Suc.prems(2,5)
  obtain buf' where "copy_ref g lim n (Suc op - dist) (Suc op) buf1 = Inr (Suc op + n, buf')" "decoded view g buf0 es (Suc op + n) buf'" by auto
  then show ?case using b(1) i Suc.prems(2,5) by (simp add: Suc_diff_le)
qed auto

lemma copy_run_filled:
  "decoded view g buf0 es op buf \<Longrightarrow> op + n \<le> lim \<Longrightarrow> lim \<le> length buf0 \<Longrightarrow>
    (\<And>j c. j < n \<Longrightarrow> view (put_pixel g c b) = view (put_pixel g c (es ! (op + j)))) \<Longrightarrow>
    \<exists>buf'. copy_run g lim n b op buf = Inr (op + n, buf') \<and> decoded view g buf0 es (op + n) buf'"
proof (induction n arbitrary: op buf)
  case (Suc n)
  have "view (put_pixel g (buf0 ! op) b) = view (put_pixel g (buf0 ! op) (es ! op))" using Suc.prems(4) [of 0] by simp
  from store_decoded [OF Suc.prems(1) _ this] Suc.prems(2,3)
  obtain buf1 where b: "store_pixel g b op buf = Inr buf1" "decoded view g buf0 es (Suc op) buf1" by auto
  have "view (put_pixel g c b) = view (put_pixel g c (es ! (Suc op + j)))" if "j < n" for j c using Suc.prems(4) [of "Suc j"] that by simp
  from Suc.IH [OF b(2) _ Suc.prems(3) this] Suc.prems(2) show ?case using b(1) by auto
qed auto

abbreviation "expected img \<equiv> concat (map pix img)"

lemma length_expected: "\<forall>p \<in> set img. ok p \<Longrightarrow> length (expected img) = k * length img"
  using length_concat_uniform [of "map pix img" k] by (simp add: length_pix)

lemma expected_nth: "\<forall>p \<in> set img. ok p \<Longrightarrow> a < length img \<Longrightarrow> b < k \<Longrightarrow> expected img ! (k * a + b) = pix (img ! a) ! b"
  using nth_concat_uniform [of "map pix img" k a b] by (simp add: length_pix)

lemma expected_same:
  assumes ok: "\<forall>p \<in> set img. ok p" and e: "explains1 f img pos (Match d l)" and j: "j < k * covers f (Match d l)"
  shows "view (expected img ! (k * pos + j)) = view (expected img ! (k * pos + j - k * (d + 1)))"
proof -
  define a b where "a = j div k" and "b = j mod k"
  have b: "b < k" and jk: "j = k * a + b" using scale(2) by (simp_all add: a_def b_def)
  have a: "a < covers f (Match d l)" using j by (simp add: a_def less_mult_imp_div_less mult.commute)
  define c where "c = pos + a - (d + 1)"
  have lt: "pos + a < length img" "c < length img" using e a by (auto simp: c_def)
  have c: "pos + a = c + (d + 1)" using e by (simp add: c_def)
  have "map view (pix (img ! (pos + a))) = map view (pix (img ! c))"
    using e a lt ok by (intro same_view) (auto simp: c_def)
  then have "view (pix (img ! (pos + a)) ! b) = view (pix (img ! c) ! b)"
    using b lt ok by (metis length_pix nth_map nth_mem)
  moreover have "k * pos + j = k * (pos + a) + b" by (simp add: jk algebra_simps)
  moreover have "k * pos + j - k * (d + 1) = k * c + b"
    unfolding \<open>k * pos + j = k * (pos + a) + b\<close> c by (simp add: algebra_simps)
  ultimately show ?thesis using expected_nth [OF ok lt(1) b] expected_nth [OF ok lt(2) b] by simp
qed

lemma copy_match_filled:
  assumes ok: "\<forall>p \<in> set img. ok p" and e: "explains1 f img pos (Match d l)" and N: "k * length img < 2 ^ 31"
    and lim: "k * length img \<le> length buf0" and fl: "decoded view g buf0 (expected img) (k * pos) buf"
  shows "\<exists>buf'. copy_match g (k * length img) (of_nat l - 1) (of_nat d) (k * pos) buf = Inr (k * (pos + covers f (Match d l)), buf') \<and>
    decoded view g buf0 (expected img) (k * (pos + covers f (Match d l))) buf'"
proof -
  let ?n = "k * covers f (Match d l)" and ?D = "k * (d + 1)" and ?op = "k * pos" and ?es = "expected img"
  have n: "?op + ?n \<le> k * length img" unfolding add_mult_distrib2 [symmetric] using e [unfolded explains1.simps] by (intro mult_le_mono2) blast
  have D: "?D \<le> ?op" using e [unfolded explains1.simps] by (intro mult_le_mono2) blast
  have D0: "0 < ?D" using scale(2) by simp
  have p: "(2 :: nat) ^ 31 < 2 ^ 32" by simp
  have "of_nat l - 1 + len_bias g = (of_nat (covers f (Match d l)) :: u32)"
    using e by (simp add: bias of_nat_diff)
  then have "(of_nat l - 1 + len_bias g) * plt_scale g = (of_nat ?n :: u32)"
    by (simp only: scale of_nat_mult mult.commute)
  moreover have "unat (of_nat ?n :: u32) = ?n" using n N p by (intro unat_u32) linarith
  ultimately have len: "unat ((of_nat l - 1 + len_bias g) * plt_scale g) = ?n" by simp
  have "(of_nat d + 1) * plt_scale g = (of_nat ?D :: u32)" by (simp add: scale algebra_simps)
  moreover have "unat (of_nat ?D :: u32) = ?D" using n D N p by (intro unat_u32) linarith
  ultimately have ofs: "unat ((of_nat d + 1) * plt_scale g) = ?D" by simp
  have u: "uint ((of_nat l - 1 + len_bias g) * plt_scale g) = int ?n" "uint ((of_nat d + 1) * plt_scale g) = int ?D"
    using arg_cong [OF len, of int] arg_cong [OF ofs, of int] by (simp_all only: of_nat_unat)
  have same: "view (?es ! (?op + j)) = view (?es ! (?op + j - ?D))" if "j < ?n" for j using expected_same [OF ok e that] .
  have "\<exists>buf'. (if int ?op - int ?D = int ?op - 1 then rbind (index_list buf (int ?op - int ?D)) (\<lambda>b. copy_run g (k * length img) ?n b ?op buf)
      else copy_ref g (k * length img) ?n (nat (int ?op - int ?D)) ?op buf) = Inr (?op + ?n, buf') \<and> decoded view g buf0 ?es (?op + ?n) buf'"
  proof (cases "?D = 1")
    case True
    have "length buf = length buf0" using fl by (simp add: decoded_def)
    then have op: "0 < ?op" "?op - 1 < length buf" using D D0 n lim by linarith+
    let ?b = "buf ! (?op - 1)"
    have bk: "view (?es ! (?op + j)) = view (?es ! (?op - 1))" if "j < ?n" for j
      using that
    proof (induction j)
      case 0
      then show ?case using same [of 0] True by simp
    next
      case (Suc j)
      then show ?case using same [of "Suc j"] True by simp
    qed
    have "view ?b = view (put_pixel g (buf0 ! (?op - 1)) (?es ! (?op - 1)))" using fl op by (simp add: decoded_def)
    from put_view [OF this] have b: "view (put_pixel g c ?b) = view (put_pixel g c (?es ! (?op - 1)))" for c unfolding put_put .
    have "view (put_pixel g c ?b) = view (put_pixel g c (?es ! (?op + j)))" if "j < ?n" for j c
      unfolding b using put_view [OF bk [OF that]] by simp
    then have run: "\<exists>buf'. copy_run g (k * length img) ?n ?b ?op buf = Inr (?op + ?n, buf') \<and> decoded view g buf0 ?es (?op + ?n) buf'"
      by (rule copy_run_filled [OF fl n lim])
    have r: "int ?op - int ?D = int (?op - 1)" using True op(1) by linarith
    then have "int ?op - int ?D = int ?op - 1" using op(1) by linarith
    moreover have "index_list buf (int (?op - 1)) = Inr ?b" using op(2) by (rule index_list_in)
    ultimately show ?thesis using run unfolding r by (simp only: if_True refl rbind_simps)
  next
    case False
    then have "int ?op - int ?D \<noteq> int ?op - 1" by linarith
    moreover have "nat (int ?op - int ?D) = ?op - ?D" by linarith
    moreover have "\<exists>buf'. copy_ref g (k * length img) ?n (?op - ?D) ?op buf = Inr (?op + ?n, buf') \<and> decoded view g buf0 ?es (?op + ?n) buf'"
      using same by (rule copy_ref_filled [OF fl n lim D0 D])
    ultimately show ?thesis by (simp only: if_False)
  qed
  moreover have "int ?op - int ?D + int ?n \<le> int (k * length img)" "0 \<le> int ?op - int ?D" using n D by linarith+
  ultimately show ?thesis unfolding copy_match_def Let_def len u using n by (simp add: add_mult_distrib2)
qed

lemma copy_comp_filled:
  assumes ok: "\<forall>p \<in> set img. ok p" and lim: "k * length img \<le> length buf0"
  shows "decoded view g buf0 (expected img) (k * pos) buf \<Longrightarrow> pos + length ps \<le> length img \<Longrightarrow> ps = take (length ps) (drop pos img) \<Longrightarrow>
    \<exists>buf'. copy_comp g (k * length img) (length ps) (k * pos) buf (concat (map (encode_pixel f) ps) @ bs) = Inr (k * (pos + length ps), buf', bs) \<and>
      decoded view g buf0 (expected img) (k * (pos + length ps)) buf'"
proof (induction ps arbitrary: pos buf)
  case (Cons p ps)
  have p: "p = img ! pos" "ps = take (length ps) (drop (Suc pos) img)"
    using Cons.prems(2,3) by (auto simp: Cons_nth_drop_Suc [symmetric])
  have okp: "ok p" using ok Cons.prems(2) p(1) by simp
  have "view (pix p ! j) = view (expected img ! (k * pos + j))" if "j < length (pix p)" for j
    using expected_nth [OF ok, of pos j] Cons.prems(2) that p(1) okp by (simp add: length_pix)
  moreover have le: "k * Suc pos \<le> k * length img" using Cons.prems(2) by (intro mult_le_mono2) simp
  ultimately obtain buf1 where b: "store_all g (pix p) (k * pos) buf = Inr (k * Suc pos, buf1)" "decoded view g buf0 (expected img) (k * Suc pos) buf1"
    using store_all_filled [OF Cons.prems(1), of "pix p"] lim okp by (auto simp: length_pix add.commute)
  from Cons.IH [OF b(2) _ p(2)] Cons.prems(2) show ?case
    using b(1) comp [OF okp] le by auto
qed auto

definition token_step :: "nat \<Rightarrow> u8 \<Rightarrow> nat \<Rightarrow> 'q list \<Rightarrow> u8 list \<Rightarrow> (nat \<times> 'q list \<times> u8 list) res" where
  "token_step lim ctrl op buf bs =
     (if unat ctrl \<ge> MAX_COPY
      then rbind (decode_match ctrl bs) (\<lambda>(len, ofs, bs). rbind (copy_match g lim len ofs op buf) (\<lambda>(op, buf). Inr (op, buf, bs)))
      else copy_literals g lim ctrl op buf bs)"

lemma decompress_loop_step:
  "decompress_loop g (Suc fuel) lim ctrl op buf bs = rbind (token_step lim ctrl op buf bs) (\<lambda>(op, buf, bs).
     if op < lim then rbind (decode bs) (\<lambda>(ctrl, bs). decompress_loop g fuel lim ctrl op buf bs) else Inr (op, buf, bs))"
  by (simp add: token_step_def)

lemma token_step_filled:
  assumes ok: "\<forall>p \<in> set img. ok p" and e: "explains1 f img pos t" and N: "k * length img < 2 ^ 31"
    and lim: "k * length img \<le> length buf0" and fl: "decoded view g buf0 (expected img) (k * pos) buf"
  obtains c cs buf' where "token_bytes f t = c # cs"
    and "token_step (k * length img) c (k * pos) buf (cs @ bs) = Inr (k * (pos + covers f t), buf', bs)"
    and "decoded view g buf0 (expected img) (k * (pos + covers f t)) buf'"
proof (cases t)
  case (Lits ps)
  then have ps: "ps \<noteq> []" "length ps \<le> 32" "pos + length ps \<le> length img" "ps = take (length ps) (drop pos img)" using e by auto
  let ?c = "of_nat (length ps - 1) :: u8"
  have c: "unat ?c = length ps - 1" using ps(2) by (intro unat_byte) simp
  have n: "unat ?c + 1 = length ps" unfolding c using ps(1) by (cases ps) simp_all
  have less: "\<not> unat ?c \<ge> 32" unfolding c using ps(1,2) by (cases ps) simp_all
  have k: "unat (of_nat k :: u32) = k" using scale(3) by (intro unat_u32) simp
  have le: "k * pos + length ps * k \<le> k * length img" using mult_le_mono2 [OF ps(3), of k] by (simp add: algebra_simps)
  obtain buf' where
    "copy_comp g (k * length img) (length ps) (k * pos) buf (concat (map (encode_pixel f) ps) @ bs) = Inr (k * (pos + covers f t), buf', bs)"
    "decoded view g buf0 (expected img) (k * (pos + covers f t)) buf'"
    using copy_comp_filled [OF ok lim fl ps(3,4), of bs] Lits by auto
  moreover have "token_step (k * length img) ?c (k * pos) buf xs = copy_comp g (k * length img) (length ps) (k * pos) buf xs" for xs
    unfolding token_step_def copy_literals_def Let_def n scale(1) k using less le by (simp only: if_False spice_assert_simps)
  ultimately show thesis using Lits by (intro that) auto
next
  case (Match d l)
  from copy_match_filled [OF ok e [unfolded Match] N lim fl] obtain buf' where
    "copy_match g (k * length img) (of_nat l - 1) (of_nat d) (k * pos) buf = Inr (k * (pos + covers f t), buf')"
    "decoded view g buf0 (expected img) (k * (pos + covers f t)) buf'" unfolding Match by blast
  moreover from e Match obtain c cs where "match_bytes l d = c # cs" "32 \<le> unat c" "\<And>bs. decode_match c (cs @ bs) = Inr (of_nat l - 1, of_nat d, bs)"
    using decode_match_bytes [of l d] by auto
  ultimately show thesis using Match by (intro that) (auto simp: token_step_def)
qed

lemma covers_pos: "explains1 f img pos t \<Longrightarrow> 0 < covers f t"
  using min_match by (cases t) auto

lemma explains_le: "explains f img pos ts fin \<Longrightarrow> pos \<le> fin"
  by (induction ts arbitrary: pos) (auto dest: add_leD1)

lemma decompress_loop_tokens:
  assumes ok: "\<forall>p \<in> set img. ok p" and N: "k * length img < 2 ^ 31" and lim: "k * length img \<le> length buf0"
  shows "explains f img pos (t # ts) (length img) \<Longrightarrow> decoded view g buf0 (expected img) (k * pos) buf \<Longrightarrow> length ts < fuel \<Longrightarrow>
    token_bytes f t @ tokens_bytes f ts @ rest = c # cs \<Longrightarrow>
    \<exists>buf'. decompress_loop g fuel (k * length img) c (k * pos) buf cs = Inr (k * length img, buf', rest) \<and>
      decoded view g buf0 (expected img) (k * length img) buf'"
proof (induction ts arbitrary: t pos buf fuel c cs)
  case Nil
  obtain fuel' where fuel: "fuel = Suc fuel'" using Nil.prems(3) by (cases fuel) auto
  have e: "explains1 f img pos t" and fin: "pos + covers f t = length img" using Nil.prems(1) by auto
  obtain c0 cs' buf' where "token_bytes f t = c0 # cs'" "token_step (k * length img) c0 (k * pos) buf (cs' @ rest) = Inr (k * length img, buf', rest)"
    "decoded view g buf0 (expected img) (k * length img) buf'"
    by (rule token_step_filled [OF ok e N lim Nil.prems(2), of rest, unfolded fin])
  then show ?case using Nil.prems(4) unfolding fuel decompress_loop_step by auto
next
  case (Cons u us)
  obtain fuel' where fuel: "fuel = Suc fuel'" and less: "length us < fuel'" using Cons.prems(3) by (cases fuel) auto
  let ?pos = "pos + covers f t"
  have e: "explains1 f img pos t" and es: "explains f img ?pos (u # us) (length img)" using Cons.prems(1) by auto
  obtain c0 cs' buf' where step: "token_bytes f t = c0 # cs'"
    "token_step (k * length img) c0 (k * pos) buf (cs' @ tokens_bytes f (u # us) @ rest) = Inr (k * ?pos, buf', tokens_bytes f (u # us) @ rest)"
    "decoded view g buf0 (expected img) (k * ?pos) buf'"
    by (rule token_step_filled [OF ok e N lim Cons.prems(2), of "tokens_bytes f (u # us) @ rest"])
  have cs: "cs = cs' @ tokens_bytes f (u # us) @ rest" "c = c0" using Cons.prems(4) step(1) by simp_all
  have "?pos < length img" using es explains_le [of img "?pos + covers f u" us "length img"] covers_pos [of img ?pos u] by auto
  then have lt: "k * ?pos < k * length img" using scale(2) by simp
  have "explains1 f img ?pos u" using es by simp
  then obtain cu csu where "token_bytes f u = cu # csu" by (rule token_step_filled [OF ok _ N lim step(3), of u "[]"])
  then obtain c' cs'' where u: "token_bytes f u @ tokens_bytes f us @ rest = c' # cs''" by simp
  then have "tokens_bytes f (u # us) @ rest = c' # cs''" by simp
  then have "decompress_loop g fuel (k * length img) c (k * pos) buf cs = decompress_loop g fuel' (k * length img) c' (k * ?pos) buf' cs''"
    using lt step(2) unfolding fuel decompress_loop_step cs by (simp add: decode_def)
  with Cons.IH [OF es step(3) less u] show ?case by simp
qed

lemma length_tokens_bytes: "explains f img pos ts fin \<Longrightarrow> length ts \<le> length (tokens_bytes f ts)"
proof (induction ts arbitrary: pos)
  case (Cons t ts)
  have "1 \<le> length (token_bytes f t)" using token_bytes_nonempty [of f t] by (cases "token_bytes f t") simp_all
  with Cons show ?case by force
qed simp

lemma decoded_start: "decoded view g buf es 0 buf"
  by (simp add: decoded_def)

text \<open>
  Decompressing the bytes of tokens that describe an image writes the image to the buffer, and leaves what follows the bytes.
\<close>

lemma decompress_tokens:
  assumes "\<forall>p \<in> set img. ok p" "img \<noteq> []" "explains f img 0 ts (length img)" "k * length img < 2 ^ 31" "k * length img \<le> length buf"
  obtains buf' where "lz_decompress g buf (k * length img) (tokens_bytes f ts @ rest) = Inr (k * length img, buf', rest)"
    and "decoded view g buf (expected img) (k * length img) buf'"
proof -
  obtain t us where ts: "ts = t # us" using assms(2,3) by (cases ts) auto
  obtain c cs where cs: "token_bytes f t @ tokens_bytes f us @ rest = c # cs"
    using token_bytes_nonempty [of f t] by (cases "token_bytes f t") simp_all
  have "length us < Suc (length cs)"
    using length_tokens_bytes [OF assms(3)] arg_cong [OF cs, of length] ts by simp
  note loop = decompress_loop_tokens [OF assms(1,4,5) assms(3) [unfolded ts] _ this cs]
  have "decoded view g buf (expected img) (k * 0) buf" unfolding mult_0_right by (rule decoded_start)
  from loop [OF this] obtain buf' where "decompress_loop g (Suc (length cs)) (k * length img) c 0 buf cs = Inr (k * length img, buf', rest)"
    "decoded view g buf (expected img) (k * length img) buf'" unfolding mult_0_right by blast
  then show thesis using cs ts by (intro that) (simp_all add: lz_decompress_def decode_def del: decompress_loop.simps)
qed

end

end
