(* ===== verification/Lz_Compress.thy ===== *)
theory Lz_Compress
  imports Lz_Tokens
begin

text \<open>
  The compressor: at every turn of its loop the bytes written are those of tokens that describe the
  image up to the pending literals, and the hash table points into the segments. So it ends, writes no byte outside its buffers, reads no pixel
  outside a segment, and its bytes describe the image.
\<close>

section \<open>State of the compressor\<close>

text \<open>A segment at its place in the image.\<close>

definition placed :: "'p list \<Rightarrow> 'p lz_segment \<Rightarrow> bool" where
  "placed img s \<longleftrightarrow> size_delta s + length (seg_lines s) \<le> length img \<and>
     seg_lines s = take (length (seg_lines s)) (drop (size_delta s) img)"

text \<open>Segments one after the other, from a position to the end of the image.\<close>

fun laid :: "'p list \<Rightarrow> nat \<Rightarrow> 'p lz_segment list \<Rightarrow> bool" where
  "laid img pos [] \<longleftrightarrow> pos = length img"
| "laid img pos (s # segs) \<longleftrightarrow> placed img s \<and> size_delta s = pos \<and> laid img (pos + length (seg_lines s)) segs"

definition hash_ok :: "'p list \<Rightarrow> 'p lz_encoder \<Rightarrow> bool" where
  "hash_ok img e \<longleftrightarrow> (\<forall>h. placed img (image_seg (htab e h)) \<and> seg_ref (htab e h) + 3 < length (seg_lines (image_seg (htab e h))))"

text \<open>
  Up to position \<open>pos\<close> of the image, nothing pending; and with \<open>copy\<close> pending pixels after a count
  that stands for the longest run.
\<close>

definition finished :: "'p lz_format \<Rightarrow> 'p list \<Rightarrow> u8 list \<Rightarrow> nat \<Rightarrow> nat \<Rightarrow> 'p lz_encoder \<Rightarrow> bool" where
  "finished f img pre cap pos e \<longleftrightarrow> io_space e = cap \<and> length pre + 6 * length img + 1 \<le> cap \<and>
     (\<exists>ts. explains f img 0 ts pos \<and> io_bytes e = pre @ tokens_bytes f ts)"

definition unsettled :: "'p lz_format \<Rightarrow> 'p list \<Rightarrow> u8 list \<Rightarrow> nat \<Rightarrow> nat \<Rightarrow> nat \<Rightarrow> 'p lz_encoder \<Rightarrow> bool" where
  "unsettled f img pre cap pos copy e \<longleftrightarrow> copy < MAX_COPY \<and> copy \<le> pos \<and> pos \<le> length img \<and> io_space e = cap \<and> length pre + 6 * length img + 1 \<le> cap \<and>
     (\<exists>ts. explains f img 0 ts (pos - copy) \<and>
       io_bytes e = pre @ tokens_bytes f ts @ of_nat (MAX_COPY - 1) # concat (map (encode_pixel f) (take copy (drop (pos - copy) img))) \<and>
       io_last_copy e = Some (length pre + length (tokens_bytes f ts)))"

lemma placed_pixel: "placed img s \<Longrightarrow> i < length (seg_lines s) \<Longrightarrow> seg_pixel s i = Inr (img ! (size_delta s + i))"
  unfolding placed_def seg_pixel_def by (metis index_list_in nth_take add_leD1 nth_drop)

lemma encode_all_space:
  "length (io_bytes e) + length bs \<le> io_space e \<Longrightarrow> encode_all bs e = Inr (e\<lparr>io_bytes := io_bytes e @ bs\<rparr>)"
  by (induction bs arbitrary: e) (simp_all add: encode_def)

lemma encode_copy_count_space:
  "length (io_bytes e) < io_space e \<Longrightarrow>
    encode_copy_count c e = Inr (e\<lparr>io_bytes := io_bytes e @ [c], io_last_copy := Some (length (io_bytes e))\<rparr>)"
  by (simp add: encode_copy_count_def encode_def)

lemma hash_ok_update:
  "hash_ok img e \<Longrightarrow> placed img s \<Longrightarrow> i + 3 < length (seg_lines s) \<Longrightarrow> hash_ok img (e\<lparr>htab := (htab e)(h := \<lparr>image_seg = s, seg_ref = i\<rparr>)\<rparr>)"
  by (simp add: hash_ok_def)

lemma update_hash_ok:
  assumes "hash_ok img e" "placed img s" "i + 3 < length (seg_lines s)"
  obtains h where "update_hash f s i e = Inr (e\<lparr>htab := h\<rparr>)" "hash_ok img (e\<lparr>htab := h\<rparr>)"
proof -
  have "\<exists>h. hash_at f s i = Inr h" using assms(2,3) by (simp add: hash_at_def placed_pixel)
  then show thesis using hash_ok_update [OF assms] that by (auto simp: update_hash_def)
qed

lemma io_only [simp]:
  "hash_ok img (e\<lparr>io_bytes := bs\<rparr>) = hash_ok img e" "hash_ok img (e\<lparr>io_last_copy := l\<rparr>) = hash_ok img e"
  "finished f img pre cap pos (e\<lparr>htab := h\<rparr>) = finished f img pre cap pos e" "unsettled f img pre cap pos copy (e\<lparr>htab := h\<rparr>) = unsettled f img pre cap pos copy e"
  by (simp_all add: hash_ok_def finished_def unsettled_def)


section \<open>Matches\<close>

text \<open>A match from \<open>ip\<close>: \<open>n\<close> pixels are the same as those \<open>d\<close> pixels before.\<close>

definition repeats :: "'p lz_format \<Rightarrow> 'p list \<Rightarrow> nat \<Rightarrow> nat \<Rightarrow> nat \<Rightarrow> bool" where
  "repeats f img pos d n \<longleftrightarrow> (\<forall>j < n. same_pixel f (img ! (pos + j)) (img ! (pos + j - d)))"

lemma repeats_mono: "repeats f img pos d n \<Longrightarrow> m \<le> n \<Longrightarrow> repeats f img pos d m"
  by (simp add: repeats_def)

lemma repeats_Suc: "repeats f img pos d (Suc n) \<longleftrightarrow> repeats f img pos d n \<and> same_pixel f (img ! (pos + n)) (img ! (pos + n - d))"
  by (auto simp: repeats_def less_Suc_eq)

lemma repeats_Cons: "repeats f img pos d (Suc n) \<longleftrightarrow> same_pixel f (img ! pos) (img ! (pos - d)) \<and> repeats f img (Suc pos) d n"
  by (simp add: repeats_def All_less_Suc2)

lemma repeats_add: "repeats f img pos d m \<Longrightarrow> repeats f img (pos + m) d n \<Longrightarrow> repeats f img pos d (m + n)"
  unfolding repeats_def
proof (intro allI impI)
  fix j
  assume m: "\<forall>j<m. same_pixel f (img ! (pos + j)) (img ! (pos + j - d))"
    and n: "\<forall>j<n. same_pixel f (img ! (pos + m + j)) (img ! (pos + m + j - d))" and j: "j < m + n"
  show "same_pixel f (img ! (pos + j)) (img ! (pos + j - d))"
  proof (cases "j < m")
    case False
    then have "j - m < n" "pos + m + (j - m) = pos + j" using j by simp_all
    then show ?thesis using n by metis
  qed (use m in simp)
qed

text \<open>
  A match found at \<open>ip\<close>, before it is extended: \<open>ip'\<close> and \<open>r\<close> are where the next comparison takes place. It is longer than the shortest match,
  or the next comparison does take place.
\<close>

definition match_at :: "'p lz_format \<Rightarrow> 'p list \<Rightarrow> 'p lz_segment \<Rightarrow> nat \<Rightarrow> nat \<Rightarrow> nat \<Rightarrow> 'p lz_segment \<Rightarrow> nat \<Rightarrow> bool" where
  "match_at f img s ip d ip' t r \<longleftrightarrow>
     placed img t \<and> 1 \<le> d \<and> d < MAX_FARDISTANCE \<and> d \<le> size_delta s + ip \<and> size_delta t + r + d = size_delta s + ip' \<and>
     ip + min_match f \<le> ip' \<and> ip' + 2 \<le> length (seg_lines s) \<and> repeats f img (size_delta s + ip) d (ip' - ip) \<and>
     (ip + min_match f < ip' \<or> ip' + 2 < length (seg_lines s) \<and> r < length (seg_lines t)) \<and> (d = 1 \<longrightarrow> r < length (seg_lines t))"

lemma distance_nat:
  assumes "a < 2 ^ 63" "b < 2 ^ 63" "d = nat ((int a - int b) mod 2 ^ 64)" "d < 2 ^ 63"
  shows "b + d = a"
proof (cases "b \<le> a")
  case True
  then have "(int a - int b) mod 2 ^ 64 = int a - int b" using assms(1) by (intro mod_pos_pos_trivial) auto
  then show ?thesis using True assms(3) by linarith
next
  case False
  have "(int a - int b) mod 2 ^ 64 = (int a - int b + 2 ^ 64) mod 2 ^ 64" by simp
  also have "\<dots> = int a - int b + 2 ^ 64" using False assms(1,2) by (intro mod_pos_pos_trivial) auto
  finally show ?thesis using assms by simp
qed

context lz_pixels
begin

lemma same_refl [simp]: "same_pixel f p p"
  using same_equiv by (rule equivp_reflp)

lemma same_sym: "same_pixel f p q \<Longrightarrow> same_pixel f q p"
  using same_equiv by (rule equivp_symp)

lemma same_trans: "same_pixel f p q \<Longrightarrow> same_pixel f q r \<Longrightarrow> same_pixel f p r"
  using same_equiv by (rule equivp_transp)

lemma same_at_placed:
  "placed img t \<Longrightarrow> placed img s \<Longrightarrow> r < length (seg_lines t) \<Longrightarrow> i < length (seg_lines s) \<Longrightarrow>
    same_at f t r s i = Inr (same_pixel f (img ! (size_delta t + r)) (img ! (size_delta s + i)))"
  by (simp add: same_at_def placed_pixel)

lemma same_run_repeats:
  assumes "placed img t" "placed img s"
  shows "r + n \<le> length (seg_lines t) \<Longrightarrow> i + n \<le> length (seg_lines s) \<Longrightarrow> size_delta t + r + d = size_delta s + i \<Longrightarrow>
    same_run f n t r s i = Inr (repeats f img (size_delta s + i) d n)"
proof (induction n arbitrary: r i)
  case 0
  then show ?case by (simp add: repeats_def)
next
  case (Suc n)
  have r: "size_delta t + r = size_delta s + i - d" using Suc.prems(3) by simp
  have "repeats f img (size_delta s + i) d (Suc n) \<longleftrightarrow>
      same_pixel f (img ! (size_delta s + i - d)) (img ! (size_delta s + i)) \<and> repeats f img (size_delta s + Suc i) d n"
    unfolding repeats_Cons by (auto intro: same_sym)
  moreover have "same_at f t r s i = Inr (same_pixel f (img ! (size_delta s + i - d)) (img ! (size_delta s + i)))"
    using same_at_placed [OF assms, of r i] Suc.prems(1,2) r by simp
  moreover have "same_run f n t (Suc r) s (Suc i) = Inr (repeats f img (size_delta s + Suc i) d n)"
    using Suc.prems by (intro Suc.IH) simp_all
  ultimately show ?case by simp
qed

lemma check_match_found:
  assumes s: "placed img s" "ip + 6 < length (seg_lines s)" and t: "placed img t" "r + 3 < length (seg_lines t)"
    and d: "d = 0 \<or> d \<ge> MAX_FARDISTANCE \<or> size_delta t + r + d = size_delta s + ip"
  shows "\<exists>m. check_match f s ip t r d = Inr m \<and> (\<forall>d' ip' t' r'. m = Some (d', ip', t', r') \<longrightarrow> match_at f img s ip d' ip' t' r')"
proof (cases "d = 0 \<or> d \<ge> MAX_FARDISTANCE")
  case True
  then show ?thesis by (simp add: check_match_def)
next
  case False
  then have d: "1 \<le> d" "d < MAX_FARDISTANCE" "size_delta t + r + d = size_delta s + ip" using d by auto
  let ?mm = "min_match f" and ?pos = "size_delta s + ip"
  define extra where "extra = (if ?mm = 3 then 2 else 1 :: nat)"
  have first: "same_run f ?mm t r s ip = Inr (repeats f img ?pos d ?mm)"
    using s t d(3) min_match by (intro same_run_repeats) auto
  have second: "same_run f extra t (r + ?mm) s (ip + ?mm) = Inr (repeats f img (?pos + ?mm) d extra)"
    if "r + ?mm + extra \<le> length (seg_lines t)"
    using same_run_repeats [OF t(1) s(1), of "r + ?mm" extra "ip + ?mm" d] that s t d(3) min_match
    by (simp add: extra_def add.assoc split: if_splits)
  show ?thesis
  proof (cases "repeats f img ?pos d ?mm")
    case False
    then show ?thesis using first d(1,2) by (simp add: check_match_def)
  next
    case same: True
    show ?thesis
    proof (cases "d \<ge> MAX_DISTANCE")
      case near: False
      have "match_at f img s ip d (ip + ?mm) t (r + ?mm)"
        using d s t same min_match by (auto simp: match_at_def)
      then show ?thesis using near same first d(1,2) by (simp add: check_match_def)
    next
      case far: True
      let ?stop = "if ?mm = 3 then r + ?mm + 1 \<ge> length (seg_lines t) else r + ?mm + 1 > length (seg_lines t)"
      have unfold: "check_match f s ip t r d = (if ?stop then Inr None
          else rbind (same_run f extra t (r + ?mm) s (ip + ?mm)) (\<lambda>ok. Inr (if ok then Some (d, ip + ?mm + extra, t, r + ?mm + extra) else None)))"
        using far same first d(1,2) by (simp only: check_match_def Let_def extra_def rbind_simps) auto
      show ?thesis
      proof (cases ?stop)
        case False
        then have "r + ?mm + extra \<le> length (seg_lines t)" by (auto simp: extra_def split: if_splits)
        moreover have "match_at f img s ip d (ip + ?mm + extra) t (r + ?mm + extra)" if "repeats f img (?pos + ?mm) d extra"
          using repeats_add [OF same that] far d s t min_match by (auto simp: match_at_def extra_def split: if_splits)
        ultimately show ?thesis unfolding unfold if_not_P [OF False] using second by simp
      next
        case True
        then show ?thesis unfolding unfold if_P [OF True] by simp
      qed
    qed
  qed
qed

lemma find_match_found:
  assumes s: "placed img s" "ip + 6 < length (seg_lines s)" and h: "hash_ok img e" and img: "length img < 2 ^ 63"
  obtains m htab' where "find_match f s ip e = Inr (m, e\<lparr>htab := htab'\<rparr>)" "hash_ok img (e\<lparr>htab := htab'\<rparr>)"
    and "\<forall>d ip' t r. m = Some (d, ip', t, r) \<longrightarrow> match_at f img s ip d ip' t r"
proof -
  have run: "is_run f s ip = Inr (0 < ip \<and> repeats f img (size_delta s + ip) 1 3)"
    using same_run_repeats [OF s(1) s(1), of "ip - 1" 3 ip 1] s(2) by (simp add: is_run_def)
  show thesis
  proof (cases "0 < ip \<and> repeats f img (size_delta s + ip) 1 3")
    case True
    then have "match_at f img s ip 1 (ip + 3) s (ip + 2)" using s min_match by (auto simp: match_at_def)
    then show thesis using True run h by (intro that [of "Some (1, ip + 3, s, ip + 2)" "htab e"]) (auto simp: find_match_def)
  next
    case False
    obtain x where x: "hash_at f s ip = Inr x" using s by (simp add: hash_at_def placed_pixel)
    let ?t = "image_seg (htab e x)" and ?r = "seg_ref (htab e x)"
    define d where "d = nat (((int ip + int (size_delta s)) - (int ?r + int (size_delta ?t))) mod 2 ^ 64)"
    have t: "placed img ?t" "?r + 3 < length (seg_lines ?t)" using h by (simp_all add: hash_ok_def)
    have "size_delta s + ip < 2 ^ 63" "size_delta ?t + ?r < 2 ^ 63" using s t img by (auto simp: placed_def)
    then have "d = 0 \<or> d \<ge> MAX_FARDISTANCE \<or> size_delta ?t + ?r + d = size_delta s + ip"
      using distance_nat [of "size_delta s + ip" "size_delta ?t + ?r" d] unfolding d_def of_nat_add by (fastforce simp: add.commute)
    from check_match_found [OF s t this] obtain m where m: "check_match f s ip ?t ?r d = Inr m"
      "\<forall>d' ip' t' r'. m = Some (d', ip', t', r') \<longrightarrow> match_at f img s ip d' ip' t' r'" by blast
    have "hash_ok img (e\<lparr>htab := (htab e)(x := \<lparr>image_seg = s, seg_ref = ip\<rparr>)\<rparr>)" using h s by (intro hash_ok_update) simp_all
    then show thesis using False run x m
      by (intro that [of m "(htab e)(x := \<lparr>image_seg = s, seg_ref = ip\<rparr>)"]) (auto simp: find_match_def Let_def d_def)
  qed
qed

lemma match_loop_found:
  assumes s: "placed img s" and t: "placed img t"
  shows "size_delta t + r + d = size_delta s + ip \<Longrightarrow> anchor \<le> ip \<Longrightarrow> ip + 2 \<le> length (seg_lines s) \<Longrightarrow>
    repeats f img (size_delta s + anchor) d (ip - anchor) \<Longrightarrow>
    \<exists>ip'. match_loop f s ip t r = Inr ip' \<and> ip \<le> ip' \<and> ip' + 2 \<le> length (seg_lines s) \<and> repeats f img (size_delta s + anchor) d (ip' - 1 - anchor) \<and>
      (ip + 2 < length (seg_lines s) \<and> r < length (seg_lines t) \<longrightarrow> ip < ip')"
proof (induction "length (seg_lines s) - ip" arbitrary: ip r rule: less_induct)
  case less
  show ?case
  proof (cases "ip + 2 < length (seg_lines s) \<and> r < length (seg_lines t)")
    case False
    moreover have "repeats f img (size_delta s + anchor) d (ip - 1 - anchor)" using less.prems(4) by (rule repeats_mono) simp
    ultimately show ?thesis using less.prems by (subst match_loop.simps) auto
  next
    case True
    have "size_delta t + r = size_delta s + anchor + (ip - anchor) - d" "size_delta s + ip = size_delta s + anchor + (ip - anchor)"
      using less.prems(1,2) by simp_all
    with same_at_placed [OF t s, of r ip] True
    have same: "same_at f t r s ip = Inr (same_pixel f (img ! (size_delta s + anchor + (ip - anchor) - d)) (img ! (size_delta s + anchor + (ip - anchor))))"
      (is "_ = Inr ?b") by (metis add_lessD1)
    show ?thesis
    proof (cases ?b)
      case False
      have "match_loop f s ip t r = Inr (Suc ip)" using True same False by (subst match_loop.simps) simp
      then show ?thesis using less.prems True by simp
    next
      case b: True
      have "repeats f img (size_delta s + anchor) d (Suc (ip - anchor))" using less.prems(4) same_sym [OF b] by (simp add: repeats_Suc)
      then have "repeats f img (size_delta s + anchor) d (Suc ip - anchor)" using less.prems(2) by (simp add: Suc_diff_le)
      note rep = this
      have "length (seg_lines s) - Suc ip < length (seg_lines s) - ip" "size_delta t + Suc r + d = size_delta s + Suc ip" "anchor \<le> Suc ip"
        "Suc ip + 2 \<le> length (seg_lines s)" using less.prems(1,2) True by linarith+
      from less.hyps [OF this rep] obtain ip' where "match_loop f s (Suc ip) t (Suc r) = Inr ip'" "Suc ip \<le> ip'" "ip' + 2 \<le> length (seg_lines s)"
        "repeats f img (size_delta s + anchor) d (ip' - 1 - anchor)" by blast
      moreover have "match_loop f s ip t r = match_loop f s (Suc ip) t (Suc r)" using True same b by (subst match_loop.simps) simp
      ultimately show ?thesis by auto
    qed
  qed
qed

lemma run_loop_found:
  assumes s: "placed img s" and t: "placed img t"
  shows "size_delta t + r + 1 = size_delta s + ip \<Longrightarrow> anchor < ip \<Longrightarrow> 0 < size_delta s + anchor \<Longrightarrow> ip + 2 \<le> length (seg_lines s) \<Longrightarrow>
    repeats f img (size_delta s + anchor) 1 (ip - 1 - anchor) \<Longrightarrow> same_pixel f x (img ! (size_delta s + ip - 2)) \<Longrightarrow>
    \<exists>ip'. run_loop f x s ip t r = Inr ip' \<and> ip \<le> ip' \<and> ip' + 2 \<le> length (seg_lines s) \<and> repeats f img (size_delta s + anchor) 1 (ip' - 1 - anchor) \<and>
      (ip + 2 < length (seg_lines s) \<and> r < length (seg_lines t) \<and> same_pixel f (img ! (size_delta s + ip - 1)) x \<longrightarrow> ip < ip')"
proof (induction "length (seg_lines s) - ip" arbitrary: ip r rule: less_induct)
  case less
  show ?case
  proof (cases "ip + 2 < length (seg_lines s) \<and> r < length (seg_lines t)")
    case False
    then show ?thesis using less.prems by (subst run_loop.simps) auto
  next
    case True
    have r: "size_delta t + r = size_delta s + ip - 1" using less.prems(1) by simp
    have p: "seg_pixel t r = Inr (img ! (size_delta s + ip - 1))" using placed_pixel [OF t, of r] True unfolding r by simp
    show ?thesis
    proof (cases "same_pixel f (img ! (size_delta s + ip - 1)) x")
      case False
      then have "run_loop f x s ip t r = Inr ip" using True p by (subst run_loop.simps) simp
      then show ?thesis using less.prems False by simp
    next
      case b: True
      let ?n = "ip - 1 - anchor"
      have n: "Suc ip - 1 - anchor = Suc ?n" "size_delta s + anchor + ?n = size_delta s + ip - 1" "size_delta s + anchor + ?n - 1 = size_delta s + ip - 2"
        using less.prems(2) by simp_all
      have "same_pixel f (img ! (size_delta s + anchor + ?n)) (img ! (size_delta s + anchor + ?n - 1))"
        unfolding n(3) unfolding n(2) using same_trans [OF b less.prems(6)] .
      then have rep: "repeats f img (size_delta s + anchor) 1 (Suc ip - 1 - anchor)"
        unfolding n(1) repeats_Suc using less.prems(5) by simp
      have x: "same_pixel f x (img ! (size_delta s + Suc ip - 2))" using same_sym [OF b] by (simp add: numeral_2_eq_2)
      have "length (seg_lines s) - Suc ip < length (seg_lines s) - ip" "size_delta t + Suc r + 1 = size_delta s + Suc ip" "anchor < Suc ip"
        "Suc ip + 2 \<le> length (seg_lines s)" using less.prems(1,2) True by linarith+
      from less.hyps [OF this(1,2,3) less.prems(3) this(4) rep x]
      obtain ip' where "run_loop f x s (Suc ip) t (Suc r) = Inr ip'" "Suc ip \<le> ip'" "ip' + 2 \<le> length (seg_lines s)"
        "repeats f img (size_delta s + anchor) 1 (ip' - 1 - anchor)" by blast
      moreover have "run_loop f x s ip t r = run_loop f x s (Suc ip) t (Suc r)" using True p b by (subst run_loop.simps) simp
      ultimately show ?thesis by auto
    qed
  qed
qed

lemma extend_match_found:
  assumes s: "placed img s" and m: "match_at f img s ip d ip' t r"
  obtains q where "extend_match f (d - 1) s ip' t r = Inr q" "ip + min_match f < q" "q + 2 \<le> length (seg_lines s)"
    and "repeats f img (size_delta s + ip) d (q - 1 - ip)"
proof -
  have m': "placed img t" "1 \<le> d" "d \<le> size_delta s + ip" "size_delta t + r + d = size_delta s + ip'" "ip + min_match f \<le> ip'"
    "ip' + 2 \<le> length (seg_lines s)" "repeats f img (size_delta s + ip) d (ip' - ip)" using m by (auto simp: match_at_def)
  have "ip < ip'" using m'(5) min_match by simp
  show thesis
  proof (cases "d = 1")
    case False
    from match_loop_found [OF s m'(1,4) _ m'(6,7)] obtain q where "match_loop f s ip' t r = Inr q" "ip' \<le> q" "q + 2 \<le> length (seg_lines s)"
      "repeats f img (size_delta s + ip) d (q - 1 - ip)" "ip' + 2 < length (seg_lines s) \<and> r < length (seg_lines t) \<longrightarrow> ip' < q"
      using \<open>ip < ip'\<close> by auto
    then show thesis using False m m'(2) by (intro that [of q]) (auto simp: extend_match_def match_at_def)
  next
    case True
    have r: "r < length (seg_lines t)" using m True by (simp add: match_at_def)
    let ?x = "img ! (size_delta s + ip' - 1)"
    have tr: "size_delta t + r = size_delta s + ip' - 1" using m'(4) True by simp
    have x: "seg_pixel t r = Inr ?x" using placed_pixel [OF m'(1) r] unfolding tr .
    have adj: "size_delta s + ip + (ip' - 1 - ip) = size_delta s + ip' - 1" "size_delta s + ip + (ip' - 1 - ip) - 1 = size_delta s + ip' - 2"
      "ip' - 1 - ip < ip' - ip"
      using \<open>ip < ip'\<close> by simp_all
    have "same_pixel f ?x (img ! (size_delta s + ip' - 2))"
      using m'(7) [unfolded True repeats_def, rule_format, OF adj(3)] unfolding adj(2) unfolding adj(1) .
    moreover have "repeats f img (size_delta s + ip) 1 (ip' - 1 - ip)" using m'(7) unfolding True by (rule repeats_mono) simp
    moreover have "size_delta t + r + 1 = size_delta s + ip'" "0 < size_delta s + ip" using m'(2,3,4) True by linarith+
    ultimately obtain q where "run_loop f ?x s ip' t r = Inr q" "ip' \<le> q" "q + 2 \<le> length (seg_lines s)"
      "repeats f img (size_delta s + ip) 1 (q - 1 - ip)" "ip' + 2 < length (seg_lines s) \<and> r < length (seg_lines t) \<longrightarrow> ip' < q"
      using run_loop_found [OF s m'(1), of r ip' ip ?x] \<open>ip < ip'\<close> m'(6) by auto
    then show thesis using m True x r by (intro that [of q]) (auto simp: extend_match_def match_at_def)
  qed
qed


section \<open>The bytes written\<close>

lemma length_pixels: "length (concat (map (encode_pixel f) ps)) \<le> 3 * length ps"
proof (induction ps)
  case (Cons p ps)
  then show ?case using pixel_bytes [of p] by simp
qed simp

lemma length_token: "explains1 f img pos t \<Longrightarrow> length (token_bytes f t) \<le> 6 * covers f t"
proof (cases t)
  case (Lits ps)
  then show "explains1 f img pos t \<Longrightarrow> length (token_bytes f t) \<le> 6 * covers f t" using length_pixels [of ps] by (auto simp flip: length_greater_0_conv simp del: length_concat)
next
  case (Match d l)
  then show "explains1 f img pos t \<Longrightarrow> length (token_bytes f t) \<le> 6 * covers f t"
    using length_match_bytes [of l d] min_match by (auto simp: le_diff_conv)
qed

lemma length_tokens: "explains f img pos ts fin \<Longrightarrow> length (tokens_bytes f ts) + 6 * pos \<le> 6 * fin"
proof (induction ts arbitrary: pos)
  case (Cons t ts)
  then show ?case using Cons.IH [of "pos + covers f t"] length_token [of img pos t] by simp
qed simp

lemma finished_token:
  assumes "finished f img pre cap pos e" "explains1 f img pos t" "pos + covers f t \<le> length img"
  obtains e' where "encode_all (token_bytes f t) e = Inr e'" "finished f img pre cap (pos + covers f t) e'" "htab e' = htab e"
proof -
  from assms(1) obtain ts where ts: "explains f img 0 ts pos" "io_bytes e = pre @ tokens_bytes f ts" "length pre + 6 * length img + 1 \<le> cap" "io_space e = cap"
    by (auto simp: finished_def)
  have ts': "explains f img 0 (ts @ [t]) (pos + covers f t)" using explains_snoc [OF ts(1) assms(2)] .
  have "length (tokens_bytes f (ts @ [t])) \<le> 6 * (pos + covers f t)" using length_tokens [OF ts'] by simp
  then have "length (io_bytes e) + length (token_bytes f t) \<le> io_space e" using ts(2,3,4) assms(3) by simp
  note enc = encode_all_space [OF this]
  show thesis by (rule that [OF enc]) (use ts ts' in \<open>auto simp: finished_def intro!: exI [of _ "ts @ [t]"]\<close>)
qed

lemma finished_start:
  assumes "finished f img pre cap pos e" "pos \<le> length img"
  obtains e' where "encode_copy_count (of_nat (MAX_COPY - 1)) e = Inr e'" "unsettled f img pre cap pos 0 e'" "htab e' = htab e"
proof -
  from assms(1) obtain ts where ts: "explains f img 0 ts pos" "io_bytes e = pre @ tokens_bytes f ts" "length pre + 6 * length img + 1 \<le> cap" "io_space e = cap"
    by (auto simp: finished_def)
  have "length (io_bytes e) < io_space e" using ts length_tokens [OF ts(1)] assms(2) by simp
  note enc = encode_copy_count_space [OF this]
  show thesis by (rule that [OF enc]) (use ts assms(2) in \<open>auto simp: unsettled_def intro!: exI [of _ ts]\<close>)
qed

lemma unsettled_settle:
  assumes "unsettled f img pre cap pos copy e"
  obtains e' where "(if copy \<noteq> 0 then update_copy_count (of_nat (copy - 1)) e else compress_output_prev e) = Inr e'"
    "finished f img pre cap pos e'" "htab e' = htab e"
proof -
  define ps where "ps = take copy (drop (pos - copy) img)"
  from assms obtain ts where ts: "explains f img 0 ts (pos - copy)" "io_last_copy e = Some (length pre + length (tokens_bytes f ts))"
    "io_bytes e = pre @ tokens_bytes f ts @ of_nat (MAX_COPY - 1) # concat (map (encode_pixel f) ps)"
    and b: "copy < 32" "copy \<le> pos" "pos \<le> length img" "length pre + 6 * length img + 1 \<le> cap" "io_space e = cap"
    by (auto simp: unsettled_def ps_def)
  have ps: "length ps = copy" using b by (simp add: ps_def)
  show thesis
  proof (cases "copy = 0")
    case True
    let ?e = "e\<lparr>io_bytes := pre @ tokens_bytes f ts\<rparr>"
    have "compress_output_prev e = Inr ?e" using True ts ps by (simp add: compress_output_prev_def butlast_append)
    moreover have "finished f img pre cap pos ?e" using True ts b by (auto simp: finished_def)
    ultimately show thesis using True by (intro that [of ?e]) simp_all
  next
    case False
    have "explains1 f img (pos - copy) (Lits ps)" using False b ps by (auto simp: ps_def)
    from explains_snoc [OF ts(1) this] have "explains f img 0 (ts @ [Lits ps]) pos" using ps b(2) by simp
    moreover have "(io_bytes e)[length pre + length (tokens_bytes f ts) := of_nat (copy - 1)] = pre @ tokens_bytes f (ts @ [Lits ps])"
      using ts(3) ps by (simp add: list_update_append)
    ultimately have "finished f img pre cap pos (e\<lparr>io_bytes := (io_bytes e)[length pre + length (tokens_bytes f ts) := of_nat (copy - 1)]\<rparr>)"
      (is "finished f img pre cap pos ?e") using b(4,5) by (auto simp: finished_def intro!: exI [of _ "ts @ [Lits ps]"])
    moreover have "update_copy_count (of_nat (copy - 1)) e = Inr ?e"
      using ts by (simp add: update_copy_count_def)
    ultimately show thesis using False by (intro that [of ?e]) simp_all
  qed
qed

lemma emit_literal_pending:
  assumes p: "unsettled f img pre cap pos copy e" and s: "placed img s" "ip < length (seg_lines s)" and pos: "pos = size_delta s + ip"
  obtains copy' e' where "emit_literal f s ip copy e = Inr (copy', e')" "unsettled f img pre cap (Suc pos) copy' e'" "htab e' = htab e"
proof -
  define ps where "ps = take copy (drop (pos - copy) img)"
  from p obtain ts where ts: "explains f img 0 ts (pos - copy)" "io_last_copy e = Some (length pre + length (tokens_bytes f ts))"
    "io_bytes e = pre @ tokens_bytes f ts @ of_nat (MAX_COPY - 1) # concat (map (encode_pixel f) ps)"
    and b: "copy < 32" "copy \<le> pos" "length pre + 6 * length img + 1 \<le> cap" "io_space e = cap"
    by (auto simp: unsettled_def ps_def)
  have less: "pos < length img" using s pos by (simp add: placed_def)
  define qs where "qs = take (Suc copy) (drop (pos - copy) img)"
  have qs: "qs = ps @ [img ! pos]" using b(2) less by (simp add: qs_def ps_def take_Suc_conv_app_nth)
  have lqs: "length qs = Suc copy" using b less by (simp add: qs_def)
  define e1 where "e1 = e\<lparr>io_bytes := pre @ tokens_bytes f ts @ of_nat (MAX_COPY - 1) # concat (map (encode_pixel f) qs)\<rparr>"
  have space: "length (io_bytes e1) + 1 \<le> io_space e1"
    using length_tokens [OF ts(1)] length_pixels [of qs] less b lqs by (simp add: e1_def)
  have e1: "encode_all (encode_pixel f (img ! pos)) e = Inr e1"
    using encode_all_space [of e "encode_pixel f (img ! pos)"] space ts(3) by (simp add: e1_def qs)
  have pix: "seg_pixel s ip = Inr (img ! pos)" using placed_pixel [OF s] pos by simp
  have pos': "Suc pos - Suc copy = pos - copy" "Suc pos \<le> length img" using less by auto
  show thesis
  proof (cases "copy + 1 = 32")
    case False
    then have "unsettled f img pre cap (Suc pos) (Suc copy) e1" using ts b pos' by (auto simp: unsettled_def e1_def qs_def intro!: exI [of _ ts])
    moreover have "emit_literal f s ip copy e = Inr (Suc copy, e1)" using pix e1 False by (simp add: emit_literal_def)
    ultimately show thesis by (intro that [of "Suc copy" e1]) (simp_all add: e1_def)
  next
    case True
    have "explains1 f img (pos - copy) (Lits qs)" using True b lqs less by (auto simp: qs_def)
    from explains_snoc [OF ts(1) this] have "explains f img 0 (ts @ [Lits qs]) (Suc pos)" using lqs b(2) by simp
    then have "finished f img pre cap (Suc pos) e1" using b(3,4) lqs True by (auto simp: finished_def e1_def intro!: exI [of _ "ts @ [Lits qs]"])
    then obtain e2 where "encode_copy_count (of_nat (MAX_COPY - 1)) e1 = Inr e2" "unsettled f img pre cap (Suc pos) 0 e2" "htab e2 = htab e1"
      using pos'(2) by (rule finished_start)
    moreover from this have "emit_literal f s ip copy e = Inr (0, e2)" using pix e1 True by (simp add: emit_literal_def)
    ultimately show thesis by (intro that [of 0 e2]) (simp_all add: e1_def)
  qed
qed

lemma update_boundary_ok:
  assumes s: "placed img s" and h: "hash_ok img e" and q: "anchor + min_match f < q" "q + 2 \<le> length (seg_lines s)"
  obtains h where "update_boundary f s anchor (int q - 3) e = Inr (e\<lparr>htab := h\<rparr>)" "hash_ok img (e\<lparr>htab := h\<rparr>)"
proof -
  obtain h1 where h1: "(if min_match f = 3 \<or> int q - 3 > int anchor then update_hash f s (nat (int q - 3)) e else Inr e) = Inr (e\<lparr>htab := h1\<rparr>)"
    "hash_ok img (e\<lparr>htab := h1\<rparr>)"
  proof (cases "min_match f = 3 \<or> int q - 3 > int anchor")
    case True
    then have "nat (int q - 3) + 3 < length (seg_lines s)" using q by auto
    from update_hash_ok [OF h s this] show thesis using that True by (metis (full_types))
  next
    case False
    then show thesis using h by (intro that [of "htab e"]) simp_all
  qed
  show thesis
  proof (cases "min_match f \<noteq> 1 \<or> int q - 3 + 1 > int anchor")
    case True
    then have "nat (int q - 3 + 1) + 3 < length (seg_lines s)" using q min_match by auto
    then obtain h2 where "update_hash f s (nat (int q - 3 + 1)) (e\<lparr>htab := h1\<rparr>) = Inr (e\<lparr>htab := h1, htab := h2\<rparr>)" "hash_ok img (e\<lparr>htab := h1, htab := h2\<rparr>)"
      by (rule update_hash_ok [OF h1(2) s])
    then show thesis using that h1(1) True by (simp add: update_boundary_def)
  next
    case False
    then show thesis using that h1 by (simp add: update_boundary_def)
  qed
qed

lemma emit_match_pending:
  assumes p: "unsettled f img pre cap pos copy e" and h: "hash_ok img e" and s: "placed img s" and pos: "pos = size_delta s + ip"
    and d: "1 \<le> d" "d < MAX_FARDISTANCE" "d \<le> pos" and q: "ip + min_match f < q" "q + 2 \<le> length (seg_lines s)"
    and rep: "repeats f img pos d (q - 1 - ip)"
  obtains e' where "emit_match f s copy ip q (d - 1) e = Inr e'" "unsettled f img pre cap (size_delta s + (q - 1)) 0 e'" "hash_ok img e'"
proof -
  obtain e1 where e1: "(if copy \<noteq> 0 then update_copy_count (of_nat (copy - 1)) e else compress_output_prev e) = Inr e1"
    "finished f img pre cap pos e1" "htab e1 = htab e"
    using p by (rule unsettled_settle)
  let ?l = "q - ip - min_match f"
  have covers: "covers f (Match (d - 1) ?l) = q - 1 - ip" using q min_match by simp
  have fin: "pos + (q - 1 - ip) = size_delta s + (q - 1)" "pos + (q - 1 - ip) \<le> length img" using q s pos min_match by (auto simp: placed_def)
  have ex: "explains1 f img pos (Match (d - 1) ?l)"
    unfolding explains1.simps covers using d q fin rep by (simp add: repeats_def)
  obtain e2 where e2: "encode_all (match_bytes ?l (d - 1)) e1 = Inr e2" "finished f img pre cap (size_delta s + (q - 1)) e2" "htab e2 = htab e"
    using finished_token [OF e1(2) ex, unfolded covers] fin e1(3) by (metis token_bytes.simps(2))
  have h2: "hash_ok img e2" using h e2(3) by (simp add: hash_ok_def)
  obtain h3 where h3: "update_boundary f s ip (int q - 3) e2 = Inr (e2\<lparr>htab := h3\<rparr>)" "hash_ok img (e2\<lparr>htab := h3\<rparr>)"
    using s h2 q by (rule update_boundary_ok)
  obtain e4 where e4: "encode_copy_count (of_nat (MAX_COPY - 1)) (e2\<lparr>htab := h3\<rparr>) = Inr e4" "unsettled f img pre cap (size_delta s + (q - 1)) 0 e4"
    "htab e4 = htab (e2\<lparr>htab := h3\<rparr>)"
    by (rule finished_start [of img pre cap "size_delta s + (q - 1)" "e2\<lparr>htab := h3\<rparr>"]) (use e2(2) fin in simp_all)
  have "nat (int q - 3 - int ip + (3 - int (min_match f))) = ?l" by simp
  then have "emit_match f s copy ip q (d - 1) e = Inr e4"
    using e1(1) e2(1) h3(1) e4(1) by (simp only: emit_match_def Let_def rbind_simps)
  moreover have "hash_ok img e4" using h3(2) e4(3) by (simp add: hash_ok_def)
  ultimately show thesis using e4(2) by (intro that)
qed


section \<open>The compressor\<close>

lemma compress_loop_pending:
  assumes s: "placed img s" and img: "length img < 2 ^ 63"
  shows "length (seg_lines s) - ip \<le> fuel \<Longrightarrow> ip \<le> length (seg_lines s) \<Longrightarrow> unsettled f img pre cap (size_delta s + ip) copy e \<Longrightarrow> hash_ok img e \<Longrightarrow>
    \<exists>ip' copy' e'. compress_loop f fuel s ip copy e = Inr (ip', copy', e') \<and> ip' \<le> length (seg_lines s) \<and>
      unsettled f img pre cap (size_delta s + ip') copy' e' \<and> hash_ok img e'"
proof (induction fuel arbitrary: ip copy e)
  case 0
  then show ?case by (subst compress_loop.simps) simp
next
  case (Suc fuel)
  show ?case
  proof (cases "ip + 6 < length (seg_lines s)")
    case False
    then show ?thesis using Suc.prems by (subst compress_loop.simps) simp
  next
    case True
    obtain m h where m: "find_match f s ip e = Inr (m, e\<lparr>htab := h\<rparr>)" "hash_ok img (e\<lparr>htab := h\<rparr>)"
      "\<forall>d ip' t r. m = Some (d, ip', t, r) \<longrightarrow> match_at f img s ip d ip' t r"
      using s True Suc.prems(4) img by (rule find_match_found)
    have p: "unsettled f img pre cap (size_delta s + ip) copy (e\<lparr>htab := h\<rparr>)" using Suc.prems(3) by simp
    show ?thesis
    proof (cases m)
      case None
      obtain copy' e' where l: "emit_literal f s ip copy (e\<lparr>htab := h\<rparr>) = Inr (copy', e')" "unsettled f img pre cap (Suc (size_delta s + ip)) copy' e'"
        "htab e' = htab (e\<lparr>htab := h\<rparr>)" by (rule emit_literal_pending [OF p s add_lessD1 [OF True] refl])
      have "hash_ok img e'" using m(2) l(3) by (simp add: hash_ok_def)
      moreover have "compress_loop f (Suc fuel) s ip copy e = compress_loop f fuel s (Suc ip) copy' e'"
        using True m(1) None l(1) by (subst compress_loop.simps) simp
      ultimately show ?thesis using Suc.IH [of "Suc ip" copy' e'] Suc.prems(1) True l(2) by simp
    next
      case (Some a)
      obtain d ip' t r where a: "m = Some (d, ip', t, r)" using Some by (cases a) auto
      note ma = m(3) [rule_format, OF a]
      obtain q where q: "extend_match f (d - 1) s ip' t r = Inr q" "ip + min_match f < q" "q + 2 \<le> length (seg_lines s)"
        "repeats f img (size_delta s + ip) d (q - 1 - ip)" using s ma by (rule extend_match_found)
      have d: "1 \<le> d" "d < MAX_FARDISTANCE" "d \<le> size_delta s + ip" using ma by (auto simp: match_at_def)
      obtain e' where e': "emit_match f s copy ip q (d - 1) (e\<lparr>htab := h\<rparr>) = Inr e'" "unsettled f img pre cap (size_delta s + (q - 1)) 0 e'" "hash_ok img e'"
        using p m(2) s refl d q(2,3,4) by (rule emit_match_pending)
      moreover have "compress_loop f (Suc fuel) s ip copy e = compress_loop f fuel s (q - 1) 0 e'"
        using True m(1) a q(1) e'(1) by (subst compress_loop.simps) simp
      ultimately show ?thesis using Suc.IH [of "q - 1" 0 e'] Suc.prems(1) q(2,3) min_match by simp
    qed
  qed
qed

lemma left_over_pending:
  assumes s: "placed img s"
  shows "ip + n = length (seg_lines s) \<Longrightarrow> unsettled f img pre cap (size_delta s + ip) copy e \<Longrightarrow> hash_ok img e \<Longrightarrow>
    \<exists>copy' e'. left_over f n s ip copy e = Inr (copy', e') \<and> unsettled f img pre cap (size_delta s + length (seg_lines s)) copy' e' \<and> hash_ok img e'"
proof (induction n arbitrary: ip copy e)
  case (Suc n)
  have lt: "ip < length (seg_lines s)" using Suc.prems(1) by simp
  obtain copy' e' where l: "emit_literal f s ip copy e = Inr (copy', e')" "unsettled f img pre cap (Suc (size_delta s + ip)) copy' e'" "htab e' = htab e"
    by (rule emit_literal_pending [OF Suc.prems(2) s lt refl])
  have "hash_ok img e'" using Suc.prems(3) l(3) by (simp add: hash_ok_def)
  with Suc.IH [of "Suc ip" copy' e'] l(1,2) Suc.prems(1) show ?case by simp
qed auto

lemma compress_seg_finished:
  assumes s: "placed img s" and img: "length img < 2 ^ 63" and h: "hash_ok img e" and ip: "ip \<le> length (seg_lines s)"
    and start: "if copied = 0 then finished f img pre cap (size_delta s + ip) e else unsettled f img pre cap (size_delta s + ip) copied e"
  obtains e' where "lz_compress_seg f s ip copied e = Inr e'" "finished f img pre cap (size_delta s + length (seg_lines s)) e'" "hash_ok img e'"
proof -
  have le: "size_delta s + ip \<le> length img" using s ip by (simp add: placed_def)
  obtain e1 where e1: "(if copied = 0 then encode_copy_count (of_nat (MAX_COPY - 1)) e else Inr e) = Inr e1"
    "unsettled f img pre cap (size_delta s + ip) copied e1" "htab e1 = htab e"
  proof (cases "copied = 0")
    case True
    then have "finished f img pre cap (size_delta s + ip) e" using start by simp
    then obtain e1 where "encode_copy_count (of_nat (MAX_COPY - 1)) e = Inr e1" "unsettled f img pre cap (size_delta s + ip) 0 e1" "htab e1 = htab e"
      using le by (rule finished_start)
    then show thesis using True by (intro that [of e1]) simp_all
  next
    case False
    then show thesis using start by (intro that [of e]) simp_all
  qed
  have "hash_ok img e1" using h e1(3) by (simp add: hash_ok_def)
  from compress_loop_pending [OF s img diff_le_self ip e1(2) this]
  obtain ip' copy' e2 where e2: "compress_loop f (length (seg_lines s)) s ip copied e1 = Inr (ip', copy', e2)" "ip' \<le> length (seg_lines s)"
    "unsettled f img pre cap (size_delta s + ip') copy' e2" "hash_ok img e2" by blast
  from left_over_pending [OF s le_add_diff_inverse [OF e2(2)] e2(3,4)]
  obtain copy'' e3 where e3: "left_over f (length (seg_lines s) - ip') s ip' copy' e2 = Inr (copy'', e3)"
    "unsettled f img pre cap (size_delta s + length (seg_lines s)) copy'' e3" "hash_ok img e3" by blast
  obtain e4 where e4: "(if copy'' \<noteq> 0 then update_copy_count (of_nat (copy'' - 1)) e3 else compress_output_prev e3) = Inr e4"
    "finished f img pre cap (size_delta s + length (seg_lines s)) e4" "htab e4 = htab e3" using e3(2) by (rule unsettled_settle)
  have "lz_compress_seg f s ip copied e = Inr e4" using e1(1) e2(1) e3(1) e4(1) by (simp only: lz_compress_seg_def rbind_simps prod.case)
  moreover have "hash_ok img e4" using e3(3) e4(3) by (simp add: hash_ok_def)
  ultimately show thesis using e4(2) by (intro that)
qed

lemma compress_segs_finished:
  assumes img: "length img < 2 ^ 63"
  shows "laid img pos segs \<Longrightarrow> finished f img pre cap pos e \<Longrightarrow> hash_ok img e \<Longrightarrow>
    \<exists>e'. compress_segs f segs e = Inr e' \<and> finished f img pre cap (length img) e'"
proof (induction segs arbitrary: pos e)
  case (Cons s segs)
  have s: "placed img s" "size_delta s = pos" "laid img (pos + length (seg_lines s)) segs" using Cons.prems(1) by simp_all
  have "if 0 = (0 :: nat) then finished f img pre cap (size_delta s + 0) e else unsettled f img pre cap (size_delta s + 0) 0 e" using Cons.prems(2) s(2) by simp
  then obtain e' where e': "lz_compress_seg f s 0 0 e = Inr e'" "finished f img pre cap (size_delta s + length (seg_lines s)) e'" "hash_ok img e'"
    by (rule compress_seg_finished [OF s(1) img Cons.prems(3) le0])
  then show ?case using Cons.IH [OF s(3)] s(2) by simp
qed simp

lemma small_seg_finished:
  assumes s: "placed img s" "size_delta s = pos" "seg_lines s \<noteq> []" "length (seg_lines s) < 4" and e: "finished f img pre cap pos e"
  obtains e' where "rbind (encode_copy_count (of_nat (length (seg_lines s) - 1)) e) (encode_all (concat (map (encode_pixel f) (seg_lines s)))) = Inr e'"
    "finished f img pre cap (pos + length (seg_lines s)) e'"
proof -
  let ?t = "Lits (seg_lines s)" and ?c = "of_nat (length (seg_lines s) - 1) :: u8" and ?bs = "concat (map (encode_pixel f) (seg_lines s))"
  from e obtain ts where ts: "explains f img 0 ts pos" "io_bytes e = pre @ tokens_bytes f ts" "length pre + 6 * length img + 1 \<le> cap" "io_space e = cap"
    by (auto simp: finished_def)
  have t: "explains1 f img pos ?t" using s by (auto simp: placed_def)
  have ts': "explains f img 0 (ts @ [?t]) (pos + length (seg_lines s))" using explains_snoc [OF ts(1) t] by simp
  have le: "pos + length (seg_lines s) \<le> length img" using s by (auto simp: placed_def)
  have "length (tokens_bytes f (ts @ [?t])) \<le> 6 * (pos + length (seg_lines s))" using length_tokens [OF ts'] by simp
  then have space: "length (io_bytes e) + Suc (length ?bs) \<le> io_space e" using ts(2,3,4) le by simp
  let ?e1 = "e\<lparr>io_bytes := io_bytes e @ [?c], io_last_copy := Some (length (io_bytes e))\<rparr>"
  have 1: "encode_copy_count ?c e = Inr ?e1" by (rule encode_copy_count_space) (use space in simp)
  have 2: "encode_all ?bs ?e1 = Inr (?e1\<lparr>io_bytes := io_bytes ?e1 @ ?bs\<rparr>)" by (rule encode_all_space) (use space in simp)
  have "finished f img pre cap (pos + length (seg_lines s)) (?e1\<lparr>io_bytes := io_bytes ?e1 @ ?bs\<rparr>)"
    using ts ts' by (auto simp: finished_def intro!: exI [of _ "ts @ [?t]"])
  moreover have "rbind (encode_copy_count ?c e) (encode_all ?bs) = Inr (?e1\<lparr>io_bytes := io_bytes ?e1 @ ?bs\<rparr>)"
    unfolding 1 rbind_simps 2 ..
  ultimately show thesis by (rule that [rotated])
qed

lemma compress_small_finished:
  "laid img pos segs \<Longrightarrow> finished f img pre cap pos e \<Longrightarrow>
    \<exists>segs' e' pos'. compress_small f segs e = Inr (segs', e') \<and> laid img pos' segs' \<and> finished f img pre cap pos' e' \<and>
      (\<forall>s ss. segs' = s # ss \<longrightarrow> 4 \<le> length (seg_lines s))"
proof (induction segs arbitrary: pos e)
  case (Cons s segs)
  have s: "placed img s" "size_delta s = pos" "laid img (pos + length (seg_lines s)) segs" using Cons.prems(1) by simp_all
  consider "4 \<le> length (seg_lines s)" | "seg_lines s = []" | "length (seg_lines s) < 4" "seg_lines s \<noteq> []" by linarith
  then show ?case
  proof cases
    case 1
    then show ?thesis using Cons.prems by (intro exI [of _ "s # segs"] exI [of _ e] exI [of _ pos]) auto
  next
    case 2
    then show ?thesis using Cons.IH [of pos e] Cons.prems(2) s(3) by simp
  next
    case 3
    obtain e1 where e1: "rbind (encode_copy_count (of_nat (length (seg_lines s) - 1)) e) (encode_all (concat (map (encode_pixel f) (seg_lines s)))) = Inr e1"
      "finished f img pre cap (pos + length (seg_lines s)) e1" by (rule small_seg_finished [OF s(1,2) 3(2,1) Cons.prems(2)])
    have "compress_small f (s # segs) e = compress_small f segs e1" using 3 e1(1) by (simp only: compress_small.simps if_True rbind_simps simp_thms)
    then show ?thesis using Cons.IH [OF s(3) e1(2)] by simp
  qed
qed simp

lemma first_pixels:
  assumes s: "placed img s" "4 \<le> length (seg_lines s)" and e: "finished f img pre cap (size_delta s) e"
  obtains e' where "rbind (encode_copy_count (of_nat (MAX_COPY - 1)) e) (\<lambda>e.
      rbind (seg_pixel s 0) (\<lambda>p. rbind (encode_all (encode_pixel f p) e) (\<lambda>e.
      rbind (seg_pixel s 1) (\<lambda>p. rbind (encode_all (encode_pixel f p) e) K)))) = K e'"
    "unsettled f img pre cap (size_delta s + 2) 2 e'" "htab e' = htab e"
proof -
  have le: "size_delta s + 4 \<le> length img" using s by (simp add: placed_def)
  obtain e1 where e1: "encode_copy_count (of_nat (MAX_COPY - 1)) e = Inr e1" "unsettled f img pre cap (size_delta s) 0 e1" "htab e1 = htab e"
    using e le by (elim finished_start) simp
  have *: "size_delta s = size_delta s + 0" by simp
  obtain c2 e2 where e2: "emit_literal f s 0 0 e1 = Inr (c2, e2)" "unsettled f img pre cap (Suc (size_delta s)) c2 e2" "htab e2 = htab e1"
    by (rule emit_literal_pending [OF e1(2) s(1) _ *]) (use s in auto)
  obtain c3 e3 where e3: "emit_literal f s 1 c2 e2 = Inr (c3, e3)" "unsettled f img pre cap (Suc (Suc (size_delta s))) c3 e3" "htab e3 = htab e2"
    by (rule emit_literal_pending [OF e2(2) s(1), of 1]) (use s in auto)
  have c2: "rbind (seg_pixel s 0) (\<lambda>p. encode_all (encode_pixel f p) e1) = Inr e2" "c2 = 1" using e2(1) by (auto simp: emit_literal_def)
  have c3: "rbind (seg_pixel s 1) (\<lambda>p. encode_all (encode_pixel f p) e2) = Inr e3" "c3 = 2" using e3(1) c2(2) by (auto simp: emit_literal_def)
  show thesis
    by (rule that [of e3]) (use e1 e2 e3 c2 c3 in \<open>auto simp: rbind_assoc [symmetric]\<close>)
qed

text \<open>
  The compressor returns: the bytes it appends are those of tokens that describe the image.
\<close>

lemma lz_compress_explains:
  assumes segs: "laid img 0 segs" and img: "length img < 2 ^ 63" and space: "io_space e \<ge> length (io_bytes e) + 6 * length img + 1"
  obtains ts e' where "lz_compress f segs e = Inr e'" "io_bytes e' = io_bytes e @ tokens_bytes f ts" "explains f img 0 ts (length img)" "io_space e' = io_space e"
proof -
  let ?pre = "io_bytes e"
  have "finished f img ?pre (io_space e) 0 e" using space by (auto simp: finished_def intro!: exI [of _ "[]"])
  from compress_small_finished [OF segs this] obtain segs' e1 pos where
    e1: "compress_small f segs e = Inr (segs', e1)" "laid img pos segs'" "finished f img ?pre (io_space e) pos e1" "\<forall>s ss. segs' = s # ss \<longrightarrow> 4 \<le> length (seg_lines s)"
    by blast
  have "\<exists>e'. lz_compress f segs e = Inr e' \<and> finished f img ?pre (io_space e) (length img) e'"
  proof (cases segs')
    case Nil
    then show ?thesis using e1 by (simp add: lz_compress_def)
  next
    case (Cons s ss)
    have s: "placed img s" "size_delta s = pos" "laid img (pos + length (seg_lines s)) ss" "4 \<le> length (seg_lines s)" using e1(2,4) Cons by auto
    let ?e1 = "e1\<lparr>htab := (\<lambda>_. \<lparr>image_seg = s, seg_ref = 0\<rparr>)\<rparr>"
    have h: "hash_ok img ?e1" using s(1,4) by (simp add: hash_ok_def)
    have "finished f img ?pre (io_space e) (size_delta s) ?e1" using e1(3) s(2) by simp
    from first_pixels [OF s(1,4) this, of "\<lambda>e. rbind (lz_compress_seg f s 2 2 e) (compress_segs f ss)"]
    obtain e2 where e2: "lz_compress f segs e = rbind (lz_compress_seg f s 2 2 e2) (compress_segs f ss)"
      "unsettled f img ?pre (io_space e) (size_delta s + 2) 2 e2" "htab e2 = htab ?e1"
      using e1(1) Cons by (auto simp: lz_compress_def Let_def)
    have "hash_ok img e2" using h e2(3) by (simp add: hash_ok_def)
    then obtain e3 where "lz_compress_seg f s 2 2 e2 = Inr e3" "finished f img ?pre (io_space e) (pos + length (seg_lines s)) e3" "hash_ok img e3"
      using compress_seg_finished [OF s(1) img, of e2 2 2 ?pre "io_space e"] e2(2) s(2,4) by auto
    then show ?thesis using e2(1) compress_segs_finished [OF img s(3)] by simp
  qed
  then show thesis using that by (auto simp: finished_def)
qed

end

end
