(* ===== verification/Lz_Formats.thy ===== *)
theory Lz_Formats
  imports Lz_Compress Palette
begin

text \<open>
  The pixel formats of the LZ codec: the macros that the templates are instantiated with, for compressing (lz_compress_tmpl.c) and
  decompressing (lz_decompress_tmpl.c), to the same format or to 32-bit pixels. Each is an instance of the
  interfaces \<open>lz_pixels\<close> and \<open>lz_codec\<close>.
\<close>

section \<open>Pixels\<close>

type_synonym one_byte_pixel = u8
type_synonym rgb16_pixel = u16

record rgb24_pixel =
  pix24_b :: u8
  pix24_g :: u8
  pix24_r :: u8

record rgb32_pixel =
  pix_b :: u8
  pix_g :: u8
  pix_r :: u8
  pix_pad :: u8

text \<open>
  The hash of three pixels. \<open>hval\<close> is an \<open>int\<close> that overflows for the longer pixels; it is taken to wrap.
\<close>

definition DJB2_HASH :: "u32 \<Rightarrow> u32 \<Rightarrow> u32" where
  "DJB2_HASH h c = (push_bit 5 h + h) XOR c"

definition hash_values :: "u32 list \<Rightarrow> nat" where
  "hash_values cs = unat (foldl DJB2_HASH 5381 cs AND HASH_MASK)"

definition GET_r16 :: "rgb16_pixel \<Rightarrow> u16" where "GET_r16 p = drop_bit 10 p AND 0x1f"
definition GET_g16 :: "rgb16_pixel \<Rightarrow> u16" where "GET_g16 p = drop_bit 5 p AND 0x1f"
definition GET_b16 :: "rgb16_pixel \<Rightarrow> u16" where "GET_b16 p = p AND 0x1f"


section \<open>Compressing\<close>

definition plt_format :: "one_byte_pixel lz_format" where
  "plt_format = \<lparr>encode_pixel = \<lambda>p. [p], same_pixel = \<lambda>p q. p = q,
     hash_func = \<lambda>p q r. hash_values [ucast p, ucast q, ucast r], min_match = 3\<rparr>"

definition rgb_alpha_format :: "rgb32_pixel lz_format" where
  "rgb_alpha_format = \<lparr>encode_pixel = \<lambda>p. [pix_pad p], same_pixel = \<lambda>p q. pix_pad p = pix_pad q,
     hash_func = \<lambda>p q r. hash_values [ucast (pix_pad p), ucast (pix_pad q), ucast (pix_pad r)], min_match = 3\<rparr>"

definition rgb16_hash_values :: "rgb16_pixel \<Rightarrow> u32 list" where
  "rgb16_hash_values p = [ucast (p AND 0x00ff), ucast (drop_bit 8 p AND 0x007f)]"

definition rgb16_format :: "rgb16_pixel lz_format" where
  "rgb16_format = \<lparr>encode_pixel = \<lambda>p. [ucast (drop_bit 8 p), ucast (p AND 0xff)],
     same_pixel = \<lambda>p q. GET_r16 p = GET_r16 q \<and> GET_g16 p = GET_g16 q \<and> GET_b16 p = GET_b16 q,
     hash_func = \<lambda>p q r. hash_values (rgb16_hash_values p @ rgb16_hash_values q @ rgb16_hash_values r), min_match = 2\<rparr>"

definition rgb24_hash_values :: "rgb24_pixel \<Rightarrow> u32 list" where
  "rgb24_hash_values p = [ucast (pix24_r p), ucast (pix24_g p), ucast (pix24_b p)]"

definition rgb24_format :: "rgb24_pixel lz_format" where
  "rgb24_format = \<lparr>encode_pixel = \<lambda>p. [pix24_b p, pix24_g p, pix24_r p],
     same_pixel = \<lambda>p q. pix24_r p = pix24_r q \<and> pix24_g p = pix24_g q \<and> pix24_b p = pix24_b q,
     hash_func = \<lambda>p q r. hash_values (rgb24_hash_values p @ rgb24_hash_values q @ rgb24_hash_values r), min_match = 1\<rparr>"

definition rgb32_hash_values :: "rgb32_pixel \<Rightarrow> u32 list" where
  "rgb32_hash_values p = [ucast (pix_r p), ucast (pix_g p), ucast (pix_b p)]"

definition rgb32_format :: "rgb32_pixel lz_format" where
  "rgb32_format = \<lparr>encode_pixel = \<lambda>p. [pix_b p, pix_g p, pix_r p],
     same_pixel = \<lambda>p q. pix_r p = pix_r q \<and> pix_g p = pix_g q \<and> pix_b p = pix_b q,
     hash_func = \<lambda>p q r. hash_values (rgb32_hash_values p @ rgb32_hash_values q @ rgb32_hash_values r), min_match = 1\<rparr>"


section \<open>Decompressing\<close>

definition plt_output :: "one_byte_pixel lz_output" where
  "plt_output = \<lparr>comp_pixel = \<lambda>bs. rbind (decode bs) (\<lambda>(a, bs). Inr ([a], bs)), put_pixel = \<lambda>out p. p, len_bias = 3, plt_scale = 1\<rparr>"

text \<open>The two bytes of a 16-bit pixel are decoded in the two operands of one expression; the left one is taken to be first.\<close>

definition rgb16_output :: "rgb16_pixel lz_output" where
  "rgb16_output = \<lparr>comp_pixel = \<lambda>bs. rbind (decode bs) (\<lambda>(hi, bs). rbind (decode bs) (\<lambda>(lo, bs).
       Inr ([push_bit 8 (ucast hi) OR ucast lo], bs))),
     put_pixel = \<lambda>out p. p, len_bias = 2, plt_scale = 1\<rparr>"

definition rgb24_output :: "rgb24_pixel lz_output" where
  "rgb24_output = \<lparr>comp_pixel = \<lambda>bs. rbind (decode bs) (\<lambda>(b, bs). rbind (decode bs) (\<lambda>(g, bs). rbind (decode bs) (\<lambda>(r, bs).
       Inr ([\<lparr>pix24_b = b, pix24_g = g, pix24_r = r\<rparr>], bs)))),
     put_pixel = \<lambda>out p. p, len_bias = 1, plt_scale = 1\<rparr>"

definition rgb32_output :: "rgb32_pixel lz_output" where
  "rgb32_output = \<lparr>comp_pixel = \<lambda>bs. rbind (decode bs) (\<lambda>(b, bs). rbind (decode bs) (\<lambda>(g, bs). rbind (decode bs) (\<lambda>(r, bs).
       Inr ([\<lparr>pix_b = b, pix_g = g, pix_r = r, pix_pad = 0\<rparr>], bs)))),
     put_pixel = \<lambda>out p. p, len_bias = 1, plt_scale = 1\<rparr>"

text \<open>Alpha writes only \<open>pad\<close>.\<close>

definition rgb_alpha_output :: "rgb32_pixel lz_output" where
  "rgb_alpha_output = \<lparr>comp_pixel = \<lambda>bs. rbind (decode bs) (\<lambda>(a, bs). Inr ([\<lparr>pix_b = 0, pix_g = 0, pix_r = 0, pix_pad = a\<rparr>], bs)),
     put_pixel = \<lambda>out p. out\<lparr>pix_pad := pix_pad p\<rparr>, len_bias = 3, plt_scale = 1\<rparr>"

definition a8_to_rgb32_output :: "rgb32_pixel lz_output" where
  "a8_to_rgb32_output = \<lparr>comp_pixel = \<lambda>bs. rbind (decode bs) (\<lambda>(a, bs). Inr ([\<lparr>pix_b = 0, pix_g = 0, pix_r = 0, pix_pad = a\<rparr>], bs)),
     put_pixel = \<lambda>out p. p, len_bias = 3, plt_scale = 1\<rparr>"

definition rgb16_to_rgb32_pixel :: "u8 \<Rightarrow> u8 \<Rightarrow> rgb32_pixel" where
  "rgb16_to_rgb32_pixel r b =
     (let g = (push_bit 6 r OR drop_bit 2 b) AND NOT 0x07; g = g OR drop_bit 5 g;
          r = (push_bit 1 r AND NOT 0x07) OR (drop_bit 4 r AND 0x07);
          b = push_bit 3 b OR (drop_bit 2 b AND 0x07) in
      \<lparr>pix_b = b, pix_g = g, pix_r = r, pix_pad = 0\<rparr>)"

definition rgb16_to_rgb32_output :: "rgb32_pixel lz_output" where
  "rgb16_to_rgb32_output = \<lparr>comp_pixel = \<lambda>bs. rbind (decode bs) (\<lambda>(r, bs). rbind (decode bs) (\<lambda>(b, bs).
       Inr ([rgb16_to_rgb32_pixel r b], bs))),
     put_pixel = \<lambda>out p. p, len_bias = 2, plt_scale = 1\<rparr>"

text \<open>Palette images to 32 bits: the entries of the palette, and the pixels of a byte.\<close>

definition plt_entry :: "u32 \<Rightarrow> rgb32_pixel" where
  "plt_entry ent = \<lparr>pix_b = ucast ent, pix_g = ucast (drop_bit 8 ent), pix_r = ucast (drop_bit 16 ent), pix_pad = 0\<rparr>"

definition plt8_pixels :: "spice_palette \<Rightarrow> u8 \<Rightarrow> rgb32_pixel list res" where
  "plt8_pixels palette byte = rbind (index_list (ents palette) (uint byte)) (\<lambda>rgb. Inr [plt_entry rgb])"

definition plt4_entry :: "spice_palette \<Rightarrow> u8 \<Rightarrow> rgb32_pixel res" where
  "plt4_entry palette i =
     (if num_ents palette = 0 then Inl DivByZero
      else rbind (index_list (ents palette) (uint i mod uint (num_ents palette))) (\<lambda>rgb. Inr (plt_entry rgb)))"

definition plt4_be_pixels :: "spice_palette \<Rightarrow> u8 \<Rightarrow> rgb32_pixel list res" where
  "plt4_be_pixels palette byte =
     rbind (plt4_entry palette (drop_bit 4 byte AND 0x0f)) (\<lambda>p. rbind (plt4_entry palette (byte AND 0x0f)) (\<lambda>q. Inr [p, q]))"

definition plt4_le_pixels :: "spice_palette \<Rightarrow> u8 \<Rightarrow> rgb32_pixel list res" where
  "plt4_le_pixels palette byte =
     rbind (plt4_entry palette (byte AND 0x0f)) (\<lambda>p. rbind (plt4_entry palette (drop_bit 4 byte AND 0x0f)) (\<lambda>q. Inr [p, q]))"

definition plt1_pixels :: "nat list \<Rightarrow> spice_palette \<Rightarrow> u8 \<Rightarrow> rgb32_pixel list res" where
  "plt1_pixels is palette byte =
     rbind (index_list (ents palette) 1) (\<lambda>fore. rbind (index_list (ents palette) 0) (\<lambda>back.
     Inr (map (\<lambda>i. if drop_bit i byte AND 1 \<noteq> 0 then plt_entry fore else plt_entry back) is)))"

definition plt1_be_pixels :: "spice_palette \<Rightarrow> u8 \<Rightarrow> rgb32_pixel list res" where
  "plt1_be_pixels = plt1_pixels [7, 6, 5, 4, 3, 2, 1, 0]"

definition plt1_le_pixels :: "spice_palette \<Rightarrow> u8 \<Rightarrow> rgb32_pixel list res" where
  "plt1_le_pixels = plt1_pixels [0, 1, 2, 3, 4, 5, 6, 7]"

definition plt_to_rgb32_output :: "(u8 \<Rightarrow> rgb32_pixel list res) \<Rightarrow> u32 \<Rightarrow> rgb32_pixel lz_output" where
  "plt_to_rgb32_output pixels scale =
     \<lparr>comp_pixel = \<lambda>bs. rbind (decode bs) (\<lambda>(byte, bs). rbind (pixels byte) (\<lambda>ps. Inr (ps, bs))),
      put_pixel = \<lambda>out p. p, len_bias = 3, plt_scale = scale\<rparr>"

definition plt8_to_rgb32_output :: "spice_palette \<Rightarrow> rgb32_pixel lz_output" where
  "plt8_to_rgb32_output palette = plt_to_rgb32_output (plt8_pixels palette) 1"

definition plt4_be_to_rgb32_output :: "spice_palette \<Rightarrow> rgb32_pixel lz_output" where
  "plt4_be_to_rgb32_output palette = plt_to_rgb32_output (plt4_be_pixels palette) 2"

definition plt4_le_to_rgb32_output :: "spice_palette \<Rightarrow> rgb32_pixel lz_output" where
  "plt4_le_to_rgb32_output palette = plt_to_rgb32_output (plt4_le_pixels palette) 2"

definition plt1_be_to_rgb32_output :: "spice_palette \<Rightarrow> rgb32_pixel lz_output" where
  "plt1_be_to_rgb32_output palette = plt_to_rgb32_output (plt1_be_pixels palette) 8"

definition plt1_le_to_rgb32_output :: "spice_palette \<Rightarrow> rgb32_pixel lz_output" where
  "plt1_le_to_rgb32_output palette = plt_to_rgb32_output (plt1_le_pixels palette) 8"


section \<open>Instances\<close>

text \<open>What counts of a 16-bit pixel: fifteen bits.\<close>

abbreviation "colour16 p \<equiv> (p AND 0x7fff) :: u16"

lemma bits_eq_iff: "take_bit n p = take_bit n q \<longleftrightarrow> (\<forall>m < n. bit p m = bit (q :: u16) m)"
proof
  assume "take_bit n p = take_bit n q"
  then have "bit (take_bit n p) m = bit (take_bit n q) m" for m by simp
  then show "\<forall>m < n. bit p m = bit q m" by (auto simp: bit_take_bit_iff)
next
  assume "\<forall>m < n. bit p m = bit q m"
  then show "take_bit n p = take_bit n q" by (intro bit_word_eqI) (auto simp: bit_take_bit_iff)
qed

lemma same_rgb16: "same_pixel rgb16_format p q \<longleftrightarrow> colour16 p = colour16 q"
proof -
  have "(0x1f :: u16) = mask 5" "(0x7fff :: u16) = mask 15" by (simp_all add: mask_eq_exp_minus_1)
  then have t: "p AND 0x1f = take_bit 5 p" "p AND 0x7fff = take_bit 15 p" for p :: u16 by (simp_all add: take_bit_eq_mask)
  have "same_pixel rgb16_format p q \<longleftrightarrow>
      (\<forall>m < 5. bit p (10 + m) = bit q (10 + m)) \<and> (\<forall>m < 5. bit p (5 + m) = bit q (5 + m)) \<and> (\<forall>m < 5. bit p m = bit q m)"
    by (simp only: rgb16_format_def lz_format.simps GET_r16_def GET_g16_def GET_b16_def t bits_eq_iff bit_drop_bit_eq comp_def)
  also have "\<dots> \<longleftrightarrow> (\<forall>m < 15. bit p m = bit q m)"
    (is "?L \<longleftrightarrow> ?R")
  proof
    assume L: ?L
    show ?R
    proof (intro allI impI)
      fix m :: nat assume "m < 15"
      then have "m < 5 \<or> 5 + (m - 5) = m \<and> m - 5 < 5 \<or> 10 + (m - 10) = m \<and> m - 10 < 5" by arith
      then show "bit p m = bit q m" using L by metis
    qed
  qed simp
  finally show ?thesis by (simp only: t bits_eq_iff)
qed

lemma equivp_view: "(\<And>p q. R p q \<longleftrightarrow> v p = v q) \<Longrightarrow> equivp R"
  by (rule equivpI) (auto intro: reflpI sympI transpI)

interpretation plt: lz_pixels plt_format
proof
  show "equivp (same_pixel plt_format)" by (rule equivp_view [of _ "\<lambda>p. p"]) (simp add: plt_format_def)
qed (simp_all add: plt_format_def)

interpretation alpha: lz_pixels rgb_alpha_format
proof
  show "equivp (same_pixel rgb_alpha_format)" by (rule equivp_view [of _ pix_pad]) (simp add: rgb_alpha_format_def)
qed (simp_all add: rgb_alpha_format_def)

interpretation rgb16: lz_pixels rgb16_format
proof
  show "equivp (same_pixel rgb16_format)" by (rule equivp_view [of _ "\<lambda>p. colour16 p"]) (rule same_rgb16)
qed (simp_all add: rgb16_format_def)

interpretation rgb24: lz_pixels rgb24_format
proof
  show "equivp (same_pixel rgb24_format)" by (rule equivp_view [of _ "\<lambda>p. (pix24_r p, pix24_g p, pix24_b p)"]) (simp add: rgb24_format_def)
qed (simp_all add: rgb24_format_def)

interpretation rgb32: lz_pixels rgb32_format
proof
  show "equivp (same_pixel rgb32_format)" by (rule equivp_view [of _ "\<lambda>p. (pix_r p, pix_g p, pix_b p)"]) (simp add: rgb32_format_def)
qed (simp_all add: rgb32_format_def)


text \<open>A byte, or bytes, decoded.\<close>

lemma decode_Cons [simp]: "decode (b # bs) = Inr (b, bs)"
  by (simp add: decode_def)

lemma bytes_of_u16: "push_bit 8 (ucast (ucast (drop_bit 8 p) :: u8)) OR ucast (ucast (p AND 0xff) :: u8) = (p :: u16)"
proof (rule bit_word_eqI)
  fix n assume n: "n < LENGTH(16)"
  have m: "(0xff :: u16) = mask 8" by (simp add: mask_eq_exp_minus_1)
  show "bit (push_bit 8 (ucast (ucast (drop_bit 8 p) :: u8)) OR ucast (ucast (p AND 0xff) :: u8) :: u16) n = bit p n"
    unfolding m using n by (cases "n < 8") (simp_all add: bit_or_iff bit_push_bit_iff bit_unsigned_iff bit_drop_bit_eq bit_and_iff bit_mask_iff, auto)
qed

interpretation plt_codec: lz_codec plt_format plt_output 1 "\<lambda>p. [p]" "\<lambda>p. p" "\<lambda>p. True"
  by unfold_locales (auto simp: plt_format_def plt_output_def)

interpretation rgb24_codec: lz_codec rgb24_format rgb24_output 1 "\<lambda>p. [p]" "\<lambda>p. p" "\<lambda>p. True"
  by unfold_locales (auto simp: rgb24_format_def rgb24_output_def)

interpretation rgb32_codec: lz_codec rgb32_format rgb32_output 1 "\<lambda>p. [p\<lparr>pix_pad := 0\<rparr>]" "\<lambda>p. p" "\<lambda>p. True"
  by unfold_locales (auto simp: rgb32_format_def rgb32_output_def)

interpretation alpha_codec: lz_codec rgb_alpha_format rgb_alpha_output 1
  "\<lambda>p. [\<lparr>pix_b = 0, pix_g = 0, pix_r = 0, pix_pad = pix_pad p\<rparr>]" "\<lambda>p. p" "\<lambda>p. True"
  by unfold_locales (auto simp: rgb_alpha_format_def rgb_alpha_output_def)

interpretation rgb16_codec: lz_codec rgb16_format rgb16_output 1 "\<lambda>p. [p]" "\<lambda>p. colour16 p" "\<lambda>p. True"
proof
  show "comp_pixel rgb16_output (encode_pixel rgb16_format p @ bs) = Inr ([p], bs)" for p bs
    using bytes_of_u16 [of p] by (simp add: rgb16_output_def rgb16_format_def)
qed (simp_all add: same_rgb16, simp_all add: rgb16_format_def rgb16_output_def)

interpretation a8_rgb32_codec: lz_codec plt_format a8_to_rgb32_output 1
  "\<lambda>p. [\<lparr>pix_b = 0, pix_g = 0, pix_r = 0, pix_pad = p\<rparr>]" "\<lambda>p. p" "\<lambda>p. True"
  by unfold_locales (auto simp: plt_format_def a8_to_rgb32_output_def)

interpretation rgb24_rgb32_codec: lz_codec rgb24_format rgb32_output 1
  "\<lambda>p. [\<lparr>pix_b = pix24_b p, pix_g = pix24_g p, pix_r = pix24_r p, pix_pad = 0\<rparr>]" "\<lambda>p. p" "\<lambda>p. True"
  by unfold_locales (auto simp: rgb24_format_def rgb32_output_def)

lemma low_bits:
  assumes "\<forall>n < 7. bit r n = bit (s :: u8) n"
  shows "push_bit 6 r = push_bit 6 s" "push_bit 1 r = push_bit 1 s" "drop_bit 4 r AND 7 = drop_bit 4 s AND 7"
proof -
  have m: "(7 :: u8) = mask 3" by (simp add: mask_eq_exp_minus_1)
  have "push_bit (Suc k) r = push_bit (Suc k) s" for k
  proof (rule bit_word_eqI)
    fix n assume n: "n < LENGTH(8)"
    then have "n - Suc k < 7" by simp
    with assms show "bit (push_bit (Suc k) r) n = bit (push_bit (Suc k) s) n" unfolding bit_push_bit_iff by blast
  qed
  from this [of 5] this [of 0] show "push_bit 6 r = push_bit 6 s" "push_bit 1 r = push_bit 1 s" by simp_all
  show "drop_bit 4 r AND 7 = drop_bit 4 s AND 7"
    unfolding m using assms by (auto intro!: bit_word_eqI simp: bit_and_iff bit_mask_iff bit_drop_bit_eq)
qed

text \<open>The 32-bit pixel of a 16-bit one depends on the fifteen bits only.\<close>

lemma rgb16_to_rgb32_colour:
  assumes "colour16 p = colour16 q"
  shows "rgb16_to_rgb32_pixel (ucast (drop_bit 8 p)) (ucast (p AND 0xff)) = rgb16_to_rgb32_pixel (ucast (drop_bit 8 q)) (ucast (q AND 0xff))"
proof -
  have m: "(0x7fff :: u16) = mask 15" "(0xff :: u16) = mask 8" by (simp_all add: mask_eq_exp_minus_1)
  have b: "\<forall>n < 15. bit p n = bit q n" using assms unfolding m by (simp add: bits_eq_iff flip: take_bit_eq_mask)
  have lo: "ucast (p AND 0xff) = (ucast (q AND 0xff) :: u8)"
    using b unfolding m by (intro bit_word_eqI) (auto simp: bit_unsigned_iff bit_and_iff bit_mask_iff)
  have "\<forall>n < 7. bit (ucast (drop_bit 8 p) :: u8) n = bit (ucast (drop_bit 8 q) :: u8) n" using b by (simp add: bit_unsigned_iff bit_drop_bit_eq)
  from low_bits [OF this] show ?thesis unfolding rgb16_to_rgb32_pixel_def Let_def lo by simp
qed

interpretation rgb16_rgb32_codec: lz_codec rgb16_format rgb16_to_rgb32_output 1
  "\<lambda>p. [rgb16_to_rgb32_pixel (ucast (drop_bit 8 p)) (ucast (p AND 0xff))]" "\<lambda>p. p" "\<lambda>p. True"
proof
  show "map (\<lambda>p. p) [rgb16_to_rgb32_pixel (ucast (drop_bit 8 p)) (ucast (p AND 0xff))] = map (\<lambda>p. p) [rgb16_to_rgb32_pixel (ucast (drop_bit 8 q)) (ucast (q AND 0xff))]"
    if "same_pixel rgb16_format p q" for p q using rgb16_to_rgb32_colour [OF that [unfolded same_rgb16]] by (simp only: list.map)
qed (simp_all add: rgb16_format_def rgb16_to_rgb32_output_def)

text \<open>A palette image, for bytes that index the palette.\<close>

lemma plt_to_rgb32_codec:
  assumes "0 < k" "k \<le> 8" "\<And>b. ok b \<Longrightarrow> pixels b = Inr (px b) \<and> length (px b) = k"
  shows "lz_codec plt_format (plt_to_rgb32_output pixels (of_nat k)) k px (\<lambda>p. p) ok"
proof (intro lz_codec.intro lz_codec_axioms.intro)
  show "lz_pixels plt_format" by unfold_locales
qed (use assms in \<open>simp_all add: plt_format_def plt_to_rgb32_output_def\<close>)

definition pixels_of :: "(u8 \<Rightarrow> rgb32_pixel list res) \<Rightarrow> u8 \<Rightarrow> rgb32_pixel list" where
  "pixels_of pixels b = (case pixels b of Inr ps \<Rightarrow> ps | Inl e \<Rightarrow> [])"

definition indexed8 :: "spice_palette \<Rightarrow> u8 \<Rightarrow> bool" where
  "indexed8 palette b \<longleftrightarrow> unat b < length (ents palette)"

definition indexed4 :: "spice_palette \<Rightarrow> u8 \<Rightarrow> bool" where
  "indexed4 palette b \<longleftrightarrow> 0 < num_ents palette \<and> unat (num_ents palette) \<le> length (ents palette)"

definition indexed1 :: "spice_palette \<Rightarrow> u8 \<Rightarrow> bool" where
  "indexed1 palette b \<longleftrightarrow> 2 \<le> length (ents palette)"

lemma pixels_ofI: "pixels b = Inr ps \<Longrightarrow> pixels b = Inr (pixels_of pixels b) \<and> length (pixels_of pixels b) = length ps"
  by (simp add: pixels_of_def)

lemma indexed8_pixels: "indexed8 palette b \<Longrightarrow> plt8_pixels palette b = Inr (pixels_of (plt8_pixels palette) b) \<and> length (pixels_of (plt8_pixels palette) b) = 1"
  by (simp add: indexed8_def plt8_pixels_def pixels_of_def)

lemma plt4_entry_ok:
  assumes "0 < num_ents palette" "unat (num_ents palette) \<le> length (ents palette)"
  shows "\<exists>p. plt4_entry palette i = Inr p"
proof -
  have "0 < uint (num_ents palette)" using assms(1) by (simp add: word_less_def)
  then have "uint i mod uint (num_ents palette) < uint (num_ents palette)" by simp
  also have "\<dots> \<le> int (length (ents palette))" using assms(2) by (metis of_nat_mono of_nat_unat)
  finally show ?thesis using assms(1) \<open>0 < uint (num_ents palette)\<close> by (auto simp: plt4_entry_def index_list_def)
qed

lemma indexed4_pixels:
  assumes "indexed4 palette b"
  shows "plt4_be_pixels palette b = Inr (pixels_of (plt4_be_pixels palette) b) \<and> length (pixels_of (plt4_be_pixels palette) b) = 2"
    and "plt4_le_pixels palette b = Inr (pixels_of (plt4_le_pixels palette) b) \<and> length (pixels_of (plt4_le_pixels palette) b) = 2"
proof -
  obtain p q where "plt4_entry palette (drop_bit 4 b AND 0x0f) = Inr p" "plt4_entry palette (b AND 0x0f) = Inr q"
    using plt4_entry_ok [of palette] assms unfolding indexed4_def by metis
  then have "plt4_be_pixels palette b = Inr [p, q]" "plt4_le_pixels palette b = Inr [q, p]"
    by (simp_all add: plt4_be_pixels_def plt4_le_pixels_def)
  from this(1) [THEN pixels_ofI [of "plt4_be_pixels palette"]] this(2) [THEN pixels_ofI [of "plt4_le_pixels palette"]]
  show "plt4_be_pixels palette b = Inr (pixels_of (plt4_be_pixels palette) b) \<and> length (pixels_of (plt4_be_pixels palette) b) = 2"
    "plt4_le_pixels palette b = Inr (pixels_of (plt4_le_pixels palette) b) \<and> length (pixels_of (plt4_le_pixels palette) b) = 2" by simp_all
qed

lemma indexed1_pixels:
  assumes "indexed1 palette b"
  shows "plt1_pixels is palette b = Inr (pixels_of (plt1_pixels is palette) b) \<and> length (pixels_of (plt1_pixels is palette) b) = length is"
proof -
  have "1 < length (ents palette)" "0 < length (ents palette)" using assms by (auto simp: indexed1_def)
  then show ?thesis by (simp add: plt1_pixels_def pixels_of_def index_list_def)
qed

interpretation plt8_codec: lz_codec plt_format "plt8_to_rgb32_output palette" 1 "pixels_of (plt8_pixels palette)" "\<lambda>p. p" "indexed8 palette" for palette
  unfolding plt8_to_rgb32_output_def by (rule plt_to_rgb32_codec [where k = 1, unfolded of_nat_1]) (simp_all add: indexed8_pixels)

interpretation plt4_be_codec: lz_codec plt_format "plt4_be_to_rgb32_output palette" 2 "pixels_of (plt4_be_pixels palette)" "\<lambda>p. p" "indexed4 palette" for palette
  unfolding plt4_be_to_rgb32_output_def by (rule plt_to_rgb32_codec [where k = 2, unfolded of_nat_numeral]) (simp_all add: indexed4_pixels)

interpretation plt4_le_codec: lz_codec plt_format "plt4_le_to_rgb32_output palette" 2 "pixels_of (plt4_le_pixels palette)" "\<lambda>p. p" "indexed4 palette" for palette
  unfolding plt4_le_to_rgb32_output_def by (rule plt_to_rgb32_codec [where k = 2, unfolded of_nat_numeral]) (simp_all add: indexed4_pixels)

interpretation plt1_be_codec: lz_codec plt_format "plt1_be_to_rgb32_output palette" 8 "pixels_of (plt1_be_pixels palette)" "\<lambda>p. p" "indexed1 palette" for palette
  unfolding plt1_be_to_rgb32_output_def plt1_be_pixels_def
  by (rule plt_to_rgb32_codec [where k = 8, unfolded of_nat_numeral]) (simp_all add: indexed1_pixels)

interpretation plt1_le_codec: lz_codec plt_format "plt1_le_to_rgb32_output palette" 8 "pixels_of (plt1_le_pixels palette)" "\<lambda>p. p" "indexed1 palette" for palette
  unfolding plt1_le_to_rgb32_output_def plt1_le_pixels_def
  by (rule plt_to_rgb32_codec [where k = 8, unfolded of_nat_numeral]) (simp_all add: indexed1_pixels)

end
