(* ===== verification/Lz_Codec.thy ===== *)
theory Lz_Codec
  imports Lz_Formats
begin

text \<open>
  The entry points of the LZ codec (spice-common/common/lz.c, lz_common.h): \<open>lz_encode\<close> with the reading of the
  image's segments and the header, \<open>lz_decode_begin\<close> and \<open>lz_decode\<close>. An image
  is bytes in memory; the templates see them as pixels. \<open>int\<close> fields are 32-bit words, read signed where the code
  compares or divides them.
\<close>

section \<open>Image types\<close>

abbreviation (input) "LZ_IMAGE_TYPE_INVALID \<equiv> 0 :: u32"
abbreviation (input) "LZ_IMAGE_TYPE_PLT1_LE \<equiv> 1 :: u32"
abbreviation (input) "LZ_IMAGE_TYPE_PLT1_BE \<equiv> 2 :: u32"
abbreviation (input) "LZ_IMAGE_TYPE_PLT4_LE \<equiv> 3 :: u32"
abbreviation (input) "LZ_IMAGE_TYPE_PLT4_BE \<equiv> 4 :: u32"
abbreviation (input) "LZ_IMAGE_TYPE_PLT8 \<equiv> 5 :: u32"
abbreviation (input) "LZ_IMAGE_TYPE_RGB16 \<equiv> 6 :: u32"
abbreviation (input) "LZ_IMAGE_TYPE_RGB24 \<equiv> 7 :: u32"
abbreviation (input) "LZ_IMAGE_TYPE_RGB32 \<equiv> 8 :: u32"
abbreviation (input) "LZ_IMAGE_TYPE_RGBA \<equiv> 9 :: u32"
abbreviation (input) "LZ_IMAGE_TYPE_XXXA \<equiv> 10 :: u32"
abbreviation (input) "LZ_IMAGE_TYPE_A8 \<equiv> 11 :: u32"

definition IS_IMAGE_TYPE_PLT :: "bool list" where
  "IS_IMAGE_TYPE_PLT = [False, True, True, True, True, True, False, False, False, False, False, False]"

definition PLT_PIXELS_PER_BYTE :: "u32 list" where
  "PLT_PIXELS_PER_BYTE = [0, 8, 8, 2, 2, 1]"

definition RGB_BYTES_PER_PIXEL :: "u32 list" where
  "RGB_BYTES_PER_PIXEL = [0, 1, 1, 1, 1, 1, 2, 3, 4, 4, 4, 1]"

abbreviation (input) "LZ_MAGIC \<equiv> 0x20205a4c :: u32"
abbreviation (input) "LZ_VERSION \<equiv> 0x10001 :: u32"


section \<open>Memory as pixels\<close>

fun as_rgb16 :: "u8 list \<Rightarrow> rgb16_pixel list" where
  "as_rgb16 (lo # hi # bs) = (push_bit 8 (ucast hi) OR ucast lo) # as_rgb16 bs"
| "as_rgb16 _ = []"

fun as_rgb24 :: "u8 list \<Rightarrow> rgb24_pixel list" where
  "as_rgb24 (b # g # r # bs) = \<lparr>pix24_b = b, pix24_g = g, pix24_r = r\<rparr> # as_rgb24 bs"
| "as_rgb24 _ = []"

fun as_rgb32 :: "u8 list \<Rightarrow> rgb32_pixel list" where
  "as_rgb32 (b # g # r # x # bs) = \<lparr>pix_b = b, pix_g = g, pix_r = r, pix_pad = x\<rparr> # as_rgb32 bs"
| "as_rgb32 _ = []"

definition of_rgb16 :: "rgb16_pixel list \<Rightarrow> u8 list" where
  "of_rgb16 ps = concat (map (\<lambda>p. [ucast p, ucast (drop_bit 8 p)]) ps)"

definition of_rgb24 :: "rgb24_pixel list \<Rightarrow> u8 list" where
  "of_rgb24 ps = concat (map (\<lambda>p. [pix24_b p, pix24_g p, pix24_r p]) ps)"

definition of_rgb32 :: "rgb32_pixel list \<Rightarrow> u8 list" where
  "of_rgb32 ps = concat (map (\<lambda>p. [pix_b p, pix_g p, pix_r p, pix_pad p]) ps)"


section \<open>Encoding\<close>

text \<open>
  The segments of the image: those given to \<open>lz_encode\<close>, then those the user context hands out, a list here;
  none left is its answer 0. A segment with its bytes and its offset in pixels.
\<close>

definition image_segment :: "u32 \<Rightarrow> u32 \<Rightarrow> u8 list \<Rightarrow> u32 \<Rightarrow> (u8 list \<times> u32) res" where
  "image_segment stride num_lines lines delta =
     (if unat (num_lines * stride) \<le> length lines then Inr (take (unat (num_lines * stride)) lines, delta) else Inl OutOfBounds)"

definition next_delta :: "u32 \<Rightarrow> u32 \<Rightarrow> u32 \<Rightarrow> u32 \<Rightarrow> u32 res" where
  "next_delta bpp stride num_lines delta = (if bpp = 0 then Inl DivByZero else Inr (delta + num_lines * stride div bpp))"

fun read_more_lines :: "u32 \<Rightarrow> u32 \<Rightarrow> u32 \<Rightarrow> u32 \<Rightarrow> u32 \<Rightarrow> (u32 \<times> u8 list) list \<Rightarrow> (u8 list \<times> u32) list res" where
  "read_more_lines bpp stride height row delta chunks =
     (if \<not> sint row < sint height then Inr []
      else case chunks of [] \<Rightarrow> Inl Abort
      | (num_lines, lines) # chunks \<Rightarrow>
          if num_lines = 0 then Inl Abort
          else rbind (image_segment stride num_lines lines delta) (\<lambda>seg.
               rbind (next_delta bpp stride num_lines delta) (\<lambda>delta.
               rbind (read_more_lines bpp stride height (row + num_lines) delta chunks) (\<lambda>segs. Inr (seg # segs)))))"

definition lz_read_image_segments :: "u32 \<Rightarrow> u32 \<Rightarrow> u32 \<Rightarrow> u32 \<Rightarrow> u8 list \<Rightarrow> (u32 \<times> u8 list) list \<Rightarrow> (u8 list \<times> u32) list res" where
  "lz_read_image_segments type stride height num_lines lines chunks =
     rbind (image_segment stride num_lines lines 0) (\<lambda>seg.
     rbind (index_list RGB_BYTES_PER_PIXEL (uint type)) (\<lambda>bpp.
     rbind (next_delta bpp stride num_lines 0) (\<lambda>delta.
     rbind (read_more_lines bpp stride height num_lines delta chunks) (\<lambda>segs. Inr (seg # segs)))))"

definition check_stride :: "u32 \<Rightarrow> u32 \<Rightarrow> u32 \<Rightarrow> unit res" where
  "check_stride type width stride =
     rbind (index_list IS_IMAGE_TYPE_PLT (uint type)) (\<lambda>plt.
     if plt then
       rbind (index_list PLT_PIXELS_PER_BYTE (uint type)) (\<lambda>n.
       let row = sint width sdiv sint n in
       spice_assert (\<not> (sint stride > row \<and> (sint width smod sint n = 0 \<or> sint stride - row > 1))) (Inr ()))
     else rbind (index_list RGB_BYTES_PER_PIXEL (uint type)) (\<lambda>n. spice_assert (stride = width * n) (Inr ())))"

definition be_bytes :: "u32 \<Rightarrow> u8 list" where
  "be_bytes w = [ucast (drop_bit 24 w), ucast (drop_bit 16 w), ucast (drop_bit 8 w), ucast w]"

definition encode_32 :: "u32 \<Rightarrow> 'p lz_encoder \<Rightarrow> 'p lz_encoder res" where
  "encode_32 w = encode_all (be_bytes w)"

text \<open>The encoder after \<open>encoder_reset\<close>; the entries of the hash table that are left from the image before are not read.\<close>

definition encoder_reset :: "nat \<Rightarrow> 'p lz_encoder" where
  "encoder_reset space = \<lparr>htab = \<lambda>_. \<lparr>image_seg = \<lparr>seg_lines = [], size_delta = 0\<rparr>, seg_ref = 0\<rparr>,
     io_bytes = [], io_space = space, io_last_copy = None\<rparr>"

fun encode_words :: "u32 list \<Rightarrow> 'p lz_encoder \<Rightarrow> 'p lz_encoder res" where
  "encode_words [] e = Inr e"
| "encode_words (w # ws) e = rbind (encode_32 w e) (encode_words ws)"

definition as_segments :: "(u8 list \<Rightarrow> 'p list) \<Rightarrow> (u8 list \<times> u32) list \<Rightarrow> 'p lz_segment list" where
  "as_segments as segs = map (\<lambda>(lines, delta). \<lparr>seg_lines = as lines, size_delta = unat delta\<rparr>) segs"

definition lz_encode :: "u32 \<Rightarrow> u32 \<Rightarrow> u32 \<Rightarrow> u32 \<Rightarrow> u32 \<Rightarrow> u8 list \<Rightarrow> (u32 \<times> u8 list) list \<Rightarrow> u32 \<Rightarrow> nat \<Rightarrow> u8 list res" where
  "lz_encode type width height top_down num_lines lines chunks stride space =
     rbind (check_stride type width stride) (\<lambda>_.
     rbind (lz_read_image_segments type stride height num_lines lines chunks) (\<lambda>segs.
     let header = [LZ_MAGIC, LZ_VERSION, type, width, height, stride, top_down] in
     if type \<in> {LZ_IMAGE_TYPE_PLT1_BE, LZ_IMAGE_TYPE_PLT1_LE, LZ_IMAGE_TYPE_PLT4_BE, LZ_IMAGE_TYPE_PLT4_LE, LZ_IMAGE_TYPE_PLT8} then
       rbind (encode_words header (encoder_reset space)) (\<lambda>e.
       rbind (lz_compress plt_format (as_segments (\<lambda>bs. bs) segs) e) (\<lambda>e. Inr (io_bytes e)))
     else if type = LZ_IMAGE_TYPE_RGB16 then
       rbind (encode_words header (encoder_reset space)) (\<lambda>e.
       rbind (lz_compress rgb16_format (as_segments as_rgb16 segs) e) (\<lambda>e. Inr (io_bytes e)))
     else if type = LZ_IMAGE_TYPE_RGB24 then
       rbind (encode_words header (encoder_reset space)) (\<lambda>e.
       rbind (lz_compress rgb24_format (as_segments as_rgb24 segs) e) (\<lambda>e. Inr (io_bytes e)))
     else if type = LZ_IMAGE_TYPE_RGB32 then
       rbind (encode_words header (encoder_reset space)) (\<lambda>e.
       rbind (lz_compress rgb32_format (as_segments as_rgb32 segs) e) (\<lambda>e. Inr (io_bytes e)))
     else if type = LZ_IMAGE_TYPE_RGBA then
       rbind (encode_words header (encoder_reset space)) (\<lambda>e.
       rbind (lz_compress rgb32_format (as_segments as_rgb32 segs) e) (\<lambda>e.
       rbind (lz_compress rgb_alpha_format (as_segments as_rgb32 segs) e) (\<lambda>e. Inr (io_bytes e))))
     else if type = LZ_IMAGE_TYPE_XXXA then
       rbind (encode_words header (encoder_reset space)) (\<lambda>e.
       rbind (lz_compress rgb_alpha_format (as_segments as_rgb32 segs) e) (\<lambda>e. Inr (io_bytes e)))
     else if type = LZ_IMAGE_TYPE_A8 then
       rbind (encode_words header (encoder_reset space)) (\<lambda>e.
       rbind (lz_compress plt_format (as_segments (\<lambda>bs. bs) segs) e) (\<lambda>e. Inr (io_bytes e)))
     else Inl Abort))"


section \<open>Decoding\<close>

record lz_decoder =
  dec_type :: u32
  dec_width :: u32
  dec_height :: u32
  dec_stride :: u32
  dec_palette :: "spice_palette option"
  dec_io :: "u8 list"

definition decode_32 :: "u8 list \<Rightarrow> (u32 \<times> u8 list) res" where
  "decode_32 bs =
     rbind (decode bs) (\<lambda>(b, bs). let w = ucast b in
     rbind (decode bs) (\<lambda>(b, bs). let w = push_bit 8 w OR ucast b in
     rbind (decode bs) (\<lambda>(b, bs). let w = push_bit 8 w OR ucast b in
     rbind (decode bs) (\<lambda>(b, bs). Inr (push_bit 8 w OR ucast b, bs)))))"

text \<open>\<open>out_n_pixels\<close> and \<open>out_top_down\<close>, and the decoder. The palette of an image before stays for images without one.\<close>

definition lz_decode_begin :: "spice_palette option \<Rightarrow> spice_palette option \<Rightarrow> u8 list \<Rightarrow> (u32 \<times> u32 \<times> lz_decoder) res" where
  "lz_decode_begin stale palette io =
     rbind (decode_32 io) (\<lambda>(magic, io). spice_assert (magic = LZ_MAGIC)
     (rbind (decode_32 io) (\<lambda>(version, io). spice_assert (version = LZ_VERSION)
     (rbind (decode_32 io) (\<lambda>(type, io). rbind (decode_32 io) (\<lambda>(width, io). rbind (decode_32 io) (\<lambda>(height, io).
      rbind (decode_32 io) (\<lambda>(stride, io). rbind (decode_32 io) (\<lambda>(top_down, io).
      rbind (index_list IS_IMAGE_TYPE_PLT (uint type)) (\<lambda>plt.
      let d = \<lparr>dec_type = type, dec_width = width, dec_height = height, dec_stride = stride, dec_palette = stale, dec_io = io\<rparr> in
      if plt then
        rbind (index_list PLT_PIXELS_PER_BYTE (uint type)) (\<lambda>n. Inr (stride * n * height, top_down, d\<lparr>dec_palette := palette\<rparr>))
      else Inr (width * height, top_down, d)))))))))))"

text \<open>
  A decompression into memory: \<open>size\<close> is an \<open>int\<close> number of pixels; below zero the limit of the buffer is before the buffer, and the first
  check of a position fails.
\<close>

definition decompress_into :: "'q lz_output \<Rightarrow> (u8 list \<Rightarrow> 'q list) \<Rightarrow> ('q list \<Rightarrow> u8 list) \<Rightarrow> u32 \<Rightarrow> u8 list \<Rightarrow> u8 list \<Rightarrow> (u32 \<times> u8 list \<times> u8 list) res" where
  "decompress_into g as of_ps n_pix buf io =
     (if sint n_pix < 0 then Inl Abort
      else rbind (lz_decompress g (as buf) (unat n_pix) io) (\<lambda>(n, ps, io). Inr (of_nat n, of_ps ps @ drop (length (of_ps ps)) buf, io)))"

definition plt_decode :: "lz_decoder \<Rightarrow> u32 \<Rightarrow> u8 list \<Rightarrow> (u32 \<times> u32 \<times> u8 list \<times> u8 list) res" where
  "plt_decode d to_type buf =
     (if to_type = dec_type d then
        let size = dec_height d * dec_stride d in
        rbind (decompress_into plt_output (\<lambda>bs. bs) (\<lambda>ps. ps) size buf (dec_io d)) (\<lambda>r. Inr (size, r))
      else if to_type = LZ_IMAGE_TYPE_RGB32 then
        rbind (index_list PLT_PIXELS_PER_BYTE (uint (dec_type d))) (\<lambda>n.
        let size = dec_height d * dec_stride d * n in
        case dec_palette d of None \<Rightarrow> Inl Abort
        | Some palette \<Rightarrow>
            let into = (\<lambda>g. rbind (decompress_into g as_rgb32 of_rgb32 size buf (dec_io d)) (\<lambda>r. Inr (size, r))) in
            if dec_type d = LZ_IMAGE_TYPE_PLT1_BE then into (plt1_be_to_rgb32_output palette)
            else if dec_type d = LZ_IMAGE_TYPE_PLT1_LE then into (plt1_le_to_rgb32_output palette)
            else if dec_type d = LZ_IMAGE_TYPE_PLT4_BE then into (plt4_be_to_rgb32_output palette)
            else if dec_type d = LZ_IMAGE_TYPE_PLT4_LE then into (plt4_le_to_rgb32_output palette)
            else if dec_type d = LZ_IMAGE_TYPE_PLT8 then into (plt8_to_rgb32_output palette)
            else Inl Abort)
      else Inl Abort)"

definition rgb_decode :: "lz_decoder \<Rightarrow> u32 \<Rightarrow> u8 list \<Rightarrow> (u32 \<times> u32 \<times> u8 list \<times> u8 list) res" where
  "rgb_decode d to_type buf =
     (let size = dec_height d * dec_width d; type = dec_type d; io = dec_io d in
      if type = LZ_IMAGE_TYPE_RGB16 then
        if type = to_type then rbind (decompress_into rgb16_output as_rgb16 of_rgb16 size buf io) (\<lambda>r. Inr (size, r))
        else if to_type = LZ_IMAGE_TYPE_RGB32 then rbind (decompress_into rgb16_to_rgb32_output as_rgb32 of_rgb32 size buf io) (\<lambda>r. Inr (size, r))
        else Inl Abort
      else if type = LZ_IMAGE_TYPE_RGB24 then
        if type = to_type then rbind (decompress_into rgb24_output as_rgb24 of_rgb24 size buf io) (\<lambda>r. Inr (size, r))
        else if to_type = LZ_IMAGE_TYPE_RGB32 then rbind (decompress_into rgb32_output as_rgb32 of_rgb32 size buf io) (\<lambda>r. Inr (size, r))
        else Inl Abort
      else if type = LZ_IMAGE_TYPE_RGB32 then
        if type = to_type then rbind (decompress_into rgb32_output as_rgb32 of_rgb32 size buf io) (\<lambda>r. Inr (size, r))
        else Inl Abort
      else if type = LZ_IMAGE_TYPE_RGBA then
        if type = to_type then
          rbind (decompress_into rgb32_output as_rgb32 of_rgb32 size buf io) (\<lambda>(out_size, buf, io).
          rbind (decompress_into rgb_alpha_output as_rgb32 of_rgb32 size buf io) (\<lambda>(alpha_size, buf, io).
          spice_assert (alpha_size = size) (Inr (size, out_size, buf, io))))
        else Inl Abort
      else if type = LZ_IMAGE_TYPE_XXXA then
        if type = to_type then rbind (decompress_into rgb_alpha_output as_rgb32 of_rgb32 size buf io) (\<lambda>r. Inr (size, r))
        else Inl Abort
      else if type = LZ_IMAGE_TYPE_A8 then
        if type = to_type then rbind (decompress_into plt_output (\<lambda>bs. bs) (\<lambda>ps. ps) size buf io) (\<lambda>r. Inr (size, r))
        else if to_type = LZ_IMAGE_TYPE_RGB32 then rbind (decompress_into a8_to_rgb32_output as_rgb32 of_rgb32 size buf io) (\<lambda>r. Inr (size, r))
        else Inl Abort
      else Inl Abort)"

definition lz_decode :: "lz_decoder \<Rightarrow> u32 \<Rightarrow> u8 list \<Rightarrow> u8 list res" where
  "lz_decode d to_type buf =
     rbind (index_list IS_IMAGE_TYPE_PLT (uint (dec_type d))) (\<lambda>plt.
     rbind (if plt then plt_decode d to_type buf else rgb_decode d to_type buf) (\<lambda>(size, out_size, buf, io).
     spice_assert (io = []) (spice_assert (out_size = size) (Inr buf))))"

end
