(* ===== verification/Lz_Round_Trip.thy ===== *)
theory Lz_Round_Trip
  imports Lz_Codec
begin

text \<open>
  The round trip of the LZ codec: what \<open>lz_encode\<close> writes, \<open>lz_decode_begin\<close> and \<open>lz_decode\<close> turn back into the image, for every image type and every
  division of the image into segments.
\<close>

section \<open>Memory as pixels\<close>

locale pixel_cast =
  fixes as :: "u8 list \<Rightarrow> 'p list" and of_ps :: "'p list \<Rightarrow> u8 list" and bpp :: nat
  assumes bpp: "0 < bpp" "bpp \<le> 4"
    and length_as: "length (as xs) = length xs div bpp"
    and as_append: "bpp dvd length xs \<Longrightarrow> as (xs @ ys) = as xs @ as ys"
    and of_as: "bpp dvd length xs \<Longrightarrow> of_ps (as xs) = xs"
    and as_of: "as (of_ps ps) = ps"
    and length_of: "length (of_ps ps) = bpp * length ps"

lemma dvd_Suc_simps:
  "3 dvd Suc (Suc (Suc n)) \<longleftrightarrow> 3 dvd n" "\<not> 3 dvd Suc (Suc 0)"
  "4 dvd Suc (Suc (Suc (Suc n))) \<longleftrightarrow> 4 dvd n" "\<not> 4 dvd Suc (Suc 0)" "\<not> 4 dvd Suc (Suc (Suc 0))"
  by presburger+

interpretation cast8: pixel_cast "\<lambda>bs. bs" "\<lambda>ps. ps" 1
  by unfold_locales auto

interpretation cast16: pixel_cast as_rgb16 of_rgb16 2
proof
  show "length (as_rgb16 xs) = length xs div 2" for xs by (induction xs rule: as_rgb16.induct) auto
  show "as_rgb16 (xs @ ys) = as_rgb16 xs @ as_rgb16 ys" if "2 dvd length xs" for xs ys
    using that by (induction xs rule: as_rgb16.induct) auto
  have lo: "ucast (push_bit 8 (ucast hi) OR ucast lo :: u16) = lo" and hi: "ucast (drop_bit 8 (push_bit 8 (ucast hi) OR ucast lo :: u16)) = hi" for lo hi :: u8
    by (rule bit_word_eqI, auto simp: bit_unsigned_iff bit_or_iff bit_push_bit_iff bit_drop_bit_eq dest: bit_imp_le_length)+
  show "of_rgb16 (as_rgb16 xs) = xs" if "2 dvd length xs" for xs
    using that by (induction xs rule: as_rgb16.induct) (auto simp: of_rgb16_def lo hi [unfolded drop_bit_or])
  show "as_rgb16 (of_rgb16 ps) = ps" for ps
  proof (induction ps)
    case (Cons p ps)
    have "push_bit 8 (ucast (ucast (drop_bit 8 p) :: u8)) OR ucast (ucast p :: u8) = p"
      by (rule bit_word_eqI) (auto simp: bit_unsigned_iff bit_or_iff bit_push_bit_iff bit_drop_bit_eq)
    then show ?case using Cons by (simp add: of_rgb16_def)
  qed (simp add: of_rgb16_def)
  show "length (of_rgb16 ps) = 2 * length ps" for ps by (induction ps) (auto simp: of_rgb16_def)
qed simp_all

interpretation cast24: pixel_cast as_rgb24 of_rgb24 3
proof
  show "length (as_rgb24 xs) = length xs div 3" for xs by (induction xs rule: as_rgb24.induct) auto
  show "as_rgb24 (xs @ ys) = as_rgb24 xs @ as_rgb24 ys" if "3 dvd length xs" for xs ys
    using that by (induction xs rule: as_rgb24.induct) (auto simp: dvd_Suc_simps)
  show "of_rgb24 (as_rgb24 xs) = xs" if "3 dvd length xs" for xs
    using that by (induction xs rule: as_rgb24.induct) (auto simp: of_rgb24_def dvd_Suc_simps)
  show "as_rgb24 (of_rgb24 ps) = ps" for ps by (induction ps) (auto simp: of_rgb24_def)
  show "length (of_rgb24 ps) = 3 * length ps" for ps by (induction ps) (auto simp: of_rgb24_def)
qed simp_all

interpretation cast32: pixel_cast as_rgb32 of_rgb32 4
proof
  show "length (as_rgb32 xs) = length xs div 4" for xs by (induction xs rule: as_rgb32.induct) auto
  show "as_rgb32 (xs @ ys) = as_rgb32 xs @ as_rgb32 ys" if "4 dvd length xs" for xs ys
    using that by (induction xs rule: as_rgb32.induct) (auto simp: dvd_Suc_simps)
  show "of_rgb32 (as_rgb32 xs) = xs" if "4 dvd length xs" for xs
    using that by (induction xs rule: as_rgb32.induct) (auto simp: of_rgb32_def dvd_Suc_simps)
  show "as_rgb32 (of_rgb32 ps) = ps" for ps by (induction ps) (auto simp: of_rgb32_def)
  show "length (of_rgb32 ps) = 4 * length ps" for ps by (induction ps) (auto simp: of_rgb32_def)
qed simp_all


section \<open>The header\<close>

lemma encode_words_space:
  "length (io_bytes e) + 4 * length ws \<le> io_space e \<Longrightarrow> encode_words ws e = Inr (e\<lparr>io_bytes := io_bytes e @ concat (map be_bytes ws)\<rparr>)"
proof (induction ws arbitrary: e)
  case (Cons w ws)
  have "encode_32 w e = Inr (e\<lparr>io_bytes := io_bytes e @ be_bytes w\<rparr>)"
    using Cons.prems unfolding encode_32_def by (intro encode_all_space) (simp add: be_bytes_def)
  with Cons.IH [of "e\<lparr>io_bytes := io_bytes e @ be_bytes w\<rparr>"] Cons.prems show ?case by (simp add: be_bytes_def)
qed simp

lemma decode_32_be_bytes: "decode_32 (be_bytes w @ bs) = Inr (w, bs)"
proof -
  have "push_bit 8 (push_bit 8 (push_bit 8 (ucast (ucast (drop_bit 24 w) :: u8)) OR ucast (ucast (drop_bit 16 w) :: u8)) OR ucast (ucast (drop_bit 8 w) :: u8))
      OR ucast (ucast w :: u8) = w" (is "?l = w")
  proof (rule bit_word_eqI)
    fix n assume "n < LENGTH(32)"
    then consider "n < 8" | "8 \<le> n" "n < 16" | "16 \<le> n" "n < 24" | "24 \<le> n" "n < 32" by fastforce
    then show "bit ?l n = bit w n"
      by cases (auto simp: bit_or_iff bit_push_bit_iff bit_unsigned_iff bit_drop_bit_eq)
  qed
  then show ?thesis by (simp add: decode_32_def be_bytes_def Let_def)
qed

abbreviation "lz_header type width height stride top_down \<equiv>
  concat (map be_bytes [LZ_MAGIC, LZ_VERSION, type, width, height, stride, top_down])"

lemma length_lz_header: "length (lz_header type width height stride top_down) = 28"
  by (simp add: be_bytes_def)

lemma type_cases:
  assumes "0 < type" "type \<le> (11 :: u32)"
  shows "type \<in> {1, 2, 3, 4, 5, 6, 7, 8, 9, 10, 11}"
proof -
  have "unat type \<in> {1, 2, 3, 4, 5, 6, 7, 8, 9, 10, 11}" using assms unfolding word_less_nat_alt word_le_nat_alt by simp presburger
  then have "of_nat (unat type) \<in> {1, 2, 3, 4, 5, 6, 7, 8, 9, 10, 11 :: u32}" by (elim insertE) auto
  then show ?thesis by simp
qed

lemma lz_decode_begin_header:
  assumes "0 < type" "type \<le> 11"
  obtains n p where "lz_decode_begin stale palette (lz_header type width height stride top_down @ io) =
    Inr (n, top_down, \<lparr>dec_type = type, dec_width = width, dec_height = height, dec_stride = stride, dec_palette = p, dec_io = io\<rparr>)"
    and "p = (if type \<le> 5 then palette else stale)"
proof -
  have "\<exists>n. lz_decode_begin stale palette (lz_header type width height stride top_down @ io) =
    Inr (n, top_down, \<lparr>dec_type = type, dec_width = width, dec_height = height, dec_stride = stride,
      dec_palette = (if type \<le> 5 then palette else stale), dec_io = io\<rparr>)"
    using type_cases [OF assms]
    by (auto simp: lz_decode_begin_def decode_32_be_bytes IS_IMAGE_TYPE_PLT_def PLT_PIXELS_PER_BYTE_def Let_def index_list_def)
  then show thesis using that by blast
qed


section \<open>The segments\<close>

lemma sint_small: "unat (w :: u32) < 2 ^ 31 \<Longrightarrow> sint w = int (unat w)"
  using sint_eq_uint_small [of w] by (simp add: word_less_nat_alt)

lemma unat_mult_small: "unat (a :: u32) * unat b < 2 ^ 32 \<Longrightarrow> unat (a * b) = unat a * unat b"
  by (simp add: unat_mult_lem [symmetric])

lemma unat_add_small: "unat (a :: u32) + unat b < 2 ^ 32 \<Longrightarrow> unat (a + b) = unat a + unat b"
  by (simp add: unat_add_lem [symmetric])

text \<open>The lines handed out: as many as the image has, in chunks none of which is empty.\<close>

definition chunks_ok :: "u32 \<Rightarrow> (u32 \<times> u8 list) list \<Rightarrow> bool" where
  "chunks_ok stride chunks \<longleftrightarrow> (\<forall>(n, lines) \<in> set chunks. n \<noteq> 0 \<and> length lines = unat n * unat stride)"

abbreviation "chunk_rows chunks \<equiv> sum_list (map (\<lambda>c. unat (fst c)) chunks)"

context pixel_cast
begin

lemma placed_seg:
  "bpp dvd length pre \<Longrightarrow> bpp dvd length lines \<Longrightarrow> d = length pre div bpp \<Longrightarrow> placed (as (pre @ lines @ rest)) \<lparr>seg_lines = as lines, size_delta = d\<rparr>"
  by (simp add: placed_def as_append length_as)

lemma unat_bpp: "unat (of_nat bpp :: u32) = bpp" "(of_nat bpp :: u32) \<noteq> 0"
proof -
  show u: "unat (of_nat bpp :: u32) = bpp" using bpp by (intro unat_u32) simp
  show "(of_nat bpp :: u32) \<noteq> 0" using u bpp(1) by (metis unat_0 less_numeral_extra(3))
qed

lemma segment_ok:
  assumes "length lines = unat n * unat stride" "unat delta + unat n * unat stride < 2 ^ 31"
  shows "image_segment stride n lines delta = Inr (lines, delta)"
    and "\<exists>delta'. next_delta (of_nat bpp) stride n delta = Inr delta' \<and> unat delta' = unat delta + unat n * unat stride div bpp"
proof -
  have p: "(2 :: nat) ^ 31 < 2 ^ 32" by simp
  have m: "unat (n * stride) = unat n * unat stride" using assms(2) by (intro unat_mult_small) simp
  show "image_segment stride n lines delta = Inr (lines, delta)" using assms(1) by (simp add: image_segment_def m)
  have "unat (n * stride div of_nat bpp) = unat n * unat stride div bpp" by (simp add: unat_div m unat_bpp(1))
  moreover have "unat delta + unat n * unat stride div bpp < 2 ^ 32"
    using assms(2) div_le_dividend [of "unat n * unat stride" bpp] p by linarith
  ultimately have "unat (delta + n * stride div of_nat bpp) = unat delta + unat n * unat stride div bpp"
    by (subst unat_add_small) simp_all
  then show "\<exists>delta'. next_delta (of_nat bpp) stride n delta = Inr delta' \<and> unat delta' = unat delta + unat n * unat stride div bpp"
    using unat_bpp(2) by (simp add: next_delta_def)
qed

lemma read_more_laid:
  assumes stride: "bpp dvd unat stride" and H: "unat height * unat stride < 2 ^ 31" "unat height < 2 ^ 31"
  shows "unat row + chunk_rows chunks = unat height \<Longrightarrow> chunks_ok stride chunks \<Longrightarrow> unat delta = length pre div bpp \<Longrightarrow>
    length pre = unat row * unat stride \<Longrightarrow>
    \<exists>segs. read_more_lines (of_nat bpp) stride height row delta chunks = Inr segs \<and>
      laid (as (pre @ concat (map snd chunks))) (unat delta) (as_segments as segs)"
proof (induction chunks arbitrary: row delta pre)
  case Nil
  then have "\<not> sint row < sint height" using sint_small [of row] sint_small [of height] H(2) by simp
  then show ?case using Nil.prems by (subst read_more_lines.simps) (simp add: as_segments_def length_as)
next
  case (Cons c chunks)
  obtain n lines where c: "c = (n, lines)" by (cases c)
  have ok: "n \<noteq> 0" "length lines = unat n * unat stride" "chunks_ok stride chunks" using Cons.prems(2) c by (auto simp: chunks_ok_def)
  have rows: "unat row + unat n + chunk_rows chunks = unat height" using Cons.prems(1) c by simp
  have "0 < unat n" using ok(1) by (metis unat_0_iff neq0_conv)
  moreover have "unat row < 2 ^ 31" using rows H(2) by linarith
  ultimately have less: "sint row < sint height" using H(2) rows by (simp only: sint_small)
  have "(unat row + unat n) * unat stride \<le> unat height * unat stride" using rows by (intro mult_le_mono1) simp
  then have small: "length pre + unat n * unat stride < 2 ^ 31" using Cons.prems(4) H(1) by (simp add: algebra_simps)
  have "length pre div bpp \<le> length pre" by (rule div_le_dividend)
  then have "unat delta + unat n * unat stride < 2 ^ 31" using small Cons.prems(3) by linarith
  from segment_ok [OF ok(2) this] obtain delta' where seg: "image_segment stride n lines delta = Inr (lines, delta)"
    "next_delta (of_nat bpp) stride n delta = Inr delta'" "unat delta' = unat delta + unat n * unat stride div bpp" by blast
  have dvd: "bpp dvd length pre" "bpp dvd length lines" using stride Cons.prems(4) ok(2) by simp_all
  have row': "unat (row + n) = unat row + unat n" using rows H(2) by (intro unat_add_small) simp
  have delta': "unat delta' = length (pre @ lines) div bpp" using seg(3) Cons.prems(3) ok(2) dvd by (simp add: div_add)
  have "unat (row + n) + chunk_rows chunks = unat height" "length (pre @ lines) = unat (row + n) * unat stride"
    using rows row' Cons.prems(4) ok(2) by (simp_all add: algebra_simps)
  from Cons.IH [OF this(1) ok(3) delta' this(2)] obtain segs where
    segs: "read_more_lines (of_nat bpp) stride height (row + n) delta' chunks = Inr segs"
    "laid (as (pre @ lines @ concat (map snd chunks))) (unat delta') (as_segments as segs)" by auto
  have "read_more_lines (of_nat bpp) stride height row delta (c # chunks) = Inr ((lines, delta) # segs)"
    using less ok(1) seg(1,2) segs(1) c by (subst read_more_lines.simps) simp
  moreover have "laid (as (pre @ concat (map snd (c # chunks)))) (unat delta) (as_segments as ((lines, delta) # segs))"
    using segs(2) placed_seg [OF dvd Cons.prems(3)] seg(3) ok(2) c by (simp add: as_segments_def length_as)
  ultimately show ?case by blast
qed

lemma read_laid:
  assumes stride: "bpp dvd unat stride" and H: "unat height * unat stride < 2 ^ 31" "unat height < 2 ^ 31"
    and rows: "unat num_lines + chunk_rows chunks = unat height" "chunks_ok stride chunks" "length lines = unat num_lines * unat stride"
    and type: "index_list RGB_BYTES_PER_PIXEL (uint type) = Inr (of_nat bpp)"
  obtains segs where "lz_read_image_segments type stride height num_lines lines chunks = Inr segs"
    "laid (as (lines @ concat (map snd chunks))) 0 (as_segments as segs)"
proof -
  have "unat num_lines * unat stride \<le> unat height * unat stride" using rows(1) by (intro mult_le_mono1) simp
  then have "unat (0 :: u32) + unat num_lines * unat stride < 2 ^ 31" using H(1) unfolding unat_0 add_0 by (rule le_less_trans)
  from segment_ok [OF rows(3) this] obtain delta where seg: "image_segment stride num_lines lines 0 = Inr (lines, 0)"
    "next_delta (of_nat bpp) stride num_lines 0 = Inr delta" "unat delta = length lines div bpp" using rows(3) by auto
  from read_more_laid [OF stride H rows(1,2) seg(3) rows(3)] obtain segs where
    segs: "read_more_lines (of_nat bpp) stride height num_lines delta chunks = Inr segs"
    "laid (as (lines @ concat (map snd chunks))) (unat delta) (as_segments as segs)" by blast
  have "lz_read_image_segments type stride height num_lines lines chunks = Inr ((lines, 0) # segs)"
    using seg segs(1) type by (simp add: lz_read_image_segments_def)
  moreover have "bpp dvd length lines" using stride rows(3) by simp
  then have "placed (as (lines @ concat (map snd chunks))) \<lparr>seg_lines = as lines, size_delta = 0\<rparr>"
    using placed_seg [of "[]" lines 0 "concat (map snd chunks)"] by simp
  then have "laid (as (lines @ concat (map snd chunks))) 0 (as_segments as ((lines, 0) # segs))"
    using segs(2) seg(3) by (simp add: as_segments_def length_as)
  ultimately show thesis by (rule that)
qed

end


section \<open>Decoding an image\<close>

lemma decoded_all:
  assumes "decoded view g buf es (length buf) buf'" "length es = length buf"
  shows "map view buf' = map2 (\<lambda>out p. view (put_pixel g out p)) buf es"
  using assms by (auto simp: decoded_def list_eq_iff_nth_eq)

lemma header_encoder:
  assumes "28 \<le> space"
  obtains e where "encode_words [LZ_MAGIC, LZ_VERSION, type, width, height, stride, top_down] (encoder_reset space) = Inr e"
    "io_bytes e = lz_header type width height stride top_down" "io_space e = space"
proof -
  let ?ws = "[LZ_MAGIC, LZ_VERSION, type, width, height, stride, top_down]" and ?e = "encoder_reset space"
  have "length (io_bytes ?e) + 4 * length ?ws \<le> io_space ?e" using assms by (simp add: encoder_reset_def)
  from encode_words_space [OF this] show thesis by (rule that) (simp_all add: encoder_reset_def)
qed

context lz_codec
begin

lemma decompress_image:
  assumes cast: "pixel_cast as of_ps bpp" and ok: "\<forall>p \<in> set img. ok p" and img: "img \<noteq> []" and ts: "explains f img 0 ts (length img)"
    and N: "unat n_pix = k * length img" "k * length img < 2 ^ 31" and buf: "length buf = bpp * (k * length img)"
  obtains buf' where "decompress_into g as of_ps n_pix buf (tokens_bytes f ts @ rest) = Inr (n_pix, buf', rest)"
    "length buf' = length buf" "map view (as buf') = map2 (\<lambda>out p. view (put_pixel g out p)) (as buf) (concat (map pix img))"
proof -
  have len: "length (as buf) = k * length img" using pixel_cast.length_as [OF cast, of buf] pixel_cast.bpp(1) [OF cast] buf by simp
  obtain ps where ps: "lz_decompress g (as buf) (k * length img) (tokens_bytes f ts @ rest) = Inr (k * length img, ps, rest)"
    "decoded view g (as buf) (concat (map pix img)) (k * length img) ps"
    using decompress_tokens [OF ok img ts N(2)] len by (metis order_refl)
  have lps: "length (of_ps ps) = length buf" using ps(2) len buf pixel_cast.length_of [OF cast, of ps] by (simp add: decoded_def)
  have "of_nat (k * length img) = n_pix" using N(1) by (metis of_nat_unat ucast_id)
  then have "decompress_into g as of_ps n_pix buf (tokens_bytes f ts @ rest) = Inr (n_pix, of_ps ps, rest)"
    using N ps(1) lps by (simp add: decompress_into_def sint_small linorder_not_less)
  moreover have "map view (as (of_ps ps)) = map2 (\<lambda>out p. view (put_pixel g out p)) (as buf) (concat (map pix img))"
    unfolding pixel_cast.as_of [OF cast] using ps(2) len length_expected [OF ok] by (intro decoded_all) simp_all
  ultimately show thesis using lps by (intro that)
qed

end

text \<open>An image that is well formed for its type, with its lines in the chunks the encoder is given.\<close>

definition lz_input :: "u32 \<Rightarrow> u32 \<Rightarrow> u32 \<Rightarrow> u32 \<Rightarrow> u32 \<Rightarrow> u8 list \<Rightarrow> (u32 \<times> u8 list) list \<Rightarrow> bool" where
  "lz_input type width height stride num_lines lines chunks \<longleftrightarrow>
     0 < type \<and> type \<le> 11 \<and> check_stride type width stride = Inr () \<and> unat width < 2 ^ 30 \<and>
     0 < unat height * unat stride \<and> unat height * unat stride < 2 ^ 31 \<and>
     unat num_lines + chunk_rows chunks = unat height \<and> chunks_ok stride chunks \<and> length lines = unat num_lines * unat stride"

text \<open>The bytes of a pixel, and of a line in pixels.\<close>

abbreviation (input) "type_bpp type \<equiv> (if type = 6 then 2 else if type = 7 then 3 else if type \<in> {8, 9, 10 :: u32} then 4 else 1 :: nat)"

lemma input_facts:
  assumes "lz_input type width height stride num_lines lines chunks"
  defines "img \<equiv> lines @ concat (map snd chunks)"
  shows "unat height < 2 ^ 31" and "length img = unat height * unat stride" and "img \<noteq> []" "length img < 2 ^ 31"
    and "type_bpp type dvd unat stride" and "index_list RGB_BYTES_PER_PIXEL (uint type) = Inr (of_nat (type_bpp type))"
    and "type \<ge> 6 \<Longrightarrow> unat stride = unat width * type_bpp type"
proof -
  note i = assms(1) [unfolded lz_input_def]
  show "unat height < 2 ^ 31" using i by (cases "unat stride") auto
  have "chunks_ok stride chunks \<Longrightarrow> length (concat (map snd chunks)) = chunk_rows chunks * unat stride"
    unfolding chunks_ok_def by (induction chunks) (auto simp: algebra_simps)
  then show len: "length img = unat height * unat stride" using i by (simp add: img_def flip: add_mult_distrib)
  show "img \<noteq> []" using len i by (metis length_0_conv less_numeral_extra(3))
  show "length img < 2 ^ 31" using len i by simp
  have t: "type \<in> {1, 2, 3, 4, 5, 6, 7, 8, 9, 10, 11}" using i by (intro type_cases) auto
  then show "index_list RGB_BYTES_PER_PIXEL (uint type) = Inr (of_nat (type_bpp type))"
    by (auto simp: RGB_BYTES_PER_PIXEL_def index_list_def)
  show st: "unat stride = unat width * type_bpp type" if "type \<ge> 6"
  proof -
    have "type \<in> {6, 7, 8, 9, 10, 11}" using t that by (auto simp: word_le_nat_alt)
    then have "stride = width * of_nat (type_bpp type)"
      using i by (auto simp: check_stride_def IS_IMAGE_TYPE_PLT_def RGB_BYTES_PER_PIXEL_def index_list_def)
    moreover have "unat (of_nat (type_bpp type) :: u32) = type_bpp type" by simp
    ultimately show ?thesis using i by (simp add: unat_mult_small)
  qed
  show "type_bpp type dvd unat stride"
  proof (cases "type \<ge> 6")
    case True
    then show ?thesis using st by (metis dvd_triv_right)
  next
    case False
    then have "type_bpp type = 1" by (auto simp: word_le_nat_alt)
    then show ?thesis by simp
  qed
qed

text \<open>The image of the lines, and one pass of the compressor over it.\<close>

abbreviation "image_bytes lines chunks \<equiv> lines @ concat (map snd chunks)"

context lz_pixels
begin

lemma encode_image:
  assumes input: "lz_input type width height stride num_lines lines chunks" and cast: "pixel_cast as of_ps (type_bpp type)"
  obtains segs where "lz_read_image_segments type stride height num_lines lines chunks = Inr segs"
    and "\<forall>e. length (io_bytes e) + 6 * length (as (image_bytes lines chunks)) + 1 \<le> io_space e \<longrightarrow>
      (\<exists>ts e'. lz_compress f (as_segments as segs) e = Inr e' \<and> io_bytes e' = io_bytes e @ tokens_bytes f ts \<and> io_space e' = io_space e \<and>
        explains f (as (image_bytes lines chunks)) 0 ts (length (as (image_bytes lines chunks))))"
proof -
  note i = input [unfolded lz_input_def] and facts = input_facts [OF input]
  have j: "unat height * unat stride < 2 ^ 31" "unat num_lines + chunk_rows chunks = unat height" "chunks_ok stride chunks"
    "length lines = unat num_lines * unat stride" using i by simp_all
  obtain segs where segs: "lz_read_image_segments type stride height num_lines lines chunks = Inr segs"
    "laid (as (image_bytes lines chunks)) 0 (as_segments as segs)"
    by (rule pixel_cast.read_laid [OF cast facts(5) j(1) facts(1) j(2,3,4) facts(6)])
  have "length (as (image_bytes lines chunks)) \<le> length (image_bytes lines chunks)"
    unfolding pixel_cast.length_as [OF cast] by (rule div_le_dividend)
  then have "length (as (image_bytes lines chunks)) < 2 ^ 63" using facts(4) by simp
  note comp = lz_compress_explains [OF segs(2) this]
  show thesis
  proof (rule that [OF segs(1)], intro allI impI)
    fix e :: "'p lz_encoder"
    assume "length (io_bytes e) + 6 * length (as (image_bytes lines chunks)) + 1 \<le> io_space e"
    from comp [OF this] show "\<exists>ts e'. lz_compress f (as_segments as segs) e = Inr e' \<and> io_bytes e' = io_bytes e @ tokens_bytes f ts \<and>
      io_space e' = io_space e \<and> explains f (as (image_bytes lines chunks)) 0 ts (length (as (image_bytes lines chunks)))" by metis
  qed
qed

end

context lz_codec
begin

lemma encode_decode:
  assumes input: "lz_input type width height stride num_lines lines chunks" and cast: "pixel_cast as of_ps (type_bpp type)"
    and out: "pixel_cast as_out of_out bpp_out" and space: "28 + 12 * length (image_bytes lines chunks) + 2 \<le> space"
    and ok: "\<forall>p \<in> set (as (image_bytes lines chunks)). ok p"
    and n: "unat n_pix = k * length (as (image_bytes lines chunks))" "k * length (as (image_bytes lines chunks)) < 2 ^ 31"
    and buf: "length buf = bpp_out * unat n_pix"
  obtains segs e e' io buf' where "lz_read_image_segments type stride height num_lines lines chunks = Inr segs"
    "encode_words [LZ_MAGIC, LZ_VERSION, type, width, height, stride, top_down] (encoder_reset space) = Inr e"
    "lz_compress f (as_segments as segs) e = Inr e'" "io_bytes e' = lz_header type width height stride top_down @ io"
    "decompress_into g as_out of_out n_pix buf io = Inr (n_pix, buf', [])" "length buf' = length buf"
    "map view (as_out buf') = map2 (\<lambda>out p. view (put_pixel g out p)) (as_out buf) (concat (map pix (as (image_bytes lines chunks))))"
proof -
  let ?img = "image_bytes lines chunks"
  note facts = input_facts [OF input]
  obtain segs where segs: "lz_read_image_segments type stride height num_lines lines chunks = Inr segs"
    and comp: "\<forall>e. length (io_bytes e) + 6 * length (as ?img) + 1 \<le> io_space e \<longrightarrow>
      (\<exists>ts e'. lz_compress f (as_segments as segs) e = Inr e' \<and> io_bytes e' = io_bytes e @ tokens_bytes f ts \<and> io_space e' = io_space e \<and>
        explains f (as ?img) 0 ts (length (as ?img)))" using input cast by (rule encode_image)
  have le: "length (as ?img) \<le> length ?img" unfolding pixel_cast.length_as [OF cast] by (rule div_le_dividend)
  have dvd: "type_bpp type dvd length ?img" unfolding facts(2) using facts(5) by (rule dvd_mult)
  have "as ?img \<noteq> []"
  proof
    assume "as ?img = []"
    then have "length ?img = 0" using pixel_cast.of_as [OF cast dvd] pixel_cast.length_of [OF cast, of "[]"] by (metis list.size(3) mult_0_right)
    then show False using facts(3) by (metis length_0_conv)
  qed
  obtain e :: "'p lz_encoder" where e: "encode_words [LZ_MAGIC, LZ_VERSION, type, width, height, stride, top_down] (encoder_reset space) = Inr e"
    "io_bytes e = lz_header type width height stride top_down" "io_space e = space"
    by (rule header_encoder [of space]) (use space in simp)
  have "length (io_bytes e) + 6 * length (as ?img) + 1 \<le> io_space e" unfolding e(2,3) length_lz_header using space le by linarith
  with comp obtain ts e' where c: "lz_compress f (as_segments as segs) e = Inr e'" "io_bytes e' = io_bytes e @ tokens_bytes f ts"
    "explains f (as ?img) 0 ts (length (as ?img))" by blast
  obtain buf' where d: "decompress_into g as_out of_out n_pix buf (tokens_bytes f ts @ []) = Inr (n_pix, buf', [])"
    "length buf' = length buf" "map view (as_out buf') = map2 (\<lambda>out p. view (put_pixel g out p)) (as_out buf) (concat (map pix (as ?img)))"
    using out ok \<open>as ?img \<noteq> []\<close> c(3) n buf [unfolded n(1)] by (rule decompress_image)
  show thesis using segs e(1) c(1) c(2) [unfolded e(2)] d(1) [unfolded append_Nil2] d(2,3) by (rule that)
qed

end


section \<open>The round trip\<close>

text \<open>Encoding an image, and decoding what was written into a buffer as a format: the image's type and size, its orientation, and the buffer.\<close>

definition lz_transfer :: "u32 \<Rightarrow> u32 \<Rightarrow> u32 \<Rightarrow> u32 \<Rightarrow> u32 \<Rightarrow> u8 list \<Rightarrow> (u32 \<times> u8 list) list \<Rightarrow> u32 \<Rightarrow> nat \<Rightarrow>
    spice_palette option \<Rightarrow> spice_palette option \<Rightarrow> u32 \<Rightarrow> u8 list \<Rightarrow> (u32 \<times> u32 \<times> u32 \<times> u32 \<times> u8 list) res" where
  "lz_transfer type width height top_down num_lines lines chunks stride space stale palette to_type buf =
     rbind (lz_encode type width height top_down num_lines lines chunks stride space) (\<lambda>io.
     rbind (lz_decode_begin stale palette io) (\<lambda>(n, top_down, d).
     rbind (lz_decode d to_type buf) (\<lambda>buf. Inr (dec_type d, dec_width d, dec_height d, top_down, buf))))"

text \<open>
  What the buffer then holds: the image; of 16-bit pixels what counts of them, of 32-bit pixels the colours, and of an alpha image the alpha, the
  colours of the buffer kept.
\<close>

definition decoded_image :: "u32 \<Rightarrow> u8 list \<Rightarrow> u8 list \<Rightarrow> u8 list \<Rightarrow> bool" where
  "decoded_image type buf img buf' \<longleftrightarrow> length buf' = length img \<and>
     (if type = LZ_IMAGE_TYPE_RGB16 then map (\<lambda>p. colour16 p) (as_rgb16 buf') = map (\<lambda>p. colour16 p) (as_rgb16 img)
      else if type = LZ_IMAGE_TYPE_RGB32 then as_rgb32 buf' = map (\<lambda>p. p\<lparr>pix_pad := 0\<rparr>) (as_rgb32 img)
      else if type = LZ_IMAGE_TYPE_XXXA then as_rgb32 buf' = map2 (\<lambda>out p. out\<lparr>pix_pad := pix_pad p\<rparr>) (as_rgb32 buf) (as_rgb32 img)
      else buf' = img)"

lemma size_plt:
  assumes "lz_input type width height stride num_lines lines chunks"
  shows "unat (height * stride) = length (image_bytes lines chunks)"
  unfolding input_facts(2) [OF assms] using assms by (intro unat_mult_small) (simp add: lz_input_def)

lemma size_rgb:
  assumes "lz_input type width height stride num_lines lines chunks" "6 \<le> type"
  shows "unat (height * width) = length (image_bytes lines chunks) div type_bpp type"
proof -
  note f = input_facts [OF assms(1)]
  have b: "0 < type_bpp type" by simp
  have "unat height * unat width \<le> unat height * unat stride" unfolding f(7) [OF assms(2)] by simp
  moreover have "unat height * unat stride < 2 ^ 32" using f(2,4) by simp
  ultimately have "unat (height * width) = unat height * unat width" by (intro unat_mult_small) linarith
  then show ?thesis unfolding f(2) f(7) [OF assms(2)] mult.assoc [symmetric] using b by (metis nonzero_mult_div_cancel_right less_numeral_extra(3))
qed

lemma map2_second: "length xs = length ys \<Longrightarrow> map2 (\<lambda>x. h) xs ys = map h ys"
  by (induction xs ys rule: list_induct2) simp_all

lemma transfer_io:
  assumes "lz_encode type width height top_down num_lines lines chunks stride space = Inr (lz_header type width height stride top_down @ io)"
    "0 < type" "type \<le> 11"
    and "lz_decode \<lparr>dec_type = type, dec_width = width, dec_height = height, dec_stride = stride,
      dec_palette = (if type \<le> 5 then palette else stale), dec_io = io\<rparr> to_type buf = Inr buf'"
  shows "lz_transfer type width height top_down num_lines lines chunks stride space stale palette to_type buf = Inr (type, width, height, top_down, buf')"
proof -
  obtain n p where "lz_decode_begin stale palette (lz_header type width height stride top_down @ io) =
      Inr (n, top_down, \<lparr>dec_type = type, dec_width = width, dec_height = height, dec_stride = stride, dec_palette = p, dec_io = io\<rparr>)"
    "p = (if type \<le> 5 then palette else stale)" using assms(2,3) by (rule lz_decode_begin_header)
  then show ?thesis using assms(1,4) unfolding lz_transfer_def by (simp only: rbind_simps prod.case lz_decoder.simps)
qed

lemma plt_types: "0 < type \<Longrightarrow> type \<le> 5 \<Longrightarrow> type \<in> {1, 2, 3, 4, 5 :: u32}"
  using type_cases [of type] by (auto simp: word_le_nat_alt)

lemma is_plt: "type \<in> {1, 2, 3, 4, 5} \<Longrightarrow> index_list IS_IMAGE_TYPE_PLT (uint (type :: u32)) = Inr True"
  "type \<in> {6, 7, 8, 9, 10, 11} \<Longrightarrow> index_list IS_IMAGE_TYPE_PLT (uint type) = Inr False"
  by (auto simp: IS_IMAGE_TYPE_PLT_def index_list_def)

context lz_codec
begin

lemma transfer_one_pass:
  assumes input: "lz_input type width height stride num_lines lines chunks" and cast: "pixel_cast as of_ps (type_bpp type)"
    and out: "pixel_cast as_out of_out bpp_out" and space: "28 + 12 * length (image_bytes lines chunks) + 2 \<le> space"
    and ok: "\<forall>p \<in> set (as (image_bytes lines chunks)). ok p"
    and n: "unat n_pix = k * length (as (image_bytes lines chunks))" "k * length (as (image_bytes lines chunks)) < 2 ^ 31"
    and buf: "length buf = bpp_out * unat n_pix"
    and enc: "\<And>segs e e'. check_stride type width stride = Inr () \<Longrightarrow> lz_read_image_segments type stride height num_lines lines chunks = Inr segs \<Longrightarrow>
      encode_words [LZ_MAGIC, LZ_VERSION, type, width, height, stride, top_down] (encoder_reset space) = Inr e \<Longrightarrow>
      lz_compress f (as_segments as segs) e = Inr e' \<Longrightarrow> lz_encode type width height top_down num_lines lines chunks stride space = Inr (io_bytes e')"
    and dec: "\<And>io buf'. decompress_into g as_out of_out n_pix buf io = Inr (n_pix, buf', []) \<Longrightarrow>
      lz_decode \<lparr>dec_type = type, dec_width = width, dec_height = height, dec_stride = stride,
        dec_palette = (if type \<le> 5 then palette else stale), dec_io = io\<rparr> to_type buf = Inr buf'"
  obtains buf' where "lz_transfer type width height top_down num_lines lines chunks stride space stale palette to_type buf =
      Inr (type, width, height, top_down, buf')" "length buf' = length buf"
    "map view (as_out buf') = map2 (\<lambda>out p. view (put_pixel g out p)) (as_out buf) (concat (map pix (as (image_bytes lines chunks))))"
proof -
  have t: "0 < type" "type \<le> 11" "check_stride type width stride = Inr ()" using input by (simp_all add: lz_input_def)
  obtain segs and e e' :: "'p lz_encoder" and io buf' where r: "lz_read_image_segments type stride height num_lines lines chunks = Inr segs"
    "encode_words [LZ_MAGIC, LZ_VERSION, type, width, height, stride, top_down] (encoder_reset space) = Inr e"
    "lz_compress f (as_segments as segs) e = Inr e'" "io_bytes e' = lz_header type width height stride top_down @ io"
    "decompress_into g as_out of_out n_pix buf io = Inr (n_pix, buf', [])" "length buf' = length buf"
    "map view (as_out buf') = map2 (\<lambda>out p. view (put_pixel g out p)) (as_out buf) (concat (map pix (as (image_bytes lines chunks))))"
    by (rule encode_decode [OF input cast out space ok n buf])
  from enc [OF t(3) r(1-3), unfolded r(4)] t(1,2) dec [OF r(5)]
  have "lz_transfer type width height top_down num_lines lines chunks stride space stale palette to_type buf = Inr (type, width, height, top_down, buf')"
    by (rule transfer_io)
  then show thesis using r(6,7) by (rule that)
qed

end

lemma plt_round:
  assumes input: "lz_input type width height stride num_lines lines chunks" and type: "type \<in> {1, 2, 3, 4, 5}"
    and space: "28 + 12 * length (image_bytes lines chunks) + 2 \<le> space" and buf: "length buf = length (image_bytes lines chunks)"
  shows "lz_transfer type width height top_down num_lines lines chunks stride space stale palette type buf =
    Inr (type, width, height, top_down, image_bytes lines chunks)"
proof (rule plt_codec.transfer_one_pass [OF input _ cast8.pixel_cast_axioms space, where n_pix = "height * stride" and buf = buf])
  let ?img = "image_bytes lines chunks"
  have bpp: "type_bpp type = 1" using type by auto
  show "pixel_cast (\<lambda>bs. bs) (\<lambda>ps. ps) (type_bpp type)" unfolding bpp by (rule cast8.pixel_cast_axioms)
  show "unat (height * stride) = 1 * length ?img" "length buf = 1 * unat (height * stride)" using size_plt [OF input] buf by simp_all
  show "1 * length ?img < 2 ^ 31" using input_facts(4) [OF input] by simp
  show "lz_encode type width height top_down num_lines lines chunks stride space = Inr (io_bytes e')"
    if "check_stride type width stride = Inr ()" "lz_read_image_segments type stride height num_lines lines chunks = Inr segs"
      "encode_words [LZ_MAGIC, LZ_VERSION, type, width, height, stride, top_down] (encoder_reset space) = Inr e"
      "lz_compress plt_format (as_segments (\<lambda>bs. bs) segs) e = Inr e'" for segs e e'
    using that type by (simp only: lz_encode_def rbind_simps Let_def) auto
  show "lz_decode \<lparr>dec_type = type, dec_width = width, dec_height = height, dec_stride = stride,
      dec_palette = (if type \<le> 5 then palette else stale), dec_io = io\<rparr> type buf = Inr buf'"
    if "decompress_into plt_output (\<lambda>bs. bs) (\<lambda>ps. ps) (height * stride) buf io = Inr (height * stride, buf', [])" for io buf'
    using that by (simp add: lz_decode_def plt_decode_def is_plt(1) [OF type] Let_def del: index_list_uint)
  show ?thesis if "lz_transfer type width height top_down num_lines lines chunks stride space stale palette type buf = Inr (type, width, height, top_down, buf')"
    "map (\<lambda>p. p) buf' = map2 (\<lambda>out. put_pixel plt_output out) buf (concat (map (\<lambda>p. [p]) ?img))" for buf'
    using that map2_second [of buf ?img "\<lambda>p. p"] buf by (simp add: plt_output_def)
qed simp

text \<open>The other types: the number of pixels is that of the image.\<close>

context lz_codec
begin

lemma transfer_rgb:
  assumes input: "lz_input type width height stride num_lines lines chunks" and type: "6 \<le> type" "type_bpp type = bpp" and cast: "pixel_cast as of_ps bpp"
    and out: "pixel_cast as_out of_out bpp_out" and space: "28 + 12 * length (image_bytes lines chunks) + 2 \<le> space"
    and ok: "\<And>p. ok p" "k = 1"
    and buf: "length buf = bpp_out * unat (height * width)"
    and enc: "\<And>segs e e'. check_stride type width stride = Inr () \<Longrightarrow> lz_read_image_segments type stride height num_lines lines chunks = Inr segs \<Longrightarrow>
      encode_words [LZ_MAGIC, LZ_VERSION, type, width, height, stride, top_down] (encoder_reset space) = Inr e \<Longrightarrow>
      lz_compress f (as_segments as segs) e = Inr e' \<Longrightarrow> lz_encode type width height top_down num_lines lines chunks stride space = Inr (io_bytes e')"
    and dec: "\<And>p io buf'. decompress_into g as_out of_out (height * width) buf io = Inr (height * width, buf', []) \<Longrightarrow>
      lz_decode \<lparr>dec_type = type, dec_width = width, dec_height = height, dec_stride = stride, dec_palette = p, dec_io = io\<rparr> to_type buf = Inr buf'"
  shows "\<exists>buf'. lz_transfer type width height top_down num_lines lines chunks stride space stale palette to_type buf =
      Inr (type, width, height, top_down, buf') \<and> length buf' = length buf \<and>
    map view (as_out buf') = map2 (\<lambda>out p. view (put_pixel g out p)) (as_out buf) (concat (map pix (as (image_bytes lines chunks))))"
proof -
  let ?img = "image_bytes lines chunks"
  have size: "unat (height * width) = k * length (as ?img)"
    using size_rgb [OF input type(1)] unfolding type(2) pixel_cast.length_as [OF cast] ok(2) by simp
  have "length (as ?img) \<le> length ?img" unfolding pixel_cast.length_as [OF cast] by (rule div_le_dividend)
  then have less: "k * length (as ?img) < 2 ^ 31" using input_facts(4) [OF input] ok(2) by simp
  show ?thesis
    by (rule transfer_one_pass [OF input cast [folded type(2)] out space _ size less buf enc dec]) (use ok(1) in auto)
qed

end

lemma not_plt:
  "index_list IS_IMAGE_TYPE_PLT 6 = Inr False" "index_list IS_IMAGE_TYPE_PLT 7 = Inr False" "index_list IS_IMAGE_TYPE_PLT 8 = Inr False"
  "index_list IS_IMAGE_TYPE_PLT 9 = Inr False" "index_list IS_IMAGE_TYPE_PLT 10 = Inr False" "index_list IS_IMAGE_TYPE_PLT 11 = Inr False"
  by (simp_all add: IS_IMAGE_TYPE_PLT_def index_list_def)

lemmas lz_entry_simps = lz_encode_def lz_decode_def rgb_decode_def Let_def word_le_nat_alt not_plt

lemma pixel_count:
  assumes "lz_input type width height stride num_lines lines chunks" "6 \<le> type"
  shows "type_bpp type * unat (height * width) = length (image_bytes lines chunks)"
  using size_rgb [OF assms] dvd_mult_div_cancel [of "type_bpp type" "length (image_bytes lines chunks)"]
    dvd_mult [OF input_facts(5) [OF assms(1)]] input_facts(2) [OF assms(1)] by simp

lemma rgb24_round:
  assumes input: "lz_input 7 width height stride num_lines lines chunks"
    and space: "28 + 12 * length (image_bytes lines chunks) + 2 \<le> space" and buf: "length buf = length (image_bytes lines chunks)"
  shows "lz_transfer 7 width height top_down num_lines lines chunks stride space stale palette 7 buf = Inr (7, width, height, top_down, image_bytes lines chunks)"
proof -
  let ?img = "image_bytes lines chunks"
  have n: "length buf = 3 * unat (height * width)" "length ?img = 3 * unat (height * width)" using pixel_count [OF input] buf by (simp_all add: word_le_nat_alt)
  have len: "length (as_rgb24 buf) = length (as_rgb24 ?img)" unfolding cast24.length_as n ..
  have "\<exists>buf'. lz_transfer 7 width height top_down num_lines lines chunks stride space stale palette 7 buf = Inr (7, width, height, top_down, buf') \<and>
    length buf' = length buf \<and> map (\<lambda>p. p) (as_rgb24 buf') = map2 (\<lambda>out. put_pixel rgb24_output out) (as_rgb24 buf) (concat (map (\<lambda>p. [p]) (as_rgb24 ?img)))"
    by (rule rgb24_codec.transfer_rgb [OF input _ _ cast24.pixel_cast_axioms cast24.pixel_cast_axioms space])
      (simp_all add: n(1) lz_entry_simps del: index_list_uint encode_words.simps)
  then obtain buf' where b: "lz_transfer 7 width height top_down num_lines lines chunks stride space stale palette 7 buf = Inr (7, width, height, top_down, buf')"
    "length buf' = length buf" "as_rgb24 buf' = as_rgb24 ?img"
    using map2_second [OF len, of "\<lambda>p. p"] by (auto simp: rgb24_output_def)
  have "buf' = ?img" using b(2) n cast24.of_as [of buf'] cast24.of_as [of ?img] unfolding b(3) by (metis dvd_triv_left)
  then show ?thesis using b(1) by simp
qed

lemma rgb16_round:
  assumes input: "lz_input 6 width height stride num_lines lines chunks"
    and space: "28 + 12 * length (image_bytes lines chunks) + 2 \<le> space" and buf: "length buf = length (image_bytes lines chunks)"
  shows "\<exists>buf'. lz_transfer 6 width height top_down num_lines lines chunks stride space stale palette 6 buf = Inr (6, width, height, top_down, buf') \<and>
    length buf' = length buf \<and> map (\<lambda>p. colour16 p) (as_rgb16 buf') = map (\<lambda>p. colour16 p) (as_rgb16 (image_bytes lines chunks))"
proof -
  let ?img = "image_bytes lines chunks"
  have n: "length buf = 2 * unat (height * width)" "length ?img = 2 * unat (height * width)" using pixel_count [OF input] buf by (simp_all add: word_le_nat_alt)
  have len: "length (as_rgb16 buf) = length (as_rgb16 ?img)" unfolding cast16.length_as n ..
  have "\<exists>buf'. lz_transfer 6 width height top_down num_lines lines chunks stride space stale palette 6 buf = Inr (6, width, height, top_down, buf') \<and>
    length buf' = length buf \<and> map (\<lambda>p. colour16 p) (as_rgb16 buf') =
      map2 (\<lambda>out p. colour16 (put_pixel rgb16_output out p)) (as_rgb16 buf) (concat (map (\<lambda>p. [p]) (as_rgb16 ?img)))"
    by (rule rgb16_codec.transfer_rgb [OF input _ _ cast16.pixel_cast_axioms cast16.pixel_cast_axioms space])
      (simp_all add: n(1) lz_entry_simps del: index_list_uint encode_words.simps)
  then show ?thesis using map2_second [OF len, of "\<lambda>p. colour16 p"] by (auto simp: rgb16_output_def)
qed

lemma rgb32_round:
  assumes input: "lz_input 8 width height stride num_lines lines chunks"
    and space: "28 + 12 * length (image_bytes lines chunks) + 2 \<le> space" and buf: "length buf = length (image_bytes lines chunks)"
  shows "\<exists>buf'. lz_transfer 8 width height top_down num_lines lines chunks stride space stale palette 8 buf = Inr (8, width, height, top_down, buf') \<and>
    length buf' = length buf \<and> as_rgb32 buf' = map (\<lambda>p. p\<lparr>pix_pad := 0\<rparr>) (as_rgb32 (image_bytes lines chunks))"
proof -
  let ?img = "image_bytes lines chunks"
  have n: "length buf = 4 * unat (height * width)" "length ?img = 4 * unat (height * width)" using pixel_count [OF input] buf by (simp_all add: word_le_nat_alt)
  have len: "length (as_rgb32 buf) = length (map (\<lambda>p. p\<lparr>pix_pad := 0\<rparr>) (as_rgb32 ?img))" unfolding length_map cast32.length_as n ..
  have "\<exists>buf'. lz_transfer 8 width height top_down num_lines lines chunks stride space stale palette 8 buf = Inr (8, width, height, top_down, buf') \<and>
    length buf' = length buf \<and> map (\<lambda>p. p) (as_rgb32 buf') =
      map2 (\<lambda>out. put_pixel rgb32_output out) (as_rgb32 buf) (concat (map (\<lambda>p. [p\<lparr>pix_pad := 0\<rparr>]) (as_rgb32 ?img)))"
    by (rule rgb32_codec.transfer_rgb [OF input _ _ cast32.pixel_cast_axioms cast32.pixel_cast_axioms space])
      (simp_all add: n(1) lz_entry_simps del: index_list_uint encode_words.simps)
  then show ?thesis using map2_second [OF len, of "\<lambda>p. p"] by (auto simp: rgb32_output_def)
qed

lemma alpha_round:
  assumes input: "lz_input 10 width height stride num_lines lines chunks"
    and space: "28 + 12 * length (image_bytes lines chunks) + 2 \<le> space" and buf: "length buf = length (image_bytes lines chunks)"
  shows "\<exists>buf'. lz_transfer 10 width height top_down num_lines lines chunks stride space stale palette 10 buf = Inr (10, width, height, top_down, buf') \<and>
    length buf' = length buf \<and> as_rgb32 buf' = map2 (\<lambda>out p. out\<lparr>pix_pad := pix_pad p\<rparr>) (as_rgb32 buf) (as_rgb32 (image_bytes lines chunks))"
proof -
  let ?img = "image_bytes lines chunks"
  have n: "length buf = 4 * unat (height * width)" using pixel_count [OF input] buf by (simp add: word_le_nat_alt)
  have "\<exists>buf'. lz_transfer 10 width height top_down num_lines lines chunks stride space stale palette 10 buf = Inr (10, width, height, top_down, buf') \<and>
    length buf' = length buf \<and> map (\<lambda>p. p) (as_rgb32 buf') = map2 (\<lambda>out. put_pixel rgb_alpha_output out) (as_rgb32 buf)
      (concat (map (\<lambda>p. [\<lparr>pix_b = 0, pix_g = 0, pix_r = 0, pix_pad = pix_pad p\<rparr>]) (as_rgb32 ?img)))"
    by (rule alpha_codec.transfer_rgb [OF input _ _ cast32.pixel_cast_axioms cast32.pixel_cast_axioms space])
      (simp_all add: n lz_entry_simps del: index_list_uint encode_words.simps)
  then show ?thesis by (auto simp: rgb_alpha_output_def zip_map2 comp_def case_prod_beta)
qed

lemma a8_round:
  assumes input: "lz_input 11 width height stride num_lines lines chunks"
    and space: "28 + 12 * length (image_bytes lines chunks) + 2 \<le> space" and buf: "length buf = length (image_bytes lines chunks)"
  shows "lz_transfer 11 width height top_down num_lines lines chunks stride space stale palette 11 buf = Inr (11, width, height, top_down, image_bytes lines chunks)"
proof -
  let ?img = "image_bytes lines chunks"
  have n: "length buf = 1 * unat (height * width)" using pixel_count [OF input] buf by (simp add: word_le_nat_alt)
  have "\<exists>buf'. lz_transfer 11 width height top_down num_lines lines chunks stride space stale palette 11 buf = Inr (11, width, height, top_down, buf') \<and>
    length buf' = length buf \<and> map (\<lambda>p. p) buf' = map2 (\<lambda>out. put_pixel plt_output out) buf (concat (map (\<lambda>p. [p]) ?img))"
    by (rule plt_codec.transfer_rgb [OF input _ _ cast8.pixel_cast_axioms cast8.pixel_cast_axioms space])
      (simp_all add: n lz_entry_simps del: index_list_uint encode_words.simps)
  then show ?thesis using map2_second [OF buf, of "\<lambda>p. p"] by (auto simp: plt_output_def)
qed

lemma colours_and_alpha:
  "map2 (\<lambda>out p. out\<lparr>pix_pad := pix_pad p\<rparr>) (map (\<lambda>p. p\<lparr>pix_pad := 0\<rparr>) ps)
    (map (\<lambda>p. \<lparr>pix_b = 0, pix_g = 0, pix_r = 0, pix_pad = pix_pad p\<rparr>) ps) = (ps :: rgb32_pixel list)"
  by (induction ps) simp_all

text \<open>Colours with alpha: two passes over the image, one after the other in the output.\<close>

lemma rgba_round:
  assumes input: "lz_input 9 width height stride num_lines lines chunks"
    and space: "28 + 12 * length (image_bytes lines chunks) + 2 \<le> space" and buf: "length buf = length (image_bytes lines chunks)"
  shows "lz_transfer 9 width height top_down num_lines lines chunks stride space stale palette 9 buf = Inr (9, width, height, top_down, image_bytes lines chunks)"
proof -
  let ?img = "image_bytes lines chunks" and ?px = "as_rgb32 (image_bytes lines chunks)"
  have n: "length buf = 4 * unat (height * width)" "length ?img = 4 * unat (height * width)" using pixel_count [OF input] buf by (simp_all add: word_le_nat_alt)
  have px: "length ?px = unat (height * width)" unfolding cast32.length_as n by simp
  have "?px \<noteq> []" using px n(2) input_facts(3) [OF input] by (metis length_0_conv mult_0_right)
  have small: "length ?px < 2 ^ 31" using input_facts(4) [OF input] n(2) px by linarith
  have cast: "pixel_cast as_rgb32 of_rgb32 (type_bpp 9)" using cast32.pixel_cast_axioms by simp
  obtain segs where segs: "lz_read_image_segments 9 stride height num_lines lines chunks = Inr segs"
    and comp: "\<forall>e. length (io_bytes e) + 6 * length ?px + 1 \<le> io_space e \<longrightarrow>
      (\<exists>ts e'. lz_compress rgb32_format (as_segments as_rgb32 segs) e = Inr e' \<and> io_bytes e' = io_bytes e @ tokens_bytes rgb32_format ts \<and>
        io_space e' = io_space e \<and> explains rgb32_format ?px 0 ts (length ?px))" using input cast by (rule rgb32.encode_image)
  obtain segs' where segs': "lz_read_image_segments 9 stride height num_lines lines chunks = Inr segs'"
    and comp': "\<forall>e. length (io_bytes e) + 6 * length ?px + 1 \<le> io_space e \<longrightarrow>
      (\<exists>ts e'. lz_compress rgb_alpha_format (as_segments as_rgb32 segs') e = Inr e' \<and> io_bytes e' = io_bytes e @ tokens_bytes rgb_alpha_format ts \<and>
        io_space e' = io_space e \<and> explains rgb_alpha_format ?px 0 ts (length ?px))" using input cast by (rule alpha.encode_image)
  have same: "segs' = segs" using segs segs' by simp
  obtain e :: "rgb32_pixel lz_encoder" where e: "encode_words [LZ_MAGIC, LZ_VERSION, 9, width, height, stride, top_down] (encoder_reset space) = Inr e"
    "io_bytes e = lz_header 9 width height stride top_down" "io_space e = space"
    by (rule header_encoder [of space]) (use space in simp)
  have "length (io_bytes e) + 6 * length ?px + 1 \<le> io_space e" unfolding e(2,3) length_lz_header using space n(2) px by linarith
  with comp obtain ts e1 where e1: "lz_compress rgb32_format (as_segments as_rgb32 segs) e = Inr e1" "io_bytes e1 = io_bytes e @ tokens_bytes rgb32_format ts"
    "io_space e1 = io_space e" "explains rgb32_format ?px 0 ts (length ?px)" by blast
  have "length (tokens_bytes rgb32_format ts) \<le> 6 * length ?px" using rgb32.length_tokens [OF e1(4)] by simp
  then have "length (io_bytes e1) + 6 * length ?px + 1 \<le> io_space e1"
    unfolding e1(2,3) length_append e(2,3) length_lz_header using space n(2) px by linarith
  with comp' obtain us e2 where e2: "lz_compress rgb_alpha_format (as_segments as_rgb32 segs) e1 = Inr e2"
    "io_bytes e2 = io_bytes e1 @ tokens_bytes rgb_alpha_format us" "explains rgb_alpha_format ?px 0 us (length ?px)" unfolding same by blast
  have k: "unat (height * width) = 1 * length ?px" "1 * length ?px < 2 ^ 31" using px small by simp_all
  have b: "length buf = 4 * (1 * length ?px)" and all: "\<forall>p \<in> set ?px. True" using n px by simp_all
  obtain buf1 where b1: "decompress_into rgb32_output as_rgb32 of_rgb32 (height * width) buf (tokens_bytes rgb32_format ts @ tokens_bytes rgb_alpha_format us) =
      Inr (height * width, buf1, tokens_bytes rgb_alpha_format us)" "length buf1 = length buf"
    "map (\<lambda>p. p) (as_rgb32 buf1) = map2 (\<lambda>out. put_pixel rgb32_output out) (as_rgb32 buf) (concat (map (\<lambda>p. [p\<lparr>pix_pad := 0\<rparr>]) ?px))"
    by (rule rgb32_codec.decompress_image [OF cast32.pixel_cast_axioms all \<open>?px \<noteq> []\<close> e1(4) k b])
  obtain buf2 where b2: "decompress_into rgb_alpha_output as_rgb32 of_rgb32 (height * width) buf1 (tokens_bytes rgb_alpha_format us @ []) =
      Inr (height * width, buf2, [])" "length buf2 = length buf1"
    "map (\<lambda>p. p) (as_rgb32 buf2) = map2 (\<lambda>out. put_pixel rgb_alpha_output out) (as_rgb32 buf1)
      (concat (map (\<lambda>p. [\<lparr>pix_b = 0, pix_g = 0, pix_r = 0, pix_pad = pix_pad p\<rparr>]) ?px))"
    by (rule alpha_codec.decompress_image [OF cast32.pixel_cast_axioms all \<open>?px \<noteq> []\<close> e2(3) k b [folded b1(2)]])
  have "length (as_rgb32 buf) = length (map (\<lambda>p. p\<lparr>pix_pad := 0\<rparr>) ?px)" unfolding length_map cast32.length_as buf ..
  from map2_second [OF this, of "\<lambda>p. p"] b1(3) have "as_rgb32 buf1 = map (\<lambda>p. p\<lparr>pix_pad := 0\<rparr>) ?px" by (simp add: rgb32_output_def)
  with b2(3) have "as_rgb32 buf2 = ?px" using colours_and_alpha [of ?px] by (simp add: rgb_alpha_output_def)
  then have "buf2 = ?img" using b2(2) b1(2) n cast32.of_as [of buf2] cast32.of_as [of ?img] by (metis dvd_triv_left)
  show ?thesis
  proof (rule transfer_io)
    show "lz_encode 9 width height top_down num_lines lines chunks stride space =
        Inr (lz_header 9 width height stride top_down @ tokens_bytes rgb32_format ts @ tokens_bytes rgb_alpha_format us)"
      using input segs e(1) e1(1) e2(1) e2(2) [unfolded e1(2) e(2)]
      by (simp add: lz_encode_def lz_input_def Let_def del: encode_words.simps)
  qed (use b1(1) b2(1) \<open>buf2 = ?img\<close> in \<open>simp_all add: lz_entry_simps del: index_list_uint\<close>)
qed

text \<open>
  C2: Whatever an image's type, its size and the chunks its lines come in, \<open>lz_encode\<close> returns, and what it wrote is decoded without an error and
  to the last byte, to the same type, size and orientation, and to the image.
\<close>

theorem lz_round_trip:
  assumes "lz_input type width height stride num_lines lines chunks"
    and "28 + 12 * length (image_bytes lines chunks) + 2 \<le> space" and "length buf = length (image_bytes lines chunks)"
  shows "\<exists>buf'. lz_transfer type width height top_down num_lines lines chunks stride space stale palette type buf = Inr (type, width, height, top_down, buf') \<and>
    decoded_image type buf (image_bytes lines chunks) buf'"
proof -
  have "type \<in> {1, 2, 3, 4, 5} \<or> type = 6 \<or> type = 7 \<or> type = 8 \<or> type = 9 \<or> type = 10 \<or> type = 11"
    using assms(1) type_cases [of type] by (auto simp: lz_input_def)
  then show ?thesis
  proof (elim disjE)
    assume plt: "type \<in> {1, 2, 3, 4, 5}"
    then have "decoded_image type buf (image_bytes lines chunks) (image_bytes lines chunks)" by (auto simp: decoded_image_def)
    then show ?thesis using plt_round [OF assms(1) plt assms(2,3)] by blast
  next
    assume t: "type = 6"
    then show ?thesis using rgb16_round [OF assms(1) [unfolded t] assms(2,3)] assms(3) by (simp add: decoded_image_def)
  next
    assume t: "type = 7"
    then show ?thesis using rgb24_round [OF assms(1) [unfolded t] assms(2,3)] by (simp add: decoded_image_def)
  next
    assume t: "type = 8"
    then show ?thesis using rgb32_round [OF assms(1) [unfolded t] assms(2,3)] assms(3) by (simp add: decoded_image_def)
  next
    assume t: "type = 9"
    then show ?thesis using rgba_round [OF assms(1) [unfolded t] assms(2,3)] by (simp add: decoded_image_def)
  next
    assume t: "type = 10"
    then show ?thesis using alpha_round [OF assms(1) [unfolded t] assms(2,3)] assms(3) by (simp add: decoded_image_def)
  next
    assume t: "type = 11"
    then show ?thesis using a8_round [OF assms(1) [unfolded t] assms(2,3)] by (simp add: decoded_image_def)
  qed
qed

text \<open>Two lines of four 24-bit pixels, one line in each chunk.\<close>

theorem lz_round_trip_witness:
  "\<exists>buf'. lz_transfer 7 4 2 1 1 [1, 2, 3, 1, 2, 3, 1, 2, 3, 1, 2, 3] [(1, [4, 5, 6, 1, 2, 3, 1, 2, 3, 1, 2, 3])] 12 400 None None 7 (replicate 24 0) =
      Inr (7, 4, 2, 1, buf') \<and>
    decoded_image 7 (replicate 24 0) ([1, 2, 3, 1, 2, 3, 1, 2, 3, 1, 2, 3] @ concat (map snd [(1 :: u32, [4, 5, 6, 1, 2, 3, 1, 2, 3, 1, 2, 3])])) buf'"
proof (rule lz_round_trip)
  show "lz_input 7 4 2 12 1 [1, 2, 3, 1, 2, 3, 1, 2, 3, 1, 2, 3] [(1, [4, 5, 6, 1, 2, 3, 1, 2, 3, 1, 2, 3])]"
    by (simp add: lz_input_def check_stride_def chunks_ok_def IS_IMAGE_TYPE_PLT_def RGB_BYTES_PER_PIXEL_def index_list_def word_le_nat_alt word_less_nat_alt)
qed simp_all


section \<open>Decoding to 32-bit pixels\<close>

text \<open>The 32-bit pixels of an image of another type, without the codec.\<close>

definition rgb32_pixels :: "u32 \<Rightarrow> spice_palette \<Rightarrow> u8 list \<Rightarrow> rgb32_pixel list" where
  "rgb32_pixels type palette img =
     (if type = LZ_IMAGE_TYPE_RGB16 then map (\<lambda>p. rgb16_to_rgb32_pixel (ucast (drop_bit 8 p)) (ucast (p AND 0xff))) (as_rgb16 img)
      else if type = LZ_IMAGE_TYPE_RGB24 then map (\<lambda>p. \<lparr>pix_b = pix24_b p, pix_g = pix24_g p, pix_r = pix24_r p, pix_pad = 0\<rparr>) (as_rgb24 img)
      else if type = LZ_IMAGE_TYPE_A8 then map (\<lambda>a. \<lparr>pix_b = 0, pix_g = 0, pix_r = 0, pix_pad = a\<rparr>) img
      else if type = LZ_IMAGE_TYPE_PLT1_LE then concat (map (pixels_of (plt1_le_pixels palette)) img)
      else if type = LZ_IMAGE_TYPE_PLT1_BE then concat (map (pixels_of (plt1_be_pixels palette)) img)
      else if type = LZ_IMAGE_TYPE_PLT4_LE then concat (map (pixels_of (plt4_le_pixels palette)) img)
      else if type = LZ_IMAGE_TYPE_PLT4_BE then concat (map (pixels_of (plt4_be_pixels palette)) img)
      else concat (map (pixels_of (plt8_pixels palette)) img))"

text \<open>A palette with an entry for every byte of the image.\<close>

definition palette_covers :: "u32 \<Rightarrow> spice_palette \<Rightarrow> u8 list \<Rightarrow> bool" where
  "palette_covers type palette img \<longleftrightarrow>
     (if type = LZ_IMAGE_TYPE_PLT8 then \<forall>b \<in> set img. indexed8 palette b
      else if type \<in> {LZ_IMAGE_TYPE_PLT4_LE, LZ_IMAGE_TYPE_PLT4_BE} then \<forall>b \<in> set img. indexed4 palette b
      else if type \<in> {LZ_IMAGE_TYPE_PLT1_LE, LZ_IMAGE_TYPE_PLT1_BE} then \<forall>b \<in> set img. indexed1 palette b
      else True)"

lemma plt_to_rgb32_round:
  assumes codec: "lz_codec plt_format g k px (\<lambda>p. p) ok" and put: "put_pixel g = (\<lambda>out p. p)"
    and input: "lz_input type width height stride num_lines lines chunks" and type: "type \<in> {1, 2, 3, 4, 5}"
    and space: "28 + 12 * length (image_bytes lines chunks) + 2 \<le> space" and ok: "\<forall>b \<in> set (image_bytes lines chunks). ok b"
    and k: "k * length (image_bytes lines chunks) < 2 ^ 31" "unat (of_nat k :: u32) = k" and buf: "length buf = 4 * (k * length (image_bytes lines chunks))"
    and dec: "\<And>io buf'. decompress_into g as_rgb32 of_rgb32 (height * stride * of_nat k) buf io = Inr (height * stride * of_nat k, buf', []) \<Longrightarrow>
      plt_decode \<lparr>dec_type = type, dec_width = width, dec_height = height, dec_stride = stride, dec_palette = Some palette, dec_io = io\<rparr> 8 buf =
        Inr (height * stride * of_nat k, height * stride * of_nat k, buf', [])"
  shows "\<exists>buf'. lz_transfer type width height top_down num_lines lines chunks stride space stale (Some palette) 8 buf = Inr (type, width, height, top_down, buf') \<and>
    length buf' = length buf \<and> as_rgb32 buf' = concat (map px (image_bytes lines chunks))"
proof -
  let ?img = "image_bytes lines chunks" and ?n = "height * stride * of_nat k"
  have bpp: "type_bpp type = 1" and 5: "type \<le> 5" using type by (auto simp: word_le_nat_alt)
  have "unat (height * stride) * unat (of_nat k :: u32) < 2 ^ 32" using k size_plt [OF input] by (simp add: mult.commute)
  then have n: "unat ?n = k * length ?img" using unat_mult_small [of "height * stride" "of_nat k"] size_plt [OF input] k(2) by (simp add: mult.commute)
  have cast: "pixel_cast (\<lambda>bs. bs) (\<lambda>ps. ps) (type_bpp type)" unfolding bpp by (rule cast8.pixel_cast_axioms)
  have b: "length buf = 4 * unat ?n" using buf n by simp
  have len: "length (as_rgb32 buf) = length (concat (map px ?img))"
    using lz_codec.length_expected [OF codec ok] buf by (simp add: cast32.length_as)
  show ?thesis
  proof (rule lz_codec.transfer_one_pass [OF codec input cast cast32.pixel_cast_axioms space ok n k(1) b])
    show "lz_encode type width height top_down num_lines lines chunks stride space = Inr (io_bytes e')"
      if "check_stride type width stride = Inr ()" "lz_read_image_segments type stride height num_lines lines chunks = Inr segs"
        "encode_words [LZ_MAGIC, LZ_VERSION, type, width, height, stride, top_down] (encoder_reset space) = Inr e"
        "lz_compress plt_format (as_segments (\<lambda>bs. bs) segs) e = Inr e'" for segs e e'
      using that type by (simp only: lz_encode_def rbind_simps Let_def) auto
    show "lz_decode \<lparr>dec_type = type, dec_width = width, dec_height = height, dec_stride = stride,
        dec_palette = (if type \<le> 5 then Some palette else stale), dec_io = io\<rparr> 8 buf = Inr buf'"
      if "decompress_into g as_rgb32 of_rgb32 ?n buf io = Inr (?n, buf', [])" for io buf'
      using dec [OF that] 5 by (simp add: lz_decode_def is_plt(1) [OF type] del: index_list_uint)
    show ?thesis if "lz_transfer type width height top_down num_lines lines chunks stride space stale (Some palette) 8 buf = Inr (type, width, height, top_down, buf')"
      "length buf' = length buf"
      "map (\<lambda>p. p) (as_rgb32 buf') = map2 (\<lambda>out. put_pixel g out) (as_rgb32 buf) (concat (map px ?img))" for buf'
      using that map2_second [OF len, of "\<lambda>p. p"] by (simp add: put)
  qed
qed

lemma plt_outputs:
  "put_pixel (plt8_to_rgb32_output palette) = (\<lambda>out p. p)" "put_pixel (plt4_be_to_rgb32_output palette) = (\<lambda>out p. p)"
  "put_pixel (plt4_le_to_rgb32_output palette) = (\<lambda>out p. p)" "put_pixel (plt1_be_to_rgb32_output palette) = (\<lambda>out p. p)"
  "put_pixel (plt1_le_to_rgb32_output palette) = (\<lambda>out p. p)"
  by (simp_all add: plt8_to_rgb32_output_def plt4_be_to_rgb32_output_def plt4_le_to_rgb32_output_def plt1_be_to_rgb32_output_def
      plt1_le_to_rgb32_output_def plt_to_rgb32_output_def)

lemma pixels_per_byte:
  "index_list PLT_PIXELS_PER_BYTE 1 = Inr 8" "index_list PLT_PIXELS_PER_BYTE 2 = Inr 8" "index_list PLT_PIXELS_PER_BYTE 3 = Inr 2"
  "index_list PLT_PIXELS_PER_BYTE 4 = Inr 2" "index_list PLT_PIXELS_PER_BYTE 5 = Inr 1"
  by (simp_all add: PLT_PIXELS_PER_BYTE_def index_list_def)

text \<open>The pixels an element of the image is decoded to.\<close>

abbreviation (input) "pixels_per_element type \<equiv> (if type \<in> {1, 2 :: u32} then 8 else if type \<in> {3, 4} then 2 else 1 :: nat)"

lemma plt_rgb32_round:
  assumes input: "lz_input type width height stride num_lines lines chunks" and type: "type \<in> {1, 2, 3, 4, 5}"
    and space: "28 + 12 * length (image_bytes lines chunks) + 2 \<le> space" and cov: "palette_covers type palette (image_bytes lines chunks)"
    and k: "pixels_per_element type * length (image_bytes lines chunks) < 2 ^ 31" and buf: "length buf = 4 * (pixels_per_element type * length (image_bytes lines chunks))"
  shows "\<exists>buf'. lz_transfer type width height top_down num_lines lines chunks stride space stale (Some palette) 8 buf = Inr (type, width, height, top_down, buf') \<and>
    length buf' = length buf \<and> as_rgb32 buf' = rgb32_pixels type palette (image_bytes lines chunks)"
  using type
proof (elim insertE emptyE)
  assume t: "type = 1"
  show ?thesis using plt_to_rgb32_round [OF plt1_le_codec.lz_codec_axioms plt_outputs(5) input type space, of palette buf palette]
    cov k buf by (simp add: t palette_covers_def rgb32_pixels_def plt_decode_def pixels_per_byte Let_def)
next
  assume t: "type = 2"
  show ?thesis using plt_to_rgb32_round [OF plt1_be_codec.lz_codec_axioms plt_outputs(4) input type space, of palette buf palette]
    cov k buf by (simp add: t palette_covers_def rgb32_pixels_def plt_decode_def pixels_per_byte Let_def)
next
  assume t: "type = 3"
  show ?thesis using plt_to_rgb32_round [OF plt4_le_codec.lz_codec_axioms plt_outputs(3) input type space, of palette buf palette]
    cov k buf by (simp add: t palette_covers_def rgb32_pixels_def plt_decode_def pixels_per_byte Let_def)
next
  assume t: "type = 4"
  show ?thesis using plt_to_rgb32_round [OF plt4_be_codec.lz_codec_axioms plt_outputs(2) input type space, of palette buf palette]
    cov k buf by (simp add: t palette_covers_def rgb32_pixels_def plt_decode_def pixels_per_byte Let_def)
next
  assume t: "type = 5"
  show ?thesis using plt_to_rgb32_round [OF plt8_codec.lz_codec_axioms plt_outputs(1) input type space, of palette buf palette]
    cov k buf by (simp add: t palette_covers_def rgb32_pixels_def plt_decode_def pixels_per_byte Let_def)
qed

lemma rgb_rgb32_round:
  assumes input: "lz_input type width height stride num_lines lines chunks" and type: "type \<in> {6, 7, 11}"
    and space: "28 + 12 * length (image_bytes lines chunks) + 2 \<le> space" and buf: "length buf = 4 * unat (height * width)"
  shows "\<exists>buf'. lz_transfer type width height top_down num_lines lines chunks stride space stale (Some palette) 8 buf = Inr (type, width, height, top_down, buf') \<and>
    length buf' = length buf \<and> as_rgb32 buf' = rgb32_pixels type palette (image_bytes lines chunks)"
proof -
  let ?img = "image_bytes lines chunks"
  have "6 \<le> type" using type by (auto simp: word_le_nat_alt)
  note n = pixel_count [OF input this]
  have len: "length (as_rgb32 buf) = unat (height * width)" using buf by (simp add: cast32.length_as)
  show ?thesis using type
  proof (elim insertE emptyE)
    assume t: "type = 6"
    have "\<exists>buf'. lz_transfer 6 width height top_down num_lines lines chunks stride space stale (Some palette) 8 buf = Inr (6, width, height, top_down, buf') \<and>
      length buf' = length buf \<and> map (\<lambda>p. p) (as_rgb32 buf') = map2 (\<lambda>out. put_pixel rgb16_to_rgb32_output out) (as_rgb32 buf)
        (concat (map (\<lambda>p. [rgb16_to_rgb32_pixel (ucast (drop_bit 8 p)) (ucast (p AND 0xff))]) (as_rgb16 ?img)))"
      by (rule rgb16_rgb32_codec.transfer_rgb [OF input [unfolded t] _ _ cast16.pixel_cast_axioms cast32.pixel_cast_axioms space])
        (simp_all add: buf lz_entry_simps del: index_list_uint encode_words.simps)
    moreover have "length (as_rgb32 buf) = length (rgb32_pixels 6 palette ?img)" using len n by (simp add: t rgb32_pixels_def cast16.length_as)
    from map2_second [OF this, of "\<lambda>p. p"] have "map2 (\<lambda>out p. p) (as_rgb32 buf) (rgb32_pixels 6 palette ?img) = rgb32_pixels 6 palette ?img" by simp
    ultimately show ?thesis by (simp add: t rgb32_pixels_def rgb16_to_rgb32_output_def)
  next
    assume t: "type = 7"
    have "\<exists>buf'. lz_transfer 7 width height top_down num_lines lines chunks stride space stale (Some palette) 8 buf = Inr (7, width, height, top_down, buf') \<and>
      length buf' = length buf \<and> map (\<lambda>p. p) (as_rgb32 buf') = map2 (\<lambda>out. put_pixel rgb32_output out) (as_rgb32 buf)
        (concat (map (\<lambda>p. [\<lparr>pix_b = pix24_b p, pix_g = pix24_g p, pix_r = pix24_r p, pix_pad = 0\<rparr>]) (as_rgb24 ?img)))"
      by (rule rgb24_rgb32_codec.transfer_rgb [OF input [unfolded t] _ _ cast24.pixel_cast_axioms cast32.pixel_cast_axioms space])
        (simp_all add: buf lz_entry_simps del: index_list_uint encode_words.simps)
    moreover have "length (as_rgb32 buf) = length (rgb32_pixels 7 palette ?img)" using len n by (simp add: t rgb32_pixels_def cast24.length_as)
    from map2_second [OF this, of "\<lambda>p. p"] have "map2 (\<lambda>out p. p) (as_rgb32 buf) (rgb32_pixels 7 palette ?img) = rgb32_pixels 7 palette ?img" by simp
    ultimately show ?thesis by (simp add: t rgb32_pixels_def rgb32_output_def)
  next
    assume t: "type = 11"
    have "\<exists>buf'. lz_transfer 11 width height top_down num_lines lines chunks stride space stale (Some palette) 8 buf = Inr (11, width, height, top_down, buf') \<and>
      length buf' = length buf \<and> map (\<lambda>p. p) (as_rgb32 buf') = map2 (\<lambda>out. put_pixel a8_to_rgb32_output out) (as_rgb32 buf)
        (concat (map (\<lambda>a. [\<lparr>pix_b = 0, pix_g = 0, pix_r = 0, pix_pad = a\<rparr>]) ?img))"
      by (rule a8_rgb32_codec.transfer_rgb [OF input [unfolded t] _ _ cast8.pixel_cast_axioms cast32.pixel_cast_axioms space])
        (simp_all add: buf lz_entry_simps del: index_list_uint encode_words.simps)
    moreover have "length (as_rgb32 buf) = length (rgb32_pixels 11 palette ?img)" using len n by (simp add: t rgb32_pixels_def)
    from map2_second [OF this, of "\<lambda>p. p"] have "map2 (\<lambda>out p. p) (as_rgb32 buf) (rgb32_pixels 11 palette ?img) = rgb32_pixels 11 palette ?img" by simp
    ultimately show ?thesis by (simp add: t rgb32_pixels_def a8_to_rgb32_output_def)
  qed
qed



end
