(* ===== verification/Lz_Safety.thy ===== *)
theory Lz_Safety
  imports Lz_Round_Trip
begin

text \<open>
  Decompressing bytes that nothing is known of, as a client does with what it receives: the decoder ends, and either stops at one of its checks or fills its
  buffer, writing nothing behind it. The exceptions are an image type that is not one of the enumeration, and a palette that does not cover the image.
\<close>

section \<open>Decompressing any bytes\<close>

text \<open>A reader of pixels: it gives as many as the format says, and uses up at least a byte.\<close>

locale lz_reader =
  fixes g :: "'q lz_output"
  assumes reads: "aborts_or (\<lambda>(ps, bs'). length ps = unat (plt_scale g) \<and> length bs' < length bs) (comp_pixel g bs)"
begin

text \<open>A buffer with all that it had from \<open>lim\<close> on.\<close>

definition spares :: "nat \<Rightarrow> 'q list \<Rightarrow> 'q list \<Rightarrow> bool" where
  "spares lim buf buf' \<longleftrightarrow> length buf' = length buf \<and> drop lim buf' = drop lim buf"

lemma spares_refl [simp]: "spares lim buf buf"
  by (simp add: spares_def)

lemma spares_trans: "spares lim a b \<Longrightarrow> spares lim b c \<Longrightarrow> spares lim a c"
  by (simp add: spares_def)

lemma store_spares:
  assumes "op < lim" "lim \<le> length buf"
  shows "\<exists>buf'. store_pixel g p op buf = Inr buf' \<and> spares lim buf buf'"
  using assms by (auto simp: store_pixel_def spares_def drop_update_cancel)

lemma copy_run_spares:
  "op + n \<le> lim \<Longrightarrow> lim \<le> length buf \<Longrightarrow> \<exists>buf'. copy_run g lim n b op buf = Inr (op + n, buf') \<and> spares lim buf buf'"
proof (induction n arbitrary: op buf)
  case (Suc n)
  obtain buf1 where b: "store_pixel g b op buf = Inr buf1" "spares lim buf buf1" using store_spares [of op lim buf b] Suc.prems by auto
  obtain buf' where "copy_run g lim n b (Suc op) buf1 = Inr (Suc op + n, buf')" "spares lim buf1 buf'"
    using Suc.IH [of "Suc op" buf1] Suc.prems b(2) by (auto simp: spares_def)
  then show ?case using b Suc.prems spares_trans by auto
qed simp

lemma copy_ref_spares:
  "op + n \<le> lim \<Longrightarrow> r + n \<le> lim \<Longrightarrow> lim \<le> length buf \<Longrightarrow> \<exists>buf'. copy_ref g lim n r op buf = Inr (op + n, buf') \<and> spares lim buf buf'"
proof (induction n arbitrary: r op buf)
  case (Suc n)
  obtain buf1 where b: "store_pixel g (buf ! r) op buf = Inr buf1" "spares lim buf buf1" using store_spares [of op lim buf "buf ! r"] Suc.prems by auto
  obtain buf' where "copy_ref g lim n (Suc r) (Suc op) buf1 = Inr (Suc op + n, buf')" "spares lim buf1 buf'"
    using Suc.IH [of "Suc op" "Suc r" buf1] Suc.prems b(2) by (auto simp: spares_def)
  then show ?case using b Suc.prems spares_trans by auto
qed simp

lemma store_all_spares:
  "op + length ps \<le> lim \<Longrightarrow> lim \<le> length buf \<Longrightarrow> \<exists>buf'. store_all g ps op buf = Inr (op + length ps, buf') \<and> spares lim buf buf'"
proof (induction ps arbitrary: op buf)
  case (Cons p ps)
  obtain buf1 where b: "store_pixel g p op buf = Inr buf1" "spares lim buf buf1" using store_spares [of op lim buf p] Cons.prems by auto
  obtain buf' where "store_all g ps (Suc op) buf1 = Inr (Suc op + length ps, buf')" "spares lim buf1 buf'"
    using Cons.IH [of "Suc op" buf1] Cons.prems b(2) by (auto simp: spares_def)
  then show ?case using b spares_trans by auto
qed simp

lemma copy_comp_safe:
  "op + n * unat (plt_scale g) \<le> lim \<Longrightarrow> lim \<le> length buf \<Longrightarrow>
    aborts_or (\<lambda>(op', buf', bs'). op' = op + n * unat (plt_scale g) \<and> spares lim buf buf' \<and> length bs' \<le> length bs) (copy_comp g lim n op buf bs)"
proof (induction n arbitrary: op buf bs)
  case (Suc n)
  show ?case unfolding copy_comp.simps
  proof (rule aborts_or_bind [OF reads])
    fix x :: "'q list \<times> u8 list"
    assume "case x of (ps, bs') \<Rightarrow> length ps = unat (plt_scale g) \<and> length bs' < length bs"
    then obtain ps bs1 where x: "x = (ps, bs1)" "length ps = unat (plt_scale g)" "length bs1 < length bs" by (cases x) auto
    obtain buf1 where b: "store_all g ps op buf = Inr (op + length ps, buf1)" "spares lim buf buf1"
      using store_all_spares [of op ps lim buf] Suc.prems x(2) by auto
    have "aborts_or (\<lambda>(op', buf', bs'). op' = op + length ps + n * unat (plt_scale g) \<and> spares lim buf1 buf' \<and> length bs' \<le> length bs1)
        (copy_comp g lim n (op + length ps) buf1 bs1)"
      using Suc.IH [of "op + length ps" buf1 bs1] Suc.prems b(2) x(2) by (simp add: spares_def)
    then have "aborts_or (\<lambda>(op', buf', bs'). op' = op + Suc n * unat (plt_scale g) \<and> spares lim buf buf' \<and> length bs' \<le> length bs)
        (copy_comp g lim n (op + length ps) buf1 bs1)"
      by (rule aborts_or_mono) (use b(2) x spares_trans in auto)
    then show "aborts_or (\<lambda>(op', buf', bs'). op' = op + Suc n * unat (plt_scale g) \<and> spares lim buf buf' \<and> length bs' \<le> length bs)
        (case x of (ps, bs) \<Rightarrow> rbind (store_all g ps op buf) (\<lambda>(op, buf). spice_assert (op \<le> lim) (copy_comp g lim n op buf bs)))"
      using x(1) b(1) by (auto intro: aborts_or_assert)
  qed
qed simp

lemma more_len_safe: "aborts_or (\<lambda>x. length (snd x) \<le> length bs) (more_len len bs)"
proof (induction bs arbitrary: len)
  case (Cons b bs)
  have "aborts_or (\<lambda>x. length (snd x) \<le> length (b # bs)) (more_len l bs)" for l
    by (rule aborts_or_mono [OF Cons]) simp
  then show ?case by simp
qed simp

lemma decode_safe: "aborts_or (\<lambda>x. length bs = Suc (length (snd x))) (decode bs)"
  by (cases bs) (simp_all add: decode_def)

lemma decode_match_safe: "aborts_or (\<lambda>x. length (snd (snd x)) \<le> length bs) (decode_match ctrl bs)"
proof -
  let ?len = "drop_bit 5 (ucast ctrl) - 1 :: u32"
  have "aborts_or (\<lambda>x. length (snd x) \<le> length bs) (if ?len = 7 - 1 then more_len ?len bs else Inr (?len, bs))"
    using more_len_safe by simp
  then show ?thesis unfolding decode_match_def Let_def
  proof (rule aborts_or_bind)
    fix x :: "u32 \<times> u8 list" assume x: "length (snd x) \<le> length bs"
    show "aborts_or (\<lambda>x. length (snd (snd x)) \<le> length bs) (case x of (len, bs) \<Rightarrow> rbind (decode bs) (\<lambda>(code, bs).
        if code = 255 \<and> push_bit 8 (ucast ctrl AND 31) + ucast code - ucast code = push_bit 8 31
        then rbind (decode bs) (\<lambda>(hi, bs). rbind (decode bs) (\<lambda>(lo, bs). Inr (len, push_bit 8 (ucast hi) + ucast lo + 8191, bs)))
        else Inr (len, push_bit 8 (ucast ctrl AND 31) + ucast code, bs)))"
      using x by (auto simp: decode_def split: prod.split list.split)
  qed
qed

lemma copy_match_safe:
  assumes "lim \<le> length buf" "op \<le> lim"
  shows "aborts_or (\<lambda>x. fst x \<le> lim \<and> spares lim buf (snd x)) (copy_match g lim len ofs op buf)"
proof -
  let ?n = "unat ((len + len_bias g) * plt_scale g)" and ?r = "int op - uint ((ofs + 1) * plt_scale g)"
  have u: "uint ((len + len_bias g) * plt_scale g) = int ?n" by simp
  have *: "aborts_or (\<lambda>x. fst x \<le> lim \<and> spares lim buf (snd x))
      (if ?r = int op - 1 then rbind (index_list buf ?r) (\<lambda>b. copy_run g lim ?n b op buf) else copy_ref g lim ?n (nat ?r) op buf)"
    if n: "op + ?n \<le> lim" and r: "?r + int ?n \<le> int lim" "0 \<le> ?r"
  proof (cases "?r = int op - 1")
    case True
    then have "0 < op" using r(2) by simp
    then have "index_list buf (int op - 1) = Inr (buf ! (op - 1))"
      using assms by (auto simp: index_list_def nat_diff_distrib)
    then show ?thesis unfolding if_P [OF True] unfolding True using copy_run_spares [OF n assms(1), of "buf ! (op - 1)"] n by auto
  next
    case False
    have "nat ?r + ?n \<le> lim" using r by linarith
    from copy_ref_spares [OF n this assms(1)] n show ?thesis unfolding if_not_P [OF False] by auto
  qed
  show ?thesis unfolding copy_match_def Let_def u by (intro aborts_or_assert *)
qed

lemma decompress_loop_safe:
  assumes lim: "lim \<le> length buf0"
  shows "length bs < fuel \<Longrightarrow> op \<le> lim \<Longrightarrow> spares lim buf0 buf \<Longrightarrow>
    aborts_or (\<lambda>x. fst x = lim \<and> spares lim buf0 (fst (snd x))) (decompress_loop g fuel lim ctrl op buf bs)"
proof (induction fuel arbitrary: ctrl op buf bs)
  case (Suc fuel)
  have len: "lim \<le> length buf" using lim Suc.prems(3) by (simp add: spares_def)
  have "aborts_or (\<lambda>x. fst x \<le> lim \<and> spares lim buf0 (fst (snd x)) \<and> length (snd (snd x)) \<le> length bs)
      (if unat ctrl \<ge> MAX_COPY
       then rbind (decode_match ctrl bs) (\<lambda>(len, ofs, bs). rbind (copy_match g lim len ofs op buf) (\<lambda>(op, buf). Inr (op, buf, bs)))
       else copy_literals g lim ctrl op buf bs)"
  proof (cases "unat ctrl \<ge> MAX_COPY")
    case True
    have "aborts_or (\<lambda>x. fst x \<le> lim \<and> spares lim buf0 (fst (snd x)) \<and> length (snd (snd x)) \<le> length bs)
        (rbind (copy_match g lim l ofs op buf) (\<lambda>(op, buf). Inr (op, buf, bs1)))" if "length bs1 \<le> length bs" for l ofs bs1
      by (rule aborts_or_bind [OF copy_match_safe [OF len Suc.prems(2)]]) (use that Suc.prems(3) spares_trans in auto)
    then show ?thesis unfolding if_P [OF True] by (intro aborts_or_bind [OF decode_match_safe]) auto
  next
    case False
    have "aborts_or (\<lambda>x. fst x \<le> lim \<and> spares lim buf0 (fst (snd x)) \<and> length (snd (snd x)) \<le> length bs) (copy_comp g lim (unat ctrl + 1) op buf bs)"
      if "op + (unat ctrl + 1) * unat (plt_scale g) \<le> lim"
      by (rule aborts_or_mono [OF copy_comp_safe [OF that len]]) (use that Suc.prems(3) spares_trans in auto)
    then show ?thesis unfolding if_not_P [OF False] copy_literals_def Let_def by (intro aborts_or_assert)
  qed
  then show ?case unfolding decompress_loop.simps
  proof (rule aborts_or_bind)
    fix x :: "nat \<times> 'q list \<times> u8 list"
    assume "fst x \<le> lim \<and> spares lim buf0 (fst (snd x)) \<and> length (snd (snd x)) \<le> length bs"
    then obtain op1 buf1 bs1 where x: "x = (op1, buf1, bs1)" "op1 \<le> lim" "spares lim buf0 buf1" "length bs1 \<le> length bs" by (cases x) auto
    have "aborts_or (\<lambda>x. fst x = lim \<and> spares lim buf0 (fst (snd x))) (rbind (decode bs1) (\<lambda>(ctrl, bs). decompress_loop g fuel lim ctrl op1 buf1 bs))"
      by (rule aborts_or_bind [OF decode_safe]) (use Suc x in auto)
    then show "aborts_or (\<lambda>x. fst x = lim \<and> spares lim buf0 (fst (snd x))) (case x of (op, buf, bs) \<Rightarrow>
        if op < lim then rbind (decode bs) (\<lambda>(ctrl, bs). decompress_loop g fuel lim ctrl op buf bs) else Inr (op, buf, bs))"
      using x by simp
  qed
qed simp

lemma decompress_safe:
  "lim \<le> length buf \<Longrightarrow> aborts_or (\<lambda>x. fst x = lim \<and> spares lim buf (fst (snd x))) (lz_decompress g buf lim bs)"
  unfolding lz_decompress_def
proof (rule aborts_or_bind [OF decode_safe])
  fix x :: "u8 \<times> u8 list"
  assume lim: "lim \<le> length buf"
  show "aborts_or (\<lambda>x. fst x = lim \<and> spares lim buf (fst (snd x))) (case x of (ctrl, bs) \<Rightarrow> decompress_loop g (Suc (length bs)) lim ctrl 0 buf bs)"
    using decompress_loop_safe [OF lim, of "snd x" "Suc (length (snd x))" 0 buf "fst x"]
    by (simp add: case_prod_beta del: decompress_loop.simps)
qed

lemma decompress_into_safe:
  assumes cast: "pixel_cast as of_ps bpp" and room: "bpp * unat n_pix \<le> length buf"
  shows "aborts_or (\<lambda>x. fst x = n_pix \<and> length (fst (snd x)) = length buf) (decompress_into g as of_ps n_pix buf io)"
proof -
  have as: "length (as buf) = length buf div bpp" by (rule pixel_cast.length_as [OF cast])
  have "unat n_pix \<le> length (as buf)" unfolding as using room pixel_cast.bpp(1) [OF cast] by (simp add: less_eq_div_iff_mult_less_eq mult.commute)
  from decompress_safe [OF this, of io]
  have "aborts_or (\<lambda>x. fst x = n_pix \<and> length (fst (snd x)) = length buf)
      (rbind (lz_decompress g (as buf) (unat n_pix) io) (\<lambda>(n, ps, io). Inr (of_nat n, of_ps ps @ drop (length (of_ps ps)) buf, io)))"
  proof (rule aborts_or_bind)
    fix x :: "nat \<times> 'q list \<times> u8 list"
    assume x: "fst x = unat n_pix \<and> spares (unat n_pix) (as buf) (fst (snd x))"
    then have "length (of_ps (fst (snd x))) \<le> length buf"
      unfolding spares_def pixel_cast.length_of [OF cast] as by simp
    then show "aborts_or (\<lambda>x. fst x = n_pix \<and> length (fst (snd x)) = length buf)
        (case x of (n, ps, io) \<Rightarrow> Inr (of_nat n, of_ps ps @ drop (length (of_ps ps)) buf, io))"
      using x by (simp add: case_prod_beta)
  qed
  then show ?thesis by (simp add: decompress_into_def)
qed

end

lemma aborts_or_decode_bytes:
  "aborts_or (\<lambda>(ps, bs'). length ps = Suc 0 \<and> length bs' < length bs) (rbind (decode bs) (\<lambda>(a, bs). Inr ([h a], bs)))"
  "aborts_or (\<lambda>(ps, bs'). length ps = Suc 0 \<and> length bs' < length bs) (rbind (decode bs) (\<lambda>(a, bs). rbind (decode bs) (\<lambda>(b, bs). Inr ([h2 a b], bs))))"
  "aborts_or (\<lambda>(ps, bs'). length ps = Suc 0 \<and> length bs' < length bs)
    (rbind (decode bs) (\<lambda>(a, bs). rbind (decode bs) (\<lambda>(b, bs). rbind (decode bs) (\<lambda>(c, bs). Inr ([h3 a b c], bs)))))"
  by (auto simp: decode_def split: list.split)

interpretation plt_reader: lz_reader plt_output
  by unfold_locales (simp add: plt_output_def aborts_or_decode_bytes)

interpretation rgb16_reader: lz_reader rgb16_output
  by unfold_locales (simp add: rgb16_output_def aborts_or_decode_bytes)

interpretation rgb24_reader: lz_reader rgb24_output
  by unfold_locales (simp add: rgb24_output_def aborts_or_decode_bytes)

interpretation rgb32_reader: lz_reader rgb32_output
  by unfold_locales (simp add: rgb32_output_def aborts_or_decode_bytes)

interpretation alpha_reader: lz_reader rgb_alpha_output
  by unfold_locales (simp add: rgb_alpha_output_def aborts_or_decode_bytes)

interpretation a8_rgb32_reader: lz_reader a8_to_rgb32_output
  by unfold_locales (simp add: a8_to_rgb32_output_def aborts_or_decode_bytes)

interpretation rgb16_rgb32_reader: lz_reader rgb16_to_rgb32_output
  by unfold_locales (simp add: rgb16_to_rgb32_output_def aborts_or_decode_bytes)

text \<open>With a palette that has an entry for every byte.\<close>

definition full_palette :: "u32 \<Rightarrow> spice_palette \<Rightarrow> bool" where
  "full_palette type palette \<longleftrightarrow>
     (if type = LZ_IMAGE_TYPE_PLT8 then 256 \<le> length (ents palette)
      else if type \<in> {LZ_IMAGE_TYPE_PLT4_LE, LZ_IMAGE_TYPE_PLT4_BE} then 0 < num_ents palette \<and> unat (num_ents palette) \<le> length (ents palette)
      else 2 \<le> length (ents palette))"

lemma full_palette_indexed:
  "full_palette 5 palette \<Longrightarrow> indexed8 palette b" "full_palette 3 palette \<Longrightarrow> indexed4 palette b" "full_palette 4 palette \<Longrightarrow> indexed4 palette b"
  "full_palette 1 palette \<Longrightarrow> indexed1 palette b" "full_palette 2 palette \<Longrightarrow> indexed1 palette b"
  using unsigned_less [of b, where ?'a = nat] by (simp_all add: full_palette_def indexed8_def indexed4_def indexed1_def)

lemma plt_reader:
  assumes "\<And>b. pixels b = Inr (px b) \<and> length (px b) = unat scale"
  shows "lz_reader (plt_to_rgb32_output pixels scale)"
  by unfold_locales (use assms in \<open>auto simp: plt_to_rgb32_output_def decode_def split: list.split\<close>)

lemma full_palette_reader:
  "full_palette 1 palette \<Longrightarrow> lz_reader (plt1_le_to_rgb32_output palette)" "full_palette 2 palette \<Longrightarrow> lz_reader (plt1_be_to_rgb32_output palette)"
  "full_palette 3 palette \<Longrightarrow> lz_reader (plt4_le_to_rgb32_output palette)" "full_palette 4 palette \<Longrightarrow> lz_reader (plt4_be_to_rgb32_output palette)"
  "full_palette 5 palette \<Longrightarrow> lz_reader (plt8_to_rgb32_output palette)"
  unfolding plt1_le_to_rgb32_output_def plt1_be_to_rgb32_output_def plt4_le_to_rgb32_output_def plt4_be_to_rgb32_output_def plt8_to_rgb32_output_def
    plt1_le_pixels_def plt1_be_pixels_def
  by (rule plt_reader, use indexed8_pixels indexed4_pixels indexed1_pixels full_palette_indexed in fastforce)+


section \<open>The decoder\<close>

text \<open>The bytes that the caller's buffer must have, as the callers compute them from \<open>lz_decode_begin\<close>'s results.\<close>

definition decode_room :: "lz_decoder \<Rightarrow> u32 \<Rightarrow> nat" where
  "decode_room d to_type =
     (if dec_type d \<in> {1, 2, 3, 4, 5} then
        if to_type = dec_type d then unat (dec_height d * dec_stride d)
        else 4 * unat (dec_height d * dec_stride d * (if dec_type d \<in> {1, 2} then 8 else if dec_type d \<in> {3, 4} then 2 else 1))
      else (if to_type = LZ_IMAGE_TYPE_RGB16 then 2 else if to_type = LZ_IMAGE_TYPE_RGB24 then 3 else if to_type = LZ_IMAGE_TYPE_A8 then 1 else 4) *
        unat (dec_height d * dec_width d))"

lemma aborts_or_size:
  "aborts_or (\<lambda>x. fst x = n \<and> length (fst (snd x)) = m) r \<Longrightarrow> aborts_or (\<lambda>x. length (fst (snd (snd x))) = m) (rbind r (\<lambda>r. Inr (n, r)))"
  by (erule aborts_or_bind) simp

lemma plt_decode_safe:
  assumes type: "dec_type d \<in> {1, 2, 3, 4, 5}" and room: "decode_room d to_type \<le> length buf"
    and palette: "\<forall>palette. dec_palette d = Some palette \<longrightarrow> full_palette (dec_type d) palette"
  shows "aborts_or (\<lambda>x. length (fst (snd (snd x))) = length buf) (plt_decode d to_type buf)"
proof (cases "to_type = dec_type d")
  case True
  then have "1 * unat (dec_height d * dec_stride d) \<le> length buf" using type room by (auto simp: decode_room_def)
  from aborts_or_size [OF plt_reader.decompress_into_safe [OF cast8.pixel_cast_axioms this]] show ?thesis using True by (simp add: plt_decode_def Let_def)
next
  case False
  note safe = aborts_or_size [OF lz_reader.decompress_into_safe [OF _ cast32.pixel_cast_axioms]]
  show ?thesis
  proof (cases "to_type = 8 \<and> dec_palette d \<noteq> None")
    case no: False
    then show ?thesis using False type by (auto simp: plt_decode_def pixels_per_byte Let_def simp del: index_list_uint)
  next
    case yes: True
    then obtain palette where p: "dec_palette d = Some palette" "full_palette (dec_type d) palette" using palette by auto
    from type False yes p room show ?thesis
      by (elim insertE emptyE)
        (auto simp: plt_decode_def pixels_per_byte decode_room_def Let_def simp del: index_list_uint intro!: safe dest: full_palette_reader)
  qed
qed

lemma rgb_decode_safe:
  assumes type: "dec_type d \<in> {0, 6, 7, 8, 9, 10, 11}" and room: "decode_room d to_type \<le> length buf"
  shows "aborts_or (\<lambda>x. length (fst (snd (snd x))) = length buf) (rgb_decode d to_type buf)"
proof -
  let ?n = "dec_height d * dec_width d"
  consider "dec_type d = 0" | "dec_type d = 6" | "dec_type d = 7" | "dec_type d = 8" | "dec_type d = 9" | "dec_type d = 10" | "dec_type d = 11" using type by auto
  then show ?thesis
  proof cases
    case 1
    then show ?thesis by (simp add: rgb_decode_def Let_def)
  next
    case 2
    then show ?thesis using room aborts_or_size [OF rgb16_reader.decompress_into_safe [OF cast16.pixel_cast_axioms, of ?n buf]]
      aborts_or_size [OF rgb16_rgb32_reader.decompress_into_safe [OF cast32.pixel_cast_axioms, of ?n buf]]
      by (auto simp: rgb_decode_def decode_room_def Let_def)
  next
    case 3
    then show ?thesis using room aborts_or_size [OF rgb24_reader.decompress_into_safe [OF cast24.pixel_cast_axioms, of ?n buf]]
      aborts_or_size [OF rgb32_reader.decompress_into_safe [OF cast32.pixel_cast_axioms, of ?n buf]]
      by (auto simp: rgb_decode_def decode_room_def Let_def)
  next
    case 4
    then show ?thesis using room aborts_or_size [OF rgb32_reader.decompress_into_safe [OF cast32.pixel_cast_axioms, of ?n buf]]
      by (auto simp: rgb_decode_def decode_room_def Let_def)
  next
    case 5
    have "aborts_or (\<lambda>x. length (fst (snd (snd x))) = length buf)
        (rbind (decompress_into rgb32_output as_rgb32 of_rgb32 ?n buf (dec_io d)) (\<lambda>(out_size, buf, io).
         rbind (decompress_into rgb_alpha_output as_rgb32 of_rgb32 ?n buf io) (\<lambda>(alpha_size, buf, io).
         spice_assert (alpha_size = ?n) (Inr (?n, out_size, buf, io)))))" if n: "4 * unat ?n \<le> length buf"
    proof (rule aborts_or_bind [OF rgb32_reader.decompress_into_safe [OF cast32.pixel_cast_axioms n]])
      fix x :: "u32 \<times> u8 list \<times> u8 list"
      assume x: "fst x = ?n \<and> length (fst (snd x)) = length buf"
      then have m: "4 * unat ?n \<le> length (fst (snd x))" using n by simp
      show "aborts_or (\<lambda>x. length (fst (snd (snd x))) = length buf) (case x of (out_size, buf, io) \<Rightarrow>
         rbind (decompress_into rgb_alpha_output as_rgb32 of_rgb32 ?n buf io) (\<lambda>(alpha_size, buf, io).
         spice_assert (alpha_size = ?n) (Inr (?n, out_size, buf, io))))"
        unfolding case_prod_beta
        by (rule aborts_or_bind [OF alpha_reader.decompress_into_safe [OF cast32.pixel_cast_axioms m]]) (use x in \<open>simp add: case_prod_beta\<close>)
    qed
    then show ?thesis using 5 room by (auto simp: rgb_decode_def decode_room_def Let_def)
  next
    case 6
    then show ?thesis using room aborts_or_size [OF alpha_reader.decompress_into_safe [OF cast32.pixel_cast_axioms, of ?n buf]]
      by (auto simp: rgb_decode_def decode_room_def Let_def)
  next
    case 7
    then show ?thesis using room aborts_or_size [OF plt_reader.decompress_into_safe [OF cast8.pixel_cast_axioms, of ?n buf]]
      aborts_or_size [OF a8_rgb32_reader.decompress_into_safe [OF cast32.pixel_cast_axioms, of ?n buf]]
      by (auto simp: rgb_decode_def decode_room_def Let_def)
  qed
qed



text \<open>
  C29: The type in the header is used as an index of \<open>IS_IMAGE_TYPE_PLT\<close> before it is looked at: a header with any type that is not one of the
  enumeration reads outside the table. And the bytes of an 8-bit palette image are used as indices of the palette's entries without a check: a byte with no entry reads
  outside the palette.
\<close>

theorem lz_decode_overreads:
  assumes "11 < type" and "length (ents p) \<le> unat byte"
  shows "lz_decode_begin stale palette (lz_header type width height stride top_down @ io) = Inl OutOfBounds \<and>
    lz_decode \<lparr>dec_type = 5, dec_width = 1, dec_height = 1, dec_stride = 1, dec_palette = Some p, dec_io = [0, byte]\<rparr> 8 [x, y, z, w] = Inl OutOfBounds"
proof
  have "\<not> unat type < length IS_IMAGE_TYPE_PLT" using assms(1) by (simp add: IS_IMAGE_TYPE_PLT_def word_less_nat_alt)
  then show "lz_decode_begin stale palette (lz_header type width height stride top_down @ io) = Inl OutOfBounds"
    by (simp add: lz_decode_begin_def decode_32_be_bytes Let_def)
  have "plt8_pixels p byte = Inl OutOfBounds" using assms(2) by (simp add: plt8_pixels_def)
  then show "lz_decode \<lparr>dec_type = 5, dec_width = 1, dec_height = 1, dec_stride = 1, dec_palette = Some p, dec_io = [0, byte]\<rparr> 8 [x, y, z, w] = Inl OutOfBounds"
    by (simp add: lz_decode_def plt_decode_def IS_IMAGE_TYPE_PLT_def PLT_PIXELS_PER_BYTE_def index_list_def decompress_into_def lz_decompress_def
        copy_literals_def plt8_to_rgb32_output_def plt_to_rgb32_output_def Let_def)
qed

theorem lz_decode_overreads_witness:
  "lz_decode_begin None None (lz_header 12 1 1 1 1 @ []) = Inl OutOfBounds \<and>
    lz_decode \<lparr>dec_type = 5, dec_width = 1, dec_height = 1, dec_stride = 1, dec_palette = Some \<lparr>pal_unique = 0, num_ents = 2, ents = [0, 0xffffff]\<rparr>,
      dec_io = [0, 7]\<rparr> 8 [0, 0, 0, 0] = Inl OutOfBounds"
  by (rule lz_decode_overreads) (simp_all add: word_less_nat_alt)

end
