(* ===== verification/Lz_Pool.thy ===== *)
theory Lz_Pool
  imports Prelude
begin

text \<open>
  The LZ encoder's pool of image segments (spice-common/common/lz.c): segments in use and free ones, on two linked lists, here lists of addresses; \<open>seg_heap\<close>
  are the segments that the user context's \<open>malloc\<close> gave out and its \<open>free\<close> did not get back. An answer of \<open>malloc\<close> is an argument.
\<close>

record lz_pool =
  head_image_segs :: "nat list"
  free_image_segs :: "nat list"
  seg_heap :: "nat list"

definition init_encoder :: lz_pool where
  "init_encoder = \<lparr>head_image_segs = [], free_image_segs = [], seg_heap = []\<rparr>"

definition lz_alloc_image_seg :: "nat option \<Rightarrow> lz_pool \<Rightarrow> nat option \<times> lz_pool" where
  "lz_alloc_image_seg malloc p = (case free_image_segs p of
     s # free \<Rightarrow> (Some s, p\<lparr>free_image_segs := free, head_image_segs := head_image_segs p @ [s]\<rparr>)
   | [] \<Rightarrow> (case malloc of
       None \<Rightarrow> (None, p)
     | Some s \<Rightarrow> (Some s, p\<lparr>seg_heap := s # seg_heap p, head_image_segs := head_image_segs p @ [s]\<rparr>)))"

definition lz_free_image_seg :: "nat \<Rightarrow> lz_pool \<Rightarrow> lz_pool" where
  "lz_free_image_seg s p = p\<lparr>free_image_segs := s # free_image_segs p\<rparr>"

function lz_reset_image_seg :: "lz_pool \<Rightarrow> lz_pool" where
  "lz_reset_image_seg p = (case head_image_segs p of
     [] \<Rightarrow> p
   | s # segs \<Rightarrow> lz_reset_image_seg (lz_free_image_seg s (p\<lparr>head_image_segs := segs\<rparr>)))"
  by pat_completeness auto
termination by (relation "measure (\<lambda>p. length (head_image_segs p))") (auto simp: lz_free_image_seg_def)

declare lz_reset_image_seg.simps [simp del]

text \<open>\<open>free\<close> of an address that is not allocated is an error.\<close>

function lz_dealloc_free_segments :: "lz_pool \<Rightarrow> lz_pool res" where
  "lz_dealloc_free_segments p = (case free_image_segs p of
     [] \<Rightarrow> Inr p
   | s # segs \<Rightarrow> if s \<in> set (seg_heap p)
       then lz_dealloc_free_segments (p\<lparr>free_image_segs := segs, seg_heap := remove1 s (seg_heap p)\<rparr>) else Inl NullDeref)"
  by pat_completeness auto
termination by (relation "measure (\<lambda>p. length (free_image_segs p))") auto

declare lz_dealloc_free_segments.simps [simp del]

text \<open>
  The segments of an image, one allocation for each: whether it succeeds. It starts with a check that no segment is in use, which aborts at the
  default level.
\<close>

fun alloc_image_segs :: "nat option list \<Rightarrow> lz_pool \<Rightarrow> bool \<times> lz_pool" where
  "alloc_image_segs [] p = (True, p)"
| "alloc_image_segs (malloc # mallocs) p = (case lz_alloc_image_seg malloc p of
     (None, p) \<Rightarrow> (False, lz_reset_image_seg p)
   | (Some s, p) \<Rightarrow> alloc_image_segs mallocs p)"

definition read_image_segments :: "nat option list \<Rightarrow> lz_pool \<Rightarrow> (bool \<times> lz_pool) res" where
  "read_image_segments mallocs p = spice_assert (head_image_segs p = []) (Inr (alloc_image_segs mallocs p))"

text \<open>An image: its segments, and their return to the pool after the compression.\<close>

definition encode_image_segs :: "nat option list \<Rightarrow> lz_pool \<Rightarrow> lz_pool res" where
  "encode_image_segs mallocs p = rbind (read_image_segments mallocs p) (\<lambda>(ok, p). spice_assert ok (Inr (lz_reset_image_seg p)))"

definition lz_destroy :: "lz_pool \<Rightarrow> lz_pool res" where
  "lz_destroy p = spice_assert (head_image_segs p = []) (lz_dealloc_free_segments p)"


section \<open>The pool's invariant\<close>

text \<open>Every segment allocated is on exactly one of the lists, once.\<close>

definition seg_pool_ok :: "lz_pool \<Rightarrow> bool" where
  "seg_pool_ok p \<longleftrightarrow> distinct (head_image_segs p @ free_image_segs p) \<and> distinct (seg_heap p) \<and>
     set (seg_heap p) = set (head_image_segs p @ free_image_segs p)"

lemma alloc_pool_ok:
  assumes "seg_pool_ok p" "\<forall>s. malloc = Some s \<longrightarrow> s \<notin> set (seg_heap p)"
  shows "seg_pool_ok (snd (lz_alloc_image_seg malloc p))"
  using assms by (auto simp: lz_alloc_image_seg_def seg_pool_ok_def split: list.split option.split)

lemma reset_eq: "lz_reset_image_seg p = p\<lparr>head_image_segs := [], free_image_segs := rev (head_image_segs p) @ free_image_segs p\<rparr>"
proof (induction p rule: lz_reset_image_seg.induct)
  case (1 p)
  show ?case
  proof (cases "head_image_segs p")
    case Nil
    then show ?thesis by (subst lz_reset_image_seg.simps) simp
  next
    case (Cons s segs)
    then show ?thesis using "1" by (subst lz_reset_image_seg.simps) (simp add: lz_free_image_seg_def)
  qed
qed

lemma reset_pool_ok: "seg_pool_ok p \<Longrightarrow> seg_pool_ok (lz_reset_image_seg p)"
  by (auto simp: reset_eq seg_pool_ok_def)

text \<open>Answers of \<open>malloc\<close>: an address that is not allocated, or none.\<close>

fun fresh_answers :: "nat option list \<Rightarrow> lz_pool \<Rightarrow> bool" where
  "fresh_answers [] p = True"
| "fresh_answers (malloc # mallocs) p \<longleftrightarrow> (\<forall>s. malloc = Some s \<longrightarrow> s \<notin> set (seg_heap p)) \<and> fresh_answers mallocs (snd (lz_alloc_image_seg malloc p))"

lemma alloc_segs_pool_ok: "seg_pool_ok p \<Longrightarrow> fresh_answers mallocs p \<Longrightarrow> seg_pool_ok (snd (alloc_image_segs mallocs p))"
proof (induction mallocs arbitrary: p)
  case (Cons malloc mallocs)
  have "seg_pool_ok (snd (lz_alloc_image_seg malloc p))" using Cons.prems by (intro alloc_pool_ok) auto
  then show ?case using Cons by (auto split: prod.split option.split intro: reset_pool_ok)
qed simp

text \<open>An encoder with no segment in use between images.\<close>

definition pool_idle :: "lz_pool \<Rightarrow> bool" where
  "pool_idle p \<longleftrightarrow> seg_pool_ok p \<and> head_image_segs p = []"

lemma encode_pool_idle:
  assumes "pool_idle p" "fresh_answers mallocs p" "encode_image_segs mallocs p = Inr p'"
  shows "pool_idle p'"
proof -
  have "p' = lz_reset_image_seg (snd (alloc_image_segs mallocs p))" using assms(3) by (auto simp: encode_image_segs_def read_image_segments_def case_prod_beta)
  moreover have "seg_pool_ok (snd (alloc_image_segs mallocs p))" using assms(1,2) by (intro alloc_segs_pool_ok) (simp_all add: pool_idle_def)
  ultimately show ?thesis using reset_pool_ok by (simp add: pool_idle_def reset_eq)
qed

lemma dealloc_all: "pool_idle p \<Longrightarrow> lz_dealloc_free_segments p = Inr init_encoder"
proof (induction p rule: lz_dealloc_free_segments.induct)
  case (1 p)
  show ?case
  proof (cases "free_image_segs p")
    case Nil
    then have "p = init_encoder" using "1.prems" by (cases p) (simp add: pool_idle_def seg_pool_ok_def init_encoder_def)
    then show ?thesis using Nil by (subst lz_dealloc_free_segments.simps) simp
  next
    case (Cons s segs)
    have s: "s \<in> set (seg_heap p)" using "1.prems" Cons by (auto simp: pool_idle_def seg_pool_ok_def)
    have "pool_idle (p\<lparr>free_image_segs := segs, seg_heap := remove1 s (seg_heap p)\<rparr>)"
      using "1.prems" Cons by (auto simp: pool_idle_def seg_pool_ok_def)
    then show ?thesis using "1.IH" [OF Cons s] Cons s by (subst lz_dealloc_free_segments.simps) simp
  qed
qed

text \<open>A life of the encoder: images one after the other, then its end.\<close>

fun encode_images :: "nat option list list \<Rightarrow> lz_pool \<Rightarrow> lz_pool res" where
  "encode_images [] p = Inr p"
| "encode_images (mallocs # images) p = rbind (encode_image_segs mallocs p) (encode_images images)"

fun fresh_lives :: "nat option list list \<Rightarrow> lz_pool \<Rightarrow> bool" where
  "fresh_lives [] p = True"
| "fresh_lives (mallocs # images) p \<longleftrightarrow> fresh_answers mallocs p \<and> (case encode_image_segs mallocs p of Inl e \<Rightarrow> True | Inr p' \<Rightarrow> fresh_lives images p')"

lemma encode_images_idle: "pool_idle p \<Longrightarrow> fresh_lives images p \<Longrightarrow> encode_images images p = Inr p' \<Longrightarrow> pool_idle p'"
proof (induction images arbitrary: p)
  case (Cons mallocs images)
  obtain p1 where p1: "encode_image_segs mallocs p = Inr p1" "encode_images images p1 = Inr p'" using Cons.prems(3) by auto
  then have "pool_idle p1" "fresh_lives images p1" using Cons.prems encode_pool_idle by auto
  then show ?case using Cons.IH p1(2) by blast
qed simp

text \<open>
  However many images an encoder compresses, its segments are never lost and never freed twice: when \<open>lz_destroy\<close> comes, it frees each segment
  that was allocated, once, and nothing is left.
\<close>

theorem lz_destroy_frees_all:
  assumes "fresh_lives images init_encoder" and "encode_images images init_encoder = Inr p"
  shows "lz_destroy p = Inr init_encoder"
proof -
  have "pool_idle init_encoder" by (simp add: pool_idle_def seg_pool_ok_def init_encoder_def)
  then have "pool_idle p" using assms by (rule encode_images_idle)
  then show ?thesis using dealloc_all by (simp add: lz_destroy_def pool_idle_def)
qed

text \<open>An image of three segments, then one of four that uses those three again.\<close>

theorem lz_destroy_frees_all_witness:
  "lz_destroy \<lparr>head_image_segs = [], free_image_segs = [4, 1, 2, 3], seg_heap = [4, 3, 2, 1]\<rparr> = Inr init_encoder"
  by (rule lz_destroy_frees_all [of "[[Some 1, Some 2, Some 3], [None, None, None, Some 4]]"])
    (simp_all add: encode_image_segs_def read_image_segments_def lz_alloc_image_seg_def reset_eq init_encoder_def)

end
