(* ===== verification/Qxl_Guest.thy ===== *)
theory Qxl_Guest
  imports Memslots
begin

text \<open>
  The memory a guest shares with the server, as server/red_parse_qxl.c reads it. The guest runs while the server
  reads: every byte read is read at a time of its own, and \<open>g_mem\<close> says what the memory holds
  at each time. Parsing threads the time and may stop with an error. A read that is not inside a slot of the command's
  group is the error \<open>OutOfBounds\<close>. Host pointers are integers, NULL is 0.
\<close>

section \<open>Reading guest memory\<close>

record guest =
  g_fatal :: bool
  g_info :: red_mem_slot_info
  g_group :: u32
  g_mem :: "nat \<Rightarrow> mem"

type_synonym 'a parse = "nat \<Rightarrow> ('a \<times> nat) res"

definition pret :: "'a \<Rightarrow> 'a parse" where
  "pret x t = Inr (x, t)"

definition pbind :: "'a parse \<Rightarrow> ('a \<Rightarrow> 'b parse) \<Rightarrow> 'b parse" where
  "pbind m f t = rbind (m t) (\<lambda>(x, t). f x t)"

definition pres :: "'a res \<Rightarrow> 'a parse" where
  "pres r t = rbind r (\<lambda>x. Inr (x, t))"

definition passert :: "bool \<Rightarrow> 'a parse \<Rightarrow> 'a parse" where
  "passert b m t = spice_assert b (m t)"

definition in_guest :: "guest \<Rightarrow> int \<Rightarrow> nat \<Rightarrow> bool" where
  "in_guest G a n \<longleftrightarrow> n = 0 \<or>
     list_ex (\<lambda>slot. uint (virt_start_addr slot) \<le> a \<and> a + int n \<le> uint (virt_end_addr slot)) (mem_slots (g_info G) ! unat (g_group G))"

definition rd_bytes :: "guest \<Rightarrow> int \<Rightarrow> nat \<Rightarrow> u8 list parse" where
  "rd_bytes G a n t = (if in_guest G a n then Inr (map (\<lambda>i. g_mem G (t + i) (a + int i)) [0..<n], t + n) else Inl OutOfBounds)"

definition rd :: "guest \<Rightarrow> int \<Rightarrow> 'w::len word parse" where
  "rd G a = pbind (rd_bytes G a (LENGTH('w) div 8)) (\<lambda>bs. pret (le_bytes bs))"

fun prepeat :: "(nat \<Rightarrow> 'a parse) \<Rightarrow> nat \<Rightarrow> nat \<Rightarrow> 'a list parse" where
  "prepeat f i 0 = pret []"
| "prepeat f i (Suc n) = pbind (f i) (\<lambda>x. pbind (prepeat f (Suc i) n) (\<lambda>xs. pret (x # xs)))"

text \<open>The calls of red_memslots.c, for the group of the command.\<close>

definition g_virt :: "guest \<Rightarrow> u64 \<Rightarrow> u32 \<Rightarrow> (int \<times> bool) parse" where
  "g_virt G addr n = pres (rbind (get_virt (g_fatal G) (g_info G) addr n (g_group G)) (\<lambda>(v, e). Inr (uint v, e)))"

definition g_valid :: "guest \<Rightarrow> int \<Rightarrow> u32 \<Rightarrow> u32 \<Rightarrow> bool parse" where
  "g_valid G a slot_id n = pres (validate_virt (g_fatal G) (g_info G) (of_int a) slot_id n (g_group G))"

definition g_slot :: "guest \<Rightarrow> u64 \<Rightarrow> u32 parse" where
  "g_slot G addr = pres (get_memslot_id (g_info G) addr)"

text \<open>
  The tables the server makes: well-formed, with the group of the command, and with a slot for each number that
  fits the bits of an address. Without the last, \<open>get_virt\<close> reads the row of the table at its end.
\<close>

definition guest_ok :: "guest \<Rightarrow> bool" where
  "guest_ok G \<longleftrightarrow> memslots_wf (g_info G) \<and> g_group G < num_memslots_groups (g_info G) \<and>
     2 ^ unat (mem_slot_bits (g_info G)) \<le> unat (num_memslots (g_info G))"


section \<open>Parsing that never leaves the guest's memory\<close>

definition safe :: "('a \<Rightarrow> bool) \<Rightarrow> 'a parse \<Rightarrow> bool" where
  "safe P m \<longleftrightarrow> (\<forall>t. aborts_or (\<lambda>(x, t'). P x) (m t))"

named_theorems safe_rules \<open>how a parser is safe when its parts are\<close>

lemma pbind_cong [fundef_cong]: "m = m' \<Longrightarrow> (\<And>x. f x = f' x) \<Longrightarrow> pbind m f = pbind m' f'"
  by (simp add: pbind_def fun_eq_iff)

lemma pret_bind [simp]: "pbind (pret x) f = f x"
  by (simp add: pbind_def pret_def fun_eq_iff)

lemma parse_apply: "pbind m f t = rbind (m t) (\<lambda>(x, t). f x t)" "pret x t = Inr (x, t)" "pres (Inr x) t = Inr (x, t)" "pres (Inl e) t = Inl e"
  by (simp_all add: pbind_def pret_def pres_def)

lemma pbind_pret [simp]: "pbind m pret = m"
  by (auto simp: fun_eq_iff pbind_def pret_def rbind_def split: sum.split)

lemma safe_pret [safe_rules]: "P x \<Longrightarrow> safe P (pret x)"
  by (simp add: safe_def parse_apply)

lemma safe_bind: "safe P m \<Longrightarrow> (\<And>x. P x \<Longrightarrow> safe Q (f x)) \<Longrightarrow> safe Q (pbind m f)"
  by (auto simp: safe_def parse_apply pbind_def intro!: aborts_or_bind [where P = "\<lambda>(x, t'). P x"])

lemma safe_passert [safe_rules]: "(b \<Longrightarrow> safe P m) \<Longrightarrow> safe P (passert b m)"
  by (simp add: safe_def parse_apply passert_def aborts_or_assert)

lemma safe_if [safe_rules]: "(b \<Longrightarrow> safe P m) \<Longrightarrow> (\<not> b \<Longrightarrow> safe P m') \<Longrightarrow> safe P (if b then m else m')"
  by simp

lemma safe_pair [safe_rules]: "(\<And>a b. p = (a, b) \<Longrightarrow> safe P (f a b)) \<Longrightarrow> safe P (case p of (a, b) \<Rightarrow> f a b)"
  by (cases p) simp

lemma safe_option [safe_rules]:
  "(x = None \<Longrightarrow> safe P m) \<Longrightarrow> (\<And>a. x = Some a \<Longrightarrow> safe P (f a)) \<Longrightarrow> safe P (case x of None \<Rightarrow> m | Some a \<Rightarrow> f a)"
  by (cases x) simp_all

lemma safe_mono: "safe P m \<Longrightarrow> (\<And>x. P x \<Longrightarrow> Q x) \<Longrightarrow> safe Q m"
  unfolding safe_def by (fastforce elim: aborts_or_mono)

lemma safe_at: "safe P m \<Longrightarrow> (\<And>x t'. P x \<Longrightarrow> R (x, t')) \<Longrightarrow> aborts_or R (m t)"
  by (auto simp: safe_def parse_apply intro: aborts_or_mono)

lemma safe_conj: "safe P m \<Longrightarrow> safe Q m \<Longrightarrow> safe (\<lambda>x. P x \<and> Q x) m"
  unfolding safe_def aborts_or_def by (fastforce split: sum.splits)

lemma safe_rd_bytes: "in_guest G a n \<Longrightarrow> safe (\<lambda>bs. length bs = n) (rd_bytes G a n)"
  by (simp add: safe_def parse_apply rd_bytes_def)

lemma safe_rd: "in_guest G a (LENGTH('w::len) div 8) \<Longrightarrow> safe (\<lambda>_ :: 'w word. True) (rd G a)"
  unfolding rd_def by (rule safe_bind [OF safe_rd_bytes]) (simp_all add: safe_pret)

lemma safe_prepeat:
  "(\<And>i. a \<le> i \<Longrightarrow> i < a + n \<Longrightarrow> safe P (f i)) \<Longrightarrow> safe (\<lambda>xs. length xs = n \<and> list_all P xs) (prepeat f a n)"
proof (induction n arbitrary: a)
  case (Suc n)
  have "safe (\<lambda>xs. length xs = n \<and> list_all P xs) (prepeat f (Suc a) n)" by (rule Suc.IH) (use Suc.prems in auto)
  then show ?case unfolding prepeat.simps
    by (intro safe_bind [where P = P] safe_bind [where P = "\<lambda>xs. length xs = n \<and> list_all P xs"] safe_pret Suc.prems) auto
qed (simp add: safe_pret)

lemma in_guest_0 [simp]: "in_guest G a 0"
  by (simp add: in_guest_def)

lemma in_guest_sub: "in_guest G a n \<Longrightarrow> a \<le> b \<Longrightarrow> b + int m \<le> a + int n \<Longrightarrow> in_guest G b m"
  by (auto simp: in_guest_def list_ex_iff intro: order_trans)


section \<open>What the slot table promises\<close>

lemma addr_slot_exists:
  assumes "guest_ok G"
  shows "addr_slot (g_info G) addr < unat (num_memslots (g_info G))"
proof -
  let ?b = "unat (mem_slot_bits (g_info G))"
  have "?b \<le> 32" using assms by (simp add: guest_ok_def memslots_wf_def)
  then have "unat addr < 2 ^ ?b * 2 ^ (64 - ?b)" using unsigned_less [of addr] by (simp flip: power_add)
  then have "addr_slot (g_info G) addr < 2 ^ ?b"
    unfolding addr_slot_def unsigned_drop_bit_eq drop_bit_nat_def by (simp add: less_mult_imp_div_less)
  then show ?thesis using assms by (simp add: guest_ok_def)
qed

lemma virt_ok_in_guest:
  assumes "guest_ok G" "i < unat (num_memslots (g_info G))" "virt_ok (mem_slots (g_info G) ! unat (g_group G) ! i) v n"
  shows "in_guest G (uint v) (unat n)" "uint v + int (unat n) < 2 ^ 64"
proof -
  let ?row = "mem_slots (g_info G) ! unat (g_group G)"
  have g: "unat (g_group G) < length (mem_slots (g_info G))" using assms(1) by (simp add: guest_ok_def memslots_wf_def word_less_nat_alt)
  then have "?row \<in> set (mem_slots (g_info G))" by simp
  then have "length ?row = unat (num_memslots (g_info G))" using assms(1) by (simp add: guest_ok_def memslots_wf_def)
  then have i: "?row ! i \<in> set ?row" using assms(2) by simp
  have v: "uint (virt_start_addr (?row ! i)) \<le> uint v" "uint v + int (unat n) \<le> uint (virt_end_addr (?row ! i))"
    using assms(3) unfolding virt_ok_def of_nat_le_iff [where 'a = int, symmetric] by simp_all
  then show "in_guest G (uint v) (unat n)" using i by (auto simp: in_guest_def list_ex_iff)
  show "uint v + int (unat n) < 2 ^ 64" using v(2) uint_bounded [of "virt_end_addr (?row ! i)"] by simp
qed

lemma safe_g_virt:
  assumes "guest_ok G"
  shows "safe (\<lambda>(v, e). (e \<longrightarrow> \<not> g_fatal G) \<and> (\<not> e \<longrightarrow> in_guest G v (unat n) \<and> 0 \<le> v \<and> v + int (unat n) < 2 ^ 64)) (g_virt G addr n)"
proof -
  have wf: "memslots_wf (g_info G)" "g_group G < num_memslots_groups (g_info G)" using assms by (auto simp: guest_ok_def)
  show ?thesis
    unfolding g_virt_def get_virt_decides [OF wf addr_slot_exists [OF assms]] safe_def pres_def
    using virt_ok_in_guest [OF assms addr_slot_exists [OF assms]] by (auto simp: target_slot_def spice_critical_def)
qed

lemma safe_g_virt_at:
  assumes "guest_ok G"
  shows "safe (\<lambda>(v, e). \<not> e \<longrightarrow> v = uint (target_virt (g_info G) (g_group G) addr)) (g_virt G addr n)"
  unfolding g_virt_def get_virt_decides [OF conjunct1 [OF assms [unfolded guest_ok_def]] conjunct1 [OF conjunct2 [OF assms [unfolded guest_ok_def]]] addr_slot_exists [OF assms]]
  by (simp add: safe_def parse_apply pres_def spice_critical_def)

lemma safe_g_slot: "guest_ok G \<Longrightarrow> safe (\<lambda>s. s < num_memslots (g_info G)) (g_slot G addr)"
  using addr_slot_exists [of G addr] by (auto simp: g_slot_def safe_def parse_apply pres_def get_memslot_id_eq guest_ok_def word_less_nat_alt)

lemma safe_g_valid:
  assumes "guest_ok G" "slot_id < num_memslots (g_info G)" "0 \<le> a" "a < 2 ^ 64"
  shows "safe (\<lambda>ok. if ok then in_guest G a (unat n) else \<not> g_fatal G) (g_valid G a slot_id n)"
proof -
  have a: "uint (of_int a :: u64) = a" using assms(3,4) by (simp add: unsigned_of_int take_bit_int_eq_self)
  have i: "unat slot_id < unat (num_memslots (g_info G))" using assms(2) by (simp add: word_less_nat_alt)
  have "slot_at (g_info G) (uint (g_group G)) (sint slot_id) = Inr (mem_slots (g_info G) ! unat (g_group G) ! unat slot_id)"
    using assms(1,2) slot_at_small(1) by (simp add: guest_ok_def)
  then show ?thesis
    using virt_ok_in_guest(1) [OF assms(1) i, of "of_int a" n] unfolding a virt_ok_iff
    by (auto simp: g_valid_def validate_virt_def safe_def parse_apply pres_def spice_critical_def)
qed


section \<open>A guest for examples\<close>

text \<open>One slot, from \<open>0x7000\<close> to \<open>0x8000\<close>; the guest address \<open>0x8180000000001010\<close> is \<open>0x7010\<close>.\<close>

definition demo_slots :: red_mem_slot_info where
  "demo_slots = \<lparr>mem_slots = [[zero_slot, \<lparr>generation = 3, virt_start_addr = 0x7000, virt_end_addr = 0x8000, address_delta = 0x6000\<rparr>]],
     num_memslots_groups = 1, num_memslots = 2, mem_slot_bits = 1, generation_bits = 8,
     memslot_id_shift = 63, memslot_gen_shift = 55, internal_groupslot_id = 0,
     memslot_gen_mask = 0xFF, memslot_clean_virt_mask = 0x7FFFFFFFFFFFFF\<rparr>"

definition demo_guest :: "(nat \<Rightarrow> mem) \<Rightarrow> guest" where
  "demo_guest m = \<lparr>g_fatal = True, g_info = demo_slots, g_group = 0, g_mem = m\<rparr>"

definition bytes_at :: "int \<Rightarrow> u8 list \<Rightarrow> mem" where
  "bytes_at a bs = (\<lambda>x. if a \<le> x \<and> x < a + int (length bs) then bs ! nat (x - a) else 0)"

lemma demo_guest_ok: "guest_ok (demo_guest m)"
  by (simp add: guest_ok_def memslots_wf_def demo_guest_def demo_slots_def mask_eq_exp_minus_1)

lemma demo_guest_fatal: "g_fatal (demo_guest m)"
  by (simp add: demo_guest_def)

end
