(* ===== verification/Qxl_Chunks.thy ===== *)
theory Qxl_Chunks
  imports Qxl_Guest
begin

text \<open>
  Data of variable size in a QXL command (server/red_parse_qxl.c): the list of chunks it is split into, its
  linear form, and the three kinds of data parsed from it: clip rectangles, paths and strings of glyphs. Data of
  one chunk is read where the guest has it, data of several chunks is first copied to the heap. The list of \<open>RedDataChunk\<close>
  is a list, head first; freeing it has no effect here. \<open>size_t\<close> sums that stay far below 64 bits are natural numbers.
\<close>

section \<open>Chunks\<close>

definition MAX_DATA_CHUNK :: int where
  "MAX_DATA_CHUNK = 0x7fffffff"

definition MAX_CHUNKS :: int where
  "MAX_CHUNKS = MAX_DATA_CHUNK div 1024"

record red_data_chunk =
  chunk_size :: u32
  chunk_data :: int

text \<open>What the label \<open>error\<close> leaves: the head alone, cleared.\<close>

definition no_chunks :: "u64 \<times> red_data_chunk list" where
  "no_chunks = (0, [\<lparr>chunk_size = 0, chunk_data = 0\<rparr>])"

function (sequential) chunk_loop :: "guest \<Rightarrow> int \<Rightarrow> int \<Rightarrow> u64 \<Rightarrow> red_data_chunk list \<Rightarrow> (u64 \<times> red_data_chunk list) parse" where
  "chunk_loop G num_chunks qxl data_size red =
     pbind (rd G (qxl + 12)) (\<lambda>next_chunk :: u64.
       if next_chunk = 0 then pret (data_size, red)
       else if num_chunks + 1 \<ge> MAX_CHUNKS then pret no_chunks
       else pbind (g_slot G next_chunk) (\<lambda>memslot_id.
         pbind (g_virt G next_chunk 20) (\<lambda>(qxl, error).
           if error then pret no_chunks
           else pbind (rd G qxl) (\<lambda>chunk_data_size :: u32.
             if chunk_data_size = 0 then chunk_loop G (num_chunks + 1) qxl data_size red
             else if uint (data_size + ucast chunk_data_size) > MAX_DATA_CHUNK then pret no_chunks
             else pbind (g_valid G (qxl + 20) memslot_id chunk_data_size) (\<lambda>ok.
               if \<not> ok then pret no_chunks
               else chunk_loop G (num_chunks + 1) qxl (data_size + ucast chunk_data_size)
                 (red @ [\<lparr>chunk_size = chunk_data_size, chunk_data = qxl + 20\<rparr>]))))))"
  by pat_completeness auto
termination by (relation "measure (\<lambda>(G, num_chunks, _). nat (MAX_CHUNKS - num_chunks))") auto

declare chunk_loop.simps [simp del]

definition red_get_data_chunks_ptr :: "guest \<Rightarrow> u32 \<Rightarrow> int \<Rightarrow> (u64 \<times> red_data_chunk list) parse" where
  "red_get_data_chunks_ptr G memslot_id qxl =
     pbind (rd G qxl) (\<lambda>data_size.
     pbind (g_valid G (qxl + 20) memslot_id data_size) (\<lambda>ok.
       if \<not> ok then pret (0, [\<lparr>chunk_size = data_size, chunk_data = 0\<rparr>])
       else chunk_loop G 0 qxl (ucast data_size) [\<lparr>chunk_size = data_size, chunk_data = qxl + 20\<rparr>]))"

text \<open>When the address is refused, the caller's \<open>RedDataChunk\<close> is not set: None.\<close>

definition red_get_data_chunks :: "guest \<Rightarrow> u64 \<Rightarrow> (u64 \<times> red_data_chunk list option) parse" where
  "red_get_data_chunks G addr =
     pbind (g_slot G addr) (\<lambda>memslot_id.
     pbind (g_virt G addr 20) (\<lambda>(qxl, error).
       if error then pret (0, None)
       else pbind (red_get_data_chunks_ptr G memslot_id qxl) (\<lambda>(sz, red). pret (sz, Some red))))"

datatype buffer = Guest int | Heap "u8 list"

fun copy_chunks :: "guest \<Rightarrow> red_data_chunk list \<Rightarrow> nat \<Rightarrow> u8 list parse" where
  "copy_chunks G [] sz = passert (sz = 0) (pret [])"
| "copy_chunks G (chunk # chunks) sz =
     (if sz = 0 then pret []
      else let copy = min (unat (chunk_size chunk)) sz in
        pbind (rd_bytes G (chunk_data chunk) copy) (\<lambda>bs.
        pbind (copy_chunks G chunks (sz - copy)) (\<lambda>rest. pret (bs @ rest))))"

definition red_linearize_chunk :: "guest \<Rightarrow> red_data_chunk list \<Rightarrow> nat \<Rightarrow> buffer parse" where
  "red_linearize_chunk G red sz =
     (case red of
        [head] \<Rightarrow> passert (sz \<le> unat (chunk_size head)) (pret (Guest (chunk_data head)))
      | _ \<Rightarrow> pbind (copy_chunks G red sz) (\<lambda>bs. pret (Heap bs)))"

text \<open>Reads at an offset of linear data.\<close>

definition fetch_bytes :: "guest \<Rightarrow> buffer \<Rightarrow> nat \<Rightarrow> nat \<Rightarrow> u8 list parse" where
  "fetch_bytes G b off n =
     (case b of Guest a \<Rightarrow> rd_bytes G (a + int off) n
      | Heap bs \<Rightarrow> pres (if off + n \<le> length bs then Inr (take n (drop off bs)) else Inl OutOfBounds))"

definition fetch :: "guest \<Rightarrow> buffer \<Rightarrow> nat \<Rightarrow> 'w::len word parse" where
  "fetch G b off = pbind (fetch_bytes G b off (LENGTH('w) div 8)) (\<lambda>bs. pret (le_bytes bs))"

text \<open>A write of \<open>n\<close> bytes at an offset of an allocation of \<open>cap\<close> bytes.\<close>

definition put_ok :: "nat \<Rightarrow> nat \<Rightarrow> nat \<Rightarrow> unit parse" where
  "put_ok cap off n = pres (if off + n \<le> cap then Inr () else Inl OutOfBounds)"

definition align4 :: "nat \<Rightarrow> nat" where
  "align4 n = (n + 3) div 4 * 4"


section \<open>Points and rectangles\<close>

record spice_point =
  pt_x :: u32
  pt_y :: u32

record spice_rect =
  rect_left :: u32
  rect_top :: u32
  rect_right :: u32
  rect_bottom :: u32

definition red_get_point_ptr :: "guest \<Rightarrow> buffer \<Rightarrow> nat \<Rightarrow> spice_point parse" where
  "red_get_point_ptr G b qxl = pbind (fetch G b qxl) (\<lambda>x. pbind (fetch G b (qxl + 4)) (\<lambda>y. pret \<lparr>pt_x = x, pt_y = y\<rparr>))"

definition red_get_rect_ptr :: "guest \<Rightarrow> buffer \<Rightarrow> nat \<Rightarrow> spice_rect parse" where
  "red_get_rect_ptr G b qxl =
     pbind (fetch G b qxl) (\<lambda>top. pbind (fetch G b (qxl + 4)) (\<lambda>left.
     pbind (fetch G b (qxl + 8)) (\<lambda>bottom. pbind (fetch G b (qxl + 12)) (\<lambda>right.
       pret \<lparr>rect_left = left, rect_top = top, rect_right = right, rect_bottom = bottom\<rparr>))))"


section \<open>Clip rectangles\<close>

definition red_get_clip_rects :: "guest \<Rightarrow> u64 \<Rightarrow> spice_rect list option parse" where
  "red_get_clip_rects G addr =
     pbind (g_virt G addr 24) (\<lambda>(qxl, error).
       if error then pret None
       else pbind (g_slot G addr) (\<lambda>memslot_id.
         pbind (red_get_data_chunks_ptr G memslot_id (qxl + 4)) (\<lambda>(sz, chunks).
         pbind (red_linearize_chunk G chunks (unat sz)) (\<lambda>data.
         pbind (rd G qxl) (\<lambda>num_rects :: u32.
           passert (unat num_rects * 16 = unat sz)
             (pbind (prepeat (\<lambda>i. red_get_rect_ptr G data (16 * i)) 0 (unat num_rects)) (\<lambda>rects. pret (Some rects))))))))"


section \<open>Paths\<close>

text \<open>
  A segment in memory is its flags, the number of its points and the points. The first loop counts the segments and the memory
  they take, the second copies them: \<open>seg\<close> is the offset of the segment it writes, \<open>mem_size2\<close> the size it checks.
\<close>

record spice_path_seg =
  seg_flags :: u32
  seg_points :: "spice_point list"

function path_measure :: "guest \<Rightarrow> buffer \<Rightarrow> nat \<Rightarrow> nat \<Rightarrow> nat \<Rightarrow> nat \<Rightarrow> (nat \<times> nat) parse" where
  "path_measure G data sz start n_segments mem_size =
     (if start + 8 < sz
      then pbind (fetch G data (start + 4)) (\<lambda>count :: u32.
        path_measure G data sz (start + 8 + 8 * unat count) (Suc n_segments)
          (mem_size + 8 + align4 (8 + unat count * 8)))
      else pret (n_segments, mem_size))"
  by pat_completeness auto
termination by (relation "measure (\<lambda>(G, data, sz, start, _). sz - start)") auto

definition path_point :: "guest \<Rightarrow> buffer \<Rightarrow> nat \<Rightarrow> nat \<Rightarrow> nat \<Rightarrow> nat \<Rightarrow> spice_point parse" where
  "path_point G data mem_size start seg i =
     pbind (red_get_point_ptr G data (start + 8 + 8 * i)) (\<lambda>p.
     pbind (put_ok mem_size (seg + 8 + 8 * i) 8) (\<lambda>_. pret p))"

function path_copy :: "guest \<Rightarrow> buffer \<Rightarrow> nat \<Rightarrow> nat \<Rightarrow> nat \<Rightarrow> nat \<Rightarrow> nat \<Rightarrow> nat \<Rightarrow> nat \<Rightarrow> spice_path_seg list \<Rightarrow>
    spice_path_seg list parse" where
  "path_copy G data sz num_segments mem_size start seg n_segments mem_size2 segs =
     (if start + 8 < sz \<and> n_segments < num_segments
      then pbind (put_ok mem_size (8 + 8 * n_segments) 8) (\<lambda>_.
        pbind (fetch G data (start + 4)) (\<lambda>count :: u32.
          passert (mem_size2 + 8 > mem_size2)
         (passert (uint count < 0xffffffff div 8)
         (passert (mem_size2 + 8 + unat count * 8 > mem_size2 + 8)
         (passert (mem_size2 + 8 + unat count * 8 \<le> mem_size)
         (pbind (fetch G data start) (\<lambda>flags.
          pbind (put_ok mem_size seg 8) (\<lambda>_.
          pbind (prepeat (path_point G data mem_size start seg) 0 (unat count)) (\<lambda>points.
            path_copy G data sz num_segments mem_size (start + 8 + 8 * unat count) (seg + 8 + 8 * unat count)
              (Suc n_segments) (mem_size2 + 8 + unat count * 8)
              (segs @ [\<lparr>seg_flags = flags, seg_points = points\<rparr>]))))))))))
      else passert (n_segments = num_segments) (pret segs))"
  by pat_completeness auto
termination by (relation "measure (\<lambda>(G, data, sz, num, mem, start, _). sz - start)") auto

declare path_measure.simps [simp del] path_copy.simps [simp del]

definition path_of_data :: "guest \<Rightarrow> buffer \<Rightarrow> nat \<Rightarrow> spice_path_seg list parse" where
  "path_of_data G data sz =
     pbind (path_measure G data sz 0 0 8) (\<lambda>(n_segments, mem_size).
       path_copy G data sz n_segments mem_size 0 (8 + 8 * n_segments) 0 8 [])"

definition red_get_path :: "guest \<Rightarrow> u64 \<Rightarrow> spice_path_seg list option parse" where
  "red_get_path G addr =
     pbind (g_virt G addr 24) (\<lambda>(qxl, error).
       if error then pret None
       else pbind (g_slot G addr) (\<lambda>memslot_id.
         pbind (red_get_data_chunks_ptr G memslot_id (qxl + 4)) (\<lambda>(sz, chunks).
         pbind (red_linearize_chunk G chunks (unat sz)) (\<lambda>data.
         pbind (path_of_data G data (unat sz)) (\<lambda>red. pret (Some red))))))"


section \<open>Strings\<close>

record spice_raster_glyph =
  glyph_pos :: spice_point
  glyph_origin :: spice_point
  glyph_width :: u16
  glyph_height :: u16
  glyph_data :: "u8 list"

record spice_string =
  str_flags :: u16
  str_glyphs :: "spice_raster_glyph list"

text \<open>\<open>height * ((width * bpp + 7u) / 8u)\<close>, which is less than \<open>2 ^ 32\<close>.\<close>

definition glyph_size :: "nat \<Rightarrow> u16 \<Rightarrow> u16 \<Rightarrow> nat" where
  "glyph_size bpp width height = unat height * ((unat width * bpp + 7) div 8)"

function glyph_measure :: "guest \<Rightarrow> buffer \<Rightarrow> nat \<Rightarrow> nat \<Rightarrow> nat \<Rightarrow> nat \<Rightarrow> nat \<Rightarrow> (nat \<times> nat \<times> nat) parse" where
  "glyph_measure G data sz bpp start glyphs red_size =
     (if start < sz
      then passert (start + 20 \<le> sz)
        (pbind (fetch G data (start + 18)) (\<lambda>height.
         pbind (fetch G data (start + 16)) (\<lambda>width.
           let n = glyph_size bpp width height in
           passert (n \<le> sz - (start + 20))
             (glyph_measure G data sz bpp (start + 20 + n) (Suc glyphs) (red_size + 8 + align4 (20 + n))))))
      else pret (start, glyphs, red_size))"
  by pat_completeness auto
termination by (relation "measure (\<lambda>(G, data, sz, bpp, start, _). sz - start)") auto

declare glyph_measure.simps [simp del]

fun glyph_copy :: "guest \<Rightarrow> buffer \<Rightarrow> nat \<Rightarrow> nat \<Rightarrow> nat \<Rightarrow> nat \<Rightarrow> nat \<Rightarrow> nat \<Rightarrow> nat \<Rightarrow> spice_raster_glyph list parse" where
  "glyph_copy G data sz bpp red_size 0 i start glyph = pret []"
| "glyph_copy G data sz bpp red_size (Suc k) i start glyph =
     passert (start + 20 \<le> sz)
       (pbind (put_ok red_size (8 + 8 * i) 8) (\<lambda>_.
        pbind (put_ok red_size glyph 20) (\<lambda>_.
        pbind (fetch G data (start + 16)) (\<lambda>width.
        pbind (fetch G data (start + 18)) (\<lambda>height.
        pbind (red_get_point_ptr G data start) (\<lambda>pos.
        pbind (red_get_point_ptr G data (start + 8)) (\<lambda>origin.
          let n = glyph_size bpp width height in
          passert (n \<le> sz - (start + 20))
            (pbind (fetch_bytes G data (start + 20) n) (\<lambda>bytes.
             pbind (put_ok red_size (glyph + 20) n) (\<lambda>_.
             pbind (glyph_copy G data sz bpp red_size k (Suc i) (start + 20 + n) (glyph + align4 (20 + n))) (\<lambda>rest.
               pret (\<lparr>glyph_pos = pos, glyph_origin = origin, glyph_width = width, glyph_height = height,
                      glyph_data = bytes\<rparr> # rest))))))))))))"

definition string_bpp :: "u16 \<Rightarrow> nat" where
  "string_bpp flags = (if bit flags 0 then 1 else if bit flags 1 then 4 else if bit flags 2 then 8 else 0)"

definition string_of_data :: "guest \<Rightarrow> buffer \<Rightarrow> nat \<Rightarrow> u16 \<Rightarrow> u16 \<Rightarrow> spice_string parse" where
  "string_of_data G data sz flags len =
     (let bpp = string_bpp flags in
      passert (bpp \<noteq> 0)
        (pbind (glyph_measure G data sz bpp 0 0 8) (\<lambda>(start, glyphs, red_size).
          passert (start \<le> sz)
         (passert (glyphs = unat len)
         (pbind (glyph_copy G data sz bpp red_size (unat len) 0 0 (8 + 8 * unat len)) (\<lambda>gs.
            pret \<lparr>str_flags = flags, str_glyphs = gs\<rparr>))))))"

definition red_get_string :: "guest \<Rightarrow> u64 \<Rightarrow> spice_string option parse" where
  "red_get_string G addr =
     pbind (g_virt G addr 28) (\<lambda>(qxl, error).
       if error then pret None
       else pbind (g_slot G addr) (\<lambda>memslot_id.
         pbind (red_get_data_chunks_ptr G memslot_id (qxl + 8)) (\<lambda>(chunk_size, chunks).
           if chunk_size = 0 then pret None
           else pbind (red_linearize_chunk G chunks (unat chunk_size)) (\<lambda>data.
             pbind (rd G qxl) (\<lambda>qxl_size :: u32.
             pbind (rd G (qxl + 6)) (\<lambda>qxl_flags.
             pbind (rd G (qxl + 4)) (\<lambda>qxl_length.
               passert (unat chunk_size = unat qxl_size)
                 (pbind (string_of_data G data (unat chunk_size) qxl_flags qxl_length) (\<lambda>red. pret (Some red))))))))))"

end
