(* ===== verification/Qxl_Image.thy ===== *)
theory Qxl_Image
  imports Qxl_Chunks Palette
begin

text \<open>
  Images, brushes and masks of a QXL command (server/red_parse_qxl.c): \<open>red_get_image\<close> with its palette and its data,
  direct or in chunks, what refers to images, and the functions that release them. The functions that release
  free memory, which has no effect here beyond reading the pointers on the way. Allocations succeed (\<open>spice_malloc\<close> stops the
  process when they do not).
\<close>

section \<open>Images\<close>

record spice_chunks =
  chunks_data_size :: u32
  chunks_flags :: u32
  chunk_list :: "(int \<times> u32) list"

record spice_image_descriptor =
  img_id :: u64
  img_type :: u8
  img_flags :: u8
  img_width :: u32
  img_height :: u32

record spice_bitmap =
  bm_format :: u8
  bm_flags :: u8
  bm_x :: u32
  bm_y :: u32
  bm_stride :: u32
  bm_palette :: "spice_palette option"
  bm_palette_id :: u64
  bm_data :: "spice_chunks option"

datatype image_data = Bitmap spice_bitmap | Quic u32 spice_chunks | Surface u32

record spice_image =
  descriptor :: spice_image_descriptor
  img_data :: image_data

definition color_16_to_32 :: "u32 \<Rightarrow> u32" where
  "color_16_to_32 color =
     (push_bit 3 (color AND 0x001f) OR drop_bit 2 (color AND 0x001c)) OR
     (push_bit 6 (color AND 0x03e0) OR push_bit 1 (color AND 0x0380)) OR
     (push_bit 9 (color AND 0x7c00) OR push_bit 4 (color AND 0x7000))"

definition compat_16bpp :: "u32 \<Rightarrow> u32 \<Rightarrow> u32" where
  "compat_16bpp flags color = (if bit flags 1 then color_16_to_32 color else color)"

definition red_get_image_data_flat :: "guest \<Rightarrow> u64 \<Rightarrow> nat \<Rightarrow> spice_chunks option parse" where
  "red_get_image_data_flat G addr sz =
     pbind (g_virt G addr (of_nat sz)) (\<lambda>(data, error).
       if error then pret None
       else pret (Some \<lparr>chunks_data_size = of_nat sz, chunks_flags = 0, chunk_list = [(data, of_nat sz)]\<rparr>))"

definition red_get_image_data_chunked :: "red_data_chunk list \<Rightarrow> spice_chunks" where
  "red_get_image_data_chunked chunks =
     \<lparr>chunks_data_size = sum_list (map chunk_size chunks), chunks_flags = 0,
      chunk_list = map (\<lambda>c. (chunk_data c, chunk_size c)) chunks\<rparr>"

definition bitmap_fmt_is_rgb :: "u8 \<Rightarrow> bool" where
  "bitmap_fmt_is_rgb fmt \<longleftrightarrow> fmt < 11 \<and> [False, False, False, False, False, False, True, True, True, True, True] ! unat fmt"

definition MAP_BITMAP_FMT_TO_BITS_PER_PIXEL :: "nat list" where
  "MAP_BITMAP_FMT_TO_BITS_PER_PIXEL = [0, 1, 1, 4, 4, 8, 16, 24, 32, 32, 8]"

definition bitmap_consistent :: "u8 \<Rightarrow> u32 \<Rightarrow> u32 \<Rightarrow> bool" where
  "bitmap_consistent format x stride \<longleftrightarrow>
     unat format < length MAP_BITMAP_FMT_TO_BITS_PER_PIXEL \<and>
     \<not> unat stride < (unat x * MAP_BITMAP_FMT_TO_BITS_PER_PIXEL ! unat format + 7) div 8"

text \<open>The palette at an address: None is the jump to \<open>error\<close>.\<close>

definition get_palette :: "guest \<Rightarrow> u64 \<Rightarrow> u32 \<Rightarrow> spice_palette option parse" where
  "get_palette G palette flags =
     pbind (g_virt G palette 10) (\<lambda>(qp, error).
       if error then pret None
       else pbind (rd G (qp + 8)) (\<lambda>num_ents :: u16.
         pbind (g_slot G palette) (\<lambda>memslot_id.
         pbind (g_valid G (qp + 10) memslot_id (ucast num_ents * 4)) (\<lambda>ok.
           if \<not> ok then pret None
           else pbind (rd G qp) (\<lambda>unique.
             pbind (prepeat (\<lambda>i. pbind (rd G (qp + 10 + 4 * int i)) (\<lambda>e. pret (compat_16bpp flags e))) 0 (unat num_ents)) (\<lambda>ents.
               pret (Some \<lparr>pal_unique = unique, num_ents = num_ents, ents = ents\<rparr>)))))))"

text \<open>The data of a bitmap. \<open>Uninit\<close> is the walk through chunks that were never set.\<close>

definition get_bitmap_data :: "guest \<Rightarrow> u8 \<Rightarrow> u64 \<Rightarrow> nat \<Rightarrow> spice_chunks option parse" where
  "get_bitmap_data G qxl_flags addr bitmap_size =
     pbind
       (if bit qxl_flags 0 then red_get_image_data_flat G addr bitmap_size
        else pbind (red_get_data_chunks G addr) (\<lambda>(sz, chunks).
          passert (unat sz = bitmap_size)
            (case chunks of None \<Rightarrow> pres (Inl Uninit)
             | Some chunks \<Rightarrow> pret (Some (red_get_image_data_chunked chunks))))) (\<lambda>data.
       if bit qxl_flags 1
       then pbind (pres (deref data)) (\<lambda>d. pret (Some (d\<lparr>chunks_flags := chunks_flags d OR 1\<rparr>)))
       else pret data)"

definition get_bitmap :: "guest \<Rightarrow> int \<Rightarrow> u32 \<Rightarrow> bool \<Rightarrow> spice_bitmap option parse" where
  "get_bitmap G qxl flags is_mask =
     pbind (rd G (qxl + 18)) (\<lambda>format.
     pbind (rd G (qxl + 20)) (\<lambda>x :: u32.
     pbind (rd G (qxl + 24)) (\<lambda>y :: u32.
     pbind (rd G (qxl + 28)) (\<lambda>stride :: u32.
     pbind (rd G (qxl + 32)) (\<lambda>palette :: u64.
       if \<not> bitmap_fmt_is_rgb format \<and> palette = 0 \<and> \<not> is_mask then pret None
       else if x = 0 \<or> y = 0 then pret None
       else pbind (rd G (qxl + 19)) (\<lambda>qxl_flags :: u8.
         if \<not> bitmap_consistent format x stride then pret None
         else pbind (if palette \<noteq> 0 then pbind (get_palette G palette flags) (\<lambda>rp. pret (map_option Some rp)) else pret (Some None)) (\<lambda>pal.
           case pal of None \<Rightarrow> pret None
           | Some rp \<Rightarrow>
             let bitmap_size = unat y * unat stride in
             if int bitmap_size > MAX_DATA_CHUNK then pret None
             else pbind (rd G (qxl + 40)) (\<lambda>data.
               pbind (get_bitmap_data G qxl_flags data bitmap_size) (\<lambda>chunks.
               pret (Some \<lparr>bm_format = format, bm_flags = (if bit qxl_flags 2 then 4 else 0),
                 bm_x = x, bm_y = y, bm_stride = stride, bm_palette = rp,
                 bm_palette_id = (case rp of None \<Rightarrow> 0 | Some p \<Rightarrow> pal_unique p), bm_data = chunks\<rparr>))))))))))"

definition get_quic :: "guest \<Rightarrow> u64 \<Rightarrow> int \<Rightarrow> image_data option parse" where
  "get_quic G addr qxl =
     pbind (rd G (qxl + 18)) (\<lambda>data_size :: u32.
     pbind (g_slot G addr) (\<lambda>memslot_id.
     pbind (red_get_data_chunks_ptr G memslot_id (qxl + 22)) (\<lambda>(sz, chunks).
       passert (unat sz = unat data_size) (pret (Some (Quic data_size (red_get_image_data_chunked chunks)))))))"

definition red_get_image :: "guest \<Rightarrow> u64 \<Rightarrow> u32 \<Rightarrow> bool \<Rightarrow> spice_image option parse" where
  "red_get_image G addr flags is_mask =
     (if addr = 0 then pret None
      else pbind (g_virt G addr 48) (\<lambda>(qxl, error).
        if error then pret None
        else pbind (rd G qxl) (\<lambda>iid.
          pbind (rd G (qxl + 8)) (\<lambda>type.
          pbind (rd G (qxl + 9)) (\<lambda>flags1 :: u8.
          pbind (rd G (qxl + 9)) (\<lambda>flags2 :: u8.
          pbind (rd G (qxl + 10)) (\<lambda>width.
          pbind (rd G (qxl + 14)) (\<lambda>height.
          pbind
            (if type = 0 then pbind (get_bitmap G qxl flags is_mask) (\<lambda>b. pret (map_option Bitmap b))
             else if type = 104 then pbind (rd G (qxl + 18)) (\<lambda>s. pret (Some (Surface s)))
             else if type = 1 then get_quic G addr qxl
             else pret None) (\<lambda>data.
            pret (map_option (\<lambda>d.
              \<lparr>descriptor = \<lparr>img_id = iid, img_type = type,
                 img_flags = (if bit flags1 1 then 2 else 0) OR (if bit flags2 0 then 1 else 0),
                 img_width = width, img_height = height\<rparr>,
               img_data = d\<rparr>) data))))))))))"

text \<open>Releasing: \<open>spice_chunks_destroy\<close> reads the flags of the chunks it is given.\<close>

definition red_put_image :: "spice_image option \<Rightarrow> unit res" where
  "red_put_image red =
     (case red of None \<Rightarrow> Inr ()
      | Some i \<Rightarrow> (case img_data i of
          Bitmap b \<Rightarrow> rbind (deref (bm_data b)) (\<lambda>_. Inr ())
        | Quic _ _ \<Rightarrow> Inr ()
        | Surface _ \<Rightarrow> Inr ()))"


section \<open>Brushes and masks\<close>

text \<open>The parser leaves the position of a pattern as it was (zero).\<close>

datatype brush_data = Solid u32 | Pattern "spice_image option" | No_Brush

record spice_brush =
  brush_type :: u32
  brush_data :: brush_data

record spice_qmask =
  mask_flags :: u8
  mask_pos :: spice_point
  mask_bitmap :: "spice_image option"

definition red_get_brush_ptr :: "guest \<Rightarrow> int \<Rightarrow> u32 \<Rightarrow> spice_brush parse" where
  "red_get_brush_ptr G qxl flags =
     pbind (rd G qxl) (\<lambda>type :: u32.
     pbind
       (if type = 1 then pbind (rd G (qxl + 4)) (\<lambda>color. pret (Solid (compat_16bpp flags color)))
        else if type = 2 then pbind (rd G (qxl + 4)) (\<lambda>pat. pbind (red_get_image G pat flags False) (\<lambda>i. pret (Pattern i)))
        else pret No_Brush) (\<lambda>d.
     pret \<lparr>brush_type = type, brush_data = d\<rparr>))"

definition red_put_brush :: "spice_brush \<Rightarrow> unit res" where
  "red_put_brush red = (case brush_data red of Pattern i \<Rightarrow> red_put_image i | _ \<Rightarrow> Inr ())"

definition red_get_qmask_ptr :: "guest \<Rightarrow> int \<Rightarrow> u32 \<Rightarrow> spice_qmask parse" where
  "red_get_qmask_ptr G qxl flags =
     pbind (rd G qxl) (\<lambda>f.
     pbind (red_get_point_ptr G (Guest (qxl + 1)) 0) (\<lambda>pos.
     pbind (rd G (qxl + 9)) (\<lambda>bitmap.
     pbind (red_get_image G bitmap flags True) (\<lambda>i.
       pret \<lparr>mask_flags = f, mask_pos = pos, mask_bitmap = i\<rparr>))))"

definition red_put_qmask :: "spice_qmask \<Rightarrow> unit res" where
  "red_put_qmask red = red_put_image (mask_bitmap red)"

end
