(* ===== verification/Qxl_Command.thy ===== *)
theory Qxl_Command
  imports Qxl_Image
begin

text \<open>
  The commands of a QXL device (server/red_parse_qxl.c): drawables of the native and of the compatible layout with
  all their kinds, update, message, surface and cursor commands, and the functions that release them. An operation that fills a
  structure of its caller takes it and returns it with the error code (\<open>True\<close> when it is not zero); the kind of a
  drawable and of a cursor is a datatype in place of the union. Fields only the worker uses (\<open>refs\<close>, \<open>device_data\<close>) are left out.
\<close>

section \<open>Kinds of drawables\<close>

record spice_fill =
  fill_brush :: spice_brush
  fill_rop :: u16
  fill_mask :: spice_qmask

record spice_opaque =
  opq_src :: "spice_image option"
  opq_area :: spice_rect
  opq_brush :: spice_brush
  opq_rop :: u16
  opq_scale :: u8
  opq_mask :: spice_qmask

record spice_copy =
  cp_src :: "spice_image option"
  cp_area :: spice_rect
  cp_rop :: u16
  cp_scale :: u8
  cp_mask :: spice_qmask

record spice_transparent =
  tr_src :: "spice_image option"
  tr_area :: spice_rect
  tr_src_color :: u32
  tr_true_color :: u32

record spice_alpha_blend =
  ab_flags :: u16
  ab_alpha :: u8
  ab_src :: "spice_image option"
  ab_area :: spice_rect

record spice_rop3 =
  r3_src :: "spice_image option"
  r3_area :: spice_rect
  r3_brush :: spice_brush
  r3_rop :: u8
  r3_scale :: u8
  r3_mask :: spice_qmask

record spice_point16 =
  p16_x :: u16
  p16_y :: u16

text \<open>A transform is its 24 bytes, when there is one.\<close>

record spice_composite =
  comp_flags :: u32
  comp_src :: "spice_image option"
  comp_mask :: "spice_image option"
  comp_src_transform :: "u8 list option"
  comp_mask_transform :: "u8 list option"
  comp_src_origin :: spice_point16
  comp_mask_origin :: spice_point16

datatype line_style = No_Style | Unset_Style | Style "u8 list"

record spice_line_attr =
  la_flags :: u8
  la_style_nseg :: u8
  la_style :: line_style

record spice_stroke =
  sk_path :: "spice_path_seg list option"
  sk_attr :: spice_line_attr
  sk_brush :: spice_brush
  sk_fore_mode :: u16
  sk_back_mode :: u16

record spice_text =
  tx_str :: "spice_string option"
  tx_area :: spice_rect
  tx_fore_brush :: spice_brush
  tx_back_brush :: spice_brush
  tx_fore_mode :: u16
  tx_back_mode :: u16

datatype draw_data =
    Draw_Nop
  | Draw_Fill spice_fill
  | Draw_Opaque spice_opaque
  | Draw_Copy spice_copy
  | Copy_Bits spice_point
  | Draw_Blend spice_copy
  | Draw_Blackness spice_qmask
  | Draw_Whiteness spice_qmask
  | Draw_Invers spice_qmask
  | Draw_Rop3 spice_rop3
  | Draw_Stroke spice_stroke
  | Draw_Text spice_text
  | Draw_Transparent spice_transparent
  | Draw_Alpha_Blend spice_alpha_blend
  | Draw_Composite spice_composite

text \<open>Structures the caller has cleared.\<close>

definition zero_point :: spice_point where
  "zero_point = \<lparr>pt_x = 0, pt_y = 0\<rparr>"

definition zero_rect :: spice_rect where
  "zero_rect = \<lparr>rect_left = 0, rect_top = 0, rect_right = 0, rect_bottom = 0\<rparr>"

definition zero_mask :: spice_qmask where
  "zero_mask = \<lparr>mask_flags = 0, mask_pos = zero_point, mask_bitmap = None\<rparr>"

definition zero_copy :: spice_copy where
  "zero_copy = \<lparr>cp_src = None, cp_area = zero_rect, cp_rop = 0, cp_scale = 0, cp_mask = zero_mask\<rparr>"

definition zero_stroke :: spice_stroke where
  "zero_stroke = \<lparr>sk_path = None, sk_attr = \<lparr>la_flags = 0, la_style_nseg = 0, la_style = No_Style\<rparr>,
     sk_brush = \<lparr>brush_type = 0, brush_data = No_Brush\<rparr>, sk_fore_mode = 0, sk_back_mode = 0\<rparr>"

definition get_rect :: "guest \<Rightarrow> int \<Rightarrow> spice_rect parse" where
  "get_rect G a = red_get_rect_ptr G (Guest a) 0"

definition red_get_point16_ptr :: "guest \<Rightarrow> int \<Rightarrow> spice_point16 parse" where
  "red_get_point16_ptr G qxl = pbind (rd G qxl) (\<lambda>x. pbind (rd G (qxl + 2)) (\<lambda>y. pret \<lparr>p16_x = x, p16_y = y\<rparr>))"

text \<open>An image whose address is a field of the command, used outside masks.\<close>

definition image_at :: "guest \<Rightarrow> int \<Rightarrow> u32 \<Rightarrow> spice_image option parse" where
  "image_at G a flags = pbind (rd G a) (\<lambda>addr. red_get_image G addr flags False)"

definition red_get_fill_ptr :: "guest \<Rightarrow> int \<Rightarrow> u32 \<Rightarrow> spice_fill parse" where
  "red_get_fill_ptr G qxl flags =
     pbind (red_get_brush_ptr G qxl flags) (\<lambda>brush.
     pbind (rd G (qxl + 20)) (\<lambda>rop.
     pbind (red_get_qmask_ptr G (qxl + 22) flags) (\<lambda>mask.
       pret \<lparr>fill_brush = brush, fill_rop = rop, fill_mask = mask\<rparr>)))"

definition red_get_opaque_ptr :: "guest \<Rightarrow> int \<Rightarrow> u32 \<Rightarrow> spice_opaque parse" where
  "red_get_opaque_ptr G qxl flags =
     pbind (image_at G qxl flags) (\<lambda>src.
     pbind (get_rect G (qxl + 8)) (\<lambda>area.
     pbind (red_get_brush_ptr G (qxl + 24) flags) (\<lambda>brush.
     pbind (rd G (qxl + 44)) (\<lambda>rop.
     pbind (rd G (qxl + 46)) (\<lambda>scale.
     pbind (red_get_qmask_ptr G (qxl + 47) flags) (\<lambda>mask.
       pret \<lparr>opq_src = src, opq_area = area, opq_brush = brush, opq_rop = rop, opq_scale = scale, opq_mask = mask\<rparr>))))))"

text \<open>The fields of a copy and of a blend after the image.\<close>

definition copy_rest :: "guest \<Rightarrow> int \<Rightarrow> u32 \<Rightarrow> spice_image option \<Rightarrow> spice_copy parse" where
  "copy_rest G qxl flags src =
     pbind (get_rect G (qxl + 8)) (\<lambda>area.
     pbind (rd G (qxl + 24)) (\<lambda>rop.
     pbind (rd G (qxl + 26)) (\<lambda>scale.
     pbind (red_get_qmask_ptr G (qxl + 27) flags) (\<lambda>mask.
       pret \<lparr>cp_src = src, cp_area = area, cp_rop = rop, cp_scale = scale, cp_mask = mask\<rparr>))))"

definition red_get_copy_ptr :: "guest \<Rightarrow> int \<Rightarrow> u32 \<Rightarrow> (bool \<times> spice_copy) parse" where
  "red_get_copy_ptr G qxl flags =
     pbind (image_at G qxl flags) (\<lambda>src.
       if src = None then pret (True, zero_copy)
       else pbind (copy_rest G qxl flags src) (\<lambda>c. pret (False, c)))"

definition red_get_blend_ptr :: "guest \<Rightarrow> int \<Rightarrow> u32 \<Rightarrow> spice_copy parse" where
  "red_get_blend_ptr G qxl flags = pbind (image_at G qxl flags) (\<lambda>src. copy_rest G qxl flags src)"

definition red_get_transparent_ptr :: "guest \<Rightarrow> int \<Rightarrow> u32 \<Rightarrow> spice_transparent parse" where
  "red_get_transparent_ptr G qxl flags =
     pbind (image_at G qxl flags) (\<lambda>src.
     pbind (get_rect G (qxl + 8)) (\<lambda>area.
     pbind (rd G (qxl + 24)) (\<lambda>src_color.
     pbind (rd G (qxl + 28)) (\<lambda>true_color.
       pret \<lparr>tr_src = src, tr_area = area, tr_src_color = src_color, tr_true_color = true_color\<rparr>))))"

definition red_get_alpha_blend_ptr :: "guest \<Rightarrow> int \<Rightarrow> u32 \<Rightarrow> spice_alpha_blend parse" where
  "red_get_alpha_blend_ptr G qxl flags =
     pbind (rd G qxl) (\<lambda>alpha_flags.
     pbind (rd G (qxl + 2)) (\<lambda>alpha.
     pbind (image_at G (qxl + 3) flags) (\<lambda>src.
     pbind (get_rect G (qxl + 11)) (\<lambda>area.
       pret \<lparr>ab_flags = alpha_flags, ab_alpha = alpha, ab_src = src, ab_area = area\<rparr>))))"

definition red_get_alpha_blend_ptr_compat :: "guest \<Rightarrow> int \<Rightarrow> u32 \<Rightarrow> spice_alpha_blend parse" where
  "red_get_alpha_blend_ptr_compat G qxl flags =
     pbind (rd G qxl) (\<lambda>alpha.
     pbind (image_at G (qxl + 1) flags) (\<lambda>src.
     pbind (get_rect G (qxl + 9)) (\<lambda>area.
       pret \<lparr>ab_flags = 0, ab_alpha = alpha, ab_src = src, ab_area = area\<rparr>)))"

definition get_transform :: "guest \<Rightarrow> u64 \<Rightarrow> u8 list option parse" where
  "get_transform G qxl_transform =
     (if qxl_transform = 0 then pret None
      else pbind (g_virt G qxl_transform 24) (\<lambda>(p, error).
        if p = 0 \<or> error then pret None
        else pbind (rd_bytes G p 24) (\<lambda>bs. pret (Some bs))))"

definition red_get_composite_ptr :: "guest \<Rightarrow> int \<Rightarrow> u32 \<Rightarrow> spice_composite parse" where
  "red_get_composite_ptr G qxl flags =
     pbind (rd G qxl) (\<lambda>f.
     pbind (image_at G (qxl + 4) flags) (\<lambda>src.
     pbind (rd G (qxl + 12)) (\<lambda>st.
     pbind (get_transform G st) (\<lambda>src_transform.
     pbind (rd G (qxl + 20)) (\<lambda>mask_addr :: u64.
     pbind
       (if mask_addr \<noteq> 0
        then pbind (image_at G (qxl + 20) flags) (\<lambda>mask.
          pbind (rd G (qxl + 28)) (\<lambda>mt. pbind (get_transform G mt) (\<lambda>mask_transform. pret (mask, mask_transform))))
        else pret (None, None)) (\<lambda>(mask, mask_transform).
     pbind (red_get_point16_ptr G (qxl + 36)) (\<lambda>src_origin.
     pbind (red_get_point16_ptr G (qxl + 40)) (\<lambda>mask_origin.
       pret \<lparr>comp_flags = f OR (if src_transform \<noteq> None then push_bit 20 1 else 0) OR (if mask_addr \<noteq> 0 then push_bit 19 1 else 0) OR
               (if mask_transform \<noteq> None then push_bit 21 1 else 0),
             comp_src = src, comp_mask = mask, comp_src_transform = src_transform, comp_mask_transform = mask_transform,
             comp_src_origin = src_origin, comp_mask_origin = mask_origin\<rparr>))))))))"

definition red_get_rop3_ptr :: "guest \<Rightarrow> int \<Rightarrow> u32 \<Rightarrow> spice_rop3 parse" where
  "red_get_rop3_ptr G qxl flags =
     pbind (image_at G qxl flags) (\<lambda>src.
     pbind (get_rect G (qxl + 8)) (\<lambda>area.
     pbind (red_get_brush_ptr G (qxl + 24) flags) (\<lambda>brush.
     pbind (rd G (qxl + 44)) (\<lambda>rop.
     pbind (rd G (qxl + 45)) (\<lambda>scale.
     pbind (red_get_qmask_ptr G (qxl + 46) flags) (\<lambda>mask.
       pret \<lparr>r3_src = src, r3_area = area, r3_brush = brush, r3_rop = rop, r3_scale = scale, r3_mask = mask\<rparr>))))))"

text \<open>The line style of a stroke; \<open>True\<close> is the early return with an error.\<close>

definition get_line_attr :: "guest \<Rightarrow> int \<Rightarrow> (bool \<times> spice_line_attr) parse" where
  "get_line_attr G qxl =
     pbind (rd G (qxl + 8)) (\<lambda>f :: u8.
       if bit f 3
       then pbind (rd G (qxl + 11)) (\<lambda>style_nseg :: u8.
         pbind (rd G (qxl + 20)) (\<lambda>style1 :: u64.
           passert (style1 \<noteq> 0)
             (pbind (rd G (qxl + 20)) (\<lambda>style2 :: u64.
              pbind (g_virt G style2 (ucast style_nseg * 4)) (\<lambda>(buf, error).
                if error then pret (True, \<lparr>la_flags = f, la_style_nseg = style_nseg, la_style = Unset_Style\<rparr>)
                else pbind (rd_bytes G buf (unat style_nseg * 4)) (\<lambda>bs.
                  pret (False, \<lparr>la_flags = f, la_style_nseg = style_nseg, la_style = Style bs\<rparr>)))))))
       else pret (False, \<lparr>la_flags = f, la_style_nseg = 0, la_style = No_Style\<rparr>))"

definition red_get_stroke_ptr :: "guest \<Rightarrow> int \<Rightarrow> u32 \<Rightarrow> (bool \<times> spice_stroke) parse" where
  "red_get_stroke_ptr G qxl flags =
     pbind (rd G qxl) (\<lambda>addr.
     pbind (red_get_path G addr) (\<lambda>path.
       if path = None then pret (True, zero_stroke)
       else pbind (get_line_attr G qxl) (\<lambda>(error, attr).
         if error then pret (True, zero_stroke\<lparr>sk_path := path, sk_attr := attr\<rparr>)
         else pbind (red_get_brush_ptr G (qxl + 28) flags) (\<lambda>brush.
           pbind (rd G (qxl + 48)) (\<lambda>fore_mode.
           pbind (rd G (qxl + 50)) (\<lambda>back_mode.
             pret (False, \<lparr>sk_path = path, sk_attr = attr, sk_brush = brush, sk_fore_mode = fore_mode,
               sk_back_mode = back_mode\<rparr>)))))))"

definition red_get_text_ptr :: "guest \<Rightarrow> int \<Rightarrow> u32 \<Rightarrow> spice_text parse" where
  "red_get_text_ptr G qxl flags =
     pbind (rd G qxl) (\<lambda>addr.
     pbind (red_get_string G addr) (\<lambda>str.
     pbind (get_rect G (qxl + 8)) (\<lambda>area.
     pbind (red_get_brush_ptr G (qxl + 24) flags) (\<lambda>fore_brush.
     pbind (red_get_brush_ptr G (qxl + 44) flags) (\<lambda>back_brush.
     pbind (rd G (qxl + 64)) (\<lambda>fore_mode.
     pbind (rd G (qxl + 66)) (\<lambda>back_mode.
       pret \<lparr>tx_str = str, tx_area = area, tx_fore_brush = fore_brush, tx_back_brush = back_brush,
             tx_fore_mode = fore_mode, tx_back_mode = back_mode\<rparr>)))))))"


section \<open>Drawables\<close>

record spice_clip =
  clip_type :: u8
  clip_rects :: "spice_rect list option"

record red_drawable =
  dr_release_info :: int
  dr_surface_id :: u32
  dr_effect :: u8
  dr_type :: u8
  dr_self_bitmap :: u8
  dr_self_bitmap_area :: spice_rect
  dr_self_bitmap_image :: "spice_image option"
  dr_bbox :: spice_rect
  dr_clip :: spice_clip
  dr_mm_time :: u32
  dr_surfaces_dest :: "u32 list"
  dr_surfaces_rects :: "spice_rect list"
  dr_data :: draw_data

text \<open>What the worker passes: \<open>red_drawable_new\<close> clears it.\<close>

definition new_drawable :: red_drawable where
  "new_drawable = \<lparr>dr_release_info = 0, dr_surface_id = 0, dr_effect = 0, dr_type = 0, dr_self_bitmap = 0,
     dr_self_bitmap_area = zero_rect, dr_self_bitmap_image = None, dr_bbox = zero_rect,
     dr_clip = \<lparr>clip_type = 0, clip_rects = None\<rparr>, dr_mm_time = 0, dr_surfaces_dest = [0, 0, 0],
     dr_surfaces_rects = [zero_rect, zero_rect, zero_rect], dr_data = Draw_Nop\<rparr>"

definition red_get_clip_ptr :: "guest \<Rightarrow> int \<Rightarrow> spice_clip parse" where
  "red_get_clip_ptr G qxl =
     pbind (rd G qxl) (\<lambda>type :: u32.
       if (ucast type :: u8) = 1
       then pbind (rd G (qxl + 4)) (\<lambda>data. pbind (red_get_clip_rects G data) (\<lambda>rects.
         pret \<lparr>clip_type = 1, clip_rects = rects\<rparr>))
       else pret \<lparr>clip_type = ucast type, clip_rects = None\<rparr>)"

text \<open>The cases of the two switches that are the same. An unknown type is an error.\<close>

definition get_draw :: "guest \<Rightarrow> int \<Rightarrow> u8 \<Rightarrow> u32 \<Rightarrow> (bool \<times> draw_data) parse" where
  "get_draw G u type flags =
     (if type = 0 then pret (False, Draw_Nop)
      else if type = 1 then pbind (red_get_fill_ptr G u flags) (\<lambda>d. pret (False, Draw_Fill d))
      else if type = 2 then pbind (red_get_opaque_ptr G u flags) (\<lambda>d. pret (False, Draw_Opaque d))
      else if type = 3 then pbind (red_get_copy_ptr G u flags) (\<lambda>(error, d). pret (error, Draw_Copy d))
      else if type = 5 then pbind (red_get_blend_ptr G u flags) (\<lambda>d. pret (False, Draw_Blend d))
      else if type = 6 then pbind (red_get_qmask_ptr G u flags) (\<lambda>d. pret (False, Draw_Blackness d))
      else if type = 7 then pbind (red_get_qmask_ptr G u flags) (\<lambda>d. pret (False, Draw_Whiteness d))
      else if type = 8 then pbind (red_get_qmask_ptr G u flags) (\<lambda>d. pret (False, Draw_Invers d))
      else if type = 9 then pbind (red_get_rop3_ptr G u flags) (\<lambda>d. pret (False, Draw_Rop3 d))
      else if type = 10 then pbind (red_get_stroke_ptr G u flags) (\<lambda>(error, d). pret (error, Draw_Stroke d))
      else if type = 11 then pbind (red_get_text_ptr G u flags) (\<lambda>d. pret (False, Draw_Text d))
      else if type = 12 then pbind (red_get_transparent_ptr G u flags) (\<lambda>d. pret (False, Draw_Transparent d))
      else pret (True, Draw_Nop))"

definition get_native_draw :: "guest \<Rightarrow> int \<Rightarrow> u8 \<Rightarrow> u32 \<Rightarrow> (bool \<times> draw_data) parse" where
  "get_native_draw G u type flags =
     (if type = 4 then pbind (red_get_point_ptr G (Guest u) 0) (\<lambda>p. pret (False, Copy_Bits p))
      else if type = 13 then pbind (red_get_alpha_blend_ptr G u flags) (\<lambda>d. pret (False, Draw_Alpha_Blend d))
      else if type = 14 then pbind (red_get_composite_ptr G u flags) (\<lambda>d. pret (False, Draw_Composite d))
      else get_draw G u type flags)"

definition get_compat_draw :: "guest \<Rightarrow> int \<Rightarrow> u8 \<Rightarrow> u32 \<Rightarrow> (bool \<times> draw_data) parse" where
  "get_compat_draw G u type flags =
     (if type = 4 then pbind (red_get_point_ptr G (Guest u) 0) (\<lambda>p. pret (False, Copy_Bits p))
      else if type = 13 then pbind (red_get_alpha_blend_ptr_compat G u flags) (\<lambda>d. pret (False, Draw_Alpha_Blend d))
      else get_draw G u type flags)"

text \<open>The type of a drawable and what the switch on it parses.\<close>

definition typed :: "u8 parse \<Rightarrow> (u8 \<Rightarrow> (bool \<times> draw_data) parse) \<Rightarrow> (u8 \<times> bool \<times> draw_data) parse" where
  "typed get_type get = pbind get_type (\<lambda>type. pbind (get type) (\<lambda>(error, d). pret (type, error, d)))"

definition red_get_native_drawable :: "guest \<Rightarrow> red_drawable \<Rightarrow> u64 \<Rightarrow> u32 \<Rightarrow> (bool \<times> red_drawable) parse" where
  "red_get_native_drawable G red addr flags =
     pbind (g_virt G addr 191) (\<lambda>(qxl, error).
       if error then pret (True, red)
       else pbind (get_rect G (qxl + 31)) (\<lambda>bbox.
         pbind (red_get_clip_ptr G (qxl + 47)) (\<lambda>clip.
         pbind (rd G (qxl + 12)) (\<lambda>effect.
         pbind (rd G (qxl + 59)) (\<lambda>mm_time.
         pbind (rd G (qxl + 14)) (\<lambda>self_bitmap.
         pbind (get_rect G (qxl + 15)) (\<lambda>self_bitmap_area.
         pbind (rd G (qxl + 8)) (\<lambda>surface_id.
         pbind (prepeat (\<lambda>i. pbind (rd G (qxl + 63 + 4 * int i)) (\<lambda>d. pbind (get_rect G (qxl + 75 + 16 * int i)) (\<lambda>r. pret (d, r)))) 0 3) (\<lambda>dests.
         pbind (typed (rd G (qxl + 13)) (\<lambda>type. get_native_draw G (qxl + 123) type flags)) (\<lambda>(type, error, d).
           pret (error, red\<lparr>dr_release_info := qxl, dr_bbox := bbox, dr_clip := clip, dr_effect := effect, dr_mm_time := mm_time,
             dr_self_bitmap := self_bitmap, dr_self_bitmap_area := self_bitmap_area, dr_surface_id := surface_id,
             dr_surfaces_dest := map fst dests, dr_surfaces_rects := map snd dests, dr_type := type, dr_data := d\<rparr>)))))))))))"

text \<open>The source area of a \<open>QXL_COPY_BITS\<close>, computed in \<open>int\<close>; the sums wrap.\<close>

definition copy_bits_rect :: "spice_point \<Rightarrow> spice_rect \<Rightarrow> spice_rect" where
  "copy_bits_rect src_pos bbox =
     \<lparr>rect_left = pt_x src_pos, rect_top = pt_y src_pos,
      rect_right = pt_x src_pos + (rect_right bbox - rect_left bbox), rect_bottom = pt_y src_pos + (rect_bottom bbox - rect_top bbox)\<rparr>"

definition red_get_compat_drawable :: "guest \<Rightarrow> red_drawable \<Rightarrow> u64 \<Rightarrow> u32 \<Rightarrow> (bool \<times> red_drawable) parse" where
  "red_get_compat_drawable G red addr flags =
     pbind (g_virt G addr 128) (\<lambda>(qxl, error).
       if error then pret (True, red)
       else pbind (get_rect G (qxl + 28)) (\<lambda>bbox.
         pbind (red_get_clip_ptr G (qxl + 44)) (\<lambda>clip.
         pbind (rd G (qxl + 8)) (\<lambda>effect.
         pbind (rd G (qxl + 56)) (\<lambda>mm_time.
         pbind (rd G (qxl + 10)) (\<lambda>bitmap_offset :: u16.
         pbind (get_rect G (qxl + 12)) (\<lambda>bitmap_area.
         pbind (typed (rd G (qxl + 9)) (\<lambda>type. get_compat_draw G (qxl + 60) type flags)) (\<lambda>(type, error, d).
           pret (error, red\<lparr>dr_release_info := qxl, dr_bbox := bbox, dr_clip := clip, dr_effect := effect, dr_mm_time := mm_time,
             dr_self_bitmap := of_bool (bitmap_offset \<noteq> 0), dr_self_bitmap_area := bitmap_area,
             dr_surfaces_dest := (case d of Copy_Bits p \<Rightarrow> [0, - 1, - 1] | _ \<Rightarrow> [- 1, - 1, - 1]),
             dr_surfaces_rects := (case d of Copy_Bits p \<Rightarrow> (dr_surfaces_rects red)[0 := copy_bits_rect p bbox] | _ \<Rightarrow> dr_surfaces_rects red),
             dr_type := type, dr_data := d\<rparr>)))))))))"

definition red_get_drawable :: "guest \<Rightarrow> red_drawable \<Rightarrow> u64 \<Rightarrow> u32 \<Rightarrow> (bool \<times> red_drawable) parse" where
  "red_get_drawable G red addr flags =
     (if bit flags 0 then red_get_compat_drawable G red addr flags else red_get_native_drawable G red addr flags)"

text \<open>Releasing a drawable releases every image in it; the rest of what it frees has no effect here.\<close>

definition red_put_fill :: "spice_fill \<Rightarrow> unit res" where
  "red_put_fill red = rbind (red_put_brush (fill_brush red)) (\<lambda>_. red_put_qmask (fill_mask red))"

definition red_put_opaque :: "spice_opaque \<Rightarrow> unit res" where
  "red_put_opaque red = rbind (red_put_image (opq_src red)) (\<lambda>_. rbind (red_put_brush (opq_brush red)) (\<lambda>_. red_put_qmask (opq_mask red)))"

definition red_put_copy :: "spice_copy \<Rightarrow> unit res" where
  "red_put_copy red = rbind (red_put_image (cp_src red)) (\<lambda>_. red_put_qmask (cp_mask red))"

definition red_put_blend :: "spice_copy \<Rightarrow> unit res" where
  "red_put_blend red = rbind (red_put_image (cp_src red)) (\<lambda>_. red_put_qmask (cp_mask red))"

definition red_put_transparent :: "spice_transparent \<Rightarrow> unit res" where
  "red_put_transparent red = red_put_image (tr_src red)"

definition red_put_alpha_blend :: "spice_alpha_blend \<Rightarrow> unit res" where
  "red_put_alpha_blend red = red_put_image (ab_src red)"

definition red_put_composite :: "spice_composite \<Rightarrow> unit res" where
  "red_put_composite red =
     rbind (red_put_image (comp_src red)) (\<lambda>_. if comp_mask red \<noteq> None then red_put_image (comp_mask red) else Inr ())"

definition red_put_rop3 :: "spice_rop3 \<Rightarrow> unit res" where
  "red_put_rop3 red = rbind (red_put_image (r3_src red)) (\<lambda>_. rbind (red_put_brush (r3_brush red)) (\<lambda>_. red_put_qmask (r3_mask red)))"

definition red_put_stroke :: "spice_stroke \<Rightarrow> unit res" where
  "red_put_stroke red = red_put_brush (sk_brush red)"

definition red_put_text_ptr :: "spice_text \<Rightarrow> unit res" where
  "red_put_text_ptr red = rbind (red_put_brush (tx_fore_brush red)) (\<lambda>_. red_put_brush (tx_back_brush red))"

definition red_put_drawable :: "red_drawable \<Rightarrow> unit res" where
  "red_put_drawable red =
     rbind (if dr_self_bitmap_image red \<noteq> None then red_put_image (dr_self_bitmap_image red) else Inr ()) (\<lambda>_.
       case dr_data red of
         Draw_Alpha_Blend d \<Rightarrow> red_put_alpha_blend d
       | Draw_Blackness d \<Rightarrow> red_put_qmask d
       | Draw_Blend d \<Rightarrow> red_put_blend d
       | Draw_Copy d \<Rightarrow> red_put_copy d
       | Draw_Fill d \<Rightarrow> red_put_fill d
       | Draw_Opaque d \<Rightarrow> red_put_opaque d
       | Draw_Invers d \<Rightarrow> red_put_qmask d
       | Draw_Rop3 d \<Rightarrow> red_put_rop3 d
       | Draw_Composite d \<Rightarrow> red_put_composite d
       | Draw_Stroke d \<Rightarrow> red_put_stroke d
       | Draw_Text d \<Rightarrow> red_put_text_ptr d
       | Draw_Transparent d \<Rightarrow> red_put_transparent d
       | Draw_Whiteness d \<Rightarrow> red_put_qmask d
       | Draw_Nop \<Rightarrow> Inr ()
       | Copy_Bits _ \<Rightarrow> Inr ())"


section \<open>Update, message and surface commands\<close>

record red_update_cmd =
  up_release_info :: int
  up_area :: spice_rect
  up_update_id :: u32
  up_surface_id :: u32

definition red_get_update_cmd :: "guest \<Rightarrow> red_update_cmd \<Rightarrow> u64 \<Rightarrow> (bool \<times> red_update_cmd) parse" where
  "red_get_update_cmd G red addr =
     pbind (g_virt G addr 32) (\<lambda>(qxl, error).
       if error then pret (True, red)
       else pbind (get_rect G (qxl + 8)) (\<lambda>area.
         pbind (rd G (qxl + 24)) (\<lambda>update_id.
         pbind (rd G (qxl + 28)) (\<lambda>surface_id.
           pret (False, \<lparr>up_release_info = qxl, up_area = area, up_update_id = update_id, up_surface_id = surface_id\<rparr>)))))"

record red_message =
  msg_release_info :: int
  msg_data :: int

definition red_get_message :: "guest \<Rightarrow> red_message \<Rightarrow> u64 \<Rightarrow> (bool \<times> red_message) parse" where
  "red_get_message G red addr =
     pbind (g_virt G addr 8) (\<lambda>(qxl, error).
       if error then pret (True, red) else pret (False, \<lparr>msg_release_info = qxl, msg_data = qxl + 8\<rparr>))"

record red_surface_create =
  sf_format :: u32
  sf_width :: u32
  sf_height :: u32
  sf_stride :: u32
  sf_data :: int

record red_surface_cmd =
  sc_release_info :: int
  sc_surface_id :: u32
  sc_type :: u8
  sc_flags :: u32
  sc_create :: red_surface_create

definition surface_format_to_bpp :: "u32 \<Rightarrow> nat" where
  "surface_format_to_bpp format =
     (if format = 1 then 1 else if format = 8 then 8 else if format = 16 \<or> format = 80 then 16
      else if format = 32 \<or> format = 96 then 32 else 0)"

definition get_surface_create :: "guest \<Rightarrow> red_surface_create \<Rightarrow> int \<Rightarrow> (bool \<times> red_surface_create) parse" where
  "get_surface_create G red qxl =
     pbind (rd G (qxl + 17)) (\<lambda>format.
     pbind (rd G (qxl + 21)) (\<lambda>width.
     pbind (rd G (qxl + 25)) (\<lambda>height.
     pbind (rd G (qxl + 29)) (\<lambda>stride.
       let red = red\<lparr>sf_format := format, sf_width := width, sf_height := height, sf_stride := stride\<rparr>;
           bpp = surface_format_to_bpp format;
           sz = nat \<bar>sint stride\<bar> in
       if bpp = 0 then pret (True, red)
       else if sint stride = - (2 ^ 31) \<or> (unat width * bpp + 7) div 8 > sz then pret (True, red)
       else if int (unat height * sz) > MAX_DATA_CHUNK then pret (True, red)
       else pbind (rd G (qxl + 33)) (\<lambda>addr.
         pbind (g_virt G addr (of_nat (unat height * sz))) (\<lambda>(data, error).
           pret (error, red\<lparr>sf_data := data\<rparr>)))))))"

definition red_get_surface_cmd :: "guest \<Rightarrow> red_surface_cmd \<Rightarrow> u64 \<Rightarrow> (bool \<times> red_surface_cmd) parse" where
  "red_get_surface_cmd G red addr =
     pbind (g_virt G addr 41) (\<lambda>(qxl, error).
       if error then pret (True, red)
       else pbind (rd G (qxl + 8)) (\<lambda>surface_id.
         pbind (rd G (qxl + 12)) (\<lambda>type.
         pbind (rd G (qxl + 13)) (\<lambda>flags.
           let red = red\<lparr>sc_release_info := qxl, sc_surface_id := surface_id, sc_type := type, sc_flags := flags\<rparr> in
           if type = 0
           then pbind (get_surface_create G (sc_create red) qxl) (\<lambda>(error, c). pret (error, red\<lparr>sc_create := c\<rparr>))
           else pret (False, red)))))"


section \<open>Cursor commands\<close>

record spice_cursor =
  cur_flags :: u32
  cur_unique :: u64
  cur_type :: u16
  cur_width :: u16
  cur_height :: u16
  cur_hot_spot_x :: u16
  cur_hot_spot_y :: u16
  cur_data_size :: u32
  cur_data :: "u8 list"

definition zero_cursor :: spice_cursor where
  "zero_cursor = \<lparr>cur_flags = 0, cur_unique = 0, cur_type = 0, cur_width = 0, cur_height = 0, cur_hot_spot_x = 0,
     cur_hot_spot_y = 0, cur_data_size = 0, cur_data = []\<rparr>"

datatype cursor_data = Cursor_Set spice_point16 u8 spice_cursor | Cursor_Move spice_point16 | Cursor_Trail u16 u16 | Cursor_Other

record red_cursor_cmd =
  cc_release_info :: int
  cc_type :: u8
  cc_data :: cursor_data

definition red_get_cursor :: "guest \<Rightarrow> u64 \<Rightarrow> (bool \<times> spice_cursor) parse" where
  "red_get_cursor G addr =
     pbind (g_virt G addr 42) (\<lambda>(qxl, error).
       if error then pret (True, zero_cursor)
       else pbind (rd G qxl) (\<lambda>unique.
         pbind (rd G (qxl + 8)) (\<lambda>type.
         pbind (rd G (qxl + 10)) (\<lambda>width.
         pbind (rd G (qxl + 12)) (\<lambda>height.
         pbind (rd G (qxl + 14)) (\<lambda>hot_spot_x.
         pbind (rd G (qxl + 16)) (\<lambda>hot_spot_y.
         pbind (rd G (qxl + 18)) (\<lambda>data_size :: u32.
         pbind (g_slot G addr) (\<lambda>memslot_id.
         pbind (red_get_data_chunks_ptr G memslot_id (qxl + 22)) (\<lambda>(sz, chunks).
         pbind (red_linearize_chunk G chunks (unat sz)) (\<lambda>data.
         pbind (case data of Heap bs \<Rightarrow> pret bs | Guest a \<Rightarrow> rd_bytes G a (unat sz)) (\<lambda>bytes.
           pret (False, \<lparr>cur_flags = 0, cur_unique = unique, cur_type = type, cur_width = width, cur_height = height,
             cur_hot_spot_x = hot_spot_x, cur_hot_spot_y = hot_spot_y,
             cur_data_size = of_nat (min (unat data_size) (unat sz)), cur_data = bytes\<rparr>)))))))))))))"

definition red_get_cursor_cmd :: "guest \<Rightarrow> red_cursor_cmd \<Rightarrow> u64 \<Rightarrow> (bool \<times> red_cursor_cmd) parse" where
  "red_get_cursor_cmd G red addr =
     pbind (g_virt G addr 150) (\<lambda>(qxl, error).
       if error then pret (True, red)
       else pbind (rd G (qxl + 8)) (\<lambda>type :: u8.
         pbind
           (if type = 0 then
              pbind (red_get_point16_ptr G (qxl + 9)) (\<lambda>position.
              pbind (rd G (qxl + 13)) (\<lambda>visible.
              pbind (rd G (qxl + 14)) (\<lambda>shape_addr.
              pbind (red_get_cursor G shape_addr) (\<lambda>(error, shape). pret (error, Cursor_Set position visible shape)))))
            else if type = 1 then pbind (red_get_point16_ptr G (qxl + 9)) (\<lambda>position. pret (False, Cursor_Move position))
            else if type = 3 then
              pbind (rd G (qxl + 9)) (\<lambda>len. pbind (rd G (qxl + 11)) (\<lambda>frequency. pret (False, Cursor_Trail len frequency)))
            else pret (False, Cursor_Other)) (\<lambda>(error, d).
         pret (error, red\<lparr>cc_release_info := qxl, cc_type := type, cc_data := d\<rparr>))))"

end
