(* ===== verification/Qxl_Safety.thy ===== *)
theory Qxl_Safety
  imports Qxl_Command
begin

text \<open>
  Parsing QXL commands whatever the guest has in its memory and however it changes it meanwhile: every read stays inside
  the slots of the command's group, and what is returned points into them. The exceptions are paths and strings, whose
  loops read their data twice.
\<close>

section \<open>Rules for the steps of a parser\<close>

lemma safe_bind_rd [safe_rules]:
  "in_guest G a (LENGTH('w::len) div 8) \<Longrightarrow> (\<And>x :: 'w word. safe Q (f x)) \<Longrightarrow> safe Q (pbind (rd G a) f)"
  by (rule safe_bind [OF safe_rd])

lemma safe_bind_rd_bytes [safe_rules]:
  "in_guest G a n \<Longrightarrow> (\<And>x. length x = n \<Longrightarrow> safe Q (f x)) \<Longrightarrow> safe Q (pbind (rd_bytes G a n) f)"
  by (rule safe_bind [OF safe_rd_bytes])

lemma safe_bind_virt [safe_rules]:
  assumes "guest_ok G"
    and "\<And>v e. (e \<longrightarrow> \<not> g_fatal G) \<and> (\<not> e \<longrightarrow> in_guest G v (unat n) \<and> 0 \<le> v \<and> v + int (unat n) < 2 ^ 64) \<Longrightarrow> safe Q (f (v, e))"
  shows "safe Q (pbind (g_virt G addr n) f)"
  by (rule safe_bind [OF safe_g_virt [OF assms(1)]]) (use assms(2) in auto)

lemma safe_bind_slot [safe_rules]:
  "guest_ok G \<Longrightarrow> (\<And>s. s < num_memslots (g_info G) \<Longrightarrow> safe Q (f s)) \<Longrightarrow> safe Q (pbind (g_slot G addr) f)"
  by (rule safe_bind [OF safe_g_slot])

lemma safe_bind_valid [safe_rules]:
  "guest_ok G \<Longrightarrow> s < num_memslots (g_info G) \<Longrightarrow> 0 \<le> a \<Longrightarrow> a < 2 ^ 64 \<Longrightarrow> (\<And>ok. if ok then in_guest G a (unat n) else \<not> g_fatal G \<Longrightarrow> safe Q (f ok)) \<Longrightarrow>
    safe Q (pbind (g_valid G a s n) f)"
  by (rule safe_bind [OF safe_g_valid])

lemma safe_let [safe_rules]: "safe Q (f x) \<Longrightarrow> safe Q (Let x f)"
  by simp

lemma in_guest_at: "in_guest G a n \<Longrightarrow> 0 \<le> k \<Longrightarrow> k + int m \<le> int n \<Longrightarrow> in_guest G (a + k) m"
  by (erule in_guest_sub) simp_all

lemma in_guest_less: "in_guest G a n \<Longrightarrow> m \<le> n \<Longrightarrow> in_guest G a m"
  by (erule in_guest_sub) simp_all

lemmas in_guest_rules = in_guest_at in_guest_less


section \<open>Chunks\<close>

definition data_limit :: nat where
  "data_limit = 0x7fffffff"

lemma data_limit_iff [simp]:
  "MAX_DATA_CHUNK < int n \<longleftrightarrow> data_limit < n" "MAX_DATA_CHUNK < uint w \<longleftrightarrow> data_limit < unat w"
  "MAX_DATA_CHUNK < uint x * uint y \<longleftrightarrow> data_limit < unat x * unat y" "MAX_DATA_CHUNK < uint x * \<bar>z\<bar> \<longleftrightarrow> data_limit < unat x * nat \<bar>z\<bar>"
proof -
  show n: "MAX_DATA_CHUNK < int n \<longleftrightarrow> data_limit < n" for n by (simp add: MAX_DATA_CHUNK_def data_limit_def)
  from n [of "unat w"] n [of "unat x * unat y"] n [of "unat x * nat \<bar>z\<bar>"]
  show "MAX_DATA_CHUNK < uint w \<longleftrightarrow> data_limit < unat w" "MAX_DATA_CHUNK < uint x * uint y \<longleftrightarrow> data_limit < unat x * unat y"
    "MAX_DATA_CHUNK < uint x * \<bar>z\<bar> \<longleftrightarrow> data_limit < unat x * nat \<bar>z\<bar>" by simp_all
qed

lemma count_limit_iff [simp]: "uint c < 536870911 \<longleftrightarrow> unat c < 536870911"
  using uint_less_of_unat [of c 536870911] by simp

definition chunks_in :: "guest \<Rightarrow> red_data_chunk list \<Rightarrow> bool" where
  "chunks_in G red \<longleftrightarrow> red \<noteq> [] \<and> list_all (\<lambda>c. in_guest G (chunk_data c) (unat (chunk_size c))) red"

definition chunks_total :: "red_data_chunk list \<Rightarrow> nat" where
  "chunks_total red = sum_list (map (\<lambda>c. unat (chunk_size c)) red)"

text \<open>
  What the parser gets of a list of chunks: all of them inside the guest's memory, and their total. Data in a single chunk can be as
  long as a slot, in several it is at most \<open>MAX_DATA_CHUNK\<close>. If a critical error is not fatal, the size may be zero without that.
\<close>

definition guest_chunks_ok :: "guest \<Rightarrow> u64 \<times> red_data_chunk list \<Rightarrow> bool" where
  "guest_chunks_ok G r \<longleftrightarrow> (case r of (sz, red) \<Rightarrow>
     chunks_in G red \<and> unat sz = chunks_total red \<and> (unat sz \<le> data_limit \<or> length red = 1) \<or>
     sz = 0 \<and> length red = 1 \<and> \<not> g_fatal G)"

lemma no_guest_chunks_ok [simp]: "guest_chunks_ok G no_chunks"
  by (simp add: guest_chunks_ok_def no_chunks_def chunks_in_def chunks_total_def)

lemma chunks_in_snoc: "chunks_in G (red @ [c]) \<longleftrightarrow> (red = [] \<or> chunks_in G red) \<and> in_guest G (chunk_data c) (unat (chunk_size c))"
  by (auto simp: chunks_in_def)

lemma chunks_total_snoc [simp]: "chunks_total (red @ [c]) = chunks_total red + unat (chunk_size c)"
  by (simp add: chunks_total_def)

lemma guest_chunks_okI: "chunks_in G red \<Longrightarrow> unat sz = chunks_total red \<Longrightarrow> unat sz \<le> data_limit \<or> length red = 1 \<Longrightarrow> guest_chunks_ok G (sz, red)"
  by (simp add: guest_chunks_ok_def)

lemma chunk_loop_safe:
  "guest_ok G \<Longrightarrow> in_guest G qxl 20 \<Longrightarrow> chunks_in G red \<Longrightarrow> unat sz = chunks_total red \<Longrightarrow>
    unat sz \<le> data_limit \<or> length red = 1 \<and> unat sz < 2 ^ 32 \<Longrightarrow> safe (guest_chunks_ok G) (chunk_loop G n qxl sz red)"
proof (induction G n qxl sz red rule: chunk_loop.induct)
  case (1 G n qxl sz red)
  have sum: "unat (sz + ucast k) = unat sz + unat k" for k :: u32
  proof -
    have "unat sz < 2 ^ 32" using "1.prems"(5) by (auto simp: data_limit_def)
    moreover have "unat k < 2 ^ 32" using unsigned_less [of k] by simp
    ultimately show ?thesis by (simp add: unat_word_ariths unsigned_ucast_eq)
  qed
  show ?case
    unfolding chunk_loop.simps [of G n]
    using "1.prems"
    by (intro safe_rules no_guest_chunks_ok; auto simp: sum chunks_in_snoc intro: in_guest_rules guest_chunks_okI intro!: "1.IH")
qed

lemma data_chunks_ptr_safe:
  assumes "guest_ok G" "in_guest G qxl 20" "0 \<le> qxl" "qxl + 20 < 2 ^ 64" "slot_id < num_memslots (g_info G)"
  shows "safe (guest_chunks_ok G) (red_get_data_chunks_ptr G slot_id qxl)"
proof -
  have "unat (ucast k :: u64) = unat k \<and> unat k < 2 ^ 32" for k :: u32 using unsigned_less [of k] by (simp add: unsigned_ucast_eq)
  moreover have "guest_chunks_ok G (0, [\<lparr>chunk_size = k, chunk_data = 0\<rparr>])" if "\<not> g_fatal G" for k using that by (simp add: guest_chunks_ok_def)
  ultimately show ?thesis
    unfolding red_get_data_chunks_ptr_def using assms
    by (intro safe_rules chunk_loop_safe; auto simp: chunks_in_def chunks_total_def intro: in_guest_rules)
qed

lemma safe_bind_chunks_ptr [safe_rules]:
  assumes "guest_ok G" "in_guest G qxl 20" "0 \<le> qxl" "qxl + 20 < 2 ^ 64" "slot_id < num_memslots (g_info G)"
    and "\<And>sz red. guest_chunks_ok G (sz, red) \<Longrightarrow> safe Q (f (sz, red))"
  shows "safe Q (pbind (red_get_data_chunks_ptr G slot_id qxl) f)"
  by (rule safe_bind [OF data_chunks_ptr_safe [OF assms(1-5)]]) (use assms(6) in auto)

lemma safe_bind_chunks [safe_rules]:
  assumes "guest_ok G"
    and "\<And>sz red. (case red of None \<Rightarrow> sz = 0 \<and> \<not> g_fatal G | Some red \<Rightarrow> guest_chunks_ok G (sz, red)) \<Longrightarrow> safe Q (f (sz, red))"
  shows "safe Q (pbind (red_get_data_chunks G addr) f)"
proof (rule safe_bind [where P = "\<lambda>(sz, red). case red of None \<Rightarrow> sz = 0 \<and> \<not> g_fatal G | Some red \<Rightarrow> guest_chunks_ok G (sz, red)"])
  show "safe (\<lambda>(sz, red). case red of None \<Rightarrow> sz = 0 \<and> \<not> g_fatal G | Some red \<Rightarrow> guest_chunks_ok G (sz, red)) (red_get_data_chunks G addr)"
    unfolding red_get_data_chunks_def using assms(1) by (intro safe_rules) auto
qed (use assms(2) in auto)

definition buf_ok :: "guest \<Rightarrow> buffer \<Rightarrow> nat \<Rightarrow> bool" where
  "buf_ok G b n \<longleftrightarrow> (case b of Guest a \<Rightarrow> in_guest G a n | Heap bs \<Rightarrow> length bs = n)"

lemma copy_chunks_safe:
  "list_all (\<lambda>c. in_guest G (chunk_data c) (unat (chunk_size c))) red \<Longrightarrow> n \<le> chunks_total red \<Longrightarrow> safe (\<lambda>bs. length bs = n) (copy_chunks G red n)"
proof (induction red arbitrary: n)
  case (Cons c red)
  let ?k = "min (unat (chunk_size c)) n"
  have "safe (\<lambda>bs. length bs = n - ?k) (copy_chunks G red (n - ?k))" by (rule Cons.IH) (use Cons.prems in \<open>auto simp: chunks_total_def\<close>)
  note rest = safe_bind [OF this]
  show ?case
    unfolding copy_chunks.simps using Cons.prems(1) by (intro safe_rules rest; auto intro: in_guest_rules)
qed (auto simp: chunks_total_def intro: safe_rules)

lemma safe_bind_linearize [safe_rules]:
  assumes "guest_chunks_ok G (sz, red)" "\<And>b. buf_ok G b (unat sz) \<Longrightarrow> safe Q (f b)"
  shows "safe Q (pbind (red_linearize_chunk G red (unat sz)) f)"
proof (rule safe_bind [OF _ assms(2)])
  consider c where "red = [c]" "in_guest G (chunk_data c) (unat sz)"
    | "length red \<noteq> 1" "chunks_in G red" "unat sz = chunks_total red"
    using assms(1) by (cases "length red = 1") (auto simp: guest_chunks_ok_def chunks_in_def chunks_total_def length_Suc_conv)
  then show "safe (\<lambda>b. buf_ok G b (unat sz)) (red_linearize_chunk G red (unat sz))"
  proof cases
    case 2
    then have "safe (\<lambda>bs. length bs = unat sz) (copy_chunks G red (unat sz))" by (intro copy_chunks_safe) (simp_all add: chunks_in_def)
    then have "safe (\<lambda>b. buf_ok G b (unat sz)) (pbind (copy_chunks G red (unat sz)) (\<lambda>bs. pret (Heap bs)))"
      by (rule safe_bind) (simp add: safe_pret buf_ok_def)
    moreover have "red_linearize_chunk G red (unat sz) = pbind (copy_chunks G red (unat sz)) (\<lambda>bs. pret (Heap bs))"
      using 2(1) by (auto simp: red_linearize_chunk_def simp del: copy_chunks.simps split: list.split)
    ultimately show ?thesis by simp
  qed (auto simp: red_linearize_chunk_def buf_ok_def intro!: safe_rules)
qed

lemma safe_bind_fetch_bytes [safe_rules]:
  "buf_ok G b n \<Longrightarrow> off + k \<le> n \<Longrightarrow> (\<And>x. length x = k \<Longrightarrow> safe Q (f x)) \<Longrightarrow> safe Q (pbind (fetch_bytes G b off k) f)"
proof (cases b)
  case (Heap bs)
  then show "buf_ok G b n \<Longrightarrow> off + k \<le> n \<Longrightarrow> (\<And>x. length x = k \<Longrightarrow> safe Q (f x)) \<Longrightarrow> safe Q (pbind (fetch_bytes G b off k) f)"
    by (simp add: fetch_bytes_def buf_ok_def safe_def parse_apply)
qed (auto simp: fetch_bytes_def buf_ok_def intro!: safe_rules in_guest_at)

lemma safe_bind_fetch [safe_rules]:
  "buf_ok G b n \<Longrightarrow> off + LENGTH('w::len) div 8 \<le> n \<Longrightarrow> (\<And>x :: 'w word. safe Q (f x)) \<Longrightarrow> safe Q (pbind (fetch G b off) f)"
  unfolding fetch_def by (rule safe_bind [where P = "\<lambda>_. True"]) (auto intro: safe_rules)

lemma safe_bind_point [safe_rules]:
  "buf_ok G b n \<Longrightarrow> off + 8 \<le> n \<Longrightarrow> (\<And>x. safe Q (f x)) \<Longrightarrow> safe Q (pbind (red_get_point_ptr G b off) f)"
  unfolding red_get_point_ptr_def by (rule safe_bind [where P = "\<lambda>_. True"]) (auto intro!: safe_rules)

lemma rect_ptr_safe: "buf_ok G b n \<Longrightarrow> off + 16 \<le> n \<Longrightarrow> safe (\<lambda>_. True) (red_get_rect_ptr G b off)"
  unfolding red_get_rect_ptr_def by (intro safe_rules) auto

lemma safe_bind_rect [safe_rules]: "in_guest G a 16 \<Longrightarrow> (\<And>x. safe Q (f x)) \<Longrightarrow> safe Q (pbind (get_rect G a) f)"
  unfolding get_rect_def by (rule safe_bind [OF rect_ptr_safe [where n = 16]]) (simp_all add: buf_ok_def)

lemma safe_bind_clip_rects [safe_rules]:
  assumes "guest_ok G" "\<And>r. safe Q (f r)"
  shows "safe Q (pbind (red_get_clip_rects G addr) f)"
proof (rule safe_bind [where P = "\<lambda>_. True", OF _ assms(2)])
  have "safe (\<lambda>r. True) (pbind (prepeat (\<lambda>i. red_get_rect_ptr G b (16 * i)) 0 (unat k)) (\<lambda>rects. pret (Some rects)))"
    if "buf_ok G b (unat (sz :: u64))" "unat k * 16 = unat sz" for b sz and k :: u32
    by (rule safe_bind [OF safe_prepeat [OF rect_ptr_safe [OF that(1)]]]) (use that(2) in \<open>auto intro: safe_pret\<close>)
  then show "safe (\<lambda>_. True) (red_get_clip_rects G addr)"
    unfolding red_get_clip_rects_def using assms(1) by (intro safe_rules; auto intro: in_guest_rules)
qed


section \<open>Images\<close>

text \<open>
  What the worker may rely on in an image: the chunks of its data are inside the guest's memory and have together the size its
  dimensions or its header say, a line is wide enough, and a palette has its entries.
\<close>

definition data_in :: "guest \<Rightarrow> spice_chunks \<Rightarrow> nat \<Rightarrow> bool" where
  "data_in G d n \<longleftrightarrow> list_all (\<lambda>(p, k). in_guest G p (unat k)) (chunk_list d) \<and> sum_list (map (\<lambda>(p, k). unat k) (chunk_list d)) = n"

definition guest_image_ok :: "guest \<Rightarrow> spice_image \<Rightarrow> bool" where
  "guest_image_ok G i \<longleftrightarrow> (case img_data i of
     Bitmap b \<Rightarrow> bm_x b \<noteq> 0 \<and> bm_y b \<noteq> 0 \<and> bitmap_consistent (bm_format b) (bm_x b) (bm_stride b) \<and>
       (\<exists>d. bm_data b = Some d \<and> data_in G d (unat (bm_y b) * unat (bm_stride b))) \<and>
       (case bm_palette b of None \<Rightarrow> True | Some p \<Rightarrow> length (ents p) = unat (num_ents p))
   | Quic n d \<Rightarrow> data_in G d (unat n)
   | Surface _ \<Rightarrow> True)"

definition image_opt_ok :: "guest \<Rightarrow> spice_image option \<Rightarrow> bool" where
  "image_opt_ok G i \<longleftrightarrow> (case i of None \<Rightarrow> True | Some i \<Rightarrow> guest_image_ok G i)"

lemma image_opt_ok_simps [simp]: "image_opt_ok G None" "image_opt_ok G (Some i) \<longleftrightarrow> guest_image_ok G i"
  by (simp_all add: image_opt_ok_def)

lemma chunked_in:
  assumes "guest_chunks_ok G (sz, red)" "g_fatal G"
  shows "data_in G (red_get_image_data_chunked red) (unat sz)"
proof -
  have "list_all (\<lambda>c. in_guest G (chunk_data c) (unat (chunk_size c))) red" "unat sz = chunks_total red"
    using assms by (auto simp: guest_chunks_ok_def chunks_in_def)
  then show ?thesis by (simp add: data_in_def red_get_image_data_chunked_def chunks_total_def list_all_iff comp_def)
qed

lemma safe_bind_palette [safe_rules]:
  assumes "guest_ok G" "\<And>p. (case p of None \<Rightarrow> True | Some p \<Rightarrow> length (ents p) = unat (num_ents p)) \<Longrightarrow> safe Q (f p)"
  shows "safe Q (pbind (get_palette G addr flags) f)"
proof (rule safe_bind [OF _ assms(2)])
  let ?read = "\<lambda>qp i. pbind (rd G (qp + 10 + 4 * int i)) (\<lambda>e. pret (compat_16bpp flags e))"
  have idx: "4 + 4 * int i \<le> uint k * 4" if "i < unat k" for i and k :: u16
  proof -
    have "int i < uint k" using that by (metis of_nat_less_iff of_nat_unat)
    then show ?thesis by simp
  qed
  have len: "unat (ucast (k :: u16) * 4 :: u32) = 4 * unat k" for k
  proof -
    have "unat k < 2 ^ 16" using unsigned_less [of k] by simp
    then show ?thesis by (simp add: unat_word_ariths unsigned_ucast_eq)
  qed
  have "safe (\<lambda>p. case p of None \<Rightarrow> True | Some p \<Rightarrow> length (ents p) = unat (num_ents p))
      (pbind (prepeat (?read qp) 0 (unat k)) (\<lambda>es. pret (Some \<lparr>pal_unique = u, num_ents = k, ents = es\<rparr>)))"
    if "in_guest G (qp + 10) (unat k * 4)" for qp u and k :: u16
    by (rule safe_bind [OF safe_prepeat [where P = "\<lambda>_. True"]])
      (use idx in \<open>auto intro!: safe_rules in_guest_sub [OF that]\<close>)
  then show "safe (\<lambda>p. case p of None \<Rightarrow> True | Some p \<Rightarrow> length (ents p) = unat (num_ents p)) (get_palette G addr flags)"
    unfolding get_palette_def using assms(1) by (intro safe_rules; auto simp: len mult.commute intro: in_guest_rules)
qed

lemma safe_bind_bitmap_data [safe_rules]:
  assumes "guest_ok G" "g_fatal G" "n \<le> data_limit" "\<And>d. data_in G d n \<Longrightarrow> safe Q (f (Some d))"
  shows "safe Q (pbind (get_bitmap_data G qxl_flags addr n) f)"
proof (rule safe_bind [where P = "\<lambda>x. \<exists>d. x = Some d \<and> data_in G d n"])
  have n: "unat (of_nat n :: u32) = n" using assms(3) by (intro unat_of_nat_small) (simp add: data_limit_def)
  have u: "data_in G (d\<lparr>chunks_flags := k\<rparr>) n = data_in G d n" for d k by (simp add: data_in_def)
  have "safe (\<lambda>x. \<exists>d. x = Some d \<and> data_in G d n)
    (if bit qxl_flags 0 then red_get_image_data_flat G addr n
     else pbind (red_get_data_chunks G addr) (\<lambda>(sz, chunks). passert (unat sz = n)
       (case chunks of None \<Rightarrow> pres (Inl Uninit) | Some chunks \<Rightarrow> pret (Some (red_get_image_data_chunked chunks)))))"
    unfolding red_get_image_data_flat_def using assms(1,2) chunked_in
    by (intro safe_rules; auto simp: data_in_def n)
  then show "safe (\<lambda>x. \<exists>d. x = Some d \<and> data_in G d n) (get_bitmap_data G qxl_flags addr n)"
    unfolding get_bitmap_data_def by (rule safe_bind) (auto simp: safe_def parse_apply u)
qed (use assms(4) in blast)

lemma safe_bind_bitmap [safe_rules]:
  assumes "guest_ok G" "g_fatal G" "in_guest G qxl 48"
    and "\<And>b. (\<And>d. image_opt_ok G (map_option (\<lambda>b. \<lparr>descriptor = d, img_data = Bitmap b\<rparr>) b)) \<Longrightarrow> safe Q (f b)"
  shows "safe Q (pbind (get_bitmap G qxl flags is_mask) f)"
proof (rule safe_bind [OF _ assms(4)])
  have pal: "safe (\<lambda>x. case x of Some (Some p) \<Rightarrow> length (ents p) = unat (num_ents p) | _ \<Rightarrow> True)
      (if palette \<noteq> 0 then pbind (get_palette G palette flags) (\<lambda>rp. pret (map_option Some rp)) else pret (Some None))" for palette
    using assms(1) by (intro safe_rules; auto split: option.splits)
  show "safe (\<lambda>b. \<forall>d. image_opt_ok G (map_option (\<lambda>b. \<lparr>descriptor = d, img_data = Bitmap b\<rparr>) b)) (get_bitmap G qxl flags is_mask)"
    unfolding get_bitmap_def using assms(1-3)
    by (intro safe_rules safe_bind [OF pal]; auto simp: guest_image_ok_def intro: in_guest_rules split: option.split)
qed auto

lemma safe_bind_image [safe_rules]:
  assumes "guest_ok G" "g_fatal G" "\<And>i. image_opt_ok G i \<Longrightarrow> safe Q (f i)"
  shows "safe Q (pbind (red_get_image G addr flags is_mask) f)"
proof (rule safe_bind [OF _ assms(3)])
  let ?ok = "\<lambda>x. \<forall>d. image_opt_ok G (map_option (\<lambda>b. \<lparr>descriptor = d, img_data = b\<rparr>) x)"
  have data: "safe ?ok
      (if type = 0 then pbind (get_bitmap G qxl flags is_mask) (\<lambda>b. pret (map_option Bitmap b))
       else if type = 104 then pbind (rd G (qxl + 18)) (\<lambda>s. pret (Some (Surface s)))
       else if type = 1 then get_quic G addr qxl else pret None)"
    if "in_guest G qxl 48" "0 \<le> qxl" "qxl + 48 < 2 ^ 64" for qxl and type :: u8
    unfolding get_quic_def using assms(1,2) that
    by (intro safe_rules; auto simp: guest_image_ok_def option.map_comp comp_def dest: chunked_in intro: in_guest_rules)
  show "safe (image_opt_ok G) (red_get_image G addr flags is_mask)"
    unfolding red_get_image_def using assms(1)
    by (intro safe_rules safe_bind [OF data]; auto intro: in_guest_rules)
qed


section \<open>Drawables without paths\<close>

definition brush_image :: "spice_brush \<Rightarrow> spice_image option" where
  "brush_image b = (case brush_data b of Pattern i \<Rightarrow> i | _ \<Rightarrow> None)"

text \<open>The images of a drawable.\<close>

fun draw_images :: "draw_data \<Rightarrow> spice_image option list" where
  "draw_images Draw_Nop = []"
| "draw_images (Draw_Fill d) = [brush_image (fill_brush d), mask_bitmap (fill_mask d)]"
| "draw_images (Draw_Opaque d) = [opq_src d, brush_image (opq_brush d), mask_bitmap (opq_mask d)]"
| "draw_images (Draw_Copy d) = [cp_src d, mask_bitmap (cp_mask d)]"
| "draw_images (Copy_Bits _) = []"
| "draw_images (Draw_Blend d) = [cp_src d, mask_bitmap (cp_mask d)]"
| "draw_images (Draw_Blackness d) = [mask_bitmap d]"
| "draw_images (Draw_Whiteness d) = [mask_bitmap d]"
| "draw_images (Draw_Invers d) = [mask_bitmap d]"
| "draw_images (Draw_Rop3 d) = [r3_src d, brush_image (r3_brush d), mask_bitmap (r3_mask d)]"
| "draw_images (Draw_Stroke d) = [brush_image (sk_brush d)]"
| "draw_images (Draw_Text d) = [brush_image (tx_fore_brush d), brush_image (tx_back_brush d)]"
| "draw_images (Draw_Transparent d) = [tr_src d]"
| "draw_images (Draw_Alpha_Blend d) = [ab_src d]"
| "draw_images (Draw_Composite d) = [comp_src d, comp_mask d]"

definition draw_ok :: "guest \<Rightarrow> draw_data \<Rightarrow> bool" where
  "draw_ok G d \<longleftrightarrow> list_all (image_opt_ok G) (draw_images d)"

lemma image_put [simp]: "image_opt_ok G i \<Longrightarrow> red_put_image i = Inr ()"
  by (cases i) (auto simp: red_put_image_def guest_image_ok_def split: image_data.splits)

lemma brush_put [simp]: "image_opt_ok G (brush_image b) \<Longrightarrow> red_put_brush b = Inr ()"
  by (auto simp: red_put_brush_def brush_image_def split: brush_data.splits)

lemma drawable_put: "draw_ok G (dr_data red) \<Longrightarrow> image_opt_ok G (dr_self_bitmap_image red) \<Longrightarrow> red_put_drawable red = Inr ()"
  by (cases "dr_data red") (auto simp: red_put_drawable_def draw_ok_def red_put_qmask_def red_put_fill_def red_put_opaque_def red_put_copy_def red_put_blend_def
      red_put_transparent_def red_put_alpha_blend_def red_put_composite_def red_put_rop3_def red_put_stroke_def red_put_text_ptr_def)

lemma safe_bind_image_at [safe_rules]:
  assumes "guest_ok G" "g_fatal G" "in_guest G a 8" "\<And>i. image_opt_ok G i \<Longrightarrow> safe Q (f i)"
  shows "safe Q (pbind (image_at G a flags) f)"
proof (rule safe_bind [OF _ assms(4)])
  have "safe (image_opt_ok G) (pbind (red_get_image G addr flags False) pret)" for addr
    using assms(1,2) by (intro safe_rules)
  then show "safe (image_opt_ok G) (image_at G a flags)" unfolding image_at_def using assms(3) by (intro safe_rules) auto
qed

lemma safe_bind_brush [safe_rules]:
  assumes "guest_ok G" "g_fatal G" "in_guest G qxl 20" "\<And>b. image_opt_ok G (brush_image b) \<Longrightarrow> safe Q (f b)"
  shows "safe Q (pbind (red_get_brush_ptr G qxl flags) f)"
proof (rule safe_bind [OF _ assms(4)])
  have d: "safe (\<lambda>d. \<forall>t. image_opt_ok G (brush_image \<lparr>brush_type = t, brush_data = d\<rparr>))
      (if type = 1 then pbind (rd G (qxl + 4)) (\<lambda>color. pret (Solid (compat_16bpp flags color)))
       else if type = 2 then pbind (rd G (qxl + 4)) (\<lambda>pat. pbind (red_get_image G pat flags False) (\<lambda>i. pret (Pattern i)))
       else pret No_Brush)" for type :: u32
    using assms(1-3) by (intro safe_rules; auto simp: brush_image_def intro: in_guest_rules)
  show "safe (\<lambda>b. image_opt_ok G (brush_image b)) (red_get_brush_ptr G qxl flags)"
    unfolding red_get_brush_ptr_def using assms(3) by (intro safe_rules safe_bind [OF d]; auto intro: in_guest_rules)
qed

lemma safe_bind_mask [safe_rules]:
  assumes "guest_ok G" "g_fatal G" "in_guest G qxl 17" "\<And>m. image_opt_ok G (mask_bitmap m) \<Longrightarrow> safe Q (f m)"
  shows "safe Q (pbind (red_get_qmask_ptr G qxl flags) f)"
proof (rule safe_bind [OF _ assms(4)])
  have "buf_ok G (Guest (qxl + 1)) 8" using assms(3) by (auto simp: buf_ok_def intro: in_guest_rules)
  then show "safe (\<lambda>m. image_opt_ok G (mask_bitmap m)) (red_get_qmask_ptr G qxl flags)"
    unfolding red_get_qmask_ptr_def using assms(1-3) by (intro safe_rules; auto intro: in_guest_rules)
qed

lemma safe_bind_transform [safe_rules]:
  "guest_ok G \<Longrightarrow> (\<And>x. safe Q (f x)) \<Longrightarrow> safe Q (pbind (get_transform G addr) f)"
  unfolding get_transform_def by (rule safe_bind [where P = "\<lambda>_. True"]) (intro safe_rules; auto)+

lemma safe_bind_point16 [safe_rules]:
  "in_guest G a 4 \<Longrightarrow> (\<And>x. safe Q (f x)) \<Longrightarrow> safe Q (pbind (red_get_point16_ptr G a) f)"
  unfolding red_get_point16_ptr_def by (rule safe_bind [where P = "\<lambda>_. True"]) (intro safe_rules; auto intro: in_guest_rules)+

lemma safe_bind_copy_rest [safe_rules]:
  assumes "guest_ok G" "g_fatal G" "in_guest G qxl 44" "image_opt_ok G src" "\<And>c. image_opt_ok G (cp_src c) \<and> image_opt_ok G (mask_bitmap (cp_mask c)) \<Longrightarrow> safe Q (f c)"
  shows "safe Q (pbind (copy_rest G qxl flags src) f)"
proof (rule safe_bind [OF _ assms(5)])
  show "safe (\<lambda>c. image_opt_ok G (cp_src c) \<and> image_opt_ok G (mask_bitmap (cp_mask c))) (copy_rest G qxl flags src)"
    unfolding copy_rest_def using assms(1-4) by (intro safe_rules; auto intro: in_guest_rules)
qed

end
