(* ===== verification/Qxl_Strings.thy ===== *)
theory Qxl_Strings
  imports Qxl_Safety
begin

text \<open>
  Strings and paths are read twice: once to measure what they take, once to copy it. When the data does not change between the two
  (it is on the heap, or the guest leaves it alone) the copy of a string fits what was measured, and well-formed strings and paths
  are returned as the guest wrote them. When the guest changes data that is read in place, both write behind the memory they allocated.
\<close>

section \<open>Data that does not change\<close>

definition stable :: "guest \<Rightarrow> bool" where
  "stable G \<longleftrightarrow> (\<forall>t. g_mem G t = g_mem G 0)"

definition steady :: "guest \<Rightarrow> buffer \<Rightarrow> bool" where
  "steady G b \<longleftrightarrow> (case b of Guest _ \<Rightarrow> stable G | Heap _ \<Rightarrow> True)"

definition content :: "guest \<Rightarrow> buffer \<Rightarrow> nat \<Rightarrow> u8 list" where
  "content G b n = (case b of Guest a \<Rightarrow> map (\<lambda>i. g_mem G 0 (a + int i)) [0..<n] | Heap bs \<Rightarrow> bs)"

definition gives :: "'a parse \<Rightarrow> 'a \<Rightarrow> bool" where
  "gives m x \<longleftrightarrow> (\<forall>t. \<exists>t'. m t = Inr (x, t'))"

lemma gives_bind: "gives m x \<Longrightarrow> gives (f x) y \<Longrightarrow> gives (pbind m f) y"
  by (fastforce simp: gives_def parse_apply pbind_def)

lemma gives_pret [simp]: "gives (pret x) y \<longleftrightarrow> x = y"
  by (simp add: gives_def parse_apply)

lemma gives_passert [simp]: "gives (passert b m) x \<longleftrightarrow> b \<and> gives m x"
  by (cases b) (auto simp: gives_def parse_apply passert_def)

lemma safe_bind_gives: "gives m x \<Longrightarrow> safe Q (f x) \<Longrightarrow> safe Q (pbind m f)"
  by (rule safe_bind [where P = "(=) x"]) (auto simp: gives_def parse_apply safe_def split: sum.split, metis aborts_or_simps(2) old.prod.case)

lemma gives_put [simp]: "off + n \<le> cap \<Longrightarrow> gives (put_ok cap off n) ()"
  by (simp add: gives_def parse_apply put_ok_def)

lemma gives_prepeat: "(\<And>i. i < length xs \<Longrightarrow> gives (f (k + i)) (xs ! i)) \<Longrightarrow> gives (prepeat f k (length xs)) xs"
proof (induction xs arbitrary: k)
  case (Cons x xs)
  have "gives (f k) x" using Cons.prems [of 0] by simp
  moreover have "gives (prepeat f (Suc k) (length xs)) xs" by (rule Cons.IH) (use Cons.prems [of "Suc _"] in simp)
  ultimately show ?case unfolding list.size add_Suc_right add_0_right prepeat.simps by (intro gives_bind [of "f k"] gives_bind [of "prepeat f (Suc k) (length xs)"]) auto
qed simp

lemma safe_bind_put: "off + n \<le> cap \<Longrightarrow> safe Q (f ()) \<Longrightarrow> safe Q (pbind (put_ok cap off n) f)"
  by (simp add: put_ok_def safe_def parse_apply)

lemma length_content: "buf_ok G b n \<Longrightarrow> length (content G b n) = n"
  by (cases b) (simp_all add: content_def buf_ok_def)

lemma fetch_bytes_gives:
  assumes "steady G b" "buf_ok G b n" "off + k \<le> n"
  shows "gives (fetch_bytes G b off k) (take k (drop off (content G b n)))"
proof (cases b)
  case (Guest a)
  have "in_guest G (a + int off) k" using assms(2,3) Guest by (auto simp: buf_ok_def intro: in_guest_rules)
  moreover have "g_mem G t = g_mem G 0" for t using assms(1) Guest by (auto simp: steady_def stable_def)
  ultimately show ?thesis
    using Guest assms(3) by (auto simp: gives_def parse_apply fetch_bytes_def rd_bytes_def content_def list_eq_iff_nth_eq) (metis add.assoc)
next
  case (Heap bs)
  then show ?thesis using assms by (simp add: gives_def parse_apply fetch_bytes_def content_def buf_ok_def)
qed

lemma fetch_gives:
  assumes "steady G b" "buf_ok G b n" "off + LENGTH('w::len) div 8 \<le> n"
  shows "gives (fetch G b off :: 'w word parse) (le_bytes (take (LENGTH('w) div 8) (drop off (content G b n))))"
  unfolding fetch_def by (rule gives_bind [OF fetch_bytes_gives [OF assms]]) simp


section \<open>A string that does not change fits its memory\<close>

text \<open>What the first loop promises the second: memory for the glyphs from \<open>start\<close> on.\<close>

definition glyphs_fit :: "guest \<Rightarrow> buffer \<Rightarrow> nat \<Rightarrow> nat \<Rightarrow> nat \<Rightarrow> nat \<Rightarrow> nat \<Rightarrow> nat \<times> nat \<times> nat \<Rightarrow> bool" where
  "glyphs_fit G b n bpp start gl rs r \<longleftrightarrow> (\<exists>k s. fst (snd r) = gl + k \<and> snd (snd r) = rs + 8 * k + s \<and>
     (\<forall>i glyph cap. 8 + 8 * (i + k) \<le> cap \<longrightarrow> glyph + s \<le> cap \<longrightarrow> safe (\<lambda>_. True) (glyph_copy G b n bpp cap k i start glyph)))"

lemma glyph_measure_safe:
  assumes "steady G b" "buf_ok G b n"
  shows "safe (glyphs_fit G b n bpp start gl rs) (glyph_measure G b n bpp start gl rs)"
  using assms
proof (induction G b n bpp start gl rs rule: glyph_measure.induct)
  case (1 G b n bpp start gl rs)
  show ?case
  proof (cases "start + 20 \<le> n")
    case True
    note f = fetch_gives [OF "1.prems"]
    define w :: u16 where "w = le_bytes (take 2 (drop (start + 16) (content G b n)))"
    define h :: u16 where "h = le_bytes (take 2 (drop (start + 18) (content G b n)))"
    have w: "gives (fetch G b (start + 16)) w" using f [of "start + 16", where 'w = 16] True by (simp add: w_def)
    have h: "gives (fetch G b (start + 18)) h" using f [of "start + 18", where 'w = 16] True by (simp add: h_def)
    let ?k = "glyph_size bpp w h"
    have step: "safe (\<lambda>_. True) (glyph_copy G b n bpp cap (Suc gls) i start glyph)"
      if "safe (\<lambda>_. True) (glyph_copy G b n bpp cap gls (Suc i) (start + 20 + ?k) (glyph + align4 (20 + ?k)))"
        "?k \<le> n - (start + 20)" "8 + 8 * Suc i \<le> cap" "glyph + align4 (20 + ?k) \<le> cap" for gls i glyph cap
    proof -
      have "20 + ?k \<le> align4 (20 + ?k)" by (simp add: align4_def)
      then show ?thesis
        unfolding glyph_copy.simps Let_def using that True "1.prems"(2)
        by (intro safe_passert safe_bind_put safe_bind_gives [OF w] safe_bind_gives [OF h] safe_bind_point safe_bind_fetch_bytes safe_bind [OF that(1)] safe_pret) auto
    qed
    have more: "glyphs_fit G b n bpp start gl rs r"
      if rec: "glyphs_fit G b n bpp (start + 20 + ?k) (Suc gl) (rs + 8 + align4 (20 + ?k)) r" and fit: "?k \<le> n - (start + 20)" for r
    proof -
      obtain k s where k: "fst (snd r) = Suc gl + k" "snd (snd r) = rs + 8 + align4 (20 + ?k) + 8 * k + s"
        "\<And>i glyph cap. 8 + 8 * (i + k) \<le> cap \<Longrightarrow> glyph + s \<le> cap \<Longrightarrow> safe (\<lambda>_. True) (glyph_copy G b n bpp cap k i (start + 20 + ?k) glyph)"
        using rec unfolding glyphs_fit_def by blast
      show ?thesis unfolding glyphs_fit_def
        by (rule exI [of _ "Suc k"], rule exI [of _ "align4 (20 + ?k) + s"]) (use k fit in \<open>auto intro!: step k(3) simp del: glyph_copy.simps\<close>)
    qed
    show ?thesis
      unfolding glyph_measure.simps [of G b n bpp start] Let_def
      by (intro safe_if safe_passert safe_bind_gives [OF w] safe_bind_gives [OF h] safe_mono [OF "1.IH"])
        (use True "1.prems" more in auto)
  qed (auto simp: glyph_measure.simps [of G b n bpp start] glyphs_fit_def intro!: safe_rules)
qed

lemma string_of_data_safe:
  assumes "steady G b" "buf_ok G b n"
  shows "safe (\<lambda>_. True) (string_of_data G b n flags len)"
proof -
  have "safe (\<lambda>_. True) (pbind (glyph_copy G b n bpp rs (unat len) 0 0 (8 + 8 * unat len)) (\<lambda>gs. pret \<lparr>str_flags = flags, str_glyphs = gs\<rparr>))"
    if "glyphs_fit G b n bpp 0 0 8 (st, unat len, rs)" for st rs bpp
    by (rule safe_bind [where P = "\<lambda>_. True"]) (use that in \<open>auto simp: glyphs_fit_def intro: safe_pret\<close>)
  then show ?thesis
    unfolding string_of_data_def Let_def
    by (intro safe_rules safe_bind [OF glyph_measure_safe [OF assms, where gl = 0 and rs = 8 and start = 0]]) auto
qed

lemma safe_bind_string [safe_rules]:
  assumes "guest_ok G" "stable G" "\<And>x. safe Q (f x)"
  shows "safe Q (pbind (red_get_string G addr) f)"
proof (rule safe_bind [where P = "\<lambda>_. True", OF _ assms(3)])
  have "steady G b" for b using assms(2) by (simp add: steady_def split: buffer.split)
  note data = safe_bind [OF string_of_data_safe [OF this]]
  show "safe (\<lambda>_. True) (red_get_string G addr)"
    unfolding red_get_string_def using assms(1) by (intro safe_rules data; auto intro: in_guest_rules)
qed

end
