(* ===== verification/Qxl_Data.thy ===== *)
theory Qxl_Data
  imports Qxl_Strings
begin

text \<open>
  Variable data a guest writes and leaves alone is returned as it wrote it: the bytes of a list of chunks in their order, and the glyphs and
  the segments whose bytes they are.
\<close>

section \<open>Bytes of glyphs and segments\<close>

definition half_bytes :: "u16 \<Rightarrow> u8 list" where
  "half_bytes v = [ucast v, ucast (drop_bit 8 v)]"

definition point_bytes :: "spice_point \<Rightarrow> u8 list" where
  "point_bytes p = word_bytes (pt_x p) @ word_bytes (pt_y p)"

definition glyph_bytes :: "spice_raster_glyph \<Rightarrow> u8 list" where
  "glyph_bytes g = point_bytes (glyph_pos g) @ point_bytes (glyph_origin g) @ half_bytes (glyph_width g) @ half_bytes (glyph_height g) @ glyph_data g"

definition seg_bytes :: "spice_path_seg \<Rightarrow> u8 list" where
  "seg_bytes s = word_bytes (seg_flags s) @ word_bytes (of_nat (length (seg_points s))) @ concat (map point_bytes (seg_points s))"

definition glyph_ok :: "nat \<Rightarrow> spice_raster_glyph \<Rightarrow> bool" where
  "glyph_ok bpp g \<longleftrightarrow> length (glyph_data g) = glyph_size bpp (glyph_width g) (glyph_height g)"

lemma le_bytes_half [simp]: "le_bytes (half_bytes v) = v"
  by (rule bit_word_eqI) (auto simp: half_bytes_def bit_simps)

lemma length_bytes [simp]: "length (half_bytes v) = 2" "length (point_bytes p) = 8" "length (glyph_bytes g) = 20 + length (glyph_data g)"
  by (simp_all add: half_bytes_def point_bytes_def glyph_bytes_def)

lemma length_seg_bytes [simp]: "length (seg_bytes s) = 8 + 8 * length (seg_points s)"
  by (simp add: seg_bytes_def length_concat comp_def sum_list_triv)

text \<open>Reading at an offset of a buffer whose content is known.\<close>

lemma fetch_bytes_at:
  assumes "steady G b" "buf_ok G b n" "content G b n = pre @ bs @ post" "off = length pre" "k = length bs"
  shows "gives (fetch_bytes G b off k) bs"
  using fetch_bytes_gives [OF assms(1,2), of off k] length_content [OF assms(2)] assms(3-5) by simp

lemma fetch_at:
  assumes "steady G b" "buf_ok G b n" "content G b n = pre @ bs @ post" "off = length pre" "LENGTH('w) div 8 = length bs"
  shows "gives (fetch G b off) (le_bytes bs :: 'w::len word)"
  unfolding fetch_def assms(5) by (rule gives_bind [OF fetch_bytes_at [OF assms(1-4) refl]]) simp

lemma fetch_word: "steady G b \<Longrightarrow> buf_ok G b n \<Longrightarrow> content G b n = pre @ word_bytes v @ post \<Longrightarrow> off = length pre \<Longrightarrow> gives (fetch G b off) v"
  using fetch_at [of G b n pre "word_bytes v" post off, where 'w = 32] by simp

lemma fetch_half: "steady G b \<Longrightarrow> buf_ok G b n \<Longrightarrow> content G b n = pre @ half_bytes v @ post \<Longrightarrow> off = length pre \<Longrightarrow> gives (fetch G b off) v"
  using fetch_at [of G b n pre "half_bytes v" post off, where 'w = 16] by simp

lemma fetch_point:
  assumes "steady G b" "buf_ok G b n" "content G b n = pre @ point_bytes p @ post" "off = length pre"
  shows "gives (red_get_point_ptr G b off) p"
proof -
  have "gives (fetch G b off) (pt_x p)" by (rule fetch_word [OF assms(1,2), of pre _ "word_bytes (pt_y p) @ post"]) (simp_all add: assms point_bytes_def)
  moreover have "gives (fetch G b (off + 4)) (pt_y p)" by (rule fetch_word [OF assms(1,2), of "pre @ word_bytes (pt_x p)" _ post]) (simp_all add: assms point_bytes_def)
  ultimately show ?thesis unfolding red_get_point_ptr_def by (intro gives_bind [of "fetch G b off"] gives_bind [of "fetch G b (off + 4)"]) auto
qed


section \<open>Strings\<close>

lemma glyph_fetches:
  assumes "steady G b" "buf_ok G b n" "content G b n = pre @ glyph_bytes g @ post" "start = length pre"
  shows "gives (fetch G b (start + 16)) (glyph_width g)" "gives (fetch G b (start + 18)) (glyph_height g)"
    "gives (red_get_point_ptr G b start) (glyph_pos g)" "gives (red_get_point_ptr G b (start + 8)) (glyph_origin g)"
    "gives (fetch_bytes G b (start + 20) (length (glyph_data g))) (glyph_data g)"
proof -
  let ?p = "pre @ point_bytes (glyph_pos g)" and ?o = "point_bytes (glyph_origin g)" and ?w = "half_bytes (glyph_width g)" and ?h = "half_bytes (glyph_height g)"
  note at = assms(3) [unfolded glyph_bytes_def]
  show "gives (fetch G b (start + 16)) (glyph_width g)" by (rule fetch_half [OF assms(1,2), of "?p @ ?o" _ "?h @ glyph_data g @ post"]) (simp_all add: at assms(4))
  show "gives (fetch G b (start + 18)) (glyph_height g)" by (rule fetch_half [OF assms(1,2), of "?p @ ?o @ ?w" _ "glyph_data g @ post"]) (simp_all add: at assms(4))
  show "gives (red_get_point_ptr G b start) (glyph_pos g)" by (rule fetch_point [OF assms(1,2), of pre _ "?o @ ?w @ ?h @ glyph_data g @ post"]) (simp_all add: at assms(4))
  show "gives (red_get_point_ptr G b (start + 8)) (glyph_origin g)" by (rule fetch_point [OF assms(1,2), of ?p _ "?w @ ?h @ glyph_data g @ post"]) (simp_all add: at assms(4))
  show "gives (fetch_bytes G b (start + 20) (length (glyph_data g))) (glyph_data g)"
    by (rule fetch_bytes_at [OF assms(1,2), of "?p @ ?o @ ?w @ ?h" _ post]) (simp_all add: at assms(4))
qed

definition glyph_space :: "spice_raster_glyph \<Rightarrow> nat" where
  "glyph_space g = align4 (20 + length (glyph_data g))"

lemma glyph_measure_gives:
  assumes "steady G b" "buf_ok G b n"
  shows "content G b n = pre @ concat (map glyph_bytes gs) \<Longrightarrow> list_all (glyph_ok bpp) gs \<Longrightarrow>
    gives (glyph_measure G b n bpp (length pre) k rs) (n, k + length gs, rs + 8 * length gs + sum_list (map glyph_space gs))"
proof (induction gs arbitrary: pre k rs)
  case Nil
  then show ?case using length_content [OF assms(2)] by (simp add: glyph_measure.simps)
next
  case (Cons g gs)
  have c: "content G b n = pre @ glyph_bytes g @ concat (map glyph_bytes gs)" using Cons.prems by simp
  then have len: "n = length pre + 20 + length (glyph_data g) + length (concat (map glyph_bytes gs))"
    using length_content [OF assms(2)] by (metis add.assoc length_append length_bytes(3))
  note f = glyph_fetches [OF assms c refl]
  have gs: "glyph_size bpp (glyph_width g) (glyph_height g) = length (glyph_data g)" using Cons.prems(2) by (simp add: glyph_ok_def)
  have "gives (glyph_measure G b n bpp (length (pre @ glyph_bytes g)) (Suc k) (rs + 8 + glyph_space g))
      (n, Suc k + length gs, rs + 8 + glyph_space g + 8 * length gs + sum_list (map glyph_space gs))"
    by (rule Cons.IH) (use Cons.prems c in simp_all)
  then have rec: "gives (glyph_measure G b n bpp (length pre + 20 + length (glyph_data g)) (Suc k) (rs + 8 + align4 (20 + length (glyph_data g))))
      (n, k + length (g # gs), rs + 8 * length (g # gs) + sum_list (map glyph_space (g # gs)))"
    by (simp add: glyph_space_def ac_simps)
  have fits: "length pre < n" "length pre + 20 \<le> n" "length (glyph_data g) \<le> n - (length pre + 20)" using len by simp_all
  show ?case unfolding glyph_measure.simps [of G b n bpp "length pre"] if_P [OF fits(1)] gives_passert Let_def
    by (intro conjI fits gives_bind [OF f(2)] gives_bind [OF f(1)]) (use fits rec in \<open>simp add: gs\<close>)
qed


lemma glyph_copy_gives:
  assumes "steady G b" "buf_ok G b n"
  shows "content G b n = pre @ concat (map glyph_bytes gs) \<Longrightarrow> list_all (glyph_ok bpp) gs \<Longrightarrow>
    8 + 8 * (i + length gs) \<le> cap \<Longrightarrow> glyph + sum_list (map glyph_space gs) \<le> cap \<Longrightarrow>
    gives (glyph_copy G b n bpp cap (length gs) i (length pre) glyph) gs"
proof (induction gs arbitrary: pre i glyph)
  case (Cons g gs)
  have c: "content G b n = pre @ glyph_bytes g @ concat (map glyph_bytes gs)" using Cons.prems by simp
  then have len: "n = length pre + 20 + length (glyph_data g) + length (concat (map glyph_bytes gs))"
    using length_content [OF assms(2)] by (metis add.assoc length_append length_bytes(3))
  note f = glyph_fetches [OF assms c refl]
  have gs: "glyph_size bpp (glyph_width g) (glyph_height g) = length (glyph_data g)" using Cons.prems(2) by (simp add: glyph_ok_def)
  have sp: "20 + length (glyph_data g) \<le> glyph_space g" by (simp add: glyph_space_def align4_def)
  have "gives (glyph_copy G b n bpp cap (length gs) (Suc i) (length (pre @ glyph_bytes g)) (glyph + glyph_space g)) gs"
    by (rule Cons.IH) (use Cons.prems c in simp_all)
  then have rec: "gives (glyph_copy G b n bpp cap (length gs) (Suc i) (length pre + 20 + length (glyph_data g)) (glyph + align4 (20 + length (glyph_data g)))) gs"
    by (simp add: glyph_space_def ac_simps)
  have fits: "length pre + 20 \<le> n" "length (glyph_data g) \<le> n - (length pre + 20)" "8 + 8 * i + 8 \<le> cap" "glyph + 20 + length (glyph_data g) \<le> cap"
    using len Cons.prems(3,4) sp by simp_all
  then have "glyph + 20 \<le> cap" by simp
  then show ?case unfolding list.size add_Suc_right add_0_right glyph_copy.simps gives_passert Let_def
    by (intro conjI fits gives_bind [OF gives_put] gives_bind [OF f(1)] gives_bind [OF f(2)] gives_bind [OF f(3)] gives_bind [OF f(4)])
      (use fits in \<open>simp_all add: gs gives_bind [OF f(5)] gives_bind [OF gives_put] gives_bind [OF rec]\<close>)
qed simp

lemma string_gives:
  assumes "steady G b" "buf_ok G b n" "content G b n = concat (map glyph_bytes gs)" "list_all (glyph_ok (string_bpp flags)) gs"
    and "string_bpp flags \<noteq> 0" "length gs = unat len"
  shows "gives (string_of_data G b n flags len) \<lparr>str_flags = flags, str_glyphs = gs\<rparr>"
proof -
  note m = glyph_measure_gives [OF assms(1,2), of "[]" gs _ 0 8, simplified, OF assms(3,4)]
  have "gives (glyph_copy G b n (string_bpp flags) (8 + 8 * length gs + sum_list (map glyph_space gs)) (length gs) 0 (length ([] :: u8 list)) (8 + 8 * length gs)) gs"
    by (rule glyph_copy_gives [OF assms(1,2)]) (use assms in simp_all)
  then show ?thesis unfolding string_of_data_def Let_def
    using assms(5,6) by (simp add: gives_bind [OF m] gives_bind)
qed


section \<open>Paths\<close>

definition seg_ok :: "spice_path_seg \<Rightarrow> bool" where
  "seg_ok s \<longleftrightarrow> seg_points s \<noteq> [] \<and> length (seg_points s) < 0xffffffff div 8"

lemma seg_fetches:
  assumes "steady G b" "buf_ok G b n" "content G b n = pre @ seg_bytes s @ post" "start = length pre" "seg_ok s"
  shows "gives (fetch G b start) (seg_flags s)" "gives (fetch G b (start + 4)) (of_nat (length (seg_points s)) :: u32)"
    "unat (of_nat (length (seg_points s)) :: u32) = length (seg_points s)"
    "i < length (seg_points s) \<Longrightarrow> gives (red_get_point_ptr G b (start + 8 + 8 * i)) (seg_points s ! i)"
proof -
  let ?f = "word_bytes (seg_flags s)" and ?c = "word_bytes (of_nat (length (seg_points s)))" and ?ps = "map point_bytes (seg_points s)"
  note at = assms(3) [unfolded seg_bytes_def]
  show "gives (fetch G b start) (seg_flags s)" by (rule fetch_word [OF assms(1,2), of pre _ "?c @ concat ?ps @ post"]) (simp_all add: at assms(4))
  show "gives (fetch G b (start + 4)) (of_nat (length (seg_points s)) :: u32)"
    by (rule fetch_word [OF assms(1,2), of "pre @ ?f" _ "concat ?ps @ post"]) (simp_all add: at assms(4))
  show "unat (of_nat (length (seg_points s)) :: u32) = length (seg_points s)" using assms(5) by (intro unat_of_nat_small) (simp add: seg_ok_def)
  show "gives (red_get_point_ptr G b (start + 8 + 8 * i)) (seg_points s ! i)" if i: "i < length (seg_points s)"
  proof (rule fetch_point [OF assms(1,2), of "pre @ ?f @ ?c @ concat (take i ?ps)" _ "concat (drop (Suc i) ?ps) @ post"])
    have "concat ?ps = concat (take i ?ps) @ point_bytes (seg_points s ! i) @ concat (drop (Suc i) ?ps)"
      using id_take_nth_drop [of i ?ps] i by (metis append_Cons append_Nil concat.simps concat_append length_map nth_map)
    then show "content G b n = (pre @ ?f @ ?c @ concat (take i ?ps)) @ point_bytes (seg_points s ! i) @ concat (drop (Suc i) ?ps) @ post"
      by (simp add: at)
    show "start + 8 + 8 * i = length (pre @ ?f @ ?c @ concat (take i ?ps))"
      using i assms(4) by (simp add: length_concat comp_def take_map sum_list_triv)
  qed
qed

definition seg_space :: "spice_path_seg \<Rightarrow> nat" where
  "seg_space s = 8 + 8 * length (seg_points s)"

lemma path_measure_gives:
  assumes "steady G b" "buf_ok G b n"
  shows "content G b n = pre @ concat (map seg_bytes segs) \<Longrightarrow> list_all seg_ok segs \<Longrightarrow>
    gives (path_measure G b n (length pre) k m) (k + length segs, m + 8 * length segs + sum_list (map seg_space segs))"
proof (induction segs arbitrary: pre k m)
  case Nil
  then show ?case using length_content [OF assms(2)] by (simp add: path_measure.simps)
next
  case (Cons s segs)
  have c: "content G b n = pre @ seg_bytes s @ concat (map seg_bytes segs)" and ok: "seg_ok s" using Cons.prems by simp_all
  then have len: "n = length pre + 8 + 8 * length (seg_points s) + length (concat (map seg_bytes segs))"
    using length_content [OF assms(2)] by (metis add.assoc length_append length_seg_bytes)
  note f = seg_fetches [OF assms c refl ok]
  have lt: "length pre + 8 < n" using len ok by (cases "seg_points s") (simp_all add: seg_ok_def)
  have al: "align4 (8 + length (seg_points s) * 8) = seg_space s" unfolding align4_def seg_space_def by presburger
  have "gives (path_measure G b n (length (pre @ seg_bytes s)) (Suc k) (m + 8 + seg_space s))
      (Suc k + length segs, m + 8 + seg_space s + 8 * length segs + sum_list (map seg_space segs))"
    by (rule Cons.IH) (use Cons.prems in simp_all)
  then have rec: "gives (path_measure G b n (length pre + 8 + 8 * length (seg_points s)) (Suc k) (m + 8 + seg_space s))
      (k + length (s # segs), m + 8 * length (s # segs) + sum_list (map seg_space (s # segs)))"
    by (simp add: ac_simps)
  show ?case unfolding path_measure.simps [of G b n "length pre"] if_P [OF lt]
    by (rule gives_bind [OF f(2)]) (use rec in \<open>simp only: f(3) al\<close>)
qed

lemma path_copy_gives:
  assumes "steady G b" "buf_ok G b n"
  shows "content G b n = pre @ concat (map seg_bytes segs) \<Longrightarrow> list_all seg_ok segs \<Longrightarrow> num = k + length segs \<Longrightarrow> 8 + 8 * num \<le> mem \<Longrightarrow>
    seg + sum_list (map seg_space segs) \<le> mem \<Longrightarrow> m2 + sum_list (map seg_space segs) \<le> mem \<Longrightarrow>
    gives (path_copy G b n num mem (length pre) seg k m2 segs0) (segs0 @ segs)"
proof (induction segs arbitrary: pre k seg m2 segs0)
  case Nil
  then show ?case by (simp add: path_copy.simps)
next
  case (Cons s segs)
  have c: "content G b n = pre @ seg_bytes s @ concat (map seg_bytes segs)" and ok: "seg_ok s" using Cons.prems by simp_all
  then have len: "n = length pre + 8 + 8 * length (seg_points s) + length (concat (map seg_bytes segs))"
    using length_content [OF assms(2)] by (metis add.assoc length_append length_seg_bytes)
  note f = seg_fetches [OF assms c refl ok]
  let ?k = "length (seg_points s)"
  have lt: "length pre + 8 < n \<and> k < num" using len ok Cons.prems(3) by (cases "seg_points s") (simp_all add: seg_ok_def)
  have fits: "8 + 8 * k + 8 \<le> mem" "seg + 8 + 8 * ?k \<le> mem" "m2 + 8 + ?k * 8 \<le> mem" using Cons.prems(3-6) by (simp_all add: seg_space_def)
  have pts: "gives (prepeat (path_point G b mem (length pre) seg) 0 ?k) (seg_points s)"
  proof (rule gives_prepeat)
    fix i assume i: "i < ?k"
    have "seg + 8 + 8 * i + 8 \<le> mem" using fits(2) i by simp
    then show "gives (path_point G b mem (length pre) seg (0 + i)) (seg_points s ! i)"
      unfolding path_point_def by (intro gives_bind [OF f(4) [of "0 + i"]] gives_bind [OF gives_put]) (use i in simp_all)
  qed
  have "gives (path_copy G b n num mem (length (pre @ seg_bytes s)) (seg + 8 + 8 * ?k) (Suc k) (m2 + 8 + ?k * 8)
      (segs0 @ [\<lparr>seg_flags = seg_flags s, seg_points = seg_points s\<rparr>])) ((segs0 @ [\<lparr>seg_flags = seg_flags s, seg_points = seg_points s\<rparr>]) @ segs)"
    by (rule Cons.IH) (use Cons.prems in \<open>simp_all add: seg_space_def\<close>)
  then have rec: "gives (path_copy G b n num mem (length pre + 8 + 8 * ?k) (seg + 8 + 8 * ?k) (Suc k) (m2 + 8 + ?k * 8)
      (segs0 @ [\<lparr>seg_flags = seg_flags s, seg_points = seg_points s\<rparr>])) (segs0 @ s # segs)"
    by (cases s) (simp add: ac_simps)
  show ?case unfolding path_copy.simps [of G b n num mem "length pre"] if_P [OF lt]
    by (rule gives_bind [OF gives_put [OF fits(1)]], rule gives_bind [OF f(2)], unfold gives_passert,
        intro conjI gives_bind [OF f(1)] gives_bind [OF gives_put] gives_bind [OF pts] rec)
      (use fits ok f(3) in \<open>auto simp: seg_ok_def intro!: gives_bind [OF pts] rec\<close>)
qed

lemma path_gives:
  assumes "steady G b" "buf_ok G b n" "content G b n = concat (map seg_bytes segs)" "list_all seg_ok segs"
  shows "gives (path_of_data G b n) segs"
proof -
  note m = path_measure_gives [OF assms(1,2), of "[]" segs 0 8, simplified, OF assms(3,4)]
  have "gives (path_copy G b n (length segs) (8 + 8 * length segs + sum_list (map seg_space segs)) (length ([] :: u8 list)) (8 + 8 * length segs) 0 8 []) ([] @ segs)"
    by (rule path_copy_gives [OF assms(1,2)]) (use assms in simp_all)
  then show ?thesis unfolding path_of_data_def by (simp add: gives_bind [OF m])
qed


section \<open>Chunks\<close>

text \<open>
  A list of chunks as a guest lays it out: the header at \<open>qxl\<close>, its data behind it, and the address of the next header, which \<open>get_virt\<close> translates.
  Empty chunks may be anywhere but the data of the others is what counts.
\<close>

fun chunk_chain :: "guest \<Rightarrow> int \<Rightarrow> red_data_chunk list \<Rightarrow> bool" where
  "chunk_chain G qxl [] \<longleftrightarrow> False"
| "chunk_chain G qxl [c] \<longleftrightarrow> in_guest G qxl 20 \<and> chunk_data c = qxl + 20 \<and> in_guest G (qxl + 20) (unat (chunk_size c)) \<and>
     gives (rd G qxl) (chunk_size c) \<and> gives (rd G (qxl + 12)) (0 :: u64)"
| "chunk_chain G qxl (c # d # cs) \<longleftrightarrow> in_guest G qxl 20 \<and> chunk_data c = qxl + 20 \<and> in_guest G (qxl + 20) (unat (chunk_size c)) \<and>
     gives (rd G qxl) (chunk_size c) \<and>
     (\<exists>addr slot_id. gives (rd G (qxl + 12)) addr \<and> addr \<noteq> 0 \<and> gives (g_virt G addr 20) (chunk_data d - 20, False) \<and>
        gives (g_slot G addr) slot_id \<and> gives (g_valid G (chunk_data d) slot_id (chunk_size d)) True \<and>
        chunk_chain G (chunk_data d - 20) (d # cs))"

lemma chain_loop_gives:
  "chunk_chain G qxl (c # cs) \<Longrightarrow> unat sz = chunks_total red \<Longrightarrow> chunks_total red + chunks_total cs \<le> data_limit \<Longrightarrow>
    n + int (length cs) < MAX_CHUNKS \<Longrightarrow> list_all (\<lambda>c. chunk_size c \<noteq> 0) cs \<Longrightarrow>
    gives (chunk_loop G n qxl sz red) (sz + of_nat (chunks_total cs), red @ cs)"
proof (induction cs arbitrary: n qxl c sz red)
  case Nil
  then show ?case unfolding chunk_loop.simps [of G n] by (intro gives_bind [of "rd G (qxl + 12)" "0 :: u64"]) (simp_all add: chunks_total_def)
next
  case (Cons d cs)
  obtain addr slot_id where d: "gives (rd G (qxl + 12)) addr" "addr \<noteq> 0" "gives (g_virt G addr 20) (chunk_data d - 20, False)"
    "gives (g_slot G addr) slot_id" "gives (g_valid G (chunk_data d) slot_id (chunk_size d)) True" "chunk_chain G (chunk_data d - 20) (d # cs)"
    using Cons.prems(1) by auto
  have nz: "chunk_size d \<noteq> 0" using Cons.prems(5) by simp
  have size: "gives (rd G (chunk_data d - 20)) (chunk_size d)" using d(6) by (cases cs) auto
  have tot: "chunks_total red + unat (chunk_size d) + chunks_total cs \<le> data_limit" using Cons.prems(3) by (simp add: chunks_total_def)
  have sz: "unat (sz + ucast (chunk_size d)) = chunks_total (red @ [d])"
    using Cons.prems(2) tot by (simp add: unat_word_ariths unsigned_ucast_eq data_limit_def)
  have "gives (chunk_loop G (n + 1) (chunk_data d - 20) (sz + ucast (chunk_size d)) (red @ [d]))
      (sz + ucast (chunk_size d) + of_nat (chunks_total cs), (red @ [d]) @ cs)"
    by (rule Cons.IH [OF d(6) sz]) (use Cons.prems(4,5) tot in simp_all)
  moreover have "sz + ucast (chunk_size d) + of_nat (chunks_total cs) = sz + of_nat (chunks_total (d # cs))"
    by (simp add: chunks_total_def)
  moreover have e: "\<lparr>chunk_size = chunk_size d, chunk_data = chunk_data d\<rparr> = d" by (cases d) simp
  ultimately show ?case unfolding chunk_loop.simps [of G n]
    by (intro gives_bind [OF d(1)]) (use d nz Cons.prems(4) sz tot in \<open>simp add: e gives_bind [OF d(4)] gives_bind [OF d(3)] gives_bind [OF size] gives_bind [OF d(5)]\<close>)
qed


lemma copy_chunks_gives:
  assumes "stable G"
  shows "list_all (\<lambda>c. in_guest G (chunk_data c) (unat (chunk_size c))) cs \<Longrightarrow>
    gives (copy_chunks G cs (chunks_total cs)) (concat (map (\<lambda>c. map (\<lambda>i. g_mem G 0 (chunk_data c + int i)) [0..<unat (chunk_size c)]) cs))"
proof (induction cs)
  case (Cons c cs)
  let ?d = "map (\<lambda>i. g_mem G 0 (chunk_data c + int i)) [0..<unat (chunk_size c)]"
  have "g_mem G t = g_mem G 0" for t using assms by (simp add: stable_def)
  then have c: "gives (rd_bytes G (chunk_data c) (unat (chunk_size c))) ?d" using Cons.prems by (simp add: gives_def rd_bytes_def) metis
  have z: "chunks_total (c # cs) = unat (chunk_size c) + chunks_total cs" by (simp add: chunks_total_def)
  have zero: "chunks_total cs = 0 \<Longrightarrow> concat (map (\<lambda>c. map (\<lambda>i. g_mem G 0 (chunk_data c + int i)) [0..<unat (chunk_size c)]) cs) = []"
    by (auto simp: chunks_total_def)
  let ?rest = "concat (map (\<lambda>c. map (\<lambda>i. g_mem G 0 (chunk_data c + int i)) [0..<unat (chunk_size c)]) cs)"
  have rest: "gives (copy_chunks G cs (chunks_total cs)) ?rest" using Cons by simp
  have "gives (pbind (rd_bytes G (chunk_data c) (unat (chunk_size c))) (\<lambda>bs. pbind (copy_chunks G cs (chunks_total cs)) (\<lambda>rest. pret (bs @ rest)))) (?d @ ?rest)"
    by (rule gives_bind [OF c], rule gives_bind [OF rest]) simp
  then show ?case unfolding copy_chunks.simps z Let_def
    by (cases "unat (chunk_size c) + chunks_total cs = 0") (simp_all add: zero min_absorb1)
qed (simp add: chunks_total_def)

text \<open>
  The buffer that holds the data of a list of chunks the guest leaves alone.
\<close>

lemma chain_in: "chunk_chain G qxl red \<Longrightarrow> list_all (\<lambda>c. in_guest G (chunk_data c) (unat (chunk_size c))) red"
  by (induction G qxl red rule: chunk_chain.induct) auto

definition chain_data :: "guest \<Rightarrow> red_data_chunk list \<Rightarrow> u8 list" where
  "chain_data G red = concat (map (\<lambda>c. map (\<lambda>i. g_mem G 0 (chunk_data c + int i)) [0..<unat (chunk_size c)]) red)"

lemma linearize_gives:
  assumes "stable G" "chunk_chain G qxl red"
  obtains b where "gives (red_linearize_chunk G red (chunks_total red)) b" "buf_ok G b (chunks_total red)" "content G b (chunks_total red) = chain_data G red"
proof (cases "length red = 1")
  case True
  then obtain c where "red = [c]" by (auto simp: length_Suc_conv)
  then show ?thesis using that [of "Guest (chunk_data c)"] chain_in [OF assms(2)]
    by (simp add: red_linearize_chunk_def chunks_total_def buf_ok_def content_def chain_data_def)
next
  case False
  have "gives (pbind (copy_chunks G red (chunks_total red)) (\<lambda>bs. pret (Heap bs))) (Heap (chain_data G red))"
    unfolding chain_data_def by (rule gives_bind [OF copy_chunks_gives [OF assms(1) chain_in [OF assms(2)]]]) simp
  moreover have "red_linearize_chunk G red (chunks_total red) = pbind (copy_chunks G red (chunks_total red)) (\<lambda>bs. pret (Heap bs))"
    using False by (auto simp: red_linearize_chunk_def simp del: copy_chunks.simps split: list.split)
  moreover have "length (chain_data G red) = chunks_total red" by (simp add: chain_data_def chunks_total_def length_concat comp_def)
  ultimately show ?thesis using that [of "Heap (chain_data G red)"] by (simp add: buf_ok_def content_def)
qed


section \<open>Whole strings and paths\<close>

text \<open>
  A structure of \<open>n\<close> bytes at a guest address, which \<open>get_virt\<close> translates to \<open>qxl\<close>, with a list of chunks that starts at its offset
  \<open>off\<close>, within the limits for chunks.
\<close>

definition data_at :: "guest \<Rightarrow> u64 \<Rightarrow> u32 \<Rightarrow> int \<Rightarrow> int \<Rightarrow> red_data_chunk list \<Rightarrow> bool" where
  "data_at G addr n qxl off red \<longleftrightarrow> (\<exists>slot_id. gives (g_virt G addr n) (qxl, False) \<and> gives (g_slot G addr) slot_id \<and>
     gives (g_valid G (qxl + off + 20) slot_id (chunk_size (hd red))) True \<and> chunk_chain G (qxl + off) red \<and>
     chunks_total red \<le> data_limit \<and> int (length red) \<le> MAX_CHUNKS \<and> list_all (\<lambda>c. chunk_size c \<noteq> 0) (tl red))"

lemma data_at_chunks:
  assumes "data_at G addr n qxl off red"
  obtains slot_id where "gives (g_virt G addr n) (qxl, False)" "gives (g_slot G addr) slot_id"
    "gives (red_get_data_chunks_ptr G slot_id (qxl + off)) (of_nat (chunks_total red), red)" "unat (of_nat (chunks_total red) :: u64) = chunks_total red"
    "chunk_chain G (qxl + off) red"
proof -
  obtain slot_id where d: "gives (g_virt G addr n) (qxl, False)" "gives (g_slot G addr) slot_id"
    "gives (g_valid G (qxl + off + 20) slot_id (chunk_size (hd red))) True" "chunk_chain G (qxl + off) red"
    "chunks_total red \<le> data_limit" "int (length red) \<le> MAX_CHUNKS" "list_all (\<lambda>c. chunk_size c \<noteq> 0) (tl red)"
    using assms by (auto simp: data_at_def)
  obtain c cs where red: "red = c # cs" using d(4) by (cases red) auto
  have c: "gives (rd G (qxl + off)) (chunk_size c)" "chunk_data c = qxl + off + 20" using d(4) red by (cases cs; auto)+
  have e: "\<lparr>chunk_size = chunk_size c, chunk_data = qxl + off + 20\<rparr> = c" using c(2) by (cases c) simp
  have "gives (chunk_loop G 0 (qxl + off) (ucast (chunk_size c)) [c]) (ucast (chunk_size c) + of_nat (chunks_total cs), [c] @ cs)"
    by (rule chain_loop_gives) (use d red in \<open>auto simp: chunks_total_def unsigned_ucast_eq\<close>)
  moreover have "ucast (chunk_size c) + of_nat (chunks_total cs) = (of_nat (chunks_total red) :: u64)" by (simp add: red chunks_total_def)
  ultimately have "gives (red_get_data_chunks_ptr G slot_id (qxl + off)) (of_nat (chunks_total red), red)"
    unfolding red_get_data_chunks_ptr_def using d(3) red e by (intro gives_bind [OF c(1)]) (simp add: gives_bind [of _ True])
  moreover have "unat (of_nat (chunks_total red) :: u64) = chunks_total red" using d(5) by (intro unat_of_nat_small) (simp add: data_limit_def)
  ultimately show ?thesis using that d by blast
qed

text \<open>
  C22: A string the guest writes and leaves alone, its glyphs in any number of chunks, is returned with its flags and the same glyphs.
\<close>

theorem qxl_string_round_trip:
  assumes "stable G" "data_at G addr 28 qxl 8 red" "chain_data G red = concat (map glyph_bytes gs)" "gs \<noteq> []" "length gs < 2 ^ 16"
    and "string_bpp flags \<noteq> 0" "list_all (glyph_ok (string_bpp flags)) gs"
    and "gives (rd G qxl) (of_nat (chunks_total red) :: u32)" "gives (rd G (qxl + 6)) flags" "gives (rd G (qxl + 4)) (of_nat (length gs) :: u16)"
  shows "\<exists>t'. red_get_string G addr t = Inr (Some \<lparr>str_flags = flags, str_glyphs = gs\<rparr>, t')"
proof -
  obtain slot_id where d: "gives (g_virt G addr 28) (qxl, False)" "gives (g_slot G addr) slot_id"
    "gives (red_get_data_chunks_ptr G slot_id (qxl + 8)) (of_nat (chunks_total red), red)" "unat (of_nat (chunks_total red) :: u64) = chunks_total red"
    "chunk_chain G (qxl + 8) red" using assms(2) by (rule data_at_chunks)
  obtain b where b: "gives (red_linearize_chunk G red (chunks_total red)) b" "buf_ok G b (chunks_total red)" "content G b (chunks_total red) = chain_data G red"
    using assms(1) d(5) by (rule linearize_gives)
  have "chunks_total red = length (chain_data G red)" using length_content [OF b(2)] b(3) by simp
  then have nz: "chunks_total red \<noteq> 0" using assms(3,4) by (cases gs) auto
  then have nz64: "(of_nat (chunks_total red) :: u64) \<noteq> 0" using d(4) by auto
  have "chunks_total red \<le> data_limit" using assms(2) by (auto simp: data_at_def)
  then have u: "unat (of_nat (chunks_total red) :: u32) = chunks_total red" by (intro unat_of_nat_small) (simp add: data_limit_def)
  have "steady G b" using assms(1) by (simp add: steady_def split: buffer.split)
  then have "gives (string_of_data G b (chunks_total red) flags (of_nat (length gs))) \<lparr>str_flags = flags, str_glyphs = gs\<rparr>"
    by (rule string_gives) (use b assms in \<open>simp_all add: unat_of_nat_small\<close>)
  note s = gives_bind [OF this]
  have "gives (red_get_string G addr) (Some \<lparr>str_flags = flags, str_glyphs = gs\<rparr>)"
    unfolding red_get_string_def
    by (rule gives_bind [OF d(1)]) (simp add: nz64 u d(4) gives_bind [OF d(2)] gives_bind [OF d(3)] gives_bind [OF b(1)] gives_bind [OF assms(8)]
      gives_bind [OF assms(9)] gives_bind [OF assms(10)] s)
  then show ?thesis by (simp add: gives_def)
qed

text \<open>The guest of the examples, with memory that does not change.\<close>

lemma demo_stable: "stable (demo_guest (\<lambda>_. m))"
  by (simp add: stable_def demo_guest_def)

lemma demo_rd:
  assumes "in_guest (demo_guest (\<lambda>_. m)) a (LENGTH('w::len) div 8)" "v = le_bytes (map (\<lambda>i. m (a + int i)) [0..<LENGTH('w) div 8])"
  shows "gives (rd (demo_guest (\<lambda>_. m)) a) (v :: 'w word)"
  using assms by (simp add: gives_def rd_def rd_bytes_def parse_apply demo_guest_def)

lemma demo_calls:
  "get_virt True demo_slots addr n 0 = Inr (v, e) \<Longrightarrow> gives (g_virt (demo_guest m) addr n) (uint v, e)"
  "get_memslot_id demo_slots addr = Inr s \<Longrightarrow> gives (g_slot (demo_guest m) addr) s"
  "validate_virt True demo_slots (of_int a) s n 0 = Inr ok \<Longrightarrow> gives (g_valid (demo_guest m) a s n) ok"
  by (simp_all add: gives_def g_virt_def g_slot_def g_valid_def demo_guest_def parse_apply)

text \<open>A string of one glyph of a byte, and a path of one segment of a point.\<close>

definition one_glyph :: "u8 list" where
  "one_glyph = [21, 0, 0, 0, 1, 0, 4, 0, 21, 0, 0, 0] @ replicate 16 0 @ replicate 16 0 @ [1, 0, 1, 0, 9]"

definition one_segment :: "u8 list" where
  "one_segment = [16, 0, 0, 0, 16, 0, 0, 0] @ replicate 16 0 @ [0, 0, 0, 0, 1, 0, 0, 0] @ [7, 0, 0, 0, 9, 0, 0, 0]"

lemma demo_data_at:
  assumes "get_virt True demo_slots addr n 0 = Inr (q, False)" "get_memslot_id demo_slots addr = Inr s" "qxl = uint q"
    and "validate_virt True demo_slots (of_int (qxl + off + 20)) s k 0 = Inr True"
    and "in_guest (demo_guest (\<lambda>_. m)) (qxl + off) 20" "in_guest (demo_guest (\<lambda>_. m)) (qxl + off + 20) (unat k)" "k \<le> 0x7fffffff"
    and "k = le_bytes (map (\<lambda>i. m (qxl + off + int i)) [0..<4])" "(0 :: u64) = le_bytes (map (\<lambda>i. m (qxl + off + 12 + int i)) [0..<8])"
  shows "data_at (demo_guest (\<lambda>_. m)) addr n qxl off [\<lparr>chunk_size = k, chunk_data = qxl + off + 20\<rparr>]"
proof -
  let ?G = "demo_guest (\<lambda>_. m)"
  have "gives (rd ?G (qxl + off)) k" by (rule demo_rd) (use assms in \<open>simp_all add: in_guest_less\<close>)
  moreover have "gives (rd ?G (qxl + off + 12)) (0 :: u64)" by (rule demo_rd) (use assms in_guest_at [OF assms(5), of 12 8] in simp_all)
  moreover have "gives (g_virt ?G addr n) (qxl, False)" "gives (g_slot ?G addr) s" "gives (g_valid ?G (qxl + off + 20) s k) True"
    using demo_calls(1) [OF assms(1)] demo_calls(2) [OF assms(2)] demo_calls(3) [OF assms(4)] assms(3) by simp_all
  ultimately show ?thesis
    unfolding data_at_def using assms by (intro exI [of _ s]) (simp add: chunks_total_def data_limit_def MAX_CHUNKS_def MAX_DATA_CHUNK_def word_le_nat_alt)
qed

theorem qxl_string_round_trip_witness:
  "\<exists>t'. red_get_string (demo_guest (\<lambda>_. bytes_at 0x7010 one_glyph)) 0x8180000000001010 0 = Inr (Some \<lparr>str_flags = 4, str_glyphs =
     [\<lparr>glyph_pos = \<lparr>pt_x = 0, pt_y = 0\<rparr>, glyph_origin = \<lparr>pt_x = 0, pt_y = 0\<rparr>, glyph_width = 1, glyph_height = 1, glyph_data = [9]\<rparr>]\<rparr>, t')"
proof -
  let ?G = "demo_guest (\<lambda>_. bytes_at 0x7010 one_glyph)" and ?red = "[\<lparr>chunk_size = 21, chunk_data = 0x7010 + 8 + 20\<rparr>]"
    and ?g = "\<lparr>glyph_pos = \<lparr>pt_x = 0, pt_y = 0\<rparr>, glyph_origin = \<lparr>pt_x = 0, pt_y = 0\<rparr>, glyph_width = 1, glyph_height = 1, glyph_data = [9]\<rparr>"
  have d: "data_at (demo_guest (\<lambda>_. bytes_at 0x7010 one_glyph)) 0x8180000000001010 28 0x7010 8 [\<lparr>chunk_size = 21, chunk_data = 0x7010 + 8 + 20\<rparr>]"
    by (rule demo_data_at [where q = "0x7010" and s = 1]; code_simp)
  show ?thesis
  proof (rule qxl_string_round_trip [OF demo_stable d])
    show "gives (rd ?G 0x7010) (of_nat (chunks_total ?red) :: u32)" by (rule demo_rd; code_simp)
    show "gives (rd ?G (0x7010 + 6)) (4 :: u16)" by (rule demo_rd; code_simp)
    show "gives (rd ?G (0x7010 + 4)) (of_nat (length [?g]) :: u16)" by (rule demo_rd; code_simp)
  qed (code_simp, simp, simp, code_simp, code_simp)
qed

text \<open>
  C23: A path the guest writes and leaves alone, its segments of at least a point each in any number of chunks, is returned as it is.
\<close>

theorem qxl_path_round_trip:
  assumes "stable G" "data_at G addr 24 qxl 4 red" "chain_data G red = concat (map seg_bytes segs)" "list_all seg_ok segs"
  shows "\<exists>t'. red_get_path G addr t = Inr (Some segs, t')"
proof -
  obtain slot_id where d: "gives (g_virt G addr 24) (qxl, False)" "gives (g_slot G addr) slot_id"
    "gives (red_get_data_chunks_ptr G slot_id (qxl + 4)) (of_nat (chunks_total red), red)" "unat (of_nat (chunks_total red) :: u64) = chunks_total red"
    "chunk_chain G (qxl + 4) red" using assms(2) by (rule data_at_chunks)
  obtain b where b: "gives (red_linearize_chunk G red (chunks_total red)) b" "buf_ok G b (chunks_total red)" "content G b (chunks_total red) = chain_data G red"
    using assms(1) d(5) by (rule linearize_gives)
  have "steady G b" using assms(1) by (simp add: steady_def split: buffer.split)
  then have "gives (path_of_data G b (chunks_total red)) segs" by (rule path_gives) (use b assms in simp_all)
  note p = gives_bind [OF this]
  have "gives (red_get_path G addr) (Some segs)"
    unfolding red_get_path_def
    by (rule gives_bind [OF d(1)]) (simp add: d(4) gives_bind [OF d(2)] gives_bind [OF d(3)] gives_bind [OF b(1)] p)
  then show ?thesis by (simp add: gives_def)
qed

theorem qxl_path_round_trip_witness:
  "\<exists>t'. red_get_path (demo_guest (\<lambda>_. bytes_at 0x7010 one_segment)) 0x8180000000001010 0 =
    Inr (Some [\<lparr>seg_flags = 0, seg_points = [\<lparr>pt_x = 7, pt_y = 9\<rparr>]\<rparr>], t')"
proof -
  have d: "data_at (demo_guest (\<lambda>_. bytes_at 0x7010 one_segment)) 0x8180000000001010 24 0x7010 4 [\<lparr>chunk_size = 16, chunk_data = 0x7010 + 4 + 20\<rparr>]"
    by (rule demo_data_at [where q = "0x7010" and s = 1]; code_simp)
  show ?thesis
    by (rule qxl_path_round_trip [OF demo_stable d]) (code_simp, simp add: seg_ok_def)
qed

end
