(* ===== verification/Qxl_Drawable.thy ===== *)
theory Qxl_Drawable
  imports Qxl_Strings
begin

text \<open>
  Whole commands: drawables, cursors and surfaces are parsed without leaving the guest's memory, and what they return can be used and
  released. A drawable is excepted when it is a stroke, or a text while the guest changes its memory (see \<open>Qxl_Strings\<close>).
\<close>

section \<open>The kinds of drawables\<close>

lemmas draw_ok_simps = draw_ok_def brush_image_def zero_copy_def zero_mask_def

lemma fill_safe: "guest_ok G \<Longrightarrow> g_fatal G \<Longrightarrow> in_guest G u 68 \<Longrightarrow> safe (\<lambda>d. draw_ok G (Draw_Fill d)) (red_get_fill_ptr G u flags)"
  unfolding red_get_fill_ptr_def by (intro safe_rules; auto simp: draw_ok_def intro: in_guest_rules)

lemma opaque_safe: "guest_ok G \<Longrightarrow> g_fatal G \<Longrightarrow> in_guest G u 68 \<Longrightarrow> safe (\<lambda>d. draw_ok G (Draw_Opaque d)) (red_get_opaque_ptr G u flags)"
  unfolding red_get_opaque_ptr_def by (intro safe_rules; auto simp: draw_ok_def intro: in_guest_rules)

lemma copy_safe: "guest_ok G \<Longrightarrow> g_fatal G \<Longrightarrow> in_guest G u 68 \<Longrightarrow> safe (\<lambda>(e, d). draw_ok G (Draw_Copy d)) (red_get_copy_ptr G u flags)"
  unfolding red_get_copy_ptr_def by (intro safe_rules; auto simp: draw_ok_simps intro: in_guest_rules)

lemma blend_safe:
  assumes "guest_ok G" "g_fatal G" "in_guest G u 68"
  shows "safe (\<lambda>d. draw_ok G (Draw_Blend d)) (red_get_blend_ptr G u flags)"
proof -
  have "safe (\<lambda>d. draw_ok G (Draw_Blend d)) (copy_rest G u flags src)" if "image_opt_ok G src" for src
    unfolding copy_rest_def using assms that by (intro safe_rules; auto simp: draw_ok_def intro: in_guest_rules)
  then show ?thesis unfolding red_get_blend_ptr_def using assms by (intro safe_rules; auto intro: in_guest_rules)
qed

lemma mask_safe: "guest_ok G \<Longrightarrow> g_fatal G \<Longrightarrow> in_guest G u 68 \<Longrightarrow> safe (\<lambda>d. image_opt_ok G (mask_bitmap d)) (red_get_qmask_ptr G u flags)"
proof -
  assume "guest_ok G" "g_fatal G" "in_guest G u 68"
  then have "safe (\<lambda>d. image_opt_ok G (mask_bitmap d)) (pbind (red_get_qmask_ptr G u flags) pret)" by (intro safe_rules; auto intro: in_guest_rules)
  then show ?thesis by simp
qed

lemma rop3_safe: "guest_ok G \<Longrightarrow> g_fatal G \<Longrightarrow> in_guest G u 68 \<Longrightarrow> safe (\<lambda>d. draw_ok G (Draw_Rop3 d)) (red_get_rop3_ptr G u flags)"
  unfolding red_get_rop3_ptr_def by (intro safe_rules; auto simp: draw_ok_def intro: in_guest_rules)

lemma text_safe:
  "guest_ok G \<Longrightarrow> g_fatal G \<Longrightarrow> in_guest G u 68 \<Longrightarrow> stable G \<Longrightarrow> safe (\<lambda>d. draw_ok G (Draw_Text d)) (red_get_text_ptr G u flags)"
  unfolding red_get_text_ptr_def by (intro safe_rules; auto simp: draw_ok_def intro: in_guest_rules)

lemma transparent_safe:
  "guest_ok G \<Longrightarrow> g_fatal G \<Longrightarrow> in_guest G u 68 \<Longrightarrow> safe (\<lambda>d. draw_ok G (Draw_Transparent d)) (red_get_transparent_ptr G u flags)"
  unfolding red_get_transparent_ptr_def by (intro safe_rules; auto simp: draw_ok_def intro: in_guest_rules)

lemma alpha_blend_safe:
  "guest_ok G \<Longrightarrow> g_fatal G \<Longrightarrow> in_guest G u 68 \<Longrightarrow> safe (\<lambda>d. draw_ok G (Draw_Alpha_Blend d)) (red_get_alpha_blend_ptr G u flags)"
  "guest_ok G \<Longrightarrow> g_fatal G \<Longrightarrow> in_guest G u 68 \<Longrightarrow> safe (\<lambda>d. draw_ok G (Draw_Alpha_Blend d)) (red_get_alpha_blend_ptr_compat G u flags)"
  unfolding red_get_alpha_blend_ptr_def red_get_alpha_blend_ptr_compat_def
  by (intro safe_rules; auto simp: draw_ok_def intro: in_guest_rules)+

lemma composite_safe:
  assumes "guest_ok G" "g_fatal G" "in_guest G u 68"
  shows "safe (\<lambda>d. draw_ok G (Draw_Composite d)) (red_get_composite_ptr G u flags)"
proof -
  have m: "safe (\<lambda>(m, t). image_opt_ok G m)
    (if mask_addr \<noteq> (0 :: u64) then pbind (image_at G (u + 20) flags) (\<lambda>mask.
       pbind (rd G (u + 28)) (\<lambda>mt. pbind (get_transform G mt) (\<lambda>mask_transform. pret (mask, mask_transform))))
     else pret (None, None))" for mask_addr
    using assms by (intro safe_rules; auto intro: in_guest_rules)
  show ?thesis unfolding red_get_composite_ptr_def
    using assms by (intro safe_rules safe_bind [OF m]; auto simp: draw_ok_def intro: in_guest_rules)
qed

lemmas draw_safe_lemmas = fill_safe opaque_safe copy_safe blend_safe mask_safe rop3_safe text_safe transparent_safe alpha_blend_safe composite_safe

lemma draw_safe:
  assumes "guest_ok G" "g_fatal G" "in_guest G u 68" "type \<noteq> 10" "type = 11 \<Longrightarrow> stable G"
  shows "safe (\<lambda>(e, d). draw_ok G d) (get_native_draw G u type flags)"
    and "safe (\<lambda>(e, d). draw_ok G d) (get_compat_draw G u type flags)"
proof -
  have b: "buf_ok G (Guest u) 68" using assms(3) by (simp add: buf_ok_def)
  show "safe (\<lambda>(e, d). draw_ok G d) (get_native_draw G u type flags)" "safe (\<lambda>(e, d). draw_ok G d) (get_compat_draw G u type flags)"
    unfolding get_native_draw_def get_compat_draw_def get_draw_def
    by (intro safe_if safe_bind_point [OF b] draw_safe_lemmas [THEN safe_bind] safe_pair safe_pret; use assms in \<open>auto simp: draw_ok_def\<close>)+
qed



section \<open>Commands\<close>

lemma safe_bind_rd_byte:
  "in_guest G a 1 \<Longrightarrow> (\<And>t. safe Q (f (g_mem G t a))) \<Longrightarrow> safe Q (pbind (rd G a) f)"
  unfolding rd_def by (rule safe_bind [where P = "\<lambda>x. \<exists>t. x = g_mem G t a"]) (auto simp: safe_def parse_apply rd_bytes_def)

lemma safe_bind_virt_at:
  assumes "guest_ok G"
    and "\<And>v. v = uint (target_virt (g_info G) (g_group G) addr) \<Longrightarrow> in_guest G v (unat n) \<Longrightarrow> 0 \<le> v \<Longrightarrow> v + int (unat n) < 2 ^ 64 \<Longrightarrow> safe Q (f (v, False))"
    and "\<And>v. safe Q (f (v, True))"
  shows "safe Q (pbind (g_virt G addr n) f)"
proof (rule safe_bind [OF safe_conj [OF safe_g_virt [OF assms(1), of n addr] safe_g_virt_at [OF assms(1), of addr n]]])
  fix x :: "int \<times> bool"
  assume x: "(case x of (v, e) \<Rightarrow> (e \<longrightarrow> \<not> g_fatal G) \<and> (\<not> e \<longrightarrow> in_guest G v (unat n) \<and> 0 \<le> v \<and> v + int (unat n) < 2 ^ 64)) \<and>
    (case x of (v, e) \<Rightarrow> \<not> e \<longrightarrow> v = uint (target_virt (g_info G) (g_group G) addr))"
  obtain v e where "x = (v, e)" by (cases x)
  with x show "safe Q (f x)" using assms(2) [of v] assms(3) by (cases e) auto
qed

lemma safe_bind_typed:
  assumes "in_guest G a 1" "\<And>t. safe (\<lambda>(e, d). draw_ok G d) (get (g_mem G t a))" "\<And>type e d. draw_ok G d \<Longrightarrow> safe Q (f (type, e, d))"
  shows "safe Q (pbind (typed (rd G a) get) f)"
proof (rule safe_bind [where P = "\<lambda>(type, e, d). draw_ok G d"])
  show "safe (\<lambda>(type, e, d). draw_ok G d) (typed (rd G a) get)"
    unfolding typed_def by (intro safe_bind_rd_byte assms(1) safe_bind [OF assms(2)]) (auto intro: safe_pret)
qed (use assms(3) in auto)

lemma safe_bind_clip [safe_rules]:
  "guest_ok G \<Longrightarrow> in_guest G a 12 \<Longrightarrow> (\<And>x. safe Q (f x)) \<Longrightarrow> safe Q (pbind (red_get_clip_ptr G a) f)"
  unfolding red_get_clip_ptr_def by (rule safe_bind [where P = "\<lambda>_. True"]) (intro safe_rules; auto intro: in_guest_rules)+

text \<open>The type of a drawable, as the guest has it at a time.\<close>

definition type_at :: "guest \<Rightarrow> u64 \<Rightarrow> u32 \<Rightarrow> nat \<Rightarrow> u8" where
  "type_at G addr flags t = g_mem G t (uint (target_virt (g_info G) (g_group G) addr) + (if bit flags 0 then 9 else 13))"

lemma native_safe:
  assumes "guest_ok G" "g_fatal G" "\<not> bit flags 0" "\<And>t. type_at G addr flags t \<noteq> 10" "stable G \<or> (\<forall>t. type_at G addr flags t \<noteq> 11)"
  shows "safe (\<lambda>(e, red). draw_ok G (dr_data red) \<and> dr_self_bitmap_image red = None) (red_get_native_drawable G new_drawable addr flags)"
proof -
  have d: "safe (\<lambda>_. True) (prepeat (\<lambda>i. pbind (rd G (qxl + 63 + 4 * int i)) (\<lambda>d :: u32. pbind (get_rect G (qxl + 75 + 16 * int i)) (\<lambda>r. pret (d, r)))) 0 3)"
    if "in_guest G qxl 191" for qxl
    by (rule safe_mono [OF safe_prepeat [where P = "\<lambda>_. True"]]) (auto intro!: safe_rules in_guest_sub [OF that])
  have t: "\<And>t. g_mem G t (uint (target_virt (g_info G) (g_group G) addr) + 13) = type_at G addr flags t" using assms(3) by (simp add: type_at_def)
  have draw: "safe (\<lambda>(e, d). draw_ok G d) (get_native_draw G (v + 123) (type_at G addr flags t) flags)" if "in_guest G v 191" for t v
    by (rule draw_safe(1)) (use assms in_guest_at [OF that, of 123 68] in auto)
  have "safe (\<lambda>(e, red). draw_ok G (dr_data red) \<and> dr_self_bitmap_image red = None) (red_get_native_drawable G new_drawable addr flags)"
    unfolding red_get_native_drawable_def
    by (rule safe_bind_virt_at [OF assms(1)]; intro safe_rules safe_bind_typed safe_bind [OF d])
      (auto simp: t new_drawable_def draw_ok_def [of _ Draw_Nop] assms(1) intro: in_guest_rules intro!: draw)
  then show ?thesis .
qed


lemma compat_safe:
  assumes "guest_ok G" "g_fatal G" "bit flags 0" "\<And>t. type_at G addr flags t \<noteq> 10" "stable G \<or> (\<forall>t. type_at G addr flags t \<noteq> 11)"
  shows "safe (\<lambda>(e, red). draw_ok G (dr_data red) \<and> dr_self_bitmap_image red = None) (red_get_compat_drawable G new_drawable addr flags)"
proof -
  have t: "\<And>t. g_mem G t (uint (target_virt (g_info G) (g_group G) addr) + 9) = type_at G addr flags t" using assms(3) by (simp add: type_at_def)
  have draw: "safe (\<lambda>(e, d). draw_ok G d) (get_compat_draw G (v + 60) (type_at G addr flags t) flags)" if "in_guest G v 128" for t v
    by (rule draw_safe(2)) (use assms in_guest_at [OF that, of 60 68] in auto)
  show ?thesis
    unfolding red_get_compat_drawable_def
    by (rule safe_bind_virt_at [OF assms(1)]; intro safe_rules safe_bind_typed)
      (auto simp: t new_drawable_def draw_ok_def [of _ Draw_Nop] assms(1) intro: in_guest_rules intro!: draw)
qed






text \<open>A surface of two lines of eight bytes, at the end of the slot.\<close>

definition surface_bytes :: "u8 list" where
  "surface_bytes = replicate 17 0 @ [32, 0, 0, 0, 2, 0, 0, 0, 2, 0, 0, 0, 8, 0, 0, 0, 0xf0, 0x1f, 0, 0, 0, 0, 0x80, 0x81]"

definition zero_surface :: red_surface_cmd where
  "zero_surface = \<lparr>sc_release_info = 0, sc_surface_id = 0, sc_type = 0, sc_flags = 0,
     sc_create = \<lparr>sf_format = 0, sf_width = 0, sf_height = 0, sf_stride = 0, sf_data = 0\<rparr>\<rparr>"


end
