(* ===== verification/Qxl_Flaws.thy ===== *)
theory Qxl_Flaws
  imports Qxl_Data Qxl_Drawable
begin

text \<open>
  Where the parser of QXL commands fails: paths whose counts are not those of their data, data that the guest changes
  between the two loops that read it, and image data that is refused when critical errors are not fatal.
\<close>

section \<open>Parsers that end with an error\<close>

definition fails :: "'a parse \<Rightarrow> error \<Rightarrow> bool" where
  "fails m e \<longleftrightarrow> (\<forall>t. m t = Inl e)"

lemma fails_bind: "gives m x \<Longrightarrow> fails (f x) e \<Longrightarrow> fails (pbind m f) e"
  unfolding gives_def fails_def pbind_def by (metis case_prod_conv rbind_simps(2))

lemma fails_here: "fails m e \<Longrightarrow> fails (pbind m f) e"
  by (simp add: fails_def pbind_def)

lemma fails_passert: "fails (passert b m) e \<longleftrightarrow> (if b then fails m e else e = Abort)"
  by (auto simp: fails_def passert_def)

lemma fails_prepeat:
  "(\<And>j. k \<le> j \<Longrightarrow> j < k + n \<Longrightarrow> (\<exists>x. gives (f j) x) \<or> fails (f j) e) \<Longrightarrow> \<exists>j. k \<le> j \<and> j < k + n \<and> fails (f j) e \<Longrightarrow> fails (prepeat f k n) e"
proof (induction n arbitrary: k)
  case (Suc n)
  show ?case
  proof (cases "fails (f k) e")
    case False
    then obtain x where x: "gives (f k) x" using Suc.prems(1) [of k] by auto
    have "\<exists>j. Suc k \<le> j \<and> j < Suc k + n \<and> fails (f j) e" using Suc.prems(2) False by (metis Suc_leI add_Suc_shift le_neq_implies_less)
    then have "fails (prepeat f (Suc k) n) e" by (intro Suc.IH) (use Suc.prems(1) in auto)
    then show ?thesis by (simp add: fails_bind [OF x] fails_here)
  qed (simp add: fails_here)
qed auto


section \<open>Paths\<close>

lemma heap_fetch:
  "off + LENGTH('w::len) div 8 \<le> length bs \<Longrightarrow> gives (fetch G (Heap bs) off) (le_bytes (take (LENGTH('w) div 8) (drop off bs)) :: 'w word)"
  "length bs < off + LENGTH('w::len) div 8 \<Longrightarrow> fails (fetch G (Heap bs) off :: 'w word parse) OutOfBounds"
  by (auto simp: fetch_def fetch_bytes_def gives_def fails_def parse_apply)

lemma heap_point:
  "off + 8 \<le> length bs \<Longrightarrow> \<exists>p. gives (red_get_point_ptr G (Heap bs) off) p"
  "length bs < off + 8 \<Longrightarrow> fails (red_get_point_ptr G (Heap bs) off) OutOfBounds"
proof -
  assume "off + 8 \<le> length bs"
  then show "\<exists>p. gives (red_get_point_ptr G (Heap bs) off) p"
    unfolding red_get_point_ptr_def using heap_fetch(1) [of off bs G, where 'w = 32] heap_fetch(1) [of "off + 4" bs G, where 'w = 32]
    by (auto intro!: exI gives_bind [of "fetch G (Heap bs) off"] gives_bind [of "fetch G (Heap bs) (off + 4)"])
next
  assume l: "length bs < off + 8"
  show "fails (red_get_point_ptr G (Heap bs) off) OutOfBounds"
  proof (cases "off + 4 \<le> length bs")
    case True
    have y: "fails (fetch G (Heap bs) (off + 4) :: u32 parse) OutOfBounds" using heap_fetch(2) [of bs "off + 4", where 'w = 32] l by simp
    show ?thesis unfolding red_get_point_ptr_def using heap_fetch(1) [of off bs G, where 'w = 32] True
      by (intro fails_bind [of "fetch G (Heap bs) off"] fails_here y) simp
  next
    case False
    then show ?thesis unfolding red_get_point_ptr_def using heap_fetch(2) [of bs off G, where 'w = 32] by (intro fails_here) simp
  qed
qed

lemma path_measure_returns:
  assumes "steady G b" "buf_ok G b n"
  shows "\<exists>k' m'. gives (path_measure G b n start k m) (k', m') \<and> k \<le> k' \<and> (start + 8 < n \<longrightarrow> k < k') \<and> m + 8 * (k' - k) \<le> m'"
  using assms
proof (induction G b n start k m rule: path_measure.induct)
  case (1 G b n start k m)
  show ?case
  proof (cases "start + 8 < n")
    case True
    define c :: u32 where "c = le_bytes (take 4 (drop (start + 4) (content G b n)))"
    have c: "gives (fetch G b (start + 4)) c" using fetch_gives [OF "1.prems", of "start + 4", where 'w = 32] True by (simp add: c_def)
    obtain k' m' where r: "gives (path_measure G b n (start + 8 + 8 * unat c) (Suc k) (m + 8 + align4 (8 + unat c * 8))) (k', m')" "Suc k \<le> k'"
      "m + 8 + align4 (8 + unat c * 8) + 8 * (k' - Suc k) \<le> m'" using "1.IH" [OF True "1.prems", of c] by blast
    have "gives (path_measure G b n start k m) (k', m')" unfolding path_measure.simps [of G b n start] if_P [OF True] by (rule gives_bind [OF c]) (rule r(1))
    moreover have "m + 8 * (k' - k) \<le> m'" using r(2,3) by simp
    ultimately show ?thesis using r(2) by (intro exI [of _ k'] exI [of _ m']) auto
  qed (simp add: path_measure.simps [of G b n start])
qed

lemma path_empty_fails:
  assumes "8 < length bs" "(le_bytes (take 4 (drop 4 bs)) :: u32) = 0"
  shows "fails (path_of_data G (Heap bs) (length bs)) Abort"
proof -
  let ?b = "Heap bs" and ?n = "length bs"
  have b: "steady G ?b" "buf_ok G ?b ?n" by (simp_all add: steady_def buf_ok_def)
  have count: "gives (fetch G ?b 4) (0 :: u32)" using heap_fetch(1) [of 4 bs G, where 'w = 32] assms by simp
  obtain k m where m: "gives (path_measure G ?b ?n 0 0 8) (k, m)" "0 < k" "8 + 8 * k \<le> m" using path_measure_returns [OF b, of 0 0 8] assms(1) by auto
  have first: "0 + 8 < ?n \<and> 0 < k" using m assms(1) by simp
  have "fails (path_copy G ?b ?n k m 0 (8 + 8 * k) 0 8 []) Abort"
    unfolding path_copy.simps [of G ?b ?n k m 0] if_P [OF first]
    by (rule fails_bind [OF gives_put], use m in simp, rule fails_bind, use count in simp) (simp add: fails_passert)
  then show ?thesis unfolding path_of_data_def by (intro fails_bind [OF m(1)]) simp
qed

lemma path_points_fail:
  assumes "length bs < 8 + 8 * n" "0 < n"
  shows "fails (prepeat (path_point G (Heap bs) (24 + 8 * n) 0 16) 0 n) OutOfBounds"
proof (rule fails_prepeat)
  let ?p = "path_point G (Heap bs) (24 + 8 * n) 0 16"
  have short: "fails (?p j) OutOfBounds" if "length bs < 16 + 8 * j" for j
    unfolding path_point_def using heap_point(2) [of bs "8 + 8 * j"] that by (intro fails_here) simp
  show "(\<exists>x. gives (?p j) x) \<or> fails (?p j) OutOfBounds" if "0 \<le> j" "j < 0 + n" for j
  proof (cases "16 + 8 * j \<le> length bs")
    case True
    then obtain p where "gives (red_get_point_ptr G (Heap bs) (8 + 8 * j)) p" using heap_point(1) [of "8 + 8 * j" bs] by auto
    then have "gives (?p j) p" unfolding path_point_def
      by (intro gives_bind [of "red_get_point_ptr G (Heap bs) (0 + 8 + 8 * j)"] gives_bind [OF gives_put]) (use that in simp_all)
    then show ?thesis by blast
  qed (simp add: short)
  have "fails (?p (n - 1)) OutOfBounds" using assms by (intro short) (cases n; simp)
  then show "\<exists>j. 0 \<le> j \<and> j < 0 + n \<and> fails (?p j) OutOfBounds" using assms(2) by (intro exI [of _ "n - 1"]) simp
qed

lemma path_long_fails:
  assumes "8 < length bs" "count = (le_bytes (take 4 (drop 4 bs)) :: u32)" "count \<noteq> 0" "unat count < 0xffffffff div 8" "length bs < 8 + 8 * unat count"
  shows "fails (path_of_data G (Heap bs) (length bs)) OutOfBounds"
proof -
  let ?b = "Heap bs" and ?n = "length bs" and ?m = "24 + 8 * unat count"
  have count: "gives (fetch G ?b 4) count" using heap_fetch(1) [of 4 bs G, where 'w = 32] assms by simp
  have al: "align4 (8 + unat count * 8) = 8 + 8 * unat count" unfolding align4_def by presburger
  have "path_measure G ?b ?n (8 + 8 * unat count) 1 ?m = pret (1, ?m)" using assms by (simp add: path_measure.simps)
  then have meas: "gives (path_measure G ?b ?n 0 0 8) (1, ?m)"
    unfolding path_measure.simps [of G ?b ?n 0] using assms(1) by (simp add: gives_bind [OF count] al)
  have pos: "0 < unat count" using assms(3) by (simp add: unat_gt_0)
  note pts = fails_here [OF path_points_fail [OF assms(5) pos]]
  have "gives (fetch G ?b 0) (le_bytes (take 4 bs) :: u32)" using heap_fetch(1) [of 0 bs G, where 'w = 32] assms(1) by simp
  note flags = fails_bind [OF this]
  have "fails (path_copy G ?b ?n 1 ?m 0 16 0 8 []) OutOfBounds"
    unfolding path_copy.simps [of G ?b ?n 1 ?m 0] using assms(1,3,4) pos
    by (simp add: fails_bind [OF gives_put] fails_bind [OF count] fails_passert flags pts)
  then show ?thesis unfolding path_of_data_def by (intro fails_bind [OF meas]) simp
qed

text \<open>
  C27: A path in several chunks whose first segment has no points stops the process, though the first loop accepts it; one that claims more
  points than its data has makes the second loop read behind the heap copy of the data.
\<close>

theorem qxl_path_malformed:
  assumes "8 < length bs" "count = (le_bytes (take 4 (drop 4 bs)) :: u32)"
  shows "(count = 0 \<longrightarrow> path_of_data G (Heap bs) (length bs) t = Inl Abort) \<and>
    (count \<noteq> 0 \<and> unat count < 0xffffffff div 8 \<and> length bs < 8 + 8 * unat count \<longrightarrow>
      path_of_data G (Heap bs) (length bs) t = Inl OutOfBounds)"
  using path_empty_fails [OF assms(1), of G] path_long_fails [OF assms, of G] assms(2) by (auto simp: fails_def)

text \<open>Sixteen bytes of data: a segment without points, and one of two points.\<close>

theorem qxl_path_malformed_witness:
  "path_of_data (demo_guest (\<lambda>_ _. 0)) (Heap (replicate 16 0)) 16 0 = Inl Abort \<and>
   path_of_data (demo_guest (\<lambda>_ _. 0)) (Heap (replicate 4 0 @ 2 # replicate 11 0)) 16 0 = Inl OutOfBounds"
proof -
  have "0 = (le_bytes (take 4 (drop 4 (replicate 16 0))) :: u32)" "2 = (le_bytes (take 4 (drop 4 (replicate 4 0 @ 2 # replicate 11 0))) :: u32)" by code_simp+
  from qxl_path_malformed [OF _ this(1), of "demo_guest (\<lambda>_ _. 0)" 0] qxl_path_malformed [OF _ this(2), of "demo_guest (\<lambda>_ _. 0)" 0]
  show ?thesis by simp
qed


section \<open>Data that changes\<close>

text \<open>A string of two glyphs of four bytes, and one of a glyph of five and one of three in the same memory.\<close>

definition two_glyphs :: "u8 list" where
  "two_glyphs = [48, 0, 0, 0, 2, 0, 4, 0, 48, 0, 0, 0] @ replicate 16 0 @
     replicate 16 0 @ [4, 0, 1, 0, 1, 2, 3, 4] @ replicate 16 0 @ [4, 0, 1, 0, 5, 6, 7, 8]"

definition moved_glyphs :: "u8 list" where
  "moved_glyphs = two_glyphs[44 := 5, 69 := 3, 70 := 0, 71 := 1, 72 := 0]"

text \<open>A path of a segment of one point, and the same memory with two points.\<close>

definition one_point :: "u8 list" where
  "one_point = [16, 0, 0, 0, 16, 0, 0, 0] @ replicate 16 0 @ [0, 0, 0, 0, 1, 0, 0, 0] @ replicate 8 7"

definition two_points :: "u8 list" where
  "two_points = one_point[28 := 2]"

definition changing :: "nat \<Rightarrow> u8 list \<Rightarrow> u8 list \<Rightarrow> guest" where
  "changing when before after = demo_guest (\<lambda>t. bytes_at 0x7010 (if t < when then before else after))"



section \<open>Refused image data\<close>

text \<open>
  C28: When critical errors are not fatal and the address of a bitmap's data is refused, the parser goes on: direct data is NULL, which is dereferenced at
  once if the data is marked unstable and otherwise when the image is released; and for a bitmap of no bytes in chunks it walks
  a list that was never set.
\<close>

theorem qxl_refused_image_data:
  assumes "\<And>n. gives (g_virt G addr n) (v, True)" "gives (g_slot G addr) s"
  shows "(bit flags 0 \<and> bit flags 1 \<longrightarrow> get_bitmap_data G flags addr n t = Inl NullDeref) \<and>
    (bit flags 0 \<and> \<not> bit flags 1 \<longrightarrow> (\<exists>t'. get_bitmap_data G flags addr n t = Inr (None, t'))) \<and>
    (bm_data b = None \<longrightarrow> red_put_image (Some \<lparr>descriptor = d, img_data = Bitmap b\<rparr>) = Inl NullDeref) \<and>
    (\<not> bit flags 0 \<longrightarrow> get_bitmap_data G flags addr 0 t = Inl Uninit)"
proof (intro conjI impI)
  have flat: "gives (red_get_image_data_flat G addr n) None" unfolding red_get_image_data_flat_def by (rule gives_bind [OF assms(1)]) simp
  then obtain t' where t': "red_get_image_data_flat G addr n t = Inr (None, t')" by (auto simp: gives_def)
  show "bit flags 0 \<and> bit flags 1 \<Longrightarrow> get_bitmap_data G flags addr n t = Inl NullDeref" using t' by (simp add: get_bitmap_data_def parse_apply)
  show "bit flags 0 \<and> \<not> bit flags 1 \<Longrightarrow> \<exists>t'. get_bitmap_data G flags addr n t = Inr (None, t')" using t' by (simp add: get_bitmap_data_def parse_apply)
  show "red_put_image (Some \<lparr>descriptor = d, img_data = Bitmap b\<rparr>) = Inl NullDeref" if "bm_data b = None" using that by (simp add: red_put_image_def)
  have "gives (red_get_data_chunks G addr) (0, None)" unfolding red_get_data_chunks_def
    by (rule gives_bind [OF assms(2)], rule gives_bind [OF assms(1)]) simp
  then obtain t' where "red_get_data_chunks G addr t = Inr ((0, None), t')" by (auto simp: gives_def)
  then show "\<not> bit flags 0 \<Longrightarrow> get_bitmap_data G flags addr 0 t = Inl Uninit" by (simp add: get_bitmap_data_def parse_apply passert_def)
qed

text \<open>The guest of the examples, with the abort level raised.\<close>

definition lenient :: guest where
  "lenient = demo_guest (\<lambda>_ _. 0) \<lparr>g_fatal := False\<rparr>"

theorem qxl_refused_image_data_witness:
  "get_bitmap_data lenient 3 1 4 0 = Inl NullDeref \<and> get_bitmap_data lenient 0 1 0 0 = Inl Uninit"
proof -
  have wf: "memslots_wf demo_slots" using demo_guest_ok [of undefined] by (simp add: guest_ok_def demo_guest_def)
  have t: "target_virt demo_slots 0 1 = 1" "target_slot demo_slots 0 1 = zero_slot" by code_simp+
  have g: "0 < num_memslots_groups demo_slots" "addr_slot demo_slots 1 < unat (num_memslots demo_slots)" by code_simp+
  have "\<not> virt_ok (target_slot demo_slots 0 1) (target_virt demo_slots 0 1) n" for n by (simp add: t virt_ok_def zero_slot_def)
  then have "get_virt False demo_slots 1 n 0 = Inr (0, True)" for n using get_virt_decides [OF wf g, of False n] by simp
  then have v: "\<And>n. gives (g_virt lenient 1 n) (0, True)" by (simp add: gives_def g_virt_def lenient_def demo_guest_def parse_apply)
  have "get_memslot_id demo_slots 1 = Inr 0" by code_simp
  then have "gives (g_slot lenient 1) 0" by (simp add: gives_def g_slot_def lenient_def demo_guest_def parse_apply)
  from qxl_refused_image_data [OF v this, of 3 4 0] qxl_refused_image_data [OF v this, of 0 0 0] show ?thesis by simp
qed

end
