(* ===== verification/Spec2Isabelle.thy ===== *)
theory Spec2Isabelle
  imports Rop3 Ring Memslots Agent_Filter Timer_Queue Char_Device_Life Image_Cache Dispatcher H264_Stream
    Pixman_Blit Pixman_Fill Pixman_Copy Pixman_Bitmap Lz_Safety Lz_Pool Qxl_Flaws
begin

text \<open>
  A verification development for the SPICE server of this repository (src/spice-0.12.6), which sends the
  screen of a virtual machine to remote clients, here with an H.264 stream of the whole screen beside the drawing commands
  of the protocol. All paths below are relative to src/spice-0.12.6.

  \<^bold>\<open>The program.\<close> A guest writes QXL commands to memory it shares with the server. The display worker
  (server/red_worker.c), a thread of its own that gets its orders through the dispatcher (server/dispatcher.c), parses the commands
  (server/red_parse_qxl.c); every guest address goes through the table of memory slots
  (server/red_memslots.c). The worker draws with the pixel routines of spice-common/common (rop3.c, pixman_utils.c), caches decoded
  images (server/spice_image_cache.c), compresses images for the clients (spice-common/common/lz.c and
  its templates), or encodes the screen as H.264 frames. Timers of the worker threads are in
  server/spice_timer_queue.c. Guest agents, smartcards and redirected devices talk to
  clients through the character devices of server/char_device.c; messages of the agent pass the filter of
  server/agent-msg-filter.c. Queues and caches are rings (spice-common/common/ring.h).

  \<^bold>\<open>How C is translated.\<close> A function that may stop the process or leave what C defines returns \<open>'a res\<close>, which is \<open>error + 'a\<close> (theory
  Prelude): \<open>Abort\<close> is a failed assertion, \<open>NullDeref\<close>, \<open>OutOfBounds\<close>, \<open>Overlap\<close> and the others are undefined
  behaviour, \<open>Deadlock\<close> a call that never returns, \<open>NoFuel\<close> a bound of the model that is used up. So a theorem that a
  call is \<open>Inr\<close> of something says that it returns and that nothing undefined happens on the way. Integers are words of their width where
  they may wrap. Pixel memory is a map from addresses to bytes with little-endian loads and stores; linked structures are heaps of
  records under addresses. Callbacks, system calls, the clock, \<open>malloc\<close>, pixman and the Media SDK are arguments.

  \<^bold>\<open>Theories and what they show.\<close>

  \<^item> Prelude: outcomes, words, byte memory, and the locale \<open>simulation\<close> (operation by operation refinement carries
    over to sequences of operations). Palette: the palette of draw.h, shared by two components.

  \<^item> Rop3_Table, Rop3 (rop3.c): the 256 handlers as formulas, the tables \<open>rop3_init\<close> fills, the loops over the pixels, the two entry points.
    Every code computes the truth table it spells, on every pixel and nowhere else.

  \<^item> Ring (ring.h): every inline function on an explicit pointer heap. \<open>is_ring\<close> relates the heap to a list; the operations refine those on lists and keep
    disjoint rings; the loops end. The locale \<open>ring_seq\<close> is what the clients use, and is the reason that the other components have lists in place of rings.

  \<^item> Memslots (red_memslots.c): the slot table and the translation of guest addresses. A successful translation stays inside the slot, without
    wrap-around; exactly which group and slot numbers index past the table.

  \<^item> Qxl_Guest, Qxl_Chunks, Qxl_Image, Qxl_Command (red_parse_qxl.c): all the functions of the parser, in the order of the file. \<open>guest\<close> is the shared
    memory with its slot table (the operations of Memslots); parsing is a state monad over the time, since every byte is read
    at a time of its own and the guest may write meanwhile. \<open>int\<close> host pointers into guest memory, heap copies as \<open>buffer\<close>. Qxl_Safety: no read outside the slots, for any
    contents and changes of the memory; composed by rules collected in \<open>safe_rules\<close>. Qxl_Strings, Qxl_Data: what is read twice, and the round trips of strings and paths.
    Qxl_Drawable: the whole commands. Qxl_Flaws: the inputs on which the parser fails.

  \<^item> Pixman_Image, Pixman_Ops, Pixman_Pixels, Pixman_Fill, Pixman_Blit, Pixman_Copy (pixman_utils.c, first half): raster operations on lines, filling,
    tiling, copying rectangles. The locale \<open>pixel_op\<close> says once what a loop over pixels leaves in memory; the operations are its
    interpretations at the three depths. Pixman_Bitmap (second half): formats and their conversion.

  \<^item> Image_Cache (spice_image_cache.c): hash table, chains and ring of the cache refine a list of at most two entries in the order of use
    (an interpretation of \<open>simulation\<close>), with references counted.

  \<^item> Lz_Model, Lz_Formats, Lz_Codec (lz_compress_tmpl.c, lz_decompress_tmpl.c, lz.c, lz_common.h): a template is a function of a record
    of its macros; the formats are the records. Lz_Tokens gives the compressed bytes a meaning: the locales \<open>lz_pixels\<close>, and \<open>lz_codec\<close> extending it, say what a format must satisfy,
    and the decoder of such a format turns tokens that explain an image back into the image. Lz_Compress: the compressor ends, stays in its arrays and writes such
    tokens. Lz_Round_Trip: both together, for all formats and divisions into chunks of lines. Lz_Safety: decoding of bytes nothing is known of (locale \<open>lz_reader\<close>).
    Lz_Pool: the pool of segments, no leak and no double free.

  \<^item> Char_Device (char_device.c): all operations, on one record of the device, with callbacks that may call back into the device.
    Char_Device_Inv: the locale \<open>dev_invariant\<close> says what a predicate must satisfy to be kept by every operation. Char_Device_Props: conservation of tokens, the stream of bytes to
    the device. Char_Device_Life: destruction and migration.

  \<^item> Agent_Filter (agent-msg-filter.c): the filter on chunks of bytes against the policy on messages.

  \<^item> Timer_Queue (spice_timer_queue.c): queues, timers and the lock; a step relation over any threads and an invariant of its
    reachable states; due timers fire.

  \<^item> Dispatcher (dispatcher.c): reads and writes that may be interrupted, cut short or fail; sending threads and the receiver as a step relation,
    and messages handled in the order sent.

  \<^item> H264_Qsv (red_worker.c, as built with \<open>USE_H264_QSV\<close>): opening, using and closing the encoder of the Media SDK. H264_Stream (red_worker.c, without \<open>USE_VGA_MODE\<close>): when a frame
    is sent, dropped, or sent later; builds on H264_Qsv.

  \<^bold>\<open>Bounds and fuel.\<close> Loops over counted data are structural recursion or have a termination proof; so have all the loops of the QXL parser, where the code's own limit
  on chunks and the pointers to the end of the data give the measure. Loops that follow pointers or wait for another party carry fuel, and
  the theorems say how much is enough: as many turns as a ring has items (Ring), timers are due or
  in a queue (Timer_Queue), entries the cache has (\<open>2 + fuel\<close>, as it holds at most two, for any \<open>fuel\<close>), lines are in a rectangle (Pixman_Copy, Pixman_Bitmap), pixels are in a
  segment and bytes left to decode (Lz_Model, in the definitions themselves), bytes are to be written (Char_Device), calls are put off (H264_Qsv).
  In the dispatcher the list of outcomes of the system calls is the fuel: a list that is used up says nothing. A theorem that something returns
  has enough fuel as a hypothesis; one for any fuel speaks of the calls that return, or names \<open>NoFuel\<close> among the outcomes.
  The sizes kept from the code are in its units: chunks of the agent of at most 2048 bytes, at most \<open>MAX_DATA_CHUNK\<close> bytes and \<open>MAX_CHUNKS\<close> chunks
  of guest data, two cached images, a window of 33 ms between frames, hash values of 13 bits in the LZ encoder.

  \<^bold>\<open>Assumptions.\<close> LP64 and a little-endian host; \<open>spice_malloc\<close> succeeds (it aborts otherwise); the hypotheses on the arguments (a slot table made by its
  operations, an SDK that allocates what it is asked for, timer functions that arm nothing already due) are in the statements, and each such
  theorem is followed by an instance on concrete data.

  \<^bold>\<open>Not modelled.\<close> Of red_worker.c, the drawing tree, the MJPEG streams, surfaces and pipes: one structure of some hundred fields shared by all of
  it, of which only the H.264 path is separable. Input and output, sockets and threads around them: reds.c, reds_stream.c, red_channel.c, main_channel.c, main_dispatcher.c,
  inputs_channel.c, snd_worker.c, smartcard.c, spicevmc.c, red_dispatcher.c, red_record_qxl.c, red_replay_qxl.c. Wrappers of compression libraries and the floating-point rate control of MJPEG. GLZ (glz_encoder.c and its
  dictionary shared by threads) and QUIC (quic.c). region.c, whose regions pixman computes, and lines.c, wide-line geometry from the X server. The canvases, which draw whole commands
  on pixman, OpenGL or GDI. The marshallers, generated for the most part. The client spice-gtk, the two copies of QEMU and the tools beside the server.
\<close>

end
